(* ===== verification/Go_Prelude.thy ===== *)
theory Go_Prelude
  imports Main "HOL-Library.List_Lexorder" "HOL-Library.Char_ord"
begin

text \<open>
  Shared vocabulary of the development: Go results, 64-bit counters, UTF-8 decoding, and the
  functions of Go's \<open>strings\<close>, \<open>sort\<close> and \<open>fmt\<close> packages that the repository uses.

  A Go string is a sequence of bytes, so it is a \<^typ>\<open>string\<close> here (an Isabelle
  \<^typ>\<open>char\<close> is one byte), and the order of \<open>HOL-Library.List_Lexorder\<close> over
  \<open>HOL-Library.Char_ord\<close> is Go's (and SQLite's BINARY) byte-wise string order.

  An \<open>error\<close> is its message text: \<open>fmt.Errorf\<close> with the verb \<open>%w\<close> embeds the wrapped
  error's message, and the only inspection the modelled code makes of an error is a substring
  test on that message (\<open>isWriteError\<close>, \<open>isCatalogResolutionError\<close>).  A fallible function
  returns \<open>Inl message\<close> or \<open>Inr result\<close>.

  The tables of Go's \<open>unicode\<close> package beyond ASCII are data, not code of this repository; they
  are the record \<open>unicode\<close>, an argument of every definition that consults them.
\<close>

section \<open>Collections of facts\<close>

named_theorems go_simps \<open>unfolding rules for the Go library functions\<close>
named_theorems db_simps \<open>unfolding rules for database statements and transactions\<close>
named_theorems db_env \<open>programs that leave the database's environment alone\<close>
named_theorems table_simps \<open>effects of SQL statements on tables\<close>

section \<open>Results\<close>

type_synonym err = string
type_synonym 'a res = "err + 'a"

abbreviation Err :: "err \<Rightarrow> 'a res" where "Err \<equiv> Inl"
abbreviation Ok :: "'a \<Rightarrow> 'a res" where "Ok \<equiv> Inr"

definition is_ok :: "'a res \<Rightarrow> bool" where
  "is_ok r = (case r of Inl _ \<Rightarrow> False | Inr _ \<Rightarrow> True)"

section \<open>64-bit signed counters\<close>

definition wrap64 :: "int \<Rightarrow> int" where
  "wrap64 n = (n + 2 ^ 63) mod 2 ^ 64 - 2 ^ 63"

section \<open>UTF-8\<close>

text \<open>\<open>utf8.DecodeRuneInString\<close>: the first rune of a string and its width in bytes; an invalid
  encoding is U+FFFD of width 1.  The accept ranges of the second byte are those of the
  \<open>unicode/utf8\<close> package.\<close>

abbreviation byte :: "char \<Rightarrow> nat" where "byte c \<equiv> of_char c"

definition cont_byte :: "nat \<Rightarrow> bool" where
  "cont_byte b = (128 \<le> b \<and> b \<le> 191)"

definition second_byte_ok :: "nat \<Rightarrow> nat \<Rightarrow> bool" where
  "second_byte_ok b0 b1 =
     (if b0 = 224 then 160 \<le> b1 \<and> b1 \<le> 191
      else if b0 = 237 then 128 \<le> b1 \<and> b1 \<le> 159
      else if b0 = 240 then 144 \<le> b1 \<and> b1 \<le> 191
      else if b0 = 244 then 128 \<le> b1 \<and> b1 \<le> 143
      else cont_byte b1)"

definition decode_rune :: "string \<Rightarrow> nat \<times> nat" where
  "decode_rune s =
     (case s of
        [] \<Rightarrow> (65533, 0)
      | c0 # s1 \<Rightarrow>
          let b0 = byte c0 in
          if b0 < 128 then (b0, 1)
          else if 194 \<le> b0 \<and> b0 \<le> 223 then
            (case s1 of
               c1 # _ \<Rightarrow> if cont_byte (byte c1)
                          then ((b0 - 192) * 64 + (byte c1 - 128), 2) else (65533, 1)
             | [] \<Rightarrow> (65533, 1))
          else if 224 \<le> b0 \<and> b0 \<le> 239 then
            (case s1 of
               c1 # c2 # _ \<Rightarrow>
                 if second_byte_ok b0 (byte c1) \<and> cont_byte (byte c2)
                 then ((b0 - 224) * 4096 + (byte c1 - 128) * 64 + (byte c2 - 128), 3)
                 else (65533, 1)
             | _ \<Rightarrow> (65533, 1))
          else if 240 \<le> b0 \<and> b0 \<le> 244 then
            (case s1 of
               c1 # c2 # c3 # _ \<Rightarrow>
                 if second_byte_ok b0 (byte c1) \<and> cont_byte (byte c2) \<and> cont_byte (byte c3)
                 then ((b0 - 240) * 262144 + (byte c1 - 128) * 4096 + (byte c2 - 128) * 64
                         + (byte c3 - 128), 4)
                 else (65533, 1)
             | _ \<Rightarrow> (65533, 1))
          else (65533, 1))"

text \<open>The runes of a string in order, each with the bytes it was decoded from.\<close>

fun runes :: "string \<Rightarrow> (nat \<times> string) list" where
  "runes [] = []"
| "runes (c # s) =
     (let rn = decode_rune (c # s) in (fst rn, take (snd rn) (c # s)) # runes (drop (snd rn - 1) s))"

text \<open>\<open>utf8.AppendRune\<close>, the encoding used when a rune slice becomes a string again.\<close>

definition encode_rune :: "nat \<Rightarrow> string" where
  "encode_rune r =
     (if r < 128 then [char_of r]
      else if r < 2048 then [char_of (192 + r div 64), char_of (128 + r mod 64)]
      else if r > 1114111 \<or> (55296 \<le> r \<and> r \<le> 57343)
      then [char_of (239::nat), char_of (191::nat), char_of (189::nat)]
      else if r < 65536
      then [char_of (224 + r div 4096), char_of (128 + r div 64 mod 64), char_of (128 + r mod 64)]
      else [char_of (240 + r div 262144), char_of (128 + r div 4096 mod 64),
            char_of (128 + r div 64 mod 64), char_of (128 + r mod 64)])"

section \<open>Package unicode\<close>

record unicode =
  uni_lower :: "nat \<Rightarrow> bool"
  uni_digit :: "nat \<Rightarrow> bool"
  uni_print :: "nat \<Rightarrow> bool"
  uni_to_upper :: "nat \<Rightarrow> nat"
  uni_to_lower :: "nat \<Rightarrow> nat"

definition rune_is_lower :: "unicode \<Rightarrow> nat \<Rightarrow> bool" where
  "rune_is_lower U r = (if r < 128 then 97 \<le> r \<and> r \<le> 122 else uni_lower U r)"

definition rune_is_digit :: "unicode \<Rightarrow> nat \<Rightarrow> bool" where
  "rune_is_digit U r = (if r < 128 then 48 \<le> r \<and> r \<le> 57 else uni_digit U r)"

definition rune_to_upper :: "unicode \<Rightarrow> nat \<Rightarrow> nat" where
  "rune_to_upper U r =
     (if r < 128 then (if 97 \<le> r \<and> r \<le> 122 then r - 32 else r) else uni_to_upper U r)"

definition rune_to_lower :: "unicode \<Rightarrow> nat \<Rightarrow> nat" where
  "rune_to_lower U r =
     (if r < 128 then (if 65 \<le> r \<and> r \<le> 90 then r + 32 else r) else uni_to_lower U r)"

text \<open>\<open>unicode.IsSpace\<close>: the White_Space property, written out.\<close>

definition rune_is_space :: "nat \<Rightarrow> bool" where
  "rune_is_space r =
     ((9 \<le> r \<and> r \<le> 13) \<or> r = 32 \<or> r = 133 \<or> r = 160 \<or> r = 5760 \<or> (8192 \<le> r \<and> r \<le> 8202)
      \<or> r = 8232 \<or> r = 8233 \<or> r = 8239 \<or> r = 8287 \<or> r = 12288)"

text \<open>Tables of a system that knows ASCII only, used by witnesses.\<close>

definition ascii_unicode :: unicode where
  "ascii_unicode = \<lparr>uni_lower = (\<lambda>_. False), uni_digit = (\<lambda>_. False), uni_print = (\<lambda>_. False),
     uni_to_upper = (\<lambda>r. r), uni_to_lower = (\<lambda>r. r)\<rparr>"

section \<open>Package strings\<close>

text \<open>\<open>strings.Split(s, sep)\<close> for a one-byte separator.\<close>

fun split_on :: "char \<Rightarrow> string \<Rightarrow> string list" where
  "split_on c [] = [[]]"
| "split_on c (x # s) =
     (if x = c then [] # split_on c s
      else (case split_on c s of [] \<Rightarrow> [[x]] | w # ws \<Rightarrow> (x # w) # ws))"

text \<open>\<open>strings.Join(xs, sep)\<close>.\<close>

fun join_with :: "string \<Rightarrow> string list \<Rightarrow> string" where
  "join_with sep [] = []"
| "join_with sep [w] = w"
| "join_with sep (w # v # ws) = w @ sep @ join_with sep (v # ws)"

text \<open>\<open>strings.Cut(s, sep)\<close> for a one-byte separator: \<open>None\<close> when it does not occur.\<close>

fun cut_at :: "char \<Rightarrow> string \<Rightarrow> (string \<times> string) option" where
  "cut_at c [] = None"
| "cut_at c (x # s) =
     (if x = c then Some ([], s) else map_option (\<lambda>(a, b). (x # a, b)) (cut_at c s))"

definition has_prefix :: "string \<Rightarrow> string \<Rightarrow> bool" where
  "has_prefix s p = (take (length p) s = p)"

definition has_suffix :: "string \<Rightarrow> string \<Rightarrow> bool" where
  "has_suffix s p = (length p \<le> length s \<and> drop (length s - length p) s = p)"

definition trim_prefix :: "string \<Rightarrow> string \<Rightarrow> string" where
  "trim_prefix s p = (if has_prefix s p then drop (length p) s else s)"

definition trim_suffix :: "string \<Rightarrow> string \<Rightarrow> string" where
  "trim_suffix s p = (if has_suffix s p then take (length s - length p) s else s)"

fun contains_sub :: "string \<Rightarrow> string \<Rightarrow> bool" where
  "contains_sub [] p = (p = [])"
| "contains_sub (c # s) p = (has_prefix (c # s) p \<or> contains_sub s p)"

abbreviation rune_bytes :: "(nat \<times> string) list \<Rightarrow> string" where
  "rune_bytes rs \<equiv> concat (map snd rs)"

abbreviation space_rune :: "nat \<times> string \<Rightarrow> bool" where
  "space_rune r \<equiv> rune_is_space (fst r)"

definition trim_space :: "string \<Rightarrow> string" where
  "trim_space s =
     rune_bytes (rev (dropWhile space_rune (rev (dropWhile space_rune (runes s)))))"

text \<open>\<open>strings.Fields\<close>: the maximal runs of non-space runes.\<close>

fun fields_acc :: "(nat \<times> string) list \<Rightarrow> string \<Rightarrow> string list" where
  "fields_acc [] cur = (if cur = [] then [] else [cur])"
| "fields_acc (r # rs) cur =
     (if space_rune r then (if cur = [] then fields_acc rs [] else cur # fields_acc rs [])
      else fields_acc rs (cur @ snd r))"

definition fields :: "string \<Rightarrow> string list" where
  "fields s = fields_acc (runes s) []"

definition to_lower :: "unicode \<Rightarrow> string \<Rightarrow> string" where
  "to_lower U s = concat (map (\<lambda>r. encode_rune (rune_to_lower U (fst r))) (runes s))"

text \<open>\<open>strings.ReplaceAll\<close> of a one-byte pattern.\<close>

definition replace_char :: "char \<Rightarrow> string \<Rightarrow> string \<Rightarrow> string" where
  "replace_char c new s = concat (map (\<lambda>x. if x = c then new else [x]) s)"

text \<open>The first \<open>n\<close> elements, as a \<open>LIMIT n\<close> clause yields them.\<close>

definition take_int :: "int \<Rightarrow> 'a list \<Rightarrow> 'a list" where
  "take_int n xs = (if int (length xs) \<le> n then xs else take (nat n) xs)"

lemma take_int_take: "take_int n xs = take (nat n) xs"
  by (simp add: take_int_def)

section \<open>Package fmt and strconv\<close>

text \<open>Decimal rendering (\<open>%d\<close>, \<open>strconv.FormatInt(n, 10)\<close>).\<close>

fun show_nat :: "nat \<Rightarrow> string" where
  "show_nat n = (if n < 10 then [char_of (48 + n)] else show_nat (n div 10) @ [char_of (48 + n mod 10)])"

declare show_nat.simps [simp del]

definition show_int :: "int \<Rightarrow> string" where
  "show_int i = (if i < 0 then ''-'' @ show_nat (nat (- i)) else show_nat (nat i))"

definition hex_digit :: "nat \<Rightarrow> char" where
  "hex_digit n = (if n < 10 then char_of (48 + n) else char_of (87 + n))"

fun hex_digits :: "nat \<Rightarrow> nat \<Rightarrow> string" where
  "hex_digits 0 n = []"
| "hex_digits (Suc k) n = hex_digits k (n div 16) @ [hex_digit (n mod 16)]"

text \<open>\<open>strconv.Quote\<close>, the verb \<open>%q\<close>.\<close>

definition quote_rune :: "unicode \<Rightarrow> nat \<times> string \<Rightarrow> string" where
  "quote_rune U rb =
     (let r = fst rb; bs = CHR 0x5C in
      if r = 65533 \<and> length (snd rb) = 1 then bs # CHR ''x'' # hex_digits 2 (byte (hd (snd rb)))
      else if r = 34 \<or> r = 92 then bs # snd rb
      else if 32 \<le> r \<and> r \<le> 126 then snd rb
      else if r = 7 then [bs, CHR ''a''] else if r = 8 then [bs, CHR ''b'']
      else if r = 12 then [bs, CHR ''f''] else if r = 10 then [bs, CHR ''n'']
      else if r = 13 then [bs, CHR ''r''] else if r = 9 then [bs, CHR ''t'']
      else if r = 11 then [bs, CHR ''v'']
      else if r < 32 \<or> r = 127 then bs # CHR ''x'' # hex_digits 2 r
      else if uni_print U r then snd rb
      else if r < 65536 then bs # CHR ''u'' # hex_digits 4 r
      else bs # CHR ''U'' # hex_digits 8 r)"

definition go_quote :: "unicode \<Rightarrow> string \<Rightarrow> string" where
  "go_quote U s = CHR 0x22 # concat (map (quote_rune U) (runes s)) @ [CHR 0x22]"

section \<open>Go maps as association lists\<close>

text \<open>
  A Go map is an association list with distinct keys: lookup is \<^const>\<open>map_of\<close>, assignment
  replaces the entry in place or adds one, \<open>len\<close> is the list's length.  The list order stands for
  the (unspecified) iteration order of the Go map.
\<close>

fun map_put :: "'k \<Rightarrow> 'v \<Rightarrow> ('k \<times> 'v) list \<Rightarrow> ('k \<times> 'v) list" where
  "map_put k v [] = [(k, v)]"
| "map_put k v (p # ps) = (if fst p = k then (k, v) # ps else p # map_put k v ps)"

definition map_del :: "'k \<Rightarrow> ('k \<times> 'v) list \<Rightarrow> ('k \<times> 'v) list" where
  "map_del k m = filter (\<lambda>p. fst p \<noteq> k) m"

definition map_ok :: "('k \<times> 'v) list \<Rightarrow> bool" where
  "map_ok m = distinct (map fst m)"

text \<open>A \<open>map[string]struct{}\<close> is a set: a list without duplicates.\<close>

definition set_put :: "'a \<Rightarrow> 'a list \<Rightarrow> 'a list" where
  "set_put x xs = (if x \<in> set xs then xs else xs @ [x])"

text \<open>\<open>xs[i:j]\<close> batches of a slice, \<open>for start := 0; start < len(xs); start += n\<close>.\<close>

function chunks :: "nat \<Rightarrow> 'a list \<Rightarrow> 'a list list" where
  "chunks n xs = (if xs = [] \<or> n = 0 then [] else take n xs # chunks n (drop n xs))"
  by pat_completeness auto
termination
  by (relation "measure (\<lambda>(n, xs). length xs)") (auto simp: neq_Nil_conv)

declare chunks.simps [simp del]

section \<open>Facts about strings\<close>

lemma split_on_not_Nil [simp]: "split_on c s \<noteq> []"
  by (induction s) (auto split: list.splits)

lemma split_on_Cons_neq: "x \<noteq> c \<Longrightarrow> split_on c (x # s) = (x # hd (split_on c s)) # tl (split_on c s)"
  by (cases "split_on c s") auto

lemma split_on_no_sep: "c \<notin> set s \<Longrightarrow> split_on c s = [s]"
  by (induction s) auto

lemma split_on_append_sep: "c \<notin> set w \<Longrightarrow> split_on c (w @ c # s) = w # split_on c s"
  by (induction w) auto

lemma split_on_parts: "w \<in> set (split_on c s) \<Longrightarrow> c \<notin> set w"
proof (induction s arbitrary: w)
  case Nil
  then show ?case by simp
next
  case (Cons x s)
  then show ?case
    by (cases "split_on c s") (auto split: if_splits)
qed

text \<open>Splitting a joined list of separator-free words gives the words back, and joining the parts
  of a string gives the string back.\<close>

lemma split_on_join:
  "ws \<noteq> [] \<Longrightarrow> \<forall>w\<in>set ws. c \<notin> set w \<Longrightarrow> split_on c (join_with [c] ws) = ws"
proof (induction "[c]" ws rule: join_with.induct)
  case 1
  then show ?case by simp
next
  case (2 w)
  then show ?case by (simp add: split_on_no_sep)
next
  case (3 w v ws)
  then show ?case by (simp add: split_on_append_sep)
qed

lemma join_Cons: "ws \<noteq> [] \<Longrightarrow> join_with sep (w # ws) = w @ sep @ join_with sep ws"
  by (cases ws) auto

lemma join_Cons_head: "join_with sep ((x # w) # ws) = x # join_with sep (w # ws)"
  by (cases ws) auto

lemma join_split_on [simp]: "join_with [c] (split_on c s) = s"
proof (induction s)
  case Nil
  then show ?case by simp
next
  case (Cons x s)
  then show ?case
    by (cases "split_on c s") (auto simp: join_Cons join_Cons_head)
qed

lemma split_on_inj: "split_on c s = split_on c t \<Longrightarrow> s = t"
  by (metis join_split_on)

lemma cut_at_None_iff: "cut_at c s = None \<longleftrightarrow> c \<notin> set s"
  by (induction s) auto

lemma cut_at_None [simp]: "c \<notin> set s \<Longrightarrow> cut_at c s = None"
  by (simp add: cut_at_None_iff)

lemma cut_at_Some: "cut_at c s = Some (a, b) \<Longrightarrow> s = a @ c # b \<and> c \<notin> set a"
  by (induction s arbitrary: a b) (auto split: if_splits)

lemma cut_at_append [simp]: "c \<notin> set a \<Longrightarrow> cut_at c (a @ c # b) = Some (a, b)"
  by (induction a) auto

lemma has_prefix_append [simp]: "has_prefix (p @ s) p"
  by (simp add: has_prefix_def)

lemma has_prefix_Nil [simp]: "has_prefix s []"
  by (simp add: has_prefix_def)

lemma has_prefix_iff: "has_prefix s p \<longleftrightarrow> (\<exists>t. s = p @ t)"
  by (metis append_take_drop_id has_prefix_append has_prefix_def)

lemma has_suffix_iff: "has_suffix s p \<longleftrightarrow> (\<exists>t. s = t @ p)"
  unfolding has_suffix_def
  by (metis append_take_drop_id diff_add_inverse2 length_append le_add2 append_eq_conv_conj)

lemma has_prefix_single: "has_prefix s [c] \<longleftrightarrow> (\<exists>t. s = c # t)"
  by (auto simp: has_prefix_iff)

lemma trim_prefix_append [simp]: "trim_prefix (p @ s) p = s"
  by (simp add: trim_prefix_def)

lemma trim_suffix_append [simp]: "trim_suffix (s @ p) p = s"
  by (simp add: trim_suffix_def has_suffix_iff)

lemma contains_sub_iff: "contains_sub s p \<longleftrightarrow> (\<exists>a b. s = a @ p @ b)"
proof (induction s)
  case Nil
  then show ?case by simp
next
  case (Cons c s)
  show ?case
  proof
    assume "contains_sub (c # s) p"
    then consider "has_prefix (c # s) p" | "contains_sub s p" by auto
    then show "\<exists>a b. c # s = a @ p @ b"
    proof cases
      case 1
      then show ?thesis by (metis append_Nil has_prefix_iff)
    next
      case 2
      then show ?thesis using Cons.IH by (metis append_Cons)
    qed
  next
    assume "\<exists>a b. c # s = a @ p @ b"
    then obtain a b where ab: "c # s = a @ p @ b" by blast
    show "contains_sub (c # s) p"
    proof (cases a)
      case Nil
      then have "has_prefix (c # s) p" using ab by (metis append_Nil has_prefix_iff)
      then show ?thesis by simp
    next
      case (Cons d a')
      then show ?thesis using ab Cons.IH by auto
    qed
  qed
qed

lemma contains_sub_append: "contains_sub s p \<Longrightarrow> contains_sub (u @ s @ v) p"
  by (auto simp: contains_sub_iff) (metis append.assoc)

section \<open>Facts about runes\<close>

definition ascii :: "string \<Rightarrow> bool" where
  "ascii s = (\<forall>c\<in>set s. byte c < 128)"

lemma ascii_simps [simp]:
  "ascii []" "ascii (c # s) \<longleftrightarrow> byte c < 128 \<and> ascii s" "ascii (s @ t) \<longleftrightarrow> ascii s \<and> ascii t"
  by (auto simp: ascii_def)

lemma decode_rune_ascii: "byte c < 128 \<Longrightarrow> decode_rune (c # s) = (byte c, 1)"
  by (simp add: decode_rune_def)

lemma decode_rune_width: "snd (decode_rune (c # s)) \<in> {1..length (c # s)}"
  by (auto simp: decode_rune_def Let_def split: list.splits)

lemma runes_ascii: "ascii s \<Longrightarrow> runes s = map (\<lambda>c. (byte c, [c])) s"
  by (induction s) (auto simp: decode_rune_ascii)

lemma encode_rune_ascii: "byte c < 128 \<Longrightarrow> encode_rune (byte c) = [c]"
  by (simp add: encode_rune_def)

lemma to_lower_id:
  assumes "ascii s" "list_all (\<lambda>c. \<not> (65 \<le> byte c \<and> byte c \<le> 90)) s"
  shows "to_lower U s = s"
proof -
  have "concat (map (\<lambda>c. encode_rune (rune_to_lower U (byte c))) s) = s"
    using assms by (induction s) (auto simp: rune_to_lower_def encode_rune_ascii)
  then show ?thesis using assms(1) by (simp add: to_lower_def runes_ascii comp_def)
qed

lemma wrap64_id: "- (2 ^ 63) \<le> n \<Longrightarrow> n < 2 ^ 63 \<Longrightarrow> wrap64 n = n"
  by (simp add: wrap64_def)

lemma rune_bytes_runes [simp]: "rune_bytes (runes s) = s"
proof (induction s rule: runes.induct)
  case 1
  then show ?case by simp
next
  case (2 c s)
  define n where "n = snd (decode_rune (c # s))"
  have "n \<ge> 1" using decode_rune_width [of c s] by (simp add: n_def)
  then obtain m where n: "n = Suc m" by (cases n) auto
  have "rune_bytes (runes (drop (n - 1) s)) = drop (n - 1) s"
    using 2 by (simp add: n_def)
  then show ?case using n by (simp add: Let_def n_def [symmetric])
qed

lemma runes_bytes_nonempty: "r \<in> set (runes s) \<Longrightarrow> snd r \<noteq> []"
proof (induction s rule: runes.induct)
  case 1
  then show ?case by simp
next
  case (2 c s)
  then show ?case using decode_rune_width [of c s] by (auto simp: Let_def)
qed

lemma fields_acc_nonempty: "w \<in> set (fields_acc rs cur) \<Longrightarrow> \<forall>r\<in>set rs. snd r \<noteq> [] \<Longrightarrow> w \<noteq> []"
  by (induction rs cur rule: fields_acc.induct) (auto split: if_splits)

lemma fields_nonempty: "w \<in> set (fields s) \<Longrightarrow> w \<noteq> []"
  unfolding fields_def using fields_acc_nonempty runes_bytes_nonempty by blast

section \<open>Facts about Go maps\<close>

lemma map_of_map_put [simp]: "map_of (map_put k v m) = (map_of m)(k \<mapsto> v)"
  by (induction m) auto

lemma map_of_map_del [simp]: "map_of (map_del k m) = (map_of m)(k := None)"
  by (induction m) (auto simp: map_del_def)

lemma keys_map_put [simp]: "fst ` set (map_put k v m) = insert k (fst ` set m)"
  by (induction m) auto

lemma keys_map_del [simp]: "fst ` set (map_del k m) = fst ` set m - {k}"
  by (auto simp: map_del_def)

lemma map_ok_Nil [simp]: "map_ok []"
  by (simp add: map_ok_def)

lemma map_ok_map_put [simp]: "map_ok m \<Longrightarrow> map_ok (map_put k v m)"
proof (induction m)
  case Nil
  then show ?case by (simp add: map_ok_def)
next
  case (Cons p m)
  then show ?case
    using keys_map_put [of k v m] by (auto simp: map_ok_def)
qed

lemma map_ok_map_del [simp]: "map_ok m \<Longrightarrow> map_ok (map_del k m)"
  by (simp add: map_ok_def map_del_def distinct_map_filter)

lemma length_map_put:
  "length (map_put k v m) = (if k \<in> fst ` set m then length m else Suc (length m))"
  by (induction m) auto

lemma map_of_is_None_keys: "map_of m k = None \<longleftrightarrow> k \<notin> fst ` set m"
  by (rule map_of_eq_None_iff)

lemma set_set_put [simp]: "set (set_put x xs) = insert x (set xs)"
  by (auto simp: set_put_def)

lemma distinct_set_put [simp]: "distinct xs \<Longrightarrow> distinct (set_put x xs)"
  by (auto simp: set_put_def)

lemma length_set_put_le: "length (set_put x xs) \<le> Suc (length xs)"
  by (simp add: set_put_def)

section \<open>Batches\<close>

lemma chunks_Nil [simp]: "chunks n [] = []"
  by (simp add: chunks.simps)

lemma concat_chunks [simp]: "0 < n \<Longrightarrow> concat (chunks n xs) = xs"
proof (induction n xs rule: chunks.induct)
  case (1 n xs)
  then show ?case by (cases "xs = []") (simp_all add: chunks.simps [of n xs])
qed

lemma chunks_length: "b \<in> set (chunks n xs) \<Longrightarrow> length b \<le> n"
proof (induction n xs rule: chunks.induct)
  case (1 n xs)
  then show ?case by (cases "xs = [] \<or> n = 0") (auto simp: chunks.simps [of n xs])
qed

section \<open>Sorting\<close>

text \<open>Two sorted duplicate-free lists with the same elements are equal, so \<open>sort.Strings\<close> over the
  keys of a Go map does not depend on the map's iteration order.\<close>

lemma sort_set_eqI:
  fixes xs ys :: "'a::linorder list"
  assumes "distinct xs" "distinct ys" "set xs = set ys"
  shows "sort xs = sort ys"
  using assms by (metis sorted_list_of_set_sort_remdups distinct_remdups_id)

section \<open>Decimal rendering\<close>

lemma show_nat_nonempty [simp]: "show_nat n \<noteq> []"
  by (subst show_nat.simps) simp

lemma char_of_digit_eq: "a < 10 \<Longrightarrow> b < 10 \<Longrightarrow> char_of (48 + a) = (char_of (48 + b) :: char) \<longleftrightarrow> a = (b::nat)"
  by (simp add: char_of_eq_iff take_bit_eq_mod)

lemma show_nat_inj: "show_nat m = show_nat n \<Longrightarrow> m = n"
proof (induction m arbitrary: n rule: show_nat.induct)
  case (1 m)
  show ?case
  proof (cases "m < 10")
    case True
    then show ?thesis
      using "1.prems" show_nat_nonempty [of "n div 10"]
      by (cases "n < 10") (auto simp: show_nat.simps [of m] show_nat.simps [of n] char_of_digit_eq)
  next
    case mbig: False
    then have "\<not> n < 10"
      using "1.prems" show_nat_nonempty [of "m div 10"]
      by (auto simp: show_nat.simps [of m] show_nat.simps [of n])
    with mbig "1.prems" have "show_nat (m div 10) = show_nat (n div 10)"
      and "char_of (48 + m mod 10) = (char_of (48 + n mod 10) :: char)"
      by (simp_all add: show_nat.simps [of m] show_nat.simps [of n])
    then have "m div 10 = n div 10" "m mod 10 = n mod 10"
      using "1.IH" mbig by (simp_all add: char_of_digit_eq)
    then show ?thesis by (metis div_mult_mod_eq)
  qed
qed

lemma show_nat_no_dash: "CHR ''-'' \<notin> set (show_nat n)"
proof (induction n rule: show_nat.induct)
  case (1 n)
  have d: "CHR ''-'' \<noteq> (char_of (48 + k) :: char)" if "k < 10" for k :: nat
  proof
    assume "CHR ''-'' = (char_of (48 + k) :: char)"
    then have "of_char CHR ''-'' = (of_char (char_of (48 + k) :: char) :: nat)" by simp
    then show False using that by simp
  qed
  show ?case
    using 1 d [of n] d [of "n mod 10"] by (cases "n < 10") (auto simp: show_nat.simps [of n])
qed

lemma show_int_inj: "show_int i = show_int j \<Longrightarrow> i = j"
proof -
  assume eq: "show_int i = show_int j"
  have no: "show_nat a \<noteq> CHR ''-'' # s" for a s using show_nat_no_dash [of a] by auto
  show "i = j"
    using eq no no [symmetric]
    by (auto simp: show_int_def split: if_splits dest!: show_nat_inj)
qed

lemma fst_snd_eq: "fst p = a \<Longrightarrow> p = (a, snd p)"
  by (cases p) simp

end
