(* ===== verification/Nsid.thy ===== *)
theory Nsid
  imports Go_Prelude
begin

text \<open>
  AT Protocol namespaced identifiers and lexicon references: \<open>internal/lexicon/nsid.go\<close>, and the
  comma-separated collection lists of \<open>internal/atproto/collections.go\<close>.
  The lemmas show that references survive a parse/print round trip, that an NSID is its domain
  parts followed by its collection name, and that the GraphQL names generated from well-formed
  NSIDs do not collide.
\<close>

section \<open>Definitions\<close>

text \<open>\<open>capitalizeFirst\<close>: the string is decoded to runes, the first is mapped to upper case and
  the rune slice is encoded again.\<close>

definition capitalizeFirst :: "unicode \<Rightarrow> string \<Rightarrow> string" where
  "capitalizeFirst U s =
     (if s = [] then s
      else (case map fst (runes s) of
              [] \<Rightarrow> []
            | r # rs \<Rightarrow> concat (map encode_rune (rune_to_upper U r # rs))))"

definition ToTypeName :: "unicode \<Rightarrow> string \<Rightarrow> string" where
  "ToTypeName U nsid = concat (map (capitalizeFirst U) (split_on CHR ''.'' nsid))"

definition ToFieldName :: "unicode \<Rightarrow> string \<Rightarrow> string" where
  "ToFieldName U nsid =
     (case split_on CHR ''.'' nsid of
        [] \<Rightarrow> nsid
      | p # ps \<Rightarrow> p @ concat (map (capitalizeFirst U) ps))"

definition ToCollectionName :: "string \<Rightarrow> string" where
  "ToCollectionName nsid =
     (let parts = split_on CHR ''.'' nsid in if parts = [] then [] else last parts)"

definition ToDomainParts :: "string \<Rightarrow> string list" where
  "ToDomainParts nsid =
     (let parts = split_on CHR ''.'' nsid in if length parts \<le> 1 then [] else butlast parts)"

text \<open>The loop body of \<open>IsValidNSID\<close> for one segment.\<close>

definition valid_segment :: "unicode \<Rightarrow> string \<Rightarrow> bool" where
  "valid_segment U part =
     (part \<noteq> []
      \<and> list_all (\<lambda>r. rune_is_lower U (fst r) \<or> rune_is_digit U (fst r) \<or> fst r = 45) (runes part)
      \<and> \<not> has_prefix part ''-'' \<and> \<not> has_suffix part ''-'')"

definition IsValidNSID :: "unicode \<Rightarrow> string \<Rightarrow> bool" where
  "IsValidNSID U nsid =
     (let parts = split_on CHR ''.'' nsid in
      if length parts < 3 then False else list_all (valid_segment U) parts)"

text \<open>\<open>ParseRef\<close> returns the lexicon ID, the definition name and whether the reference is
  usable; the empty reference is the only failure.\<close>

definition ParseRef :: "string \<Rightarrow> string \<times> string \<times> bool" where
  "ParseRef ref =
     (if ref = [] then ([], [], False)
      else if has_prefix ref ''#'' then ([], trim_prefix ref ''#'', True)
      else (case cut_at CHR ''#'' ref of
              None \<Rightarrow> (ref, [], True)
            | Some (a, b) \<Rightarrow> (a, b, True)))"

definition IDFromRef :: "string \<Rightarrow> string" where
  "IDFromRef ref = fst (ParseRef ref)"

definition DefNameFromRef :: "string \<Rightarrow> string" where
  "DefNameFromRef ref = fst (snd (ParseRef ref))"

definition IsLocalRef :: "string \<Rightarrow> bool" where
  "IsLocalRef ref = has_prefix ref ''#''"

definition ResolveLocalRef :: "string \<Rightarrow> string \<Rightarrow> string" where
  "ResolveLocalRef ref lexiconID = (if IsLocalRef ref then lexiconID @ ref else ref)"

definition MakeRef :: "string \<Rightarrow> string \<Rightarrow> string" where
  "MakeRef lexiconID defName = (if defName = [] then lexiconID else lexiconID @ ''#'' @ defName)"

text \<open>\<open>atproto.ParseCollections\<close>; its \<open>nil\<close> result is the empty list.\<close>

definition ParseCollections :: "string \<Rightarrow> string list" where
  "ParseCollections s =
     (if s = [] then []
      else filter (\<lambda>p. p \<noteq> []) (map trim_space (split_on CHR '','' s)))"

section \<open>References\<close>

text \<open>Printing a reference with \<open>MakeRef\<close> and parsing it with \<open>ParseRef\<close> gives back the lexicon
  ID and the definition name, for every non-empty ID that holds no \<open>#\<close>; the extractors and the
  resolution of a local reference agree with it.\<close>

theorem ParseRef_MakeRef:
  assumes "lexID \<noteq> []" and "CHR ''#'' \<notin> set lexID"
  shows "ParseRef (MakeRef lexID name) = (lexID, name, True) \<and>
         IDFromRef (ResolveLocalRef (''#'' @ name) lexID) = lexID \<and>
         DefNameFromRef (ResolveLocalRef (''#'' @ name) lexID) = name"
proof (intro conjI)
  have np: "\<not> has_prefix (lexID @ t) ''#''" for t
    using assms by (cases lexID) (auto simp: has_prefix_def)
  have np': "\<not> has_prefix lexID ''#''" using np [of "[]"] by simp
  have cut: "cut_at CHR ''#'' (lexID @ CHR ''#'' # name) = Some (lexID, name)"
    using assms by simp
  have full: "ParseRef (lexID @ CHR ''#'' # name) = (lexID, name, True)"
    using assms(1) np [of "CHR ''#'' # name"] cut by (simp add: ParseRef_def)
  have none: "cut_at CHR ''#'' lexID = None" using assms(2) by simp
  show "ParseRef (MakeRef lexID name) = (lexID, name, True)"
  proof (cases "name = []")
    case True
    then show ?thesis using assms(1) np' none by (simp add: MakeRef_def ParseRef_def)
  next
    case False
    then show ?thesis using full by (simp add: MakeRef_def)
  qed
  show "IDFromRef (ResolveLocalRef (''#'' @ name) lexID) = lexID"
    and "DefNameFromRef (ResolveLocalRef (''#'' @ name) lexID) = name"
    using full by (simp_all add: IDFromRef_def DefNameFromRef_def ResolveLocalRef_def IsLocalRef_def
        has_prefix_def)
qed

theorem ParseRef_MakeRef_witness:
  "ParseRef (MakeRef ''a.b.c'' ''d'') = (''a.b.c'', ''d'', True)"
  using ParseRef_MakeRef [of "''a.b.c''" "''d''"] by simp

section \<open>Segments of an NSID\<close>

lemma nsid_domain_and_name:
  "CHR ''.'' \<in> set nsid \<Longrightarrow>
   join_with ''.'' (ToDomainParts nsid @ [ToCollectionName nsid]) = nsid"
proof -
  assume dot: "CHR ''.'' \<in> set nsid"
  let ?ps = "split_on CHR ''.'' nsid"
  have "length ?ps \<noteq> 1"
  proof
    assume "length ?ps = 1"
    then obtain w where w: "?ps = [w]" by (cases ?ps) auto
    then have "nsid = w" using join_split_on [of "CHR ''.''" nsid] by simp
    then show False using w dot split_on_parts [of w "CHR ''.''" nsid] by simp
  qed
  then have "\<not> length ?ps \<le> 1" using split_on_not_Nil [of "CHR ''.''" nsid] by (cases ?ps) auto
  then have "ToDomainParts nsid @ [ToCollectionName nsid] = ?ps"
    by (simp add: ToDomainParts_def ToCollectionName_def)
  then show ?thesis by simp
qed

section \<open>Generated GraphQL names\<close>

text \<open>A segment in the shape the generated names rely on: an ASCII word that starts with a lower
  case letter and holds no upper case letter.\<close>

abbreviation upper_char :: "char \<Rightarrow> bool" where
  "upper_char c \<equiv> 65 \<le> byte c \<and> byte c \<le> (90::nat)"

abbreviation lower_char :: "char \<Rightarrow> bool" where
  "lower_char c \<equiv> 97 \<le> byte c \<and> byte c \<le> (122::nat)"

definition letter_segment :: "string \<Rightarrow> bool" where
  "letter_segment w = (ascii w \<and> w \<noteq> [] \<and> lower_char (hd w) \<and> list_all (\<lambda>c. \<not> upper_char c) w)"

definition up_char :: "char \<Rightarrow> char" where
  "up_char c = char_of (byte c - 32 :: nat)"

lemma concat_encode_ascii: "ascii s \<Longrightarrow> concat (map (\<lambda>c. encode_rune (byte c)) s) = s"
  by (induction s) (auto simp: encode_rune_ascii)

lemma capitalizeFirst_letter:
  assumes "letter_segment (c # w)"
  shows "capitalizeFirst U (c # w) = up_char c # w"
proof -
  have a: "ascii (c # w)" and lc: "lower_char c" using assms by (auto simp: letter_segment_def)
  have "rune_to_upper U (byte c) = byte c - 32" using lc by (simp add: rune_to_upper_def)
  moreover have "byte c - 32 < (128::nat)" using lc by linarith
  then have "encode_rune (byte c - 32) = [up_char c]"
    by (simp add: encode_rune_def up_char_def)
  ultimately show ?thesis
    using a concat_encode_ascii [of w]
    by (simp add: capitalizeFirst_def runes_ascii [OF a] comp_def del: runes.simps)
qed

lemma up_char_props:
  assumes "lower_char c"
  shows "upper_char (up_char c)" and "lower_char d \<Longrightarrow> up_char c = up_char d \<Longrightarrow> c = d"
proof -
  have b: "byte (up_char x) = byte x - (32::nat)" if "lower_char x" for x
  proof -
    have "byte x - 32 < (256::nat)" using that by linarith
    then show ?thesis by (simp add: up_char_def take_bit_eq_mod)
  qed
  show "upper_char (up_char c)" using b [OF assms] assms by presburger
  show "c = d" if "lower_char d" "up_char c = up_char d"
  proof -
    have "byte c - (32::nat) = byte d - 32" using b [OF assms] b [OF that(1)] that(2) by simp
    then have "byte c = (byte d :: nat)" using assms that(1) by linarith
    then show ?thesis by (simp only: of_char_eq_iff)
  qed
qed

text \<open>The generated name of a list of segments: the parts can be read off at the upper case
  letters.\<close>

lemma split_at_upper:
  assumes "list_all (\<lambda>c. \<not> upper_char c) a" and "list_all (\<lambda>c. \<not> upper_char c) b"
    and "x = [] \<or> upper_char (hd x)" and "y = [] \<or> upper_char (hd y)"
    and "a @ x = b @ y"
  shows "a = b \<and> x = y"
proof -
  have tw: "takeWhile (\<lambda>c. \<not> upper_char c) (u @ z) = u"
    if "list_all (\<lambda>c. \<not> upper_char c) u" "z = [] \<or> upper_char (hd z)" for u z
    using that by (induction u) (cases z, auto)
  have "a = b" using tw [OF assms(1,3)] tw [OF assms(2,4)] assms(5) by simp
  then show ?thesis using assms(5) by simp
qed

abbreviation caps :: "unicode \<Rightarrow> string list \<Rightarrow> string" where
  "caps U ps \<equiv> concat (map (capitalizeFirst U) ps)"

lemma caps_starts_upper: "\<forall>p\<in>set ps. letter_segment p \<Longrightarrow> caps U ps = [] \<or> upper_char (hd (caps U ps))"
proof (cases ps)
  case Nil
  then show ?thesis by simp
next
  case (Cons p qs)
  assume "\<forall>p\<in>set ps. letter_segment p"
  with Cons obtain c w where p: "p = c # w" and l: "letter_segment (c # w)"
    by (cases p) (auto simp: letter_segment_def)
  then have "lower_char c" by (simp add: letter_segment_def)
  then show ?thesis
    using Cons p capitalizeFirst_letter [OF l, of U] up_char_props(1) [of c] by simp
qed

lemma caps_inj:
  assumes "\<forall>p\<in>set ps. letter_segment p" and "\<forall>q\<in>set qs. letter_segment q"
    and "caps U ps = caps U qs"
  shows "ps = qs"
  using assms
proof (induction ps arbitrary: qs)
  case Nil
  show ?case
  proof (cases qs)
    case (Cons q qs')
    then obtain c w where "q = c # w" "letter_segment (c # w)"
      using Nil.prems(2) by (cases q) (auto simp: letter_segment_def)
    then show ?thesis using Nil.prems(3) Cons capitalizeFirst_letter [of c w U] by simp
  qed simp
next
  case (Cons p ps)
  obtain c w where p: "p = c # w" and lp: "letter_segment (c # w)"
    using Cons.prems(1) by (cases p) (auto simp: letter_segment_def)
  show ?case
  proof (cases qs)
    case Nil
    then show ?thesis using Cons.prems(3) p capitalizeFirst_letter [OF lp, of U] by simp
  next
    case (Cons q qs')
    obtain d v where q: "q = d # v" and lq: "letter_segment (d # v)"
      using Cons Cons.prems(2) by (cases q) (auto simp: letter_segment_def)
    have eq: "up_char c # w @ caps U ps = up_char d # v @ caps U qs'"
      using Cons.prems(3) Cons p q capitalizeFirst_letter [OF lp, of U]
        capitalizeFirst_letter [OF lq, of U] by simp
    have lc: "lower_char c" "lower_char d" and nu: "list_all (\<lambda>c. \<not> upper_char c) w"
      "list_all (\<lambda>c. \<not> upper_char c) v"
      using lp lq by (auto simp: letter_segment_def)
    have cd: "c = d" using eq up_char_props(2) [OF lc(1) lc(2)] by simp
    have "w = v \<and> caps U ps = caps U qs'"
      using eq split_at_upper [OF nu, of "caps U ps" "caps U qs'"] caps_starts_upper [of ps U]
        caps_starts_upper [of qs' U] Cons Cons.prems(1,2) by simp
    then have "w = v" and "ps = qs'"
      using Cons.IH [of qs'] Cons Cons.prems(1,2) by simp_all
    then show ?thesis using cd p q Cons by simp
  qed
qed

lemma split_eq_dest: "split_on c s = split_on c t \<longleftrightarrow> s = t"
  using split_on_inj by blast

text \<open>Two NSIDs whose segments are lower case words starting with a letter have different
  GraphQL type names and different GraphQL field names unless they are the same NSID, so the
  schema generated from such lexicons has no name clashes.\<close>

theorem graphql_names_injective:
  assumes "list_all letter_segment (split_on CHR ''.'' m)"
    and "list_all letter_segment (split_on CHR ''.'' n)"
  shows "(ToTypeName U m = ToTypeName U n \<longrightarrow> m = n) \<and>
         (ToFieldName U m = ToFieldName U n \<longrightarrow> m = n)"
proof (intro conjI impI)
  have sm: "\<forall>p\<in>set (split_on CHR ''.'' m). letter_segment p"
    and sn: "\<forall>p\<in>set (split_on CHR ''.'' n). letter_segment p"
    using assms by (auto simp: list_all_iff)
  show "m = n" if "ToTypeName U m = ToTypeName U n"
    using that caps_inj [OF sm sn] by (simp add: ToTypeName_def split_eq_dest)
  show "m = n" if eq: "ToFieldName U m = ToFieldName U n"
  proof -
    obtain p ps where m: "split_on CHR ''.'' m = p # ps" by (cases "split_on CHR ''.'' m") auto
    obtain q qs where n: "split_on CHR ''.'' n = q # qs" by (cases "split_on CHR ''.'' n") auto
    have "p @ caps U ps = q @ caps U qs" using eq m n by (simp add: ToFieldName_def)
    then have "p = q \<and> caps U ps = caps U qs"
      using split_at_upper [of p q "caps U ps" "caps U qs"] caps_starts_upper [of ps U]
        caps_starts_upper [of qs U] sm sn m n by (auto simp: letter_segment_def)
    then have "p = q" and "ps = qs" using caps_inj [of ps qs U] sm sn m n by auto
    then show ?thesis using m n split_on_inj [of "CHR ''.''" m n] by simp
  qed
qed

theorem graphql_names_injective_witness:
  "ToTypeName ascii_unicode ''a.b'' \<noteq> ToTypeName ascii_unicode ''a.bc''"
proof
  assume eq: "ToTypeName ascii_unicode ''a.b'' = ToTypeName ascii_unicode ''a.bc''"
  have "''a.b'' = ''a.bc''"
    using graphql_names_injective [of "''a.b''" "''a.bc''" ascii_unicode] eq
    by (simp add: letter_segment_def)
  then show False by simp
qed

end
