(* ===== verification/Json_Time.thy ===== *)
theory Json_Time
  imports Go_Prelude
begin

text \<open>
  JSON values and the record timestamps of \<open>internal/atproto/time.go\<close>.

  Decoding JSON text (\<open>encoding/json\<close>) and parsing AT Protocol datetimes (Indigo's
  \<open>syntax.ParseDatetimeTime\<close>) are parameters, the record \<open>decoders\<close>: the first maps a text to its
  value, \<open>None\<close> for a syntax error, the second maps a text to nanoseconds since the Unix epoch.
  Everything the repository computes from their results is written out, including the UTC calendar
  rendering of \<open>time.Time.Format\<close>.
\<close>

section \<open>Values\<close>

datatype json =
    JNull
  | JBool bool
  | JNum string
  | JStr string
  | JArr "json list"
  | JObj "(string \<times> json) list"

text \<open>The value of a key of a decoded object: with duplicate keys the last one counts.\<close>

definition json_get :: "string \<Rightarrow> (string \<times> json) list \<Rightarrow> json option" where
  "json_get k fs = map_of (rev fs) k"

record decoders =
  dec_json :: "string \<Rightarrow> json option"
  dec_datetime :: "string \<Rightarrow> int option"

section \<open>Calendar\<close>

text \<open>The proleptic Gregorian date of a day count since 1970-01-01.\<close>

definition civil_of_days :: "int \<Rightarrow> int \<times> int \<times> int" where
  "civil_of_days days =
     (let z = days + 719468; era = z div 146097; doe = z mod 146097;
          yoe = (doe - doe div 1460 + doe div 36524 - doe div 146096) div 365;
          doy = doe - (365 * yoe + yoe div 4 - yoe div 100);
          mp = (5 * doy + 2) div 153;
          d = doy - (153 * mp + 2) div 5 + 1;
          m = (if mp < 10 then mp + 3 else mp - 9);
          y = yoe + era * 400 + (if m \<le> 2 then 1 else 0)
      in (y, m, d))"

definition pad :: "nat \<Rightarrow> int \<Rightarrow> string" where
  "pad w n = (let s = show_nat (nat \<bar>n\<bar>)
              in (if n < 0 then ''-'' else []) @ replicate (w - length s) CHR ''0'' @ s)"

text \<open>\<open>t.UTC().Truncate(time.Millisecond).Format("2006-01-02T15:04:05.000Z")\<close>.\<close>

definition format_millis :: "int \<Rightarrow> string" where
  "format_millis ns =
     (let ms = ns div 1000000; (y, m, d) = civil_of_days (ms div 86400000); t = ms mod 86400000
      in pad 4 y @ ''-'' @ pad 2 m @ ''-'' @ pad 2 d @ ''T'' @ pad 2 (t div 3600000) @ '':'' @
         pad 2 (t div 60000 mod 60) @ '':'' @ pad 2 (t div 1000 mod 60) @ ''.'' @
         pad 3 (t mod 1000) @ ''Z'')"

definition NormalizeRecordDatetime :: "decoders \<Rightarrow> string \<Rightarrow> string option" where
  "NormalizeRecordDatetime X v = (if v = [] then None else map_option format_millis (dec_datetime X v))"

text \<open>Decoding into \<open>map[string]json.RawMessage\<close> fails on anything but an object or \<open>null\<close> (which
  gives an empty map), and decoding the raw value into a string accepts a string or \<open>null\<close>
  (which leaves the empty string).\<close>

definition NormalizeRecordCreatedAt :: "decoders \<Rightarrow> string \<Rightarrow> string option" where
  "NormalizeRecordCreatedAt X recordJSON =
     (case dec_json X recordJSON of
        Some (JObj fs) \<Rightarrow>
          (case json_get ''createdAt'' fs of
             Some (JStr v) \<Rightarrow> NormalizeRecordDatetime X v
           | Some JNull \<Rightarrow> NormalizeRecordDatetime X []
           | _ \<Rightarrow> None)
      | _ \<Rightarrow> None)"

text \<open>Decoders that know no text, for evaluating the model where decoding is beside the point.\<close>

definition no_decoders :: decoders where
  "no_decoders = \<lparr>dec_json = (\<lambda>_. None), dec_datetime = (\<lambda>_. None)\<rparr>"

section \<open>Facts\<close>

lemma NormalizeRecordDatetime_empty [simp]: "NormalizeRecordDatetime X [] = None"
  by (simp add: NormalizeRecordDatetime_def)

text \<open>Timestamps that differ by less than the precision of the column are stored alike.\<close>

lemma format_millis_truncates: "format_millis ns = format_millis (ns div 1000000 * 1000000)"
  by (simp add: format_millis_def)

lemma format_millis_epoch: "format_millis 0 = ''1970-01-01T00:00:00.000Z''"
  by code_simp

end
