(* ===== verification/Lexicon_Parser.thy ===== *)
theory Lexicon_Parser
  imports Nsid Json_Time
begin

text \<open>Lexicon documents (\<open>internal/lexicon/types.go\<close>, \<open>internal/lexicon/parser.go\<close>): the Go structs, the decoding rules of
  \<open>encoding/json\<close> the parser relies on, and the parser from a JSON document to a lexicon.  The text-to-JSON step is the parameter
  \<open>dec_json\<close>; the wording of decoding errors is the parameter \<open>je\<close>.  Go ranges over a map in an unspecified order; the model takes the
  order of insertion, which fixes only which of several errors is reported.\<close>

section \<open>Types\<close>

record array_items =
  ai_type :: string
  ai_ref :: string
  ai_refs :: "string list"

text \<open>The fields of \<open>Property\<close> other than \<open>InlineObject\<close>; numbers are kept as their JSON literals.\<close>

record property_fields =
  pf_type :: string
  pf_required :: bool
  pf_format :: string
  pf_ref :: string
  pf_refs :: "string list"
  pf_items :: "array_items option"
  pf_description :: string
  pf_default :: "json option"
  pf_minimum :: "string option"
  pf_maximum :: "string option"
  pf_min_length :: "string option"
  pf_max_length :: "string option"
  pf_enum :: "string list"
  pf_const :: "json option"
  pf_known_values :: "string list"

datatype property = Property (prop_fields: property_fields) (InlineObject: "object_def option")
and object_def = ObjectDef (od_type: string) (od_required: "string list") (od_properties: "(string \<times> property) list")

record record_def =
  rd_type :: string
  rd_key :: string
  rd_properties :: "(string \<times> property) list"

record lex_def =
  ld_type :: string
  ld_record :: "record_def option"
  ld_object :: "object_def option"

record lexicon =
  lx_id :: string
  lx_main :: "record_def option"
  lx_others :: "(string \<times> lex_def) list"

definition IsRecordDef :: "lex_def \<Rightarrow> bool" where
  "IsRecordDef d = (ld_type d = ''record'' \<and> ld_record d \<noteq> None)"

definition IsObjectDef :: "lex_def \<Rightarrow> bool" where
  "IsObjectDef d = (ld_type d = ''object'' \<and> ld_object d \<noteq> None)"

definition GetProperty :: "string \<Rightarrow> (string \<times> property) list \<Rightarrow> property option" where
  "GetProperty name props = map_of props name"

definition IsRequired :: "object_def \<Rightarrow> string \<Rightarrow> bool" where
  "IsRequired d name = (name \<in> set (od_required d))"

definition HasRef :: "property \<Rightarrow> bool" where
  "HasRef p = (pf_ref (prop_fields p) \<noteq> [] \<or> length (pf_refs (prop_fields p)) > 0)"

definition IsUnion :: "property \<Rightarrow> bool" where
  "IsUnion p = (pf_type (prop_fields p) = ''union'' \<or> length (pf_refs (prop_fields p)) > 0)"

definition IsArray :: "property \<Rightarrow> bool" where
  "IsArray p = (pf_type (prop_fields p) = ''array'')"

definition GetRefs :: "property \<Rightarrow> string list" where
  "GetRefs p = (if length (pf_refs (prop_fields p)) > 0 then pf_refs (prop_fields p)
     else if pf_ref (prop_fields p) \<noteq> [] then [pf_ref (prop_fields p)] else [])"

definition RequiredProperties :: "record_def \<Rightarrow> (string \<times> property) list" where
  "RequiredProperties r = filter (\<lambda>e. pf_required (prop_fields (snd e))) (rd_properties r)"

text \<open>Go's zero value of a property type, nil for the compound types.\<close>

definition ZeroValueForType :: "string \<Rightarrow> json option" where
  "ZeroValueForType t =
     (if t = ''string'' then Some (JStr []) else if t = ''integer'' then Some (JNum ''0'')
      else if t = ''boolean'' then Some (JBool False) else if t = ''array'' then Some (JArr []) else None)"

section \<open>Decoding into structs\<close>

text \<open>Field names are matched under the case folding of \<open>encoding/json\<close>: ASCII letters, the Kelvin sign and the long s.\<close>

definition fold_rune :: "nat \<Rightarrow> nat" where
  "fold_rune r = (if 97 \<le> r \<and> r \<le> 122 then r - 32 else if r = 8490 then 75 else if r = 383 then 83 else r)"

definition names_field :: "string \<Rightarrow> string \<Rightarrow> bool" where
  "names_field key name = (key = name \<or> map (fold_rune \<circ> fst) (runes key) = map (fold_rune \<circ> fst) (runes name))"

text \<open>The value a field ends up with when the members are decoded in order: \<open>get cur v\<close> is the value after a member \<open>v\<close> when the
  field held \<open>cur\<close>, and None where the type of \<open>v\<close> does not fit.  \<open>je\<close> is the message of that failure.\<close>

fun decode_field :: "(string \<Rightarrow> json \<Rightarrow> err) \<Rightarrow> string \<Rightarrow> ('a \<Rightarrow> json \<Rightarrow> 'a option) \<Rightarrow> 'a \<Rightarrow> (string \<times> json) list \<Rightarrow> 'a res" where
  "decode_field je name get cur [] = Ok cur"
| "decode_field je name get cur ((k, v) # fs) =
     (if names_field k name then
        (case get cur v of None \<Rightarrow> Err (je name v) | Some x \<Rightarrow> decode_field je name get x fs)
      else decode_field je name get cur fs)"

text \<open>\<open>null\<close> leaves a string alone and clears a slice, a map or a pointer.  A null element of a string array is the empty string.\<close>

definition get_string :: "string \<Rightarrow> json \<Rightarrow> string option" where
  "get_string cur v = (case v of JStr s \<Rightarrow> Some s | JNull \<Rightarrow> Some cur | _ \<Rightarrow> None)"

definition get_strings :: "string list \<Rightarrow> json \<Rightarrow> string list option" where
  "get_strings cur v =
     (case v of
        JNull \<Rightarrow> Some []
      | JArr xs \<Rightarrow> (if list_all (\<lambda>x. get_string [] x \<noteq> None) xs then Some (map (the \<circ> get_string []) xs) else None)
      | _ \<Rightarrow> None)"

text \<open>\<open>map[string]json.RawMessage\<close>: entries are added to the map the field holds; the last of duplicate keys counts.\<close>

definition raw_map :: "(string \<times> json) list \<Rightarrow> (string \<times> json) list \<Rightarrow> (string \<times> json) list" where
  "raw_map m fs = foldl (\<lambda>m (k, v). map_put k v m) m fs"

definition get_map :: "(string \<times> json) list \<Rightarrow> json \<Rightarrow> (string \<times> json) list option" where
  "get_map cur v = (case v of JObj fs \<Rightarrow> Some (raw_map cur fs) | JNull \<Rightarrow> Some [] | _ \<Rightarrow> None)"

text \<open>Number literals: any literal for \<open>*float64\<close>, an integer literal of 64 bits for \<open>*int\<close>.\<close>

definition get_number :: "string option \<Rightarrow> json \<Rightarrow> string option option" where
  "get_number cur v = (case v of JNum n \<Rightarrow> Some (Some n) | JNull \<Rightarrow> Some None | _ \<Rightarrow> None)"

definition int_literal :: "string \<Rightarrow> bool" where
  "int_literal n =
     (let ds = (case n of c # cs \<Rightarrow> if c = CHR ''-'' then cs else n | [] \<Rightarrow> []);
          v = foldl (\<lambda>a c. a * 10 + (int (byte c) - 48)) 0 ds in
      ds \<noteq> [] \<and> list_all (\<lambda>c. 48 \<le> byte c \<and> byte c \<le> 57) ds
      \<and> (if ds = n then v < 2 ^ 63 else v \<le> 2 ^ 63))"

definition get_int :: "string option \<Rightarrow> json \<Rightarrow> string option option" where
  "get_int cur v = (case v of JNum n \<Rightarrow> if int_literal n then Some (Some n) else None | JNull \<Rightarrow> Some None | _ \<Rightarrow> None)"

text \<open>A \<open>json.RawMessage\<close> member: absent, or the last one given, also \<open>null\<close>; an \<open>any\<close> member is nil for \<open>null\<close>.\<close>

definition raw_field :: "string \<Rightarrow> (string \<times> json) list \<Rightarrow> json option" where
  "raw_field name fs = map_option snd (List.find (\<lambda>p. names_field (fst p) name) (rev fs))"

definition any_field :: "string \<Rightarrow> (string \<times> json) list \<Rightarrow> json option" where
  "any_field name fs = (case raw_field name fs of Some JNull \<Rightarrow> None | r \<Rightarrow> r)"

text \<open>Decoding into a struct: \<open>null\<close> changes nothing, anything but an object fails.\<close>

definition struct_members :: "(string \<Rightarrow> json \<Rightarrow> err) \<Rightarrow> json \<Rightarrow> (string \<times> json) list res" where
  "struct_members je j = (case j of JNull \<Rightarrow> Ok [] | JObj fs \<Rightarrow> Ok fs | _ \<Rightarrow> Err (je [] j))"

definition res_bind :: "'a res \<Rightarrow> ('a \<Rightarrow> 'b res) \<Rightarrow> 'b res" where
  "res_bind r f = (case r of Inl e \<Rightarrow> Err e | Inr x \<Rightarrow> f x)"

definition res_wrap :: "string \<Rightarrow> 'a res \<Rightarrow> 'a res" where
  "res_wrap p r = (case r of Inl e \<Rightarrow> Err (p @ e) | Inr x \<Rightarrow> Ok x)"

section \<open>Parsing\<close>

definition parseArrayItems :: "(string \<Rightarrow> json \<Rightarrow> err) \<Rightarrow> json \<Rightarrow> array_items res" where
  "parseArrayItems je data =
     res_bind (struct_members je data) (\<lambda>fs.
     res_bind (decode_field je ''type'' get_string [] fs) (\<lambda>ty.
     res_bind (decode_field je ''ref'' get_string [] fs) (\<lambda>rf.
     res_bind (decode_field je ''refs'' get_strings [] fs) (\<lambda>rfs.
     Ok \<lparr>ai_type = ty, ai_ref = rf, ai_refs = rfs\<rparr>))))"

text \<open>\<open>rawProperty\<close>: the fields, the \<open>required\<close> names and the nested property definitions.\<close>

definition parse_raw_property ::
  "(string \<Rightarrow> json \<Rightarrow> err) \<Rightarrow> json \<Rightarrow> (property_fields \<times> string list \<times> (string \<times> json) list) res" where
  "parse_raw_property je data =
     res_bind (struct_members je data) (\<lambda>fs.
     res_bind (decode_field je ''type'' get_string [] fs) (\<lambda>ty.
     res_bind (decode_field je ''format'' get_string [] fs) (\<lambda>fmt.
     res_bind (decode_field je ''ref'' get_string [] fs) (\<lambda>rf.
     res_bind (decode_field je ''refs'' get_strings [] fs) (\<lambda>rfs.
     res_bind (decode_field je ''required'' get_strings [] fs) (\<lambda>req.
     res_bind (decode_field je ''properties'' get_map [] fs) (\<lambda>props.
     res_bind (decode_field je ''description'' get_string [] fs) (\<lambda>desc.
     res_bind (decode_field je ''minimum'' get_number None fs) (\<lambda>mn.
     res_bind (decode_field je ''maximum'' get_number None fs) (\<lambda>mx.
     res_bind (decode_field je ''minLength'' get_int None fs) (\<lambda>mnl.
     res_bind (decode_field je ''maxLength'' get_int None fs) (\<lambda>mxl.
     res_bind (decode_field je ''enum'' get_strings [] fs) (\<lambda>en.
     res_bind (decode_field je ''knownValues'' get_strings [] fs) (\<lambda>kv.
     res_bind (case raw_field ''items'' fs of
                 None \<Rightarrow> Ok None
               | Some it \<Rightarrow> res_wrap ''failed to parse items: '' (res_bind (parseArrayItems je it) (\<lambda>a. Ok (Some a)))) (\<lambda>items.
     Ok (\<lparr>pf_type = ty, pf_required = False, pf_format = fmt, pf_ref = rf, pf_refs = rfs, pf_items = items,
          pf_description = desc, pf_default = any_field ''default'' fs, pf_minimum = mn, pf_maximum = mx,
          pf_min_length = mnl, pf_max_length = mxl, pf_enum = en, pf_const = any_field ''const'' fs, pf_known_values = kv\<rparr>,
         req, props))))))))))))))))"

lemma size_map_put: "size_list (\<lambda>p. size (snd p)) (map_put k v m) \<le> size_list (\<lambda>p. size (snd p)) m + size v + 1"
  for m :: "(string \<times> json) list"
  by (induction m) auto

lemma size_raw_map: "size_list (\<lambda>p. size (snd p)) (raw_map m fs) \<le> size_list (\<lambda>p. size (snd p)) m + size_list (\<lambda>p. size (snd p)) fs"
  for m fs :: "(string \<times> json) list"
  unfolding raw_map_def
proof (induction fs arbitrary: m)
  case (Cons p fs)
  obtain k v where p: "p = (k, v)" by (cases p)
  show ?case using Cons.IH [of "map_put k v m"] size_map_put [of k v m] by (simp add: p)
qed simp

lemma size_members: "size_list (\<lambda>p. size (snd p)) fs \<le> size_list (size_prod (\<lambda>_. 0) size) fs" for fs :: "(string \<times> json) list"
  by (induction fs) auto

lemma size_get_map:
  assumes "get_map cur v = Some m"
  shows "size_list (\<lambda>p. size (snd p)) m \<le> size_list (\<lambda>p. size (snd p)) cur + size v"
proof (cases v)
  case (JObj fs)
  then show ?thesis using assms size_raw_map [of cur fs] size_members [of fs] by (simp add: get_map_def)
qed (use assms in \<open>auto simp: get_map_def\<close>)

lemma size_decode_map:
  assumes "decode_field je name get_map cur fs = Ok m"
  shows "size_list (\<lambda>p. size (snd p)) m \<le> size_list (\<lambda>p. size (snd p)) cur + size_list (\<lambda>p. size (snd p)) fs"
  using assms
proof (induction fs arbitrary: cur)
  case (Cons p fs)
  obtain k v where p: "p = (k, v)" by (cases p)
  show ?case
  proof (cases "names_field k name")
    case True
    then obtain x where x: "get_map cur v = Some x" "decode_field je name get_map x fs = Ok m"
      using Cons.prems p by (auto split: option.splits)
    show ?thesis using Cons.IH [OF x(2)] size_get_map [OF x(1)] p by simp
  next
    case False
    then show ?thesis using Cons.IH [of cur] Cons.prems p by simp
  qed
qed simp

lemma res_bind_Ok: "res_bind r f = Ok y \<longleftrightarrow> (\<exists>x. r = Ok x \<and> f x = Ok y)"
  by (cases r) (auto simp: res_bind_def)

lemma parse_raw_property_size:
  assumes "parse_raw_property je data = Ok (pf, req, props)"
  shows "size_list (\<lambda>p. size (snd p)) props < size data + 1"
proof -
  obtain fs where fs: "struct_members je data = Ok fs" "decode_field je ''properties'' get_map [] fs = Ok props"
    using assms unfolding parse_raw_property_def by (auto simp: res_bind_Ok)
  have "size_list (\<lambda>p. size (snd p)) fs \<le> size data"
    using fs(1) size_members by (auto simp: struct_members_def split: json.splits intro: le_SucI)
  then show ?thesis using size_decode_map [OF fs(2)] by simp
qed

function parseProperty :: "(string \<Rightarrow> json \<Rightarrow> err) \<Rightarrow> json \<Rightarrow> property res"
  and parseProperties :: "(string \<Rightarrow> json \<Rightarrow> err) \<Rightarrow> (string \<times> json) list \<Rightarrow> string list \<Rightarrow> (string \<times> property) list res" where
  "parseProperty je data =
     (case parse_raw_property je data of
        Inl e \<Rightarrow> Err e
      | Inr (pf, req, props) \<Rightarrow>
          if pf_type pf = ''object'' \<and> length props > 0 then
            (case parseProperties je props req of
               Inl e \<Rightarrow> Err e
             | Inr ps \<Rightarrow> Ok (Property pf (Some (ObjectDef ''object'' req ps))))
          else Ok (Property pf None))"
| "parseProperties je [] required = Ok []"
| "parseProperties je ((name, data) # props) required =
     (case parseProperty je data of
        Inl e \<Rightarrow> Err (''failed to parse property '' @ [CHR 0x27] @ name @ [CHR 0x27] @ '': '' @ e)
      | Inr p \<Rightarrow>
          (case parseProperties je props required of
             Inl e \<Rightarrow> Err e
           | Inr ps \<Rightarrow> Ok ((name, Property ((prop_fields p)\<lparr>pf_required := name \<in> set required\<rparr>) (InlineObject p)) # ps)))"
  by pat_completeness auto
termination
  by (relation "measure (\<lambda>x. case x of Inl (je, j) \<Rightarrow> 2 * size j + 1 | Inr (je, ps, req) \<Rightarrow> 2 * size_list (\<lambda>p. size (snd p)) ps)")
     (auto dest: parse_raw_property_size)

declare parseProperty.simps [simp del]

definition parseObjectDef :: "(string \<Rightarrow> json \<Rightarrow> err) \<Rightarrow> json \<Rightarrow> object_def res" where
  "parseObjectDef je data =
     res_bind (struct_members je data) (\<lambda>fs.
     res_bind (decode_field je ''type'' get_string [] fs) (\<lambda>ty.
     res_bind (decode_field je ''required'' get_strings [] fs) (\<lambda>req.
     res_bind (decode_field je ''properties'' get_map [] fs) (\<lambda>props.
     res_bind (parseProperties je props req) (\<lambda>ps. Ok (ObjectDef ty req ps))))))"

definition parseRecordDef :: "(string \<Rightarrow> json \<Rightarrow> err) \<Rightarrow> json \<Rightarrow> record_def res" where
  "parseRecordDef je data =
     res_bind (struct_members je data) (\<lambda>fs.
     res_bind (decode_field je ''type'' get_string [] fs) (\<lambda>ty.
     res_bind (decode_field je ''key'' get_string [] fs) (\<lambda>ky.
     case raw_field ''record'' fs of
       None \<Rightarrow> Ok \<lparr>rd_type = ty, rd_key = ky, rd_properties = []\<rparr>
     | Some inner \<Rightarrow>
         res_bind (res_wrap ''failed to parse record object: ''
           (res_bind (struct_members je inner) (\<lambda>gs.
            res_bind (decode_field je ''type'' get_string [] gs) (\<lambda>_.
            res_bind (decode_field je ''required'' get_strings [] gs) (\<lambda>req.
            res_bind (decode_field je ''properties'' get_map [] gs) (\<lambda>props. Ok (props, req))))))) (\<lambda>(props, req).
         res_bind (parseProperties je props req) (\<lambda>ps. Ok \<lparr>rd_type = ty, rd_key = ky, rd_properties = ps\<rparr>)))))"

definition parseObjectAsRecordDef :: "(string \<Rightarrow> json \<Rightarrow> err) \<Rightarrow> json \<Rightarrow> record_def res" where
  "parseObjectAsRecordDef je data =
     res_bind (parseObjectDef je data) (\<lambda>d. Ok \<lparr>rd_type = od_type d, rd_key = [], rd_properties = od_properties d\<rparr>)"

definition type_check :: "(string \<Rightarrow> json \<Rightarrow> err) \<Rightarrow> json \<Rightarrow> string res" where
  "type_check je data = res_bind (struct_members je data) (decode_field je ''type'' get_string [])"

definition parseMainDef :: "(string \<Rightarrow> json \<Rightarrow> err) \<Rightarrow> json \<Rightarrow> record_def res" where
  "parseMainDef je data =
     res_bind (type_check je data) (\<lambda>ty.
       if ty = ''record'' then parseRecordDef je data
       else if ty = ''object'' then parseObjectAsRecordDef je data
       else Err (''unsupported main definition type: '' @ ty))"

definition parseDef :: "(string \<Rightarrow> json \<Rightarrow> err) \<Rightarrow> json \<Rightarrow> lex_def res" where
  "parseDef je data =
     res_bind (type_check je data) (\<lambda>ty.
       if ty = ''record'' then
         res_bind (parseRecordDef je data) (\<lambda>r. Ok \<lparr>ld_type = ''record'', ld_record = Some r, ld_object = None\<rparr>)
       else res_bind (parseObjectDef je data) (\<lambda>d. Ok \<lparr>ld_type = ty, ld_record = None, ld_object = Some d\<rparr>))"

fun convert_defs :: "(string \<Rightarrow> json \<Rightarrow> err) \<Rightarrow> (string \<times> json) list \<Rightarrow> lexicon \<Rightarrow> lexicon res" where
  "convert_defs je [] lxn = Ok lxn"
| "convert_defs je ((name, data) # defs) lxn =
     (if name = ''main'' then
        res_bind (res_wrap ''failed to parse main definition: '' (parseMainDef je data))
          (\<lambda>mainDef. convert_defs je defs (lxn\<lparr>lx_main := Some mainDef\<rparr>))
      else
        res_bind (res_wrap (''failed to parse definition '' @ [CHR 0x27] @ name @ [CHR 0x27] @ '': '') (parseDef je data))
          (\<lambda>d. convert_defs je defs (lxn\<lparr>lx_others := map_put name d (lx_others lxn)\<rparr>)))"

definition convertRawLexicon :: "(string \<Rightarrow> json \<Rightarrow> err) \<Rightarrow> string \<Rightarrow> (string \<times> json) list \<Rightarrow> lexicon res" where
  "convertRawLexicon je i defs =
     (if i = [] then Err (''lexicon missing required '' @ [CHR 0x27] @ ''id'' @ [CHR 0x27] @ '' field'')
      else convert_defs je defs \<lparr>lx_id = i, lx_main = None, lx_others = []\<rparr>)"

text \<open>\<open>syn\<close> is the message of a syntax error in the document.\<close>

definition ParseBytes :: "decoders \<Rightarrow> (string \<Rightarrow> err) \<Rightarrow> (string \<Rightarrow> json \<Rightarrow> err) \<Rightarrow> string \<Rightarrow> lexicon res" where
  "ParseBytes X syn je data =
     res_bind (res_wrap ''failed to parse lexicon JSON: ''
       (case dec_json X data of
          None \<Rightarrow> Err (syn data)
        | Some j \<Rightarrow>
            res_bind (struct_members je j) (\<lambda>fs.
            res_bind (decode_field je ''lexicon'' get_int None fs) (\<lambda>_.
            res_bind (decode_field je ''id'' get_string [] fs) (\<lambda>i.
            res_bind (decode_field je ''defs'' get_map [] fs) (\<lambda>defs. Ok (i, defs)))))))
       (\<lambda>(i, defs). convertRawLexicon je i defs)"

section \<open>What the parser returns\<close>

text \<open>An object is well formed if its property names are distinct, a property is marked required exactly when the object lists it,
  and the inline objects are well formed.\<close>

function object_wf :: "object_def \<Rightarrow> bool" where
  "object_wf (ObjectDef ty req ps) =
     (distinct (map fst ps)
      \<and> list_all (\<lambda>(n, p). pf_required (prop_fields p) = (n \<in> set req)
           \<and> (case p of Property pf io \<Rightarrow> (case io of None \<Rightarrow> True | Some d \<Rightarrow> object_wf d))) ps)"
  by pat_completeness auto
termination
proof (relation "measure size")
  show "\<And>ty req (ps :: (string \<times> property) list) x n p pf io d.
      x \<in> set ps \<Longrightarrow> (n, p) = x \<Longrightarrow> p = Property pf io \<Longrightarrow> io = Some d \<Longrightarrow> (d, ObjectDef ty req ps) \<in> measure size"
  proof -
    fix ty req n pf d and ps :: "(string \<times> property) list" and x p io
    assume "x \<in> set ps" "(n, p) = x" "p = Property pf io" "io = Some d"
    then have "size_prod (\<lambda>_. 0) size x \<le> size_list (size_prod (\<lambda>_. 0) size) ps" by (auto intro: size_list_estimation')
    then show "(d, ObjectDef ty req ps) \<in> measure size" using \<open>(n, p) = x\<close> \<open>p = Property pf io\<close> \<open>io = Some d\<close> by auto
  qed
qed simp

definition property_wf :: "string list \<Rightarrow> string \<times> property \<Rightarrow> bool" where
  "property_wf req e = (pf_required (prop_fields (snd e)) = (fst e \<in> set req)
      \<and> (case InlineObject (snd e) of None \<Rightarrow> True | Some d \<Rightarrow> object_wf d))"

lemma object_wf_eq: "object_wf d = (distinct (map fst (od_properties d)) \<and> list_all (property_wf (od_required d)) (od_properties d))"
proof (cases d)
  case (ObjectDef ty req ps)
  have "(case e of (n, p) \<Rightarrow> pf_required (prop_fields p) = (n \<in> set req)
           \<and> (case p of Property pf io \<Rightarrow> (case io of None \<Rightarrow> True | Some d \<Rightarrow> object_wf d))) = property_wf req e" for e
    by (cases e; cases "snd e") (simp add: property_wf_def)
  then show ?thesis by (simp add: ObjectDef list_all_iff)
qed

declare object_wf.simps [simp del]

lemma raw_map_ok: "map_ok m \<Longrightarrow> map_ok (raw_map m fs)"
  unfolding raw_map_def by (induction fs arbitrary: m) auto

lemma get_map_Some: "get_map cur v = Some m \<longleftrightarrow> (v = JNull \<and> m = []) \<or> (\<exists>fs. v = JObj fs \<and> m = raw_map cur fs)"
  by (auto simp: get_map_def split: json.splits)

lemma decode_map_ok: "decode_field je name get_map cur fs = Ok m \<Longrightarrow> map_ok cur \<Longrightarrow> map_ok m"
proof (induction fs arbitrary: cur)
  case (Cons p fs)
  then show ?case
    by (cases p; cases "snd p") (auto simp: raw_map_ok get_map_Some split: if_splits option.splits)
qed simp

lemma parse_raw_property_ok: "parse_raw_property je data = Ok (pf, req, props) \<Longrightarrow> map_ok props"
  unfolding parse_raw_property_def by (auto simp: res_bind_Ok dest!: decode_map_ok)

lemma parse_wf:
  "parseProperty je data = Ok p \<Longrightarrow> (case InlineObject p of None \<Rightarrow> True | Some d \<Rightarrow> object_wf d)"
  "parseProperties je props req = Ok ps \<Longrightarrow> map_ok props \<Longrightarrow> map fst ps = map fst props \<and> list_all (property_wf req) ps"
proof (induction je data and je props req arbitrary: p and ps rule: parseProperty_parseProperties.induct)
  case (1 je data)
  show ?case
  proof (cases "InlineObject p")
    case (Some d)
    then obtain pf req props qs where q: "parse_raw_property je data = Ok (pf, req, props)" "pf_type pf = ''object'' \<and> length props > 0"
      "parseProperties je props req = Ok qs" "d = ObjectDef ''object'' req qs"
      using "1.prems" unfolding parseProperty.simps [of je data] by (auto split: sum.splits if_splits)
    have ok: "map_ok props" by (rule parse_raw_property_ok [OF q(1)])
    have "map fst qs = map fst props \<and> list_all (property_wf req) qs" by (rule "1.IH" [OF q(1) _ _ q(2,3) ok]) simp_all
    then show ?thesis using Some q(4) ok by (simp add: object_wf_eq map_ok_def)
  qed simp
next
  case (2 je required)
  then show ?case by simp
next
  case (3 je name data props required)
  then show ?case by (auto simp: property_wf_def map_ok_def split: sum.splits)
qed

definition def_wf :: "lex_def \<Rightarrow> bool" where
  "def_wf d = ((ld_type d = ''record'') = (ld_record d \<noteq> None) \<and> (ld_record d = None) = (ld_object d \<noteq> None)
     \<and> (case ld_object d of None \<Rightarrow> True | Some ob \<Rightarrow> object_wf ob))"

definition lexicon_wf :: "lexicon \<Rightarrow> bool" where
  "lexicon_wf l =
     (lx_id l \<noteq> [] \<and> map_ok (lx_others l) \<and> ''main'' \<notin> fst ` set (lx_others l)
      \<and> (case lx_main l of None \<Rightarrow> True | Some d \<Rightarrow> rd_type d = ''record'' \<or> (rd_type d = ''object'' \<and> rd_key d = []))
      \<and> list_all (\<lambda>e. def_wf (snd e)) (lx_others l))"

lemma parseObjectDef_wf: "parseObjectDef je data = Ok d \<Longrightarrow> object_wf d"
  unfolding parseObjectDef_def by (auto simp: res_bind_Ok object_wf_eq dest!: decode_map_ok parse_wf(2)) (simp add: map_ok_def)

lemma parseRecordDef_type: "parseRecordDef je data = Ok d \<Longrightarrow> \<exists>fs. struct_members je data = Ok fs \<and> decode_field je ''type'' get_string [] fs = Ok (rd_type d)"
  unfolding parseRecordDef_def by (auto simp: res_bind_Ok split: option.splits prod.splits)

lemma parseObjectAsRecordDef_type:
  "parseObjectAsRecordDef je data = Ok d \<Longrightarrow> rd_key d = [] \<and> type_check je data = Ok (rd_type d)"
  unfolding parseObjectAsRecordDef_def parseObjectDef_def type_check_def by (auto simp: res_bind_Ok)

lemma parseMainDef_wf:
  assumes "parseMainDef je data = Ok d"
  shows "rd_type d = ''record'' \<or> (rd_type d = ''object'' \<and> rd_key d = [])"
proof -
  obtain ty where ty: "type_check je data = Ok ty" "(if ty = ''record'' then parseRecordDef je data
       else if ty = ''object'' then parseObjectAsRecordDef je data else Err (''unsupported main definition type: '' @ ty)) = Ok d"
    using assms unfolding parseMainDef_def by (auto simp: res_bind_Ok)
  show ?thesis
    using ty parseRecordDef_type [of je data d] parseObjectAsRecordDef_type [of je data d]
    by (auto simp: type_check_def res_bind_def split: if_splits)
qed

lemma parseDef_wf: "parseDef je data = Ok d \<Longrightarrow> def_wf d"
  using parseObjectDef_wf unfolding parseDef_def def_wf_def by (auto simp: res_bind_Ok split: if_splits)

lemma res_wrap_Ok: "res_wrap p r = Ok x \<longleftrightarrow> r = Ok x"
  by (cases r) (auto simp: res_wrap_def)

lemma list_all_map_put: "list_all P m \<Longrightarrow> P (k, v) \<Longrightarrow> list_all P (map_put k v m)"
  by (induction m) auto

lemma convert_defs_wf: "convert_defs je defs l = Ok l' \<Longrightarrow> lexicon_wf l \<Longrightarrow> lexicon_wf l' \<and> lx_id l' = lx_id l"
proof (induction defs arbitrary: l)
  case (Cons e defs)
  obtain name data where e: "e = (name, data)" by (cases e)
  show ?case
  proof (cases "name = ''main''")
    case True
    then obtain m where m: "parseMainDef je data = Ok m" "convert_defs je defs (l\<lparr>lx_main := Some m\<rparr>) = Ok l'"
      using Cons.prems(1) e by (auto simp: res_bind_Ok res_wrap_Ok)
    show ?thesis using Cons.IH [OF m(2)] parseMainDef_wf [OF m(1)] Cons.prems(2) by (auto simp: lexicon_wf_def)
  next
    case False
    then obtain d where d: "parseDef je data = Ok d" "convert_defs je defs (l\<lparr>lx_others := map_put name d (lx_others l)\<rparr>) = Ok l'"
      using Cons.prems(1) e by (auto simp: res_bind_Ok res_wrap_Ok)
    have "lexicon_wf (l\<lparr>lx_others := map_put name d (lx_others l)\<rparr>)"
      using parseDef_wf [OF d(1)] Cons.prems(2) False by (auto simp: lexicon_wf_def keys_map_put intro!: list_all_map_put)
    from Cons.IH [OF d(2) this] show ?thesis by simp
  qed
qed simp


definition sample_lexicon_json :: json where
  "sample_lexicon_json = JObj [(''id'', JStr ''a.b.c''), (''defs'', JObj [
     (''main'', JObj [(''type'', JStr ''record''), (''key'', JStr ''tid'')]),
     (''part'', JObj [(''type'', JStr ''object''), (''required'', JArr [JStr ''x'']),
        (''properties'', JObj [(''x'', JObj [(''type'', JStr ''string'')])])])])]"


end
