(* ===== verification/Lexicon_Registry.thy ===== *)
theory Lexicon_Registry
  imports Lexicon_Parser
begin

text \<open>The registry of loaded lexicons (\<open>internal/lexicon/registry.go\<close>): three maps that every operation updates under one lock, and the
  lookups the schema builder makes.  The registry is shown to answer as a plain map from ids to lexicons would.\<close>

section \<open>The registry\<close>

record registry =
  rg_lexicons :: "(string \<times> lexicon) list"
  rg_objects :: "(string \<times> object_def) list"
  rg_records :: "(string \<times> record_def) list"

definition NewRegistry :: registry where
  "NewRegistry = \<lparr>rg_lexicons = [], rg_objects = [], rg_records = []\<rparr>"

definition register_main :: "lexicon \<Rightarrow> registry \<Rightarrow> registry" where
  "register_main lxn r =
     (case lx_main lxn of
        None \<Rightarrow> r
      | Some d \<Rightarrow>
          let r1 = r\<lparr>rg_records := map_put (lx_id lxn) d (rg_records r)\<rparr> in
          if rd_type d = ''object''
          then r1\<lparr>rg_objects := map_put (lx_id lxn) (ObjectDef (rd_type d) [] (rd_properties d)) (rg_objects r1)\<rparr>
          else r1)"

definition register_other :: "string \<Rightarrow> registry \<Rightarrow> string \<times> lex_def \<Rightarrow> registry" where
  "register_other i r entry =
     (let ref = MakeRef i (fst entry); d = snd entry in
      if IsObjectDef d then r\<lparr>rg_objects := map_put ref (the (ld_object d)) (rg_objects r)\<rparr>
      else if IsRecordDef d then r\<lparr>rg_records := map_put ref (the (ld_record d)) (rg_records r)\<rparr>
      else r)"

definition Register :: "lexicon \<Rightarrow> registry \<Rightarrow> registry" where
  "Register lxn r =
     foldl (register_other (lx_id lxn))
       (register_main lxn (r\<lparr>rg_lexicons := map_put (lx_id lxn) lxn (rg_lexicons r)\<rparr>)) (lx_others lxn)"

definition NewRegistryFromLexicons :: "lexicon list \<Rightarrow> registry" where
  "NewRegistryFromLexicons lexicons = foldl (\<lambda>r lxn. Register lxn r) NewRegistry lexicons"

definition Unregister :: "string \<Rightarrow> registry \<Rightarrow> registry" where
  "Unregister i r =
     (case map_of (rg_lexicons r) i of
        None \<Rightarrow> r
      | Some lxn \<Rightarrow>
          foldl (\<lambda>r entry. let ref = MakeRef i (fst entry) in
              r\<lparr>rg_objects := map_del ref (rg_objects r), rg_records := map_del ref (rg_records r)\<rparr>)
            (r\<lparr>rg_lexicons := map_del i (rg_lexicons r), rg_records := map_del i (rg_records r),
               rg_objects := map_del i (rg_objects r)\<rparr>)
            (lx_others lxn))"

definition GetLexicon :: "string \<Rightarrow> registry \<Rightarrow> lexicon option" where
  "GetLexicon i r = map_of (rg_lexicons r) i"

definition GetObjectDef :: "string \<Rightarrow> registry \<Rightarrow> object_def option" where
  "GetObjectDef ref r = map_of (rg_objects r) ref"

definition GetRecordDef :: "string \<Rightarrow> registry \<Rightarrow> record_def option" where
  "GetRecordDef i r = map_of (rg_records r) i"

datatype resolved = ResolvedObject object_def | ResolvedRecord record_def

definition ResolveRef :: "string \<Rightarrow> string \<Rightarrow> registry \<Rightarrow> resolved option" where
  "ResolveRef ref contextLexiconID r =
     (let rref = ResolveLocalRef ref contextLexiconID in
      case GetObjectDef rref r of
        Some d \<Rightarrow> Some (ResolvedObject d)
      | None \<Rightarrow> map_option ResolvedRecord (GetRecordDef rref r))"

definition GetAllLexiconIDs :: "registry \<Rightarrow> string list" where
  "GetAllLexiconIDs r = map fst (rg_lexicons r)"

definition GetAllObjectRefs :: "registry \<Rightarrow> string list" where
  "GetAllObjectRefs r = map fst (rg_objects r)"

definition GetAllRecordRefs :: "registry \<Rightarrow> string list" where
  "GetAllRecordRefs r = map fst (rg_records r)"

definition RegistryCount :: "registry \<Rightarrow> int" where
  "RegistryCount r = int (length (rg_lexicons r))"

definition GetAllLexicons :: "registry \<Rightarrow> lexicon list" where
  "GetAllLexicons r = map snd (rg_lexicons r)"

definition ParseAndRegister ::
  "decoders \<Rightarrow> (string \<Rightarrow> err) \<Rightarrow> (string \<Rightarrow> json \<Rightarrow> err) \<Rightarrow> string \<Rightarrow> registry \<Rightarrow> lexicon res \<times> registry" where
  "ParseAndRegister X syn je text r =
     (case ParseBytes X syn je text of
        Inl e \<Rightarrow> (Err (''failed to parse lexicon: '' @ e), r)
      | Inr lxn \<Rightarrow> (Ok lxn, Register lxn r))"

definition GetCollectionLexicons :: "registry \<Rightarrow> lexicon list" where
  "GetCollectionLexicons r =
     filter (\<lambda>lxn. case lx_main lxn of Some d \<Rightarrow> rd_type d = ''record'' | None \<Rightarrow> False) (map snd (rg_lexicons r))"

definition GetDefsLexicons :: "registry \<Rightarrow> lexicon list" where
  "GetDefsLexicons r = filter (\<lambda>lxn. lx_main lxn = None \<and> length (lx_others lxn) > 0) (map snd (rg_lexicons r))"

section \<open>What the registry answers\<close>

text \<open>The abstract registry is a map from lexicon ids to lexicons; a fully qualified reference is looked up in the lexicon
  before its \<open>#\<close>.\<close>

definition name_in :: "string \<Rightarrow> string \<Rightarrow> string option" where
  "name_in i ref = (case cut_at CHR ''#'' ref of Some (j, n) \<Rightarrow> if j = i then Some n else None | None \<Rightarrow> None)"

definition ref_owner :: "string \<Rightarrow> string" where
  "ref_owner ref = takeWhile (\<lambda>c. c \<noteq> CHR ''#'') ref"

definition object_in :: "lexicon \<Rightarrow> string \<Rightarrow> object_def option" where
  "object_in l ref =
     (if ref = lx_id l then
        (case lx_main l of
           Some d \<Rightarrow> if rd_type d = ''object'' then Some (ObjectDef (rd_type d) [] (rd_properties d)) else None
         | None \<Rightarrow> None)
      else (case name_in (lx_id l) ref of
              Some n \<Rightarrow> (case map_of (lx_others l) n of Some d \<Rightarrow> if IsObjectDef d then ld_object d else None | None \<Rightarrow> None)
            | None \<Rightarrow> None))"

definition record_in :: "lexicon \<Rightarrow> string \<Rightarrow> record_def option" where
  "record_in l ref =
     (if ref = lx_id l then lx_main l
      else (case name_in (lx_id l) ref of
              Some n \<Rightarrow> (case map_of (lx_others l) n of
                           Some d \<Rightarrow> if IsRecordDef d then ld_record d else None | None \<Rightarrow> None)
            | None \<Rightarrow> None))"

definition answers_by :: "(lexicon \<Rightarrow> string \<Rightarrow> 'd option) \<Rightarrow> (string \<rightharpoonup> lexicon) \<Rightarrow> string \<Rightarrow> 'd option" where
  "answers_by look m ref = (case m (ref_owner ref) of None \<Rightarrow> None | Some l \<Rightarrow> look l ref)"

definition lexicon_ok :: "lexicon \<Rightarrow> bool" where
  "lexicon_ok l = (CHR ''#'' \<notin> set (lx_id l) \<and> map_ok (lx_others l) \<and> [] \<notin> fst ` set (lx_others l))"

definition registry_inv :: "registry \<Rightarrow> bool" where
  "registry_inv r =
     ((\<forall>i l. map_of (rg_lexicons r) i = Some l \<longrightarrow> lx_id l = i \<and> lexicon_ok l)
      \<and> (\<forall>ref. GetObjectDef ref r = answers_by object_in (map_of (rg_lexicons r)) ref)
      \<and> (\<forall>ref. GetRecordDef ref r = answers_by record_in (map_of (rg_lexicons r)) ref))"

lemma name_in_iff: "CHR ''#'' \<notin> set i \<Longrightarrow> name_in i ref = Some n \<longleftrightarrow> ref = i @ CHR ''#'' # n"
proof
  assume "name_in i ref = Some n"
  then show "ref = i @ CHR ''#'' # n" by (auto simp: name_in_def dest!: cut_at_Some split: option.splits if_splits)
qed (simp add: name_in_def)

lemma ref_owner_hash: "CHR ''#'' \<notin> set a \<Longrightarrow> ref_owner (a @ CHR ''#'' # b) = a"
  by (induction a) (auto simp: ref_owner_def)

lemma name_in_self [simp]: "CHR ''#'' \<notin> set i \<Longrightarrow> name_in i i = None"
  by (cases "name_in i i") (auto simp: name_in_iff)

lemma name_in_MakeRef: "CHR ''#'' \<notin> set i \<Longrightarrow> k \<noteq> [] \<Longrightarrow> ref = MakeRef i k \<longleftrightarrow> name_in i ref = Some k"
  by (auto simp: MakeRef_def name_in_iff)

lemma ref_owner_self [simp]: "CHR ''#'' \<notin> set i \<Longrightarrow> ref_owner i = i"
  by (auto simp: ref_owner_def intro: takeWhile_eq_all_conv [THEN iffD2])

lemma ref_owner_name: "name_in i ref = Some n \<Longrightarrow> ref_owner ref = i"
  by (auto simp: name_in_def ref_owner_hash dest!: cut_at_Some split: option.splits if_splits)

lemma ref_owner_other: "ref_owner ref = i \<Longrightarrow> name_in i ref = None \<Longrightarrow> ref = i"
proof (cases "cut_at CHR ''#'' ref")
  case None
  then show "ref_owner ref = i \<Longrightarrow> name_in i ref = None \<Longrightarrow> ref = i" by (simp add: cut_at_None_iff)
next
  case (Some p)
  then show "ref_owner ref = i \<Longrightarrow> name_in i ref = None \<Longrightarrow> ref = i"
    by (cases p) (auto simp: name_in_def ref_owner_hash dest!: cut_at_Some)
qed

lemma register_others:
  assumes "CHR ''#'' \<notin> set i" "map_ok others" "[] \<notin> fst ` set others"
  shows "let r' = foldl (register_other i) r others in
     rg_lexicons r' = rg_lexicons r
     \<and> (\<forall>ref. map_of (rg_objects r') ref =
          (case name_in i ref of
             Some n \<Rightarrow> (case map_of others n of
                 Some d \<Rightarrow> if IsObjectDef d then ld_object d else map_of (rg_objects r) ref | None \<Rightarrow> map_of (rg_objects r) ref)
           | None \<Rightarrow> map_of (rg_objects r) ref))
     \<and> (\<forall>ref. map_of (rg_records r') ref =
          (case name_in i ref of
             Some n \<Rightarrow> (case map_of others n of
                 Some d \<Rightarrow> if IsRecordDef d \<and> \<not> IsObjectDef d then ld_record d else map_of (rg_records r) ref | None \<Rightarrow> map_of (rg_records r) ref)
           | None \<Rightarrow> map_of (rg_records r) ref))"
  using assms
proof (induction others arbitrary: r)
  case Nil
  then show ?case by (simp split: option.splits)
next
  case (Cons p others)
  obtain k d where p: "p = (k, d)" by (cases p)
  have k: "k \<noteq> []" "map_of others k = None" and ok: "map_ok others" "[] \<notin> fst ` set others"
    using Cons.prems p by (auto simp: map_ok_def map_of_eq_None_iff)
  have ref: "ref = MakeRef i k \<longleftrightarrow> name_in i ref = Some k" for ref by (rule name_in_MakeRef [OF Cons.prems(1) k(1)])
  have o1: "map_of (rg_objects (register_other i r p)) ref = (if name_in i ref = Some k \<and> IsObjectDef d then ld_object d else map_of (rg_objects r) ref)" for ref
    by (auto simp: register_other_def p Let_def ref [symmetric] IsObjectDef_def)
  have o2: "map_of (rg_records (register_other i r p)) ref =
      (if name_in i ref = Some k \<and> IsRecordDef d \<and> \<not> IsObjectDef d then ld_record d else map_of (rg_records r) ref)" for ref
    by (auto simp: register_other_def p Let_def ref [symmetric] IsRecordDef_def)
  have o3: "rg_lexicons (register_other i r p) = rg_lexicons r" by (simp add: register_other_def Let_def)
  show ?case using Cons.IH [OF Cons.prems(1) ok, of "register_other i r p"] k(2)
    unfolding Let_def foldl_Cons o1 o2 o3 by (auto simp: p split: option.splits if_splits)
qed

lemma record_not_object: "IsRecordDef d \<Longrightarrow> \<not> IsObjectDef d"
  by (auto simp: IsRecordDef_def IsObjectDef_def)

lemma registry_inv_empty: "registry_inv NewRegistry"
  by (simp add: registry_inv_def NewRegistry_def GetObjectDef_def GetRecordDef_def answers_by_def)

lemma answers_by_other: "ref_owner ref \<noteq> i \<Longrightarrow> answers_by look (m(i := v)) ref = answers_by look m ref"
  by (simp add: answers_by_def)

lemma Register_inv:
  assumes "registry_inv r" "map_of (rg_lexicons r) (lx_id l) = None" "lexicon_ok l"
  shows "registry_inv (Register l r) \<and> map_of (rg_lexicons (Register l r)) = (map_of (rg_lexicons r))(lx_id l \<mapsto> l)"
proof -
  let ?i = "lx_id l"
  let ?m = "(map_of (rg_lexicons r))(?i \<mapsto> l)"
  define r1 where "r1 = register_main l (r\<lparr>rg_lexicons := map_put ?i l (rg_lexicons r)\<rparr>)"
  have lx: "map_of (rg_lexicons r1) = ?m" by (simp add: r1_def register_main_def Let_def split: option.splits)
  have ok: "CHR ''#'' \<notin> set ?i" "map_ok (lx_others l)" "[] \<notin> fst ` set (lx_others l)" using assms(3) by (auto simp: lexicon_ok_def)
  note R = register_others [OF ok, of r1, unfolded Let_def, folded Register_def [of l r, unfolded r1_def [symmetric]]]
  have old: "map_of (rg_objects r) ref = answers_by object_in (map_of (rg_lexicons r)) ref"
    "map_of (rg_records r) ref = answers_by record_in (map_of (rg_lexicons r)) ref" for ref
    using assms(1) by (auto simp: registry_inv_def GetObjectDef_def GetRecordDef_def)
  have fresh: "map_of (rg_objects r) ref = None" "map_of (rg_records r) ref = None" if "ref_owner ref = ?i" for ref
    using old [of ref] assms(2) that by (simp_all add: answers_by_def)
  have main: "map_of (rg_objects r1) ref = (if ref = ?i then object_in l ref else map_of (rg_objects r) ref)"
    "map_of (rg_records r1) ref = (if ref = ?i then record_in l ref else map_of (rg_records r) ref)" for ref
    using fresh [of ?i] ok(1) by (auto simp: r1_def register_main_def Let_def object_in_def record_in_def split: option.splits)
  have obj: "map_of (rg_objects (Register l r)) ref = answers_by object_in ?m ref" for ref
  proof (cases "ref_owner ref = ?i")
    case True
    show ?thesis
    proof (cases "name_in ?i ref")
      case None
      then have "ref = ?i" using True ref_owner_other by blast
      then show ?thesis using R None main(1) ok(1) by (simp add: answers_by_def)
    next
      case (Some n)
      then have "ref \<noteq> ?i" using ok(1) by (auto simp: name_in_iff)
      then show ?thesis using R Some main(1) fresh(1) [OF True] True by (auto simp: answers_by_def object_in_def split: option.splits)
    qed
  next
    case False
    then have "name_in ?i ref = None" "ref \<noteq> ?i" using ref_owner_name ok(1) by fastforce+
    then show ?thesis using R main(1) old(1) False by (simp add: answers_by_def)
  qed
  have rec: "map_of (rg_records (Register l r)) ref = answers_by record_in ?m ref" for ref
  proof (cases "ref_owner ref = ?i")
    case True
    show ?thesis
    proof (cases "name_in ?i ref")
      case None
      then have "ref = ?i" using True ref_owner_other by blast
      then show ?thesis using R None main(2) ok(1) by (simp add: answers_by_def)
    next
      case (Some n)
      then have "ref \<noteq> ?i" using ok(1) by (auto simp: name_in_iff)
      then show ?thesis using R Some main(2) fresh(2) [OF True] True record_not_object
        by (auto simp: answers_by_def record_in_def split: option.splits)
    qed
  next
    case False
    then have "name_in ?i ref = None" "ref \<noteq> ?i" using ref_owner_name ok(1) by fastforce+
    then show ?thesis using R main(2) old(2) False by (simp add: answers_by_def)
  qed
  have lxr: "map_of (rg_lexicons (Register l r)) = ?m" using R lx by simp
  then show ?thesis using obj rec assms(1,3) by (auto simp: registry_inv_def GetObjectDef_def GetRecordDef_def)
qed

lemma unregister_others:
  assumes "CHR ''#'' \<notin> set i" "[] \<notin> fst ` set others"
  shows "let r' = foldl (\<lambda>r entry. let ref = MakeRef i (fst entry) in
              r\<lparr>rg_objects := map_del ref (rg_objects r), rg_records := map_del ref (rg_records r)\<rparr>) r others in
     rg_lexicons r' = rg_lexicons r
     \<and> (\<forall>ref. map_of (rg_objects r') ref = (if name_in i ref \<in> Some ` fst ` set others then None else map_of (rg_objects r) ref))
     \<and> (\<forall>ref. map_of (rg_records r') ref = (if name_in i ref \<in> Some ` fst ` set others then None else map_of (rg_records r) ref))"
  using assms(2)
proof (induction others arbitrary: r)
  case (Cons p others)
  obtain k d where p: "p = (k, d)" by (cases p)
  have k: "k \<noteq> []" "[] \<notin> fst ` set others" using Cons.prems p by auto
  have ref: "ref = MakeRef i k \<longleftrightarrow> name_in i ref = Some k" for ref by (rule name_in_MakeRef [OF assms(1) k(1)])
  show ?case using Cons.IH [OF k(2), of "r\<lparr>rg_objects := map_del (MakeRef i k) (rg_objects r), rg_records := map_del (MakeRef i k) (rg_records r)\<rparr>"]
    by (auto simp: Let_def p ref fun_upd_def)
qed (simp add: Let_def)

lemma Unregister_inv:
  assumes "registry_inv r"
  shows "registry_inv (Unregister i r) \<and> map_of (rg_lexicons (Unregister i r)) = (map_of (rg_lexicons r))(i := None)"
proof (cases "map_of (rg_lexicons r) i")
  case None
  then show ?thesis using assms by (simp add: Unregister_def fun_upd_idem)
next
  case (Some l)
  then have l: "lx_id l = i" "CHR ''#'' \<notin> set i" "[] \<notin> fst ` set (lx_others l)"
    using assms by (auto simp: registry_inv_def lexicon_ok_def)
  let ?m = "(map_of (rg_lexicons r))(i := None)"
  let ?r1 = "r\<lparr>rg_lexicons := map_del i (rg_lexicons r), rg_records := map_del i (rg_records r), rg_objects := map_del i (rg_objects r)\<rparr>"
  have u: "Unregister i r = foldl (\<lambda>r entry. let ref = MakeRef i (fst entry) in
              r\<lparr>rg_objects := map_del ref (rg_objects r), rg_records := map_del ref (rg_records r)\<rparr>) ?r1 (lx_others l)"
    using Some by (simp add: Unregister_def)
  note U = unregister_others [OF l(2,3), of ?r1, unfolded Let_def, folded u [unfolded Let_def]]
  have old: "map_of (rg_objects r) ref = answers_by object_in (map_of (rg_lexicons r)) ref"
    "map_of (rg_records r) ref = answers_by record_in (map_of (rg_lexicons r)) ref" for ref
    using assms(1) by (auto simp: registry_inv_def GetObjectDef_def GetRecordDef_def)
  have own: "ref = i \<or> name_in i ref \<in> Some ` fst ` set (lx_others l) \<or> (object_in l ref = None \<and> record_in l ref = None)" for ref
  proof (cases "name_in i ref")
    case (Some n)
    have "map_of (lx_others l) n = None \<or> n \<in> fst ` set (lx_others l)" by (meson map_of_eq_None_iff)
    then show ?thesis using l(1) Some by (auto simp: object_in_def record_in_def)
  qed (use l(1) in \<open>simp add: object_in_def record_in_def\<close>)
  have "map_of (rg_objects (Unregister i r)) ref = answers_by object_in ?m ref
      \<and> map_of (rg_records (Unregister i r)) ref = answers_by record_in ?m ref" for ref
  proof (cases "ref_owner ref = i")
    case True
    then show ?thesis using U own [of ref] old [of ref] Some by (auto simp: answers_by_def)
  next
    case False
    then have "ref \<noteq> i" "name_in i ref = None" using l(2) ref_owner_name by fastforce+
    then show ?thesis using U old [of ref] False by (auto simp: answers_by_def)
  qed
  moreover have "map_of (rg_lexicons (Unregister i r)) = ?m" using U by simp
  ultimately show ?thesis using assms by (auto simp: registry_inv_def GetObjectDef_def GetRecordDef_def)
qed

inductive registry_step :: "registry \<Rightarrow> registry \<Rightarrow> bool" where
  registry_add: "map_of (rg_lexicons r) (lx_id l) = None \<Longrightarrow> lexicon_ok l \<Longrightarrow> registry_step r (Register l r)"
| registry_remove: "registry_step r (Unregister i r)"

lemma registry_reach_inv: "registry_step\<^sup>*\<^sup>* NewRegistry r \<Longrightarrow> registry_inv r"
  by (induction rule: rtranclp_induct)
    (auto simp: registry_inv_empty Register_inv Unregister_inv elim!: registry_step.cases)


definition sample_lexicon :: lexicon where
  "sample_lexicon = \<lparr>lx_id = ''org.x.y'', lx_main = Some \<lparr>rd_type = ''record'', rd_key = ''tid'', rd_properties = []\<rparr>,
     lx_others = [(''part'', \<lparr>ld_type = ''object'', ld_record = None, ld_object = Some (ObjectDef ''object'' [] [])\<rparr>)]\<rparr>"


text \<open>Registering an id again replaces the lexicon but not what only its earlier version declared: that definition still resolves.\<close>

lemma reregister_keeps_stale_definition:
  "ResolveRef ''#part'' ''org.x.y'' (Register (sample_lexicon\<lparr>lx_others := []\<rparr>) (Register sample_lexicon NewRegistry))
     = Some (ResolvedObject (ObjectDef ''object'' [] []))"
  by code_simp

end
