(* ===== verification/Validation_Gate.thy ===== *)
theory Validation_Gate
  imports Go_Prelude
begin

text \<open>
  The validation gate of \<open>internal/validation/status.go\<close>: the classification statuses, the
  \<open>RecordValidator\<close> interface, the fail-closed \<open>ClassifyRecord\<close> and the validator used when
  validation is switched off.  The locale \<open>record_validator_spec\<close> states what ingestion and the
  startup refresh rely on; it is interpreted here for \<open>Disabled\<close> and in the theory of the
  lexicon validator for the real one.
\<close>

section \<open>Definitions\<close>

type_synonym vstatus = string

definition StatusValid :: vstatus where "StatusValid = ''valid''"
definition StatusInvalid :: vstatus where "StatusInvalid = ''invalid''"
definition StatusUnknownSchema :: vstatus where "StatusUnknownSchema = ''unknown_schema''"
definition StatusValidationError :: vstatus where "StatusValidationError = ''validation_error''"
definition StatusUnvalidated :: vstatus where "StatusUnvalidated = ''unvalidated''"

definition known_status :: "vstatus \<Rightarrow> bool" where
  "known_status s =
     (s \<in> {StatusValid, StatusInvalid, StatusUnknownSchema, StatusValidationError, StatusUnvalidated})"

record vresult =
  vr_status :: vstatus
  vr_error :: string
  vr_lexhash :: string

text \<open>The interface: \<open>ValidateRecord(collection, rkey, rawJSON)\<close> and \<open>LexiconHash(collection)\<close>.\<close>

record record_validator =
  val_validate :: "string \<Rightarrow> string \<Rightarrow> string \<Rightarrow> vresult"
  val_hash :: "string \<Rightarrow> string option"

definition ClassifyRecord :: "record_validator option \<Rightarrow> string \<Rightarrow> string \<Rightarrow> string \<Rightarrow> vresult" where
  "ClassifyRecord validator collection rkey rawJSON =
     (case validator of
        None \<Rightarrow> \<lparr>vr_status = StatusValidationError,
          vr_error = ''record validator is not configured; restart Hyperindex with a valid startup Lexicon snapshot'',
          vr_lexhash = []\<rparr>
      | Some v \<Rightarrow> val_validate v collection rkey rawJSON)"

definition DisabledValidator :: record_validator where
  "DisabledValidator =
     \<lparr>val_validate = (\<lambda>_ _ _. \<lparr>vr_status = StatusUnvalidated,
        vr_error = ''record validation is disabled (RECORD_VALIDATION_ENABLED=false)'', vr_lexhash = []\<rparr>),
      val_hash = (\<lambda>_. None)\<rparr>"

lemmas status_defs = StatusValid_def StatusInvalid_def StatusUnknownSchema_def
  StatusValidationError_def StatusUnvalidated_def

lemma known_statuses [simp]:
  "known_status StatusValid" "known_status StatusInvalid" "known_status StatusUnknownSchema"
  "known_status StatusValidationError" "known_status StatusUnvalidated"
  by (simp_all add: known_status_def)

section \<open>The interface's contract\<close>

locale record_validator_spec =
  fixes v :: record_validator
  assumes status_known: "known_status (vr_status (val_validate v c k j))"
  and hash_stable: "val_hash v c = Some h \<Longrightarrow> vr_lexhash (val_validate v c k j) = h"
  and hash_nonempty: "val_hash v c = Some h \<Longrightarrow> h \<noteq> []"
  and valid_has_hash: "vr_status (val_validate v c k j) = StatusValid \<Longrightarrow> \<exists>h. val_hash v c = Some h"
begin

lemma classify_known: "known_status (vr_status (ClassifyRecord (Some v) c k j))"
  by (simp add: ClassifyRecord_def status_known)

lemma no_schema_never_valid: "val_hash v c = None \<Longrightarrow> vr_status (ClassifyRecord (Some v) c k j) \<noteq> StatusValid"
  using valid_has_hash [of c k j] by (auto simp: ClassifyRecord_def)

lemma valid_hash: "vr_status (val_validate v c k j) = StatusValid \<Longrightarrow> val_hash v c = Some (vr_lexhash (val_validate v c k j))"
  using valid_has_hash [of c k j] hash_stable [of c _ k j] by fastforce

end

interpretation disabled: record_validator_spec DisabledValidator
  by unfold_locales (simp_all add: DisabledValidator_def status_defs known_status_def)

end
