(* ===== verification/Lexicon_Validator.thy ===== *)
theory Lexicon_Validator
  imports Lexicon_Registry Validation_Gate "HOL-Library.Word"
begin

text \<open>
  The record validator of \<open>internal/validation/validator.go\<close>: the startup check of the saved Lexicon set, the graph of references between
  definitions and its closure, the fingerprint of a collection's schema, record keys and the classification of a record.

  What the Indigo library and SHA-256 do is the record \<open>indigo\<close>: reading a schema file, the catalog, AT Protocol data, record validation
  and the syntax of record keys.  \<open>dec_json\<close> reads a text as \<open>json.Unmarshal\<close> into an \<open>any\<close>; a document that holds a number outside the
  range of \<open>float64\<close> counts as undecodable.  A Go map of saved documents is an association list.
\<close>

section \<open>Parameters\<close>

text \<open>A definition of an Indigo schema file: a record with its key rule, or another kind.\<close>

datatype 'b schema_def = SchemaRecord (sr_key: string) (sr_rest: 'b) | SchemaOther 'b

record 'b schema_file =
  sf_id :: string
  sf_defs :: "(string \<times> 'b schema_def) list"

record ('b, 'c, 'd) indigo =
  ix_schema :: "string \<Rightarrow> 'b schema_file res"
  ix_empty :: 'c
  ix_add :: "'c \<Rightarrow> 'b schema_file \<Rightarrow> 'c res"
  ix_data :: "string \<Rightarrow> 'd res"
  ix_validate :: "'c \<Rightarrow> 'd \<Rightarrow> string \<Rightarrow> err option"
  ix_record_key :: "string \<Rightarrow> err option"
  ix_tid :: "string \<Rightarrow> err option"
  ix_nsid :: "string \<Rightarrow> err option"
  ix_sha256 :: "string \<Rightarrow> 256 word"
  ix_json_valid :: "string \<Rightarrow> bool"

text \<open>The JSON environment: the decoder, the messages of a syntax error and of a type error, and the Unicode tables of \<open>%q\<close>.\<close>

record json_env =
  je_decoders :: decoders
  je_syntax :: "string \<Rightarrow> err"
  je_type :: "string \<Rightarrow> json \<Rightarrow> err"
  je_unicode :: unicode

type_synonym saved_lexicons = "(string \<times> string) list"
type_synonym ref_graph = "(string \<times> string list) list"

record 'c validator =
  vd_registry :: registry
  vd_catalog :: 'c
  vd_hashes :: "(string \<times> string) list"
  vd_graph :: ref_graph

section \<open>Loading the saved documents\<close>

definition nonRecordMainTypes :: "string list" where
  "nonRecordMainTypes = [''query'', ''procedure'', ''subscription'', ''permission-set'']"

text \<open>A nested struct member: \<open>null\<close> leaves the fields alone, an object is decoded over them.\<close>

definition get_struct :: "('a \<Rightarrow> (string \<times> json) list \<Rightarrow> 'a res) \<Rightarrow> 'a \<Rightarrow> json \<Rightarrow> 'a option" where
  "get_struct dec cur v =
     (case v of
        JNull \<Rightarrow> Some cur
      | JObj fs \<Rightarrow> (case dec cur fs of Inl _ \<Rightarrow> None | Inr x \<Rightarrow> Some x)
      | _ \<Rightarrow> None)"

text \<open>\<open>doc.ID\<close> and \<open>doc.Defs.Main.Type\<close>, or None where the document does not decode.\<close>

definition main_type_of :: "json_env \<Rightarrow> string \<Rightarrow> (string \<times> string) option" where
  "main_type_of E raw =
     (case dec_json (je_decoders E) raw of
        None \<Rightarrow> None
      | Some j \<Rightarrow>
          (case res_bind (struct_members (je_type E) j) (\<lambda>fs.
             res_bind (decode_field (je_type E) ''id'' get_string [] fs) (\<lambda>i.
             res_bind (decode_field (je_type E) ''defs''
               (get_struct (\<lambda>ty. decode_field (je_type E) ''main'' (get_struct (\<lambda>ty. decode_field (je_type E) ''type'' get_string ty)) ty)) [] fs)
               (\<lambda>ty. Ok (i, ty)))) of
             Inl _ \<Rightarrow> None
           | Inr p \<Rightarrow> Some p))"

definition id_mismatch :: "string \<Rightarrow> string \<Rightarrow> err" where
  "id_mismatch expected found = ''lexicon ID mismatch: expected '' @ expected @ '', document contains '' @ found"

fun withoutNonRecordLexicons :: "json_env \<Rightarrow> saved_lexicons \<Rightarrow> saved_lexicons res" where
  "withoutNonRecordLexicons E [] = Ok []"
| "withoutNonRecordLexicons E ((i, raw) # saved) =
     (case main_type_of E raw of
        Some (docID, ty) \<Rightarrow>
          if ty \<in> set nonRecordMainTypes
          then if docID \<noteq> i then Err (id_mismatch i docID) else withoutNonRecordLexicons E saved
          else res_bind (withoutNonRecordLexicons E saved) (\<lambda>rest. Ok ((i, raw) # rest))
      | None \<Rightarrow> res_bind (withoutNonRecordLexicons E saved) (\<lambda>rest. Ok ((i, raw) # rest)))"

definition parseLexiconBytes :: "json_env \<Rightarrow> ('b, 'c, 'd) indigo \<Rightarrow> string \<Rightarrow> string \<Rightarrow> (lexicon \<times> 'b schema_file) res" where
  "parseLexiconBytes E I expectedID raw =
     res_bind (res_wrap (''failed to parse lexicon '' @ expectedID @ '' for GraphQL: '')
       (ParseBytes (je_decoders E) (je_syntax E) (je_type E) raw)) (\<lambda>parsed.
     if lx_id parsed \<noteq> expectedID then Err (id_mismatch expectedID (lx_id parsed))
     else res_bind (res_wrap (''failed to parse lexicon '' @ expectedID @ '' for Indigo: '') (ix_schema I raw)) (\<lambda>sf.
     if sf_id sf \<noteq> expectedID then Err (id_mismatch expectedID (sf_id sf)) else Ok (parsed, sf)))"

text \<open>The key rule \<open>record-key\<close> is written \<open>any\<close> for Indigo.\<close>

definition any_key :: "'b schema_def \<Rightarrow> 'b schema_def" where
  "any_key d = (case d of SchemaRecord k b \<Rightarrow> if k = ''record-key'' then SchemaRecord ''any'' b else d | SchemaOther _ \<Rightarrow> d)"

definition addSchemaFileToIndigoCatalog :: "('b, 'c, 'd) indigo \<Rightarrow> 'c \<Rightarrow> 'b schema_file \<Rightarrow> 'c res" where
  "addSchemaFileToIndigoCatalog I catalog sf = ix_add I catalog (sf\<lparr>sf_defs := map (map_prod id any_key) (sf_defs sf)\<rparr>)"

definition HashLexiconJSON :: "('b, 'c, 'd) indigo \<Rightarrow> string \<Rightarrow> string" where
  "HashLexiconJSON I raw = hex_digits 64 (unat (ix_sha256 I raw))"

section \<open>References between definitions\<close>

definition definitionRef :: "string \<Rightarrow> string \<Rightarrow> string" where
  "definitionRef i name = (if name = ''main'' then i else i @ ''#'' @ name)"

definition normalizeDefinitionRef :: "string \<Rightarrow> string \<Rightarrow> string" where
  "normalizeDefinitionRef ref contextID =
     trim_suffix (if has_prefix ref ''#'' then contextID @ ref else ref) ''#main''"

definition add_ref :: "string \<Rightarrow> string list \<Rightarrow> json \<Rightarrow> string list" where
  "add_ref contextID refs v =
     (case v of JStr ref \<Rightarrow> if ref \<noteq> [] then set_put (normalizeDefinitionRef ref contextID) refs else refs | _ \<Rightarrow> refs)"

text \<open>The references an object names itself, under \<open>ref\<close> and \<open>refs\<close>.\<close>

definition own_refs :: "string \<Rightarrow> (string \<times> json) list \<Rightarrow> string list \<Rightarrow> string list" where
  "own_refs contextID m refs =
     (let r1 = (case map_of m ''ref'' of Some v \<Rightarrow> add_ref contextID refs v | None \<Rightarrow> refs) in
      case map_of m ''refs'' of Some (JArr xs) \<Rightarrow> foldl (add_ref contextID) r1 xs | _ \<Rightarrow> r1)"

function collectRefs :: "string \<Rightarrow> json \<Rightarrow> string list \<Rightarrow> string list" where
  "collectRefs contextID v refs =
     (case v of
        JObj fs \<Rightarrow> foldl (\<lambda>rs e. collectRefs contextID (snd e) rs) (own_refs contextID (raw_map [] fs) refs) (raw_map [] fs)
      | JArr xs \<Rightarrow> foldl (\<lambda>rs x. collectRefs contextID x rs) refs xs
      | _ \<Rightarrow> refs)"
  by pat_completeness auto
termination
proof (relation "measure (\<lambda>(c, v, rs). size v)")
  fix v fs and e :: "string \<times> json"
  assume v: "v = JObj fs" and e: "e \<in> set (raw_map [] fs)"
  have "size (snd e) \<le> size_list (\<lambda>p. size (snd p)) (raw_map [] fs)" using e by (auto intro: size_list_estimation')
  also have "\<dots> \<le> size_list (\<lambda>p. size (snd p)) fs" using size_raw_map [of "[]" fs] by simp
  also have "\<dots> < size v" using size_members [of fs] v by simp
  finally show "\<And>contextID refs rs. ((contextID, snd e, rs), contextID, v, refs) \<in> measure (\<lambda>(c, v, rs). size v)" by simp
next
  fix v xs and x :: json
  assume "v = JArr xs" "x \<in> set xs"
  then show "\<And>contextID refs rs. ((contextID, x, rs), contextID, v, refs) \<in> measure (\<lambda>(c, v, rs). size v)"
    using size_list_estimation' [of x xs "size x" size] by simp
qed simp

declare collectRefs.simps [simp del]

definition collectDefinitionRefs :: "json \<Rightarrow> string \<Rightarrow> string list" where
  "collectDefinitionRefs v contextID = sort (collectRefs contextID v [])"

text \<open>The definitions of one document, in the order of their names.\<close>

definition document_defs :: "json_env \<Rightarrow> string \<Rightarrow> string \<Rightarrow> (string \<times> json) list res" where
  "document_defs E expectedID raw =
     res_bind (res_wrap (''failed to inspect references in saved lexicon '' @ expectedID @ '': '')
       (case dec_json (je_decoders E) raw of
          None \<Rightarrow> Err (je_syntax E raw)
        | Some j \<Rightarrow>
            res_bind (struct_members (je_type E) j) (\<lambda>fs.
            res_bind (decode_field (je_type E) ''id'' get_string [] fs) (\<lambda>i.
            res_bind (decode_field (je_type E) ''defs'' get_map [] fs) (\<lambda>defs. Ok (i, defs))))))
       (\<lambda>(i, defs). if i \<noteq> expectedID then Err (id_mismatch expectedID i) else Ok defs)"

definition add_document :: "string \<Rightarrow> (string \<times> json) list \<Rightarrow> ref_graph \<Rightarrow> ref_graph" where
  "add_document expectedID defs graph =
     foldl (\<lambda>g name. map_put (definitionRef expectedID name) (collectDefinitionRefs (the (map_of defs name)) expectedID) g)
       graph (sort (map fst defs))"

fun build_graph_loop :: "json_env \<Rightarrow> saved_lexicons \<Rightarrow> string list \<Rightarrow> ref_graph \<Rightarrow> ref_graph res" where
  "build_graph_loop E saved [] graph = Ok graph"
| "build_graph_loop E saved (i # is) graph =
     (case document_defs E i (the (map_of saved i)) of
        Inl e \<Rightarrow> Err e
      | Inr defs \<Rightarrow> build_graph_loop E saved is (add_document i defs graph))"

definition buildReferenceGraph :: "json_env \<Rightarrow> saved_lexicons \<Rightarrow> ref_graph res" where
  "buildReferenceGraph E saved = build_graph_loop E saved (sort (map fst saved)) []"

definition unresolved_in :: "ref_graph \<Rightarrow> string \<Rightarrow> string option" where
  "unresolved_in graph node = List.find (\<lambda>ref. map_of graph ref = None) (the (map_of graph node))"

fun closure_check :: "ref_graph \<Rightarrow> string list \<Rightarrow> unit res" where
  "closure_check graph [] = Ok ()"
| "closure_check graph (node # nodes) =
     (case unresolved_in graph node of
        Some ref \<Rightarrow> Err (node @ '' references '' @ ref @ '', which is not present in the saved Lexicon set'')
      | None \<Rightarrow> closure_check graph nodes)"

definition validateReferenceClosure :: "ref_graph \<Rightarrow> unit res" where
  "validateReferenceClosure graph = closure_check graph (sort (map fst graph))"

section \<open>Building the validator\<close>

fun load_loop ::
  "json_env \<Rightarrow> ('b, 'c, 'd) indigo \<Rightarrow> saved_lexicons \<Rightarrow> string list \<Rightarrow> registry \<times> 'c \<times> (string \<times> string) list
   \<Rightarrow> (registry \<times> 'c \<times> (string \<times> string) list) res" where
  "load_loop E I saved [] st = Ok st"
| "load_loop E I saved (i # is) (reg, cat, hashes) =
     (let raw = the (map_of saved i) in
      res_bind (parseLexiconBytes E I i raw) (\<lambda>(parsed, sf).
      res_bind (res_wrap (''saved lexicon '' @ i @ '' is not valid according to Indigo: '') (addSchemaFileToIndigoCatalog I cat sf)) (\<lambda>cat'.
      load_loop E I saved is (Register parsed reg, cat', map_put i (HashLexiconJSON I raw) hashes))))"

definition NewValidatorFromLexiconBytes :: "json_env \<Rightarrow> ('b, 'c, 'd) indigo \<Rightarrow> saved_lexicons \<Rightarrow> 'c validator res" where
  "NewValidatorFromLexiconBytes E I all_saved =
     res_bind (withoutNonRecordLexicons E all_saved) (\<lambda>saved.
     res_bind (load_loop E I saved (sort (map fst saved)) (NewRegistry, ix_empty I, [])) (\<lambda>(reg, cat, hashes).
     res_bind (buildReferenceGraph E saved) (\<lambda>graph.
     res_bind (res_wrap ''startup Lexicon set has unresolved references: '' (validateReferenceClosure graph)) (\<lambda>_.
     Ok \<lparr>vd_registry = reg, vd_catalog = cat, vd_hashes = hashes, vd_graph = graph\<rparr>))))"

definition CheckLexiconSet :: "json_env \<Rightarrow> ('b, 'c, 'd) indigo \<Rightarrow> saved_lexicons \<Rightarrow> unit res" where
  "CheckLexiconSet E I saved = res_bind (NewValidatorFromLexiconBytes E I saved) (\<lambda>_. Ok ())"

definition CheckLexiconBytes :: "json_env \<Rightarrow> ('b, 'c, 'd) indigo \<Rightarrow> string \<Rightarrow> string \<Rightarrow> unit res" where
  "CheckLexiconBytes E I expectedID raw =
     res_bind (parseLexiconBytes E I expectedID raw) (\<lambda>(_, sf).
     res_bind (res_wrap (''lexicon '' @ expectedID @ '' is not valid according to Indigo: '')
       (addSchemaFileToIndigoCatalog I (ix_empty I) sf)) (\<lambda>_. Ok ()))"

definition GraphQLRegistry :: "'c validator option \<Rightarrow> registry option" where
  "GraphQLRegistry v = map_option vd_registry v"

section \<open>Fingerprints\<close>

definition refs_of :: "ref_graph \<Rightarrow> string \<Rightarrow> string list" where
  "refs_of graph node = (case map_of graph node of Some rs \<Rightarrow> rs | None \<Rightarrow> [])"

definition lexicon_part :: "string \<Rightarrow> string" where
  "lexicon_part node = (case cut_at CHR ''#'' node of Some (i, _) \<Rightarrow> i | None \<Rightarrow> node)"

text \<open>The search; the head of the list is the top of the stack.\<close>

function reference_search :: "ref_graph \<Rightarrow> string list \<Rightarrow> string list \<Rightarrow> string list \<Rightarrow> string list" where
  "reference_search graph visited lexiconIDs [] = lexiconIDs"
| "reference_search graph visited lexiconIDs (node # stack) =
     (if node \<in> set visited then reference_search graph visited lexiconIDs stack
      else reference_search graph (node # visited) (set_put (lexicon_part node) lexiconIDs) (rev (refs_of graph node) @ stack))"
  by pat_completeness auto
termination
proof (relation "measures [\<lambda>(g, visited, ids, stack). card (fst ` set g - set visited), \<lambda>(g, visited, ids, stack). length stack]")
  fix graph :: ref_graph and visited lexiconIDs :: "string list" and node stack
  assume new: "node \<notin> set visited"
  show "((graph, node # visited, set_put (lexicon_part node) lexiconIDs, rev (refs_of graph node) @ stack), graph, visited, lexiconIDs, node # stack)
    \<in> measures [\<lambda>(g, visited, ids, stack). card (fst ` set g - set visited), \<lambda>(g, visited, ids, stack). length stack]"
  proof (cases "node \<in> fst ` set graph")
    case True
    have "card (fst ` set graph - insert node (set visited)) < card (fst ` set graph - set visited)"
      by (rule psubset_card_mono) (use True new in auto)
    then show ?thesis by simp
  next
    case False
    then have "refs_of graph node = []" "fst ` set graph - insert node (set visited) = fst ` set graph - set visited"
      by (auto simp: refs_of_def map_of_eq_None_iff [THEN iffD2])
    then show ?thesis by simp
  qed
qed simp_all

definition referencedLexiconIDs :: "'c validator \<Rightarrow> string \<Rightarrow> string list" where
  "referencedLexiconIDs v collection = sort (reference_search (vd_graph v) [] [] [collection])"

definition fingerprint_parts :: "(string \<times> string) list \<Rightarrow> string list \<Rightarrow> string list" where
  "fingerprint_parts hashes ids = concat (map (\<lambda>i. case map_of hashes i of Some h \<Rightarrow> [i @ ''='' @ h] | None \<Rightarrow> []) ids)"

definition fingerprint_text :: "'c validator \<Rightarrow> string \<Rightarrow> string" where
  "fingerprint_text v collection = join_with [CHR 0x0A] (fingerprint_parts (vd_hashes v) (referencedLexiconIDs v collection))"

definition LexiconHash :: "('b, 'c, 'd) indigo \<Rightarrow> 'c validator option \<Rightarrow> string \<Rightarrow> string option" where
  "LexiconHash I vo collection =
     (case vo of
        None \<Rightarrow> None
      | Some v \<Rightarrow> if map_of (vd_hashes v) collection = None then None else Some (HashLexiconJSON I (fingerprint_text v collection)))"

section \<open>Validating a record\<close>

definition isCatalogResolutionError :: "err \<Rightarrow> bool" where
  "isCatalogResolutionError e =
     (contains_sub e ''schema not found in catalog'' \<or> contains_sub e ''could not resolve known union variant'')"

definition validateRecordKey :: "unicode \<Rightarrow> ('b, 'c, 'd) indigo \<Rightarrow> string \<Rightarrow> string \<Rightarrow> err option" where
  "validateRecordKey U I rule rkey =
     (if rule = ''any'' \<or> rule = ''record-key'' then
        map_option (\<lambda>e. ''record key expected record-key for rule '' @ rule @ '', got '' @ go_quote U rkey @ '': '' @ e) (ix_record_key I rkey)
      else if rule = ''tid'' then map_option (\<lambda>e. ''record key expected tid, got '' @ go_quote U rkey @ '': '' @ e) (ix_tid I rkey)
      else if rule = ''nsid'' then map_option (\<lambda>e. ''record key expected nsid, got '' @ go_quote U rkey @ '': '' @ e) (ix_nsid I rkey)
      else if has_prefix rule ''literal:'' then
        (let literal = trim_prefix rule ''literal:'' in
         if rkey \<noteq> literal then Some (''record key expected literal '' @ go_quote U literal @ '', got '' @ go_quote U rkey) else None)
      else Some (''saved lexicon uses unsupported record key rule '' @ go_quote U rule @ ''; update the Lexicon and restart Hyperindex''))"

definition ValidateRecord :: "unicode \<Rightarrow> ('b, 'c, 'd) indigo \<Rightarrow> 'c validator option \<Rightarrow> string \<Rightarrow> string \<Rightarrow> string \<Rightarrow> vresult" where
  "ValidateRecord U I vo collection rkey rawJSON =
     (case vo of
        None \<Rightarrow> \<lparr>vr_status = StatusValidationError,
          vr_error = ''validator is not configured; restart Hyperindex after loading saved Lexicons'', vr_lexhash = []\<rparr>
      | Some v \<Rightarrow>
          (case LexiconHash I (Some v) collection of
             None \<Rightarrow> \<lparr>vr_status = StatusUnknownSchema,
               vr_error = ''no saved lexicon for collection '' @ collection @ '' in the startup schema'', vr_lexhash = []\<rparr>
           | Some hash \<Rightarrow>
               (case GetRecordDef collection (vd_registry v) of
                  None \<Rightarrow> \<lparr>vr_status = StatusValidationError,
                    vr_error = ''saved lexicon for collection '' @ collection @ '' has no record definition'', vr_lexhash = hash\<rparr>
                | Some d \<Rightarrow>
                    (case ix_data I rawJSON of
                       Inl e \<Rightarrow>
                         if \<not> ix_json_valid I rawJSON
                         then \<lparr>vr_status = StatusValidationError,
                           vr_error = ''failed to parse record JSON for collection '' @ collection @ '': '' @ e, vr_lexhash = hash\<rparr>
                         else \<lparr>vr_status = StatusInvalid, vr_error = ''record is not valid AT Protocol data: '' @ e, vr_lexhash = hash\<rparr>
                     | Inr record \<Rightarrow>
                         (case validateRecordKey U I (rd_key d) rkey of
                            Some e \<Rightarrow> \<lparr>vr_status = StatusInvalid, vr_error = e, vr_lexhash = hash\<rparr>
                          | None \<Rightarrow>
                              (case ix_validate I (vd_catalog v) record collection of
                                 Some e \<Rightarrow>
                                   if isCatalogResolutionError e
                                   then \<lparr>vr_status = StatusValidationError,
                                     vr_error = ''startup Lexicon set is incomplete for collection '' @ collection @ '': '' @ e, vr_lexhash = hash\<rparr>
                                   else \<lparr>vr_status = StatusInvalid,
                                     vr_error = ''record does not conform to lexicon '' @ collection @ '': '' @ e, vr_lexhash = hash\<rparr>
                               | None \<Rightarrow> \<lparr>vr_status = StatusValid, vr_error = [], vr_lexhash = hash\<rparr>))))))"

text \<open>The validator as a \<open>RecordValidator\<close>.\<close>

definition startup_validator :: "unicode \<Rightarrow> ('b, 'c, 'd) indigo \<Rightarrow> 'c validator option \<Rightarrow> record_validator" where
  "startup_validator U I vo = \<lparr>val_validate = ValidateRecord U I vo, val_hash = LexiconHash I vo\<rparr>"

section \<open>Hexadecimal digests\<close>

lemma length_hex_digits [simp]: "length (hex_digits k n) = k"
  by (induction k arbitrary: n) auto

lemma hex_digit_inj: "a < 16 \<Longrightarrow> b < 16 \<Longrightarrow> hex_digit a = hex_digit b \<Longrightarrow> a = b"
proof -
  assume "a < 16" "b < 16" "hex_digit a = hex_digit b"
  then have "of_char (hex_digit a) = (of_char (hex_digit b) :: nat)" by simp
  then show "a = b" using \<open>a < 16\<close> \<open>b < 16\<close> by (auto simp: hex_digit_def split: if_splits)
qed

lemma hex_digits_inj: "m < 16 ^ k \<Longrightarrow> n < 16 ^ k \<Longrightarrow> hex_digits k m = hex_digits k n \<Longrightarrow> m = n"
proof (induction k arbitrary: m n)
  case (Suc k)
  have "m div 16 < 16 ^ k" "n div 16 < 16 ^ k" using Suc.prems by (simp_all add: less_mult_imp_div_less mult.commute)
  then have "m div 16 = n div 16" using Suc by simp
  moreover have "m mod 16 = n mod 16" using Suc.prems(3) by (auto intro: hex_digit_inj)
  ultimately show ?case by (metis div_mult_mod_eq)
qed simp

lemma hex_digits_no_newline: "CHR 0x0A \<notin> set (hex_digits k n)"
proof (induction k arbitrary: n)
  case (Suc k)
  have "hex_digit (n mod 16) \<noteq> CHR 0x0A"
  proof
    assume "hex_digit (n mod 16) = CHR 0x0A"
    then have "of_char (hex_digit (n mod 16)) = (of_char (CHR 0x0A) :: nat)" by simp
    then show False by (auto simp: hex_digit_def split: if_splits)
  qed
  then show ?case using Suc by auto
qed simp

lemma HashLexiconJSON_inj: "HashLexiconJSON I a = HashLexiconJSON I b \<Longrightarrow> ix_sha256 I a = ix_sha256 I b"
proof -
  have "unat w < 16 ^ 64" for w :: "256 word"
  proof -
    have "unat w < 2 ^ LENGTH(256)" by (rule unsigned_less)
    then show ?thesis by simp
  qed
  then show "HashLexiconJSON I a = HashLexiconJSON I b \<Longrightarrow> ix_sha256 I a = ix_sha256 I b"
    unfolding HashLexiconJSON_def using hex_digits_inj word_unat_eq_iff by blast
qed

lemma HashLexiconJSON_shape: "length (HashLexiconJSON I a) = 64" "CHR 0x0A \<notin> set (HashLexiconJSON I a)" "HashLexiconJSON I a \<noteq> []"
proof -
  show l: "length (HashLexiconJSON I a) = 64" by (simp add: HashLexiconJSON_def)
  show "CHR 0x0A \<notin> set (HashLexiconJSON I a)" by (simp add: HashLexiconJSON_def hex_digits_no_newline)
  show "HashLexiconJSON I a \<noteq> []" using l by auto
qed

section \<open>The search finds the reachable documents\<close>

definition ref_edges :: "ref_graph \<Rightarrow> (string \<times> string) set" where
  "ref_edges graph = {(a, b). b \<in> set (refs_of graph a)}"

lemma reach_closed:
  assumes "\<And>v. v \<in> V \<Longrightarrow> set (refs_of g v) \<subseteq> V \<union> S"
  shows "(ref_edges g)\<^sup>* `` V \<subseteq> V \<union> (ref_edges g)\<^sup>* `` S"
proof
  fix y assume "y \<in> (ref_edges g)\<^sup>* `` V"
  then obtain x where "(x, y) \<in> (ref_edges g)\<^sup>*" "x \<in> V" by blast
  then show "y \<in> V \<union> (ref_edges g)\<^sup>* `` S"
  proof (induction rule: rtrancl_induct)
    case (step y z)
    then have "y \<in> V \<or> (\<exists>s\<in>S. (s, y) \<in> (ref_edges g)\<^sup>*)" by blast
    then show ?case
    proof
      assume "y \<in> V"
      then have "z \<in> V \<union> S" using assms [of y] step.hyps(2) by (auto simp: ref_edges_def)
      then show ?thesis by blast
    next
      assume "\<exists>s\<in>S. (s, y) \<in> (ref_edges g)\<^sup>*"
      then show ?thesis using step.hyps(2) by (meson Image_iff UnI2 rtrancl.rtrancl_into_rtrancl)
    qed
  qed simp
qed

lemma set_reference_search:
  assumes "\<And>v. v \<in> set visited \<Longrightarrow> set (refs_of g v) \<subseteq> set visited \<union> set stack" "set ids = lexicon_part ` set visited"
  shows "set (reference_search g visited ids stack) = lexicon_part ` (set visited \<union> (ref_edges g)\<^sup>* `` set stack)"
  using assms
proof (induction g visited ids stack rule: reference_search.induct)
  case (1 graph visited lexiconIDs)
  then show ?case by simp
next
  case (2 graph visited lexiconIDs node stack)
  let ?R = "(ref_edges graph)\<^sup>*"
  show ?case
  proof (cases "node \<in> set visited")
    case True
    have cl: "v \<in> set visited \<Longrightarrow> set (refs_of graph v) \<subseteq> set visited \<union> set stack" for v using "2.prems"(1) [of v] True by auto
    have "?R `` set visited \<subseteq> set visited \<union> ?R `` set stack" by (rule reach_closed [OF cl])
    then have "set visited \<union> ?R `` set (node # stack) = set visited \<union> ?R `` set stack" using True by auto
    then show ?thesis using "2.IH"(1) [OF True cl "2.prems"(2)] True by simp
  next
    case False
    have "set (refs_of graph v) \<subseteq> set (node # visited) \<union> set (rev (refs_of graph node) @ stack)" if "v \<in> set (node # visited)" for v
      using that "2.prems"(1) [of v] by (cases "v = node") auto
    moreover have "set (set_put (lexicon_part node) lexiconIDs) = lexicon_part ` set (node # visited)" using "2.prems"(2) by auto
    ultimately have r: "set (reference_search graph visited lexiconIDs (node # stack))
        = lexicon_part ` (set (node # visited) \<union> ?R `` set (rev (refs_of graph node) @ stack))"
      using "2.IH"(2) [OF False] False by simp
    have "?R `` {node} = insert node (?R `` set (refs_of graph node))"
    proof (intro set_eqI iffI)
      fix y assume "y \<in> ?R `` {node}"
      then have "(node, y) \<in> ?R" by simp
      then show "y \<in> insert node (?R `` set (refs_of graph node))" by (cases rule: converse_rtranclE) (auto simp: ref_edges_def)
    next
      fix y assume "y \<in> insert node (?R `` set (refs_of graph node))"
      then show "y \<in> ?R `` {node}" by (auto simp: ref_edges_def intro: converse_rtrancl_into_rtrancl)
    qed
    then have "set (node # visited) \<union> ?R `` set (rev (refs_of graph node) @ stack) = set visited \<union> ?R `` set (node # stack)" by auto
    then show ?thesis using r by simp
  qed
qed

lemma distinct_reference_search: "distinct ids \<Longrightarrow> distinct (reference_search g visited ids stack)"
  by (induction g visited ids stack rule: reference_search.induct) simp_all

lemma referencedLexiconIDs_set: "set (referencedLexiconIDs v c) = {lexicon_part n |n. (c, n) \<in> (ref_edges (vd_graph v))\<^sup>*}"
  using set_reference_search [of "[]" "vd_graph v" "[c]" "[]"] by (auto simp: referencedLexiconIDs_def)

lemma referencedLexiconIDs_sorted: "sorted (referencedLexiconIDs v c)"
  by (simp add: referencedLexiconIDs_def)

lemma referencedLexiconIDs_distinct: "distinct (referencedLexiconIDs v c)"
  by (simp add: referencedLexiconIDs_def distinct_reference_search)

text \<open>C36: \<open>referencedLexiconIDs\<close> terminates on every graph, also a cyclic one, and returns, sorted and without repetition, exactly the lexicons of
  the definitions the collection reaches through references.\<close>

theorem referencedLexiconIDs_exact:
  "sorted (referencedLexiconIDs v c) \<and> distinct (referencedLexiconIDs v c)
   \<and> set (referencedLexiconIDs v c) = {lexicon_part n |n. (c, n) \<in> (ref_edges (vd_graph v))\<^sup>*}"
  by (intro conjI referencedLexiconIDs_sorted referencedLexiconIDs_distinct referencedLexiconIDs_set)

section \<open>What a built validator holds\<close>

text \<open>Ids are those of NSIDs: without \<open>#\<close> and line breaks.\<close>

definition plain_id :: "string \<Rightarrow> bool" where
  "plain_id i = (CHR ''#'' \<notin> set i \<and> CHR 0x0A \<notin> set i)"

definition plain_ids :: "saved_lexicons \<Rightarrow> bool" where
  "plain_ids saved = (map_ok saved \<and> list_all (\<lambda>p. plain_id (fst p)) saved)"

definition skipped :: "json_env \<Rightarrow> string \<Rightarrow> bool" where
  "skipped E raw = (case main_type_of E raw of Some (_, ty) \<Rightarrow> ty \<in> set nonRecordMainTypes | None \<Rightarrow> False)"

definition kept_doc :: "json_env \<Rightarrow> saved_lexicons \<Rightarrow> string \<Rightarrow> string option" where
  "kept_doc E saved i = (case map_of saved i of Some raw \<Rightarrow> if skipped E raw then None else Some raw | None \<Rightarrow> None)"

definition doc_graph :: "json_env \<Rightarrow> string \<Rightarrow> string \<Rightarrow> ref_graph" where
  "doc_graph E i raw = (case document_defs E i raw of Inl _ \<Rightarrow> [] | Inr defs \<Rightarrow> add_document i defs [])"

lemma withoutNonRecord_eq:
  assumes "withoutNonRecordLexicons E saved = Ok s"
  shows "s = filter (\<lambda>p. \<not> skipped E (snd p)) saved"
  using assms
proof (induction saved arbitrary: s)
  case (Cons p saved)
  obtain i raw where p: "p = (i, raw)" by (cases p)
  show ?case using Cons by (auto simp: p skipped_def res_bind_Ok split: option.splits prod.splits if_splits)
qed simp

lemma map_of_filter_snd: "map_ok m \<Longrightarrow> map_of (filter (\<lambda>p. P (snd p)) m) k = (case map_of m k of Some v \<Rightarrow> if P v then Some v else None | None \<Rightarrow> None)"
proof (induction m)
  case (Cons p m)
  then show ?case by (cases p) (auto simp: map_ok_def map_of_is_None_keys image_iff split: option.splits dest: map_of_SomeD)
qed simp

lemma withoutNonRecord_map_of: "withoutNonRecordLexicons E saved = Ok s \<Longrightarrow> map_ok saved \<Longrightarrow> map_of s i = kept_doc E saved i"
  using map_of_filter_snd [of saved "\<lambda>raw. \<not> skipped E raw" i]
  by (auto simp: kept_doc_def dest!: withoutNonRecord_eq split: option.splits)

lemma plain_ids_filter: "plain_ids saved \<Longrightarrow> plain_ids (filter P saved)"
  by (auto simp: plain_ids_def map_ok_def list_all_iff distinct_map_filter)

lemma load_loop_hashes:
  "load_loop E I saved is st = Ok (reg, cat, hs) \<Longrightarrow>
     map_of hs i = (if i \<in> set is then Some (HashLexiconJSON I (the (map_of saved i))) else map_of (snd (snd st)) i)"
proof (induction E I saved "is" st rule: load_loop.induct)
  case (2 E I saved j js reg0 cat0 hs0)
  then show ?case by (auto simp: Let_def res_bind_Ok split: prod.splits)
qed simp

lemma lexicon_part_plain: "CHR ''#'' \<notin> set i \<Longrightarrow> lexicon_part i = i"
  by (simp add: lexicon_part_def)

lemma lexicon_part_definitionRef: "CHR ''#'' \<notin> set i \<Longrightarrow> lexicon_part (definitionRef i name) = i"
  by (simp add: lexicon_part_def definitionRef_def)

lemma foldl_map_put:
  "map_of (foldl (\<lambda>g n. map_put (key n) (val n) g) g ns) = map_of g ++ map_of (foldl (\<lambda>g n. map_put (key n) (val n) g) [] ns)"
proof (induction ns arbitrary: g)
  case (Cons n ns)
  show ?case using Cons.IH [of "map_put (key n) (val n) g"] Cons.IH [of "[(key n, val n)]"] by (auto simp: map_add_def fun_eq_iff split: option.splits)
qed simp

lemma add_document_map: "map_of (add_document i defs g) = map_of g ++ map_of (add_document i defs [])"
  unfolding add_document_def by (rule foldl_map_put)

lemma add_document_part: "CHR ''#'' \<notin> set i \<Longrightarrow> map_of (add_document i defs []) n \<noteq> None \<Longrightarrow> lexicon_part n = i"
proof -
  have "fst ` set (foldl (\<lambda>g name. map_put (definitionRef i name) (val name) g) g ns) = fst ` set g \<union> definitionRef i ` set ns"
    for g :: ref_graph and val and ns by (induction ns arbitrary: g) auto
  then show "CHR ''#'' \<notin> set i \<Longrightarrow> map_of (add_document i defs []) n \<noteq> None \<Longrightarrow> lexicon_part n = i"
    by (auto simp: map_of_is_None_keys add_document_def lexicon_part_definitionRef)
qed

lemma build_graph_loop_lookup:
  assumes "build_graph_loop E saved is g = Ok g'" "distinct is" "\<And>i. i \<in> set is \<Longrightarrow> CHR ''#'' \<notin> set i"
    and "\<And>n. lexicon_part n \<in> set is \<Longrightarrow> map_of g n = None"
  shows "map_of g' n = (if lexicon_part n \<in> set is then map_of (doc_graph E (lexicon_part n) (the (map_of saved (lexicon_part n)))) n else map_of g n)"
  using assms
proof (induction "is" arbitrary: g)
  case (Cons i js)
  obtain defs where d: "document_defs E i (the (map_of saved i)) = Ok defs" "build_graph_loop E saved js (add_document i defs g) = Ok g'"
    using Cons.prems(1) by (auto split: sum.splits)
  have look: "map_of (add_document i defs g) m = (if lexicon_part m = i then map_of (doc_graph E i (the (map_of saved i))) m else map_of g m)" for m
  proof (cases "lexicon_part m = i")
    case True
    then show ?thesis using Cons.prems(4) [of m] by (simp add: add_document_map [of i defs g] d(1) doc_graph_def map_add_def split: option.splits)
  next
    case False
    then have "map_of (add_document i defs []) m = None" using add_document_part [of i defs m] Cons.prems(3) [of i] by fastforce
    then show ?thesis using False by (simp add: add_document_map [of i defs g] map_add_def)
  qed
  have fresh: "map_of (add_document i defs g) m = None" if "lexicon_part m \<in> set js" for m
    using that look [of m] Cons.prems(2) Cons.prems(4) [of m] by auto
  have "map_of g' n = (if lexicon_part n \<in> set js then map_of (doc_graph E (lexicon_part n) (the (map_of saved (lexicon_part n)))) n
      else map_of (add_document i defs g) n)"
    using Cons.IH [OF d(2)] Cons.prems(2,3) fresh by simp
  then show ?case using look [of n] by auto
qed simp

lemma closure_check_Ok: "closure_check g nodes = Ok u \<Longrightarrow> n \<in> set nodes \<Longrightarrow> unresolved_in g n = None"
  by (induction nodes) (auto split: option.splits)

lemma new_validator_parts:
  assumes "NewValidatorFromLexiconBytes E I saved = Ok v"
  obtains s reg cat hs g where "withoutNonRecordLexicons E saved = Ok s"
    "load_loop E I s (sort (map fst s)) (NewRegistry, ix_empty I, []) = Ok (reg, cat, hs)"
    "buildReferenceGraph E s = Ok g" "validateReferenceClosure g = Ok ()"
    "v = \<lparr>vd_registry = reg, vd_catalog = cat, vd_hashes = hs, vd_graph = g\<rparr>"
  using assms unfolding NewValidatorFromLexiconBytes_def by (auto simp: res_bind_Ok res_wrap_Ok split: prod.splits)

lemma buildReferenceGraph_ok: "buildReferenceGraph E saved = Ok g \<Longrightarrow> map_ok g"
proof -
  have ad: "map_ok g \<Longrightarrow> map_ok (add_document i defs g)" for i defs g
  proof -
    have "map_ok g \<Longrightarrow> map_ok (foldl (\<lambda>g n. map_put (key n) (val n) g) g ns)" for key :: "string \<Rightarrow> string" and val :: "string \<Rightarrow> string list" and g ns
      by (induction ns arbitrary: g) simp_all
    then show "map_ok g \<Longrightarrow> map_ok (add_document i defs g)" by (simp add: add_document_def)
  qed
  have "build_graph_loop E saved is g0 = Ok g \<Longrightarrow> map_ok g0 \<Longrightarrow> map_ok g" for "is" g0
    by (induction "is" arbitrary: g0) (auto simp: ad split: sum.splits)
  then show "buildReferenceGraph E saved = Ok g \<Longrightarrow> map_ok g" by (simp add: buildReferenceGraph_def)
qed

lemma validator_facts:
  assumes "NewValidatorFromLexiconBytes E I saved = Ok v" "plain_ids saved"
  shows "map_of (vd_hashes v) i = map_option (HashLexiconJSON I) (kept_doc E saved i)"
    and "map_of (vd_graph v) n = (case kept_doc E saved (lexicon_part n) of None \<Rightarrow> None | Some raw \<Rightarrow> map_of (doc_graph E (lexicon_part n) raw) n)"
    and "map_of (vd_graph v) n = Some rs \<Longrightarrow> r \<in> set rs \<Longrightarrow> map_of (vd_graph v) r \<noteq> None"
proof -
  from assms(1) obtain s reg cat hs g where s: "withoutNonRecordLexicons E saved = Ok s"
    and l: "load_loop E I s (sort (map fst s)) (NewRegistry, ix_empty I, []) = Ok (reg, cat, hs)"
    and g: "buildReferenceGraph E s = Ok g" and c: "validateReferenceClosure g = Ok ()"
    and v: "v = \<lparr>vd_registry = reg, vd_catalog = cat, vd_hashes = hs, vd_graph = g\<rparr>" by (rule new_validator_parts)
  have ok: "plain_ids s" "map_ok s" using plain_ids_filter [OF assms(2)] withoutNonRecord_eq [OF s] by (auto simp: plain_ids_def)
  have km: "map_of s i = kept_doc E saved i" for i using withoutNonRecord_map_of [OF s] assms(2) by (simp add: plain_ids_def)
  have keys: "i \<in> set (sort (map fst s)) \<longleftrightarrow> kept_doc E saved i \<noteq> None" for i
    using map_of_is_None_keys [of s i] km [of i] by auto
  show "map_of (vd_hashes v) i = map_option (HashLexiconJSON I) (kept_doc E saved i)"
    using load_loop_hashes [OF l, of i] keys [of i] km [of i] v by auto
  have "distinct (sort (map fst s))" "\<And>i. i \<in> set (sort (map fst s)) \<Longrightarrow> CHR ''#'' \<notin> set i"
    using ok by (auto simp: plain_ids_def map_ok_def list_all_iff plain_id_def)
  from build_graph_loop_lookup [OF g [unfolded buildReferenceGraph_def] this, of n]
  show "map_of (vd_graph v) n = (case kept_doc E saved (lexicon_part n) of None \<Rightarrow> None | Some raw \<Rightarrow> map_of (doc_graph E (lexicon_part n) raw) n)"
    using keys [of "lexicon_part n"] km [of "lexicon_part n"] v by (auto split: option.splits)
  show "map_of (vd_graph v) n = Some rs \<Longrightarrow> r \<in> set rs \<Longrightarrow> map_of (vd_graph v) r \<noteq> None"
  proof -
    assume n: "map_of (vd_graph v) n = Some rs" "r \<in> set rs"
    then have "n \<in> set (sort (map fst g))" using map_of_is_None_keys [of g n] v by auto
    then have "unresolved_in g n = None" using closure_check_Ok c by (fastforce simp: validateReferenceClosure_def)
    then show ?thesis using n v by (auto simp: unresolved_in_def find_None_iff)
  qed
qed

lemma reach_kept:
  assumes "NewValidatorFromLexiconBytes E I saved = Ok v" "plain_ids saved" "kept_doc E saved c \<noteq> None" "(c, n) \<in> (ref_edges (vd_graph v))\<^sup>*"
  shows "kept_doc E saved (lexicon_part n) \<noteq> None"
  using assms(4)
proof (cases rule: rtranclE)
  case base
  have "CHR ''#'' \<notin> set c" using assms(2,3)
    by (auto simp: kept_doc_def plain_ids_def list_all_iff plain_id_def dest!: map_of_SomeD split: option.splits)
  then show ?thesis using assms(3) base by (simp add: lexicon_part_plain)
next
  case (step y)
  from step(2) obtain rs where "map_of (vd_graph v) y = Some rs" "n \<in> set rs"
    by (cases "map_of (vd_graph v) y") (simp_all add: ref_edges_def refs_of_def)
  then have "map_of (vd_graph v) n \<noteq> None" by (rule validator_facts(3) [OF assms(1,2)])
  then show ?thesis using validator_facts(2) [OF assms(1,2), of n] by (auto split: option.splits)
qed

lemma referenced_kept:
  assumes "NewValidatorFromLexiconBytes E I saved = Ok v" "plain_ids saved" "kept_doc E saved c \<noteq> None" "i \<in> set (referencedLexiconIDs v c)"
  shows "kept_doc E saved i \<noteq> None"
proof -
  obtain n where "i = lexicon_part n" "(c, n) \<in> (ref_edges (vd_graph v))\<^sup>*"
    using assms(4) referencedLexiconIDs_set [of v c] by blast
  then show ?thesis using reach_kept [OF assms(1-3)] by simp
qed

lemma fingerprint_parts_map:
  assumes "\<And>i. i \<in> set is \<Longrightarrow> map_of hs i \<noteq> None"
  shows "fingerprint_parts hs is = map (\<lambda>i. i @ ''='' @ the (map_of hs i)) is"
  using assms by (induction "is") (auto simp: fingerprint_parts_def split: option.splits)

lemma same_docs_same_reach:
  assumes "NewValidatorFromLexiconBytes E I saved = Ok v" "plain_ids saved"
    and "NewValidatorFromLexiconBytes E I saved' = Ok v'" "plain_ids saved'"
    and agree: "\<And>i. i \<in> set (referencedLexiconIDs v c) \<Longrightarrow> map_of saved i = map_of saved' i"
  shows "(c, n) \<in> (ref_edges (vd_graph v))\<^sup>* \<longleftrightarrow> (c, n) \<in> (ref_edges (vd_graph v'))\<^sup>*"
proof -
  have same: "refs_of (vd_graph v) m = refs_of (vd_graph v') m" if "(c, m) \<in> (ref_edges (vd_graph v))\<^sup>*" for m
  proof -
    have "lexicon_part m \<in> set (referencedLexiconIDs v c)" using that by (auto simp: referencedLexiconIDs_set)
    then have "kept_doc E saved (lexicon_part m) = kept_doc E saved' (lexicon_part m)" using agree by (simp add: kept_doc_def)
    then show ?thesis using validator_facts(2) [OF assms(1,2), of m] validator_facts(2) [OF assms(3,4), of m] by (simp add: refs_of_def)
  qed
  show ?thesis
  proof
    assume "(c, n) \<in> (ref_edges (vd_graph v))\<^sup>*"
    then show "(c, n) \<in> (ref_edges (vd_graph v'))\<^sup>*"
    proof (induction rule: rtrancl_induct)
      case (step y z)
      then have "(y, z) \<in> ref_edges (vd_graph v')" using same [of y] by (simp add: ref_edges_def)
      then show ?case using step.IH by simp
    qed simp
  next
    assume "(c, n) \<in> (ref_edges (vd_graph v'))\<^sup>*"
    then show "(c, n) \<in> (ref_edges (vd_graph v))\<^sup>*"
    proof (induction rule: rtrancl_induct)
      case (step y z)
      then have "(y, z) \<in> ref_edges (vd_graph v)" using same [of y] by (simp add: ref_edges_def)
      then show ?case using step.IH by simp
    qed simp
  qed
qed

text \<open>The text a fingerprint hashes determines the lexicons and their hashes.\<close>

lemma fingerprint_text_inj:
  assumes "map (\<lambda>i. i @ ''='' @ f i) is = map (\<lambda>i. i @ ''='' @ g i) js" "\<And>i. length (f i) = k" "\<And>i. length (g i) = k"
  shows "is = js \<and> (\<forall>i\<in>set is. f i = g i)"
  using assms(1)
proof (induction "is" arbitrary: js)
  case (Cons i ks)
  then obtain j ls where j: "js = j # ls" "i @ ''='' @ f i = j @ ''='' @ g j"
    "map (\<lambda>i. i @ ''='' @ f i) ks = map (\<lambda>i. i @ ''='' @ g i) ls" by (cases js) auto
  have "length (''='' @ f i) = length (''='' @ g j)" using assms(2,3) by simp
  then have "i = j \<and> ''='' @ f i = ''='' @ g j" using j(2) append_eq_append_conv by blast
  then show ?case using Cons.IH [OF j(3)] j(1) by auto
qed simp

lemma fingerprint_facts:
  assumes "NewValidatorFromLexiconBytes E I saved = Ok v" "plain_ids saved" "kept_doc E saved c \<noteq> None"
  shows "fingerprint_text v c = join_with [CHR 0x0A] (map (\<lambda>i. i @ ''='' @ HashLexiconJSON I (the (kept_doc E saved i))) (referencedLexiconIDs v c))"
    and "referencedLexiconIDs v c \<noteq> []"
    and "w \<in> set (map (\<lambda>i. i @ ''='' @ HashLexiconJSON I (the (kept_doc E saved i))) (referencedLexiconIDs v c)) \<Longrightarrow> CHR 0x0A \<notin> set w"
proof -
  have k: "map_of (vd_hashes v) i = Some (HashLexiconJSON I (the (kept_doc E saved i)))" if "i \<in> set (referencedLexiconIDs v c)" for i
    using referenced_kept [OF assms that] validator_facts(1) [OF assms(1,2), of i] by auto
  then show "fingerprint_text v c = join_with [CHR 0x0A] (map (\<lambda>i. i @ ''='' @ HashLexiconJSON I (the (kept_doc E saved i))) (referencedLexiconIDs v c))"
    using fingerprint_parts_map [of "referencedLexiconIDs v c" "vd_hashes v"] by (auto simp: fingerprint_text_def cong: map_cong)
  have "lexicon_part c \<in> set (referencedLexiconIDs v c)" by (auto simp: referencedLexiconIDs_set)
  then show "referencedLexiconIDs v c \<noteq> []" by auto
  have "CHR 0x0A \<notin> set i" if "i \<in> set (referencedLexiconIDs v c)" for i using referenced_kept [OF assms that] assms(2)
    by (auto simp: kept_doc_def plain_ids_def list_all_iff plain_id_def dest!: map_of_SomeD split: option.splits)
  then show "w \<in> set (map (\<lambda>i. i @ ''='' @ HashLexiconJSON I (the (kept_doc E saved i))) (referencedLexiconIDs v c)) \<Longrightarrow> CHR 0x0A \<notin> set w"
    by (auto simp: HashLexiconJSON_shape(2))
qed

text \<open>C33: the fingerprint of a collection changes exactly when one of the documents it depends on changes.  For two startup sets that both
  load and both hold the collection, the hashes are equal exactly when every document the collection reaches in the first set is saved
  unchanged in the second, provided SHA-256 has no collision among the texts involved.\<close>

theorem LexiconHash_fingerprint:
  assumes "NewValidatorFromLexiconBytes E I saved = Ok v" "plain_ids saved"
    and "NewValidatorFromLexiconBytes E I saved' = Ok v'" "plain_ids saved'"
    and "LexiconHash I (Some v) c \<noteq> None" "LexiconHash I (Some v') c \<noteq> None"
    and "inj_on (ix_sha256 I) ({fingerprint_text v c, fingerprint_text v' c} \<union> snd ` set saved \<union> snd ` set saved')"
  shows "LexiconHash I (Some v) c = LexiconHash I (Some v') c
    \<longleftrightarrow> list_all (\<lambda>i. map_of saved i = map_of saved' i) (referencedLexiconIDs v c)"
proof -
  have kc: "kept_doc E saved c \<noteq> None" "kept_doc E saved' c \<noteq> None"
    using assms(5,6) validator_facts(1) [OF assms(1,2), of c] validator_facts(1) [OF assms(3,4), of c] by (auto simp: LexiconHash_def split: if_splits)
  have h: "LexiconHash I (Some v) c = LexiconHash I (Some v') c \<longleftrightarrow> fingerprint_text v c = fingerprint_text v' c"
    using assms(5,6) HashLexiconJSON_inj [of I "fingerprint_text v c" "fingerprint_text v' c"] inj_onD [OF assms(7), of "fingerprint_text v c" "fingerprint_text v' c"]
    by (auto simp: LexiconHash_def split: if_splits)
  note F = fingerprint_facts [OF assms(1,2) kc(1)] and F' = fingerprint_facts [OF assms(3,4) kc(2)]
  let ?f = "\<lambda>i. HashLexiconJSON I (the (kept_doc E saved i))" and ?f' = "\<lambda>i. HashLexiconJSON I (the (kept_doc E saved' i))"
  have sp: "split_on CHR 0x0A (join_with [CHR 0x0A] (map (\<lambda>i. i @ ''='' @ ?f i) (referencedLexiconIDs v c))) = map (\<lambda>i. i @ ''='' @ ?f i) (referencedLexiconIDs v c)"
    by (rule split_on_join) (use F(2) in simp, use F(3) in blast)
  have sp': "split_on CHR 0x0A (join_with [CHR 0x0A] (map (\<lambda>i. i @ ''='' @ ?f' i) (referencedLexiconIDs v' c))) = map (\<lambda>i. i @ ''='' @ ?f' i) (referencedLexiconIDs v' c)"
    by (rule split_on_join) (use F'(2) in simp, use F'(3) in blast)
  show ?thesis
  proof
    assume "LexiconHash I (Some v) c = LexiconHash I (Some v') c"
    then have "map (\<lambda>i. i @ ''='' @ ?f i) (referencedLexiconIDs v c) = map (\<lambda>i. i @ ''='' @ ?f' i) (referencedLexiconIDs v' c)"
      using arg_cong [where f = "split_on CHR 0x0A", OF h [THEN iffD1, unfolded F(1) F'(1)]] sp sp' by simp
    note eq = fingerprint_text_inj [OF this HashLexiconJSON_shape(1) HashLexiconJSON_shape(1)]
    have "map_of saved i = map_of saved' i" if i: "i \<in> set (referencedLexiconIDs v c)" for i
    proof -
      obtain a b where ab: "kept_doc E saved i = Some a" "kept_doc E saved' i = Some b"
        using referenced_kept [OF assms(1,2) kc(1) i] referenced_kept [OF assms(3,4) kc(2), of i] i eq [THEN conjunct1] by auto
      then have in': "map_of saved i = Some a" "map_of saved' i = Some b" by (auto simp: kept_doc_def split: option.splits if_splits)
      then have "a \<in> snd ` set saved" "b \<in> snd ` set saved'" by (force dest: map_of_SomeD)+
      moreover have "ix_sha256 I a = ix_sha256 I b" using eq [THEN conjunct2, THEN bspec, OF i] ab HashLexiconJSON_inj [of I a b] by simp
      ultimately have "a = b" using inj_onD [OF assms(7)] by blast
      then show ?thesis using in' by simp
    qed
    then show "list_all (\<lambda>i. map_of saved i = map_of saved' i) (referencedLexiconIDs v c)" by (simp add: list_all_iff)
  next
    assume "list_all (\<lambda>i. map_of saved i = map_of saved' i) (referencedLexiconIDs v c)"
    then have agree: "map_of saved i = map_of saved' i" if "i \<in> set (referencedLexiconIDs v c)" for i using that by (auto simp: list_all_iff)
    have ids: "referencedLexiconIDs v c = referencedLexiconIDs v' c"
    proof -
      have "set (referencedLexiconIDs v c) = set (referencedLexiconIDs v' c)"
        unfolding referencedLexiconIDs_set using same_docs_same_reach [OF assms(1-4) agree] by simp
      from sort_set_eqI [OF referencedLexiconIDs_distinct referencedLexiconIDs_distinct this]
      show ?thesis by (simp add: referencedLexiconIDs_sorted sort_key_id_if_sorted)
    qed
    have "?f i = ?f' i" if "i \<in> set (referencedLexiconIDs v c)" for i using agree [OF that] by (simp add: kept_doc_def)
    then show "LexiconHash I (Some v) c = LexiconHash I (Some v') c"
      unfolding h F(1) F'(1) ids [symmetric] by (simp cong: map_cong)
  qed
qed

lemma rg_lexicons_Register: "rg_lexicons (Register l r) = map_put (lx_id l) l (rg_lexicons r)"
proof -
  have "rg_lexicons (foldl (register_other i) r es) = rg_lexicons r" for i r es
    by (induction es arbitrary: r) (simp_all add: register_other_def Let_def)
  then show ?thesis by (simp add: Register_def register_main_def Let_def split: option.splits)
qed

lemma parseLexiconBytes_Ok:
  "parseLexiconBytes E I i raw = Ok (l, sf) \<Longrightarrow> ParseBytes (je_decoders E) (je_syntax E) (je_type E) raw = Ok l \<and> lx_id l = i"
  by (auto simp: parseLexiconBytes_def res_bind_Ok res_wrap_Ok split: if_splits)

lemma load_loop_registry:
  "load_loop E I saved is st = Ok (reg, cat, hs) \<Longrightarrow>
     map_of (rg_lexicons reg) i =
       (if i \<in> set is then (case ParseBytes (je_decoders E) (je_syntax E) (je_type E) (the (map_of saved i)) of Inr l \<Rightarrow> Some l | Inl _ \<Rightarrow> None)
        else map_of (rg_lexicons (fst st)) i)
   \<and> (i \<in> set is \<longrightarrow> is_ok (ParseBytes (je_decoders E) (je_syntax E) (je_type E) (the (map_of saved i))))"
proof (induction E I saved "is" st rule: load_loop.induct)
  case (2 E I saved j js reg0 cat0 hs0)
  then obtain l sf cat1 where p: "parseLexiconBytes E I j (the (map_of saved j)) = Ok (l, sf)"
    and a: "addSchemaFileToIndigoCatalog I cat0 sf = Ok cat1"
    and r: "load_loop E I saved js (Register l reg0, cat1, map_put j (HashLexiconJSON I (the (map_of saved j))) hs0) = Ok (reg, cat, hs)"
    by (auto simp: Let_def res_bind_Ok res_wrap_Ok)
  show ?case using "2.IH" [OF refl r] parseLexiconBytes_Ok [OF p] by (auto simp: rg_lexicons_Register is_ok_def)
qed simp

text \<open>C34: a startup set that loads is complete.  Every document that describes records or objects is hashed, and registered as what the parser makes
  of it under the id it was saved under; nothing else is; and every reference of every definition leads to a definition of the set.\<close>

theorem NewValidator_complete:
  assumes "NewValidatorFromLexiconBytes E I saved = Ok v" "plain_ids saved"
  shows "map_of (vd_hashes v) i = map_option (HashLexiconJSON I) (kept_doc E saved i)
    \<and> (case kept_doc E saved i of
         None \<Rightarrow> GetLexicon i (vd_registry v) = None
       | Some raw \<Rightarrow> \<exists>l. ParseBytes (je_decoders E) (je_syntax E) (je_type E) raw = Ok l \<and> GetLexicon i (vd_registry v) = Some l)
    \<and> list_all (\<lambda>e. list_all (\<lambda>r. map_of (vd_graph v) r \<noteq> None \<and> kept_doc E saved (lexicon_part r) \<noteq> None) (snd e)) (vd_graph v)"
proof -
  from assms(1) obtain s reg cat hs gr where s: "withoutNonRecordLexicons E saved = Ok s"
    and l: "load_loop E I s (sort (map fst s)) (NewRegistry, ix_empty I, []) = Ok (reg, cat, hs)"
    and b: "buildReferenceGraph E s = Ok gr"
    and v: "v = \<lparr>vd_registry = reg, vd_catalog = cat, vd_hashes = hs, vd_graph = gr\<rparr>" by (rule new_validator_parts)
  have g: "map_ok (vd_graph v)" using buildReferenceGraph_ok [OF b] v by simp
  have km: "map_of s i = kept_doc E saved i" using withoutNonRecord_map_of [OF s] assms(2) by (simp add: plain_ids_def)
  have keys: "i \<in> set (sort (map fst s)) \<longleftrightarrow> kept_doc E saved i \<noteq> None" using map_of_is_None_keys [of s i] km by auto
  have "case kept_doc E saved i of
         None \<Rightarrow> GetLexicon i (vd_registry v) = None
       | Some raw \<Rightarrow> \<exists>l. ParseBytes (je_decoders E) (je_syntax E) (je_type E) raw = Ok l \<and> GetLexicon i (vd_registry v) = Some l"
    using load_loop_registry [OF l, of i] keys km v
    by (auto simp: GetLexicon_def NewRegistry_def is_ok_def split: option.splits sum.splits)
  moreover have "map_of (vd_graph v) r \<noteq> None \<and> kept_doc E saved (lexicon_part r) \<noteq> None" if "e \<in> set (vd_graph v)" "r \<in> set (snd e)" for e r
  proof -
    have "map_of (vd_graph v) (fst e) = Some (snd e)" using that(1) g by (simp add: map_ok_def)
    then have r: "map_of (vd_graph v) r \<noteq> None" using validator_facts(3) [OF assms] that(2) by blast
    then show ?thesis using validator_facts(2) [OF assms, of r] by (auto split: option.splits)
  qed
  ultimately show ?thesis using validator_facts(1) [OF assms] by (simp add: list_all_iff)
qed

section \<open>The verdict\<close>

lemma validateRecordKey_message: "validateRecordKey U I rule k \<noteq> Some []"
  by (auto simp: validateRecordKey_def Let_def)


interpretation startup: record_validator_spec "startup_validator U I vo"
proof unfold_locales
  fix c k j h
  show "known_status (vr_status (val_validate (startup_validator U I vo) c k j))"
    by (auto simp: startup_validator_def ValidateRecord_def split: option.splits sum.splits)
  show "val_hash (startup_validator U I vo) c = Some h \<Longrightarrow> vr_lexhash (val_validate (startup_validator U I vo) c k j) = h"
    by (auto simp: startup_validator_def ValidateRecord_def LexiconHash_def split: option.splits sum.splits)
  show "val_hash (startup_validator U I vo) c = Some h \<Longrightarrow> h \<noteq> []"
    by (auto simp: startup_validator_def LexiconHash_def HashLexiconJSON_shape(3) split: option.splits if_splits)
  show "vr_status (val_validate (startup_validator U I vo) c k j) = StatusValid \<Longrightarrow> \<exists>h. val_hash (startup_validator U I vo) c = Some h"
    by (auto simp: startup_validator_def ValidateRecord_def status_defs split: option.splits sum.splits)
qed

section \<open>Witnesses\<close>

text \<open>Two lexicons, \<open>a.b.c\<close> with a reference to \<open>a.b.d\<close>; the texts \<open>B\<close> and \<open>C\<close> both describe the second.\<close>

definition sample_env :: json_env where
  "sample_env = \<lparr>je_decoders = \<lparr>dec_json = (\<lambda>s. if s = ''A''
       then Some (JObj [(''id'', JStr ''a.b.c''), (''defs'', JObj [(''main'', JObj [(''type'', JStr ''record''), (''ref'', JStr ''a.b.d'')])])])
       else Some (JObj [(''id'', JStr ''a.b.d''), (''defs'', JObj [(''main'', JObj [(''type'', JStr ''object'')])])])), dec_datetime = (\<lambda>_. None)\<rparr>,
     je_syntax = (\<lambda>_. []), je_type = (\<lambda>_ _. []), je_unicode = ascii_unicode\<rparr>"

definition sample_indigo :: "(unit, unit, unit) indigo" where
  "sample_indigo = \<lparr>ix_schema = (\<lambda>s. Ok \<lparr>sf_id = (if s = ''A'' then ''a.b.c'' else ''a.b.d''), sf_defs = []\<rparr>), ix_empty = (), ix_add = (\<lambda>_ _. Ok ()),
     ix_data = (\<lambda>_. Ok ()), ix_validate = (\<lambda>_ _ _. None), ix_record_key = (\<lambda>_. None), ix_tid = (\<lambda>_. None), ix_nsid = (\<lambda>_. None),
     ix_sha256 = (\<lambda>s. if s = ''A'' then 1 else if s = ''B'' then 2 else if s = ''C'' then 3 else if CHR ''3'' \<in> set s then 5 else 4),
     ix_json_valid = (\<lambda>_. True)\<rparr>"

definition sample_saved :: "string \<Rightarrow> saved_lexicons" where
  "sample_saved s = [(''a.b.c'', ''A''), (''a.b.d'', s)]"


lemma sample_build:
  "list_all (\<lambda>s. case NewValidatorFromLexiconBytes sample_env sample_indigo (sample_saved s) of Inr v \<Rightarrow>
      fingerprint_text v ''a.b.c'' = ''a.b.c='' @ hex_digits 64 1 @ [CHR 0x0A] @ ''a.b.d='' @ hex_digits 64 (if s = ''B'' then 2 else 3)
      \<and> referencedLexiconIDs v ''a.b.c'' = [''a.b.c'', ''a.b.d''] \<and> map_of (vd_hashes v) ''a.b.c'' \<noteq> None | Inl _ \<Rightarrow> False) [''B'', ''C'']"
  by code_simp

lemma plain_sample: "plain_ids (sample_saved s)"
  by (simp add: plain_ids_def sample_saved_def map_ok_def plain_id_def)

theorem NewValidator_complete_witness:
  "\<exists>v. NewValidatorFromLexiconBytes sample_env sample_indigo (sample_saved ''B'') = Ok v
     \<and> map_of (vd_hashes v) ''a.b.d'' = map_option (HashLexiconJSON sample_indigo) (kept_doc sample_env (sample_saved ''B'') ''a.b.d'')"
proof -
  obtain v where v: "NewValidatorFromLexiconBytes sample_env sample_indigo (sample_saved ''B'') = Ok v" using sample_build by (auto split: sum.splits)
  show ?thesis using NewValidator_complete [OF v plain_sample, of "''a.b.d''"] v by blast
qed

theorem LexiconHash_fingerprint_witness:
  "\<exists>v v'. NewValidatorFromLexiconBytes sample_env sample_indigo (sample_saved ''B'') = Ok v
     \<and> NewValidatorFromLexiconBytes sample_env sample_indigo (sample_saved ''C'') = Ok v'
     \<and> LexiconHash sample_indigo (Some v) ''a.b.c'' \<noteq> LexiconHash sample_indigo (Some v') ''a.b.c''"
proof -
  obtain v v' where v: "NewValidatorFromLexiconBytes sample_env sample_indigo (sample_saved ''B'') = Ok v"
      "fingerprint_text v ''a.b.c'' = ''a.b.c='' @ hex_digits 64 1 @ [CHR 0x0A] @ ''a.b.d='' @ hex_digits 64 2"
      "referencedLexiconIDs v ''a.b.c'' = [''a.b.c'', ''a.b.d'']" "map_of (vd_hashes v) ''a.b.c'' \<noteq> None"
    and v': "NewValidatorFromLexiconBytes sample_env sample_indigo (sample_saved ''C'') = Ok v'"
      "fingerprint_text v' ''a.b.c'' = ''a.b.c='' @ hex_digits 64 1 @ [CHR 0x0A] @ ''a.b.d='' @ hex_digits 64 3" "map_of (vd_hashes v') ''a.b.c'' \<noteq> None"
    using sample_build by (auto split: sum.splits)
  have "inj_on (ix_sha256 sample_indigo) {''a.b.c='' @ hex_digits 64 1 @ [CHR 0x0A] @ ''a.b.d='' @ hex_digits 64 2,
      ''a.b.c='' @ hex_digits 64 1 @ [CHR 0x0A] @ ''a.b.d='' @ hex_digits 64 3, ''A'', ''B'', ''C''}"
    by code_simp
  moreover have "{fingerprint_text v ''a.b.c'', fingerprint_text v' ''a.b.c''} \<union> snd ` set (sample_saved ''B'') \<union> snd ` set (sample_saved ''C'')
    = {''a.b.c='' @ hex_digits 64 1 @ [CHR 0x0A] @ ''a.b.d='' @ hex_digits 64 2,
      ''a.b.c='' @ hex_digits 64 1 @ [CHR 0x0A] @ ''a.b.d='' @ hex_digits 64 3, ''A'', ''B'', ''C''}"
    unfolding v(2) v'(2) by (auto simp: sample_saved_def)
  ultimately have "inj_on (ix_sha256 sample_indigo)
      ({fingerprint_text v ''a.b.c'', fingerprint_text v' ''a.b.c''} \<union> snd ` set (sample_saved ''B'') \<union> snd ` set (sample_saved ''C''))" by simp
  from LexiconHash_fingerprint [OF v(1) plain_sample v'(1) plain_sample _ _ this] v(3,4) v'(3)
  have "LexiconHash sample_indigo (Some v) ''a.b.c'' \<noteq> LexiconHash sample_indigo (Some v') ''a.b.c''"
    by (simp add: LexiconHash_def sample_saved_def)
  then show ?thesis using v(1) v'(1) by blast
qed

end
