(* ===== verification/Cursors.thy ===== *)
theory Cursors
  imports Go_Prelude
begin

text \<open>
  Pagination cursors: \<open>encodeCursorValues\<close>, \<open>decodeCursorValues\<close>, \<open>encodeCursor\<close> and \<open>decodeCursor\<close> of
  \<open>internal/graphql/schema/builder.go\<close>, with the parts of \<open>encoding/base64\<close> (\<open>URLEncoding\<close>) and
  \<open>encoding/json\<close> (a slice of strings) they use.  The parser of the array has fuel one more than its input,
  which \<open>elements_fuel\<close> shows to be enough.
\<close>

section \<open>base64.URLEncoding\<close>

definition b64_digit :: "nat \<Rightarrow> char" where
  "b64_digit n = (if n < 26 then char_of (65 + n) else if n < 52 then char_of (71 + n)
     else if n < 62 then char_of (n - 4) else if n = 62 then CHR ''-'' else CHR ''_'')"

definition b64_value :: "char \<Rightarrow> nat option" where
  "b64_value c =
     (let b = byte c in
      if 65 \<le> b \<and> b \<le> 90 then Some (b - 65)
      else if 97 \<le> b \<and> b \<le> 122 then Some (b - 71)
      else if 48 \<le> b \<and> b \<le> 57 then Some (b + 4)
      else if c = CHR ''-'' then Some 62
      else if c = CHR ''_'' then Some 63
      else None)"

fun b64_encode :: "string \<Rightarrow> string" where
  "b64_encode [] = []"
| "b64_encode [a] = [b64_digit (byte a div 4), b64_digit (byte a mod 4 * 16), CHR ''='', CHR ''='']"
| "b64_encode [a, b] =
     [b64_digit (byte a div 4), b64_digit (byte a mod 4 * 16 + byte b div 16), b64_digit (byte b mod 16 * 4), CHR ''='']"
| "b64_encode (a # b # c # s) =
     b64_digit (byte a div 4) # b64_digit (byte a mod 4 * 16 + byte b div 16)
     # b64_digit (byte b mod 16 * 4 + byte c div 64) # b64_digit (byte c mod 64) # b64_encode s"

text \<open>Four characters at a time; padding is allowed in the last group only, and left-over bits are ignored.\<close>

definition b64_group :: "char \<Rightarrow> char \<Rightarrow> char \<Rightarrow> char \<Rightarrow> string option" where
  "b64_group w x y z =
     (case (b64_value w, b64_value x, b64_value y, b64_value z) of
        (Some a, Some b, Some c, Some d) \<Rightarrow>
          Some [char_of (a * 4 + b div 16), char_of (b mod 16 * 16 + c div 4), char_of (c mod 4 * 64 + d)]
      | _ \<Rightarrow> None)"

definition b64_last :: "char \<Rightarrow> char \<Rightarrow> char \<Rightarrow> char \<Rightarrow> string option" where
  "b64_last w x y z =
     (if y = CHR ''='' \<and> z = CHR ''='' then
        (case (b64_value w, b64_value x) of (Some a, Some b) \<Rightarrow> Some [char_of (a * 4 + b div 16)] | _ \<Rightarrow> None)
      else if z = CHR ''='' then
        (case (b64_value w, b64_value x, b64_value y) of
           (Some a, Some b, Some c) \<Rightarrow> Some [char_of (a * 4 + b div 16), char_of (b mod 16 * 16 + c div 4)]
         | _ \<Rightarrow> None)
      else b64_group w x y z)"

fun b64_groups :: "string \<Rightarrow> string option" where
  "b64_groups [] = Some []"
| "b64_groups [w, x, y, z] = b64_last w x y z"
| "b64_groups (w # x # y # z # s) =
     (case (b64_group w x y z, b64_groups s) of (Some a, Some b) \<Rightarrow> Some (a @ b) | _ \<Rightarrow> None)"
| "b64_groups _ = None"

text \<open>\<open>DecodeString\<close> skips carriage returns and line feeds.\<close>

definition b64_decode :: "string \<Rightarrow> string option" where
  "b64_decode s = b64_groups (filter (\<lambda>c. byte c \<noteq> 13 \<and> byte c \<noteq> 10) s)"

section \<open>JSON arrays of strings\<close>

abbreviation escape_char :: char where "escape_char \<equiv> CHR 0x5C"

text \<open>\<open>encoding/json\<close> of a string: quotes, backslashes, control characters and the characters it escapes for HTML
  and JavaScript; an invalid byte becomes the replacement character.\<close>

definition json_rune :: "nat \<times> string \<Rightarrow> string" where
  "json_rune r =
     (if fst r = 34 then [escape_char, CHR 0x22]
      else if fst r = 92 then [escape_char, escape_char]
      else if fst r = 8 then [escape_char, CHR ''b'']
      else if fst r = 12 then [escape_char, CHR ''f'']
      else if fst r = 10 then [escape_char, CHR ''n'']
      else if fst r = 13 then [escape_char, CHR ''r'']
      else if fst r = 9 then [escape_char, CHR ''t'']
      else if fst r < 32 \<or> fst r = 60 \<or> fst r = 62 \<or> fst r = 38 \<or> fst r = 8232 \<or> fst r = 8233
        \<or> (fst r = 65533 \<and> length (snd r) = 1)
      then escape_char # CHR ''u'' # hex_digits 4 (fst r)
      else snd r)"

definition json_string :: "string \<Rightarrow> string" where
  "json_string s = CHR 0x22 # concat (map json_rune (runes s)) @ [CHR 0x22]"

definition json_strings :: "string list \<Rightarrow> string" where
  "json_strings vs = (if vs = [] then ''null'' else ''['' @ join_with '','' (map json_string vs) @ '']'')"

text \<open>\<open>json.Unmarshal\<close> into a \<open>[]string\<close>, on code points; \<open>None\<close> is any error.\<close>

definition hex_value :: "nat \<Rightarrow> nat option" where
  "hex_value c =
     (if 48 \<le> c \<and> c \<le> 57 then Some (c - 48) else if 97 \<le> c \<and> c \<le> 102 then Some (c - 87)
      else if 65 \<le> c \<and> c \<le> 70 then Some (c - 55) else None)"

definition hex4 :: "nat \<Rightarrow> nat \<Rightarrow> nat \<Rightarrow> nat \<Rightarrow> nat option" where
  "hex4 a b c d =
     (case (hex_value a, hex_value b, hex_value c, hex_value d) of
        (Some w, Some x, Some y, Some z) \<Rightarrow> Some (w * 4096 + x * 256 + y * 16 + z)
      | _ \<Rightarrow> None)"

definition simple_escape :: "nat \<Rightarrow> nat option" where
  "simple_escape c =
     (if c = 34 \<or> c = 92 \<or> c = 47 then Some c else if c = 98 then Some 8 else if c = 102 then Some 12
      else if c = 110 then Some 10 else if c = 114 then Some 13 else if c = 116 then Some 9 else None)"

text \<open>A code unit of a \<open>u\<close> escape followed by the rest of the literal: the rune it stands for and whether the
  following escape is its second half.\<close>

definition unit_rune :: "nat \<Rightarrow> nat list \<Rightarrow> nat \<times> bool" where
  "unit_rune u rest =
     (if 55296 \<le> u \<and> u \<le> 57343 then
        (case rest of
           c1 # c2 # a # b # c # d # _ \<Rightarrow>
             (if c1 = 92 \<and> c2 = 117 then
                (case hex4 a b c d of
                   Some l \<Rightarrow> if u \<le> 56319 \<and> 56320 \<le> l \<and> l \<le> 57343
                             then ((u - 55296) * 1024 + (l - 56320) + 65536, True) else (65533, False)
                 | None \<Rightarrow> (65533, False))
              else (65533, False))
         | _ \<Rightarrow> (65533, False))
      else (u, False))"

function literal :: "nat list \<Rightarrow> (string \<times> nat list) option" where
  "literal s =
     (case s of
        [] \<Rightarrow> None
      | c # cs \<Rightarrow>
          if c = 34 then Some ([], cs)
          else if c < 32 then None
          else if c = 92 then
            (case cs of
               [] \<Rightarrow> None
             | e # es \<Rightarrow>
                 if e = 117 then
                   (case es of
                      a # b # x # d # rest \<Rightarrow>
                        (case hex4 a b x d of
                           None \<Rightarrow> None
                         | Some u \<Rightarrow>
                             map_option (\<lambda>(t, r). (encode_rune (fst (unit_rune u rest)) @ t, r))
                               (literal (if snd (unit_rune u rest) then drop 6 rest else rest)))
                    | _ \<Rightarrow> None)
                 else (case simple_escape e of
                         None \<Rightarrow> None
                       | Some v \<Rightarrow> map_option (\<lambda>(t, r). (encode_rune v @ t, r)) (literal es)))
          else map_option (\<lambda>(t, r). (encode_rune c @ t, r)) (literal cs))"
  by pat_completeness auto
termination by (relation "measure length") auto

declare literal.simps [simp del]

definition skip_ws :: "nat list \<Rightarrow> nat list" where
  "skip_ws = dropWhile (\<lambda>c. c = 32 \<or> c = 9 \<or> c = 10 \<or> c = 13)"

text \<open>\<open>null\<close> leaves an element empty, and the whole slice when it stands alone.\<close>

definition element :: "nat list \<Rightarrow> (string \<times> nat list) option" where
  "element s =
     (case s of
        c # cs \<Rightarrow>
          if c = 34 then literal cs
          else if take 4 s = [110, 117, 108, 108] then Some ([], drop 4 s) else None
      | [] \<Rightarrow> None)"

fun elements :: "nat \<Rightarrow> nat list \<Rightarrow> (string list \<times> nat list) option" where
  "elements 0 s = None"
| "elements (Suc n) s =
     (case element (skip_ws s) of
        None \<Rightarrow> None
      | Some (v, r) \<Rightarrow>
          (case skip_ws r of
             [] \<Rightarrow> None
           | c # cs \<Rightarrow>
               if c = 44 then map_option (\<lambda>(vs, t). (v # vs, t)) (elements n cs)
               else if c = 93 then Some ([v], cs) else None))"

definition unmarshal_strings :: "string \<Rightarrow> string list option" where
  "unmarshal_strings data =
     (let s = skip_ws (map fst (runes data));
          finish = (\<lambda>vs rest. if skip_ws rest = [] then Some vs else None) in
      if take 4 s = [110, 117, 108, 108] then finish [] (drop 4 s)
      else (case s of
              c # cs \<Rightarrow>
                if c \<noteq> 91 then None
                else if take 1 (skip_ws cs) = [93] then finish [] (drop 1 (skip_ws cs))
                else (case elements (Suc (length cs)) cs of None \<Rightarrow> None | Some (vs, rest) \<Rightarrow> finish vs rest)
            | [] \<Rightarrow> None))"

section \<open>Cursors\<close>

definition encodeCursorValues :: "string list \<Rightarrow> string" where
  "encodeCursorValues values = b64_encode (json_strings values)"

definition decodeCursorValues :: "string \<Rightarrow> string list res" where
  "decodeCursorValues cursor =
     (case b64_decode cursor of
        None \<Rightarrow> Err ''invalid cursor''
      | Some data \<Rightarrow>
          (case unmarshal_strings data of
             Some parts \<Rightarrow> Ok parts
           | None \<Rightarrow>
               let parts = split_on CHR ''|'' data in
               if length parts < 2 then Err ''invalid cursor format'' else Ok parts))"

definition encodeCursor :: "string \<Rightarrow> string \<Rightarrow> string" where
  "encodeCursor indexedAt uri = encodeCursorValues [indexedAt, uri]"

definition decodeCursor :: "string \<Rightarrow> (string \<times> string) res" where
  "decodeCursor cursor =
     (case decodeCursorValues cursor of
        Inl e \<Rightarrow> Err e
      | Inr parts \<Rightarrow>
          (case parts of [a, b] \<Rightarrow> Ok (a, b) | _ \<Rightarrow> Err (''malformed cursor: expected '' @ [CHR 0x27] @ ''timestamp|uri'' @ [CHR 0x27])))"

section \<open>Facts\<close>

lemma b64_value_digit: "n < 64 \<Longrightarrow> b64_value (b64_digit n) = Some n"
  by (auto simp: b64_value_def b64_digit_def Let_def)

lemma b64_value_pad [simp]: "b64_value CHR ''='' = None"
  by (simp add: b64_value_def)

lemma b64_value_newline: "b64_value c = Some n \<Longrightarrow> byte c \<noteq> 13 \<and> byte c \<noteq> 10"
  by (auto simp: b64_value_def Let_def split: if_splits)

lemma b64_digit_chars:
  assumes "n < 64"
  shows "b64_digit n \<noteq> CHR ''=''" "byte (b64_digit n) \<noteq> 13" "byte (b64_digit n) \<noteq> 10"
  using b64_value_digit [OF assms] b64_value_newline by force+

lemma byte_less: "byte c < 256"
  by (rule nat_of_char_less_256)

lemma byte_bounds: "byte a div 4 < 64" "byte a mod 64 < 64" "byte a mod 4 * 16 + byte b div 16 < 64"
    "byte b mod 16 * 4 + byte c div 64 < 64" "byte a mod 4 * 16 < 64" "byte b mod 16 * 4 < 64"
proof -
  show "byte a div 4 < 64" using byte_less [of a] by linarith
  show "byte a mod 64 < 64" by simp
  have m: "byte b div 16 < 16" "byte a mod 4 < 4" "byte b mod 16 < 16" "byte c div 64 < 4"
    using byte_less [of b] byte_less [of c] by (linarith, simp, simp, linarith)
  then show "byte a mod 4 * 16 + byte b div 16 < 64" "byte b mod 16 * 4 + byte c div 64 < 64" by linarith+
  show "byte a mod 4 * 16 < 64" "byte b mod 16 * 4 < 64" using m by linarith+
qed

lemma b64_bits:
  fixes a b c :: nat
  assumes "a < 256" "b < 256" "c < 256"
  shows "a div 4 * 4 + (a mod 4 * 16 + b div 16) div 16 = a"
    "(a mod 4 * 16 + b div 16) mod 16 * 16 + (b mod 16 * 4 + c div 64) div 4 = b"
    "(b mod 16 * 4 + c div 64) mod 4 * 64 + c mod 64 = c"
    "a div 4 * 4 + a mod 4 * 16 div 16 = a"
    "(a mod 4 * 16 + b div 16) mod 16 * 16 + b mod 16 * 4 div 4 = b"
proof -
  have l: "b div 16 < 16" "c div 64 < 4" using assms by auto
  have 1: "(a mod 4 * 16 + b div 16) div 16 = a mod 4" "(a mod 4 * 16 + b div 16) mod 16 = b div 16" using l by simp_all
  have 2: "(b mod 16 * 4 + c div 64) div 4 = b mod 16" "(b mod 16 * 4 + c div 64) mod 4 = c div 64" using l by simp_all
  show "a div 4 * 4 + (a mod 4 * 16 + b div 16) div 16 = a" unfolding 1 by (rule div_mult_mod_eq)
  show "(a mod 4 * 16 + b div 16) mod 16 * 16 + (b mod 16 * 4 + c div 64) div 4 = b" unfolding 1 2 by (rule div_mult_mod_eq)
  show "(b mod 16 * 4 + c div 64) mod 4 * 64 + c mod 64 = c" unfolding 2 by (rule div_mult_mod_eq)
  show "a div 4 * 4 + a mod 4 * 16 div 16 = a" by simp
  show "(a mod 4 * 16 + b div 16) mod 16 * 16 + b mod 16 * 4 div 4 = b" unfolding 1 by simp
qed

lemmas byte_bits = b64_bits [OF byte_less byte_less byte_less]

lemma b64_group_digits:
  "b64_group (b64_digit (byte a div 4)) (b64_digit (byte a mod 4 * 16 + byte b div 16))
     (b64_digit (byte b mod 16 * 4 + byte c div 64)) (b64_digit (byte c mod 64)) = Some [a, b, c]"
  unfolding b64_group_def b64_value_digit [OF byte_bounds(1)] b64_value_digit [OF byte_bounds(2)]
    b64_value_digit [OF byte_bounds(3)] b64_value_digit [OF byte_bounds(4)] prod.case option.case byte_bits char_of_char by simp

lemma b64_last_digits:
  "b64_last (b64_digit (byte a div 4)) (b64_digit (byte a mod 4 * 16)) CHR ''='' CHR ''='' = Some [a]"
  "b64_last (b64_digit (byte a div 4)) (b64_digit (byte a mod 4 * 16 + byte b div 16)) (b64_digit (byte b mod 16 * 4)) CHR ''='' = Some [a, b]"
proof -
  show "b64_last (b64_digit (byte a div 4)) (b64_digit (byte a mod 4 * 16)) CHR ''='' CHR ''='' = Some [a]"
    unfolding b64_last_def b64_value_digit [OF byte_bounds(1)] b64_value_digit [OF byte_bounds(5)] prod.case option.case byte_bits char_of_char
    by simp
  show "b64_last (b64_digit (byte a div 4)) (b64_digit (byte a mod 4 * 16 + byte b div 16)) (b64_digit (byte b mod 16 * 4)) CHR ''='' = Some [a, b]"
    unfolding b64_last_def b64_value_digit [OF byte_bounds(1)] b64_value_digit [OF byte_bounds(3)] b64_value_digit [OF byte_bounds(6)]
      prod.case option.case byte_bits char_of_char
    using b64_digit_chars(1) [OF byte_bounds(6), of b] by simp
qed

lemma b64_groups_Cons:
  assumes "z \<noteq> CHR ''=''"
  shows "b64_groups (w # x # y # z # s) =
    (case (b64_group w x y z, b64_groups s) of (Some a, Some b) \<Rightarrow> Some (a @ b) | _ \<Rightarrow> None)"
  using assms by (cases s) (auto simp: b64_last_def split: option.splits)

lemma b64_groups_encode: "b64_groups (b64_encode s) = Some s"
proof (induction s rule: b64_encode.induct)
  case (4 a b c s)
  then show ?case
    by (simp add: b64_groups_Cons [OF b64_digit_chars(1) [OF byte_bounds(2)]] b64_group_digits del: b64_groups.simps)
qed (simp_all add: b64_last_digits)

lemma b64_encode_chars: "c \<in> set (b64_encode s) \<Longrightarrow> byte c \<noteq> 13 \<and> byte c \<noteq> 10"
  by (induction s rule: b64_encode.induct) (auto simp: b64_digit_chars byte_bounds)

lemma b64_decode_encode [simp]: "b64_decode (b64_encode s) = Some s"
proof -
  have "filter (\<lambda>c. byte c \<noteq> 13 \<and> byte c \<noteq> 10) (b64_encode s) = b64_encode s"
    using b64_encode_chars by (simp add: filter_id_conv)
  then show ?thesis by (simp add: b64_decode_def b64_groups_encode)
qed

lemma hex_value_digit: "n < 16 \<Longrightarrow> hex_value (byte (hex_digit n)) = Some n"
  by (auto simp: hex_value_def hex_digit_def)

lemma hex4_digits:
  assumes "n < 256"
  obtains a b c d where "hex_digits 4 n = [a, b, c, d]" "hex4 (byte a) (byte b) (byte c) (byte d) = Some n"
proof
  have "n div 16 < 16" using assms by simp
  moreover have "hex_digits (Suc (Suc (Suc (Suc 0)))) n = [hex_digit (n div 16 div 16 div 16 mod 16), hex_digit (n div 16 div 16 mod 16),
      hex_digit (n div 16 mod 16), hex_digit (n mod 16)]" by simp
  moreover have "Suc (Suc (Suc (Suc 0))) = 4" by simp
  ultimately show "hex_digits 4 n = [hex_digit 0, hex_digit 0, hex_digit (n div 16), hex_digit (n mod 16)]"
    by simp
  show "hex4 (byte (hex_digit 0)) (byte (hex_digit 0)) (byte (hex_digit (n div 16))) (byte (hex_digit (n mod 16))) = Some n"
    unfolding hex4_def by (subst hex_value_digit, simp)+ (use \<open>n div 16 < 16\<close> in \<open>simp add: hex_value_digit\<close>)
qed

lemma literal_json_rune:
  assumes "byte c < 128"
  shows "literal (map byte (json_rune (byte c, [c])) @ s) = map_option (\<lambda>(t, r). (c # t, r)) (literal s)"
proof -
  have e: "encode_rune (byte c) = [c]" by (rule encode_rune_ascii [OF assms])
  consider "byte c \<in> {34, 92, 8, 12, 10, 13, 9}"
    | "byte c \<notin> {34, 92, 8, 12, 10, 13, 9}" "byte c < 32 \<or> byte c \<in> {60, 62, 38}"
    | "byte c \<notin> {34, 92, 8, 12, 10, 13, 9}" "\<not> byte c < 32" "byte c \<notin> {60, 62, 38}" by blast
  then show ?thesis
  proof cases
    case 1
    then show ?thesis using e by (auto simp: json_rune_def literal.simps [of "92 # _"] simple_escape_def)
  next
    case 2
    have u: "unit_rune (byte c) s = (byte c, False)" using assms by (simp add: unit_rune_def)
    have j: "json_rune (byte c, [c]) = CHR 0x5C # CHR ''u'' # hex_digits 4 (byte c)"
      using 2 assms by (auto simp: json_rune_def)
    have "byte c < 256" by (rule byte_less)
    then obtain p q x y where h: "hex_digits 4 (byte c) = [p, q, x, y]" "hex4 (byte p) (byte q) (byte x) (byte y) = Some (byte c)"
      by (rule hex4_digits)
    show ?thesis unfolding j h(1) by (simp add: literal.simps [of "92 # _"] h(2) u e)
  next
    case 3
    then show ?thesis using e assms by (auto simp: json_rune_def literal.simps [of "byte c # _"])
  qed
qed

lemma literal_json_string:
  assumes "ascii s"
  shows "literal (map byte (concat (map json_rune (runes s))) @ 34 # rest) = Some (s, rest)"
proof -
  have "literal (map byte (concat (map (\<lambda>c. json_rune (byte c, [c])) s)) @ 34 # rest) = Some (s, rest)"
    using assms
  proof (induction s)
    case Nil
    then show ?case by (simp add: literal.simps [of "34 # _"])
  next
    case (Cons c s)
    then show ?case by (simp add: literal_json_rune)
  qed
  then show ?thesis using assms by (simp add: runes_ascii comp_def)
qed

lemma element_json_string:
  assumes "ascii v"
  shows "element (skip_ws (map byte (json_string v) @ rest)) = Some (v, rest)"
  using literal_json_string [OF assms, of rest] by (simp add: json_string_def skip_ws_def element_def)

lemma elements_json_strings:
  assumes "vs \<noteq> []" "\<forall>v\<in>set vs. ascii v" "length vs \<le> n"
  shows "elements n (map byte (join_with '','' (map json_string vs)) @ 93 # rest) = Some (vs, rest)"
  using assms
proof (induction vs arbitrary: n)
  case (Cons v vs)
  obtain m where n: "n = Suc m" using Cons.prems(3) by (cases n) auto
  have ws: "skip_ws (93 # t) = 93 # t" "skip_ws (44 # t) = 44 # t" for t by (simp_all add: skip_ws_def)
  show ?case
  proof (cases vs)
    case Nil
    then show ?thesis using Cons.prems n element_json_string [of v "93 # rest"] by (simp add: ws)
  next
    case (Cons w ws')
    have "elements m (map byte (join_with '','' (map json_string vs)) @ 93 # rest) = Some (vs, rest)"
      using Cons.IH [of m] Cons.prems n Cons by simp
    then show ?thesis
      using Cons n Cons.prems element_json_string [of v "44 # map byte (join_with '','' (map json_string vs)) @ 93 # rest"]
      by (simp add: ws)
  qed
qed simp

lemma ascii_hex_digits: "ascii (hex_digits k n)"
  by (induction k arbitrary: n) (auto simp: hex_digit_def)

lemma ascii_json_rune: "byte c < 128 \<Longrightarrow> ascii (json_rune (byte c, [c]))"
  by (simp add: json_rune_def ascii_hex_digits)

lemma ascii_json_string: "ascii v \<Longrightarrow> ascii (json_string v)"
proof -
  assume a: "ascii v"
  have "ascii (concat (map (\<lambda>c. json_rune (byte c, [c])) v))"
    using a by (induction v) (auto simp: ascii_json_rune)
  then show ?thesis using a by (simp add: json_string_def runes_ascii comp_def)
qed

lemma ascii_join: "\<forall>v\<in>set vs. ascii v \<Longrightarrow> ascii sep \<Longrightarrow> ascii (join_with sep vs)"
  by (induction sep vs rule: join_with.induct) auto

lemma length_join: "\<forall>v\<in>set vs. v \<noteq> [] \<Longrightarrow> length vs \<le> length (join_with sep vs)"
proof (induction sep vs rule: join_with.induct)
  case (3 sep w v ws)
  then show ?case by (cases w) auto
qed (auto simp: Suc_le_eq)

lemma unmarshal_json_strings:
  assumes "vs \<noteq> []" "\<forall>v\<in>set vs. ascii v"
  shows "unmarshal_strings (json_strings vs) = Some vs"
proof -
  let ?j = "join_with '','' (map json_string vs)"
  have "ascii (json_strings vs)" using assms by (auto simp: json_strings_def ascii_json_string intro!: ascii_join)
  then have "map fst (runes (json_strings vs)) = map byte (json_strings vs)" by (simp add: runes_ascii comp_def)
  then have codes: "map fst (runes (json_strings vs)) = 91 # map byte ?j @ [93]"
    using assms(1) by (simp add: json_strings_def)
  have l: "length vs \<le> Suc (length (map byte ?j @ [93]))"
    using length_join [of "map json_string vs" "'',''"] by (simp add: json_string_def)
  obtain t where t: "?j = CHR 0x22 # t" using assms(1) by (cases vs; cases "tl vs") (auto simp: json_string_def)
  show ?thesis unfolding unmarshal_strings_def codes
    using elements_json_strings [OF assms l, of "[]"] t by (simp add: skip_ws_def)
qed

lemma cursor_values_roundtrip:
  "vs \<noteq> [] \<Longrightarrow> \<forall>v\<in>set vs. ascii v \<Longrightarrow> decodeCursorValues (encodeCursorValues vs) = Ok vs"
  by (simp add: decodeCursorValues_def encodeCursorValues_def unmarshal_json_strings)

text \<open>The fuel of \<open>elements\<close> is enough: every element consumes input.\<close>

lemma literal_shorter: "literal s = Some (t, r) \<Longrightarrow> length r < length s"
proof (induction s arbitrary: t r rule: literal.induct)
  case (1 s)
  then obtain c cs where s: "s = c # cs" by (cases s) (auto simp: literal.simps [of "[]"])
  note IH = "1.IH" [OF s]
  show ?case
  proof (cases "c = 34 \<or> c < 32 \<or> c \<noteq> 92")
    case True
    then show ?thesis using "1.prems" IH(3) s by (auto simp: literal.simps [of "c # cs"] split: if_splits)
  next
    case False
    then have c: "c = 92" by simp
    then obtain e es where cs: "cs = e # es" using "1.prems" s by (cases cs) (auto simp: literal.simps [of "[_]"])
    show ?thesis
    proof (cases "e = 117")
      case True
      obtain a b x d rest where es: "es = a # b # x # d # rest"
        using "1.prems" s cs c True by (auto simp: literal.simps [of "92 # 117 # _"] split: list.splits)
      obtain u where u: "hex4 a b x d = Some u"
        using "1.prems" s cs c True es by (auto simp: literal.simps [of "92 # 117 # _"] split: option.splits)
      let ?rest = "if snd (unit_rune u rest) then drop 6 rest else rest"
      obtain t' where "literal ?rest = Some (t', r)"
        using "1.prems" s cs c True es u by (auto simp: literal.simps [of "92 # 117 # _"] simp del: drop_eq_Nil)
      then have "length r < length ?rest" using IH(1) [of e es a "b # x # d # rest" b "x # d # rest" x "d # rest" d rest u] c cs es True u by auto
      then show ?thesis using s cs es by (auto split: if_splits)
    next
      case False
      then obtain v t' where "simple_escape e = Some v" "literal es = Some (t', r)"
        using "1.prems" s cs c by (auto simp: literal.simps [of "92 # _"] split: option.splits)
      then show ?thesis using IH(2) [of e es v t' r] s cs c False by auto
    qed
  qed
qed

lemma skip_ws_shorter: "length (skip_ws s) \<le> length s"
  by (simp add: skip_ws_def length_dropWhile_le)

lemma element_shorter: "element s = Some (t, r) \<Longrightarrow> length r < length s"
  by (auto simp: element_def dest!: literal_shorter split: list.splits if_splits)

lemma elements_fuel:
  "length s \<le> n \<Longrightarrow> elements (Suc n) s = elements (Suc (length s)) s"
proof (induction n arbitrary: s rule: less_induct)
  case (less n)
  show ?case
  proof (cases "element (skip_ws s)")
    case (Some p)
    obtain v r where p: "p = (v, r)" by (cases p)
    have r: "length r < length s" using element_shorter [of "skip_ws s"] Some p skip_ws_shorter [of s] by fastforce
    have "elements n cs = elements (length s) cs" if cs: "skip_ws r = c # cs" for c cs
    proof -
      have l: "Suc (length cs) < length s" using cs r skip_ws_shorter [of r] by simp
      then obtain m k where "n = Suc m" "length s = Suc k" using less.prems by (cases n; cases "length s") auto
      then show ?thesis using less.IH [of m cs] less.IH [of k cs] l less.prems by simp
    qed
    then show ?thesis using Some p by (auto split: list.splits)
  qed simp
qed

section \<open>The properties\<close>



end
