(* ===== verification/Graph_Closure.thy ===== *)
theory Graph_Closure
  imports Go_Prelude "HOL-Library.Product_Lexorder" "HOL-Library.Multiset"
begin

text \<open>
  The bounded breadth-first closure of \<open>internal/graphclosure/closure.go\<close>.  The \<open>Adjacency\<close>
  interface is the locale \<open>adjacency_source\<close>: its implementation is a parameter of \<open>Compute\<close>, and
  its contract (every returned edge exists, and an answer not marked truncated is complete) is
  the locale's assumptions.  Inside the locale, an untruncated closure is proved to be the set of
  accounts within the requested distance, each at its distance.  The theory of the endorsement
  graph interprets the locale on the repository query that implements the interface.

  Go's \<open>int\<close> is 64 bits wide; the guards on \<open>maxSafeClosureAccounts\<close> keep every product below
  the limit, which \<open>edge_limit_no_overflow\<close> proves.
\<close>

section \<open>Definitions\<close>

definition MaxDegree :: int where "MaxDegree = 3"

definition DefaultClosureCap :: int where "DefaultClosureCap = 3000"

definition MaxVia :: int where "MaxVia = 64"

definition maxSafeClosureAccounts :: int where
  "maxSafeClosureAccounts = (2 ^ 63 - 1) div MaxVia"

type_synonym edge_map = "(string \<times> string list) list"
type_synonym adjacency = "string list \<Rightarrow> int \<Rightarrow> (edge_map \<times> bool) res"

record account =
  acc_did :: string
  acc_degree :: int
  acc_via :: "string list"

record closure_result =
  cr_accounts :: "account list"
  cr_truncated :: bool

text \<open>The variables of \<open>Compute\<close>: \<open>seen\<close>, \<open>predecessors\<close>, \<open>nextFrontier\<close>, \<open>truncated\<close>.\<close>

record closure_state =
  cs_seen :: "(string \<times> int) list"
  cs_pred :: "(string \<times> string list) list"
  cs_next :: "string list"
  cs_trunc :: bool

definition edges_of :: "edge_map \<Rightarrow> string \<Rightarrow> string list" where
  "edges_of es i = (case map_of es i of None \<Rightarrow> [] | Some ss \<Rightarrow> ss)"

definition preds_of :: "closure_state \<Rightarrow> string \<Rightarrow> string list" where
  "preds_of st s = (case map_of (cs_pred st) s of None \<Rightarrow> [] | Some ps \<Rightarrow> ps)"

text \<open>The body of the innermost loop, for one edge \<open>issuer \<rightarrow> subject\<close>.\<close>

definition visit_edge ::
  "string \<Rightarrow> int \<Rightarrow> int \<Rightarrow> string \<Rightarrow> string \<Rightarrow> closure_state \<Rightarrow> closure_state" where
  "visit_edge rootDID accountCap degree issuer subject st =
     (if subject = [] \<or> subject = rootDID then st
      else (case map_of (cs_seen st) subject of
              Some existingDegree \<Rightarrow>
                if existingDegree = degree \<and> degree > 1 then
                  (if int (length (preds_of st subject)) < MaxVia
                   then st\<lparr>cs_pred := map_put subject (set_put issuer (preds_of st subject)) (cs_pred st)\<rparr>
                   else st)
                else st
            | None \<Rightarrow>
                if int (length (cs_seen st)) - 1 \<ge> accountCap then st\<lparr>cs_trunc := True\<rparr>
                else st\<lparr>cs_seen := map_put subject degree (cs_seen st),
                        cs_next := cs_next st @ [subject],
                        cs_pred := (if degree > 1 then map_put subject [issuer] (cs_pred st)
                                    else cs_pred st)\<rparr>))"

definition visit_layer ::
  "string \<Rightarrow> int \<Rightarrow> int \<Rightarrow> edge_map \<Rightarrow> string list \<Rightarrow> closure_state \<Rightarrow> closure_state" where
  "visit_layer rootDID accountCap degree edges frontier st =
     fold (\<lambda>issuer. fold (visit_edge rootDID accountCap degree issuer) (edges_of edges issuer))
       frontier st"

text \<open>The traversal state after one degree's edges have been loaded: \<open>nextFrontier\<close> starts empty, and
  a truncated edge list marks the closure truncated.\<close>

definition layer_state ::
  "string \<Rightarrow> int \<Rightarrow> int \<Rightarrow> edge_map \<Rightarrow> bool \<Rightarrow> string list \<Rightarrow> closure_state \<Rightarrow> closure_state" where
  "layer_state rootDID accountCap degree edges edgesTruncated frontier st =
     (let st1 = visit_layer rootDID accountCap degree edges frontier (st\<lparr>cs_next := []\<rparr>)
      in if edgesTruncated then st1\<lparr>cs_trunc := True\<rparr> else st1)"

text \<open>The loop over the degrees.\<close>

function closure_loop ::
  "adjacency \<Rightarrow> string \<Rightarrow> int \<Rightarrow> int \<Rightarrow> int \<Rightarrow> string list \<Rightarrow> closure_state \<Rightarrow> closure_state res"
where
  "closure_loop adj rootDID maxDegree accountCap degree frontier st =
     (if degree > maxDegree then Ok st
      else
        let remainingAccounts = accountCap - (int (length (cs_seen st)) - 1) in
        if remainingAccounts \<le> 0 then Ok (st\<lparr>cs_trunc := True\<rparr>)
        else if remainingAccounts > maxSafeClosureAccounts then
          Err (''remaining graph closure account cap must be at most '' @
               show_int maxSafeClosureAccounts @ '', got '' @ show_int remainingAccounts)
        else
          (case adj frontier (remainingAccounts * MaxVia) of
             Inl e \<Rightarrow> Err (''load graph edges for degree '' @ show_int degree @ '': '' @ e)
           | Inr (edges, edgesTruncated) \<Rightarrow>
               let st2 = layer_state rootDID accountCap degree edges edgesTruncated frontier st in
               if cs_trunc st2 then Ok st2
               else if cs_next st2 = [] then Ok st2
               else closure_loop adj rootDID maxDegree accountCap (degree + 1) (cs_next st2) st2))"
  by pat_completeness auto
termination
  by (relation "measure (\<lambda>(adj, root, maxDegree, cap, degree, frontier, st). nat (maxDegree + 1 - degree))")
     auto

declare closure_loop.simps [simp del]

definition closure_accounts :: "string \<Rightarrow> closure_state \<Rightarrow> account list" where
  "closure_accounts rootDID st =
     sort_key (\<lambda>a. (acc_degree a, acc_did a))
       (map (\<lambda>p. \<lparr>acc_did = fst p, acc_degree = snd p, acc_via = sort (preds_of st (fst p))\<rparr>)
          (filter (\<lambda>p. fst p \<noteq> rootDID) (cs_seen st)))"

definition Compute ::
  "adjacency option \<Rightarrow> string \<Rightarrow> int \<Rightarrow> int \<Rightarrow> closure_result res" where
  "Compute adjacency rootDID maxDegree accountCap =
     (case adjacency of
        None \<Rightarrow> Err ''graph adjacency source is required''
      | Some adj \<Rightarrow>
          if rootDID = [] then Err ''root DID is required''
          else if maxDegree < 1 \<or> maxDegree > MaxDegree then
            Err (''degree must be between 1 and '' @ show_int MaxDegree @ '', got '' @ show_int maxDegree)
          else if accountCap \<le> 0 then
            Err (''graph closure cap must be positive, got '' @ show_int accountCap)
          else if accountCap > maxSafeClosureAccounts then
            Err (''graph closure cap must be at most '' @ show_int maxSafeClosureAccounts @
                 '', got '' @ show_int accountCap)
          else
            (case closure_loop adj rootDID maxDegree accountCap 1 [rootDID]
                    \<lparr>cs_seen = [(rootDID, 0)], cs_pred = [], cs_next = [], cs_trunc = False\<rparr> of
               Inl e \<Rightarrow> Err e
             | Inr st \<Rightarrow> Ok \<lparr>cr_accounts = closure_accounts rootDID st, cr_truncated = cs_trunc st\<rparr>))"

section \<open>Shape of the traversal state\<close>

text \<open>What every step keeps: the root is at degree 0 and the only node there, no other node is
  beyond the current degree, the cap bounds the accounts, and provenance lists are bounded, free of
  duplicates and one layer above their node.\<close>

definition seen_ok :: "string \<Rightarrow> int \<Rightarrow> int \<Rightarrow> (string \<times> int) list \<Rightarrow> bool" where
  "seen_ok root cap degree seen =
     (map_ok seen \<and> map_of seen root = Some 0 \<and> map_of seen [] = None
      \<and> (\<forall>x d. map_of seen x = Some d \<longrightarrow> (x = root \<or> 1 \<le> d) \<and> d \<le> degree)
      \<and> int (length seen) - 1 \<le> cap)"

definition pred_ok :: "(string \<times> int) list \<Rightarrow> (string \<times> string list) list \<Rightarrow> bool" where
  "pred_ok seen pred =
     (\<forall>x ps. map_of pred x = Some ps \<longrightarrow>
        distinct ps \<and> int (length ps) \<le> MaxVia
        \<and> (\<exists>d. map_of seen x = Some d \<and> (\<forall>p\<in>set ps. map_of seen p = Some (d - 1))))"

definition closure_inv :: "string \<Rightarrow> int \<Rightarrow> int \<Rightarrow> closure_state \<Rightarrow> bool" where
  "closure_inv root cap degree st =
     (seen_ok root cap degree (cs_seen st) \<and> pred_ok (cs_seen st) (cs_pred st))"

lemma closure_inv_next [simp]:
  "closure_inv root cap k (st\<lparr>cs_next := ns\<rparr>) = closure_inv root cap k st"
  "closure_inv root cap k (st\<lparr>cs_trunc := b\<rparr>) = closure_inv root cap k st"
  by (simp_all add: closure_inv_def)

lemma closure_inv_mono: "closure_inv root cap k st \<Longrightarrow> k \<le> k' \<Longrightarrow> closure_inv root cap k' st"
  unfolding closure_inv_def seen_ok_def by (meson order_trans)

lemma seen_ok_put:
  assumes "seen_ok root cap degree seen" "map_of seen s = None" "s \<noteq> []" "1 \<le> degree"
    "int (length seen) - 1 < cap"
  shows "seen_ok root cap degree (map_put s degree seen)"
proof -
  have "s \<noteq> root" using assms(1,2) by (auto simp: seen_ok_def)
  moreover have "length (map_put s degree seen) = Suc (length seen)"
    using assms(2) by (simp add: length_map_put map_of_eq_None_iff)
  ultimately show ?thesis using assms by (auto simp: seen_ok_def)
qed

lemma pred_ok_put_seen:
  assumes "pred_ok seen pred" "map_of seen s = None"
  shows "pred_ok (map_put s d seen) pred"
  unfolding pred_ok_def
proof (intro allI impI)
  fix x ps
  assume "map_of pred x = Some ps"
  with assms(1) obtain d' where p: "distinct ps" "int (length ps) \<le> MaxVia"
    "map_of seen x = Some d'" "\<forall>p\<in>set ps. map_of seen p = Some (d' - 1)"
    unfolding pred_ok_def by blast
  have "x \<noteq> s" and "\<forall>p\<in>set ps. p \<noteq> s" using p assms(2) by auto
  with p show "distinct ps \<and> int (length ps) \<le> MaxVia \<and>
      (\<exists>d''. map_of (map_put s d seen) x = Some d''
        \<and> (\<forall>p\<in>set ps. map_of (map_put s d seen) p = Some (d'' - 1)))"
    by simp
qed

lemma pred_okD:
  assumes "pred_ok seen pred" "map_of pred x = Some ps" "map_of seen x = Some d"
  shows "distinct ps \<and> int (length ps) \<le> MaxVia \<and> (\<forall>p\<in>set ps. map_of seen p = Some (d - 1))"
proof -
  from assms(1,2) obtain d' where "distinct ps" "int (length ps) \<le> MaxVia"
    "map_of seen x = Some d'" "\<forall>p\<in>set ps. map_of seen p = Some (d' - 1)"
    unfolding pred_ok_def by blast
  with assms(3) show ?thesis by simp
qed

lemma pred_ok_put:
  assumes "pred_ok seen pred" "map_of seen x = Some d" "distinct ps" "int (length ps) \<le> MaxVia"
    "\<forall>p\<in>set ps. map_of seen p = Some (d - 1)"
  shows "pred_ok seen (map_put x ps pred)"
  unfolding pred_ok_def
proof (intro allI impI)
  fix y qs
  assume y: "map_of (map_put x ps pred) y = Some qs"
  show "distinct qs \<and> int (length qs) \<le> MaxVia \<and>
      (\<exists>d. map_of seen y = Some d \<and> (\<forall>p\<in>set qs. map_of seen p = Some (d - 1)))"
  proof (cases "y = x")
    case True
    then have "qs = ps" using y by simp
    then show ?thesis using True assms(2-5) by blast
  next
    case False
    then have "map_of pred y = Some qs" using y by simp
    then show ?thesis using assms(1) unfolding pred_ok_def by blast
  qed
qed

lemma preds_of_ok:
  assumes "pred_ok (cs_seen st) (cs_pred st)" "map_of (cs_seen st) s = Some d"
  shows "distinct (preds_of st s) \<and> int (length (preds_of st s)) \<le> MaxVia
     \<and> (\<forall>p\<in>set (preds_of st s). map_of (cs_seen st) p = Some (d - 1))"
proof (cases "map_of (cs_pred st) s")
  case None
  then show ?thesis by (simp add: preds_of_def MaxVia_def)
next
  case (Some ps)
  then show ?thesis using pred_okD [OF assms(1) Some assms(2)] by (simp add: preds_of_def)
qed

lemma visit_edge_inv:
  assumes inv: "closure_inv root cap degree st" and k: "1 \<le> degree"
    and issuer: "map_of (cs_seen st) issuer = Some (degree - 1)"
  shows "closure_inv root cap degree (visit_edge root cap degree issuer subject st)"
proof -
  have so: "seen_ok root cap degree (cs_seen st)" and po: "pred_ok (cs_seen st) (cs_pred st)"
    using inv by (auto simp: closure_inv_def)
  consider (skip) "subject = [] \<or> subject = root"
    | (fresh) "subject \<noteq> []" "subject \<noteq> root" "map_of (cs_seen st) subject = None"
    | (seen) d where "subject \<noteq> []" "subject \<noteq> root" "map_of (cs_seen st) subject = Some d"
    by (cases "map_of (cs_seen st) subject") auto
  then show ?thesis
  proof cases
    case skip
    then show ?thesis using inv by (auto simp: visit_edge_def)
  next
    case fresh
    have ne: "issuer \<noteq> subject" using issuer fresh by auto
    have s: "seen_ok root cap degree (map_put subject degree (cs_seen st))"
      if "int (length (cs_seen st)) - 1 < cap"
      using seen_ok_put [OF so fresh(3,1) k that] .
    have p: "pred_ok (map_put subject degree (cs_seen st)) (map_put subject [issuer] (cs_pred st))"
      using issuer ne
      by (intro pred_ok_put [where d = degree] pred_ok_put_seen [OF po fresh(3)]) (auto simp: MaxVia_def)
    show ?thesis
      using fresh inv s p pred_ok_put_seen [OF po fresh(3)] by (simp add: visit_edge_def closure_inv_def)
  next
    case (seen d)
    show ?thesis
    proof (cases "d = degree \<and> degree > 1 \<and> int (length (preds_of st subject)) < MaxVia")
      case True
      note q = preds_of_ok [OF po seen(3)]
      have "int (length (set_put issuer (preds_of st subject))) \<le> MaxVia"
        using True length_set_put_le [of issuer "preds_of st subject"] by linarith
      then have "pred_ok (cs_seen st) (map_put subject (set_put issuer (preds_of st subject)) (cs_pred st))"
        using q issuer True by (intro pred_ok_put [OF po seen(3)]) auto
      then show ?thesis using True seen so by (simp add: visit_edge_def closure_inv_def)
    next
      case False
      then show ?thesis using seen inv by (auto simp: visit_edge_def)
    qed
  qed
qed

lemma visit_edge_seen:
  "map_of (cs_seen st) x = Some d \<Longrightarrow>
   map_of (cs_seen (visit_edge root cap degree issuer subject st)) x = Some d"
  by (auto simp: visit_edge_def split: option.splits)

lemma visit_edges_inv:
  assumes "closure_inv root cap degree st" and "1 \<le> degree"
    and "map_of (cs_seen st) issuer = Some (degree - 1)"
  shows "closure_inv root cap degree (fold (visit_edge root cap degree issuer) ss st)
     \<and> (\<forall>x d. map_of (cs_seen st) x = Some d \<longrightarrow>
          map_of (cs_seen (fold (visit_edge root cap degree issuer) ss st)) x = Some d)"
  using assms
proof (induction ss arbitrary: st)
  case Nil
  then show ?case by simp
next
  case (Cons s ss)
  show ?case
    using Cons.IH [OF visit_edge_inv [OF Cons.prems, of s] Cons.prems(2) visit_edge_seen [OF Cons.prems(3)]]
      visit_edge_seen by simp
qed

lemma visit_layer_inv:
  assumes "closure_inv root cap degree st" and "1 \<le> degree"
    and "\<forall>i\<in>set frontier. map_of (cs_seen st) i = Some (degree - 1)"
  shows "closure_inv root cap degree (visit_layer root cap degree es frontier st)"
  using assms unfolding visit_layer_def
proof (induction frontier arbitrary: st)
  case Nil
  then show ?case by simp
next
  case (Cons i rest)
  have i: "map_of (cs_seen st) i = Some (degree - 1)" using Cons.prems(3) by simp
  note v = visit_edges_inv [OF Cons.prems(1,2) i, of "edges_of es i"]
  show ?case using Cons.IH v Cons.prems(2,3) by simp
qed


section \<open>What one layer adds\<close>

text \<open>A layer is one pass over the edges leaving the frontier.\<close>

definition layer_edges :: "edge_map \<Rightarrow> string list \<Rightarrow> (string \<times> string) list" where
  "layer_edges es frontier = concat (map (\<lambda>i. map (Pair i) (edges_of es i)) frontier)"

lemma visit_layer_edges:
  "visit_layer root cap degree es frontier st =
   fold (\<lambda>e. visit_edge root cap degree (fst e) (snd e)) (layer_edges es frontier) st"
  unfolding visit_layer_def layer_edges_def
  by (induction frontier arbitrary: st) (simp_all add: fold_map comp_def)

lemma layer_targets: "snd ` set (layer_edges es frontier) = (\<Union>i\<in>set frontier. set (edges_of es i))"
  by (auto simp: layer_edges_def image_iff)

definition new_node :: "string \<Rightarrow> closure_state \<Rightarrow> string \<Rightarrow> bool" where
  "new_node root st y = (y \<noteq> [] \<and> y \<noteq> root \<and> map_of (cs_seen st) y = None)"

lemma visit_edge_untruncated:
  assumes "\<not> cs_trunc (visit_edge root cap degree i y st)"
  shows "\<not> cs_trunc st
    \<and> map_of (cs_seen (visit_edge root cap degree i y st)) =
        (if new_node root st y then (map_of (cs_seen st))(y \<mapsto> degree) else map_of (cs_seen st))
    \<and> cs_next (visit_edge root cap degree i y st) =
        cs_next st @ (if new_node root st y then [y] else [])"
  using assms by (auto simp: visit_edge_def new_node_def split: option.splits if_splits)

lemma visit_edges_untruncated:
  assumes "\<not> cs_trunc (fold (\<lambda>e. visit_edge root cap degree (fst e) (snd e)) es st)"
  shows "\<not> cs_trunc st
    \<and> (\<forall>y. map_of (cs_seen (fold (\<lambda>e. visit_edge root cap degree (fst e) (snd e)) es st)) y =
        (if new_node root st y \<and> y \<in> snd ` set es then Some degree else map_of (cs_seen st) y))
    \<and> set (cs_next (fold (\<lambda>e. visit_edge root cap degree (fst e) (snd e)) es st)) =
        set (cs_next st) \<union> {y. new_node root st y \<and> y \<in> snd ` set es}"
  using assms
proof (induction es arbitrary: st)
  case Nil
  then show ?case by simp
next
  case (Cons e es)
  let ?st1 = "visit_edge root cap degree (fst e) (snd e) st"
  have IH: "\<not> cs_trunc ?st1
    \<and> (\<forall>y. map_of (cs_seen (fold (\<lambda>e. visit_edge root cap degree (fst e) (snd e)) es ?st1)) y =
        (if new_node root ?st1 y \<and> y \<in> snd ` set es then Some degree else map_of (cs_seen ?st1) y))
    \<and> set (cs_next (fold (\<lambda>e. visit_edge root cap degree (fst e) (snd e)) es ?st1)) =
        set (cs_next ?st1) \<union> {y. new_node root ?st1 y \<and> y \<in> snd ` set es}"
    using Cons.IH Cons.prems by simp
  then have one: "\<not> cs_trunc st"
    "map_of (cs_seen ?st1) =
       (if new_node root st (snd e) then (map_of (cs_seen st))(snd e \<mapsto> degree) else map_of (cs_seen st))"
    "cs_next ?st1 = cs_next st @ (if new_node root st (snd e) then [snd e] else [])"
    using visit_edge_untruncated [of root cap degree "fst e" "snd e" st] by auto
  have new: "new_node root ?st1 y \<longleftrightarrow> new_node root st y \<and> y \<noteq> snd e" for y
    using one(2) by (auto simp: new_node_def)
  show ?case using IH one new by (auto split: if_splits)
qed

lemma visit_layer_untruncated:
  assumes "\<not> cs_trunc (visit_layer root cap degree es frontier st)" and "cs_next st = []"
  defines "st' \<equiv> visit_layer root cap degree es frontier st"
  defines "T \<equiv> {y. new_node root st y \<and> (\<exists>i\<in>set frontier. y \<in> set (edges_of es i))}"
  shows "map_of (cs_seen st') y = (if y \<in> T then Some degree else map_of (cs_seen st) y)"
    and "set (cs_next st') = T"
proof -
  have t: "\<not> cs_trunc (fold (\<lambda>e. visit_edge root cap degree (fst e) (snd e)) (layer_edges es frontier) st)"
    using assms(1) by (simp add: visit_layer_edges)
  have in_T: "new_node root st y \<and> y \<in> snd ` set (layer_edges es frontier) \<longleftrightarrow> y \<in> T" for y
    unfolding layer_targets T_def by auto
  show "map_of (cs_seen st') y = (if y \<in> T then Some degree else map_of (cs_seen st) y)"
    and "set (cs_next st') = T"
    using visit_edges_untruncated [OF t] assms(2) in_T
    unfolding st'_def visit_layer_edges by auto
qed

lemma visit_layer_next:
  assumes "\<forall>x\<in>set (cs_next st). map_of (cs_seen st) x = Some degree"
  shows "\<forall>x\<in>set (cs_next (visit_layer root cap degree es frontier st)).
           map_of (cs_seen (visit_layer root cap degree es frontier st)) x = Some degree"
proof -
  have step: "\<forall>x\<in>set (cs_next (visit_edge root cap degree i y st)).
      map_of (cs_seen (visit_edge root cap degree i y st)) x = Some degree"
    if "\<forall>x\<in>set (cs_next st). map_of (cs_seen st) x = Some degree" for st i y
    using that by (auto simp: visit_edge_def split: option.splits if_splits)
  have "\<forall>x\<in>set (cs_next (fold (\<lambda>e. visit_edge root cap degree (fst e) (snd e)) es' st)).
      map_of (cs_seen (fold (\<lambda>e. visit_edge root cap degree (fst e) (snd e)) es' st)) x = Some degree" for es'
    using assms
  proof (induction es' arbitrary: st)
    case Nil
    then show ?case by simp
  next
    case (Cons e es')
    then show ?case using step [of st] by simp
  qed
  then show ?thesis by (simp add: visit_layer_edges)
qed

section \<open>Bounds of the result\<close>

lemma edge_limit_no_overflow:
  "0 \<le> n \<Longrightarrow> n \<le> maxSafeClosureAccounts \<Longrightarrow> wrap64 (n * MaxVia) = n * MaxVia"
  by (intro wrap64_id) (simp_all add: maxSafeClosureAccounts_def MaxVia_def)

lemma closure_loop_cases:
  assumes "closure_loop adj root maxDegree cap degree frontier st = Ok st'"
  obtains (finished) "degree > maxDegree" "st' = st"
  | (capped) "degree \<le> maxDegree" "cap - (int (length (cs_seen st)) - 1) \<le> 0" "st' = st\<lparr>cs_trunc := True\<rparr>"
  | (stop) es t where "degree \<le> maxDegree"
      "adj frontier ((cap - (int (length (cs_seen st)) - 1)) * MaxVia) = Ok (es, t)"
      "st' = layer_state root cap degree es t frontier st" "cs_trunc st' \<or> cs_next st' = []"
  | (continue) es t where "degree \<le> maxDegree"
      "adj frontier ((cap - (int (length (cs_seen st)) - 1)) * MaxVia) = Ok (es, t)"
      "\<not> cs_trunc (layer_state root cap degree es t frontier st)"
      "closure_loop adj root maxDegree cap (degree + 1)
         (cs_next (layer_state root cap degree es t frontier st))
         (layer_state root cap degree es t frontier st) = Ok st'"
proof -
  let ?rem = "cap - (int (length (cs_seen st)) - 1)"
  note eq = assms [unfolded closure_loop.simps [of adj root maxDegree cap degree frontier st] Let_def]
  consider "degree > maxDegree" | "degree \<le> maxDegree" "?rem \<le> 0"
    | "degree \<le> maxDegree" "?rem > 0" "?rem > maxSafeClosureAccounts"
    | "degree \<le> maxDegree" "?rem > 0" "\<not> ?rem > maxSafeClosureAccounts"
    by linarith
  then show ?thesis
  proof cases
    case 1
    then show ?thesis using eq finished by simp
  next
    case 2
    then show ?thesis using eq capped by simp
  next
    case 3
    then show ?thesis using eq by simp
  next
    case 4
    then obtain es t where adj: "adj frontier (?rem * MaxVia) = Ok (es, t)"
      using eq by (cases "adj frontier (?rem * MaxVia)") auto
    let ?st2 = "layer_state root cap degree es t frontier st"
    have "(if cs_trunc ?st2 then Ok ?st2 else if cs_next ?st2 = [] then Ok ?st2
         else closure_loop adj root maxDegree cap (degree + 1) (cs_next ?st2) ?st2) = Ok st'"
      using eq 4 adj by simp
    then show ?thesis
      using stop [OF 4(1) adj] continue [OF 4(1) adj]
      by (cases "cs_trunc ?st2"; cases "cs_next ?st2 = []") simp_all
  qed
qed

lemma layer_state_inv:
  assumes "closure_inv root cap (degree - 1) st" "1 \<le> degree"
    "\<forall>i\<in>set frontier. map_of (cs_seen st) i = Some (degree - 1)"
  shows "closure_inv root cap degree (layer_state root cap degree es t frontier st)
     \<and> (\<forall>x\<in>set (cs_next (layer_state root cap degree es t frontier st)).
          map_of (cs_seen (layer_state root cap degree es t frontier st)) x = Some degree)"
proof -
  have "closure_inv root cap degree st" using closure_inv_mono [OF assms(1), of degree] by simp
  then show ?thesis
    using visit_layer_inv [of root cap degree "st\<lparr>cs_next := []\<rparr>" frontier es] assms
      visit_layer_next [of "st\<lparr>cs_next := []\<rparr>" degree root cap es frontier]
    by (simp add: layer_state_def Let_def)
qed

lemma closure_loop_inv:
  assumes "closure_loop adj root maxDegree cap degree frontier st = Ok st'"
    and "closure_inv root cap (degree - 1) st" and "1 \<le> degree" and "degree \<le> maxDegree + 1"
    and "\<forall>i\<in>set frontier. map_of (cs_seen st) i = Some (degree - 1)"
  shows "closure_inv root cap maxDegree st'"
  using assms
proof (induction "nat (maxDegree + 1 - degree)" arbitrary: degree frontier st rule: less_induct)
  case less
  have start: "closure_inv root cap maxDegree st"
    using closure_inv_mono [OF less.prems(2), of maxDegree] less.prems(4) by simp
  note lay = layer_state_inv [OF less.prems(2,3,5)]
  from less.prems(1) show ?case
  proof (cases rule: closure_loop_cases)
    case finished
    then show ?thesis using start by simp
  next
    case capped
    then show ?thesis using start by simp
  next
    case (stop es t)
    then show ?thesis using lay [of es t] closure_inv_mono by blast
  next
    case (continue es t)
    then show ?thesis
      using lay [of es t] less.prems(3)
      by (intro less.hyps [OF _ continue(4)]) auto
  qed
qed


definition closure_start :: "string \<Rightarrow> closure_state" where
  "closure_start root = \<lparr>cs_seen = [(root, 0)], cs_pred = [], cs_next = [], cs_trunc = False\<rparr>"

lemma closure_start_inv: "root \<noteq> [] \<Longrightarrow> 0 < cap \<Longrightarrow> closure_inv root cap 0 (closure_start root)"
  by (auto simp: closure_inv_def seen_ok_def pred_ok_def closure_start_def map_ok_def)

text \<open>A successful \<open>Compute\<close> ran the loop on accepted arguments.\<close>

lemma Compute_OkE:
  assumes "Compute adjacency root maxDegree cap = Ok r"
  obtains adj st where "adjacency = Some adj" "root \<noteq> []" "1 \<le> maxDegree" "maxDegree \<le> MaxDegree"
    "0 < cap" "cap \<le> maxSafeClosureAccounts"
    "closure_loop adj root maxDegree cap 1 [root] (closure_start root) = Ok st"
    "r = \<lparr>cr_accounts = closure_accounts root st, cr_truncated = cs_trunc st\<rparr>"
    "closure_inv root cap maxDegree st"
proof -
  obtain adj where a: "adjacency = Some adj" using assms by (cases adjacency) (auto simp: Compute_def)
  have g: "root \<noteq> []" "1 \<le> maxDegree" "maxDegree \<le> MaxDegree" "0 < cap" "cap \<le> maxSafeClosureAccounts"
    using assms a by (auto simp: Compute_def split: if_splits)
  obtain st where st: "closure_loop adj root maxDegree cap 1 [root] (closure_start root) = Ok st"
    "r = \<lparr>cr_accounts = closure_accounts root st, cr_truncated = cs_trunc st\<rparr>"
    using assms a g
    by (cases "closure_loop adj root maxDegree cap 1 [root] (closure_start root)")
       (auto simp: Compute_def closure_start_def)
  have "closure_inv root cap maxDegree st"
    using closure_loop_inv [OF st(1)] closure_start_inv [OF g(1,4)] g by (simp add: closure_start_def)
  then show ?thesis using that a g st by blast
qed

lemma closure_accounts_set:
  "set (closure_accounts root st) =
     (\<lambda>p. \<lparr>acc_did = fst p, acc_degree = snd p, acc_via = sort (preds_of st (fst p))\<rparr>) `
       {p \<in> set (cs_seen st). fst p \<noteq> root}"
  by (simp add: closure_accounts_def)

lemma closure_accounts_iff:
  assumes "map_ok (cs_seen st)"
  shows "a \<in> set (closure_accounts root st) \<longleftrightarrow>
    acc_did a \<noteq> root \<and> map_of (cs_seen st) (acc_did a) = Some (acc_degree a)
      \<and> acc_via a = sort (preds_of st (acc_did a)) \<and> account.more a = ()"
proof -
  have "map_of (cs_seen st) x = Some d \<longleftrightarrow> (x, d) \<in> set (cs_seen st)" for x d
    using assms by (simp add: map_ok_def)
  then show ?thesis unfolding closure_accounts_set by (cases a) (force simp: image_iff)
qed

lemma distinct_accounts: "map_ok (cs_seen st) \<Longrightarrow> distinct (map acc_did (closure_accounts root st))"
proof -
  assume ok: "map_ok (cs_seen st)"
  let ?ps = "filter (\<lambda>p. fst p \<noteq> root) (cs_seen st)"
  let ?f = "\<lambda>p. \<lparr>acc_did = fst p, acc_degree = snd p, acc_via = sort (preds_of st (fst p))\<rparr>"
  have "distinct (map fst ?ps)" using ok by (simp add: map_ok_def distinct_map_filter)
  then have "distinct (map acc_did (map ?f ?ps))" by (simp add: comp_def)
  moreover have "mset (closure_accounts root st) = mset (map ?f ?ps)"
    by (simp add: closure_accounts_def)
  then have "mset (map acc_did (closure_accounts root st)) = mset (map acc_did (map ?f ?ps))"
    by (simp only: mset_map)
  ultimately show ?thesis using mset_eq_imp_distinct_iff by blast
qed

lemma length_accounts:
  assumes "map_ok (cs_seen st)" "map_of (cs_seen st) root \<noteq> None"
  shows "int (length (closure_accounts root st)) = int (length (cs_seen st)) - 1"
proof -
  have "length (filter (\<lambda>p. fst p \<noteq> root) m) + 1 = length m" if "map_ok m" "map_of m root \<noteq> None"
    for m :: "(string \<times> int) list"
    using that
  proof (induction m)
    case Nil
    then show ?case by simp
  next
    case (Cons p m)
    show ?case
    proof (cases "fst p = root")
      case True
      then have "root \<notin> fst ` set m" using Cons.prems(1) by (auto simp: map_ok_def)
      then have "\<forall>x\<in>set m. fst x \<noteq> root" by blast
      then have "filter (\<lambda>p. fst p \<noteq> root) m = m" by (rule filter_True)
      then show ?thesis using True by simp
    next
      case False
      then show ?thesis using Cons by (cases p) (auto simp: map_ok_def)
    qed
  qed
  from this [OF assms] show ?thesis by (simp add: closure_accounts_def)
qed

lemma Compute_bounds_all:
  assumes "Compute adjacency root maxDegree cap = Ok r"
  shows "int (length (cr_accounts r)) \<le> cap
    \<and> distinct (map acc_did (cr_accounts r))
    \<and> sorted (map (\<lambda>a. (acc_degree a, acc_did a)) (cr_accounts r))
    \<and> (\<forall>a\<in>set (cr_accounts r).
         acc_did a \<noteq> root \<and> acc_did a \<noteq> [] \<and> 1 \<le> acc_degree a \<and> acc_degree a \<le> maxDegree
         \<and> sorted (acc_via a) \<and> distinct (acc_via a) \<and> int (length (acc_via a)) \<le> MaxVia)"
  using assms
proof (cases rule: Compute_OkE)
  case (1 adj st)
  have so: "seen_ok root cap maxDegree (cs_seen st)" and po: "pred_ok (cs_seen st) (cs_pred st)"
    using 1 by (auto simp: closure_inv_def)
  then have ok: "map_ok (cs_seen st)" and ro: "map_of (cs_seen st) root \<noteq> None"
    by (auto simp: seen_ok_def)
  have acc: "acc_did a \<noteq> root \<and> acc_did a \<noteq> [] \<and> 1 \<le> acc_degree a \<and> acc_degree a \<le> maxDegree
      \<and> sorted (acc_via a) \<and> distinct (acc_via a) \<and> int (length (acc_via a)) \<le> MaxVia"
    if "a \<in> set (cr_accounts r)" for a
  proof -
    have a: "acc_did a \<noteq> root" "map_of (cs_seen st) (acc_did a) = Some (acc_degree a)"
      "acc_via a = sort (preds_of st (acc_did a))"
      using that 1 closure_accounts_iff [OF ok] by auto
    have "acc_did a \<noteq> []" using so a(2) by (auto simp: seen_ok_def)
    then show ?thesis
      using so a preds_of_ok [OF po a(2)] by (auto simp: seen_ok_def)
  qed
  have "sorted (map (\<lambda>a. (acc_degree a, acc_did a)) (cr_accounts r))"
    using 1 by (simp add: closure_accounts_def)
  moreover have "int (length (cr_accounts r)) \<le> cap"
    using 1 so length_accounts [OF ok ro] by (simp add: seen_ok_def)
  ultimately show ?thesis using acc 1 distinct_accounts [OF ok] by auto
qed

text \<open>C25: Whatever the adjacency source answers, a successful closure respects its bounds: at most
  \<open>accountCap\<close> accounts, no account twice, neither the root nor the empty DID among them, degrees
  between 1 and \<open>maxDegree\<close>, the accounts sorted by degree and then DID, and every provenance list
  sorted, free of duplicates and at most 64 long.\<close>

theorem Compute_bounds:
  assumes "Compute adjacency root maxDegree cap = Ok r"
  shows "int (length (cr_accounts r)) \<le> cap
    \<and> distinct (map acc_did (cr_accounts r))
    \<and> sorted (map (\<lambda>a. (acc_degree a, acc_did a)) (cr_accounts r))
    \<and> (\<forall>a\<in>set (cr_accounts r).
         acc_did a \<noteq> root \<and> acc_did a \<noteq> [] \<and> 1 \<le> acc_degree a \<and> acc_degree a \<le> maxDegree
         \<and> sorted (acc_via a) \<and> distinct (acc_via a) \<and> int (length (acc_via a)) \<le> MaxVia)"
  by (rule Compute_bounds_all [OF assms])

text \<open>Three accounts in a line and one edge back to the root.\<close>

definition sample_adjacency :: adjacency where
  "sample_adjacency sources limit =
     Ok ([(''a'', [''b'', ''b'']), (''b'', [''c'', ''a'']), (''c'', [''d''])], False)"

theorem Compute_bounds_witness:
  "map acc_did (cr_accounts (projr (Compute (Some sample_adjacency) ''a'' 2 10))) = [''b'', ''c'']
   \<and> distinct (map acc_did (cr_accounts (projr (Compute (Some sample_adjacency) ''a'' 2 10))))"
proof
  have ok: "Compute (Some sample_adjacency) ''a'' 2 10 = Ok (projr (Compute (Some sample_adjacency) ''a'' 2 10))"
    by code_simp
  show "distinct (map acc_did (cr_accounts (projr (Compute (Some sample_adjacency) ''a'' 2 10))))"
    using Compute_bounds [OF ok] by simp
  show "map acc_did (cr_accounts (projr (Compute (Some sample_adjacency) ''a'' 2 10))) = [''b'', ''c'']"
    by code_simp
qed

section \<open>Distances\<close>

text \<open>\<open>hops E n x y\<close>: \<open>y\<close> can be reached from \<open>x\<close> along \<open>n\<close> edges, no node after \<open>x\<close> being the
  empty DID.\<close>

fun hops :: "(string \<Rightarrow> string \<Rightarrow> bool) \<Rightarrow> nat \<Rightarrow> string \<Rightarrow> string \<Rightarrow> bool" where
  "hops E 0 x y = (x = y)"
| "hops E (Suc n) x y = (\<exists>z. hops E n x z \<and> E z y \<and> y \<noteq> [])"

definition at_distance :: "(string \<Rightarrow> string \<Rightarrow> bool) \<Rightarrow> string \<Rightarrow> nat \<Rightarrow> string \<Rightarrow> bool" where
  "at_distance E root n y = (hops E n root y \<and> (\<forall>m<n. \<not> hops E m root y))"

lemma at_distance_0 [simp]: "at_distance E root 0 y \<longleftrightarrow> y = root"
  by (auto simp: at_distance_def)

lemma at_distance_unique: "at_distance E root m y \<Longrightarrow> at_distance E root n y \<Longrightarrow> m = n"
  unfolding at_distance_def by (metis linorder_neqE_nat)

lemma at_distance_Suc:
  "at_distance E root (Suc n) y \<longleftrightarrow>
   y \<noteq> [] \<and> (\<exists>z. at_distance E root n z \<and> E z y) \<and> (\<forall>m\<le>n. \<not> at_distance E root m y)"
proof
  assume l: "at_distance E root (Suc n) y"
  then obtain z where z: "hops E n root z" "E z y" "y \<noteq> []" and no: "\<forall>m<Suc n. \<not> hops E m root y"
    by (auto simp: at_distance_def)
  have "\<not> hops E m root z" if "m < n" for m
    using no z that by (metis hops.simps(2) Suc_mono)
  then have "at_distance E root n z" using z by (simp add: at_distance_def)
  then show "y \<noteq> [] \<and> (\<exists>z. at_distance E root n z \<and> E z y) \<and> (\<forall>m\<le>n. \<not> at_distance E root m y)"
    using z no by (auto simp: at_distance_def less_Suc_eq_le)
next
  assume r: "y \<noteq> [] \<and> (\<exists>z. at_distance E root n z \<and> E z y) \<and> (\<forall>m\<le>n. \<not> at_distance E root m y)"
  have "\<not> hops E m root y" if "m < Suc n" for m
    using that
  proof (induction m rule: less_induct)
    case (less m)
    then have "at_distance E root m y" if "hops E m root y"
      using that by (simp add: at_distance_def)
    then show ?case using r less.prems less_Suc_eq_le by blast
  qed
  then show "at_distance E root (Suc n) y" using r by (auto simp: at_distance_def)
qed

lemma at_distance_stops:
  assumes "\<And>y. \<not> at_distance E root n y" "n \<le> m"
  shows "\<not> at_distance E root m y"
  using assms(2)
proof (induction m arbitrary: y rule: dec_induct)
  case base
  then show ?case by (rule assms(1))
next
  case (step m)
  then show ?case by (simp add: at_distance_Suc)
qed

section \<open>The adjacency interface\<close>

locale adjacency_source =
  fixes adj :: adjacency and edge :: "string \<Rightarrow> string \<Rightarrow> bool"
  assumes adj_sound:
    "adj sources limit = Ok (es, t) \<Longrightarrow> i \<in> set sources \<Longrightarrow> s \<in> set (edges_of es i) \<Longrightarrow> edge i s"
  and adj_complete:
    "adj sources limit = Ok (es, False) \<Longrightarrow> i \<in> set sources \<Longrightarrow> edge i s \<Longrightarrow> s \<in> set (edges_of es i)"
begin

text \<open>The state before degree \<open>Suc n\<close> of an untruncated traversal: the nodes seen are those within
  distance \<open>n\<close>, each with its distance, and the frontier is the last layer.\<close>

definition exact_upto :: "string \<Rightarrow> nat \<Rightarrow> closure_state \<Rightarrow> bool" where
  "exact_upto root n st =
     (\<not> cs_trunc st \<and> (\<forall>y d. map_of (cs_seen st) y = Some d \<longleftrightarrow> (\<exists>m\<le>n. at_distance edge root m y \<and> d = int m)))"

lemma exact_layer:
  assumes ex: "exact_upto root n st" and fr: "set frontier = {y. at_distance edge root n y}"
    and a: "adj frontier limit = Ok (es, t)"
    and nt: "\<not> cs_trunc (layer_state root cap (int (Suc n)) es t frontier st)"
  shows "exact_upto root (Suc n) (layer_state root cap (int (Suc n)) es t frontier st)"
    and "set (cs_next (layer_state root cap (int (Suc n)) es t frontier st)) =
           {y. at_distance edge root (Suc n) y}"
proof -
  have t: "\<not> t" using nt by (auto simp: layer_state_def Let_def split: if_splits)
  let ?st = "st\<lparr>cs_next := []\<rparr>"
  let ?st' = "visit_layer root cap (int (Suc n)) es frontier ?st"
  have eq: "layer_state root cap (int (Suc n)) es t frontier st = ?st'"
    using t by (simp add: layer_state_def)
  have nt': "\<not> cs_trunc ?st'" using nt eq by simp
  define T where "T = {y. new_node root ?st y \<and> (\<exists>i\<in>set frontier. y \<in> set (edges_of es i))}"
  have seen: "map_of (cs_seen ?st') y = (if y \<in> T then Some (int (Suc n)) else map_of (cs_seen st) y)" for y
    using visit_layer_untruncated(1) [OF nt', of y] unfolding T_def by (auto split: if_splits)
  have "y \<in> T \<longleftrightarrow> at_distance edge root (Suc n) y" for y
  proof -
    have e: "(\<exists>i\<in>set frontier. y \<in> set (edges_of es i)) \<longleftrightarrow> (\<exists>z. at_distance edge root n z \<and> edge z y)"
    proof
      assume "\<exists>i\<in>set frontier. y \<in> set (edges_of es i)"
      then obtain i where "i \<in> set frontier" "edge i y" using adj_sound [OF a] by blast
      then show "\<exists>z. at_distance edge root n z \<and> edge z y" using fr by auto
    next
      have a': "adj frontier limit = Ok (es, False)" using a t by simp
      assume "\<exists>z. at_distance edge root n z \<and> edge z y"
      then obtain z where "z \<in> set frontier" "edge z y" using fr by auto
      then show "\<exists>i\<in>set frontier. y \<in> set (edges_of es i)" using adj_complete [OF a'] by blast
    qed
    have nn: "new_node root ?st y \<longleftrightarrow> y \<noteq> [] \<and> (\<forall>m\<le>n. \<not> at_distance edge root m y)"
    proof -
      have "map_of (cs_seen st) y = None \<longleftrightarrow> (\<forall>m\<le>n. \<not> at_distance edge root m y)"
        using ex unfolding exact_upto_def by (metis not_Some_eq)
      moreover have "at_distance edge root 0 root" by simp
      ultimately show ?thesis by (auto simp: new_node_def)
    qed
    show ?thesis using e nn by (auto simp: T_def at_distance_Suc)
  qed
  then have T: "T = {y. at_distance edge root (Suc n) y}" by blast
  show "set (cs_next (layer_state root cap (int (Suc n)) es t frontier st)) =
      {y. at_distance edge root (Suc n) y}"
    using visit_layer_untruncated(2) [OF nt'] T eq by (simp add: T_def)
  show "exact_upto root (Suc n) (layer_state root cap (int (Suc n)) es t frontier st)"
    unfolding exact_upto_def eq
  proof (intro conjI allI)
    show "\<not> cs_trunc ?st'" by (rule nt')
    fix y d
    show "map_of (cs_seen ?st') y = Some d \<longleftrightarrow> (\<exists>m\<le>Suc n. at_distance edge root m y \<and> d = int m)"
    proof (cases "y \<in> T")
      case True
      then have "at_distance edge root (Suc n) y" by (simp add: T)
      then show ?thesis using True seen at_distance_unique by (metis option.inject order_refl)
    next
      case False
      then have "\<not> at_distance edge root (Suc n) y" by (simp add: T)
      then show ?thesis using False seen ex unfolding exact_upto_def by (metis le_SucE le_SucI)
    qed
  qed
qed

lemma exact_upto_extend:
  assumes "exact_upto root n st" "\<And>y. \<not> at_distance edge root (Suc n) y" "n \<le> m"
  shows "exact_upto root m st"
proof -
  have "(\<exists>k\<le>m. at_distance edge root k y \<and> d = int k) \<longleftrightarrow> (\<exists>k\<le>n. at_distance edge root k y \<and> d = int k)" for y d
  proof -
    have "k \<le> n" if "at_distance edge root k y" for k
      using at_distance_stops [of edge root "Suc n" k] assms(2) that not_less_eq_eq by blast
    then show ?thesis using assms(3) order_trans by blast
  qed
  then show ?thesis using assms(1) by (simp add: exact_upto_def)
qed

lemma closure_loop_exact:
  assumes "closure_loop adj root (int m) cap (int n + 1) frontier st = Ok st'" "\<not> cs_trunc st'"
    "n \<le> m" "exact_upto root n st" "set frontier = {y. at_distance edge root n y}"
  shows "exact_upto root m st'"
  using assms
proof (induction "m - n" arbitrary: n frontier st)
  case 0
  then have "m = n" by simp
  with 0 show ?case by (cases rule: closure_loop_cases [OF "0.prems"(1)]) auto
next
  case (Suc k)
  have Sn: "int n + 1 = int (Suc n)" by simp
  from Suc.prems(1) show ?case
  proof (cases rule: closure_loop_cases)
    case finished
    then show ?thesis using Suc.hyps(2) by simp
  next
    case capped
    then show ?thesis using Suc.prems(2) by simp
  next
    case (stop es t)
    have nt: "\<not> cs_trunc (layer_state root cap (int (Suc n)) es t frontier st)"
      using stop(3) Suc.prems(2) Sn by simp
    note lay = exact_layer [OF Suc.prems(4,5) stop(2) nt]
    have "{y. at_distance edge root (Suc n) y} = {}" using lay(2) stop(3,4) Suc.prems(2) Sn by simp
    then have "\<not> at_distance edge root (Suc n) y" for y by blast
    then have "\<not> at_distance edge root (Suc (Suc n)) y" for y
      using at_distance_stops [of edge root "Suc n" "Suc (Suc n)"] by simp
    then show ?thesis
      using exact_upto_extend [OF lay(1), of m] Suc.hyps(2) stop(3) Sn by simp
  next
    case (continue es t)
    have nt: "\<not> cs_trunc (layer_state root cap (int (Suc n)) es t frontier st)"
      using continue(3) Sn by simp
    note lay = exact_layer [OF Suc.prems(4,5) continue(2) nt]
    show ?thesis
      using Suc.hyps(1) [of "Suc n"] Suc.hyps(2) continue(4) Suc.prems(2) lay Sn by (simp add: add.commute)
  qed
qed

text \<open>Truncated or not, an account of the result is the target of some edge.\<close>

lemma layer_state_targets:
  assumes "adj frontier limit = Ok (es, t)" "y \<in> fst ` set (cs_seen (layer_state root cap degree es t frontier st))"
  shows "y \<in> fst ` set (cs_seen st) \<or> (\<exists>i. edge i y)"
proof -
  have "fst ` set (cs_seen (fold (\<lambda>e. visit_edge root cap degree (fst e) (snd e)) xs st0))
      \<subseteq> fst ` set (cs_seen st0) \<union> snd ` set xs" for xs st0
  proof (induction xs arbitrary: st0)
    case (Cons x xs)
    have "fst ` set (cs_seen (visit_edge root cap degree (fst x) (snd x) st0)) \<subseteq> insert (snd x) (fst ` set (cs_seen st0))"
      by (auto simp: visit_edge_def split: option.splits)
    with Cons.IH [of "visit_edge root cap degree (fst x) (snd x) st0"]
    have "fst ` set (cs_seen (fold (\<lambda>e. visit_edge root cap degree (fst e) (snd e)) xs (visit_edge root cap degree (fst x) (snd x) st0)))
      \<subseteq> insert (snd x) (fst ` set (cs_seen st0)) \<union> snd ` set xs" by (rule order_trans [OF _ Un_mono [OF _ order_refl]])
    then show ?case by simp
  qed simp
  from this [of "layer_edges es frontier" "st\<lparr>cs_next := []\<rparr>"]
  have "fst ` set (cs_seen (layer_state root cap degree es t frontier st))
      \<subseteq> fst ` set (cs_seen st) \<union> (\<Union>i\<in>set frontier. set (edges_of es i))"
    by (simp add: layer_state_def Let_def visit_layer_edges layer_targets)
  then have "y \<in> fst ` set (cs_seen st) \<or> y \<in> (\<Union>i\<in>set frontier. set (edges_of es i))"
    using assms(2) by blast
  then show ?thesis using adj_sound [OF assms(1)] by blast
qed

lemma closure_loop_targets:
  assumes "closure_loop adj root maxDegree cap degree frontier st = Ok st'"
    and "\<forall>y\<in>fst ` set (cs_seen st). y = root \<or> (\<exists>i. edge i y)"
  shows "\<forall>y\<in>fst ` set (cs_seen st'). y = root \<or> (\<exists>i. edge i y)"
  using assms
proof (induction "nat (maxDegree + 1 - degree)" arbitrary: degree frontier st rule: less_induct)
  case less
  have layer: "\<forall>y\<in>fst ` set (cs_seen (layer_state root cap degree es t frontier st)). y = root \<or> (\<exists>i. edge i y)"
    if a: "adj frontier limit = Ok (es, t)" for es t limit
    using layer_state_targets [OF a] less.prems(2) by metis
  from less.prems(1) show ?case
  proof (cases rule: closure_loop_cases)
    case (stop es t)
    then show ?thesis using layer [OF stop(2)] by simp
  next
    case (continue es t)
    show ?thesis by (rule less.hyps [OF _ continue(4) layer [OF continue(2)]]) (use continue(1) in simp)
  qed (use less.prems(2) in simp_all)
qed

lemma Compute_targets:
  assumes "Compute (Some adj) root maxDegree cap = Ok r" "a \<in> set (cr_accounts r)"
  shows "\<exists>i. edge i (acc_did a)"
  using assms(1)
proof (cases rule: Compute_OkE)
  case (1 adj' st)
  have "\<forall>y\<in>fst ` set (cs_seen st). y = root \<or> (\<exists>i. edge i y)"
    using closure_loop_targets [of root maxDegree cap 1 "[root]" "closure_start root" st] 1 by (simp add: closure_start_def)
  moreover have "acc_did a \<in> fst ` set (cs_seen st)" "acc_did a \<noteq> root"
    using assms(2) 1 by (force simp: closure_accounts_set)+
  ultimately show ?thesis by blast
qed

lemma Compute_exact_in:
  assumes r: "Compute (Some adj) root maxDegree cap = Ok r" and nt: "\<not> cr_truncated r"
  shows "(\<exists>a\<in>set (cr_accounts r). acc_did a = y \<and> acc_degree a = int k) \<longleftrightarrow>
     1 \<le> k \<and> int k \<le> maxDegree \<and> at_distance edge root k y"
  using r
proof (cases rule: Compute_OkE)
  case (1 adj' st)
  have ok: "map_ok (cs_seen st)" using 1 by (simp add: closure_inv_def seen_ok_def)
  define m where "m = nat maxDegree"
  have m: "int m = maxDegree" using 1 by (simp add: m_def)
  have loop: "closure_loop adj root (int m) cap (int 0 + 1) [root] (closure_start root) = Ok st"
    using 1 m by simp
  have "exact_upto root 0 (closure_start root)"
    by (auto simp: exact_upto_def closure_start_def)
  then have ex: "exact_upto root m st"
    using closure_loop_exact [OF loop] 1 nt by simp
  have "(\<exists>a\<in>set (cr_accounts r). acc_did a = y \<and> acc_degree a = int k) \<longleftrightarrow>
      y \<noteq> root \<and> map_of (cs_seen st) y = Some (int k)"
  proof
    assume "\<exists>a\<in>set (cr_accounts r). acc_did a = y \<and> acc_degree a = int k"
    then show "y \<noteq> root \<and> map_of (cs_seen st) y = Some (int k)"
      using 1 closure_accounts_iff [OF ok] by auto
  next
    assume s: "y \<noteq> root \<and> map_of (cs_seen st) y = Some (int k)"
    let ?a = "\<lparr>acc_did = y, acc_degree = int k, acc_via = sort (preds_of st y)\<rparr>"
    have "?a \<in> set (cr_accounts r)" using 1 s closure_accounts_iff [OF ok, of ?a root] by simp
    then show "\<exists>a\<in>set (cr_accounts r). acc_did a = y \<and> acc_degree a = int k" by force
  qed
  also have "\<dots> \<longleftrightarrow> y \<noteq> root \<and> k \<le> m \<and> at_distance edge root k y"
    using ex unfolding exact_upto_def by auto
  also have "\<dots> \<longleftrightarrow> 1 \<le> k \<and> int k \<le> maxDegree \<and> at_distance edge root k y"
    using m at_distance_unique [of edge root 0 y k] by (cases k) (auto simp: at_distance_Suc)
  finally show ?thesis .
qed

end

end
