(* ===== verification/Db_Store.thy ===== *)
theory Db_Store
  imports Go_Prelude
begin

text \<open>
  The relational store behind the repositories: the rows of the tables \<open>record\<close>,
  \<open>record_version\<close>, \<open>actor\<close>, \<open>indexing_activity\<close>, \<open>external_label\<close> and \<open>label_subscription_state\<close> (the structs \<open>Record\<close>,
  \<open>RecordVersion\<close>, \<open>Actor\<close>, \<open>ActivityEntry\<close>, \<open>ExternalLabel\<close> and \<open>LabelSubscriptionState\<close> of \<open>internal/database/repositories\<close>), SQL statements as operations
  on lists of rows, and execution of a statement or a transaction against a database that may fail.

  A statement that fails has no effect; a transaction that fails at any statement or at its commit
  leaves the tables as they were (\<open>defer tx.Rollback()\<close>).  Which statements fail is the script
  \<open>db_faults\<close>: one entry per statement, begin or commit, \<open>Some message\<close> for a failure; an exhausted
  script means success.  \<open>db_now\<close> is the database clock, and \<open>db_json_in\<close> is how a JSON column stores
  a text: the text itself on SQLite, the canonical \<open>jsonb\<close> text (or a failed cast) on PostgreSQL.

  The locale \<open>keyed_table\<close> is the contract of a table with a primary key under
  \<open>INSERT ... ON CONFLICT(key) DO UPDATE\<close>; the repository theories interpret it for their tables
  and conflict clauses.
\<close>

section \<open>Rows and tables\<close>

record record_row =
  rr_uri :: string
  rr_cid :: string
  rr_did :: string
  rr_collection :: string
  rr_json :: string
  rr_indexed_at :: int
  rr_created_at :: "string option"
  rr_status :: string
  rr_verror :: "string option"
  rr_validated_at :: "int option"
  rr_lexhash :: "string option"

record version_row =
  rv_id :: int
  rv_uri :: string
  rv_cid :: string
  rv_key :: string
  rv_did :: string
  rv_collection :: string
  rv_action :: string
  rv_json :: "string option"
  rv_live :: "bool option"
  rv_observed_at :: int

record actor_row =
  ac_did :: string
  ac_handle :: "string option"
  ac_indexed_at :: int

record activity_row =
  av_id :: int
  av_timestamp :: int
  av_operation :: string
  av_collection :: string
  av_did :: string
  av_rkey :: "string option"
  av_status :: string
  av_error :: "string option"
  av_event_json :: string

record label_row =
  lb_id :: int
  lb_subscription :: string
  lb_seq :: int
  lb_index :: int
  lb_src :: string
  lb_uri :: string
  lb_cid :: "string option"
  lb_val :: string
  lb_neg :: bool
  lb_cts :: string
  lb_exp :: "string option"
  lb_sig :: "string option"
  lb_ver :: "int option"
  lb_raw_json :: "string option"
  lb_received_at :: int

record label_state_row =
  ls_url :: string
  ls_labeler_did :: "string option"
  ls_last_seq :: int
  ls_last_connected_at :: "int option"
  ls_last_event_at :: "int option"
  ls_last_error :: "string option"
  ls_created_at :: int
  ls_updated_at :: int

record store =
  st_records :: "record_row list"
  st_versions :: "version_row list"
  st_next_version :: int
  st_actors :: "actor_row list"
  st_activity :: "activity_row list"
  st_next_activity :: int
  st_labels :: "label_row list"
  st_next_label :: int
  st_label_states :: "label_state_row list"

datatype dialect = PostgreSQL | SQLite

record db =
  db_store :: store
  db_faults :: "err option list"
  db_now :: int
  db_dialect :: dialect
  db_json_in :: "string \<Rightarrow> string option"

section \<open>Statements\<close>

definition tbl_update :: "('r \<Rightarrow> bool) \<Rightarrow> ('r \<Rightarrow> 'r) \<Rightarrow> 'r list \<Rightarrow> 'r list" where
  "tbl_update P f t = map (\<lambda>r. if P r then f r else r) t"

definition tbl_affected :: "('r \<Rightarrow> bool) \<Rightarrow> 'r list \<Rightarrow> int" where
  "tbl_affected P t = int (length (filter P t))"

definition tbl_delete :: "('r \<Rightarrow> bool) \<Rightarrow> 'r list \<Rightarrow> 'r list" where
  "tbl_delete P t = filter (\<lambda>r. \<not> P r) t"

text \<open>\<open>SELECT ... WHERE key = k\<close> on a primary key: at most one row.\<close>

definition tbl_find :: "('r \<Rightarrow> 'k) \<Rightarrow> 'k \<Rightarrow> 'r list \<Rightarrow> 'r option" where
  "tbl_find key k t = List.find (\<lambda>r. key r = k) t"

text \<open>\<open>INSERT ... ON CONFLICT(key) DO UPDATE\<close> with the conflict clause \<open>merge existing excluded\<close>.\<close>

definition tbl_upsert :: "('r \<Rightarrow> 'k) \<Rightarrow> ('r \<Rightarrow> 'r \<Rightarrow> 'r) \<Rightarrow> 'r \<Rightarrow> 'r list \<Rightarrow> 'r list" where
  "tbl_upsert key merge row t =
     (if key row \<in> key ` set t
      then tbl_update (\<lambda>r. key r = key row) (\<lambda>r. merge r row) t
      else t @ [row])"

text \<open>\<open>INSERT ... ON CONFLICT DO NOTHING\<close>.\<close>

definition tbl_insert_ignore :: "('r \<Rightarrow> 'k) \<Rightarrow> 'r \<Rightarrow> 'r list \<Rightarrow> 'r list" where
  "tbl_insert_ignore key row t = (if key row \<in> key ` set t then t else t @ [row])"

section \<open>Execution\<close>

type_synonym 'a statement = "store \<Rightarrow> ('a \<times> store) res"
type_synonym 'a dbm = "db \<Rightarrow> 'a res \<times> db"

definition db_exec :: "'a statement \<Rightarrow> 'a dbm" where
  "db_exec f d =
     (let d' = d\<lparr>db_faults := tl (db_faults d)\<rparr> in
      case db_faults d of
        Some e # _ \<Rightarrow> (Err e, d')
      | _ \<Rightarrow> (case f (db_store d) of
                Inl e \<Rightarrow> (Err e, d')
              | Inr (a, s) \<Rightarrow> (Ok a, d'\<lparr>db_store := s\<rparr>)))"

definition db_return :: "'a \<Rightarrow> 'a dbm" where
  "db_return a d = (Ok a, d)"

definition db_fail :: "err \<Rightarrow> 'a dbm" where
  "db_fail e d = (Err e, d)"

definition db_bind :: "'a dbm \<Rightarrow> ('a \<Rightarrow> 'b dbm) \<Rightarrow> 'b dbm" where
  "db_bind m f d = (case m d of (Inl e, d') \<Rightarrow> (Err e, d') | (Inr a, d') \<Rightarrow> f a d')"

text \<open>\<open>fmt.Errorf("prefix: %w", err)\<close> on the error of a call.\<close>

definition db_wrap :: "string \<Rightarrow> 'a dbm \<Rightarrow> 'a dbm" where
  "db_wrap p m d = (case m d of (Inl e, d') \<Rightarrow> (Err (p @ e), d') | (Inr a, d') \<Rightarrow> (Ok a, d'))"

text \<open>\<open>BeginTx\<close>, the body, \<open>Commit\<close>; with the prefixes the caller puts on begin and commit errors.\<close>

definition db_nop :: "unit dbm" where
  "db_nop = db_exec (\<lambda>s. Ok ((), s))"

definition db_tx :: "string \<Rightarrow> string \<Rightarrow> 'a dbm \<Rightarrow> 'a dbm" where
  "db_tx bmsg cmsg body d =
     (case db_nop d of
        (Inl e, d1) \<Rightarrow> (Err (bmsg @ e), d1)
      | (Inr _, d1) \<Rightarrow>
          (case body d1 of
             (Inl e, d2) \<Rightarrow> (Err e, d2\<lparr>db_store := db_store d1\<rparr>)
           | (Inr a, d2) \<Rightarrow>
               (case db_nop d2 of
                  (Inl e, d3) \<Rightarrow> (Err (cmsg @ e), d3\<lparr>db_store := db_store d1\<rparr>)
                | (Inr _, d3) \<Rightarrow> (Ok a, d3))))"

text \<open>A loop that stops at the first error.\<close>

fun db_each :: "('a \<Rightarrow> unit dbm) \<Rightarrow> 'a list \<Rightarrow> unit dbm" where
  "db_each f [] d = (Ok (), d)"
| "db_each f (x # xs) d =
     (case f x d of (Inl e, d') \<Rightarrow> (Err e, d') | (Inr _, d') \<Rightarrow> db_each f xs d')"

text \<open>A freshly migrated database, and a SQLite connection to a given store at a given time.\<close>

definition empty_store :: store where
  "empty_store = \<lparr>st_records = [], st_versions = [], st_next_version = 1, st_actors = [],
     st_activity = [], st_next_activity = 1,
     st_labels = [], st_next_label = 1, st_label_states = []\<rparr>"

definition sqlite_db :: "store \<Rightarrow> int \<Rightarrow> db" where
  "sqlite_db s now = \<lparr>db_store = s, db_faults = [], db_now = now, db_dialect = SQLite, db_json_in = Some\<rparr>"

section \<open>Facts about tables\<close>

lemma tbl_find_Some: "tbl_find key k t = Some r \<Longrightarrow> r \<in> set t \<and> key r = k"
  by (auto simp: tbl_find_def find_Some_iff)

lemma tbl_find_None: "tbl_find key k t = None \<longleftrightarrow> k \<notin> key ` set t"
  by (auto simp: tbl_find_def find_None_iff)

lemma tbl_find_distinct:
  assumes "distinct (map key t)"
  shows "tbl_find key k t = Some r \<longleftrightarrow> r \<in> set t \<and> key r = k"
  using assms
proof (induction t)
  case Nil
  then show ?case by (simp add: tbl_find_def)
next
  case (Cons a t)
  then have IH: "tbl_find key k t = Some r \<longleftrightarrow> r \<in> set t \<and> key r = k" by simp
  show ?case
  proof (cases "key a = k")
    case True
    then have "r \<in> set t \<Longrightarrow> key r \<noteq> k" using Cons.prems by (auto simp: image_iff)
    then show ?thesis using True by (auto simp: tbl_find_def)
  next
    case False
    then show ?thesis using IH by (auto simp: tbl_find_def)
  qed
qed

lemma tbl_find_delete:
  "tbl_find key k (tbl_delete P t) = tbl_find key k t" if "\<And>r. r \<in> set t \<Longrightarrow> key r = k \<Longrightarrow> \<not> P r"
  using that by (induction t) (auto simp: tbl_find_def tbl_delete_def)

lemma tbl_delete_set [table_simps]: "set (tbl_delete P t) = {r \<in> set t. \<not> P r}"
  by (auto simp: tbl_delete_def)

lemma tbl_delete_idem [simp]: "tbl_delete P (tbl_delete P t) = tbl_delete P t"
  by (simp add: tbl_delete_def)

lemma distinct_tbl_delete: "distinct (map key t) \<Longrightarrow> distinct (map key (tbl_delete P t))"
  by (simp add: tbl_delete_def distinct_map_filter)

lemma map_key_update:
  assumes "\<And>r. P r \<Longrightarrow> key (f r) = key r"
  shows "map key (tbl_update P f t) = map key t"
  using assms by (simp add: tbl_update_def)

lemma tbl_update_none [simp]: "\<forall>r\<in>set t. \<not> P r \<Longrightarrow> tbl_update P f t = t"
  by (induction t) (auto simp: tbl_update_def)

lemma tbl_update_id: "(\<And>r. r \<in> set t \<Longrightarrow> P r \<Longrightarrow> f r = r) \<Longrightarrow> tbl_update P f t = t"
  by (induction t) (auto simp: tbl_update_def)

lemma tbl_update_set [table_simps]:
  "set (tbl_update P f t) = f ` {r \<in> set t. P r} \<union> {r \<in> set t. \<not> P r}"
  by (auto simp: tbl_update_def)

lemma tbl_find_update_key:
  assumes "\<And>r. key (f r) = key r"
  shows "tbl_find key k (tbl_update (\<lambda>r. key r = j) f t) =
    (if k = j then map_option f (tbl_find key k t) else tbl_find key k t)"
  using assms by (induction t) (auto simp: tbl_find_def tbl_update_def)

lemma tbl_find_update:
  assumes "\<And>r. P r \<Longrightarrow> key (f r) = key r"
  shows "tbl_find key k (tbl_update P f t) =
    map_option (\<lambda>r. if P r then f r else r) (tbl_find key k t)"
  using assms by (induction t) (auto simp: tbl_find_def tbl_update_def)

lemma tbl_affected_0: "tbl_affected P t = 0 \<longleftrightarrow> (\<forall>r\<in>set t. \<not> P r)"
  by (auto simp: tbl_affected_def filter_empty_conv)

lemma tbl_affected_key:
  assumes "distinct (map key t)"
  shows "tbl_affected (\<lambda>r. key r = k \<and> Q r) t =
    (case tbl_find key k t of None \<Rightarrow> 0 | Some r \<Rightarrow> if Q r then 1 else 0)"
proof (cases "tbl_find key k t")
  case None
  then have "\<forall>r\<in>set t. key r \<noteq> k" by (auto simp: tbl_find_None)
  then show ?thesis using None by (simp add: tbl_affected_0)
next
  case (Some r)
  have r: "r \<in> set t" "key r = k" using tbl_find_Some [OF Some] by auto
  have "filter (\<lambda>r. key r = k \<and> Q r) t = (if Q r then [r] else [])"
  proof -
    have "filter (\<lambda>r. key r = k \<and> Q r) t = filter Q (filter (\<lambda>r. key r = k) t)" by (simp add: conj_commute)
    moreover have "filter (\<lambda>r. key r = k) t = [r]"
      using assms r
    proof (induction t)
      case Nil
      then show ?case by simp
    next
      case (Cons a t)
      have "filter (\<lambda>r. key r = k) t = []" if "key a = k"
        using that Cons.prems(1) by (auto simp: filter_empty_conv image_iff)
      moreover have "a = r" if "key a = k"
        using that Cons.prems by (auto simp: image_iff)
      ultimately show ?case using Cons by auto
    qed
    ultimately show ?thesis by simp
  qed
  then show ?thesis using Some by (simp add: tbl_affected_def)
qed

section \<open>Tables with a primary key\<close>

locale keyed_table =
  fixes key :: "'r \<Rightarrow> 'k" and merge :: "'r \<Rightarrow> 'r \<Rightarrow> 'r"
  assumes merge_key: "key old = key new \<Longrightarrow> key (merge old new) = key old"
begin

lemma distinct_upsert: "distinct (map key t) \<Longrightarrow> distinct (map key (tbl_upsert key merge row t))"
  by (auto simp: tbl_upsert_def merge_key map_key_update)

lemma keys_upsert: "key ` set (tbl_upsert key merge row t) = insert (key row) (key ` set t)"
proof (cases "key row \<in> key ` set t")
  case True
  have "map key (tbl_update (\<lambda>r. key r = key row) (\<lambda>r. merge r row) t) = map key t"
    by (rule map_key_update) (simp add: merge_key)
  then show ?thesis using True by (metis (mono_tags, lifting) insert_absorb list.set_map tbl_upsert_def)
next
  case False
  then show ?thesis by (simp add: tbl_upsert_def)
qed

lemma find_upsert:
  "tbl_find key k (tbl_upsert key merge row t) =
    (if k = key row
     then Some (case tbl_find key k t of None \<Rightarrow> row | Some old \<Rightarrow> merge old row)
     else tbl_find key k t)"
proof (cases "key row \<in> key ` set t")
  case True
  then obtain old where old: "tbl_find key (key row) t = Some old"
    using tbl_find_None by (metis option.exhaust)
  have "tbl_find key k (tbl_update (\<lambda>r. key r = key row) (\<lambda>r. merge r row) t) =
     map_option (\<lambda>r. if key r = key row then merge r row else r) (tbl_find key k t)"
    by (rule tbl_find_update) (simp add: merge_key)
  moreover have "map_option (\<lambda>r. if key r = key row then merge r row else r) (tbl_find key k t) =
      (if k = key row then Some (merge old row) else tbl_find key k t)"
    using old tbl_find_Some [of key k t] by (cases "tbl_find key k t") auto
  ultimately show ?thesis using True old by (simp add: tbl_upsert_def)
next
  case False
  then have "tbl_find key (key row) t = None" by (simp add: tbl_find_None)
  moreover have "tbl_find key k (t @ [row]) =
     (case tbl_find key k t of None \<Rightarrow> if key row = k then Some row else None | Some r \<Rightarrow> Some r)"
    by (induction t) (auto simp: tbl_find_def)
  ultimately show ?thesis using False by (auto simp: tbl_upsert_def split: option.splits)
qed

lemma upsert_unchanged:
  assumes "distinct (map key t)" "tbl_find key (key row) t = Some old" "merge old row = old"
  shows "tbl_upsert key merge row t = t"
proof -
  have "key row \<in> key ` set t" using tbl_find_Some [OF assms(2)] by (metis imageI)
  moreover have "r = old" if "r \<in> set t" "key r = key row" for r
    using tbl_find_distinct [OF assms(1), of "key row" r] assms(2) that by simp
  ultimately show ?thesis using assms(3) by (auto simp: tbl_upsert_def intro: tbl_update_id)
qed

end

section \<open>Facts about execution\<close>

lemma db_exec_no_faults [db_simps]:
  "db_faults d = [] \<Longrightarrow> db_exec f d =
    (case f (db_store d) of Inl e \<Rightarrow> (Err e, d) | Inr (a, s) \<Rightarrow> (Ok a, d\<lparr>db_store := s\<rparr>))"
  by (simp add: db_exec_def Let_def split: sum.splits)

lemma db_exec_OkD:
  "db_exec f d = (Ok a, d') \<Longrightarrow>
   f (db_store d) = Ok (a, db_store d') \<and> db_now d' = db_now d \<and> db_dialect d' = db_dialect d
     \<and> db_json_in d' = db_json_in d \<and> db_faults d' = tl (db_faults d)"
  by (auto simp: db_exec_def Let_def split: list.splits option.splits sum.splits prod.splits)

lemma db_exec_ErrD: "db_exec f d = (Err e, d') \<Longrightarrow> db_store d' = db_store d"
  by (auto simp: db_exec_def Let_def split: list.splits option.splits sum.splits prod.splits)

lemma db_bind_Ok_iff:
  "db_bind m f d = (Ok b, d'') \<longleftrightarrow> (\<exists>a d'. m d = (Ok a, d') \<and> f a d' = (Ok b, d''))"
  by (auto simp: db_bind_def split: prod.splits sum.splits)

lemma db_wrap_Ok_iff [simp]: "db_wrap p m d = (Ok a, d') \<longleftrightarrow> m d = (Ok a, d')"
  by (auto simp: db_wrap_def split: prod.splits sum.splits)

lemma db_nop_cases:
  "db_nop d = (Ok (), d\<lparr>db_faults := tl (db_faults d)\<rparr>)
   \<or> (\<exists>e. db_nop d = (Err e, d\<lparr>db_faults := tl (db_faults d)\<rparr>))"
  by (auto simp: db_nop_def db_exec_def Let_def split: list.splits option.splits)

lemma db_nop_OkD: "db_nop d = (Ok u, d') \<Longrightarrow> d' = d\<lparr>db_faults := tl (db_faults d)\<rparr>"
  using db_nop_cases [of d] by auto

lemma db_nop_no_faults [simp]: "db_faults d = [] \<Longrightarrow> db_nop d = (Ok (), d)"
  by (simp add: db_nop_def db_simps)

text \<open>A transaction is all or nothing: its effect is the body's effect, or none.\<close>

lemma db_tx_OkD:
  assumes "db_tx bm cm body d = (Ok a, d')"
  obtains d2 where "body (d\<lparr>db_faults := tl (db_faults d)\<rparr>) = (Ok a, d2)"
    "d' = d2\<lparr>db_faults := tl (db_faults d2)\<rparr>"
  using assms
  by (auto simp: db_tx_def split: prod.splits sum.splits dest!: db_nop_OkD)

lemma db_tx_ErrD:
  assumes "db_tx bm cm body d = (Err e, d')"
  shows "db_store d' = db_store d"
  using assms db_nop_cases [of d]
  by (auto simp: db_tx_def split: prod.splits sum.splits)

lemma db_tx_no_faults [db_simps]:
  assumes "db_faults d = []" "body d = (Ok a, d2)" "db_faults d2 = []"
  shows "db_tx bm cm body d = (Ok a, d2)"
  using assms by (simp add: db_tx_def)

text \<open>What no statement changes: the clock, the dialect and the JSON column encoding.\<close>

definition same_env :: "db \<Rightarrow> db \<Rightarrow> bool" where
  "same_env d d' = (db_now d' = db_now d \<and> db_dialect d' = db_dialect d \<and> db_json_in d' = db_json_in d)"

lemma same_env_refl [simp]: "same_env d d"
  by (simp add: same_env_def)

lemma same_env_trans: "same_env a b \<Longrightarrow> same_env b c \<Longrightarrow> same_env a c"
  by (simp add: same_env_def)

lemma same_env_upd [simp]:
  "same_env d (d'\<lparr>db_faults := f\<rparr>) = same_env d d'" "same_env d (d'\<lparr>db_store := s\<rparr>) = same_env d d'"
  "same_env (d\<lparr>db_faults := f\<rparr>) d' = same_env d d'" "same_env (d\<lparr>db_store := s\<rparr>) d' = same_env d d'"
  by (simp_all add: same_env_def)

lemma db_exec_env: "db_exec f d = (r, d') \<Longrightarrow> same_env d d' \<and> db_faults d' = tl (db_faults d)"
  by (auto simp: db_exec_def same_env_def Let_def split: list.splits option.splits sum.splits prod.splits)

lemma db_exec_cases:
  assumes "db_exec f d = (r, d')"
  obtains (Fail) e where "r = Err e" "db_store d' = db_store d" "same_env d d'"
  | (Done) a where "r = Ok a" "f (db_store d) = Ok (a, db_store d')" "same_env d d'"
  using assms db_exec_env [OF assms] db_exec_ErrD [of f d _ d'] db_exec_OkD [of f d _ d']
  by (cases r) auto

lemma db_exec_pure_OkD:
  "db_exec (\<lambda>s. Ok (f s, g s)) d = (Ok a, d') \<Longrightarrow>
    a = f (db_store d) \<and> db_store d' = g (db_store d) \<and> same_env d d'"
  by (auto elim!: db_exec_cases)

lemma db_exec_pureD:
  "db_exec (\<lambda>s. Ok (f s, g s)) d = (r, d') \<Longrightarrow> same_env d d' \<and>
    ((\<exists>e. r = Err e) \<and> db_store d' = db_store d \<or> r = Ok (f (db_store d)) \<and> db_store d' = g (db_store d))"
  by (erule db_exec_cases) auto

lemma db_nop_env: "db_nop d = (r, d') \<Longrightarrow> db_store d' = db_store d \<and> same_env d d'"
  using db_nop_cases [of d] by auto

lemma db_tx_env:
  assumes "db_tx bm cm body d = (r, d')" "\<And>d1 r1 d2. body d1 = (r1, d2) \<Longrightarrow> same_env d1 d2"
  shows "same_env d d'"
proof -
  obtain r1 d1 where 1: "db_nop d = (r1, d1)" by (cases "db_nop d")
  obtain r2 d2 where 2: "body d1 = (r2, d2)" by (cases "body d1")
  obtain r3 d3 where 3: "db_nop d2 = (r3, d3)" by (cases "db_nop d2")
  have "same_env d d1" "same_env d1 d2" "same_env d2 d3"
    using db_nop_env [OF 1] assms(2) [OF 2] db_nop_env [OF 3] by auto
  then have "same_env d d1" "same_env d d2" "same_env d d3" using same_env_trans by blast+
  then show ?thesis using assms(1) 1 2 3
    by (cases r1; cases r2; cases r3) (auto simp: db_tx_def)
qed

lemma db_wrap_eq: "db_wrap p m d = (case m d of (r, d') \<Rightarrow> (case r of Inl e \<Rightarrow> Err (p @ e) | Inr a \<Rightarrow> Ok a, d'))"
  by (auto simp: db_wrap_def split: prod.splits sum.splits)

lemma db_wrap_ErrD: "db_wrap p m d = (Err e, d') \<Longrightarrow> \<exists>e'. m d = (Err e', d') \<and> e = p @ e'"
  by (auto simp: db_wrap_def split: prod.splits sum.splits)

lemma db_bind_cases:
  assumes "db_bind m f d = (r, d'')"
  obtains (First) e where "m d = (Err e, d'')" "r = Err e"
  | (Second) a d' where "m d = (Ok a, d')" "f a d' = (r, d'')"
  using assms by (auto simp: db_bind_def split: prod.splits sum.splits)

lemma db_bind_ErrD:
  "db_bind m f d = (Err e, d'') \<Longrightarrow>
    m d = (Err e, d'') \<or> (\<exists>a d'. m d = (Ok a, d') \<and> f a d' = (Err e, d''))"
  by (auto simp: db_bind_def split: prod.splits sum.splits)

lemma db_return_iff [simp]: "db_return a d = (r, d') \<longleftrightarrow> r = Ok a \<and> d' = d"
  by (auto simp: db_return_def)

lemma db_fail_iff [simp]: "db_fail e d = (r, d') \<longleftrightarrow> r = Err e \<and> d' = d"
  by (auto simp: db_fail_def)

text \<open>A relation between the store before and after that holds of every element's program, is
  reflexive and composes, holds of the loop.\<close>

lemma db_each_rel:
  assumes "db_each f xs d = (r, d')" "\<And>s. R s s" "\<And>a b c. R a b \<Longrightarrow> R b c \<Longrightarrow> R a c"
    "\<And>x d1 r1 d2. x \<in> set xs \<Longrightarrow> f x d1 = (r1, d2) \<Longrightarrow> same_env d d1 \<Longrightarrow> same_env d d2 \<and> R (db_store d1) (db_store d2)"
  shows "same_env d d' \<and> R (db_store d) (db_store d')"
proof -
  have "same_env d e \<Longrightarrow> db_each f ys e = (r, d') \<Longrightarrow> set ys \<subseteq> set xs \<Longrightarrow> same_env d d' \<and> R (db_store e) (db_store d')"
    for ys e
  proof (induction ys arbitrary: e)
    case Nil
    then show ?case using assms(2) by simp
  next
    case (Cons y ys)
    obtain r1 e1 where e1: "f y e = (r1, e1)" by (cases "f y e")
    have s1: "same_env d e1" "R (db_store e) (db_store e1)"
      using assms(4) [of y e r1 e1] e1 Cons.prems by auto
    show ?case
    proof (cases r1)
      case (Inl x)
      then show ?thesis using Cons.prems e1 s1 by simp
    next
      case (Inr u)
      then have "same_env d d' \<and> R (db_store e1) (db_store d')"
        using Cons.IH [OF s1(1)] Cons.prems e1 by simp
      then show ?thesis using s1(2) assms(3) by blast
    qed
  qed
  from this [of d xs] show ?thesis using assms(1) by simp
qed

text \<open>Programs that leave the environment alone, closed under the combinators.\<close>

definition keeps_env :: "'a dbm \<Rightarrow> bool" where
  "keeps_env m = (\<forall>d r d'. m d = (r, d') \<longrightarrow> same_env d d')"

lemma keeps_envD: "keeps_env m \<Longrightarrow> m d = (r, d') \<Longrightarrow> same_env d d'"
  by (simp add: keeps_env_def)

lemma keeps_env_exec [db_env]: "keeps_env (db_exec f)"
  by (auto simp: keeps_env_def dest: db_exec_env)

lemma keeps_env_exec_env [db_env]: "keeps_env (\<lambda>d. db_exec (f d) d)"
  by (auto simp: keeps_env_def dest: db_exec_env)

lemma keeps_env_nop [db_env]: "keeps_env db_nop"
  by (auto simp: keeps_env_def dest: db_nop_env)

lemma keeps_env_return [db_env]: "keeps_env (db_return a)"
  by (simp add: keeps_env_def)

lemma keeps_env_fail [db_env]: "keeps_env (db_fail e)"
  by (simp add: keeps_env_def)

lemma keeps_env_wrap [db_env]: "keeps_env m \<Longrightarrow> keeps_env (db_wrap p m)"
  by (auto simp: keeps_env_def db_wrap_eq split: prod.splits)

lemma keeps_env_bind [db_env]:
  assumes "keeps_env m" "\<And>a. keeps_env (f a)"
  shows "keeps_env (db_bind m f)"
  unfolding keeps_env_def
proof (intro allI impI)
  fix d r d'
  assume "db_bind m f d = (r, d')"
  then show "same_env d d'"
    by (cases rule: db_bind_cases) (use assms in \<open>auto dest!: keeps_envD intro: same_env_trans\<close>)
qed

lemma keeps_env_tx [db_env]: "keeps_env body \<Longrightarrow> keeps_env (db_tx bm cm body)"
  by (auto simp: keeps_env_def elim!: db_tx_env)

lemma keeps_env_each [db_env]:
  assumes "\<And>x. keeps_env (f x)"
  shows "keeps_env (db_each f xs)"
  unfolding keeps_env_def
proof (intro allI impI)
  fix d r d'
  assume "db_each f xs d = (r, d')"
  then have "same_env d d' \<and> True"
    by (rule db_each_rel) (auto dest: keeps_envD [OF assms] intro: same_env_trans)
  then show "same_env d d'" by simp
qed

lemma keeps_env_if [db_env]: "keeps_env a \<Longrightarrow> keeps_env b \<Longrightarrow> keeps_env (if c then a else b)"
  by simp

text \<open>Programs that succeed when no statement fails.\<close>

definition clean :: "'a dbm \<Rightarrow> db \<Rightarrow> bool" where
  "clean m d = (db_faults d = [] \<longrightarrow> (\<exists>a s. m d = (Ok a, d\<lparr>db_store := s\<rparr>)))"

lemma cleanE:
  assumes "clean m d" "db_faults d = []"
  obtains a s where "m d = (Ok a, d\<lparr>db_store := s\<rparr>)"
  using assms by (auto simp: clean_def)

lemma clean_exec: "(\<exists>a s. f (db_store d) = Ok (a, s)) \<Longrightarrow> clean (db_exec f) d"
  by (auto simp: clean_def db_simps)

lemma clean_nop [simp]: "clean db_nop d"
  by (auto simp: clean_def intro: exI [of _ "db_store d"])

lemma clean_return [simp]: "clean (db_return a) d"
  by (auto simp: clean_def db_return_def intro: exI [of _ "db_store d"])

lemma clean_wrap: "clean m d \<Longrightarrow> clean (db_wrap p m) d"
  by (auto simp: clean_def db_wrap_def)

lemma clean_bind:
  assumes "clean m d" "\<And>a s. m d = (Ok a, d\<lparr>db_store := s\<rparr>) \<Longrightarrow> clean (f a) (d\<lparr>db_store := s\<rparr>)"
  shows "clean (db_bind m f) d"
  unfolding clean_def
proof
  assume "db_faults d = []"
  then obtain a s where 1: "m d = (Ok a, d\<lparr>db_store := s\<rparr>)" using assms(1) by (auto simp: clean_def)
  from assms(2) [OF this] \<open>db_faults d = []\<close> show "\<exists>a s. db_bind m f d = (Ok a, d\<lparr>db_store := s\<rparr>)"
    by (auto simp: clean_def db_bind_def 1)
qed

lemma clean_tx:
  assumes "clean body d"
  shows "clean (db_tx bm cm body) d"
  unfolding clean_def
proof
  assume f: "db_faults d = []"
  obtain a s where "body d = (Ok a, d\<lparr>db_store := s\<rparr>)" using cleanE [OF assms f] by metis
  then show "\<exists>a s. db_tx bm cm body d = (Ok a, d\<lparr>db_store := s\<rparr>)"
    using db_tx_no_faults [OF f] f by (metis db.simps(2) db.surjective db.update_convs(1))
qed

end
