(* ===== verification/Records_Repo.thy ===== *)
theory Records_Repo
  imports Db_Store Json_Time Validation_Gate
begin

text \<open>
  The write path, the reads by key and the deletes of \<open>RecordsRepository\<close>
  (\<open>internal/database/repositories/records.go\<close>).  Each function is a database program over the
  tables of the store; the SQL statements it builds are the statement definitions
  (\<open>validation_merge\<close> is the \<open>ON CONFLICT(uri) DO UPDATE\<close> clause of \<open>validationBatchUpsertSQL\<close>,
  and so on).  A context is not modelled: cancellation shows as a failing statement.
\<close>

section \<open>Data\<close>

record record_write =
  rw_uri :: string
  rw_cid :: string
  rw_did :: string
  rw_collection :: string
  rw_rkey :: string
  rw_json :: string
  rw_status :: vstatus
  rw_verror :: string
  rw_lexhash :: string

datatype insert_result = Inserted | Skipped

definition BatchInsertSize :: nat where "BatchInsertSize = 100"
definition ValidationBatchUpsertSize :: nat where "ValidationBatchUpsertSize = 100"
definition SQLParamBatchSize :: nat where "SQLParamBatchSize = 900"
definition DefaultIterateBatchSize :: int where "DefaultIterateBatchSize = 1000"

definition jsonCastError :: err where
  "jsonCastError = ''invalid input syntax for type json''"

definition nullableTextValue :: "string \<Rightarrow> string option" where
  "nullableTextValue v = (if v = [] then None else Some v)"

text \<open>\<open>sql.NullString.String\<close>: NULL scans as the empty string.\<close>

definition null_string :: "string option \<Rightarrow> string" where
  "null_string v = (case v of None \<Rightarrow> [] | Some s \<Rightarrow> s)"

text \<open>\<open>COALESCE(a, b)\<close>.\<close>

definition coalesce :: "'a option \<Rightarrow> 'a option \<Rightarrow> 'a option" where
  "coalesce a b = (case a of None \<Rightarrow> b | Some x \<Rightarrow> Some x)"

definition recordCreatedAtValue :: "decoders \<Rightarrow> string \<Rightarrow> string option" where
  "recordCreatedAtValue X recordJSON = NormalizeRecordCreatedAt X recordJSON"

definition validateRecordWrite :: "unicode \<Rightarrow> record_write \<Rightarrow> unit res" where
  "validateRecordWrite U rec =
     (if rw_uri rec = [] \<or> rw_did rec = [] \<or> rw_collection rec = [] \<or> rw_json rec = [] then
        Err (''validation-aware record write requires uri, did, collection, and json; got uri='' @
             go_quote U (rw_uri rec) @ '' did='' @ go_quote U (rw_did rec) @ '' collection='' @
             go_quote U (rw_collection rec))
      else if known_status (rw_status rec) then Ok ()
      else Err (''validation-aware record write for '' @ rw_uri rec @
                '' has unsupported validation status '' @ go_quote U (rw_status rec)))"

section \<open>Validation-aware writes\<close>

text \<open>\<open>recordWriteValues\<close> placed by \<open>validationValueSetSQL\<close>: the row an insert adds.\<close>

definition write_row :: "decoders \<Rightarrow> int \<Rightarrow> string \<Rightarrow> record_write \<Rightarrow> record_row" where
  "write_row X now stored rec =
     \<lparr>rr_uri = rw_uri rec, rr_cid = rw_cid rec, rr_did = rw_did rec,
      rr_collection = rw_collection rec, rr_json = stored, rr_indexed_at = now,
      rr_created_at = recordCreatedAtValue X (rw_json rec), rr_status = rw_status rec,
      rr_verror = nullableTextValue (rw_verror rec), rr_validated_at = Some now,
      rr_lexhash = nullableTextValue (rw_lexhash rec)\<rparr>"

text \<open>The conflict clause of \<open>validationBatchUpsertSQL\<close>.\<close>

definition validation_merge :: "int \<Rightarrow> record_row \<Rightarrow> record_row \<Rightarrow> record_row" where
  "validation_merge now old new =
     old\<lparr>rr_cid := rr_cid new, rr_did := rr_did new, rr_collection := rr_collection new,
         rr_json := rr_json new,
         rr_indexed_at := (if rr_cid old \<noteq> rr_cid new \<or> rr_json old \<noteq> rr_json new then now
                           else rr_indexed_at old),
         rr_created_at := coalesce (rr_created_at old) (rr_created_at new),
         rr_status := rr_status new, rr_verror := rr_verror new,
         rr_validated_at := rr_validated_at new, rr_lexhash := rr_lexhash new\<rparr>"

definition validation_upsert_row ::
  "decoders \<Rightarrow> int \<Rightarrow> (string \<Rightarrow> string option) \<Rightarrow> record_write \<Rightarrow> record_row list \<Rightarrow> record_row list res"
where
  "validation_upsert_row X now jin rec t =
     (case jin (rw_json rec) of
        None \<Rightarrow> Err jsonCastError
      | Some j \<Rightarrow> Ok (tbl_upsert rr_uri (validation_merge now) (write_row X now j rec) t))"

text \<open>The single-row statement \<open>validationUpsertSQL\<close>.\<close>

definition validationUpsert :: "decoders \<Rightarrow> record_write \<Rightarrow> unit dbm" where
  "validationUpsert X rec d =
     db_exec (\<lambda>s. case validation_upsert_row X (db_now d) (db_json_in d) rec (st_records s) of
                    Inl e \<Rightarrow> Err e
                  | Inr t \<Rightarrow> Ok ((), s\<lparr>st_records := t\<rparr>)) d"

record existing_state =
  ex_cid :: string
  ex_has_created_at :: bool
  ex_status :: vstatus
  ex_verror :: string
  ex_has_validated_at :: bool
  ex_lexhash :: string

definition existing_of_row :: "record_row \<Rightarrow> existing_state" where
  "existing_of_row r =
     \<lparr>ex_cid = rr_cid r, ex_has_created_at = (rr_created_at r \<noteq> None), ex_status = rr_status r,
      ex_verror = null_string (rr_verror r), ex_has_validated_at = (rr_validated_at r \<noteq> None),
      ex_lexhash = null_string (rr_lexhash r)\<rparr>"

text \<open>\<open>None\<close> is \<open>sql.ErrNoRows\<close>.\<close>

definition getValidationWriteState :: "string \<Rightarrow> existing_state option dbm" where
  "getValidationWriteState uri =
     db_exec (\<lambda>s. Ok (map_option existing_of_row (tbl_find rr_uri uri (st_records s)), s))"

definition repair_row :: "decoders \<Rightarrow> int \<Rightarrow> record_write \<Rightarrow> record_row \<Rightarrow> record_row" where
  "repair_row X now rec r =
     r\<lparr>rr_status := rw_status rec, rr_verror := nullableTextValue (rw_verror rec),
       rr_validated_at := Some now, rr_lexhash := nullableTextValue (rw_lexhash rec),
       rr_created_at := coalesce (rr_created_at r) (recordCreatedAtValue X (rw_json rec))\<rparr>"

definition repairSameCIDValidation :: "decoders \<Rightarrow> record_write \<Rightarrow> bool dbm" where
  "repairSameCIDValidation X rec d =
     (let P = (\<lambda>r. rr_uri r = rw_uri rec \<and> rr_cid r = rw_cid rec) in
      db_bind
        (db_wrap (''repair validation metadata for unchanged record '' @ rw_uri rec @ '': '')
          (db_exec (\<lambda>s. Ok (tbl_affected P (st_records s),
             s\<lparr>st_records := tbl_update P (repair_row X (db_now d) rec) (st_records s)\<rparr>))))
        (\<lambda>affected. db_bind (db_wrap (''read repaired row count for '' @ rw_uri rec @ '': '') db_nop)
           (\<lambda>_. db_return (affected = 1))) d)"

text \<open>\<open>UpsertWithValidation\<close> after its read.  The state read may be stale by the time the writes run,
  so this is a definition of its own and the facts about it hold for any \<open>existing\<close>.\<close>

definition upsert_after_read :: "decoders \<Rightarrow> record_write \<Rightarrow> existing_state option \<Rightarrow> insert_result dbm" where
  "upsert_after_read X rec existing =
     (let full = db_bind
            (db_wrap (''upsert record '' @ rw_uri rec @ '' with validation: '') (validationUpsert X rec))
            (\<lambda>_. db_return Inserted) in
      case existing of
        Some ex \<Rightarrow>
          if rw_cid rec \<noteq> [] \<and> ex_cid ex = rw_cid rec then
            let needsCreatedAtRepair = (\<not> ex_has_created_at ex \<and> recordCreatedAtValue X (rw_json rec) \<noteq> None);
                metadataCurrent = (ex_status ex = rw_status rec \<and> ex_verror ex = rw_verror rec
                  \<and> ex_has_validated_at ex \<and> ex_lexhash ex = rw_lexhash rec) in
            if metadataCurrent \<and> \<not> needsCreatedAtRepair then db_return Skipped
            else db_bind (repairSameCIDValidation X rec)
                   (\<lambda>repaired. if repaired then db_return Skipped else full)
          else full
      | None \<Rightarrow> full)"

definition UpsertWithValidation :: "unicode \<Rightarrow> decoders \<Rightarrow> record_write \<Rightarrow> insert_result dbm" where
  "UpsertWithValidation U X rec =
     (case validateRecordWrite U rec of
        Inl e \<Rightarrow> db_fail e
      | Inr _ \<Rightarrow>
          db_bind (db_wrap (''read existing validation state for '' @ rw_uri rec @ '': '')
                     (getValidationWriteState (rw_uri rec)))
            (upsert_after_read X rec))"

section \<open>Batches\<close>

text \<open>One multi-row statement.  PostgreSQL refuses an \<open>ON CONFLICT DO UPDATE\<close> that touches one row
  twice; SQLite applies the rows in order.\<close>

definition conflictTwiceError :: err where
  "conflictTwiceError = ''ON CONFLICT DO UPDATE command cannot affect row a second time''"

fun upsert_rows ::
  "decoders \<Rightarrow> int \<Rightarrow> (string \<Rightarrow> string option) \<Rightarrow> record_write list \<Rightarrow> record_row list \<Rightarrow> record_row list res"
where
  "upsert_rows X now jin [] t = Ok t"
| "upsert_rows X now jin (rec # recs) t =
     (case validation_upsert_row X now jin rec t of
        Inl e \<Rightarrow> Err e
      | Inr t' \<Rightarrow> upsert_rows X now jin recs t')"

definition batchUpsertWithValidationTx :: "decoders \<Rightarrow> record_write list \<Rightarrow> unit dbm" where
  "batchUpsertWithValidationTx X recs d =
     db_wrap (''batch upsert '' @ show_nat (length recs) @ '' records with validation: '')
       (db_exec (\<lambda>s.
          if db_dialect d = PostgreSQL \<and> \<not> distinct (map rw_uri recs) then Err conflictTwiceError
          else (case upsert_rows X (db_now d) (db_json_in d) recs (st_records s) of
                  Inl e \<Rightarrow> Err e
                | Inr t \<Rightarrow> Ok ((), s\<lparr>st_records := t\<rparr>)))) d"

fun validate_writes :: "unicode \<Rightarrow> record_write list \<Rightarrow> unit res" where
  "validate_writes U [] = Ok ()"
| "validate_writes U (rec # recs) =
     (case validateRecordWrite U rec of Inl e \<Rightarrow> Err e | Inr _ \<Rightarrow> validate_writes U recs)"

definition BatchUpsertWithValidation :: "unicode \<Rightarrow> decoders \<Rightarrow> record_write list \<Rightarrow> unit dbm" where
  "BatchUpsertWithValidation U X records =
     (if records = [] then db_return ()
      else (case validate_writes U records of
              Inl e \<Rightarrow> db_fail e
            | Inr _ \<Rightarrow>
                db_tx ''begin validation-aware record transaction: ''
                  ''commit validation-aware record transaction: ''
                  (db_each (batchUpsertWithValidationTx X) (chunks ValidationBatchUpsertSize records))))"

section \<open>Reads by key\<close>

definition GetByURI :: "string \<Rightarrow> record_row option dbm" where
  "GetByURI uri = db_exec (\<lambda>s. Ok (tbl_find rr_uri uri (st_records s), s))"

definition typed_visible :: "string \<Rightarrow> record_row \<Rightarrow> bool" where
  "typed_visible collection r = (rr_collection r = collection \<and> rr_status r = StatusValid)"

definition GetValidByURI :: "string \<Rightarrow> string \<Rightarrow> record_row option dbm" where
  "GetValidByURI uri collection =
     db_exec (\<lambda>s. Ok (List.find (\<lambda>r. rr_uri r = uri \<and> typed_visible collection r) (st_records s), s))"

definition ExistsValidByURI :: "string \<Rightarrow> string \<Rightarrow> bool dbm" where
  "ExistsValidByURI uri collection =
     db_exec (\<lambda>s. Ok (tbl_affected (\<lambda>r. rr_uri r = uri \<and> typed_visible collection r) (st_records s) > 0, s))"

fun get_by_uri_batches :: "bool \<Rightarrow> string list list \<Rightarrow> record_row list \<Rightarrow> record_row list dbm" where
  "get_by_uri_batches validOnly [] acc d = (Ok acc, d)"
| "get_by_uri_batches validOnly (batch # rest) acc d =
     (case db_exec (\<lambda>s. Ok (filter (\<lambda>r. rr_uri r \<in> set batch \<and> (validOnly \<longrightarrow> rr_status r = StatusValid))
              (st_records s), s)) d of
        (Inl e, d') \<Rightarrow> (Err e, d')
      | (Inr rs, d') \<Rightarrow> get_by_uri_batches validOnly rest (acc @ rs) d')"

definition getByURIs :: "bool \<Rightarrow> string list \<Rightarrow> record_row list dbm" where
  "getByURIs validOnly uris =
     (if uris = [] then db_return [] else get_by_uri_batches validOnly (chunks SQLParamBatchSize uris) [])"

definition GetByURIs :: "string list \<Rightarrow> record_row list dbm" where
  "GetByURIs = getByURIs False"

definition GetValidByURIs :: "string list \<Rightarrow> record_row list dbm" where
  "GetValidByURIs = getByURIs True"

definition GetCount :: "int dbm" where
  "GetCount = db_exec (\<lambda>s. Ok (int (length (st_records s)), s))"

definition GetCollectionCount :: "string \<Rightarrow> int dbm" where
  "GetCollectionCount collection =
     db_exec (\<lambda>s. Ok (tbl_affected (\<lambda>r. rr_collection r = collection) (st_records s), s))"

definition GetCountByDID :: "string \<Rightarrow> int dbm" where
  "GetCountByDID did = db_exec (\<lambda>s. Ok (tbl_affected (\<lambda>r. rr_did r = did) (st_records s), s))"

text \<open>\<open>SELECT collection, COUNT( * ) GROUP BY collection ORDER BY count DESC\<close>; ties keep the order of
  first appearance.\<close>

definition GetCollectionStats :: "(string \<times> int) list dbm" where
  "GetCollectionStats =
     db_exec (\<lambda>s. Ok (sort_key (\<lambda>p. - snd p)
       (map (\<lambda>c. (c, tbl_affected (\<lambda>r. rr_collection r = c) (st_records s)))
          (remdups (map rr_collection (st_records s)))), s))"

section \<open>Deletes\<close>

datatype delete_column = ColURI | ColDID

fun column_name :: "delete_column \<Rightarrow> string" where
  "column_name ColURI = ''uri''"
| "column_name ColDID = ''did''"

fun record_column :: "delete_column \<Rightarrow> record_row \<Rightarrow> string" where
  "record_column ColURI r = rr_uri r"
| "record_column ColDID r = rr_did r"

fun version_column :: "delete_column \<Rightarrow> version_row \<Rightarrow> string" where
  "version_column ColURI v = rv_uri v"
| "version_column ColDID v = rv_did v"

definition deleteVersionHistoryTx :: "delete_column \<Rightarrow> string \<Rightarrow> unit dbm" where
  "deleteVersionHistoryTx column value =
     db_wrap (''failed to delete record versions by '' @ column_name column @ '': '')
       (db_exec (\<lambda>s. Ok ((), s\<lparr>st_versions := tbl_delete (\<lambda>v. version_column column v = value) (st_versions s)\<rparr>)))"

definition delete_records :: "delete_column \<Rightarrow> string \<Rightarrow> unit statement" where
  "delete_records column value s =
     Ok ((), s\<lparr>st_records := tbl_delete (\<lambda>r. record_column column r = value) (st_records s)\<rparr>)"

definition deleteWithHistory :: "delete_column \<Rightarrow> string \<Rightarrow> unit dbm" where
  "deleteWithHistory column value =
     db_tx ''failed to begin transaction: '' ''failed to commit transaction: ''
       (db_bind (deleteVersionHistoryTx column value)
          (\<lambda>_. db_wrap (''failed to delete records by '' @ column_name column @ '': '')
                 (db_exec (delete_records column value))))"

definition Delete :: "string \<Rightarrow> unit dbm" where
  "Delete uri = deleteWithHistory ColURI uri"

definition DeleteByDID :: "string \<Rightarrow> unit dbm" where
  "DeleteByDID did = deleteWithHistory ColDID did"

definition DeleteReturning :: "string \<Rightarrow> record_row option dbm" where
  "DeleteReturning uri =
     db_tx ''failed to begin transaction: '' ''failed to commit transaction: ''
       (db_bind (deleteVersionHistoryTx ColURI uri)
          (\<lambda>_. db_exec (\<lambda>s. Ok (tbl_find rr_uri uri (st_records s),
             s\<lparr>st_records := tbl_delete (\<lambda>r. rr_uri r = uri) (st_records s)\<rparr>))))"

definition PurgeActorData :: "string \<Rightarrow> unit dbm" where
  "PurgeActorData did =
     db_tx ''failed to begin transaction: '' ''failed to commit transaction: ''
       (db_bind (db_wrap ''failed to delete records by did: '' (db_exec (delete_records ColDID did)))
          (\<lambda>_. db_bind (deleteVersionHistoryTx ColDID did)
             (\<lambda>_. db_wrap ''failed to delete actor by did: ''
                (db_exec (\<lambda>s. Ok ((), s\<lparr>st_actors := tbl_delete (\<lambda>a. ac_did a = did) (st_actors s)\<rparr>))))))"

definition DeleteAllRecords :: "unit dbm" where
  "DeleteAllRecords = db_exec (\<lambda>s. Ok ((), s\<lparr>st_records := []\<rparr>))"

section \<open>Validation metadata\<close>

definition set_validation :: "int \<Rightarrow> vstatus \<Rightarrow> string option \<Rightarrow> string option \<Rightarrow> record_row \<Rightarrow> record_row" where
  "set_validation now status verror lexhash r =
     r\<lparr>rr_status := status, rr_verror := verror, rr_validated_at := Some now, rr_lexhash := lexhash\<rparr>"

definition UpdateValidationStatus :: "string \<Rightarrow> vstatus \<Rightarrow> string \<Rightarrow> string \<Rightarrow> unit dbm" where
  "UpdateValidationStatus uri status verror lexhash d =
     db_exec (\<lambda>s. Ok ((), s\<lparr>st_records := tbl_update (\<lambda>r. rr_uri r = uri)
        (set_validation (db_now d) status (nullableTextValue verror) (nullableTextValue lexhash)) (st_records s)\<rparr>)) d"

definition UpdateValidationStatusIfUnchanged ::
  "record_row option \<Rightarrow> vstatus \<Rightarrow> string \<Rightarrow> string \<Rightarrow> bool dbm" where
  "UpdateValidationStatusIfUnchanged observed status verror lexhash d =
     (case observed of
        None \<Rightarrow> (Err ''update validation status conditionally: observed record is nil'', d)
      | Some ob \<Rightarrow>
          db_bind
            (db_wrap (''conditionally update validation metadata for '' @ rr_uri ob @ '': '')
              (db_exec (\<lambda>s. case db_json_in d (rr_json ob) of
                  None \<Rightarrow> Err jsonCastError
                | Some j \<Rightarrow>
                    let P = (\<lambda>r. rr_uri r = rr_uri ob \<and> rr_cid r = rr_cid ob \<and> rr_json r = j) in
                    Ok (tbl_affected P (st_records s),
                      s\<lparr>st_records := tbl_update P
                         (set_validation (db_now d) status (nullableTextValue verror) (nullableTextValue lexhash))
                         (st_records s)\<rparr>))))
            (\<lambda>affected. db_bind
               (db_wrap (''read conditional validation row count for '' @ rr_uri ob @ '': '') db_nop)
               (\<lambda>_. db_return (affected = 1))) d)"

definition MarkCollectionUnknownSchema :: "string \<Rightarrow> string \<Rightarrow> unit dbm" where
  "MarkCollectionUnknownSchema collection reason d =
     db_exec (\<lambda>s. Ok ((), s\<lparr>st_records := tbl_update
        (\<lambda>r. rr_collection r = collection
             \<and> (rr_status r \<noteq> StatusUnknownSchema \<or> rr_verror r = None \<or> rr_verror r \<noteq> Some reason
                \<or> rr_validated_at r = None \<or> rr_lexhash r \<noteq> None))
        (set_validation (db_now d) StatusUnknownSchema (Some reason) None) (st_records s)\<rparr>)) d"

definition needs_validation :: "string \<Rightarrow> string \<Rightarrow> record_row \<Rightarrow> bool" where
  "needs_validation collection currentHash r =
     (rr_collection r = collection
      \<and> (rr_lexhash r = None \<or> rr_lexhash r \<noteq> Some currentHash \<or> rr_validated_at r = None))"

definition ListRecordsNeedingValidation :: "string \<Rightarrow> string \<Rightarrow> string \<Rightarrow> int \<Rightarrow> record_row list dbm" where
  "ListRecordsNeedingValidation collection currentHash afterURI limit =
     (let lim = (if limit \<le> 0 then DefaultIterateBatchSize else limit) in
      db_exec (\<lambda>s. Ok (take (nat lim) (sort_key rr_uri
        (filter (\<lambda>r. needs_validation collection currentHash r \<and> afterURI < rr_uri r) (st_records s))), s)))"

section \<open>Legacy writes without validation\<close>

text \<open>The conflict clause of \<open>Insert\<close> and \<open>insertBatchTx\<close>: owner, collection and validation
  metadata stay as they were.\<close>

definition insert_merge :: "int \<Rightarrow> record_row \<Rightarrow> record_row \<Rightarrow> record_row" where
  "insert_merge now old new =
     old\<lparr>rr_cid := rr_cid new, rr_json := rr_json new, rr_indexed_at := now,
         rr_created_at := coalesce (rr_created_at old) (rr_created_at new)\<rparr>"

definition insert_row :: "decoders \<Rightarrow> int \<Rightarrow> string \<Rightarrow> string \<Rightarrow> string \<Rightarrow> string \<Rightarrow> string \<Rightarrow> string \<Rightarrow> record_row" where
  "insert_row X now stored uri cid did collection jsonData =
     \<lparr>rr_uri = uri, rr_cid = cid, rr_did = did, rr_collection = collection, rr_json = stored,
      rr_indexed_at = now, rr_created_at = recordCreatedAtValue X jsonData,
      rr_status = StatusUnknownSchema, rr_verror = None, rr_validated_at = None, rr_lexhash = None\<rparr>"

text \<open>\<open>None\<close> is \<open>sql.ErrNoRows\<close>, on which \<open>Insert\<close> goes on with the zero values.\<close>

definition getCIDAndRecordCreatedAtByURI :: "string \<Rightarrow> (string \<times> bool) option dbm" where
  "getCIDAndRecordCreatedAtByURI uri =
     db_exec (\<lambda>s. Ok (map_option (\<lambda>r. (rr_cid r, rr_created_at r \<noteq> None \<and> rr_created_at r \<noteq> Some []))
                        (tbl_find rr_uri uri (st_records s)), s))"

definition fillMissingRecordCreatedAt :: "string \<Rightarrow> string option \<Rightarrow> unit dbm" where
  "fillMissingRecordCreatedAt uri value =
     (case value of
        None \<Rightarrow> db_return ()
      | Some v \<Rightarrow> db_exec (\<lambda>s. Ok ((), s\<lparr>st_records :=
          tbl_update (\<lambda>r. rr_uri r = uri \<and> rr_created_at r = None) (\<lambda>r. r\<lparr>rr_created_at := Some v\<rparr>)
            (st_records s)\<rparr>)))"

definition Insert :: "decoders \<Rightarrow> string \<Rightarrow> string \<Rightarrow> string \<Rightarrow> string \<Rightarrow> string \<Rightarrow> insert_result dbm" where
  "Insert X uri cid did collection jsonData =
     (let createdAtValue = recordCreatedAtValue X jsonData in
      db_bind (getCIDAndRecordCreatedAtByURI uri) (\<lambda>existing.
        let (existingCID, hasCreatedAt) = (case existing of None \<Rightarrow> ([], False) | Some p \<Rightarrow> p) in
        if cid \<noteq> [] \<and> existingCID = cid then
          (if \<not> hasCreatedAt
           then db_bind (fillMissingRecordCreatedAt uri createdAtValue) (\<lambda>_. db_return Skipped)
           else db_return Skipped)
        else
          db_bind (\<lambda>d. db_exec (\<lambda>s. case db_json_in d jsonData of
                      None \<Rightarrow> Err jsonCastError
                    | Some j \<Rightarrow> Ok ((), s\<lparr>st_records := tbl_upsert rr_uri (insert_merge (db_now d))
                        (insert_row X (db_now d) j uri cid did collection jsonData) (st_records s)\<rparr>)) d)
            (\<lambda>_. db_return Inserted)))"

section \<open>The record table as a keyed table\<close>

definition records_ok :: "store \<Rightarrow> bool" where
  "records_ok s = distinct (map rr_uri (st_records s))"

definition find_record :: "string \<Rightarrow> store \<Rightarrow> record_row option" where
  "find_record uri s = tbl_find rr_uri uri (st_records s)"

interpretation upsert_tbl: keyed_table rr_uri "validation_merge now"
  by unfold_locales (simp add: validation_merge_def)

interpretation insert_tbl: keyed_table rr_uri "insert_merge now"
  by unfold_locales (simp add: insert_merge_def)

lemma nullable_null_string [simp]: "null_string (nullableTextValue v) = v"
  by (simp add: null_string_def nullableTextValue_def)

lemma coalesce_None_iff [simp]: "coalesce a b = None \<longleftrightarrow> a = None \<and> b = None"
  by (simp add: coalesce_def split: option.splits)

lemma coalesce_Some [simp]: "coalesce (Some x) b = Some x" "coalesce None b = b"
  by (simp_all add: coalesce_def)

lemma write_row_uri [simp]: "rr_uri (write_row X now j rec) = rw_uri rec"
  by (simp add: write_row_def)

lemma repair_row_uri [simp]: "rr_uri (repair_row X now rec r) = rr_uri r"
  by (simp add: repair_row_def)

section \<open>The effect of a validation-aware write\<close>

definition repair_pred :: "record_write \<Rightarrow> record_row \<Rightarrow> bool" where
  "repair_pred rec r = (rr_uri r = rw_uri rec \<and> rr_cid r = rw_cid rec)"

definition repair_effect :: "decoders \<Rightarrow> int \<Rightarrow> record_write \<Rightarrow> store \<Rightarrow> store" where
  "repair_effect X now rec s =
     s\<lparr>st_records := tbl_update (repair_pred rec) (repair_row X now rec) (st_records s)\<rparr>"

definition upsert_effect :: "decoders \<Rightarrow> int \<Rightarrow> string \<Rightarrow> record_write \<Rightarrow> store \<Rightarrow> store" where
  "upsert_effect X now j rec s =
     s\<lparr>st_records := tbl_upsert rr_uri (validation_merge now) (write_row X now j rec) (st_records s)\<rparr>"

lemma find_upsert_effect:
  "find_record uri (upsert_effect X now j rec s) =
    (if uri = rw_uri rec
     then Some (case find_record uri s of None \<Rightarrow> write_row X now j rec
                | Some old \<Rightarrow> validation_merge now old (write_row X now j rec))
     else find_record uri s)"
  by (simp add: find_record_def upsert_effect_def upsert_tbl.find_upsert)

lemma find_repair_effect:
  "find_record uri (repair_effect X now rec s) =
    map_option (\<lambda>r. if repair_pred rec r then repair_row X now rec r else r) (find_record uri s)"
  unfolding find_record_def repair_effect_def
  by (simp add: tbl_find_update)

lemma records_ok_upsert [simp]: "records_ok s \<Longrightarrow> records_ok (upsert_effect X now j rec s)"
  by (simp add: records_ok_def upsert_effect_def upsert_tbl.distinct_upsert)

lemma records_ok_repair [simp]: "records_ok (repair_effect X now rec s) = records_ok s"
  by (simp add: records_ok_def repair_effect_def map_key_update)

lemma repair_affected:
  assumes "records_ok s"
  shows "tbl_affected (\<lambda>r. rr_uri r = rw_uri rec \<and> rr_cid r = rw_cid rec) (st_records s) =
    (case find_record (rw_uri rec) s of None \<Rightarrow> 0 | Some r \<Rightarrow> if rr_cid r = rw_cid rec then 1 else 0)"
  using assms by (simp add: records_ok_def find_record_def tbl_affected_key)

lemma repair_effect_not_affected:
  assumes "records_ok s" "tbl_affected (\<lambda>r. rr_uri r = rw_uri rec \<and> rr_cid r = rw_cid rec) (st_records s) \<noteq> 1"
  shows "repair_effect X now rec s = s"
proof -
  have "tbl_affected (repair_pred rec) (st_records s) = 0"
    using assms repair_affected [OF assms(1), of rec]
    by (auto simp: repair_pred_def [abs_def] split: option.splits if_splits)
  then show ?thesis by (simp add: repair_effect_def tbl_affected_0)
qed

lemma validationUpsert_OkD:
  "validationUpsert X rec d = (Ok u, d') \<Longrightarrow>
    \<exists>j. db_json_in d (rw_json rec) = Some j \<and> db_store d' = upsert_effect X (db_now d) j rec (db_store d)
      \<and> same_env d d'"
  by (auto simp: validationUpsert_def validation_upsert_row_def upsert_effect_def
      elim!: db_exec_cases split: option.splits sum.splits)

lemma validationUpsert_ErrD: "validationUpsert X rec d = (Err e, d') \<Longrightarrow> db_store d' = db_store d \<and> same_env d d'"
  by (auto simp: validationUpsert_def elim!: db_exec_cases)

lemma repairSameCIDValidation_cases:
  assumes "repairSameCIDValidation X rec d = (r, d')"
  obtains (Fail) e where "r = Err e" "same_env d d'"
      "db_store d' = db_store d \<or> db_store d' = repair_effect X (db_now d) rec (db_store d)"
  | (Done) b where "r = Ok b" "same_env d d'" "db_store d' = repair_effect X (db_now d) rec (db_store d)"
      "b = (tbl_affected (\<lambda>r. rr_uri r = rw_uri rec \<and> rr_cid r = rw_cid rec) (st_records (db_store d)) = 1)"
  using assms unfolding repairSameCIDValidation_def Let_def
proof (cases rule: db_bind_cases [consumes 1])
  case (First e)
  then show ?thesis
    by (auto dest!: db_wrap_ErrD elim!: db_exec_cases intro!: that(1))
next
  case (Second a d1)
  then have d1: "db_store d1 = repair_effect X (db_now d) rec (db_store d)" "same_env d d1"
    "a = tbl_affected (\<lambda>r. rr_uri r = rw_uri rec \<and> rr_cid r = rw_cid rec) (st_records (db_store d))"
    by (auto elim!: db_exec_cases simp: repair_effect_def repair_pred_def [abs_def])
  from Second(2) show ?thesis
    by (cases rule: db_bind_cases)
      (auto simp: d1 dest!: db_wrap_ErrD db_nop_env intro: that same_env_trans [OF d1(2)])
qed

definition full_upsert :: "decoders \<Rightarrow> record_write \<Rightarrow> insert_result dbm" where
  "full_upsert X rec = db_bind
     (db_wrap (''upsert record '' @ rw_uri rec @ '' with validation: '') (validationUpsert X rec))
     (\<lambda>_. db_return Inserted)"

definition metadata_current :: "decoders \<Rightarrow> record_write \<Rightarrow> existing_state \<Rightarrow> bool" where
  "metadata_current X rec ex =
     (ex_status ex = rw_status rec \<and> ex_verror ex = rw_verror rec \<and> ex_has_validated_at ex
      \<and> ex_lexhash ex = rw_lexhash rec
      \<and> (ex_has_created_at ex \<or> recordCreatedAtValue X (rw_json rec) = None))"

lemma upsert_after_read_eq:
  "upsert_after_read X rec existing =
    (case existing of
       Some ex \<Rightarrow>
         if rw_cid rec \<noteq> [] \<and> ex_cid ex = rw_cid rec then
           if metadata_current X rec ex then db_return Skipped
           else db_bind (repairSameCIDValidation X rec)
                  (\<lambda>repaired. if repaired then db_return Skipped else full_upsert X rec)
         else full_upsert X rec
     | None \<Rightarrow> full_upsert X rec)"
  unfolding upsert_after_read_def full_upsert_def [symmetric] metadata_current_def Let_def
  by (cases existing) auto

lemma full_upsert_cases:
  assumes "full_upsert X rec d = (r, d')"
  obtains (Fail) e where "r = Err e" "db_store d' = db_store d" "same_env d d'"
  | (Done) j where "r = Ok Inserted" "db_json_in d (rw_json rec) = Some j"
      "db_store d' = upsert_effect X (db_now d) j rec (db_store d)" "same_env d d'"
  using assms unfolding full_upsert_def
  by (cases rule: db_bind_cases)
    (auto dest!: db_wrap_ErrD validationUpsert_ErrD validationUpsert_OkD intro: that)

text \<open>Whatever was read before, the writes of one call change the table in one of three ways.\<close>

definition write_effect :: "decoders \<Rightarrow> db \<Rightarrow> record_write \<Rightarrow> store \<Rightarrow> store \<Rightarrow> bool" where
  "write_effect X d rec s s' =
     (s' = s \<or> (rw_cid rec \<noteq> [] \<and> s' = repair_effect X (db_now d) rec s)
      \<or> (\<exists>j. db_json_in d (rw_json rec) = Some j \<and> s' = upsert_effect X (db_now d) j rec s))"

lemma upsert_after_read_effect:
  assumes "upsert_after_read X rec ex d = (r, d')" "records_ok (db_store d)"
  shows "same_env d d' \<and> write_effect X d rec (db_store d) (db_store d')"
proof -
  have full: "same_env d1 d2 \<and> write_effect X d1 rec (db_store d1) (db_store d2)"
    if "full_upsert X rec d1 = (r', d2)" for d1 d2 r'
    using that by (cases rule: full_upsert_cases) (auto simp: write_effect_def)
  have repair: "same_env d d' \<and> write_effect X d rec (db_store d) (db_store d')"
    if "rw_cid rec \<noteq> []" "db_bind (repairSameCIDValidation X rec)
      (\<lambda>repaired. if repaired then db_return Skipped else full_upsert X rec) d = (r, d')"
    using that(2)
  proof (cases rule: db_bind_cases)
    case (First e)
    then show ?thesis using that(1)
      by (cases rule: repairSameCIDValidation_cases) (auto simp: write_effect_def)
  next
    case (Second a d1)
    from Second(1) have d1: "same_env d d1" "db_store d1 = repair_effect X (db_now d) rec (db_store d)"
      "a = (tbl_affected (\<lambda>r. rr_uri r = rw_uri rec \<and> rr_cid r = rw_cid rec) (st_records (db_store d)) = 1)"
      by (cases rule: repairSameCIDValidation_cases; auto)+
    show ?thesis
    proof (cases a)
      case True
      then show ?thesis using Second d1 that(1) by (auto simp: write_effect_def)
    next
      case False
      then have "db_store d1 = db_store d"
        using repair_effect_not_affected [OF assms(2)] d1 by auto
      moreover have "db_now d1 = db_now d" "db_json_in d1 = db_json_in d"
        using d1(1) by (simp_all add: same_env_def)
      moreover have "same_env d1 d' \<and> write_effect X d1 rec (db_store d1) (db_store d')"
        using full [of d1 r d'] Second(2) False by simp
      ultimately show ?thesis using same_env_trans [OF d1(1)] by (auto simp: write_effect_def)
    qed
  qed
  show ?thesis
    using assms(1) full [of d r d'] repair
    by (auto simp: upsert_after_read_eq write_effect_def split: option.splits if_splits)
qed

lemma records_ok_write_effect: "write_effect X d rec s s' \<Longrightarrow> records_ok s \<Longrightarrow> records_ok s'"
  by (auto simp: write_effect_def)

lemma write_effect_frame:
  "write_effect X d rec s s' \<Longrightarrow> s' = s\<lparr>st_records := st_records s'\<rparr>
     \<and> (uri \<noteq> rw_uri rec \<longrightarrow> find_record uri s' = find_record uri s)"
  by (auto simp: write_effect_def find_upsert_effect find_repair_effect repair_pred_def
      repair_effect_def upsert_effect_def find_record_def tbl_find_update upsert_tbl.find_upsert map_option_case
      dest: tbl_find_Some split: option.splits)

lemma write_effect_created:
  assumes "write_effect X d rec s s'" "find_record uri s = Some r0" "rr_created_at r0 = Some c"
    "find_record uri s' = Some r"
  shows "rr_created_at r = Some c"
  using assms
  by (auto simp: write_effect_def find_upsert_effect find_repair_effect repair_row_def validation_merge_def
      split: if_splits)

section \<open>What a successful write leaves\<close>

text \<open>The row carries the CID and the classification of this write.\<close>

definition row_current :: "decoders \<Rightarrow> record_write \<Rightarrow> record_row \<Rightarrow> bool" where
  "row_current X rec r =
     (rr_uri r = rw_uri rec \<and> rr_cid r = rw_cid rec \<and> rr_status r = rw_status rec
      \<and> null_string (rr_verror r) = rw_verror rec \<and> null_string (rr_lexhash r) = rw_lexhash rec
      \<and> rr_validated_at r \<noteq> None
      \<and> (rr_created_at r = None \<longrightarrow> recordCreatedAtValue X (rw_json rec) = None))"

definition row_content :: "(string \<Rightarrow> string option) \<Rightarrow> record_write \<Rightarrow> record_row \<Rightarrow> bool" where
  "row_content jin rec r =
     (rr_did r = rw_did rec \<and> rr_collection r = rw_collection rec \<and> Some (rr_json r) = jin (rw_json rec))"

lemma row_current_existing:
  "rr_uri r = rw_uri rec \<Longrightarrow> rr_cid r = rw_cid rec \<Longrightarrow>
    metadata_current X rec (existing_of_row r) \<longleftrightarrow> row_current X rec r"
  by (auto simp: metadata_current_def row_current_def existing_of_row_def)

lemma row_current_write [simp]: "row_current X rec (write_row X now j rec)"
  by (simp add: row_current_def write_row_def)

lemma row_current_merge [simp]:
  "rr_uri old = rw_uri rec \<Longrightarrow> row_current X rec (validation_merge now old (write_row X now j rec))"
  by (simp add: row_current_def write_row_def validation_merge_def)

lemma row_current_repair [simp]: "repair_pred rec r \<Longrightarrow> row_current X rec (repair_row X now rec r)"
  by (simp add: row_current_def repair_row_def repair_pred_def)

lemma find_record_uri: "find_record uri s = Some r \<Longrightarrow> rr_uri r = uri"
  by (auto simp: find_record_def dest: tbl_find_Some)

lemma row_content_write [simp]: "jin (rw_json rec) = Some j \<Longrightarrow> row_content jin rec (write_row X now j rec)"
  by (simp add: row_content_def write_row_def)

lemma row_content_merge [simp]:
  "jin (rw_json rec) = Some j \<Longrightarrow> row_content jin rec (validation_merge now old (write_row X now j rec))"
  by (simp add: row_content_def write_row_def validation_merge_def)

lemma upsert_effect_row:
  "\<exists>r. find_record (rw_uri rec) (upsert_effect X now j rec s) = Some r \<and> row_current X rec r
     \<and> (jin (rw_json rec) = Some j \<longrightarrow> row_content jin rec r)"
proof (cases "find_record (rw_uri rec) s")
  case None
  then show ?thesis by (simp add: find_upsert_effect)
next
  case (Some old)
  then show ?thesis using find_record_uri [OF Some] by (simp add: find_upsert_effect)
qed

lemma getValidationWriteState_OkD:
  "getValidationWriteState uri d = (Ok ex, d') \<Longrightarrow>
    ex = map_option existing_of_row (find_record uri (db_store d)) \<and> db_store d' = db_store d \<and> same_env d d'"
  by (auto simp: getValidationWriteState_def find_record_def elim!: db_exec_cases)

lemma UpsertWithValidation_OkD:
  assumes "UpsertWithValidation U X rec d = (Ok res, d')"
  obtains d1 where "validateRecordWrite U rec = Ok ()" "db_store d1 = db_store d" "same_env d d1"
    "upsert_after_read X rec (map_option existing_of_row (find_record (rw_uri rec) (db_store d))) d1 = (Ok res, d')"
  using assms
  by (auto simp: UpsertWithValidation_def db_bind_Ok_iff split: sum.splits dest!: getValidationWriteState_OkD)

lemma ex_cid_existing [simp]: "ex_cid (existing_of_row r) = rr_cid r"
  by (simp add: existing_of_row_def)

lemma upsert_after_row:
  "rr_uri r0 = rw_uri rec \<Longrightarrow> upsert_after_read X rec (Some (existing_of_row r0)) =
    (if rw_cid rec \<noteq> [] \<and> rr_cid r0 = rw_cid rec then
       if row_current X rec r0 then db_return Skipped
       else db_bind (repairSameCIDValidation X rec)
              (\<lambda>repaired. if repaired then db_return Skipped else full_upsert X rec)
     else full_upsert X rec)"
  by (simp add: upsert_after_read_eq row_current_existing)

text \<open>The state the read saw is the state the write meets (no concurrent writer).\<close>

lemma upsert_after_fresh_read:
  assumes "records_ok (db_store d)"
    and "upsert_after_read X rec (map_option existing_of_row (find_record (rw_uri rec) (db_store d))) d = (Ok res, d')"
  shows "\<exists>r. find_record (rw_uri rec) (db_store d') = Some r \<and> row_current X rec r
    \<and> (res = Inserted \<longrightarrow> row_content (db_json_in d) rec r)
    \<and> (res = Skipped \<longrightarrow> rw_cid rec \<noteq> [] \<and> (\<exists>r0. find_record (rw_uri rec) (db_store d) = Some r0 \<and> rr_cid r0 = rw_cid rec
          \<and> rr_json r = rr_json r0 \<and> rr_indexed_at r = rr_indexed_at r0
          \<and> rr_did r = rr_did r0 \<and> rr_collection r = rr_collection r0))"
proof -
  have full: ?thesis if "full_upsert X rec d = (Ok res, d')"
    using that
  proof (cases rule: full_upsert_cases)
    case (Done j)
    then show ?thesis using upsert_effect_row [of rec X "db_now d" j "db_store d" "db_json_in d"] by auto
  qed auto
  show ?thesis
  proof (cases "find_record (rw_uri rec) (db_store d)")
    case None
    then show ?thesis using assms(2) full by (simp add: upsert_after_read_eq)
  next
    case (Some r0)
    have u: "rr_uri r0 = rw_uri rec" by (rule find_record_uri [OF Some])
    show ?thesis
    proof (cases "rw_cid rec \<noteq> [] \<and> rr_cid r0 = rw_cid rec")
      case False
      then show ?thesis using assms(2) full Some u by (simp only: upsert_after_row option.map if_False)
    next
      case True
      show ?thesis
      proof (cases "row_current X rec r0")
        case cur: True
        then have "d' = d" "res = Skipped" using assms(2) Some True u
          by (simp_all add: upsert_after_row)
        then show ?thesis using Some True cur by simp
      next
        case False
        then have "db_bind (repairSameCIDValidation X rec)
           (\<lambda>repaired. if repaired then db_return Skipped else full_upsert X rec) d = (Ok res, d')"
          using assms(2) Some True u
          by (simp add: upsert_after_row)
        then obtain b d1 where b: "repairSameCIDValidation X rec d = (Ok b, d1)"
          "(if b then db_return Skipped else full_upsert X rec) d1 = (Ok res, d')"
          by (auto simp: db_bind_Ok_iff)
        from b(1) have "b \<and> db_store d1 = repair_effect X (db_now d) rec (db_store d)"
          using repair_affected [OF assms(1), of rec] Some True
          by (cases rule: repairSameCIDValidation_cases) auto
        then show ?thesis using b(2) True Some u
          by (simp add: find_repair_effect repair_pred_def) (simp add: repair_row_def)
      qed
    qed
  qed
qed

lemma UpsertWithValidation_effect:
  assumes "UpsertWithValidation U X rec d = (r, d')" "records_ok (db_store d)"
  shows "same_env d d' \<and> (db_store d' = db_store d
    \<or> (\<exists>d1. db_store d1 = db_store d \<and> write_effect X d1 rec (db_store d) (db_store d')))"
proof (cases "validateRecordWrite U rec")
  case (Inl e)
  then show ?thesis using assms(1) by (simp add: UpsertWithValidation_def)
next
  case (Inr u)
  then have "db_bind (db_wrap (''read existing validation state for '' @ rw_uri rec @ '': '')
      (getValidationWriteState (rw_uri rec))) (upsert_after_read X rec) d = (r, d')"
    using assms(1) by (simp add: UpsertWithValidation_def)
  then show ?thesis
  proof (cases rule: db_bind_cases)
    case (First e)
    then show ?thesis by (auto simp: getValidationWriteState_def dest!: db_wrap_ErrD elim!: db_exec_cases)
  next
    case (Second ex d1)
    have d1: "db_store d1 = db_store d" "same_env d d1" using Second(1) getValidationWriteState_OkD by auto
    then show ?thesis using upsert_after_read_effect [OF Second(2)] assms(2) same_env_trans by auto
  qed
qed

lemma UpsertWithValidation_stores_all:
  assumes "records_ok (db_store d)" and "UpsertWithValidation U X rec d = (Ok res, d')"
  shows "\<exists>r. find_record (rw_uri rec) (db_store d') = Some r \<and> row_current X rec r
    \<and> (res = Inserted \<longrightarrow> row_content (db_json_in d) rec r)
    \<and> (res = Skipped \<longrightarrow> rw_cid rec \<noteq> [] \<and> (\<exists>r0. find_record (rw_uri rec) (db_store d) = Some r0
          \<and> rr_cid r0 = rw_cid rec \<and> rr_json r = rr_json r0 \<and> rr_indexed_at r = rr_indexed_at r0
          \<and> rr_did r = rr_did r0 \<and> rr_collection r = rr_collection r0))
    \<and> (\<forall>r0 c. find_record (rw_uri rec) (db_store d) = Some r0 \<longrightarrow> rr_created_at r0 = Some c \<longrightarrow> rr_created_at r = Some c)
    \<and> records_ok (db_store d')
    \<and> st_versions (db_store d') = st_versions (db_store d) \<and> st_next_version (db_store d') = st_next_version (db_store d)
    \<and> st_actors (db_store d') = st_actors (db_store d) \<and> st_activity (db_store d') = st_activity (db_store d)
    \<and> (\<forall>uri. uri \<noteq> rw_uri rec \<longrightarrow> find_record uri (db_store d') = find_record uri (db_store d))"
proof -
  obtain d1 where d1: "db_store d1 = db_store d" "same_env d d1"
    "upsert_after_read X rec (map_option existing_of_row (find_record (rw_uri rec) (db_store d))) d1 = (Ok res, d')"
    using UpsertWithValidation_OkD [OF assms(2)] by metis
  have ok1: "records_ok (db_store d1)" using assms(1) d1(1) by simp
  have eff: "write_effect X d1 rec (db_store d) (db_store d')"
    using upsert_after_read_effect [OF d1(3) ok1] d1(1) by simp
  have jin: "db_json_in d1 = db_json_in d" using d1(2) by (simp add: same_env_def)
  have post: "\<exists>r. find_record (rw_uri rec) (db_store d') = Some r \<and> row_current X rec r
    \<and> (res = Inserted \<longrightarrow> row_content (db_json_in d) rec r)
    \<and> (res = Skipped \<longrightarrow> rw_cid rec \<noteq> [] \<and> (\<exists>r0. find_record (rw_uri rec) (db_store d) = Some r0
          \<and> rr_cid r0 = rw_cid rec \<and> rr_json r = rr_json r0 \<and> rr_indexed_at r = rr_indexed_at r0
          \<and> rr_did r = rr_did r0 \<and> rr_collection r = rr_collection r0))"
    using upsert_after_fresh_read [OF ok1, of X rec res d'] d1(1,3) jin by simp
  have created: "rr_created_at r = Some c"
    if "find_record (rw_uri rec) (db_store d) = Some r0" "rr_created_at r0 = Some c"
      "find_record (rw_uri rec) (db_store d') = Some r" for r0 c r
    using eff that by (rule write_effect_created)
  have frame: "st_versions (db_store d') = st_versions (db_store d)" "st_next_version (db_store d') = st_next_version (db_store d)"
    "st_actors (db_store d') = st_actors (db_store d)" "st_activity (db_store d') = st_activity (db_store d)"
    using eff by (auto simp: write_effect_def repair_effect_def upsert_effect_def)
  show ?thesis
    using post created records_ok_write_effect [OF eff assms(1)] write_effect_frame [OF eff] frame by blast
qed

text \<open>C1: a successful \<open>UpsertWithValidation\<close> leaves exactly one row for the URI, which carries the
  CID, the validation status, error, Lexicon hash and a validation time of this write; when it reports
  \<open>Inserted\<close> the row also carries this write's owner, collection and JSON, and when it reports
  \<open>Skipped\<close> the stored content of the same CID and its \<open>indexed_at\<close> are kept.  A creation time already
  stored is never replaced.  Rows of other URIs and the other tables are untouched.\<close>

theorem UpsertWithValidation_stores:
  assumes "records_ok (db_store d)" and "UpsertWithValidation U X rec d = (Ok res, d')"
  shows "\<exists>r. find_record (rw_uri rec) (db_store d') = Some r \<and> row_current X rec r
    \<and> (res = Inserted \<longrightarrow> row_content (db_json_in d) rec r)
    \<and> (res = Skipped \<longrightarrow> rw_cid rec \<noteq> [] \<and> (\<exists>r0. find_record (rw_uri rec) (db_store d) = Some r0
          \<and> rr_cid r0 = rw_cid rec \<and> rr_json r = rr_json r0 \<and> rr_indexed_at r = rr_indexed_at r0
          \<and> rr_did r = rr_did r0 \<and> rr_collection r = rr_collection r0))
    \<and> (\<forall>r0 c. find_record (rw_uri rec) (db_store d) = Some r0 \<longrightarrow> rr_created_at r0 = Some c \<longrightarrow> rr_created_at r = Some c)
    \<and> records_ok (db_store d')
    \<and> st_versions (db_store d') = st_versions (db_store d) \<and> st_next_version (db_store d') = st_next_version (db_store d)
    \<and> st_actors (db_store d') = st_actors (db_store d) \<and> st_activity (db_store d') = st_activity (db_store d)
    \<and> (\<forall>uri. uri \<noteq> rw_uri rec \<longrightarrow> find_record uri (db_store d') = find_record uri (db_store d))"
  by (rule UpsertWithValidation_stores_all [OF assms])

definition sample_row :: record_row where
  "sample_row = \<lparr>rr_uri = ''at://did:plc:a/org.x.y/1'', rr_cid = ''bafy1'', rr_did = ''did:plc:a'',
     rr_collection = ''org.x.y'', rr_json = ''{}'', rr_indexed_at = 3, rr_created_at = None,
     rr_status = StatusValid, rr_verror = None, rr_validated_at = Some 3, rr_lexhash = Some ''h''\<rparr>"

definition sample_write :: record_write where
  "sample_write = \<lparr>rw_uri = ''at://did:plc:a/org.x.y/1'', rw_cid = ''bafy1'', rw_did = ''did:plc:a'',
     rw_collection = ''org.x.y'', rw_rkey = ''1'', rw_json = ''{}'', rw_status = StatusValid, rw_verror = [],
     rw_lexhash = ''h1''\<rparr>"

lemma sample_write_inserts:
  "fst (UpsertWithValidation ascii_unicode no_decoders sample_write (sqlite_db empty_store 5)) = Ok Inserted"
  by code_simp

theorem UpsertWithValidation_stores_witness:
  "\<exists>r. find_record ''at://did:plc:a/org.x.y/1''
       (db_store (snd (UpsertWithValidation ascii_unicode no_decoders sample_write (sqlite_db empty_store 5)))) = Some r
     \<and> rr_status r = StatusValid \<and> rr_json r = ''{}''"
proof -
  have "records_ok (db_store (sqlite_db empty_store 5))" by code_simp
  from UpsertWithValidation_stores [OF this fst_snd_eq [OF sample_write_inserts]]
  show ?thesis by (auto simp: row_current_def row_content_def sqlite_db_def sample_write_def)
qed

lemma UpsertWithValidation_current:
  assumes "UpsertWithValidation U X rec d = (Ok res, d')"
    and "find_record (rw_uri rec) (db_store d) = Some r" "row_current X rec r" "rw_cid rec \<noteq> []"
  shows "db_store d' = db_store d \<and> res = Skipped"
proof -
  obtain d1 where d1: "db_store d1 = db_store d"
    "upsert_after_read X rec (map_option existing_of_row (find_record (rw_uri rec) (db_store d))) d1 = (Ok res, d')"
    using UpsertWithValidation_OkD [OF assms(1)] by metis
  moreover have "rr_uri r = rw_uri rec" "rr_cid r = rw_cid rec" using assms(3) by (simp_all add: row_current_def)
  ultimately show ?thesis using assms(2-4) by (simp add: upsert_after_row)
qed

text \<open>redelivery is a no-op.  Once \<open>UpsertWithValidation\<close> has succeeded for a write with a CID, the same
  call on the same tables, at any later time, reports \<open>Skipped\<close> and changes nothing.\<close>

theorem UpsertWithValidation_redelivery:
  assumes "records_ok (db_store d)" "rw_cid rec \<noteq> []"
    and "UpsertWithValidation U X rec d = (Ok res, d')"
    and "db_store e = db_store d'" "db_faults e = []"
  shows "UpsertWithValidation U X rec e = (Ok Skipped, e)"
proof -
  obtain d1 where d1: "validateRecordWrite U rec = Ok ()" "db_store d1 = db_store d"
    "upsert_after_read X rec (map_option existing_of_row (find_record (rw_uri rec) (db_store d))) d1 = (Ok res, d')"
    using UpsertWithValidation_OkD [OF assms(3)] by metis
  then obtain r where r: "find_record (rw_uri rec) (db_store d') = Some r" "row_current X rec r"
    using upsert_after_fresh_read [of d1 X rec res d'] assms(1) by auto
  have "getValidationWriteState (rw_uri rec) e = (Ok (Some (existing_of_row r)), e)"
    using r(1) assms(4,5) by (simp add: getValidationWriteState_def db_simps find_record_def)
  moreover have "upsert_after_read X rec (Some (existing_of_row r)) e = (Ok Skipped, e)"
    using r(2) assms(2) by (subst upsert_after_row) (simp_all add: row_current_def db_return_def)
  ultimately show ?thesis
    using d1(1) by (simp add: UpsertWithValidation_def db_bind_def db_wrap_def)
qed

theorem UpsertWithValidation_redelivery_witness:
  "let d' = snd (UpsertWithValidation ascii_unicode no_decoders sample_write (sqlite_db empty_store 5))
   in UpsertWithValidation ascii_unicode no_decoders sample_write (d'\<lparr>db_now := 9, db_faults := []\<rparr>)
      = (Ok Skipped, d'\<lparr>db_now := 9, db_faults := []\<rparr>)"
proof -
  have 0: "records_ok (db_store (sqlite_db empty_store 5))" "rw_cid sample_write \<noteq> []" by code_simp+
  define d' where "d' = snd (UpsertWithValidation ascii_unicode no_decoders sample_write (sqlite_db empty_store 5))"
  have 1: "UpsertWithValidation ascii_unicode no_decoders sample_write (sqlite_db empty_store 5) = (Ok Inserted, d')"
    unfolding d'_def by (rule fst_snd_eq [OF sample_write_inserts])
  have "UpsertWithValidation ascii_unicode no_decoders sample_write (d'\<lparr>db_now := 9, db_faults := []\<rparr>)
      = (Ok Skipped, d'\<lparr>db_now := 9, db_faults := []\<rparr>)"
    by (rule UpsertWithValidation_redelivery [OF 0 1]) simp_all
  then show ?thesis unfolding Let_def d'_def .
qed

section \<open>What the deletes leave\<close>

definition purge_store :: "delete_column \<Rightarrow> string \<Rightarrow> store \<Rightarrow> store" where
  "purge_store column value s =
     s\<lparr>st_records := tbl_delete (\<lambda>r. record_column column r = value) (st_records s),
       st_versions := tbl_delete (\<lambda>v. version_column column v = value) (st_versions s)\<rparr>"

lemma deleteVersionHistoryTx_OkD:
  "deleteVersionHistoryTx column value d = (Ok u, d') \<Longrightarrow>
    db_store d' = (db_store d)\<lparr>st_versions := tbl_delete (\<lambda>v. version_column column v = value) (st_versions (db_store d))\<rparr>
    \<and> same_env d d'"
  by (auto simp: deleteVersionHistoryTx_def elim!: db_exec_cases)

lemma delete_records_OkD:
  "db_exec (delete_records column value) d = (Ok u, d') \<Longrightarrow>
    db_store d' = (db_store d)\<lparr>st_records := tbl_delete (\<lambda>r. record_column column r = value) (st_records (db_store d))\<rparr>
    \<and> same_env d d'"
  by (auto simp: delete_records_def elim!: db_exec_cases)

lemma deleteWithHistory_OkD:
  assumes "deleteWithHistory column value d = (Ok u, d')"
  shows "db_store d' = purge_store column value (db_store d) \<and> same_env d d'"
  using assms unfolding deleteWithHistory_def
  by (rule db_tx_OkD)
    (auto simp: db_bind_Ok_iff purge_store_def same_env_def dest!: deleteVersionHistoryTx_OkD delete_records_OkD)

lemma DeleteReturning_OkD:
  assumes "DeleteReturning uri d = (Ok deleted, d')"
  shows "db_store d' = purge_store ColURI uri (db_store d) \<and> deleted = find_record uri (db_store d) \<and> same_env d d'"
  using assms unfolding DeleteReturning_def
  by (rule db_tx_OkD)
    (auto simp: db_bind_Ok_iff purge_store_def find_record_def same_env_def
      dest!: deleteVersionHistoryTx_OkD db_exec_pure_OkD)

lemma PurgeActorData_OkD:
  assumes "PurgeActorData did d = (Ok u, d')"
  shows "db_store d' = (purge_store ColDID did (db_store d))\<lparr>st_actors :=
      tbl_delete (\<lambda>a. ac_did a = did) (st_actors (db_store d))\<rparr> \<and> same_env d d'"
  using assms unfolding PurgeActorData_def
  by (rule db_tx_OkD)
    (auto simp: db_bind_Ok_iff purge_store_def same_env_def
      dest!: deleteVersionHistoryTx_OkD delete_records_OkD elim!: db_exec_cases)

lemma DeleteReturning_cases:
  assumes "DeleteReturning uri d = (r, d')"
  shows "same_env d d' \<and> (db_store d' = db_store d \<or> db_store d' = purge_store ColURI uri (db_store d))"
proof (cases r)
  case (Inl e)
  have "keeps_env (DeleteReturning uri)"
    unfolding DeleteReturning_def deleteVersionHistoryTx_def by (intro db_env)
  then have "same_env d d'" using assms by (rule keeps_envD)
  then show ?thesis using db_tx_ErrD [OF assms [unfolded DeleteReturning_def Inl]] by simp
qed (use DeleteReturning_OkD [of uri d _ d'] assms in auto)

lemma PurgeActorData_cases:
  assumes "PurgeActorData did d = (r, d')"
  shows "same_env d d' \<and> (db_store d' = db_store d \<or> db_store d' = (purge_store ColDID did (db_store d))\<lparr>st_actors :=
      tbl_delete (\<lambda>a. ac_did a = did) (st_actors (db_store d))\<rparr>)"
proof (cases r)
  case (Inl e)
  have "keeps_env (PurgeActorData did)"
    unfolding PurgeActorData_def deleteVersionHistoryTx_def by (intro db_env)
  then have "same_env d d'" using assms by (rule keeps_envD)
  then show ?thesis using db_tx_ErrD [OF assms [unfolded PurgeActorData_def Inl]] by simp
qed (use PurgeActorData_OkD [of did d _ d'] assms in auto)

lemma records_ok_purge [simp]: "records_ok s \<Longrightarrow> records_ok (purge_store column value s)"
  by (simp add: records_ok_def purge_store_def distinct_tbl_delete)

lemma find_record_purge_uri: "find_record uri (purge_store ColURI v s) = (if uri = v then None else find_record uri s)"
  by (auto simp: find_record_def purge_store_def tbl_find_None table_simps intro: tbl_find_delete)


lemma PurgeActorData_effect:
  assumes "PurgeActorData did d = (r, d')"
  shows "case r of Inl e \<Rightarrow> db_store d' = db_store d | Inr _ \<Rightarrow> db_store d' = (db_store d)\<lparr>
         st_records := filter (\<lambda>r. rr_did r \<noteq> did) (st_records (db_store d)),
         st_versions := filter (\<lambda>v. rv_did v \<noteq> did) (st_versions (db_store d)),
         st_actors := filter (\<lambda>a. ac_did a \<noteq> did) (st_actors (db_store d))\<rparr>"
proof (cases r)
  case (Inl x)
  then show ?thesis using db_tx_ErrD [OF assms [unfolded PurgeActorData_def Inl]] by simp
next
  case (Inr u)
  then show ?thesis using PurgeActorData_OkD [of did d u d'] assms by (simp add: purge_store_def tbl_delete_def)
qed

text \<open>C20: a purge leaves nothing of the account: after \<open>PurgeActorData\<close> succeeds no record, no past version and
  no actor row has the DID, and the data of every other account is exactly what it was; when it fails,
  at whatever statement, nothing at all has changed.\<close>

theorem PurgeActorData_complete:
  "case PurgeActorData did d of
     (Inl e, d') \<Rightarrow> db_store d' = db_store d
   | (Inr _, d') \<Rightarrow>
       db_store d' = (db_store d)\<lparr>
         st_records := filter (\<lambda>r. rr_did r \<noteq> did) (st_records (db_store d)),
         st_versions := filter (\<lambda>v. rv_did v \<noteq> did) (st_versions (db_store d)),
         st_actors := filter (\<lambda>a. ac_did a \<noteq> did) (st_actors (db_store d))\<rparr>"
  using PurgeActorData_effect [of did d "fst (PurgeActorData did d)" "snd (PurgeActorData did d)"]
  by (cases "PurgeActorData did d"; cases "fst (PurgeActorData did d)") simp_all

section \<open>Success without faults\<close>

lemma clean_validationUpsert: "db_json_in d (rw_json rec) \<noteq> None \<Longrightarrow> clean (validationUpsert X rec) d"
  by (auto simp: clean_def validationUpsert_def validation_upsert_row_def db_simps)

lemma clean_full_upsert: "db_json_in d (rw_json rec) \<noteq> None \<Longrightarrow> clean (full_upsert X rec) d"
  unfolding full_upsert_def by (intro clean_bind clean_wrap clean_validationUpsert) simp_all

lemma clean_repair: "clean (repairSameCIDValidation X rec) d"
  by (auto simp: clean_def repairSameCIDValidation_def Let_def db_bind_def db_wrap_def db_simps db_return_def)

lemma clean_upsert_after_read:
  assumes "db_json_in d (rw_json rec) \<noteq> None"
  shows "clean (upsert_after_read X rec ex) d"
proof -
  have "clean (db_bind (repairSameCIDValidation X rec)
      (\<lambda>repaired. if repaired then db_return Skipped else full_upsert X rec)) d"
    by (intro clean_bind clean_repair) (use assms in \<open>auto intro: clean_full_upsert\<close>)
  then show ?thesis using clean_full_upsert [OF assms] unfolding upsert_after_read_eq
    by (simp split: option.splits)
qed

lemma clean_UpsertWithValidation:
  assumes "validateRecordWrite U rec = Ok ()" "db_json_in d (rw_json rec) \<noteq> None"
  shows "clean (UpsertWithValidation U X rec) d"
proof -
  have "clean (getValidationWriteState (rw_uri rec)) d"
    unfolding getValidationWriteState_def by (rule clean_exec) simp
  then show ?thesis unfolding UpsertWithValidation_def assms(1) sum.case
    by (intro clean_bind clean_wrap) (use assms(2) in \<open>auto intro: clean_upsert_after_read\<close>)
qed

lemma clean_DeleteReturning: "clean (DeleteReturning uri) d"
  unfolding DeleteReturning_def deleteVersionHistoryTx_def
  by (intro clean_tx clean_bind clean_wrap clean_exec) simp_all

lemma clean_PurgeActorData: "clean (PurgeActorData did) d"
  unfolding PurgeActorData_def deleteVersionHistoryTx_def delete_records_def
  by (intro clean_tx clean_bind clean_wrap clean_exec) simp_all

end
