(* ===== verification/Endorsement_Query.thy ===== *)
theory Endorsement_Query
  imports Graph_Closure Records_Repo
begin

text \<open>
  The endorsement graph, \<open>internal/database/repositories/records_endorsement.go\<close>, and the adapter
  \<open>endorsementClosureAdjacency\<close> of \<open>internal/graphql/schema/endorsement_closure.go\<close>.  The SQL text of
  \<open>endorsementAdjacencyBatch\<close> is a statement over the \<open>record\<close> table; how the database parses a JSON column and
  renders a value that is not a string is the parameter \<open>sql_json\<close>, and Indigo's DID parser is the parameter \<open>P\<close>.  Batches, limits
  and truncation are the repository's.

  \<open>active_endorsement\<close> is the specification of an edge.  The locale \<open>adjacency_source\<close> of the closure is interpreted on
  \<open>AdjacentForLimit\<close> and this specification, so an untruncated closure is exactly the accounts within the distance.
\<close>

section \<open>JSON in SQL\<close>

record sql_json =
  sj_parse :: "string \<Rightarrow> json option"
  sj_text :: "json \<Rightarrow> string"

text \<open>A member of an object: \<open>jsonb\<close> keeps the last of duplicate keys, SQLite reads the first.\<close>

definition member_of :: "dialect \<Rightarrow> string \<Rightarrow> json \<Rightarrow> json option" where
  "member_of dia k j =
     (case j of JObj fs \<Rightarrow> (case dia of PostgreSQL \<Rightarrow> map_of (rev fs) k | SQLite \<Rightarrow> map_of fs k) | _ \<Rightarrow> None)"

fun path_get :: "dialect \<Rightarrow> string list \<Rightarrow> json \<Rightarrow> json option" where
  "path_get dia [] j = Some j"
| "path_get dia (k # ks) j = (case member_of dia k j of None \<Rightarrow> None | Some v \<Rightarrow> path_get dia ks v)"

text \<open>The text of an extracted value; JSON \<open>null\<close> becomes SQL \<open>NULL\<close>.\<close>

definition text_value :: "sql_json \<Rightarrow> json \<Rightarrow> string option" where
  "text_value J v = (case v of JNull \<Rightarrow> None | JStr s \<Rightarrow> Some s | _ \<Rightarrow> Some (sj_text J v))"

definition jsonTextPathExpr :: "sql_json \<Rightarrow> dialect \<Rightarrow> string \<Rightarrow> string list \<Rightarrow> string option" where
  "jsonTextPathExpr J dia col path =
     (case sj_parse J col of
        None \<Rightarrow> None
      | Some v \<Rightarrow> (case path_get dia path v of None \<Rightarrow> None | Some w \<Rightarrow> text_value J w))"

section \<open>The endorsement query\<close>

definition certifiedBadgeAwardCollection :: string where
  "certifiedBadgeAwardCollection = ''app.certified.badge.award''"
definition certifiedBadgeDefinitionCollection :: string where
  "certifiedBadgeDefinitionCollection = ''app.certified.badge.definition''"
definition certifiedBadgeResponseCollection :: string where
  "certifiedBadgeResponseCollection = ''app.certified.badge.response''"
definition certifiedEndorsementBadgeType :: string where
  "certifiedEndorsementBadgeType = ''endorsement''"

record adjacency_options =
  ao_limit :: int
  ao_any_status :: bool

text \<open>\<open>IsValidDID\<close>; Indigo's \<open>syntax.ParseDID\<close> is the parameter \<open>P\<close>, giving the method of a well-formed DID.\<close>

definition IsValidDID :: "(string \<Rightarrow> string option) \<Rightarrow> string \<Rightarrow> bool" where
  "IsValidDID P raw = (case P raw of None \<Rightarrow> False | Some m \<Rightarrow> m = ''plc'' \<or> m = ''web'')"

definition didSQLPredicate :: "string \<Rightarrow> bool" where
  "didSQLPredicate e =
     ((take 8 e = ''did:plc:'' \<or> take 8 e = ''did:web:'') \<and> length e > 8 \<and> CHR '' '' \<notin> set e)"

text \<open>SQLite's \<open>json_type\<close> is not guarded by \<open>json_valid\<close>, so a text that is not JSON fails the statement.\<close>

definition badgeAwardSubjectDIDExpr :: "sql_json \<Rightarrow> dialect \<Rightarrow> string \<Rightarrow> string option res" where
  "badgeAwardSubjectDIDExpr J dia col =
     (case sj_parse J col of
        None \<Rightarrow> (case dia of PostgreSQL \<Rightarrow> Ok None | SQLite \<Rightarrow> Err ''malformed JSON'')
      | Some v \<Rightarrow>
          Ok (case member_of dia ''subject'' v of
                Some (JObj fs) \<Rightarrow>
                  if jsonTextPathExpr J dia col [''subject'', ''$type''] = Some ''app.certified.defs#did''
                  then jsonTextPathExpr J dia col [''subject'', ''did''] else None
              | _ \<Rightarrow> None))"

text \<open>The \<open>did\<close> of one element of \<open>allowedIssuers\<close>.  SQLite's \<open>json_each\<close> yields a string element as its
  text, which \<open>json_extract\<close> then parses as JSON.\<close>

definition allowed_issuer_did :: "sql_json \<Rightarrow> dialect \<Rightarrow> json \<Rightarrow> string option res" where
  "allowed_issuer_did J dia e =
     (let did_of = (\<lambda>v. case member_of dia ''did'' v of None \<Rightarrow> None | Some w \<Rightarrow> text_value J w) in
      case dia of
        PostgreSQL \<Rightarrow> Ok (did_of e)
      | SQLite \<Rightarrow>
          (case e of
             JStr s \<Rightarrow> (case sj_parse J s of None \<Rightarrow> Err ''malformed JSON'' | Some v \<Rightarrow> Ok (did_of v))
           | _ \<Rightarrow> Ok (did_of e)))"

fun exists_issuer :: "sql_json \<Rightarrow> dialect \<Rightarrow> string \<Rightarrow> json list \<Rightarrow> bool res" where
  "exists_issuer J dia issuer [] = Ok False"
| "exists_issuer J dia issuer (e # es) =
     (case allowed_issuer_did J dia e of
        Inl x \<Rightarrow> Err x
      | Inr d \<Rightarrow> if d = Some issuer then Ok True else exists_issuer J dia issuer es)"

definition badgeDefinitionAllowsIssuerExpr :: "sql_json \<Rightarrow> dialect \<Rightarrow> string \<Rightarrow> string \<Rightarrow> bool res" where
  "badgeDefinitionAllowsIssuerExpr J dia col issuer =
     (case sj_parse J col of
        None \<Rightarrow> (case dia of PostgreSQL \<Rightarrow> Ok True | SQLite \<Rightarrow> Err ''malformed JSON'')
      | Some v \<Rightarrow>
          (case member_of dia ''allowedIssuers'' v of
             None \<Rightarrow> Ok True
           | Some (JArr es) \<Rightarrow> exists_issuer J dia issuer es
           | Some _ \<Rightarrow> Ok False))"

definition status_ok :: "adjacency_options \<Rightarrow> record_row \<Rightarrow> bool" where
  "status_ok opts r = (ao_any_status opts \<or> rr_status r = StatusValid)"

definition badge_definition :: "sql_json \<Rightarrow> dialect \<Rightarrow> adjacency_options \<Rightarrow> string \<Rightarrow> record_row \<Rightarrow> bool" where
  "badge_definition J dia opts award_json r =
     (jsonTextPathExpr J dia award_json [''badge'', ''uri''] = Some (rr_uri r)
      \<and> rr_collection r = certifiedBadgeDefinitionCollection \<and> status_ok opts r
      \<and> jsonTextPathExpr J dia (rr_json r) [''badgeType''] = Some certifiedEndorsementBadgeType)"

definition rejects :: "sql_json \<Rightarrow> dialect \<Rightarrow> adjacency_options \<Rightarrow> string \<Rightarrow> string \<Rightarrow> record_row \<Rightarrow> bool" where
  "rejects J dia opts subject award_uri r =
     (rr_collection r = certifiedBadgeResponseCollection \<and> status_ok opts r \<and> rr_did r = subject
      \<and> jsonTextPathExpr J dia (rr_json r) [''badgeAward'', ''uri''] = Some award_uri
      \<and> jsonTextPathExpr J dia (rr_json r) [''response''] = Some ''rejected'')"

fun any_allows :: "sql_json \<Rightarrow> dialect \<Rightarrow> string \<Rightarrow> record_row list \<Rightarrow> bool res" where
  "any_allows J dia issuer [] = Ok False"
| "any_allows J dia issuer (r # rs) =
     (case badgeDefinitionAllowsIssuerExpr J dia (rr_json r) issuer of
        Inl e \<Rightarrow> Err e
      | Inr True \<Rightarrow> Ok True
      | Inr False \<Rightarrow> any_allows J dia issuer rs)"

text \<open>The subject an award endorses, if the row it joins to survives the \<open>WHERE\<close> clause.\<close>

definition award_subject :: "sql_json \<Rightarrow> dialect \<Rightarrow> adjacency_options \<Rightarrow> record_row list \<Rightarrow> record_row \<Rightarrow> string option res" where
  "award_subject J dia opts rows award =
     (case badgeAwardSubjectDIDExpr J dia (rr_json award) of
        Inl e \<Rightarrow> Err e
      | Inr None \<Rightarrow> Ok None
      | Inr (Some subject) \<Rightarrow>
          if subject = [] \<or> \<not> didSQLPredicate subject \<or> rr_did award = subject
             \<or> list_ex (rejects J dia opts subject (rr_uri award)) rows
          then Ok None
          else (case any_allows J dia (rr_did award) (filter (badge_definition J dia opts (rr_json award)) rows) of
                  Inl e \<Rightarrow> Err e
                | Inr allowed \<Rightarrow> Ok (if allowed then Some subject else None)))"

fun award_pairs :: "(record_row \<Rightarrow> string option res) \<Rightarrow> record_row list \<Rightarrow> (string \<times> string) list res" where
  "award_pairs f [] = Ok []"
| "award_pairs f (a # as) =
     (case f a of
        Inl e \<Rightarrow> Err e
      | Inr subject \<Rightarrow>
          (case award_pairs f as of
             Inl e \<Rightarrow> Err e
           | Inr ps \<Rightarrow> Ok (case subject of None \<Rightarrow> ps | Some x \<Rightarrow> (rr_did a, x) # ps)))"

definition endorsement_awards :: "adjacency_options \<Rightarrow> string list \<Rightarrow> record_row list \<Rightarrow> record_row list" where
  "endorsement_awards opts issuers rows =
     filter (\<lambda>r. rr_collection r = certifiedBadgeAwardCollection \<and> rr_did r \<in> set issuers \<and> status_ok opts r) rows"

definition endorsement_query ::
  "sql_json \<Rightarrow> dialect \<Rightarrow> adjacency_options \<Rightarrow> string list \<Rightarrow> (string \<times> string) list statement" where
  "endorsement_query J dia opts issuers s =
     (case award_pairs (award_subject J dia opts (st_records s)) (endorsement_awards opts issuers (st_records s)) of
        Inl e \<Rightarrow> Err e
      | Inr ps \<Rightarrow>
          let sorted_rows = sort (remdups ps) in
          Ok (if ao_limit opts > 0 then take_int (ao_limit opts + 1) sorted_rows else sorted_rows, s))"

section \<open>Reading the rows\<close>

text \<open>The variables of the row loop: \<open>out\<close>, \<open>validRowCount\<close>, \<open>rawRowCount\<close>, \<open>truncated\<close>.\<close>

record scan_state =
  sc_out :: edge_map
  sc_valid :: int
  sc_raw :: int
  sc_trunc :: bool

definition scan_row :: "(string \<Rightarrow> bool) \<Rightarrow> int \<Rightarrow> scan_state \<Rightarrow> string \<times> string \<Rightarrow> scan_state" where
  "scan_row valid limit st row =
     (let st1 = st\<lparr>sc_raw := sc_raw st + 1\<rparr>;
          st2 = (if limit > 0 \<and> sc_raw st1 > limit then st1\<lparr>sc_trunc := True\<rparr> else st1) in
      if \<not> valid (snd row) then st2
      else
        let st3 = st2\<lparr>sc_valid := sc_valid st2 + 1\<rparr> in
        if limit > 0 \<and> sc_valid st3 > limit then st3\<lparr>sc_trunc := True\<rparr>
        else st3\<lparr>sc_out := map_put (fst row) (edges_of (sc_out st3) (fst row) @ [snd row]) (sc_out st3)\<rparr>)"

definition scan_start :: scan_state where
  "scan_start = \<lparr>sc_out = [], sc_valid = 0, sc_raw = 0, sc_trunc = False\<rparr>"

definition endorsementAdjacencyBatch ::
  "sql_json \<Rightarrow> (string \<Rightarrow> string option) \<Rightarrow> string list \<Rightarrow> adjacency_options \<Rightarrow> (edge_map \<times> bool) dbm" where
  "endorsementAdjacencyBatch J P issuers opts d =
     db_bind (db_wrap ''query Certified endorsement adjacency: '' (db_exec (endorsement_query J (db_dialect d) opts issuers)))
       (\<lambda>rows. let st = foldl (scan_row (IsValidDID P) (ao_limit opts)) scan_start rows in
          db_bind (db_wrap ''iterate Certified endorsement adjacency rows: '' db_nop)
            (\<lambda>_. db_return (sc_out st, sc_trunc st))) d"

definition add_subjects :: "edge_map \<times> int \<Rightarrow> string \<times> string list \<Rightarrow> edge_map \<times> int" where
  "add_subjects acc entry =
     (map_put (fst entry) (edges_of (fst acc) (fst entry) @ snd entry) (fst acc),
      if snd acc > 0 then snd acc - int (length (snd entry)) else snd acc)"

fun adjacency_batches ::
  "sql_json \<Rightarrow> (string \<Rightarrow> string option) \<Rightarrow> adjacency_options \<Rightarrow> string list list \<Rightarrow> edge_map \<Rightarrow> int
   \<Rightarrow> (edge_map \<times> bool) dbm" where
  "adjacency_batches J P opts [] out remaining d = (Ok (out, False), d)"
| "adjacency_batches J P opts (b # bs) out remaining d =
     (case endorsementAdjacencyBatch J P b (if remaining > 0 then opts\<lparr>ao_limit := remaining\<rparr> else opts) d of
        (Inl e, d') \<Rightarrow> (Err e, d')
      | (Inr (batch, batchTruncated), d') \<Rightarrow>
          (case foldl add_subjects (out, remaining) batch of (out', remaining') \<Rightarrow>
             if batchTruncated then (Ok (out', True), d')
             else if remaining' = 0 \<and> ao_limit opts > 0 \<and> bs \<noteq> [] then (Ok (out', True), d')
             else adjacency_batches J P opts bs out' remaining' d'))"

definition adjacency_batch_size :: "dialect \<Rightarrow> adjacency_options \<Rightarrow> string list \<Rightarrow> int res" where
  "adjacency_batch_size dia opts issuers =
     (case dia of
        PostgreSQL \<Rightarrow> Ok (int (length issuers))
      | SQLite \<Rightarrow>
          let m1 = int SQLParamBatchSize - (if ao_any_status opts then 0 else 3);
              maxBatchSize = (if ao_limit opts > 0 then m1 - 1 else m1) in
          if maxBatchSize \<le> 0 then Err ''SQLite endorsement adjacency batch size must be positive''
          else Ok (min (int (length issuers)) maxBatchSize))"

definition endorsementAdjacencyFor ::
  "sql_json \<Rightarrow> (string \<Rightarrow> string option) \<Rightarrow> string list \<Rightarrow> adjacency_options \<Rightarrow> (edge_map \<times> bool) dbm" where
  "endorsementAdjacencyFor J P issuers opts d =
     (if issuers = [] then (Ok ([], False), d)
      else (case adjacency_batch_size (db_dialect d) opts issuers of
              Inl e \<Rightarrow> (Err e, d)
            | Inr batchSize \<Rightarrow>
                adjacency_batches J P opts (chunks (nat batchSize) issuers) [] (ao_limit opts) d))"

definition EndorsementAdjacencyFor ::
  "sql_json \<Rightarrow> (string \<Rightarrow> string option) \<Rightarrow> string list \<Rightarrow> edge_map dbm" where
  "EndorsementAdjacencyFor J P issuers =
     db_bind (endorsementAdjacencyFor J P issuers \<lparr>ao_limit = 0, ao_any_status = False\<rparr>) (\<lambda>p. db_return (fst p))"

definition EndorsementAdjacencyForLimit ::
  "sql_json \<Rightarrow> (string \<Rightarrow> string option) \<Rightarrow> string list \<Rightarrow> int \<Rightarrow> (edge_map \<times> bool) dbm" where
  "EndorsementAdjacencyForLimit J P issuers limit =
     (if limit \<le> 0 then db_fail (''endorsement adjacency limit must be positive, got '' @ show_int limit)
      else endorsementAdjacencyFor J P issuers \<lparr>ao_limit = limit, ao_any_status = False\<rparr>)"

definition EndorsementAdjacencyAnyStatusForLimit ::
  "sql_json \<Rightarrow> (string \<Rightarrow> string option) \<Rightarrow> string list \<Rightarrow> int \<Rightarrow> (edge_map \<times> bool) dbm" where
  "EndorsementAdjacencyAnyStatusForLimit J P issuers limit =
     (if limit \<le> 0 then db_fail (''endorsement adjacency limit must be positive, got '' @ show_int limit)
      else endorsementAdjacencyFor J P issuers \<lparr>ao_limit = limit, ao_any_status = True\<rparr>)"

definition AdjacentForLimit ::
  "sql_json \<Rightarrow> (string \<Rightarrow> string option) \<Rightarrow> bool \<Rightarrow> string list \<Rightarrow> int \<Rightarrow> (edge_map \<times> bool) dbm" where
  "AdjacentForLimit J P requireValid sources limit =
     (if \<not> requireValid then EndorsementAdjacencyAnyStatusForLimit J P sources limit
      else EndorsementAdjacencyForLimit J P sources limit)"

section \<open>What the query selects\<close>

text \<open>The edges of the endorsement graph, as the documentation of \<open>EndorsementAdjacencyFor\<close> describes them.\<close>

definition active_endorsement ::
  "sql_json \<Rightarrow> (string \<Rightarrow> string option) \<Rightarrow> dialect \<Rightarrow> adjacency_options \<Rightarrow> record_row list \<Rightarrow> string \<Rightarrow> string \<Rightarrow> bool" where
  "active_endorsement J P dia opts rows issuer subject =
     (\<exists>award\<in>set rows. rr_collection award = certifiedBadgeAwardCollection \<and> rr_did award = issuer
        \<and> status_ok opts award \<and> badgeAwardSubjectDIDExpr J dia (rr_json award) = Ok (Some subject)
        \<and> IsValidDID P subject \<and> didSQLPredicate subject \<and> issuer \<noteq> subject
        \<and> (\<exists>definition\<in>set rows. badge_definition J dia opts (rr_json award) definition
             \<and> badgeDefinitionAllowsIssuerExpr J dia (rr_json definition) issuer = Ok True)
        \<and> \<not> (\<exists>response\<in>set rows. rejects J dia opts subject (rr_uri award) response))"

lemma any_allows_Ok:
  "any_allows J dia issuer rs = Ok b \<Longrightarrow>
   b \<longleftrightarrow> (\<exists>r\<in>set rs. badgeDefinitionAllowsIssuerExpr J dia (rr_json r) issuer = Ok True)"
  by (induction rs) (auto split: sum.splits bool.splits)

lemma award_subject_Ok:
  assumes "award_subject J dia opts rows award = Ok r"
  shows "r = Some x \<longleftrightarrow> badgeAwardSubjectDIDExpr J dia (rr_json award) = Ok (Some x) \<and> didSQLPredicate x
     \<and> rr_did award \<noteq> x
     \<and> (\<exists>definition\<in>set rows. badge_definition J dia opts (rr_json award) definition
          \<and> badgeDefinitionAllowsIssuerExpr J dia (rr_json definition) (rr_did award) = Ok True)
     \<and> \<not> (\<exists>response\<in>set rows. rejects J dia opts x (rr_uri award) response)"
proof -
  have ne: "didSQLPredicate x \<Longrightarrow> x \<noteq> []" for x by (auto simp: didSQLPredicate_def)
  show ?thesis using assms ne
    by (auto simp: award_subject_def list_ex_iff split: sum.splits option.splits if_splits dest!: any_allows_Ok)
qed

lemma award_pairs_Ok:
  assumes "award_pairs f as = Ok ps"
  shows "(\<forall>a\<in>set as. \<exists>r. f a = Ok r) \<and> ((i, x) \<in> set ps \<longleftrightarrow> (\<exists>a\<in>set as. rr_did a = i \<and> f a = Ok (Some x)))"
  using assms
proof (induction as arbitrary: ps)
  case (Cons a as)
  then obtain s ps' where "f a = Ok s" "award_pairs f as = Ok ps'" "ps = (case s of None \<Rightarrow> ps' | Some x \<Rightarrow> (rr_did a, x) # ps')"
    by (auto split: sum.splits)
  then show ?case using Cons.IH [of ps'] by (auto split: option.splits)
qed simp

lemma endorsement_query_Ok:
  assumes "endorsement_query J dia opts issuers s = Ok (rows, s')"
  obtains all_rows where "s' = s" "rows = (if ao_limit opts > 0 then take (nat (ao_limit opts + 1)) all_rows else all_rows)"
    "\<And>i x. IsValidDID P x \<Longrightarrow>
       (i, x) \<in> set all_rows \<longleftrightarrow> i \<in> set issuers \<and> active_endorsement J P dia opts (st_records s) i x"
proof -
  let ?f = "award_subject J dia opts (st_records s)" and ?as = "endorsement_awards opts issuers (st_records s)"
  obtain ps where ps: "award_pairs ?f ?as = Ok ps" "s' = s"
    "rows = (if ao_limit opts > 0 then take (nat (ao_limit opts + 1)) (sort (remdups ps)) else sort (remdups ps))"
    using assms by (auto simp: endorsement_query_def Let_def take_int_take split: sum.splits)
  have edge: "(i, x) \<in> set (sort (remdups ps)) \<longleftrightarrow> i \<in> set issuers \<and> active_endorsement J P dia opts (st_records s) i x"
    if "IsValidDID P x" for i x
  proof -
    have ok: "\<exists>r. ?f a = Ok r" if "a \<in> set ?as" for a using award_pairs_Ok [OF ps(1)] that by blast
    have "(i, x) \<in> set ps \<longleftrightarrow> (\<exists>a\<in>set ?as. rr_did a = i \<and> ?f a = Ok (Some x))"
      using award_pairs_Ok [OF ps(1)] by blast
    also have "\<dots> \<longleftrightarrow> (\<exists>a\<in>set ?as. rr_did a = i \<and> badgeAwardSubjectDIDExpr J dia (rr_json a) = Ok (Some x) \<and> didSQLPredicate x
       \<and> rr_did a \<noteq> x
       \<and> (\<exists>definition\<in>set (st_records s). badge_definition J dia opts (rr_json a) definition
            \<and> badgeDefinitionAllowsIssuerExpr J dia (rr_json definition) (rr_did a) = Ok True)
       \<and> \<not> (\<exists>response\<in>set (st_records s). rejects J dia opts x (rr_uri a) response))"
      using ok award_subject_Ok [of J dia opts "st_records s"] by (metis sum.inject(2))
    also have "\<dots> \<longleftrightarrow> i \<in> set issuers \<and> active_endorsement J P dia opts (st_records s) i x"
      using that by (auto simp: active_endorsement_def endorsement_awards_def)
    finally show ?thesis by simp
  qed
  show ?thesis by (rule that [OF ps(2,3) edge])
qed

section \<open>Scanning\<close>

lemma edges_of_put: "edges_of (map_put k v m) i = (if i = k then v else edges_of m i)"
  by (simp add: edges_of_def)

lemma edges_of_Nil [simp]: "edges_of [] i = []"
  by (simp add: edges_of_def)

lemma scan_row_effect:
  assumes "sc_valid st \<le> sc_raw st"
  shows "sc_valid (scan_row valid limit st row) \<le> sc_raw (scan_row valid limit st row)"
    "sc_raw (scan_row valid limit st row) = sc_raw st + 1"
    "sc_trunc (scan_row valid limit st row) \<longleftrightarrow> sc_trunc st \<or> (limit > 0 \<and> sc_raw st + 1 > limit)"
    "x \<in> set (edges_of (sc_out (scan_row valid limit st row)) i) \<Longrightarrow> x \<in> set (edges_of (sc_out st) i) \<or> (i, x) = row \<and> valid x"
    "\<not> sc_trunc (scan_row valid limit st row) \<Longrightarrow> x \<in> set (edges_of (sc_out st) i) \<or> (i, x) = row \<and> valid x \<Longrightarrow>
       x \<in> set (edges_of (sc_out (scan_row valid limit st row)) i)"
    "map_ok (sc_out st) \<Longrightarrow> map_ok (sc_out (scan_row valid limit st row))"
  using assms by (auto simp: scan_row_def Let_def edges_of_put split: if_splits)

lemma scan_rows:
  assumes "sc_valid st \<le> sc_raw st"
  shows "let st' = foldl (scan_row valid limit) st rows in
    (sc_trunc st' \<longleftrightarrow> sc_trunc st \<or> (rows \<noteq> [] \<and> limit > 0 \<and> sc_raw st + int (length rows) > limit))
    \<and> (\<forall>x i. x \<in> set (edges_of (sc_out st') i) \<longrightarrow> x \<in> set (edges_of (sc_out st) i) \<or> (i, x) \<in> set rows \<and> valid x)
    \<and> (\<not> sc_trunc st' \<longrightarrow> (\<forall>x i. x \<in> set (edges_of (sc_out st) i) \<or> (i, x) \<in> set rows \<and> valid x \<longrightarrow>
         x \<in> set (edges_of (sc_out st') i)))
    \<and> (map_ok (sc_out st) \<longrightarrow> map_ok (sc_out st'))"
  using assms
proof (induction rows arbitrary: st)
  case (Cons row rows)
  note e = scan_row_effect [OF Cons.prems, where valid = valid and limit = limit and row = row]
  note IH = Cons.IH [OF e(1), unfolded Let_def]
  let ?st = "scan_row valid limit st row"
  let ?st' = "foldl (scan_row valid limit) ?st rows"
  have "sc_trunc ?st' \<longleftrightarrow> sc_trunc st \<or> (limit > 0 \<and> sc_raw st + int (length (row # rows)) > limit)"
    using IH e(2,3) by (cases rows) auto
  moreover have "x \<in> set (edges_of (sc_out st) i) \<or> (i, x) \<in> set (row # rows) \<and> valid x"
    if "x \<in> set (edges_of (sc_out ?st') i)" for x i using IH e(4) that by fastforce
  moreover have "x \<in> set (edges_of (sc_out ?st') i)"
    if "\<not> sc_trunc ?st'" "x \<in> set (edges_of (sc_out st) i) \<or> (i, x) \<in> set (row # rows) \<and> valid x" for x i
    using IH e(5) that by fastforce
  moreover have "map_ok (sc_out st) \<longrightarrow> map_ok (sc_out ?st')" using IH e(6) by blast
  ultimately show ?case by (simp add: Let_def)
qed simp

lemma endorsementAdjacencyBatch_OkE:
  assumes "endorsementAdjacencyBatch J P issuers opts d = (Ok (batch, t), d')"
  obtains rows d1 where "db_exec (endorsement_query J (db_dialect d) opts issuers) d = (Ok rows, d1)"
    "batch = sc_out (foldl (scan_row (IsValidDID P) (ao_limit opts)) scan_start rows)"
    "t = sc_trunc (foldl (scan_row (IsValidDID P) (ao_limit opts)) scan_start rows)"
    "db_store d' = db_store d1" "db_dialect d' = db_dialect d1"
  using assms
  by (auto simp: endorsementAdjacencyBatch_def db_bind_Ok_iff Let_def db_return_def dest!: db_nop_OkD)

lemma endorsementAdjacencyBatch_Ok:
  assumes "endorsementAdjacencyBatch J P issuers opts d = (Ok (batch, t), d')"
  shows "db_store d' = db_store d \<and> db_dialect d' = db_dialect d \<and> map_ok batch
    \<and> (\<forall>i. \<forall>x\<in>set (edges_of batch i). active_endorsement J P (db_dialect d) opts (st_records (db_store d)) i x)
    \<and> (\<forall>i\<in>set issuers. \<forall>x. \<not> t \<longrightarrow> active_endorsement J P (db_dialect d) opts (st_records (db_store d)) i x \<longrightarrow>
         x \<in> set (edges_of batch i))"
proof -
  obtain rows d1 where q: "db_exec (endorsement_query J (db_dialect d) opts issuers) d = (Ok rows, d1)"
    and b: "batch = sc_out (foldl (scan_row (IsValidDID P) (ao_limit opts)) scan_start rows)"
      "t = sc_trunc (foldl (scan_row (IsValidDID P) (ao_limit opts)) scan_start rows)"
    and d': "db_store d' = db_store d1" "db_dialect d' = db_dialect d1"
    by (rule endorsementAdjacencyBatch_OkE [OF assms])
  note q' = db_exec_OkD [OF q]
  obtain all_rows where r: "db_store d1 = db_store d"
      "rows = (if ao_limit opts > 0 then take (nat (ao_limit opts + 1)) all_rows else all_rows)"
      "\<And>i x. IsValidDID P x \<Longrightarrow>
         (i, x) \<in> set all_rows \<longleftrightarrow> i \<in> set issuers \<and> active_endorsement J P (db_dialect d) opts (st_records (db_store d)) i x"
    by (rule endorsement_query_Ok [OF conjunct1 [OF q'], where P = P]) blast
  have sub: "set rows \<subseteq> set all_rows" using r(2) by (auto split: if_splits dest: in_set_takeD)
  have valid: "active_endorsement J P (db_dialect d) opts (st_records (db_store d)) i x \<Longrightarrow> IsValidDID P x" for i x
    by (auto simp: active_endorsement_def)
  have start: "sc_valid scan_start \<le> sc_raw scan_start" "map_ok (sc_out scan_start)" "sc_out scan_start = []"
      "sc_raw scan_start = 0" "\<not> sc_trunc scan_start"
    by (simp_all add: scan_start_def)
  note sc = scan_rows [OF start(1), of "IsValidDID P" "ao_limit opts" rows, unfolded Let_def start(3) edges_of_Nil b [symmetric]]
  have tr: "t \<longleftrightarrow> rows \<noteq> [] \<and> ao_limit opts > 0 \<and> int (length rows) > ao_limit opts" using conjunct1 [OF sc] start by simp
  have s1: "(i, x) \<in> set rows \<and> IsValidDID P x" if "x \<in> set (edges_of batch i)" for x i
    using conjunct1 [OF conjunct2 [OF sc], rule_format, OF that] by simp
  have s2: "x \<in> set (edges_of batch i)" if "\<not> t" "(i, x) \<in> set rows" "IsValidDID P x" for x i
    using conjunct1 [OF conjunct2 [OF conjunct2 [OF sc]], rule_format, OF that(1)] that(2,3) by simp
  have s3: "map_ok batch" using conjunct2 [OF conjunct2 [OF conjunct2 [OF sc]]] by simp
  have full: "rows = all_rows" if "\<not> t"
  proof (cases "ao_limit opts > 0")
    case True
    then have "int (length rows) \<le> ao_limit opts" using that tr by auto
    then have "length (take (nat (ao_limit opts + 1)) all_rows) < nat (ao_limit opts + 1)" using True r(2) by auto
    then have "length all_rows < nat (ao_limit opts + 1)" by (simp add: min_def split: if_splits)
    then show ?thesis using True r(2) by simp
  qed (use r(2) in simp)
  have "active_endorsement J P (db_dialect d) opts (st_records (db_store d)) i x"
    if "x \<in> set (edges_of batch i)" for i x
    using s1 [OF that] sub r(3) [of x i] by blast
  moreover have "x \<in> set (edges_of batch i)"
    if "\<not> t" "i \<in> set issuers" "active_endorsement J P (db_dialect d) opts (st_records (db_store d)) i x" for i x
    using s2 [OF that(1)] full [OF that(1)] r(3) [OF valid [OF that(3)]] valid [OF that(3)] that(2,3) by blast
  ultimately show ?thesis using d' q' r(1) s3 by simp
qed

lemma add_subjects_edges:
  assumes "map_ok batch"
  shows "edges_of (fst (foldl add_subjects (out, n) batch)) i = edges_of out i @ edges_of batch i"
  using assms
proof (induction batch arbitrary: out n)
  case (Cons p batch)
  have "edges_of batch (fst p) = []" and ok: "map_ok batch"
    using Cons.prems by (auto simp: map_ok_def edges_of_def map_of_eq_None_iff [THEN iffD2])
  then show ?case using Cons.IH [OF ok] by (auto simp: add_subjects_def edges_of_put) (simp_all add: edges_of_def)
qed simp

text \<open>A sound and, unless it is truncated, complete answer for a set of issuers.\<close>

definition answers :: "(string \<Rightarrow> string \<Rightarrow> bool) \<Rightarrow> string list \<Rightarrow> edge_map \<Rightarrow> bool \<Rightarrow> bool" where
  "answers edge issuers out t =
     ((\<forall>i. \<forall>x\<in>set (edges_of out i). edge i x)
      \<and> (\<not> t \<longrightarrow> (\<forall>i\<in>set issuers. \<forall>x. edge i x \<longrightarrow> x \<in> set (edges_of out i))))"

lemma active_endorsement_limit [simp]:
  "active_endorsement J P dia (opts\<lparr>ao_limit := n\<rparr>) = active_endorsement J P dia opts"
  by (simp add: active_endorsement_def fun_eq_iff status_ok_def badge_definition_def rejects_def)

lemma answers_append:
  assumes "answers edge done out False" "map_ok batch" "\<forall>i. \<forall>x\<in>set (edges_of batch i). edge i x"
    and "\<forall>i\<in>set issuers. \<forall>x. \<not> t \<longrightarrow> edge i x \<longrightarrow> x \<in> set (edges_of batch i)" "t \<longrightarrow> t'"
  shows "answers edge (done @ issuers) (fst (foldl add_subjects (out, n) batch)) t'"
  using assms by (auto simp: answers_def add_subjects_edges)

lemma answers_truncated: "answers edge done out False \<Longrightarrow> answers edge issuers out True"
  by (simp add: answers_def)

lemma adjacency_batches_answer:
  assumes "adjacency_batches J P opts bs out remaining d = (Ok (out', t), d')"
    and "answers (active_endorsement J P (db_dialect d) opts (st_records (db_store d))) done out False"
  shows "db_store d' = db_store d
    \<and> answers (active_endorsement J P (db_dialect d) opts (st_records (db_store d))) (done @ concat bs) out' t"
  using assms
proof (induction bs arbitrary: out remaining d "done")
  case (Cons b bs)
  let ?opts = "if remaining > 0 then opts\<lparr>ao_limit := remaining\<rparr> else opts"
  let ?edge = "active_endorsement J P (db_dialect d) opts (st_records (db_store d))"
  obtain batch bt d1 out1 rem1 where b: "endorsementAdjacencyBatch J P b ?opts d = (Ok (batch, bt), d1)"
    and f: "foldl add_subjects (out, remaining) batch = (out1, rem1)"
    and k: "(if bt then (Ok (out1, True), d1) else if rem1 = 0 \<and> ao_limit opts > 0 \<and> bs \<noteq> [] then (Ok (out1, True), d1)
         else adjacency_batches J P opts bs out1 rem1 d1) = (Ok (out', t), d')"
    using Cons.prems(1) by (auto split: prod.splits sum.splits)
  have e: "active_endorsement J P (db_dialect d) ?opts (st_records (db_store d)) = ?edge" by simp
  from endorsementAdjacencyBatch_Ok [OF b, unfolded e]
  have B: "db_store d1 = db_store d" "db_dialect d1 = db_dialect d" "map_ok batch" "\<forall>i. \<forall>x\<in>set (edges_of batch i). ?edge i x"
    "\<forall>i\<in>set b. \<forall>x. \<not> bt \<longrightarrow> ?edge i x \<longrightarrow> x \<in> set (edges_of batch i)" by blast+
  have a: "answers ?edge (done @ b) out1 t'" if "bt \<longrightarrow> t'" for t'
    using answers_append [OF Cons.prems(2) B(3,4,5) that, of remaining] unfolding f by simp
  show ?case
  proof (cases "bt \<or> rem1 = 0 \<and> ao_limit opts > 0 \<and> bs \<noteq> []")
    case True
    then have "out' = out1" "t" "d' = d1" using k by (auto split: if_splits)
    then show ?thesis using a [of True] B(1) by (simp add: answers_def)
  next
    case False
    then have r: "adjacency_batches J P opts bs out1 rem1 d1 = (Ok (out', t), d')" using k by (simp split: if_splits)
    have "answers ?edge (done @ b) out1 False" using a [of False] False by simp
    then show ?thesis using Cons.IH [OF r, of "done @ b"] B(1,2) by simp
  qed
qed simp

lemma adjacency_batch_size_pos:
  "adjacency_batch_size dia opts issuers = Ok n \<Longrightarrow> issuers \<noteq> [] \<Longrightarrow> 0 < n"
  by (auto simp: adjacency_batch_size_def Let_def split: dialect.splits if_splits)

lemma endorsementAdjacencyFor_answer:
  assumes "endorsementAdjacencyFor J P issuers opts d = (Ok (out, t), d')"
  shows "db_store d' = db_store d
    \<and> answers (active_endorsement J P (db_dialect d) opts (st_records (db_store d))) issuers out t"
proof (cases "issuers = []")
  case True
  then show ?thesis using assms by (auto simp: endorsementAdjacencyFor_def answers_def)
next
  case False
  then obtain n where n: "adjacency_batch_size (db_dialect d) opts issuers = Ok n"
    "adjacency_batches J P opts (chunks (nat n) issuers) [] (ao_limit opts) d = (Ok (out, t), d')"
    using assms by (auto simp: endorsementAdjacencyFor_def split: sum.splits)
  have "0 < nat n" using adjacency_batch_size_pos [OF n(1) False] by simp
  then show ?thesis using adjacency_batches_answer [OF n(2), of "[]"] by (simp add: answers_def)
qed

text \<open>The adjacency source the closure runs on: \<open>AdjacentForLimit\<close> against one state of the database, which the
  queries only read.\<close>

definition closure_source :: "sql_json \<Rightarrow> (string \<Rightarrow> string option) \<Rightarrow> bool \<Rightarrow> db \<Rightarrow> adjacency" where
  "closure_source J P requireValid d sources limit = fst (AdjacentForLimit J P requireValid sources limit d)"

definition graph_edge :: "sql_json \<Rightarrow> (string \<Rightarrow> string option) \<Rightarrow> bool \<Rightarrow> db \<Rightarrow> string \<Rightarrow> string \<Rightarrow> bool" where
  "graph_edge J P requireValid d =
     active_endorsement J P (db_dialect d) \<lparr>ao_limit = 0, ao_any_status = \<not> requireValid\<rparr> (st_records (db_store d))"

lemma AdjacentForLimit_answer:
  assumes "AdjacentForLimit J P requireValid sources limit d = (Ok (out, t), d')"
  shows "db_store d' = db_store d \<and> answers (graph_edge J P requireValid d) sources out t"
proof -
  have "endorsementAdjacencyFor J P sources \<lparr>ao_limit = limit, ao_any_status = \<not> requireValid\<rparr> d = (Ok (out, t), d')"
    using assms by (auto simp: AdjacentForLimit_def EndorsementAdjacencyForLimit_def
      EndorsementAdjacencyAnyStatusForLimit_def db_fail_def split: if_splits)
  from endorsementAdjacencyFor_answer [OF this] show ?thesis
    using active_endorsement_limit [where J = J and P = P and dia = "db_dialect d" and opts = "\<lparr>ao_limit = 0, ao_any_status = \<not> requireValid\<rparr>" and n = limit]
    by (simp add: graph_edge_def)
qed

interpretation endorsements: adjacency_source "closure_source J P requireValid d" "graph_edge J P requireValid d"
proof unfold_locales
  fix sources limit es t i s
  assume "closure_source J P requireValid d sources limit = Ok (es, t)" and s: "i \<in> set sources" "s \<in> set (edges_of es i)"
  then have "AdjacentForLimit J P requireValid sources limit d
      = (Ok (es, t), snd (AdjacentForLimit J P requireValid sources limit d))"
    by (simp add: closure_source_def prod_eq_iff)
  then show "graph_edge J P requireValid d i s"
    using AdjacentForLimit_answer s by (fastforce simp: answers_def)
next
  fix sources limit es i s
  assume "closure_source J P requireValid d sources limit = Ok (es, False)" and s: "i \<in> set sources" "graph_edge J P requireValid d i s"
  then have "AdjacentForLimit J P requireValid sources limit d
      = (Ok (es, False), snd (AdjacentForLimit J P requireValid sources limit d))"
    by (simp add: closure_source_def prod_eq_iff)
  then show "s \<in> set (edges_of es i)"
    using AdjacentForLimit_answer s by (fastforce simp: answers_def)
qed

end
