(* ===== verification/Endorsement_Closure.thy ===== *)
theory Endorsement_Closure
  imports Endorsement_Query Cursors
begin

text \<open>
  The resolver of \<open>endorsementClosure\<close>, \<open>internal/graphql/schema/endorsement_closure.go\<close>: parsing of its
  arguments, the closure over the adjacency source of \<open>Endorsement_Query\<close>, the degree filter and the cursor pages, with
  \<open>ClampPageSize\<close> of \<open>internal/graphql/query/connection.go\<close>.  The GraphQL type declarations and the hydration of profiles are
  not modelled.
\<close>

section \<open>Arguments\<close>

text \<open>A GraphQL argument as the resolver receives it.\<close>

datatype arg = ANull | ABool bool | AInt int | AStr string | AObj "(string \<times> arg) list"

record closure_where =
  cw_root :: string
  cw_min :: int
  cw_max :: int

definition where_message :: string where
  "where_message = ''endorsementClosure requires where.did.eq with a valid did:plc: or did:web: identifier''"

definition endorsementClosureDegreeValue :: "string \<Rightarrow> arg \<Rightarrow> int res" where
  "endorsementClosureDegreeValue opname raw =
     (case raw of
        AInt degree \<Rightarrow>
          if degree < 1 \<or> degree > MaxDegree then
            Err (''where.degree.'' @ opname @ '' must be between 1 and '' @ show_int MaxDegree @ '', got '' @ show_int degree)
          else Ok degree
      | _ \<Rightarrow> Err (''where.degree.'' @ opname @ '' must be an integer from 1 through '' @ show_int MaxDegree))"

definition applyEndorsementClosureDegreeFilter :: "(string \<times> arg) list \<Rightarrow> closure_where \<Rightarrow> closure_where res" where
  "applyEndorsementClosureDegreeFilter degreeFilter w =
     (case List.find (\<lambda>p. fst p \<noteq> ''eq'') degreeFilter of
        Some p \<Rightarrow> Err (''where.degree.'' @ fst p @ '' is not supported by endorsementClosure; use where.degree.eq'')
      | None \<Rightarrow>
          (case map_of degreeFilter ''eq'' of
             None \<Rightarrow> Ok w
           | Some ANull \<Rightarrow> Ok w
           | Some value \<Rightarrow>
               (case endorsementClosureDegreeValue ''eq'' value of
                  Inl e \<Rightarrow> Err e
                | Inr degree \<Rightarrow> Ok (w\<lparr>cw_min := degree, cw_max := degree\<rparr>))))"

definition parseEndorsementClosureWhere :: "unicode \<Rightarrow> (string \<Rightarrow> string option) \<Rightarrow> arg \<Rightarrow> closure_where res" where
  "parseEndorsementClosureWhere U P raw =
     (case raw of
        AObj whereMap \<Rightarrow>
          (case map_of whereMap ''did'' of
             Some (AObj didFilter) \<Rightarrow>
               if map_of didFilter ''in'' \<noteq> None then
                 Err ''endorsementClosure supports one root DID per request; use where.did.eq instead of where.did.in''
               else
                 let rootDID = (case map_of didFilter ''eq'' of Some (AStr s) \<Rightarrow> s | _ \<Rightarrow> []) in
                 if \<not> IsValidDID P rootDID then
                   Err (''where.did.eq '' @ go_quote U rootDID @ '' is not a valid DID; use a did:plc: or did:web: identifier'')
                 else
                   let w = \<lparr>cw_root = rootDID, cw_min = 1, cw_max = MaxDegree\<rparr>;
                       filtered = (case map_of whereMap ''degree'' of
                          None \<Rightarrow> Ok w
                        | Some ANull \<Rightarrow> Ok w
                        | Some (AObj degreeFilter) \<Rightarrow> applyEndorsementClosureDegreeFilter degreeFilter w
                        | Some _ \<Rightarrow> Err ''where.degree must be an object with supported operator eq'') in
                   (case filtered of
                      Inl e \<Rightarrow> Err e
                    | Inr w2 \<Rightarrow>
                        if cw_min w2 > cw_max w2 then
                          Err (''where.degree selects no valid endorsement degrees; use values from 1 through '' @ show_int MaxDegree)
                        else Ok w2)
           | _ \<Rightarrow> Err where_message)
      | _ \<Rightarrow> Err where_message)"

definition filterEndorsementClosureAccounts :: "account list \<Rightarrow> closure_where \<Rightarrow> account list" where
  "filterEndorsementClosureAccounts accounts w =
     filter (\<lambda>a. \<not> (acc_degree a < cw_min w \<or> acc_degree a > cw_max w)) accounts"

section \<open>Pages\<close>

definition DefaultPageSize :: int where "DefaultPageSize = 20"
definition MaxPageSize :: int where "MaxPageSize = 1000"

definition ClampPageSize :: "int \<Rightarrow> int" where
  "ClampPageSize first = (if first \<le> 0 then DefaultPageSize else if first > MaxPageSize then MaxPageSize else first)"

record closure_page =
  cp_accounts :: "account list"
  cp_total :: int
  cp_has_next :: bool
  cp_has_previous :: bool

text \<open>\<open>strconv.Atoi\<close>: an optional sign and decimal digits, within 64 bits.\<close>

definition digits_value :: "string \<Rightarrow> int option" where
  "digits_value s =
     (if s = [] \<or> list_ex (\<lambda>c. \<not> (48 \<le> byte c \<and> byte c \<le> 57)) s then None
      else Some (foldl (\<lambda>n c. n * 10 + int (byte c - 48)) 0 s))"

definition Atoi :: "string \<Rightarrow> int option" where
  "Atoi s =
     (let v = (case s of
          [] \<Rightarrow> None
        | c # cs \<Rightarrow> if c = CHR ''-'' then map_option uminus (digits_value cs)
                    else if c = CHR ''+'' then digits_value cs else digits_value s)
      in case v of None \<Rightarrow> None | Some n \<Rightarrow> if - (2 ^ 63) \<le> n \<and> n < 2 ^ 63 then Some n else None)"

definition encodeEndorsementClosureCursor :: "account \<Rightarrow> string" where
  "encodeEndorsementClosureCursor a = encodeCursorValues [show_int (acc_degree a), acc_did a]"

definition decodeEndorsementClosureCursor :: "(string \<Rightarrow> string option) \<Rightarrow> string \<Rightarrow> (int \<times> string) res" where
  "decodeEndorsementClosureCursor P cursor =
     (case decodeCursorValues cursor of
        Inl e \<Rightarrow> Err e
      | Inr parts \<Rightarrow>
          (case parts of
             [x, did] \<Rightarrow>
               (case Atoi x of
                  None \<Rightarrow> Err ''degree component must be an integer''
                | Some degree \<Rightarrow>
                    if degree < 1 \<or> degree > MaxDegree then
                      Err (''degree component must be between 1 and '' @ show_int MaxDegree)
                    else if \<not> IsValidDID P did then
                      Err ''DID component must be a did:plc: or did:web: identifier''
                    else Ok (degree, did))
           | _ \<Rightarrow> Err ''expected degree and DID components''))"

fun endorsementClosureStartOffset :: "account list \<Rightarrow> int \<Rightarrow> string \<Rightarrow> nat" where
  "endorsementClosureStartOffset [] cursorDegree cursorDID = 0"
| "endorsementClosureStartOffset (a # as) cursorDegree cursorDID =
     (if acc_degree a > cursorDegree \<or> (acc_degree a = cursorDegree \<and> acc_did a > cursorDID) then 0
      else Suc (endorsementClosureStartOffset as cursorDegree cursorDID))"

definition page_at :: "int \<Rightarrow> account list \<Rightarrow> nat \<Rightarrow> closure_page" where
  "page_at pageSize accounts start =
     (let e = min (start + nat pageSize) (length accounts) in
      \<lparr>cp_accounts = take (e - start) (drop start accounts), cp_total = int (length accounts),
       cp_has_next = (e < length accounts), cp_has_previous = (start > 0)\<rparr>)"

definition endorsementClosurePageForArgs ::
  "(string \<Rightarrow> string option) \<Rightarrow> account list \<Rightarrow> (string \<times> arg) list \<Rightarrow> closure_page res" where
  "endorsementClosurePageForArgs P accounts args =
     (let pageSize = ClampPageSize (case map_of args ''first'' of Some (AInt n) \<Rightarrow> n | _ \<Rightarrow> 0) in
      case map_of args ''after'' of
        Some (AStr after) \<Rightarrow>
          if after = [] then Ok (page_at pageSize accounts 0)
          else (case decodeEndorsementClosureCursor P after of
                  Inl e \<Rightarrow> Err (''invalid endorsementClosure cursor: '' @ e)
                | Inr (degree, did) \<Rightarrow> Ok (page_at pageSize accounts (endorsementClosureStartOffset accounts degree did)))
      | _ \<Rightarrow> Ok (page_at pageSize accounts 0))"

text \<open>The resolver, up to the connection built from the page: the page and whether the closure is truncated.\<close>

definition endorsementClosure ::
  "unicode \<Rightarrow> (string \<Rightarrow> string option) \<Rightarrow> sql_json \<Rightarrow> bool \<Rightarrow> db option \<Rightarrow> (string \<times> arg) list \<Rightarrow> (closure_page \<times> bool) res" where
  "endorsementClosure U P J requireValid repos args =
     (case parseEndorsementClosureWhere U P (case map_of args ''where'' of None \<Rightarrow> ANull | Some v \<Rightarrow> v) of
        Inl e \<Rightarrow> Err e
      | Inr w \<Rightarrow>
          (case repos of
             None \<Rightarrow> Err ''endorsement closure cannot run because record repositories are unavailable; retry after the request context is initialised''
           | Some d \<Rightarrow>
               (case Compute (Some (closure_source J P requireValid d)) (cw_root w) (cw_max w) DefaultClosureCap of
                  Inl e \<Rightarrow> Err (''compute endorsement closure: '' @ e)
                | Inr result \<Rightarrow>
                    (case endorsementClosurePageForArgs P (filterEndorsementClosureAccounts (cr_accounts result) w) args of
                       Inl e \<Rightarrow> Err e
                     | Inr page \<Rightarrow> Ok (page, cr_truncated result)))))"


section \<open>Facts\<close>

lemma digits_value_show: "digits_value (show_nat n) = Some (int n)"
proof -
  have "list_all (\<lambda>c. 48 \<le> byte c \<and> byte c \<le> 57) (show_nat n)
      \<and> foldl (\<lambda>n c. n * 10 + int (byte c - 48)) 0 (show_nat n) = int n"
  proof (induction n rule: show_nat.induct)
    case (1 n)
    show ?case
    proof (cases "n < 10")
      case True
      then show ?thesis by (simp add: show_nat.simps [of n])
    next
      case False
      have d: "48 + n mod 10 < 256" by (simp add: less_trans [of _ 58])
      have "n mod 10 \<le> 9" by (simp add: less_Suc_eq_le [symmetric])
      moreover have "int (n div 10) * 10 + int (n mod 10) = int n" by (metis div_mult_mod_eq of_nat_add of_nat_mult of_nat_numeral)
      ultimately show ?thesis using "1.IH" [OF False] False d by (simp add: show_nat.simps [of n])
    qed
  qed
  then show ?thesis by (auto simp: digits_value_def list_all_iff list_ex_iff)
qed

lemma Atoi_show: "0 \<le> n \<Longrightarrow> n < 2 ^ 63 \<Longrightarrow> Atoi (show_int n) = Some n"
proof -
  assume n: "0 \<le> n" "n < 2 ^ 63"
  obtain c cs where s: "show_nat (nat n) = c # cs" by (metis show_nat_nonempty neq_Nil_conv)
  have "48 \<le> byte c" using digits_value_show [of "nat n"] s by (auto simp: digits_value_def split: if_splits)
  then have "c \<noteq> CHR ''-''" "c \<noteq> CHR ''+''" by auto
  then show ?thesis using n digits_value_show [of "nat n"] s by (simp add: Atoi_def show_int_def)
qed

lemma ascii_show_nat: "ascii (show_nat n)"
  by (induction n rule: show_nat.induct) (subst show_nat.simps, auto)

abbreviation account_key :: "account \<Rightarrow> int \<times> string" where
  "account_key a \<equiv> (acc_degree a, acc_did a)"

lemma start_offset:
  assumes "sorted_wrt (<) (map account_key as)" "i < length as"
  shows "endorsementClosureStartOffset as (acc_degree (as ! i)) (acc_did (as ! i)) = Suc i"
  using assms
proof (induction as arbitrary: i)
  case (Cons a as)
  have gt: "account_key a < account_key b" if "b \<in> set as" for b using Cons.prems(1) that by auto
  show ?case
  proof (cases i)
    case 0
    have "endorsementClosureStartOffset as (acc_degree a) (acc_did a) = 0"
    proof (cases as)
      case (Cons b bs)
      then show ?thesis using gt [of b] by auto
    qed simp
    then show ?thesis using 0 by simp
  next
    case (Suc j)
    then have m: "as ! j \<in> set as" using Cons.prems(2) by simp
    have "\<not> (acc_degree a > acc_degree (as ! j) \<or> (acc_degree a = acc_degree (as ! j) \<and> acc_did a > acc_did (as ! j)))"
      using gt [OF m] by auto
    then show ?thesis using Suc Cons.IH [of j] Cons.prems by simp
  qed
qed simp

lemma sorted_distinct_keys:
  assumes "sorted (map account_key as)" "distinct (map acc_did as)"
  shows "sorted_wrt (<) (map account_key as)"
proof -
  have "distinct (map snd (map account_key as))" using assms(2) by (simp add: comp_def)
  then have "distinct (map account_key as)" by (metis distinct_map)
  then show ?thesis using assms(1) strict_sorted_iff by blast
qed

lemma page_from_cursor:
  assumes "sorted (map account_key as)" "distinct (map acc_did as)" "i < length as"
    and "1 \<le> acc_degree (as ! i)" "acc_degree (as ! i) \<le> MaxDegree" "IsValidDID P (acc_did (as ! i))" "ascii (acc_did (as ! i))"
  shows "endorsementClosurePageForArgs P as [(''first'', AInt n), (''after'', AStr (encodeEndorsementClosureCursor (as ! i)))]
    = Ok \<lparr>cp_accounts = take (nat (ClampPageSize n)) (drop (Suc i) as), cp_total = int (length as),
          cp_has_next = (Suc i + nat (ClampPageSize n) < length as), cp_has_previous = True\<rparr>"
proof -
  let ?a = "as ! i"
  have a: "Atoi (show_int (acc_degree ?a)) = Some (acc_degree ?a)"
    using assms(4,5) by (intro Atoi_show) (simp_all add: MaxDegree_def)
  have "ascii (show_int (acc_degree ?a))" using assms(4) ascii_show_nat by (simp add: show_int_def)
  then have dv: "decodeCursorValues (encodeEndorsementClosureCursor ?a) = Ok [show_int (acc_degree ?a), acc_did ?a]"
    using assms(7) by (simp add: encodeEndorsementClosureCursor_def cursor_values_roundtrip)
  then have d: "decodeEndorsementClosureCursor P (encodeEndorsementClosureCursor ?a) = Ok (acc_degree ?a, acc_did ?a)"
    using assms(4-6) a by (simp add: decodeEndorsementClosureCursor_def)
  have ne: "encodeEndorsementClosureCursor ?a \<noteq> []"
  proof
    assume "encodeEndorsementClosureCursor ?a = []"
    then have "decodeCursorValues [] = Ok [show_int (acc_degree ?a), acc_did ?a]" using dv by simp
    moreover have "decodeCursorValues [] = Err ''invalid cursor format''" by code_simp
    ultimately show False by simp
  qed
  have "take (min (Suc i + k) (length as) - Suc i) (drop (Suc i) as) = take k (drop (Suc i) as)" for k
    using assms(3) by (auto simp: min_def)
  then show ?thesis
    using d ne start_offset [OF sorted_distinct_keys [OF assms(1,2)] assms(3)]
    by (simp add: endorsementClosurePageForArgs_def page_at_def Let_def min_less_iff_disj)
qed

lemma parse_where_bounds:
  assumes "parseEndorsementClosureWhere U P raw = Ok w"
  shows "1 \<le> cw_min w \<and> cw_min w \<le> cw_max w \<and> cw_max w \<le> MaxDegree \<and> IsValidDID P (cw_root w)"
proof -
  have "1 \<le> cw_min w' \<and> cw_max w' \<le> MaxDegree \<and> cw_root w' = r"
    if "applyEndorsementClosureDegreeFilter f \<lparr>cw_root = r, cw_min = 1, cw_max = MaxDegree\<rparr> = Ok w'" for f r w'
    using that by (auto simp: applyEndorsementClosureDegreeFilter_def endorsementClosureDegreeValue_def
      split: option.splits arg.splits sum.splits if_splits)
  then show ?thesis using assms
    by (auto simp: parseEndorsementClosureWhere_def Let_def MaxDegree_def split: arg.splits option.splits if_splits sum.splits)
qed

lemma page_accounts:
  assumes "endorsementClosurePageForArgs P as args = Ok page"
  shows "set (cp_accounts page) \<subseteq> set as \<and> length (cp_accounts page) \<le> 1000 \<and> cp_total page = int (length as)"
proof -
  obtain k start where p: "page = page_at (ClampPageSize k) as start"
    using assms by (auto simp: endorsementClosurePageForArgs_def Let_def split: option.splits arg.splits if_splits sum.splits)
  have "nat (ClampPageSize k) \<le> 1000" by (auto simp: ClampPageSize_def DefaultPageSize_def MaxPageSize_def)
  moreover have "length (take (min (start + n) (length as) - start) (drop start as)) \<le> n" for n by simp
  moreover have "set (take n (drop start as)) \<subseteq> set as" for n by (meson order_trans set_drop_subset set_take_subset)
  ultimately show ?thesis unfolding p page_at_def Let_def by (auto intro: le_trans)
qed

lemma filtered_accounts_card:
  assumes "Compute adjacency root m cap = Ok r"
  shows "length (filterEndorsementClosureAccounts (cr_accounts r) w) =
    card (acc_did ` set (filterEndorsementClosureAccounts (cr_accounts r) w))"
proof -
  have "distinct (map acc_did (cr_accounts r))" using Compute_bounds_all [OF assms] by blast
  then have "distinct (map acc_did (filterEndorsementClosureAccounts (cr_accounts r) w))"
    unfolding filterEndorsementClosureAccounts_def by (rule distinct_map_filter)
  then show ?thesis by (metis distinct_card length_map list.set_map)
qed

text \<open>C31: an untruncated endorsement closure is exact.  When the resolver answers without the truncated flag, its total count is the number of
  accounts whose distance from the root in the graph of active endorsements lies in the requested range, every account of the page is at
  the distance its degree says, and the page holds at most 1000 accounts.  An edge of the graph is an award for a badge of type endorsement that the
  issuer may give, to a valid DID other than the issuer, not rejected by its subject, all of these records being valid when the
  validation gate is on.\<close>

theorem endorsement_closure_exact:
  assumes "parseEndorsementClosureWhere U P (case map_of args ''where'' of None \<Rightarrow> ANull | Some v \<Rightarrow> v) = Ok w"
    and "endorsementClosure U P J requireValid (Some d) args = Ok (page, False)"
  shows "cp_total page = int (card {y. \<exists>k. cw_min w \<le> int k \<and> int k \<le> cw_max w
       \<and> at_distance (graph_edge J P requireValid d) (cw_root w) k y})
    \<and> (\<forall>a\<in>set (cp_accounts page). cw_min w \<le> acc_degree a \<and> acc_degree a \<le> cw_max w
         \<and> at_distance (graph_edge J P requireValid d) (cw_root w) (nat (acc_degree a)) (acc_did a))
    \<and> length (cp_accounts page) \<le> 1000"
proof -
  let ?edge = "graph_edge J P requireValid d"
  obtain r where c: "Compute (Some (closure_source J P requireValid d)) (cw_root w) (cw_max w) DefaultClosureCap = Ok r"
    and nt: "\<not> cr_truncated r"
    and p: "endorsementClosurePageForArgs P (filterEndorsementClosureAccounts (cr_accounts r) w) args = Ok page"
    using assms by (auto simp: endorsementClosure_def split: sum.splits)
  let ?as = "filterEndorsementClosureAccounts (cr_accounts r) w"
  have b: "1 \<le> cw_min w" using parse_where_bounds [OF assms(1)] by blast
  have deg: "1 \<le> acc_degree a" if "a \<in> set (cr_accounts r)" for a using Compute_bounds_all [OF c] that by blast
  note exact = endorsements.Compute_exact_in [OF c nt]
  have in_as: "(\<exists>a\<in>set ?as. acc_did a = y \<and> acc_degree a = int k) \<longleftrightarrow> cw_min w \<le> int k \<and> int k \<le> cw_max w \<and> at_distance ?edge (cw_root w) k y" for y k
    using exact [of y k] b by (auto simp: filterEndorsementClosureAccounts_def)
  have acc: "at_distance ?edge (cw_root w) (nat (acc_degree a)) (acc_did a) \<and> cw_min w \<le> acc_degree a \<and> acc_degree a \<le> cw_max w"
    if "a \<in> set ?as" for a
  proof -
    have "1 \<le> acc_degree a" using that deg by (simp add: filterEndorsementClosureAccounts_def)
    then have "acc_degree a = int (nat (acc_degree a))" by simp
    then show ?thesis using in_as [of "acc_did a" "nat (acc_degree a)"] that by metis
  qed
  have "acc_did ` set ?as = {y. \<exists>k. cw_min w \<le> int k \<and> int k \<le> cw_max w \<and> at_distance ?edge (cw_root w) k y}" (is "_ = ?Y")
  proof
    show "acc_did ` set ?as \<subseteq> ?Y"
    proof
      fix y assume "y \<in> acc_did ` set ?as"
      then obtain a where "a \<in> set ?as" "y = acc_did a" by blast
      moreover have "int (nat (acc_degree a)) = acc_degree a" using calculation deg [of a] by (simp add: filterEndorsementClosureAccounts_def)
      ultimately show "y \<in> ?Y" using acc [of a] by (metis (mono_tags, lifting) mem_Collect_eq)
    qed
    show "?Y \<subseteq> acc_did ` set ?as"
    proof
      fix y assume "y \<in> ?Y"
      then obtain a where "a \<in> set ?as" "acc_did a = y" using in_as [of y] by auto
      then show "y \<in> acc_did ` set ?as" by blast
    qed
  qed
  then show ?thesis using page_accounts [OF p] acc filtered_accounts_card [OF c, of w] by auto
qed

text \<open>paging through a closure loses and repeats nothing.  If DIDs are ASCII, the cursor of the \<open>i\<close>-th account of a filtered
  closure brings back the accounts right after it, in order, up to the page size, with the right page flags and the same total.\<close>

theorem endorsement_closure_next_page:
  assumes "Compute (Some (closure_source J P requireValid d)) root maxDegree cap = Ok r"
    and "as = filterEndorsementClosureAccounts (cr_accounts r) w" "i < length as"
    and "\<forall>x m. P x = Some m \<longrightarrow> ascii x"
  shows "endorsementClosurePageForArgs P as [(''first'', AInt n), (''after'', AStr (encodeEndorsementClosureCursor (as ! i)))]
    = Ok \<lparr>cp_accounts = take (nat (ClampPageSize n)) (drop (Suc i) as), cp_total = int (length as),
          cp_has_next = (Suc i + nat (ClampPageSize n) < length as), cp_has_previous = True\<rparr>"
proof -
  note b = Compute_bounds_all [OF assms(1)]
  have md: "maxDegree \<le> MaxDegree" using assms(1) by (auto elim: Compute_OkE)
  have "distinct (map acc_did as)" using b assms(2) by (auto simp: filterEndorsementClosureAccounts_def intro: distinct_map_filter)
  moreover have "sorted (map account_key as)"
    using b assms(2) by (auto simp: filterEndorsementClosureAccounts_def intro!: sorted_filter)
  moreover have m: "as ! i \<in> set (cr_accounts r)"
    using assms(2,3) nth_mem by (fastforce simp: filterEndorsementClosureAccounts_def)
  moreover have "IsValidDID P (acc_did (as ! i))"
    using endorsements.Compute_targets [OF assms(1) m] by (auto simp: graph_edge_def active_endorsement_def)
  moreover have "ascii (acc_did (as ! i))"
    using calculation(4) assms(4) by (auto simp: IsValidDID_def split: option.splits)
  moreover have "1 \<le> acc_degree (as ! i)" "acc_degree (as ! i) \<le> MaxDegree" using b m md by force+
  ultimately show ?thesis using page_from_cursor [OF _ _ assms(3)] by blast
qed

section \<open>Witnesses\<close>

text \<open>One award of an endorsement badge from \<open>did:plc:a\<close> to \<open>did:plc:b\<close>.\<close>

definition sample_sql_json :: sql_json where
  "sample_sql_json = \<lparr>sj_parse = map_of
     [(''award'', JObj [(''subject'', JObj [(''$type'', JStr ''app.certified.defs#did''), (''did'', JStr ''did:plc:b'')]),
                        (''badge'', JObj [(''uri'', JStr ''at://def'')])]),
      (''def'', JObj [(''badgeType'', JStr ''endorsement'')])], sj_text = (\<lambda>_. [])\<rparr>"

definition sample_did :: "string \<Rightarrow> string option" where
  "sample_did x = (if x \<in> {''did:plc:a'', ''did:plc:b''} then Some ''plc'' else None)"

definition sample_endorsements :: db where
  "sample_endorsements = sqlite_db (empty_store\<lparr>st_records :=
     [sample_row\<lparr>rr_uri := ''at://award'', rr_did := ''did:plc:a'', rr_collection := ''app.certified.badge.award'', rr_json := ''award''\<rparr>,
      sample_row\<lparr>rr_uri := ''at://def'', rr_collection := ''app.certified.badge.definition'', rr_json := ''def''\<rparr>]\<rparr>) 5"

definition sample_where :: "(string \<times> arg) list" where
  "sample_where = [(''where'', AObj [(''did'', AObj [(''eq'', AStr ''did:plc:a'')])])]"

abbreviation sample_closure :: "(closure_page \<times> bool) res" where
  "sample_closure \<equiv> endorsementClosure ascii_unicode sample_did sample_sql_json True (Some sample_endorsements) sample_where"

lemma sample_closure_ok:
  "is_ok sample_closure" "\<not> snd (projr sample_closure)" "map acc_did (cp_accounts (fst (projr sample_closure))) = [''did:plc:b'']"
  "cp_total (fst (projr sample_closure)) = 1"
  by code_simp+

theorem endorsement_closure_exact_witness:
  "card {y. \<exists>k. 1 \<le> int k \<and> int k \<le> 3
     \<and> at_distance (graph_edge sample_sql_json sample_did True sample_endorsements) ''did:plc:a'' k y} = 1"
proof -
  obtain page where p: "sample_closure = Ok (page, False)" "cp_total page = 1"
    using sample_closure_ok by (cases sample_closure) (auto simp: is_ok_def)
  have w: "parseEndorsementClosureWhere ascii_unicode sample_did (case map_of sample_where ''where'' of None \<Rightarrow> ANull | Some v \<Rightarrow> v)
     = Ok \<lparr>cw_root = ''did:plc:a'', cw_min = 1, cw_max = 3\<rparr>" by code_simp
  show ?thesis using endorsement_closure_exact [OF w p(1)] p(2) by simp
qed

theorem endorsement_closure_next_page_witness:
  "let as = filterEndorsementClosureAccounts (cr_accounts (projr (Compute (Some
         (closure_source sample_sql_json sample_did True sample_endorsements)) ''did:plc:a'' 3 3000)))
         \<lparr>cw_root = ''did:plc:a'', cw_min = 1, cw_max = 3\<rparr>
   in endorsementClosurePageForArgs sample_did as [(''first'', AInt 5), (''after'', AStr (encodeEndorsementClosureCursor (as ! 0)))]
    = Ok \<lparr>cp_accounts = [], cp_total = 1, cp_has_next = False, cp_has_previous = True\<rparr>"
proof -
  define c where "c = Compute (Some (closure_source sample_sql_json sample_did True sample_endorsements)) ''did:plc:a'' 3 3000"
  define as where "as = filterEndorsementClosureAccounts (cr_accounts (projr c)) \<lparr>cw_root = ''did:plc:a'', cw_min = 1, cw_max = 3\<rparr>"
  have k: "is_ok c" unfolding c_def by code_simp
  then have ok: "Compute (Some (closure_source sample_sql_json sample_did True sample_endorsements)) ''did:plc:a'' 3 3000 = Ok (projr c)"
    unfolding c_def by (auto simp: is_ok_def split: sum.splits)
  have l: "length as = 1" unfolding as_def c_def by code_simp
  have p: "\<forall>x m. sample_did x = Some m \<longrightarrow> ascii x" by (auto simp: sample_did_def ascii_def split: if_splits)
  have n: "nat (ClampPageSize 5) = 5" by code_simp
  have "0 < length as" using l by simp
  from endorsement_closure_next_page [OF ok as_def this p, of 5] show ?thesis
    unfolding Let_def as_def [unfolded c_def, symmetric] by (simp add: l n)
qed

end
