(* ===== verification/Writer_Interleaving.thy ===== *)
theory Writer_Interleaving
  imports Records_Repo
begin

text \<open>
  Concurrent calls of \<open>RecordsRepository.UpsertWithValidation\<close> (Tap ingestion, backfill and manual
  reindexing run beside each other) with deletes and purges in between, at the granularity of SQL
  statements.  A call that has read the existing row is a pending \<open>phase\<close>; its later statements run
  against whatever the table holds by then.  The invariant is that no interleaving separates content
  from its classification.
\<close>

section \<open>Definitions\<close>

datatype phase = AfterRead "existing_state option" | AfterRepair

text \<open>One further statement of a pending call; \<open>Inl None\<close> is a call that returned an error,
  \<open>Inl (Some r)\<close> one that returned \<open>r\<close>.\<close>

definition full_stmt :: "decoders \<Rightarrow> record_write \<Rightarrow> db \<Rightarrow> (insert_result option + phase) \<times> db" where
  "full_stmt X rec d =
     (case full_upsert X rec d of (Inl e, d') \<Rightarrow> (Inl None, d') | (Inr r, d') \<Rightarrow> (Inl (Some r), d'))"

fun write_stmt :: "decoders \<Rightarrow> record_write \<Rightarrow> phase \<Rightarrow> db \<Rightarrow> (insert_result option + phase) \<times> db" where
  "write_stmt X rec (AfterRead existing) d =
     (case existing of
        Some ex \<Rightarrow>
          if rw_cid rec \<noteq> [] \<and> ex_cid ex = rw_cid rec then
            if metadata_current X rec ex then (Inl (Some Skipped), d)
            else (case repairSameCIDValidation X rec d of
                    (Inl e, d') \<Rightarrow> (Inl None, d')
                  | (Inr repaired, d') \<Rightarrow>
                      if repaired then (Inl (Some Skipped), d') else (Inr AfterRepair, d'))
          else full_stmt X rec d
      | None \<Rightarrow> full_stmt X rec d)"
| "write_stmt X rec AfterRepair d = full_stmt X rec d"

record writers =
  ws_db :: db
  ws_pending :: "(record_write \<times> phase) list"

inductive writer_step :: "unicode \<Rightarrow> decoders \<Rightarrow> record_write set \<Rightarrow> writers \<Rightarrow> writers \<Rightarrow> bool"
  for U X W where
  Read: "rec \<in> W \<Longrightarrow> validateRecordWrite U rec = Ok () \<Longrightarrow>
    getValidationWriteState (rw_uri rec) (ws_db s) = (Ok ex, d') \<Longrightarrow>
    writer_step U X W s \<lparr>ws_db = d', ws_pending = (rec, AfterRead ex) # ws_pending s\<rparr>"
| Continue: "(rec, ph) \<in> set (ws_pending s) \<Longrightarrow> write_stmt X rec ph (ws_db s) = (Inr ph', d') \<Longrightarrow>
    writer_step U X W s \<lparr>ws_db = d', ws_pending = (rec, ph') # remove1 (rec, ph) (ws_pending s)\<rparr>"
| Finish: "(rec, ph) \<in> set (ws_pending s) \<Longrightarrow> write_stmt X rec ph (ws_db s) = (Inl r, d') \<Longrightarrow>
    writer_step U X W s \<lparr>ws_db = d', ws_pending = remove1 (rec, ph) (ws_pending s)\<rparr>"
| Remove: "DeleteReturning uri (ws_db s) = (r, d') \<Longrightarrow> writer_step U X W s (s\<lparr>ws_db := d'\<rparr>)"
| Purge: "PurgeActorData did (ws_db s) = (r', d') \<Longrightarrow> writer_step U X W s (s\<lparr>ws_db := d'\<rparr>)"
| Environment: "d' = (ws_db s)\<lparr>db_now := t, db_faults := fs\<rparr> \<Longrightarrow> writer_step U X W s (s\<lparr>ws_db := d'\<rparr>)"

inductive_cases writer_stepE: "writer_step U X W s s'"

definition writers_reach :: "unicode \<Rightarrow> decoders \<Rightarrow> record_write set \<Rightarrow> writers \<Rightarrow> writers \<Rightarrow> bool" where
  "writers_reach U X W = (writer_step U X W)\<^sup>*\<^sup>*"

text \<open>A row that says of its content what the write \<open>rec\<close> said of it.\<close>

definition describes :: "(string \<Rightarrow> string option) \<Rightarrow> record_write \<Rightarrow> record_row \<Rightarrow> bool" where
  "describes jin rec r =
     (rr_uri r = rw_uri rec \<and> rr_cid r = rw_cid rec \<and> row_content jin rec r \<and> rr_status r = rw_status rec
      \<and> null_string (rr_verror r) = rw_verror rec \<and> null_string (rr_lexhash r) = rw_lexhash rec)"

text \<open>CIDs are content identifiers: two writes of one URI with the same CID carry the same record.\<close>

definition content_addressed :: "record_write set \<Rightarrow> bool" where
  "content_addressed W =
     (\<forall>a\<in>W. \<forall>b\<in>W. rw_uri a = rw_uri b \<and> rw_cid a = rw_cid b \<and> rw_cid a \<noteq> [] \<longrightarrow>
        rw_did a = rw_did b \<and> rw_collection a = rw_collection b \<and> rw_json a = rw_json b)"

definition writers_inv :: "record_write set \<Rightarrow> writers \<Rightarrow> bool" where
  "writers_inv W s =
     (records_ok (db_store (ws_db s)) \<and> fst ` set (ws_pending s) \<subseteq> W
      \<and> (\<forall>r\<in>set (st_records (db_store (ws_db s))). \<exists>rec\<in>W. describes (db_json_in (ws_db s)) rec r))"

section \<open>A call that is not interrupted\<close>

lemma write_stmt_upsert_after_read:
  "upsert_after_read X rec existing d =
    (case write_stmt X rec (AfterRead existing) d of
       (Inr ph, d') \<Rightarrow> full_upsert X rec d'
     | (Inl (Some r), d') \<Rightarrow> (Ok r, d')
     | (Inl None, d') \<Rightarrow> (fst (upsert_after_read X rec existing d), d'))"
  by (auto simp: upsert_after_read_eq full_stmt_def db_bind_def db_return_def split: option.splits sum.splits prod.splits)

section \<open>No interleaving separates content from classification\<close>

lemma write_stmt_effect:
  assumes "write_stmt X rec ph d = (r, d')" "records_ok (db_store d)"
  shows "same_env d d' \<and> write_effect X d rec (db_store d) (db_store d')"
proof -
  have full: "same_env d d' \<and> write_effect X d rec (db_store d) (db_store d')"
    if "full_stmt X rec d = (r, d')"
  proof -
    obtain r1 d1 where f: "full_upsert X rec d = (r1, d1)" by (cases "full_upsert X rec d")
    then have "d1 = d'" using that by (cases r1) (auto simp: full_stmt_def)
    with f have "full_upsert X rec d = (r1, d')" by simp
    then show ?thesis by (cases rule: full_upsert_cases) (auto simp: write_effect_def)
  qed
  show ?thesis
  proof (cases ph)
    case (AfterRead existing)
    show ?thesis
    proof (cases "\<exists>ex. existing = Some ex \<and> rw_cid rec \<noteq> [] \<and> ex_cid ex = rw_cid rec")
      case False
      then show ?thesis using AfterRead assms full by (auto split: option.splits if_splits)
    next
      case True
      then obtain ex where ex: "existing = Some ex" "rw_cid rec \<noteq> []" "ex_cid ex = rw_cid rec" by blast
      show ?thesis
      proof (cases "metadata_current X rec ex")
        case True
        then show ?thesis using AfterRead assms ex by (auto simp: write_effect_def)
      next
        case False
        obtain r1 d1 where f: "repairSameCIDValidation X rec d = (r1, d1)"
          by (cases "repairSameCIDValidation X rec d")
        then have "d1 = d'" using False AfterRead assms ex by (cases r1) (auto split: if_splits)
        with f have "repairSameCIDValidation X rec d = (r1, d')" by simp
        then show ?thesis using ex
          by (cases rule: repairSameCIDValidation_cases) (auto simp: write_effect_def)
      qed
    qed
  qed (use assms full in simp)
qed

lemma describes_write [simp]: "jin (rw_json rec) = Some j \<Longrightarrow> describes jin rec (write_row X now j rec)"
  by (simp add: describes_def write_row_def row_content_def)

lemma describes_merge [simp]:
  "jin (rw_json rec) = Some j \<Longrightarrow> rr_uri old = rw_uri rec \<Longrightarrow>
    describes jin rec (validation_merge now old (write_row X now j rec))"
  by (simp add: describes_def write_row_def row_content_def validation_merge_def)

lemma describes_repair:
  assumes "describes jin a r" "a \<in> W" "rec \<in> W" "content_addressed W" "rw_cid rec \<noteq> []" "repair_pred rec r"
  shows "describes jin rec (repair_row X now rec r)"
proof -
  have "rw_uri a = rw_uri rec" "rw_cid a = rw_cid rec" using assms(1,6) by (simp_all add: describes_def repair_pred_def)
  then have "rw_did a = rw_did rec" "rw_collection a = rw_collection rec" "rw_json a = rw_json rec"
    using assms(2-5) unfolding content_addressed_def by metis+
  then show ?thesis using assms by (simp add: describes_def repair_pred_def repair_row_def row_content_def)
qed

lemma write_effect_describes:
  assumes "write_effect X d rec s s'" "rec \<in> W" "content_addressed W"
    "\<forall>r\<in>set (st_records s). \<exists>a\<in>W. describes (db_json_in d) a r" "r \<in> set (st_records s')"
  shows "\<exists>a\<in>W. describes (db_json_in d) a r"
  using assms(1) unfolding write_effect_def
proof (elim disjE exE conjE)
  assume "s' = s"
  then show ?thesis using assms by blast
next
  assume c: "rw_cid rec \<noteq> []" and "s' = repair_effect X (db_now d) rec s"
  then consider "r \<in> set (st_records s)" | r0 where "r0 \<in> set (st_records s)" "repair_pred rec r0" "r = repair_row X (db_now d) rec r0"
    using assms(5) by (auto simp: repair_effect_def table_simps)
  then show ?thesis
  proof cases
    case 1
    then show ?thesis using assms(4) by blast
  next
    case 2
    then obtain a where "a \<in> W" "describes (db_json_in d) a r0" using assms(4) by blast
    then have "describes (db_json_in d) rec r" using describes_repair [of _ a r0 W rec] assms(2,3) c 2 by simp
    then show ?thesis using assms(2) by blast
  qed
next
  fix j assume j: "db_json_in d (rw_json rec) = Some j" "s' = upsert_effect X (db_now d) j rec s"
  then consider "r \<in> set (st_records s)" | "r = write_row X (db_now d) j rec"
    | r0 where "rr_uri r0 = rw_uri rec" "r = validation_merge (db_now d) r0 (write_row X (db_now d) j rec)"
    using assms(5) by (auto simp: upsert_effect_def tbl_upsert_def table_simps split: if_splits)
  then have "r \<in> set (st_records s) \<or> describes (db_json_in d) rec r" using j(1) by cases simp_all
  then show ?thesis using assms(2,4) by blast
qed

lemma writers_inv_store:
  assumes "writers_inv W s" "records_ok (db_store d')" "db_json_in d' = db_json_in (ws_db s)"
    "set (st_records (db_store d')) \<subseteq> set (st_records (db_store (ws_db s)))"
  shows "writers_inv W (s\<lparr>ws_db := d'\<rparr>)"
  using assms by (auto simp: writers_inv_def)

lemma writers_inv_stmt:
  assumes "writers_inv W s" "content_addressed W" "(rec, ph) \<in> set (ws_pending s)"
    "write_stmt X rec ph (ws_db s) = (r, d')" "fst ` set p \<subseteq> W"
  shows "writers_inv W \<lparr>ws_db = d', ws_pending = p\<rparr>"
proof -
  have ok: "records_ok (db_store (ws_db s))" and rec: "rec \<in> W" using assms(1,3) by (auto simp: writers_inv_def)
  have eff: "same_env (ws_db s) d'" "write_effect X (ws_db s) rec (db_store (ws_db s)) (db_store d')"
    using write_stmt_effect [OF assms(4) ok] by auto
  have "\<exists>a\<in>W. describes (db_json_in (ws_db s)) a x" if "x \<in> set (st_records (db_store d'))" for x
    using write_effect_describes [OF eff(2) rec assms(2) _ that] assms(1) by (simp add: writers_inv_def)
  then show ?thesis
    using eff(1) assms(5) records_ok_write_effect [OF eff(2) ok] by (simp add: writers_inv_def same_env_def)
qed

lemma writers_inv_step:
  assumes "writer_step U X W s s'" "writers_inv W s" "content_addressed W"
  shows "writers_inv W s'"
  using assms(1)
proof (cases rule: writer_step.cases)
  case (Read rec ex d')
  then show ?thesis using assms(2) getValidationWriteState_OkD [OF Read(4)]
    by (simp add: writers_inv_def same_env_def)
next
  case (Continue rec ph ph' d')
  have "fst ` set ((rec, ph') # remove1 (rec, ph) (ws_pending s)) \<subseteq> W"
    using assms(2) Continue(2) set_remove1_subset [of "(rec, ph)" "ws_pending s"] by (auto simp: writers_inv_def)
  then show ?thesis using writers_inv_stmt [OF assms(2,3) Continue(2,3)] Continue(1) by simp
next
  case (Finish rec ph r d')
  have "fst ` set (remove1 (rec, ph) (ws_pending s)) \<subseteq> W"
    using assms(2) set_remove1_subset [of "(rec, ph)" "ws_pending s"] by (auto simp: writers_inv_def)
  then show ?thesis using writers_inv_stmt [OF assms(2,3) Finish(2,3)] Finish(1) by simp
next
  case (Remove uri r d')
  have "db_store d' = db_store (ws_db s) \<or> db_store d' = purge_store ColURI uri (db_store (ws_db s))"
    "same_env (ws_db s) d'"
    using DeleteReturning_cases [OF Remove(2)] by auto
  then show ?thesis unfolding Remove(1) using assms(2)
    by (intro writers_inv_store [OF assms(2)]) (auto simp: writers_inv_def same_env_def purge_store_def table_simps
        dest: records_ok_purge [of _ ColURI uri])
next
  case (Purge did r d')
  have "db_store d' = db_store (ws_db s) \<or> db_store d' = (purge_store ColDID did (db_store (ws_db s)))\<lparr>st_actors :=
      tbl_delete (\<lambda>a. ac_did a = did) (st_actors (db_store (ws_db s)))\<rparr>" "same_env (ws_db s) d'"
    using PurgeActorData_cases [OF Purge(2)] by auto
  then show ?thesis unfolding Purge(1) using assms(2)
    by (intro writers_inv_store [OF assms(2)]) (auto simp: writers_inv_def same_env_def purge_store_def table_simps
        records_ok_def distinct_tbl_delete)
next
  case (Environment d' t fs)
  then show ?thesis using assms(2) by (simp add: writers_inv_def)
qed

lemma writers_inv_reach:
  assumes "writers_reach U X W s s'" "writers_inv W s" "content_addressed W"
  shows "writers_inv W s'"
  using assms(1) unfolding writers_reach_def
  by (induction rule: rtranclp_induct) (use assms in \<open>auto intro: writers_inv_step\<close>)

text \<open>C5: however concurrent writes, deletes and purges interleave, and whichever statements fail, a
  row that typed GraphQL would show as valid holds content that the validator accepted: some write of that
  very content, with the row's CID, was classified \<open>valid\<close>, and the row's Lexicon hash and error are that
  classification's.\<close>

theorem interleaved_writes_classified:
  assumes "content_addressed W"
    and "\<forall>rec\<in>W. let c = ClassifyRecord V (rw_collection rec) (rw_rkey rec) (rw_json rec)
           in rw_status rec = vr_status c \<and> rw_verror rec = vr_error c \<and> rw_lexhash rec = vr_lexhash c"
    and "st_records (db_store (ws_db s)) = []" and "ws_pending s = []"
    and "writers_reach U X W s s'"
    and "r \<in> set (st_records (db_store (ws_db s')))"
  shows "\<exists>rec\<in>W. rw_uri rec = rr_uri r \<and> rw_cid rec = rr_cid r \<and> rw_collection rec = rr_collection r
     \<and> db_json_in (ws_db s') (rw_json rec) = Some (rr_json r)
     \<and> (let c = ClassifyRecord V (rw_collection rec) (rw_rkey rec) (rw_json rec)
        in rr_status r = vr_status c \<and> null_string (rr_verror r) = vr_error c
           \<and> null_string (rr_lexhash r) = vr_lexhash c)"
proof -
  have "writers_inv W s" using assms(3,4) by (simp add: writers_inv_def records_ok_def)
  then have "writers_inv W s'" using writers_inv_reach assms(1,5) by blast
  then obtain rec where "rec \<in> W" "describes (db_json_in (ws_db s')) rec r"
    using assms(6) by (auto simp: writers_inv_def)
  then show ?thesis using assms(2)
    by (intro bexI [of _ rec]) (auto simp: describes_def row_content_def Let_def)
qed

section \<open>Witness\<close>

definition sample_unclassified :: record_write where
  "sample_unclassified = (let c = ClassifyRecord None ''org.x.y'' ''1'' ''{}'' in
     sample_write\<lparr>rw_status := vr_status c, rw_verror := vr_error c, rw_lexhash := vr_lexhash c\<rparr>)"

definition sample_writers :: writers where
  "sample_writers = \<lparr>ws_db = sqlite_db empty_store 5, ws_pending = []\<rparr>"

lemma sample_writers_reach:
  obtains s' r where "writers_reach ascii_unicode no_decoders {sample_unclassified} sample_writers s'"
    "r \<in> set (st_records (db_store (ws_db s')))" "rr_uri r = rw_uri sample_write"
proof -
  define d1 where "d1 = snd (getValidationWriteState (rw_uri sample_unclassified) (sqlite_db empty_store 5))"
  define d2 where "d2 = snd (write_stmt no_decoders sample_unclassified (AfterRead None) d1)"
  define s1 where "s1 = \<lparr>ws_db = d1, ws_pending = [(sample_unclassified, AfterRead None)]\<rparr>"
  define s2 where "s2 = \<lparr>ws_db = d2, ws_pending = []\<rparr>"
  have v: "validateRecordWrite ascii_unicode sample_unclassified = Ok ()" by code_simp
  have "fst (getValidationWriteState (rw_uri sample_unclassified) (sqlite_db empty_store 5)) = Ok None" by code_simp
  then have 1: "getValidationWriteState (rw_uri sample_unclassified) (ws_db sample_writers) = (Ok None, d1)"
    unfolding d1_def sample_writers_def by (simp add: fst_snd_eq)
  have "fst (write_stmt no_decoders sample_unclassified (AfterRead None) d1) = Inl (Some Inserted)"
    unfolding d1_def by code_simp
  then have 2: "write_stmt no_decoders sample_unclassified (AfterRead None) (ws_db s1) = (Inl (Some Inserted), d2)"
    unfolding d2_def s1_def by (simp add: prod_eq_iff)
  have "writer_step ascii_unicode no_decoders {sample_unclassified} sample_writers s1"
    using writer_step.Read [OF _ v 1] by (simp add: s1_def sample_writers_def)
  moreover have "writer_step ascii_unicode no_decoders {sample_unclassified} s1 s2"
    using writer_step.Finish [OF _ 2] by (simp add: s1_def s2_def)
  ultimately have r: "writers_reach ascii_unicode no_decoders {sample_unclassified} sample_writers s2"
    unfolding writers_reach_def by (meson rtranclp.rtrancl_refl rtranclp.rtrancl_into_rtrancl)
  have "map rr_uri (st_records (db_store d2)) = [rw_uri sample_write]" unfolding d2_def d1_def by code_simp
  then obtain r where "r \<in> set (st_records (db_store (ws_db s2)))" "rr_uri r = rw_uri sample_write"
    by (auto simp: s2_def)
  then show ?thesis using that r by blast
qed

theorem interleaved_writes_classified_witness:
  "\<exists>s' r. writers_reach ascii_unicode no_decoders {sample_unclassified} sample_writers s'
     \<and> r \<in> set (st_records (db_store (ws_db s'))) \<and> rr_status r = StatusValidationError"
proof -
  obtain s' r where r: "writers_reach ascii_unicode no_decoders {sample_unclassified} sample_writers s'"
    "r \<in> set (st_records (db_store (ws_db s')))" by (rule sample_writers_reach)
  have c: "content_addressed {sample_unclassified}" by (simp add: content_addressed_def)
  have v: "\<forall>rec\<in>{sample_unclassified}. let c = ClassifyRecord None (rw_collection rec) (rw_rkey rec) (rw_json rec)
      in rw_status rec = vr_status c \<and> rw_verror rec = vr_error c \<and> rw_lexhash rec = vr_lexhash c"
    by (simp add: sample_unclassified_def sample_write_def ClassifyRecord_def Let_def)
  have e: "st_records (db_store (ws_db sample_writers)) = []" "ws_pending sample_writers = []" by code_simp+
  show ?thesis using interleaved_writes_classified [OF c v e r] r
    by (auto simp: ClassifyRecord_def Let_def)
qed

end
