(* ===== verification/Backfill_Batch.thy ===== *)
theory Backfill_Batch
  imports Records_Repo "HOL-Library.Word"
begin

unbundle bit_operations_syntax

text \<open>
  \<open>RecordsRepository.BatchUpsertWithValidationForBackfill\<close> and what it is built from: duplicate
  normalisation, the per-DID locks (the FNV-1a key at its 64-bit width and the 256 process-local
  shards), classification against the stored CIDs, the batched upserts and the batched repair of
  unchanged records.  Also \<open>BatchInsert\<close> and \<open>IterateAll\<close>'s sibling reads of CIDs.
\<close>

section \<open>Locks\<close>

definition fnv_offset64 :: "64 word" where "fnv_offset64 = 14695981039346656037"
definition fnv_prime64 :: "64 word" where "fnv_prime64 = 1099511628211"

text \<open>\<open>hash/fnv.New64a\<close>.\<close>

definition fnv64a :: "string \<Rightarrow> 64 word" where
  "fnv64a s = foldl (\<lambda>h c. (h XOR word_of_nat (byte c)) * fnv_prime64) fnv_offset64 s"

definition backfillDIDLockKey :: "string \<Rightarrow> int" where
  "backfillDIDLockKey did = sint (fnv64a did)"

definition backfillDIDLockShardCount :: nat where "backfillDIDLockShardCount = 256"

definition lock_shard :: "string \<Rightarrow> nat" where
  "lock_shard did = unat (word_of_int (backfillDIDLockKey did) :: 64 word) mod backfillDIDLockShardCount"

text \<open>The shards: \<open>True\<close> where the one-element channel is full.  \<open>None\<close> is a send that blocks; the
  context's end is an error.\<close>

definition acquireBackfillDIDProcessLock :: "err option \<Rightarrow> string \<Rightarrow> bool list \<Rightarrow> bool list res option" where
  "acquireBackfillDIDProcessLock ctxDone did shards =
     (if \<not> shards ! lock_shard did then Some (Ok (shards[lock_shard did := True]))
      else map_option Err ctxDone)"

definition release_lock :: "string \<Rightarrow> bool list \<Rightarrow> bool list" where
  "release_lock did shards = shards[lock_shard did := False]"

section \<open>Normalisation\<close>

definition backfillDuplicateConflict :: "record_write \<Rightarrow> record_write \<Rightarrow> string" where
  "backfillDuplicateConflict first duplicate =
     (if rw_did first \<noteq> rw_did duplicate \<or> rw_collection first \<noteq> rw_collection duplicate
      then ''DID or collection differs''
      else if rw_cid first \<noteq> rw_cid duplicate then ''CID differs''
      else if rw_status first \<noteq> rw_status duplicate \<or> rw_verror first \<noteq> rw_verror duplicate
           \<or> rw_lexhash first \<noteq> rw_lexhash duplicate then ''validation metadata differs''
      else if rw_cid first = [] \<and> rw_json first \<noteq> rw_json duplicate then ''empty-CID content differs''
      else [])"

text \<open>The loop: \<open>normalized\<close> is the slice built so far, which \<open>byURI\<close> indexes.\<close>

fun normalize_loop ::
  "unicode \<Rightarrow> string \<Rightarrow> nat \<Rightarrow> record_write list \<Rightarrow> (record_write \<times> nat) list \<Rightarrow> (record_write \<times> nat) list res"
where
  "normalize_loop U did index [] normalized = Ok normalized"
| "normalize_loop U did index (rec # recs) normalized =
     (case validateRecordWrite U rec of
        Inl e \<Rightarrow> Err e
      | Inr _ \<Rightarrow>
          if rw_did rec \<noteq> did then
            Err (''backfill validation-aware batch for '' @ did @ '' contains record '' @ rw_uri rec @
                 '' owned by '' @ rw_did rec)
          else (case List.find (\<lambda>p. rw_uri (fst p) = rw_uri rec) normalized of
              Some (existing, _) \<Rightarrow>
                if backfillDuplicateConflict existing rec \<noteq> [] then
                  Err (''conflicting duplicate backfill URI '' @ rw_uri rec @ '': '' @
                       backfillDuplicateConflict existing rec)
                else normalize_loop U did (Suc index) recs normalized
            | None \<Rightarrow> normalize_loop U did (Suc index) recs (normalized @ [(rec, index)])))"

definition normalizeBackfillRecordWrites ::
  "unicode \<Rightarrow> string \<Rightarrow> record_write list \<Rightarrow> (record_write \<times> nat) list res" where
  "normalizeBackfillRecordWrites U did records =
     (if records = [] then Ok []
      else if did = [] then Err ''backfill validation-aware batch requires a DID''
      else normalize_loop U did 0 records [])"

section \<open>The transaction\<close>

record backfill_result =
  bf_changed :: "nat list"
  bf_skipped :: nat

text \<open>\<open>result[uri] = cid\<close> for the rows found, batch by batch.\<close>

fun cid_batches :: "string list list \<Rightarrow> (string \<times> string) list \<Rightarrow> (string \<times> string) list dbm" where
  "cid_batches [] acc d = (Ok acc, d)"
| "cid_batches (batch # rest) acc d =
     (case db_exec (\<lambda>s. Ok (filter (\<lambda>r. rr_uri r \<in> set batch) (st_records s), s)) d of
        (Inl e, d') \<Rightarrow> (Err e, d')
      | (Inr rs, d') \<Rightarrow> cid_batches rest (foldl (\<lambda>m r. map_put (rr_uri r) (rr_cid r) m) acc rs) d')"

definition getCIDsByURIsTx :: "string list \<Rightarrow> (string \<times> string) list dbm" where
  "getCIDsByURIsTx uris = cid_batches (chunks SQLParamBatchSize uris) []"

text \<open>The same read outside a transaction, with its early return.\<close>

definition GetCIDsByURIs :: "string list \<Rightarrow> (string \<times> string) list dbm" where
  "GetCIDsByURIs uris = (if uris = [] then db_return [] else cid_batches (chunks SQLParamBatchSize uris) [])"

definition incoming_for :: "record_write list \<Rightarrow> record_row \<Rightarrow> record_write option" where
  "incoming_for recs r = List.find (\<lambda>i. rw_uri i = rr_uri r \<and> rw_cid i = rr_cid r) recs"

definition batch_repair_row :: "decoders \<Rightarrow> int \<Rightarrow> record_write list \<Rightarrow> record_row \<Rightarrow> record_row" where
  "batch_repair_row X now recs r =
     (case incoming_for recs r of None \<Rightarrow> r | Some i \<Rightarrow> repair_row X now i r)"

definition batchRepairBackfillValidationTx :: "decoders \<Rightarrow> record_write list \<Rightarrow> unit dbm" where
  "batchRepairBackfillValidationTx X recs d =
     (let P = (\<lambda>r. incoming_for recs r \<noteq> None) in
      db_bind
        (db_wrap (''repair '' @ show_nat (length recs) @ '' same-CID backfill records: '')
           (db_exec (\<lambda>s. Ok (tbl_affected P (st_records s),
              s\<lparr>st_records := tbl_update P (batch_repair_row X (db_now d) recs) (st_records s)\<rparr>))))
        (\<lambda>affected. db_bind (db_wrap ''read repaired backfill row count: '' db_nop)
           (\<lambda>_. if affected \<noteq> int (length recs)
                then db_fail (''repair same-CID backfill records affected '' @ show_int affected @
                              '' rows, want '' @ show_nat (length recs))
                else db_return ())) d)"

definition unchanged_in :: "(string \<times> string) list \<Rightarrow> record_write \<Rightarrow> bool" where
  "unchanged_in existing rec = (rw_cid rec \<noteq> [] \<and> map_of existing (rw_uri rec) = Some (rw_cid rec))"

definition lock_message :: "dialect \<Rightarrow> string \<Rightarrow> string" where
  "lock_message dia did =
     (case dia of
        PostgreSQL \<Rightarrow> ''acquire PostgreSQL backfill advisory transaction lock for '' @ did @ '': ''
      | SQLite \<Rightarrow> ''acquire SQLite backfill writer lock for '' @ did @ '': '')"

definition backfill_body :: "decoders \<Rightarrow> string \<Rightarrow> (record_write \<times> nat) list \<Rightarrow> backfill_result dbm" where
  "backfill_body X did normalized d0 =
     db_bind (db_wrap (lock_message (db_dialect d0) did) db_nop)
       (\<lambda>_. db_bind (db_wrap (''classify existing repo '' @ did @ '' records: '')
               (getCIDsByURIsTx (map (\<lambda>p. rw_uri (fst p)) normalized)))
          (\<lambda>existing.
             let repairs = filter (\<lambda>p. unchanged_in existing (fst p)) normalized;
                 changed = filter (\<lambda>p. \<not> unchanged_in existing (fst p)) normalized in
             db_bind (db_each (batchUpsertWithValidationTx X) (chunks ValidationBatchUpsertSize (map fst changed)))
               (\<lambda>_. db_bind (db_each (batchRepairBackfillValidationTx X) (chunks ValidationBatchUpsertSize (map fst repairs)))
                  (\<lambda>_. db_return \<lparr>bf_changed = map snd changed, bf_skipped = length repairs\<rparr>)))) d0"

text \<open>The result, the shards afterwards and the database afterwards; \<open>None\<close> while the call is blocked
  on the process lock.\<close>

definition backfill_tx :: "decoders \<Rightarrow> string \<Rightarrow> (record_write \<times> nat) list \<Rightarrow> backfill_result dbm" where
  "backfill_tx X did normalized =
     db_tx (''begin backfill record transaction for '' @ did @ '': '')
       (''commit backfill record transaction for '' @ did @ '': '')
       (backfill_body X did normalized)"

definition BatchUpsertWithValidationForBackfill ::
  "unicode \<Rightarrow> decoders \<Rightarrow> err option \<Rightarrow> string \<Rightarrow> record_write list \<Rightarrow> bool list \<Rightarrow> db
   \<Rightarrow> (backfill_result res \<times> bool list \<times> db) option" where
  "BatchUpsertWithValidationForBackfill U X ctxDone did records shards d =
     (case normalizeBackfillRecordWrites U did records of
        Inl e \<Rightarrow> Some (Err e, shards, d)
      | Inr normalized \<Rightarrow>
          if normalized = [] then Some (Ok \<lparr>bf_changed = [], bf_skipped = 0\<rparr>, shards, d)
          else (case acquireBackfillDIDProcessLock ctxDone did shards of
              None \<Rightarrow> None
            | Some (Inl e) \<Rightarrow> Some (Err (''wait for backfill lock for '' @ did @ '': '' @ e), shards, d)
            | Some (Inr shards') \<Rightarrow>
                (case backfill_tx X did normalized d of
                   (r, d') \<Rightarrow> Some (r, release_lock did shards', d'))))"

section \<open>Legacy batch insert\<close>

fun insert_rows :: "decoders \<Rightarrow> int \<Rightarrow> (string \<Rightarrow> string option) \<Rightarrow> record_row list \<Rightarrow> record_row list \<Rightarrow> record_row list res" where
  "insert_rows X now jin [] t = Ok t"
| "insert_rows X now jin (r # rs) t =
     (case jin (rr_json r) of
        None \<Rightarrow> Err jsonCastError
      | Some j \<Rightarrow> insert_rows X now jin rs (tbl_upsert rr_uri (insert_merge now)
          (insert_row X now j (rr_uri r) (rr_cid r) (rr_did r) (rr_collection r) (rr_json r)) t))"

definition insertBatchTx :: "decoders \<Rightarrow> record_row list \<Rightarrow> unit dbm" where
  "insertBatchTx X rs d =
     db_exec (\<lambda>s.
       if db_dialect d = PostgreSQL \<and> \<not> distinct (map rr_uri rs) then Err conflictTwiceError
       else (case insert_rows X (db_now d) (db_json_in d) rs (st_records s) of
               Inl e \<Rightarrow> Err e
             | Inr t \<Rightarrow> Ok ((), s\<lparr>st_records := t\<rparr>))) d"

definition BatchInsert :: "decoders \<Rightarrow> record_row list \<Rightarrow> unit dbm" where
  "BatchInsert X rs =
     (if rs = [] then db_return ()
      else db_tx ''failed to begin transaction: '' ''failed to commit transaction: ''
             (db_each (insertBatchTx X) (chunks BatchInsertSize rs)))"

section \<open>Facts: normalisation\<close>

lemma backfillDuplicateConflict_Nil:
  "backfillDuplicateConflict a b = [] \<longleftrightarrow>
    rw_did a = rw_did b \<and> rw_collection a = rw_collection b \<and> rw_cid a = rw_cid b \<and> rw_status a = rw_status b
    \<and> rw_verror a = rw_verror b \<and> rw_lexhash a = rw_lexhash b \<and> (rw_cid a = [] \<longrightarrow> rw_json a = rw_json b)"
  by (auto simp: backfillDuplicateConflict_def)

definition represents :: "record_write \<Rightarrow> record_write \<Rightarrow> bool" where
  "represents a b = (rw_uri a = rw_uri b \<and> backfillDuplicateConflict a b = [])"

definition normal_inv :: "unicode \<Rightarrow> string \<Rightarrow> record_write list \<Rightarrow> (record_write \<times> nat) list \<Rightarrow> bool" where
  "normal_inv U did seen normalized =
     (distinct (map (\<lambda>p. rw_uri (fst p)) normalized)
      \<and> (\<forall>p\<in>set normalized. snd p < length seen \<and> seen ! snd p = fst p)
      \<and> sorted_wrt (<) (map snd normalized)
      \<and> (\<forall>p\<in>set normalized. \<forall>j < snd p. rw_uri (seen ! j) \<noteq> rw_uri (fst p))
      \<and> (\<forall>b\<in>set seen. rw_did b = did \<and> validateRecordWrite U b = Ok () \<and> (\<exists>p\<in>set normalized. represents (fst p) b)))"

lemma find_pair_cases:
  obtains "List.find P xs = None" "\<forall>x\<in>set xs. \<not> P x" | x where "List.find P xs = Some x" "x \<in> set xs" "P x"
  by (cases "List.find P xs") (auto simp: find_None_iff find_Some_iff)

lemma normal_inv_skip:
  assumes "normal_inv U did seen normalized" "p \<in> set normalized" "represents (fst p) rec" "rw_did rec = did"
    "validateRecordWrite U rec = Ok ()"
  shows "normal_inv U did (seen @ [rec]) normalized"
proof -
  have "\<forall>p\<in>set normalized. \<forall>j < snd p. rw_uri ((seen @ [rec]) ! j) \<noteq> rw_uri (fst p)"
    using assms(1) by (auto simp: normal_inv_def nth_append)
  then show ?thesis
    using assms(1,4,5) bexI [of "\<lambda>p. represents (fst p) rec", OF assms(3,2)]
    by (simp add: normal_inv_def nth_append less_SucI)
qed

lemma normal_inv_add:
  assumes "normal_inv U did seen normalized" "\<forall>p\<in>set normalized. rw_uri (fst p) \<noteq> rw_uri rec" "rw_did rec = did"
    "validateRecordWrite U rec = Ok ()"
  shows "normal_inv U did (seen @ [rec]) (normalized @ [(rec, length seen)])"
proof -
  have r: "represents rec rec" by (simp add: represents_def backfillDuplicateConflict_Nil)
  have "rw_uri rec \<notin> (\<lambda>p. rw_uri (fst p)) ` set normalized" using assms(2) by (metis (mono_tags, lifting) imageE)
  moreover have "sorted_wrt (<) (map snd (normalized @ [(rec, length seen)]))"
    using assms(1) by (simp add: normal_inv_def sorted_wrt_append)
  moreover have "\<forall>p\<in>set (normalized @ [(rec, length seen)]). \<forall>j < snd p. rw_uri ((seen @ [rec]) ! j) \<noteq> rw_uri (fst p)"
  proof -
    have "rw_uri (seen ! j) \<noteq> rw_uri rec" if j: "j < length seen" for j
    proof -
      obtain p where "p \<in> set normalized" "represents (fst p) (seen ! j)"
        using assms(1) nth_mem [OF j] unfolding normal_inv_def by blast
      then show ?thesis using assms(2) by (auto simp: represents_def)
    qed
    then show ?thesis using assms(1) by (auto simp: normal_inv_def nth_append)
  qed
  ultimately show ?thesis using assms(1,3,4) r
    by (simp add: normal_inv_def nth_append less_SucI)
qed

lemma normalize_loop_inv:
  assumes "normalize_loop U did (length seen) recs normalized = Ok out" "normal_inv U did seen normalized"
  shows "normal_inv U did (seen @ recs) out"
  using assms
proof (induction recs arbitrary: seen normalized)
  case Nil
  then show ?case by simp
next
  case (Cons rec recs)
  have v: "validateRecordWrite U rec = Ok ()" and d: "rw_did rec = did"
    using Cons.prems(1) by (auto split: sum.splits if_splits)
  show ?case
  proof (cases rule: find_pair_cases [of "\<lambda>p. rw_uri (fst p) = rw_uri rec" normalized])
    case 1
    then have "normalize_loop U did (length (seen @ [rec])) recs (normalized @ [(rec, length seen)]) = Ok out"
      using Cons.prems(1) v d by simp
    moreover have "normal_inv U did (seen @ [rec]) (normalized @ [(rec, length seen)])"
      by (rule normal_inv_add [OF Cons.prems(2)]) (use 1 v d in auto)
    ultimately show ?thesis using Cons.IH [of "seen @ [rec]"] by simp
  next
    case (2 p)
    obtain a i where p: "p = (a, i)" by (cases p)
    then have "backfillDuplicateConflict a rec = []"
      using Cons.prems(1) v d 2(1) by (auto split: if_splits)
    then have rep: "represents a rec" using 2 p by (simp add: represents_def)
    then have "normalize_loop U did (length (seen @ [rec])) recs normalized = Ok out"
      using Cons.prems(1) v d 2(1) p by (auto simp: represents_def split: if_splits)
    moreover have "normal_inv U did (seen @ [rec]) normalized"
      using normal_inv_skip [OF Cons.prems(2), of p rec] rep 2 p v d by simp
    ultimately show ?thesis using Cons.IH [of "seen @ [rec]"] by simp
  qed
qed

lemma normalizeBackfillRecordWrites_inv:
  assumes "normalizeBackfillRecordWrites U did records = Ok normalized"
  shows "normal_inv U did records normalized"
proof (cases "records = []")
  case True
  then show ?thesis using assms by (simp add: normalizeBackfillRecordWrites_def normal_inv_def)
next
  case False
  then have "normalize_loop U did (length ([] :: record_write list)) records [] = Ok normalized"
    using assms by (simp add: normalizeBackfillRecordWrites_def split: if_splits)
  from normalize_loop_inv [OF this] show ?thesis by (simp add: normal_inv_def)
qed

section \<open>Facts: batches\<close>

text \<open>Every row of a table of upserted writes is current; other rows are untouched.\<close>

definition all_written ::
  "decoders \<Rightarrow> (string \<Rightarrow> string option) \<Rightarrow> record_write list \<Rightarrow> record_row list \<Rightarrow> bool" where
  "all_written X jin recs t =
     (\<forall>rec\<in>set recs. \<exists>r. tbl_find rr_uri (rw_uri rec) t = Some r \<and> row_current X rec r \<and> row_content jin rec r)"

lemma validation_upsert_row_OkD:
  "validation_upsert_row X now jin rec t = Ok t' \<Longrightarrow>
    \<exists>j. jin (rw_json rec) = Some j \<and> t' = tbl_upsert rr_uri (validation_merge now) (write_row X now j rec) t"
  by (auto simp: validation_upsert_row_def split: option.splits)

lemma upsert_row_written:
  assumes "validation_upsert_row X now jin rec t = Ok t'"
  shows "(\<exists>r. tbl_find rr_uri (rw_uri rec) t' = Some r \<and> row_current X rec r \<and> row_content jin rec r)
    \<and> (\<forall>uri. uri \<noteq> rw_uri rec \<longrightarrow> tbl_find rr_uri uri t' = tbl_find rr_uri uri t)
    \<and> (distinct (map rr_uri t) \<longrightarrow> distinct (map rr_uri t'))"
proof -
  obtain j where j: "jin (rw_json rec) = Some j" "t' = tbl_upsert rr_uri (validation_merge now) (write_row X now j rec) t"
    using validation_upsert_row_OkD [OF assms] by blast
  show ?thesis using j upsert_effect_row [of rec X now j "empty_store\<lparr>st_records := t\<rparr>" jin]
    by (simp add: upsert_tbl.find_upsert upsert_tbl.distinct_upsert upsert_effect_def find_record_def)
qed

lemma upsert_rows_written:
  assumes "upsert_rows X now jin recs t = Ok t'"
  shows "(distinct (map rw_uri recs) \<longrightarrow> all_written X jin recs t')
    \<and> (\<forall>uri. uri \<notin> rw_uri ` set recs \<longrightarrow> tbl_find rr_uri uri t' = tbl_find rr_uri uri t)
    \<and> (distinct (map rr_uri t) \<longrightarrow> distinct (map rr_uri t'))"
  using assms
proof (induction recs arbitrary: t)
  case Nil
  then show ?case by (simp add: all_written_def)
next
  case (Cons rec recs)
  then obtain t1 where t1: "validation_upsert_row X now jin rec t = Ok t1" "upsert_rows X now jin recs t1 = Ok t'"
    by (auto split: sum.splits)
  note w = upsert_row_written [OF t1(1)]
  note IH = Cons.IH [OF t1(2)]
  have "all_written X jin (rec # recs) t'" if "distinct (map rw_uri (rec # recs))"
    using that IH w unfolding all_written_def by fastforce
  then show ?case using IH w by simp
qed

lemma upsert_rows_append:
  "upsert_rows X now jin (as @ bs) t =
    (case upsert_rows X now jin as t of Inl e \<Rightarrow> Err e | Inr t' \<Rightarrow> upsert_rows X now jin bs t')"
  by (induction as arbitrary: t) (auto split: sum.splits)

lemma batchUpsertWithValidationTx_OkD:
  assumes "batchUpsertWithValidationTx X recs d = (Ok u, d')"
  shows "\<exists>t. upsert_rows X (db_now d) (db_json_in d) recs (st_records (db_store d)) = Ok t
    \<and> db_store d' = (db_store d)\<lparr>st_records := t\<rparr> \<and> same_env d d'"
  using assms unfolding batchUpsertWithValidationTx_def
  by (auto elim!: db_exec_cases split: if_splits sum.splits)

lemma upsert_chunks_OkD:
  assumes "db_each (batchUpsertWithValidationTx X) batches d = (Ok u, d')"
  shows "\<exists>t. upsert_rows X (db_now d) (db_json_in d) (concat batches) (st_records (db_store d)) = Ok t
    \<and> db_store d' = (db_store d)\<lparr>st_records := t\<rparr> \<and> same_env d d'"
  using assms
proof (induction batches arbitrary: d)
  case Nil
  then show ?case by auto
next
  case (Cons b bs)
  then obtain u1 d1 where d1: "batchUpsertWithValidationTx X b d = (Ok u1, d1)"
    "db_each (batchUpsertWithValidationTx X) bs d1 = (Ok u, d')"
    by (auto split: prod.splits sum.splits)
  from batchUpsertWithValidationTx_OkD [OF d1(1)] obtain t1 where
    t1: "upsert_rows X (db_now d) (db_json_in d) b (st_records (db_store d)) = Ok t1"
    "db_store d1 = (db_store d)\<lparr>st_records := t1\<rparr>" "same_env d d1" by blast
  from Cons.IH [OF d1(2)] t1 obtain t where
    "upsert_rows X (db_now d) (db_json_in d) (concat bs) t1 = Ok t"
    "db_store d' = (db_store d)\<lparr>st_records := t\<rparr>" "same_env d1 d'" by (auto simp: same_env_def)
  then show ?case using t1 same_env_trans by (auto simp: upsert_rows_append)
qed

text \<open>Position \<open>i\<close> holds the first write of its URI.\<close>

definition is_first :: "record_write list \<Rightarrow> nat \<Rightarrow> bool" where
  "is_first recs i = (i < length recs \<and> (\<forall>j<i. rw_uri (recs ! j) \<noteq> rw_uri (recs ! i)))"

lemma normal_inv_first:
  assumes "normal_inv U did recs normalized"
  shows "(w, i) \<in> set normalized \<longleftrightarrow> is_first recs i \<and> w = recs ! i"
proof
  assume "(w, i) \<in> set normalized"
  then have "i < length recs" "recs ! i = w" "\<forall>j<i. rw_uri (recs ! j) \<noteq> rw_uri w"
    using assms by (auto simp: normal_inv_def)
  then show "is_first recs i \<and> w = recs ! i" by (simp add: is_first_def)
next
  assume f: "is_first recs i \<and> w = recs ! i"
  then obtain p where p: "p \<in> set normalized" "represents (fst p) (recs ! i)"
    using assms nth_mem [of i recs] unfolding normal_inv_def is_first_def by blast
  have k: "snd p < length recs" "recs ! snd p = fst p" "\<forall>j < snd p. rw_uri (recs ! j) \<noteq> rw_uri (fst p)"
    using assms p(1) by (auto simp: normal_inv_def)
  have "snd p = i"
  proof (rule antisym)
    show "snd p \<le> i" using k p(2) f by (metis leI represents_def)
    show "i \<le> snd p" using k p(2) f unfolding is_first_def by (metis leI represents_def)
  qed
  then show "(w, i) \<in> set normalized" using p(1) k f by (metis prod.collapse)
qed

lemma map_of_put_rows:
  assumes "distinct (map rr_uri rs)"
  shows "map_of (foldl (\<lambda>m r. map_put (rr_uri r) (rr_cid r) m) acc rs) uri =
    (case tbl_find rr_uri uri rs of Some r \<Rightarrow> Some (rr_cid r) | None \<Rightarrow> map_of acc uri)"
  using assms
proof (induction rs arbitrary: acc)
  case Nil
  then show ?case by (simp add: tbl_find_def)
next
  case (Cons r rs)
  have "tbl_find rr_uri (rr_uri r) rs = None" using Cons.prems by (simp add: tbl_find_None)
  then show ?case using Cons by (auto simp: tbl_find_def split: option.splits)
qed

lemma tbl_find_filter_keys:
  "tbl_find key k (filter (\<lambda>r. key r \<in> A) t) = (if k \<in> A then tbl_find key k t else None)"
  by (induction t) (auto simp: tbl_find_def)

lemma cid_batches_OkD:
  assumes "cid_batches batches acc d = (Ok m, d')" "records_ok (db_store d)"
  shows "db_store d' = db_store d \<and> same_env d d' \<and>
    map_of m uri = (case if uri \<in> set (concat batches) then find_record uri (db_store d) else None of
       Some r \<Rightarrow> Some (rr_cid r) | None \<Rightarrow> map_of acc uri)"
  using assms
proof (induction batches arbitrary: acc d)
  case Nil
  then show ?case by auto
next
  case (Cons b bs)
  let ?rows = "filter (\<lambda>r. rr_uri r \<in> set b) (st_records (db_store d))"
  obtain d1 where d1: "db_store d1 = db_store d" "same_env d d1"
    "cid_batches bs (foldl (\<lambda>m r. map_put (rr_uri r) (rr_cid r) m) acc ?rows) d1 = (Ok m, d')"
    using Cons.prems(1) by (auto split: prod.splits sum.splits dest!: db_exec_pure_OkD)
  have "map_of (foldl (\<lambda>m r. map_put (rr_uri r) (rr_cid r) m) acc ?rows) uri =
      (case if uri \<in> set b then find_record uri (db_store d) else None of
         Some r \<Rightarrow> Some (rr_cid r) | None \<Rightarrow> map_of acc uri)"
    using Cons.prems(2) map_of_put_rows [of ?rows acc uri]
    by (simp add: tbl_find_filter_keys find_record_def records_ok_def distinct_map_filter)
  then show ?case using Cons.IH [OF d1(3)] Cons.prems(2) d1(1,2) same_env_trans
    by (auto split: option.splits)
qed

lemma incoming_for_append:
  "incoming_for (as @ bs) r = (case incoming_for as r of None \<Rightarrow> incoming_for bs r | Some i \<Rightarrow> Some i)"
  by (induction as) (auto simp: incoming_for_def)

lemma incoming_for_SomeD: "incoming_for recs r = Some i \<Longrightarrow> i \<in> set recs \<and> rw_uri i = rr_uri r \<and> rw_cid i = rr_cid r"
  by (auto simp: incoming_for_def find_Some_iff)

lemma incoming_for_distinct:
  assumes "distinct (map rw_uri recs)" "i \<in> set recs" "rw_uri i = rr_uri r" "rw_cid i = rr_cid r"
  shows "incoming_for recs r = Some i"
proof (cases "incoming_for recs r")
  case None
  then show ?thesis using assms by (auto simp: incoming_for_def find_None_iff)
next
  case (Some k)
  then have "k \<in> set recs" "rw_uri k = rw_uri i" using incoming_for_SomeD assms(3) by auto
  then show ?thesis using Some assms(1,2) by (auto simp: distinct_map dest: inj_onD)
qed

lemma batch_repair_row_compose:
  assumes "distinct (map rw_uri (as @ bs))"
  shows "batch_repair_row X now bs (batch_repair_row X now as r) = batch_repair_row X now (as @ bs) r"
proof (cases "incoming_for as r")
  case None
  then show ?thesis by (simp add: batch_repair_row_def incoming_for_append)
next
  case (Some i)
  have i: "i \<in> set as" "rw_uri i = rr_uri r" using incoming_for_SomeD [OF Some] by auto
  have "rw_uri x \<noteq> rr_uri r" if "x \<in> set bs" for x
  proof -
    have "rw_uri i \<in> rw_uri ` set as" "rw_uri x \<in> rw_uri ` set bs" by (rule imageI, fact)+
    then show ?thesis using assms i(2) by auto
  qed
  then have "incoming_for bs (repair_row X now i r) = None"
    by (auto simp: incoming_for_def find_None_iff)
  then show ?thesis using Some by (simp add: batch_repair_row_def incoming_for_append)
qed

lemma batch_repair_Nil [simp]: "batch_repair_row X now [] = (\<lambda>r. r)"
  by (simp add: batch_repair_row_def incoming_for_def fun_eq_iff)

lemma tbl_update_repair:
  "tbl_update (\<lambda>r. incoming_for recs r \<noteq> None) (batch_repair_row X now recs) t = map (batch_repair_row X now recs) t"
  by (auto simp: tbl_update_def batch_repair_row_def)

lemma batchRepair_OkD:
  assumes "batchRepairBackfillValidationTx X recs d = (Ok u, d')"
  shows "db_store d' = (db_store d)\<lparr>st_records := map (batch_repair_row X (db_now d) recs) (st_records (db_store d))\<rparr>
    \<and> same_env d d'"
  using assms unfolding batchRepairBackfillValidationTx_def Let_def
  by (auto simp: db_bind_Ok_iff tbl_update_repair [simplified] same_env_def
      split: if_splits dest!: db_exec_pure_OkD db_nop_env)

lemma repair_chunks_OkD:
  assumes "db_each (batchRepairBackfillValidationTx X) batches d = (Ok u, d')"
    "distinct (map rw_uri (concat batches))"
  shows "db_store d' = (db_store d)\<lparr>st_records :=
      map (batch_repair_row X (db_now d) (concat batches)) (st_records (db_store d))\<rparr> \<and> same_env d d'"
  using assms
proof (induction batches arbitrary: d)
  case Nil
  then show ?case by auto
next
  case (Cons b bs)
  then obtain u1 d1 where d1: "batchRepairBackfillValidationTx X b d = (Ok u1, d1)"
    "db_each (batchRepairBackfillValidationTx X) bs d1 = (Ok u, d')"
    by (auto split: prod.splits sum.splits)
  have s1: "db_store d1 = (db_store d)\<lparr>st_records := map (batch_repair_row X (db_now d) b) (st_records (db_store d))\<rparr>"
    "same_env d d1" using batchRepair_OkD [OF d1(1)] by auto
  have "db_store d' = (db_store d1)\<lparr>st_records :=
      map (batch_repair_row X (db_now d1) (concat bs)) (st_records (db_store d1))\<rparr>" "same_env d1 d'"
    using Cons.IH [OF d1(2)] Cons.prems(2) by auto
  then show ?case using s1 Cons.prems(2) same_env_trans
    by (auto simp: same_env_def o_def batch_repair_row_compose)
qed

section \<open>The backfill write\<close>

text \<open>The row carries the CID and the classification of the write.\<close>

definition classified_as :: "record_write \<Rightarrow> record_row \<Rightarrow> bool" where
  "classified_as rec r =
     (rr_cid r = rw_cid rec \<and> rr_status r = rw_status rec \<and> null_string (rr_verror r) = rw_verror rec
      \<and> null_string (rr_lexhash r) = rw_lexhash rec \<and> rr_validated_at r \<noteq> None)"

definition stored_same :: "store \<Rightarrow> record_write \<Rightarrow> bool" where
  "stored_same s rec =
     (rw_cid rec \<noteq> [] \<and> (\<exists>r. find_record (rw_uri rec) s = Some r \<and> rr_cid r = rw_cid rec))"

lemma row_current_classified: "row_current X rec r \<Longrightarrow> classified_as rec r"
  by (simp add: row_current_def classified_as_def)

lemma classified_represents: "classified_as a r \<Longrightarrow> represents a b \<Longrightarrow> classified_as b r"
  by (simp add: classified_as_def represents_def backfillDuplicateConflict_Nil)

lemma batch_repair_uri [simp]: "rr_uri (batch_repair_row X now recs r) = rr_uri r"
  by (simp add: batch_repair_row_def split: option.splits)

lemma tbl_find_map_repair:
  "tbl_find rr_uri uri (map (batch_repair_row X now recs) t) = map_option (batch_repair_row X now recs) (tbl_find rr_uri uri t)"
  by (induction t) (auto simp: tbl_find_def)

lemma batch_repair_other: "rr_uri r \<notin> rw_uri ` set recs \<Longrightarrow> batch_repair_row X now recs r = r"
  by (metis (no_types, lifting) batch_repair_row_def imageI incoming_for_SomeD not_None_eq option.simps(4))

text \<open>The table after the upserts and the repairs of one transaction.\<close>

lemma upsert_then_repair:
  assumes "upsert_rows X now jin changed t = Ok t1" and "t2 = map (batch_repair_row X now repairs) t1"
    and "distinct (map rw_uri (changed @ repairs))" and "distinct (map rr_uri t)"
    and "\<forall>rec\<in>set repairs. \<exists>r. tbl_find rr_uri (rw_uri rec) t = Some r \<and> rr_cid r = rw_cid rec"
  shows "distinct (map rr_uri t2)
    \<and> (\<forall>rec\<in>set (changed @ repairs). \<exists>r. tbl_find rr_uri (rw_uri rec) t2 = Some r \<and> classified_as rec r)
    \<and> (\<forall>uri. uri \<notin> rw_uri ` set (changed @ repairs) \<longrightarrow> tbl_find rr_uri uri t2 = tbl_find rr_uri uri t)"
proof (intro conjI ballI allI impI)
  have disj: "rw_uri ` set changed \<inter> rw_uri ` set repairs = {}" "distinct (map rw_uri changed)"
    "distinct (map rw_uri repairs)" using assms(3) by auto
  note w = upsert_rows_written [OF assms(1)]
  have find2: "tbl_find rr_uri uri t2 = map_option (batch_repair_row X now repairs) (tbl_find rr_uri uri t1)" for uri
    by (simp add: assms(2) tbl_find_map_repair)
  have other: "map_option (batch_repair_row X now repairs) (tbl_find rr_uri uri x) = tbl_find rr_uri uri x"
    if "uri \<notin> rw_uri ` set repairs" for uri x
    using that tbl_find_Some [of rr_uri uri x] by (cases "tbl_find rr_uri uri x") (auto simp: batch_repair_other)
  show "distinct (map rr_uri t2)" using w assms(2,4) by (simp add: o_def)
  show "tbl_find rr_uri uri t2 = tbl_find rr_uri uri t" if "uri \<notin> rw_uri ` set (changed @ repairs)" for uri
  proof -
    have "uri \<notin> rw_uri ` set changed" "uri \<notin> rw_uri ` set repairs" using that by auto
    then show ?thesis using w find2 other by simp
  qed
  fix rec
  assume "rec \<in> set (changed @ repairs)"
  then consider "rec \<in> set changed" | "rec \<in> set repairs" by auto
  then show "\<exists>r. tbl_find rr_uri (rw_uri rec) t2 = Some r \<and> classified_as rec r"
  proof cases
    case 1
    then have "rw_uri rec \<notin> rw_uri ` set repairs" using disj(1) by blast
    moreover obtain r where "tbl_find rr_uri (rw_uri rec) t1 = Some r" "row_current X rec r"
      using 1 w disj(2) unfolding all_written_def by blast
    ultimately show ?thesis using find2 other [of "rw_uri rec" t1] row_current_classified by simp
  next
    case 2
    then obtain r where r: "tbl_find rr_uri (rw_uri rec) t = Some r" "rr_cid r = rw_cid rec" using assms(5) by blast
    have "rw_uri rec \<notin> rw_uri ` set changed" using 2 disj(1) by blast
    then have t1: "tbl_find rr_uri (rw_uri rec) t1 = Some r" using w r(1) by simp
    have u: "rr_uri r = rw_uri rec" using tbl_find_Some [OF r(1)] by simp
    have "incoming_for repairs r = Some rec" by (rule incoming_for_distinct) (use 2 disj u r in auto)
    then have "tbl_find rr_uri (rw_uri rec) t2 = Some (repair_row X now rec r)"
      using t1 find2 by (simp add: batch_repair_row_def)
    moreover have "classified_as rec (repair_row X now rec r)"
      using u r(2) by (intro row_current_classified [of X] row_current_repair) (simp add: repair_pred_def)
    ultimately show ?thesis by simp
  qed
qed

lemma backfill_body_OkD:
  assumes "backfill_body X did normalized d = (Ok res, d')" and ok: "records_ok (db_store d)"
    and dist: "distinct (map (\<lambda>p. rw_uri (fst p)) normalized)"
  shows "records_ok (db_store d') \<and> db_store d' = (db_store d)\<lparr>st_records := st_records (db_store d')\<rparr>
    \<and> (\<forall>p\<in>set normalized. \<exists>r. find_record (rw_uri (fst p)) (db_store d') = Some r \<and> classified_as (fst p) r)
    \<and> (\<forall>uri. uri \<notin> (\<lambda>p. rw_uri (fst p)) ` set normalized \<longrightarrow> find_record uri (db_store d') = find_record uri (db_store d))
    \<and> bf_changed res = map snd (filter (\<lambda>p. \<not> stored_same (db_store d) (fst p)) normalized)
    \<and> bf_skipped res = length (filter (\<lambda>p. stored_same (db_store d) (fst p)) normalized)"
proof -
  let ?uris = "map (\<lambda>p. rw_uri (fst p)) normalized"
  obtain u d1 existing d2 u2 d3 u3 d4 where
    1: "db_nop d = (Ok u, d1)" and
    2: "cid_batches (chunks SQLParamBatchSize ?uris) [] d1 = (Ok existing, d2)" and
    3: "db_each (batchUpsertWithValidationTx X) (chunks ValidationBatchUpsertSize
          (map fst (filter (\<lambda>p. \<not> unchanged_in existing (fst p)) normalized))) d2 = (Ok u2, d3)" and
    4: "db_each (batchRepairBackfillValidationTx X) (chunks ValidationBatchUpsertSize
          (map fst (filter (\<lambda>p. unchanged_in existing (fst p)) normalized))) d3 = (Ok u3, d')" and
    res: "res = \<lparr>bf_changed = map snd (filter (\<lambda>p. \<not> unchanged_in existing (fst p)) normalized),
       bf_skipped = length (filter (\<lambda>p. unchanged_in existing (fst p)) normalized)\<rparr>"
    using assms(1) unfolding backfill_body_def getCIDsByURIsTx_def Let_def
    by (auto simp: db_bind_Ok_iff)
  have s1: "db_store d1 = db_store d" "same_env d d1" using db_nop_env [OF 1] by auto
  have ok1: "records_ok (db_store d1)" using ok s1 by simp
  have s2: "db_store d2 = db_store d" "same_env d d2"
    using cid_batches_OkD [OF 2 ok1] s1 same_env_trans by auto
  have ex: "map_of existing uri = map_option rr_cid (find_record uri (db_store d))" if "uri \<in> set ?uris" for uri
    using cid_batches_OkD [OF 2 ok1, of uri] that s1 by (simp add: SQLParamBatchSize_def split: option.splits)
  have same: "unchanged_in existing (fst p) = stored_same (db_store d) (fst p)" if "p \<in> set normalized" for p
    using ex [of "rw_uri (fst p)"] that by (auto simp: unchanged_in_def stored_same_def)
  define changed where "changed = filter (\<lambda>p. \<not> stored_same (db_store d) (fst p)) normalized"
  define repairs where "repairs = filter (\<lambda>p. stored_same (db_store d) (fst p)) normalized"
  have eqs: "filter (\<lambda>p. \<not> unchanged_in existing (fst p)) normalized = changed"
    "filter (\<lambda>p. unchanged_in existing (fst p)) normalized = repairs"
    unfolding changed_def repairs_def by (rule filter_cong; simp add: same)+
  have sets: "set normalized = set changed \<union> set repairs" by (auto simp: changed_def repairs_def)
  have inj: "inj_on (\<lambda>p. rw_uri (fst p)) (set normalized)" and dn: "distinct normalized"
    using dist by (auto simp: distinct_map)
  have dcr: "distinct (map rw_uri (map fst changed @ map fst repairs))"
  proof -
    have "distinct (changed @ repairs)" using dn by (auto simp: changed_def repairs_def)
    moreover have "inj_on (\<lambda>p. rw_uri (fst p)) (set (changed @ repairs))" using inj sets by simp
    ultimately have "distinct (map (\<lambda>p. rw_uri (fst p)) (changed @ repairs))" by (simp only: distinct_map)
    then show ?thesis by (simp add: o_def)
  qed
  obtain t1 where t1: "upsert_rows X (db_now d) (db_json_in d) (map fst changed) (st_records (db_store d)) = Ok t1"
    "db_store d3 = (db_store d)\<lparr>st_records := t1\<rparr>" "same_env d d3"
    using upsert_chunks_OkD [OF 3] s2 same_env_trans
    by (auto simp: eqs same_env_def ValidationBatchUpsertSize_def)
  have t2: "db_store d' = (db_store d)\<lparr>st_records := map (batch_repair_row X (db_now d) (map fst repairs)) t1\<rparr>"
    using repair_chunks_OkD [OF 4] t1(2,3) dcr by (simp add: eqs same_env_def ValidationBatchUpsertSize_def)
  have "\<forall>rec\<in>set (map fst repairs). \<exists>r. tbl_find rr_uri (rw_uri rec) (st_records (db_store d)) = Some r \<and> rr_cid r = rw_cid rec"
    by (auto simp: repairs_def stored_same_def find_record_def)
  from upsert_then_repair [OF t1(1) refl dcr _ this]
  have fin: "distinct (map rr_uri (st_records (db_store d')))"
    "\<forall>rec\<in>set (map fst changed @ map fst repairs). \<exists>r. find_record (rw_uri rec) (db_store d') = Some r \<and> classified_as rec r"
    "\<forall>uri. uri \<notin> rw_uri ` set (map fst changed @ map fst repairs) \<longrightarrow> find_record uri (db_store d') = find_record uri (db_store d)"
    using ok unfolding records_ok_def find_record_def t2 by auto
  have "rw_uri ` set (map fst changed @ map fst repairs) = (\<lambda>p. rw_uri (fst p)) ` set normalized"
    using sets by (auto simp: image_iff)
  moreover have "\<forall>p\<in>set normalized. fst p \<in> set (map fst changed @ map fst repairs)" using sets by auto
  ultimately show ?thesis using fin t2 res eqs unfolding changed_def repairs_def records_ok_def by auto
qed

lemma backfill_tx_OkD:
  assumes "backfill_tx X did normalized d = (Ok res, d')"
  obtains d1 d2 where "db_store d1 = db_store d" "same_env d d1" "backfill_body X did normalized d1 = (Ok res, d2)"
    "db_store d' = db_store d2"
  using assms unfolding backfill_tx_def
proof (rule db_tx_OkD)
  fix d2
  assume "backfill_body X did normalized (d\<lparr>db_faults := tl (db_faults d)\<rparr>) = (Ok res, d2)"
    "d' = d2\<lparr>db_faults := tl (db_faults d2)\<rparr>"
  then show ?thesis using that [of "d\<lparr>db_faults := tl (db_faults d)\<rparr>" d2] by simp
qed

lemma release_acquired:
  assumes "acquireBackfillDIDProcessLock ctx did shards = Some (Ok shards')"
  shows "release_lock did shards' = shards"
proof -
  have f: "\<not> shards ! lock_shard did" "shards' = shards[lock_shard did := True]"
    using assms by (auto simp: acquireBackfillDIDProcessLock_def split: if_splits option.splits)
  then show ?thesis using list_update_id [of shards "lock_shard did"] by (simp add: release_lock_def)
qed

text \<open>What a successful transaction over a normalised batch leaves.\<close>

definition normal_done ::
  "string \<Rightarrow> record_write list \<Rightarrow> store \<Rightarrow> store \<Rightarrow> backfill_result \<Rightarrow> bool" where
  "normal_done did records s s' res =
     ((\<forall>rec\<in>set records. rw_did rec = did \<and> (\<exists>r. find_record (rw_uri rec) s' = Some r \<and> classified_as rec r))
      \<and> (\<forall>uri. uri \<notin> rw_uri ` set records \<longrightarrow> find_record uri s' = find_record uri s)
      \<and> sorted_wrt (<) (bf_changed res)
      \<and> (\<forall>i. i \<in> set (bf_changed res) \<longleftrightarrow> is_first records i \<and> \<not> stored_same s (records ! i))
      \<and> length (bf_changed res) + bf_skipped res = card (rw_uri ` set records)
      \<and> records_ok s' \<and> s' = s\<lparr>st_records := st_records s'\<rparr>)"

lemma normal_inv_uris:
  assumes "normal_inv U did records normalized"
  shows "(\<lambda>p. rw_uri (fst p)) ` set normalized = rw_uri ` set records"
proof
  show "(\<lambda>p. rw_uri (fst p)) ` set normalized \<subseteq> rw_uri ` set records"
  proof
    fix u assume "u \<in> (\<lambda>p. rw_uri (fst p)) ` set normalized"
    then obtain p where "p \<in> set normalized" "u = rw_uri (fst p)" by blast
    then have "fst p \<in> set records" using assms unfolding normal_inv_def by (metis nth_mem)
    then show "u \<in> rw_uri ` set records" using \<open>u = _\<close> by simp
  qed
  show "rw_uri ` set records \<subseteq> (\<lambda>p. rw_uri (fst p)) ` set normalized"
  proof
    fix u assume "u \<in> rw_uri ` set records"
    then obtain b where b: "b \<in> set records" "u = rw_uri b" by blast
    then obtain p where "p \<in> set normalized" "represents (fst p) b" using assms unfolding normal_inv_def by blast
    then show "u \<in> (\<lambda>p. rw_uri (fst p)) ` set normalized" using b(2) unfolding represents_def by (metis (mono_tags, lifting) imageI)
  qed
qed

lemma sorted_filter_snd: "sorted_wrt (<) (map snd xs) \<Longrightarrow> sorted_wrt (<) (map snd (filter P xs))"
  by (induction xs) auto

lemma backfill_tx_done:
  assumes "backfill_tx X did normalized d = (Ok res, d')" "records_ok (db_store d)" "normal_inv U did records normalized"
  shows "normal_done did records (db_store d) (db_store d') res"
proof -
  obtain d1 d2 where d1: "db_store d1 = db_store d" "backfill_body X did normalized d1 = (Ok res, d2)"
    "db_store d' = db_store d2"
    using backfill_tx_OkD [OF assms(1)] by metis
  have dist: "distinct (map (\<lambda>p. rw_uri (fst p)) normalized)" and srt: "sorted_wrt (<) (map snd normalized)"
    using assms(3) by (auto simp: normal_inv_def)
  note body = backfill_body_OkD [OF d1(2) _ dist, unfolded d1(1), OF assms(2), folded d1(3)]
  have rows: "rw_did rec = did \<and> (\<exists>r. find_record (rw_uri rec) (db_store d') = Some r \<and> classified_as rec r)"
    if "rec \<in> set records" for rec
  proof -
    obtain p where p: "p \<in> set normalized" "represents (fst p) rec" "rw_did rec = did"
      using assms(3) \<open>rec \<in> set records\<close> unfolding normal_inv_def by blast
    obtain r where "find_record (rw_uri (fst p)) (db_store d') = Some r" "classified_as (fst p) r"
      using body p(1) by blast
    then show ?thesis using p classified_represents by (auto simp: represents_def)
  qed
  have "card (rw_uri ` set records) = length normalized"
    using dist distinct_card [OF dist] normal_inv_uris [OF assms(3)] by (simp add: image_image)
  then have len: "length (bf_changed res) + bf_skipped res = card (rw_uri ` set records)"
    using body sum_length_filter_compl [of "\<lambda>p. stored_same (db_store d) (fst p)" normalized] by simp
  have idx: "i \<in> set (bf_changed res) \<longleftrightarrow> is_first records i \<and> \<not> stored_same (db_store d) (records ! i)" for i
    using body normal_inv_first [OF assms(3)] by (force simp: image_iff)
  show ?thesis
    unfolding normal_done_def using body rows len idx sorted_filter_snd [OF srt] normal_inv_uris [OF assms(3)] by simp
qed

text \<open>C3: a backfill batch is all or nothing and accounts for every record.  If the call is blocked, the DID's
  lock shard is taken.  If it returns an error, whether from a bad record, a conflicting duplicate, the lock, or any statement,
  the tables are untouched.  If it succeeds, every record of the batch is stored under its URI with its CID and classification, no
  other row has changed, the changed indices are, in increasing order, exactly the first occurrences of URIs whose stored CID was
  not already the incoming one, and changed and skipped records add up to the distinct URIs.  In every case the
  process lock is free again.\<close>

theorem backfill_all_or_nothing:
  assumes "records_ok (db_store d)"
  shows "case BatchUpsertWithValidationForBackfill U X ctx did records shards d of
      None \<Rightarrow> shards ! lock_shard did
    | Some (Inl e, shards', d') \<Rightarrow> shards' = shards \<and> db_store d' = db_store d
    | Some (Inr res, shards', d') \<Rightarrow>
        shards' = shards
        \<and> (\<forall>rec\<in>set records. rw_did rec = did \<and>
             (\<exists>r. find_record (rw_uri rec) (db_store d') = Some r \<and> classified_as rec r))
        \<and> (\<forall>uri. uri \<notin> rw_uri ` set records \<longrightarrow> find_record uri (db_store d') = find_record uri (db_store d))
        \<and> sorted_wrt (<) (bf_changed res)
        \<and> (\<forall>i. i \<in> set (bf_changed res) \<longleftrightarrow> is_first records i \<and> \<not> stored_same (db_store d) (records ! i))
        \<and> length (bf_changed res) + bf_skipped res = card (rw_uri ` set records)
        \<and> records_ok (db_store d') \<and> db_store d' = (db_store d)\<lparr>st_records := st_records (db_store d')\<rparr>"
proof (cases "normalizeBackfillRecordWrites U did records")
  case (Inl e)
  then show ?thesis by (simp add: BatchUpsertWithValidationForBackfill_def)
next
  case (Inr normalized)
  note inv = normalizeBackfillRecordWrites_inv [OF Inr]
  show ?thesis
  proof (cases "normalized = []")
    case True
    then have "records = []" using inv by (auto simp: normal_inv_def)
    then show ?thesis using True Inr assms by (simp add: BatchUpsertWithValidationForBackfill_def is_first_def)
  next
    case ne: False
    show ?thesis
    proof (cases "acquireBackfillDIDProcessLock ctx did shards")
      case None
      then have "shards ! lock_shard did" by (auto simp: acquireBackfillDIDProcessLock_def split: if_splits)
      then show ?thesis using None Inr ne by (simp add: BatchUpsertWithValidationForBackfill_def)
    next
      case (Some lk)
      obtain r d' where tx: "backfill_tx X did normalized d = (r, d')" by (cases "backfill_tx X did normalized d")
      have err: "db_store d' = db_store d" if "r = Err e" for e
        using db_tx_ErrD [of _ _ _ d e d'] tx that unfolding backfill_tx_def by blast
      have "normal_done did records (db_store d) (db_store d') res" if "r = Ok res" for res
        using backfill_tx_done [OF _ assms inv] tx that by blast
      moreover have "BatchUpsertWithValidationForBackfill U X ctx did records shards d =
          (case lk of Inl e \<Rightarrow> Some (Err (''wait for backfill lock for '' @ did @ '': '' @ e), shards, d)
           | Inr _ \<Rightarrow> Some (r, shards, d'))"
        using Some Inr ne tx release_acquired [of ctx did shards]
        by (simp add: BatchUpsertWithValidationForBackfill_def split: sum.splits)
      ultimately show ?thesis using err by (cases lk; cases r) (simp_all add: normal_done_def)
    qed
  qed
qed

lemma lock_shard_less: "lock_shard did < backfillDIDLockShardCount"
  by (simp add: lock_shard_def backfillDIDLockShardCount_def)

lemma acquire_free:
  "acquireBackfillDIDProcessLock ctx did (replicate backfillDIDLockShardCount False) =
    Some (Ok ((replicate backfillDIDLockShardCount False)[lock_shard did := True]))"
  using lock_shard_less [of did] by (simp add: acquireBackfillDIDProcessLock_def)

lemma sample_normalized:
  "normalizeBackfillRecordWrites ascii_unicode ''did:plc:a'' [sample_write, sample_write] = Ok [(sample_write, 0)]"
  by code_simp

lemma sample_tx:
  "fst (backfill_tx no_decoders ''did:plc:a'' [(sample_write, 0)] (sqlite_db empty_store 5))
   = Ok \<lparr>bf_changed = [0], bf_skipped = 0\<rparr>"
  by code_simp

theorem backfill_all_or_nothing_witness:
  "\<exists>d'. BatchUpsertWithValidationForBackfill ascii_unicode no_decoders None ''did:plc:a''
     [sample_write, sample_write] (replicate backfillDIDLockShardCount False) (sqlite_db empty_store 5)
     = Some (Ok \<lparr>bf_changed = [0], bf_skipped = 0\<rparr>, replicate backfillDIDLockShardCount False, d')
   \<and> find_record (rw_uri sample_write) (db_store d') \<noteq> None"
proof -
  define p where "p = BatchUpsertWithValidationForBackfill ascii_unicode no_decoders None ''did:plc:a''
     [sample_write, sample_write] (replicate backfillDIDLockShardCount False) (sqlite_db empty_store 5)"
  obtain d' where d': "backfill_tx no_decoders ''did:plc:a'' [(sample_write, 0)] (sqlite_db empty_store 5)
      = (Ok \<lparr>bf_changed = [0], bf_skipped = 0\<rparr>, d')"
    using fst_snd_eq [OF sample_tx] by blast
  have "records_ok (db_store (sqlite_db empty_store 5))" by code_simp
  note backfill_all_or_nothing [OF this, where U = ascii_unicode and X = no_decoders and ctx = None
      and did = "''did:plc:a''" and records = "[sample_write, sample_write]"
      and shards = "replicate backfillDIDLockShardCount False", folded p_def]
  moreover have "p = Some (Ok \<lparr>bf_changed = [0], bf_skipped = 0\<rparr>, release_lock ''did:plc:a''
      ((replicate backfillDIDLockShardCount False)[lock_shard ''did:plc:a'' := True]), d')"
    unfolding p_def BatchUpsertWithValidationForBackfill_def sample_normalized acquire_free by (simp add: d')
  ultimately show ?thesis unfolding p_def [symmetric] by auto
qed

end
