(* ===== verification/Keyset_Paging.thy ===== *)
theory Keyset_Paging
  imports Go_Prelude "HOL-Library.Multiset"
begin

text \<open>
  Keyset pagination, the loop shape shared by version history, \<open>IterateAll\<close>, the validation refresh and
  the handle reconciler: \<open>WHERE key > after ORDER BY key LIMIT n\<close>, then again after the last key.
  Over an unchanging table the pages are the whole remainder, in order, each row once.
\<close>

definition keyset_page :: "('a \<Rightarrow> 'k::linorder) \<Rightarrow> nat \<Rightarrow> 'k \<Rightarrow> 'a list \<Rightarrow> 'a list" where
  "keyset_page key n after xs = take n (sort_key key (filter (\<lambda>x. after < key x) xs))"

lemma keyset_page_set: "x \<in> set (keyset_page key n after xs) \<Longrightarrow> x \<in> set xs \<and> after < key x"
  unfolding keyset_page_def by (drule in_set_takeD) auto

lemma keyset_page_last:
  "keyset_page key n after xs \<noteq> [] \<Longrightarrow>
    last (keyset_page key n after xs) \<in> set xs \<and> after < key (last (keyset_page key n after xs))"
  using keyset_page_set [of "last (keyset_page key n after xs)" key n after xs] by simp

lemma filter_above:
  assumes "after < (l :: 'k::linorder)"
  shows "filter (\<lambda>y. l < key y) (filter (\<lambda>y. after < key y) xs) = filter (\<lambda>y. l < key y) xs"
  using assms by (simp, intro filter_cong) auto

lemma keyset_remaining_less:
  assumes "x \<in> set xs" "after < (key x :: 'k::linorder)"
  shows "length (filter (\<lambda>y. key x < key y) xs) < length (filter (\<lambda>y. after < key y) (xs :: 'a list))"
proof -
  have "filter (\<lambda>y. key x < key y) xs = filter (\<lambda>y. key x < key y) (filter (\<lambda>y. after < key y) xs)"
    by (rule filter_above [OF assms(2), symmetric])
  moreover have "x \<in> set (filter (\<lambda>y. after < key y) xs)" using assms by simp
  ultimately show ?thesis
    by (metis (no_types, lifting) length_filter_less less_irrefl)
qed

function keyset_all :: "('a \<Rightarrow> 'k::linorder) \<Rightarrow> nat \<Rightarrow> 'k \<Rightarrow> 'a list \<Rightarrow> 'a list" where
  "keyset_all key n after xs =
     (let p = keyset_page key n after xs in
      if p = [] then [] else p @ keyset_all key n (key (last p)) xs)"
  by auto
termination
  by (relation "measure (\<lambda>(key, n, after, xs). length (filter (\<lambda>x. after < key x) xs))")
    (auto intro!: keyset_remaining_less dest: keyset_page_last)

declare keyset_all.simps [simp del]

lemma sorted_strict_split:
  assumes "sorted_wrt (\<lambda>a b. key a < key b) ys" "take n ys \<noteq> []"
  shows "filter (\<lambda>y. key (last (take n ys)) < (key y :: 'k::linorder)) ys = drop n ys"
proof -
  have s: "sorted_wrt (\<lambda>a b. key a < key b) (take n ys @ drop n ys)" using assms(1) by simp
  moreover have "last (take n ys) \<in> set (take n ys)" using assms(2) by (rule last_in_set)
  ultimately have d: "\<forall>y\<in>set (drop n ys). key (last (take n ys)) < key y"
    unfolding sorted_wrt_append by blast
  define init l where "init = butlast (take n ys)" and "l = last (take n ys)"
  have i: "take n ys = init @ [l]" using assms(2) by (simp add: init_def l_def)
  then have "sorted_wrt (\<lambda>a b. key a < key b) (init @ [l])" using s by (metis sorted_wrt_append)
  then have "\<forall>y\<in>set (init @ [l]). \<not> key l < key y" by (auto simp: sorted_wrt_append)
  then have "\<forall>y\<in>set (take n ys). \<not> key (last (take n ys)) < key y" unfolding i last_snoc .
  then have "filter (\<lambda>y. key (last (take n ys)) < key y) (take n ys) = []" unfolding filter_empty_conv .
  moreover have "filter (\<lambda>y. key (last (take n ys)) < key y) (drop n ys) = drop n ys"
    using d unfolding filter_id_conv .
  ultimately show ?thesis by (metis append_Nil append_take_drop_id filter_append)
qed

lemma sort_key_strict:
  assumes "distinct (map key xs)"
  shows "sorted_wrt (\<lambda>a b. key a < (key b :: 'k::linorder)) (sort_key key xs)"
proof -
  have "sorted (map key (sort_key key xs))" by simp
  moreover have "mset (map key (sort_key key xs)) = mset (map key xs)" by simp
  then have "distinct (map key (sort_key key xs))" using assms by (metis mset_eq_imp_distinct_iff)
  ultimately have "sorted_wrt (<) (map key (sort_key key xs))" by (simp add: strict_sorted_iff)
  then show ?thesis by (simp add: sorted_wrt_map)
qed

theorem keyset_all_complete:
  assumes "distinct (map key xs)" "0 < n"
  shows "keyset_all key n after xs = sort_key key (filter (\<lambda>x. after < key x) xs)"
  using assms
proof (induction key n after xs rule: keyset_all.induct)
  case (1 key n after xs)
  let ?ys = "sort_key key (filter (\<lambda>x. after < key x) xs)"
  let ?p = "keyset_page key n after xs"
  have p: "?p = take n ?ys" by (simp add: keyset_page_def)
  show ?case
  proof (cases "?p = []")
    case True
    then have "?ys = []" using p 1(3) by simp
    moreover have "keyset_all key n after xs = []" using True by (simp add: keyset_all.simps [of key n after xs])
    ultimately show ?thesis by (simp only:)
  next
    case False
    let ?l = "key (last ?p)"
    have "keyset_all key n ?l xs = sort_key key (filter (\<lambda>x. ?l < key x) xs)" using 1 False by blast
    also have "filter (\<lambda>x. ?l < key x) xs = filter (\<lambda>x. ?l < key x) (filter (\<lambda>x. after < key x) xs)"
      using keyset_page_last [OF False] by (intro filter_above [symmetric]) simp
    also have "sort_key key (filter (\<lambda>x. ?l < key x) (filter (\<lambda>x. after < key x) xs)) = filter (\<lambda>x. ?l < key x) ?ys"
      by (simp add: filter_sort)
    also have "\<dots> = drop n ?ys"
      unfolding p by (rule sorted_strict_split) (use False p 1(2) in \<open>auto simp: sort_key_strict distinct_map_filter\<close>)
    finally have rest: "keyset_all key n ?l xs = drop n ?ys" .
    have "keyset_all key n after xs = ?p @ keyset_all key n ?l xs"
      using False by (simp add: keyset_all.simps [of key n after xs] Let_def)
    also have "\<dots> = ?p @ drop n ?ys" by (simp only: rest)
    also have "\<dots> = take n ?ys @ drop n ?ys" by (simp only: p)
    finally show ?thesis by (simp only: append_take_drop_id)
  qed
qed

text \<open>A page is downward closed: what it leaves out lies beyond its last key.\<close>

lemma keyset_page_le:
  assumes "distinct (map key xs)" "x \<in> set (keyset_page key n after xs)"
  shows "key x \<le> key (last (keyset_page key n after xs))"
proof -
  let ?p = "keyset_page key n after xs"
  have "sorted_wrt (\<lambda>a b. key a < key b) ?p"
    unfolding keyset_page_def by (intro sorted_wrt_take sort_key_strict distinct_map_filter assms(1))
  moreover have "?p = butlast ?p @ [last ?p]" using assms(2) by (metis append_butlast_last_id empty_iff list.set(1))
  ultimately have "sorted_wrt (\<lambda>a b. key a < key b) (butlast ?p @ [last ?p])" by simp
  then have "\<forall>y\<in>set (butlast ?p). key y < key (last ?p)" by (simp add: sorted_wrt_append)
  moreover have "x \<in> set (butlast ?p) \<or> x = last ?p"
    using assms(2) \<open>?p = butlast ?p @ [last ?p]\<close> by (metis in_set_conv_decomp rotate1.simps(2) set_ConsD set_append set_rotate1 Un_iff)
  ultimately show ?thesis by auto
qed

lemma keyset_page_beyond:
  assumes "distinct (map key xs)" "x \<in> set xs" "after < key x" "x \<notin> set (keyset_page key n after xs)"
    "keyset_page key n after xs \<noteq> []"
  shows "key (last (keyset_page key n after xs)) < key x"
proof -
  let ?ys = "sort_key key (filter (\<lambda>x. after < key x) xs)"
  have s: "sorted_wrt (\<lambda>a b. key a < key b) ?ys" by (intro sort_key_strict distinct_map_filter assms(1))
  have "x \<in> set ?ys" using assms(2,3) by simp
  moreover have "set ?ys = set (take n ?ys) \<union> set (drop n ?ys)" by (metis append_take_drop_id set_append)
  ultimately have "x \<in> set (drop n ?ys)" using assms(4) by (auto simp: keyset_page_def)
  moreover have "take n ?ys \<noteq> []" using assms(5) unfolding keyset_page_def .
  ultimately have "x \<in> set (filter (\<lambda>y. key (last (take n ?ys)) < key y) ?ys)"
    using sorted_strict_split [OF s] by metis
  then show ?thesis by (simp add: keyset_page_def)
qed

end
