(* ===== verification/Versions_Repo.thy ===== *)
theory Versions_Repo
  imports Records_Repo Keyset_Paging
begin

text \<open>
  Record version history: \<open>internal/database/repositories/record_versions.go\<close>.  The collection
  matcher with its two renderings (the Go test and the SQL predicate, with \<open>LIKE\<close> and its escape
  character written out), the dedupe key, \<open>Append\<close>, \<open>SeedBaseline\<close> and the page read \<open>ListByURI\<close>.
  The SHA-256 hex digest is the parameter \<open>sha\<close>.
\<close>

section \<open>Collection matcher\<close>

definition RecordVersionBaseline :: string where "RecordVersionBaseline = ''baseline''"
definition RecordVersionCreate :: string where "RecordVersionCreate = ''create''"
definition RecordVersionUpdate :: string where "RecordVersionUpdate = ''update''"
definition MaxRecordHistoryPageSize :: int where "MaxRecordHistoryPageSize = 500"

record collection_matcher =
  cm_exact :: "string list"
  cm_prefixes :: "string list"

definition matcher_entry :: "collection_matcher \<Rightarrow> string \<Rightarrow> collection_matcher" where
  "matcher_entry m raw =
     (let entry = trim_space raw in
      if entry = [] then m
      else if has_suffix entry ''.*'' then m\<lparr>cm_prefixes := cm_prefixes m @ [trim_suffix entry ''*'']\<rparr>
      else m\<lparr>cm_exact := set_put entry (cm_exact m)\<rparr>)"

definition NewCollectionMatcher :: "string \<Rightarrow> collection_matcher" where
  "NewCollectionMatcher lst =
     foldl matcher_entry \<lparr>cm_exact = [], cm_prefixes = []\<rparr> (split_on CHR '','' lst)"

definition matcher_empty :: "collection_matcher \<Rightarrow> bool" where
  "matcher_empty m = (cm_exact m = [] \<and> cm_prefixes m = [])"

definition Matches :: "collection_matcher \<Rightarrow> string \<Rightarrow> bool" where
  "Matches m collection =
     (collection \<in> set (cm_exact m) \<or> list_ex (\<lambda>prefix. has_prefix collection prefix) (cm_prefixes m))"

text \<open>SQL \<open>LIKE\<close> with the backslash as escape character; \<open>fold\<close> is the case folding of the dialect.\<close>

abbreviation backslash :: char where "backslash \<equiv> CHR 0x5C"

fun like_match :: "(char \<Rightarrow> char) \<Rightarrow> string \<Rightarrow> string \<Rightarrow> bool" where
  "like_match f [] s = (s = [])"
| "like_match f (p # ps) [] = (p = CHR ''%'' \<and> like_match f ps [])"
| "like_match f (p # ps) (c # s) =
     (if p = CHR ''%'' then like_match f ps (c # s) \<or> like_match f (p # ps) s
      else if p = CHR ''_'' then like_match f ps s
      else if p = backslash then
        (case ps of [] \<Rightarrow> False | q # qs \<Rightarrow> f q = f c \<and> like_match f qs s)
      else f p = f c \<and> like_match f ps s)"

definition ascii_fold :: "char \<Rightarrow> char" where
  "ascii_fold c = (if 65 \<le> byte c \<and> byte c \<le> 90 then char_of (byte c + 32) else c)"

definition like_fold :: "dialect \<Rightarrow> char \<Rightarrow> char" where
  "like_fold dia = (case dia of PostgreSQL \<Rightarrow> (\<lambda>c. c) | SQLite \<Rightarrow> ascii_fold)"

definition escapeLike :: "string \<Rightarrow> string" where
  "escapeLike v = concat (map (\<lambda>c. if c = backslash \<or> c = CHR ''%'' \<or> c = CHR ''_'' then [backslash, c] else [c]) v)"

text \<open>The predicate \<open>sqlPredicate\<close> renders, evaluated on a collection.\<close>

definition sqlPredicate :: "dialect \<Rightarrow> collection_matcher \<Rightarrow> string \<Rightarrow> bool" where
  "sqlPredicate dia m collection =
     (list_ex (\<lambda>e. collection = e) (cm_exact m)
      \<or> list_ex (\<lambda>prefix. like_match (like_fold dia) (escapeLike prefix @ ''%'') collection) (cm_prefixes m))"

section \<open>Operations\<close>

record version_write =
  vw_uri :: string
  vw_cid :: string
  vw_did :: string
  vw_collection :: string
  vw_action :: string
  vw_json :: "string option"
  vw_live :: "bool option"

definition versionKey :: "(string \<Rightarrow> string) \<Rightarrow> version_write \<Rightarrow> string" where
  "versionKey sha v =
     (if vw_cid v \<noteq> [] then vw_cid v
      else ''sha256:'' @ sha (case vw_json v of None \<Rightarrow> [] | Some b \<Rightarrow> b))"

abbreviation version_id :: "version_row \<Rightarrow> string \<times> string" where
  "version_id v \<equiv> (rv_uri v, rv_key v)"

text \<open>\<open>INSERT INTO record_version ... ON CONFLICT DO NOTHING\<close> of one row.  PostgreSQL's sequence
  advances on a conflict as well.\<close>

definition insert_version :: "dialect \<Rightarrow> (int \<Rightarrow> version_row) \<Rightarrow> store \<Rightarrow> store" where
  "insert_version dia mk s =
     (let row = mk (st_next_version s) in
      if version_id row \<in> version_id ` set (st_versions s)
      then (case dia of PostgreSQL \<Rightarrow> s\<lparr>st_next_version := st_next_version s + 1\<rparr> | SQLite \<Rightarrow> s)
      else s\<lparr>st_versions := st_versions s @ [row], st_next_version := st_next_version s + 1\<rparr>)"

definition version_of_write :: "(string \<Rightarrow> string) \<Rightarrow> int \<Rightarrow> string option \<Rightarrow> version_write \<Rightarrow> int \<Rightarrow> version_row" where
  "version_of_write sha now body v i =
     \<lparr>rv_id = i, rv_uri = vw_uri v, rv_cid = vw_cid v, rv_key = versionKey sha v, rv_did = vw_did v,
      rv_collection = vw_collection v, rv_action = vw_action v, rv_json = body, rv_live = vw_live v,
      rv_observed_at = now\<rparr>"

definition Append :: "unicode \<Rightarrow> (string \<Rightarrow> string) \<Rightarrow> version_write \<Rightarrow> unit dbm" where
  "Append U sha v d =
     (if vw_uri v = [] \<or> vw_did v = [] \<or> vw_collection v = [] then
        (Err ''record version requires uri, did and collection'', d)
      else if vw_action v \<noteq> RecordVersionCreate \<and> vw_action v \<noteq> RecordVersionUpdate then
        (Err (''unsupported record version action '' @ go_quote U (vw_action v)), d)
      else db_wrap (''append record version for '' @ vw_uri v @ '': '')
        (db_exec (\<lambda>s.
           case vw_json v of
             None \<Rightarrow> Ok ((), insert_version (db_dialect d) (version_of_write sha (db_now d) None v) s)
           | Some b \<Rightarrow>
               (case db_json_in d b of
                  None \<Rightarrow> Err jsonCastError
                | Some j \<Rightarrow> Ok ((), insert_version (db_dialect d) (version_of_write sha (db_now d) (Some j) v) s)))) d)"

definition baseline_of_row :: "record_row \<Rightarrow> int \<Rightarrow> version_row" where
  "baseline_of_row r i =
     \<lparr>rv_id = i, rv_uri = rr_uri r, rv_cid = rr_cid r,
      rv_key = (if rr_cid r = [] then ''baseline'' else rr_cid r), rv_did = rr_did r,
      rv_collection = rr_collection r, rv_action = RecordVersionBaseline, rv_json = Some (rr_json r),
      rv_live = None, rv_observed_at = rr_indexed_at r\<rparr>"

definition seed_rows :: "dialect \<Rightarrow> collection_matcher \<Rightarrow> store \<Rightarrow> record_row list" where
  "seed_rows dia m s =
     filter (\<lambda>r. sqlPredicate dia m (rr_collection r) \<and> rr_uri r \<notin> rv_uri ` set (st_versions s)) (st_records s)"

definition seed_statement :: "dialect \<Rightarrow> collection_matcher \<Rightarrow> int statement" where
  "seed_statement dia m s =
     (let s' = foldl (\<lambda>s r. insert_version dia (baseline_of_row r) s) s (seed_rows dia m s)
      in Ok (int (length (st_versions s')) - int (length (st_versions s)), s'))"

definition SeedBaseline :: "collection_matcher \<Rightarrow> int dbm" where
  "SeedBaseline m d =
     (if matcher_empty m then (Ok 0, d)
      else db_bind (db_wrap ''seed record version baseline: '' (db_exec (seed_statement (db_dialect d) m)))
             (\<lambda>n. db_bind (db_wrap ''count seeded record versions: '' db_nop) (\<lambda>_. db_return n)) d)"

definition ListByURI :: "string \<Rightarrow> int \<Rightarrow> int \<Rightarrow> version_row list dbm" where
  "ListByURI uri afterID limit =
     (if limit \<le> 0 \<or> limit > MaxRecordHistoryPageSize then
        db_fail (''record history page size must be between 1 and '' @ show_int MaxRecordHistoryPageSize)
      else db_wrap (''list record versions for '' @ uri @ '': '')
        (db_exec (\<lambda>s. Ok (take (nat limit)
           (sort_key rv_id (filter (\<lambda>v. rv_uri v = uri \<and> rv_id v > afterID) (st_versions s))), s))))"

section \<open>The matcher\<close>

text \<open>The escaped prefix pattern matches exactly the strings with that prefix, up to the dialect's
  case folding: no character of the prefix acts as a wildcard.\<close>

lemma like_percent: "like_match f ''%'' s"
  by (induction s) auto

lemma like_escaped_Cons:
  "like_match f (escapeLike (q # v) @ ps) s \<longleftrightarrow>
    (\<exists>c t. s = c # t \<and> f q = f c \<and> like_match f (escapeLike v @ ps) t)"
  by (cases s) (auto simp: escapeLike_def)

lemma like_escaped_prefix:
  "like_match f (escapeLike p @ ''%'') s \<longleftrightarrow> (\<exists>a b. s = a @ b \<and> map f a = map f p)"
proof (induction p arbitrary: s)
  case Nil
  then show ?case by (simp add: escapeLike_def like_percent)
next
  case (Cons q p)
  show ?case unfolding like_escaped_Cons Cons.IH
    by (auto simp: map_eq_Cons_conv Cons_eq_append_conv) (metis append_Cons list.simps(9), blast)
qed

lemma like_escaped_prefix_id: "like_match (\<lambda>c. c) (escapeLike p @ ''%'') s \<longleftrightarrow> has_prefix s p"
  by (auto simp: like_escaped_prefix has_prefix_iff)

text \<open>C29: the SQL rendering of a history matcher selects, on PostgreSQL, exactly the collections the Go
  test selects; on SQLite, where \<open>LIKE\<close> ignores ASCII case, it selects at least those, and the extra ones
  only differ from a configured prefix in letter case.\<close>

theorem sqlPredicate_Matches:
  "sqlPredicate PostgreSQL m c = Matches m c
   \<and> (Matches m c \<longrightarrow> sqlPredicate SQLite m c)
   \<and> (sqlPredicate SQLite m c \<longrightarrow> Matches m c
        \<or> (\<exists>p\<in>set (cm_prefixes m). \<exists>a b. c = a @ b \<and> map ascii_fold a = map ascii_fold p))"
proof (intro conjI impI)
  show "sqlPredicate PostgreSQL m c = Matches m c"
    by (auto simp: sqlPredicate_def Matches_def like_fold_def like_escaped_prefix_id list_ex_iff)
  show "sqlPredicate SQLite m c" if "Matches m c"
    using that by (auto simp: sqlPredicate_def Matches_def like_fold_def like_escaped_prefix list_ex_iff has_prefix_iff)
  show "Matches m c \<or> (\<exists>p\<in>set (cm_prefixes m). \<exists>a b. c = a @ b \<and> map ascii_fold a = map ascii_fold p)"
    if "sqlPredicate SQLite m c"
    using that by (auto simp: sqlPredicate_def Matches_def like_fold_def like_escaped_prefix list_ex_iff)
qed

theorem sqlPredicate_Matches_witness:
  "sqlPredicate SQLite (NewCollectionMatcher ''app.x.*, org.y'') ''app.x.post''
   \<and> sqlPredicate PostgreSQL (NewCollectionMatcher ''app.x.*, org.y'') ''app.x.post''"
proof -
  have "Matches (NewCollectionMatcher ''app.x.*, org.y'') ''app.x.post''" by code_simp
  then show ?thesis using sqlPredicate_Matches by blast
qed

section \<open>The version table\<close>

definition versions_ok :: "store \<Rightarrow> bool" where
  "versions_ok s =
     (distinct (map version_id (st_versions s)) \<and> sorted_wrt (<) (map rv_id (st_versions s))
      \<and> (\<forall>v\<in>set (st_versions s). rv_id v < st_next_version s))"

lemma insert_version_cases:
  obtains (Dup) "version_id (mk (st_next_version s)) \<in> version_id ` set (st_versions s)"
      "st_versions (insert_version dia mk s) = st_versions s" "st_next_version s \<le> st_next_version (insert_version dia mk s)"
  | (New) "version_id (mk (st_next_version s)) \<notin> version_id ` set (st_versions s)"
      "st_versions (insert_version dia mk s) = st_versions s @ [mk (st_next_version s)]"
      "st_next_version (insert_version dia mk s) = st_next_version s + 1"
  by (cases "version_id (mk (st_next_version s)) \<in> version_id ` set (st_versions s)"; cases dia)
    (auto simp: insert_version_def Let_def)

lemma insert_version_frame [simp]:
  "st_records (insert_version dia mk s) = st_records s" "st_actors (insert_version dia mk s) = st_actors s"
  "st_activity (insert_version dia mk s) = st_activity s" "st_next_activity (insert_version dia mk s) = st_next_activity s"
  by (auto simp: insert_version_def Let_def split: dialect.splits)

lemma insert_version_prefix: "\<exists>new. st_versions (insert_version dia mk s) = st_versions s @ new"
  by (cases rule: insert_version_cases [of mk s dia]) auto

lemma versions_ok_insert:
  assumes "versions_ok s" "\<And>i. rv_id (mk i) = i"
  shows "versions_ok (insert_version dia mk s)"
proof (cases rule: insert_version_cases [of mk s dia])
  case Dup
  then show ?thesis using assms(1) by (fastforce simp: versions_ok_def)
next
  case New
  then show ?thesis using assms by (auto simp: versions_ok_def sorted_wrt_append less_SucI)
qed

text \<open>A version already stored is left alone by another insert of the same key.\<close>

lemma insert_version_again:
  assumes "\<And>i j. version_id (mk i) = version_id (mk' j)"
  shows "st_versions (insert_version dia mk' (insert_version dia mk s)) = st_versions (insert_version dia mk s)"
proof -
  have "version_id (mk' j) \<in> version_id ` set (st_versions (insert_version dia mk s))" for j
    using assms [of _ j] by (cases rule: insert_version_cases [of mk s dia]) (auto simp: assms)
  then show ?thesis
    by (cases rule: insert_version_cases [of mk' "insert_version dia mk s" dia]) auto
qed

lemma version_of_write_simps [simp]:
  "rv_id (version_of_write sha now b v i) = i" "rv_uri (version_of_write sha now b v i) = vw_uri v"
  "rv_key (version_of_write sha now b v i) = versionKey sha v"
  by (simp_all add: version_of_write_def)

lemma baseline_of_row_simps [simp]:
  "rv_id (baseline_of_row r i) = i" "rv_uri (baseline_of_row r i) = rr_uri r"
  by (simp_all add: baseline_of_row_def)

lemma Append_cases:
  assumes "Append U sha v d = (r, d')"
  obtains (Fail) e where "r = Err e" "db_store d' = db_store d" "same_env d d'"
  | (Done) b where "r = Ok ()" "same_env d d'" "vw_json v = None \<longrightarrow> b = None"
      "\<forall>x. vw_json v = Some x \<longrightarrow> b = db_json_in d x \<and> b \<noteq> None"
      "db_store d' = insert_version (db_dialect d) (version_of_write sha (db_now d) b v) (db_store d)"
  using assms unfolding Append_def
  by (cases r) (auto dest!: db_wrap_ErrD elim!: db_exec_cases split: if_splits option.splits intro: that)

definition has_version :: "string \<Rightarrow> string \<Rightarrow> store \<Rightarrow> bool" where
  "has_version uri key s = (\<exists>v\<in>set (st_versions s). rv_uri v = uri \<and> rv_key v = key)"

lemma Append_effect:
  assumes "Append U sha v d = (r, d')" "versions_ok (db_store d)"
  shows "versions_ok (db_store d') \<and> same_env d d'
    \<and> (\<exists>new. st_versions (db_store d') = st_versions (db_store d) @ new)
    \<and> st_records (db_store d') = st_records (db_store d) \<and> st_actors (db_store d') = st_actors (db_store d)
    \<and> (is_ok r \<longrightarrow> has_version (vw_uri v) (versionKey sha v) (db_store d'))"
  using assms(1)
proof (cases rule: Append_cases)
  case (Fail e)
  then show ?thesis using assms(2) by (simp add: is_ok_def)
next
  case (Done b)
  have "has_version (vw_uri v) (versionKey sha v) (db_store d')" unfolding has_version_def Done(5)
    by (cases rule: insert_version_cases [of "version_of_write sha (db_now d) b v" "db_store d" "db_dialect d"])
      fastforce+
  then show ?thesis using Done versions_ok_insert [OF assms(2)] insert_version_prefix by simp
qed

lemma sorted_wrt_map_filter: "sorted_wrt P (map f xs) \<Longrightarrow> sorted_wrt P (map f (filter Q xs))"
  by (induction xs) auto

lemma versions_ok_purge: "versions_ok s \<Longrightarrow> versions_ok (purge_store column value s)"
  by (simp add: versions_ok_def purge_store_def tbl_delete_def distinct_map_filter sorted_wrt_map_filter)

text \<open>C27: history is append-only and records each version once.  A successful \<open>Append\<close> stores a version under
  the write's key, whatever was stored before stays in place and in order, ids stay unique and increasing, and delivering
  the same version again, at any later time and with any action or live flag, leaves the version table unchanged.\<close>

theorem Append_once:
  assumes "versions_ok (db_store d)" "Append U sha v d = (Ok u, d')"
    and "vw_uri w = vw_uri v" "versionKey sha w = versionKey sha v" "db_store e = db_store d'"
  shows "has_version (vw_uri v) (versionKey sha v) (db_store d')
    \<and> (\<exists>new. st_versions (db_store d') = st_versions (db_store d) @ new \<and> length new \<le> 1)
    \<and> versions_ok (db_store d')
    \<and> st_versions (db_store (snd (Append U sha w e))) = st_versions (db_store d')"
proof -
  have eff: "versions_ok (db_store d') \<and> has_version (vw_uri v) (versionKey sha v) (db_store d')"
    using Append_effect [OF assms(2,1)] by (simp add: is_ok_def)
  have new: "\<exists>new. st_versions (db_store d') = st_versions (db_store d) @ new \<and> length new \<le> 1"
    using assms(2)
  proof (cases rule: Append_cases)
    case (Done b)
    then show ?thesis
      by (cases rule: insert_version_cases [of "version_of_write sha (db_now d) b v" "db_store d" "db_dialect d"]) auto
  qed simp
  obtain r e' where e': "Append U sha w e = (r, e')" by (cases "Append U sha w e")
  from this have "st_versions (db_store e') = st_versions (db_store e)"
  proof (cases rule: Append_cases)
    case (Done b)
    have "(vw_uri w, versionKey sha w) \<in> version_id ` set (st_versions (db_store e))"
      using eff assms(3-5) unfolding has_version_def by force
    then show ?thesis unfolding Done(5)
      by (cases rule: insert_version_cases [of "version_of_write sha (db_now e) b w" "db_store e" "db_dialect e"]) auto
  qed simp
  then show ?thesis using eff new e' assms(5) by simp
qed

definition sample_version :: version_write where
  "sample_version = \<lparr>vw_uri = ''at://did:plc:a/org.x.y/1'', vw_cid = ''bafy1'', vw_did = ''did:plc:a'',
     vw_collection = ''org.x.y'', vw_action = ''create'', vw_json = Some ''{}'', vw_live = Some True\<rparr>"

theorem Append_once_witness:
  "let d' = snd (Append ascii_unicode id sample_version (sqlite_db empty_store 5))
   in has_version ''at://did:plc:a/org.x.y/1'' ''bafy1'' (db_store d')
    \<and> st_versions (db_store (snd (Append ascii_unicode id (sample_version\<lparr>vw_action := ''update''\<rparr>) d')))
      = st_versions (db_store d')"
proof -
  have ok: "versions_ok (db_store (sqlite_db empty_store 5))" by code_simp
  define d' where "d' = snd (Append ascii_unicode id sample_version (sqlite_db empty_store 5))"
  have "fst (Append ascii_unicode id sample_version (sqlite_db empty_store 5)) = Ok ()" by code_simp
  then have "Append ascii_unicode id sample_version (sqlite_db empty_store 5) = (Ok (), d')"
    unfolding d'_def by (rule fst_snd_eq)
  from Append_once [OF ok this, of "sample_version\<lparr>vw_action := ''update''\<rparr>" d']
  show ?thesis unfolding d'_def [symmetric] by (simp add: versionKey_def) (simp add: sample_version_def)
qed

section \<open>Seeding\<close>

lemma insert_version_new:
  assumes "rr_uri r \<notin> rv_uri ` set (st_versions s)"
  shows "st_versions (insert_version dia (baseline_of_row r) s) = st_versions s @ [baseline_of_row r (st_next_version s)]"
proof (cases rule: insert_version_cases [of "baseline_of_row r" s dia])
  case Dup
  then show ?thesis using assms by auto
qed

lemma seed_fold:
  assumes "distinct (map rr_uri rows)" "rr_uri ` set rows \<inter> rv_uri ` set (st_versions s) = {}"
  shows "\<exists>new. st_versions (foldl (\<lambda>s r. insert_version dia (baseline_of_row r) s) s rows) = st_versions s @ new
    \<and> list_all2 (\<lambda>r v. v = baseline_of_row r (rv_id v)) rows new"
  using assms
proof (induction rows arbitrary: s)
  case Nil
  then show ?case by simp
next
  case (Cons r rows)
  let ?s1 = "insert_version dia (baseline_of_row r) s"
  have s1: "st_versions ?s1 = st_versions s @ [baseline_of_row r (st_next_version s)]"
    using Cons.prems(2) by (intro insert_version_new) auto
  have "rr_uri ` set rows \<inter> rv_uri ` set (st_versions ?s1) = {}"
    using Cons.prems unfolding s1 by auto
  then obtain new where "st_versions (foldl (\<lambda>s r. insert_version dia (baseline_of_row r) s) ?s1 rows) = st_versions ?s1 @ new"
    "list_all2 (\<lambda>r v. v = baseline_of_row r (rv_id v)) rows new" using Cons.IH [of ?s1] Cons.prems(1) by auto
  then show ?case using s1 by auto
qed

lemma seed_fold_frame:
  "st_records (foldl (\<lambda>s r. insert_version dia (baseline_of_row r) s) s rows) = st_records s
   \<and> st_actors (foldl (\<lambda>s r. insert_version dia (baseline_of_row r) s) s rows) = st_actors s"
  by (induction rows arbitrary: s) auto

lemma versions_ok_seed: "versions_ok s \<Longrightarrow> versions_ok (foldl (\<lambda>s r. insert_version dia (baseline_of_row r) s) s rows)"
  by (induction rows arbitrary: s) (simp_all add: versions_ok_insert)

lemma SeedBaseline_OkD:
  assumes "SeedBaseline m d = (Ok n, d')" "\<not> matcher_empty m"
  shows "seed_statement (db_dialect d) m (db_store d) = Ok (n, db_store d') \<and> same_env d d'"
  using assms unfolding SeedBaseline_def
  by (auto simp: db_bind_Ok_iff same_env_def dest!: db_exec_OkD db_nop_env)

lemma sqlPredicate_not_empty: "sqlPredicate dia m c \<Longrightarrow> \<not> matcher_empty m"
  by (auto simp: sqlPredicate_def matcher_empty_def)

lemma baseline_uris:
  "list_all2 (\<lambda>r v. v = baseline_of_row r (rv_id v)) rows new \<Longrightarrow> rr_uri ` set rows \<subseteq> rv_uri ` set new"
proof (induction rows new rule: list_all2_induct)
  case (Cons r rows v new)
  then have "rv_uri v = rr_uri r" by (metis baseline_of_row_simps(2))
  then show ?case using Cons by auto
qed simp

text \<open>C28: seeding history is exact and idempotent.  When \<open>SeedBaseline\<close> succeeds it has appended one baseline version,
  with the record's content and \<open>indexed_at\<close>, for each record of an opted-in collection that had no history, and counts exactly those;
  versions already stored and all records are untouched, every opted-in record now has history, and running it again adds nothing.\<close>

theorem SeedBaseline_exact:
  assumes "records_ok (db_store d)" "versions_ok (db_store d)" "SeedBaseline m d = (Ok n, d')"
  shows "\<exists>new. st_versions (db_store d') = st_versions (db_store d) @ new
    \<and> list_all2 (\<lambda>r v. v = baseline_of_row r (rv_id v)) (seed_rows (db_dialect d) m (db_store d)) new
    \<and> n = int (length (seed_rows (db_dialect d) m (db_store d)))
    \<and> st_records (db_store d') = st_records (db_store d) \<and> versions_ok (db_store d')
    \<and> seed_rows (db_dialect d) m (db_store d') = []
    \<and> fst (SeedBaseline m (d'\<lparr>db_faults := []\<rparr>)) = Ok 0
    \<and> db_store (snd (SeedBaseline m (d'\<lparr>db_faults := []\<rparr>))) = db_store d'"
proof (cases "matcher_empty m")
  case True
  then have "seed_rows dia m s = []" for dia s
    using sqlPredicate_not_empty by (fastforce simp: seed_rows_def filter_empty_conv)
  then show ?thesis using assms True by (simp add: SeedBaseline_def)
next
  case False
  let ?rows = "seed_rows (db_dialect d) m (db_store d)"
  note sd = SeedBaseline_OkD [OF assms(3) False]
  have s': "db_store d' = foldl (\<lambda>s r. insert_version (db_dialect d) (baseline_of_row r) s) (db_store d) ?rows"
    "n = int (length (st_versions (db_store d'))) - int (length (st_versions (db_store d)))"
    using sd by (auto simp: seed_statement_def Let_def)
  have disj: "rr_uri ` set ?rows \<inter> rv_uri ` set (st_versions (db_store d)) = {}" by (auto simp: seed_rows_def)
  have "distinct (map rr_uri ?rows)"
    using assms(1) by (simp add: records_ok_def seed_rows_def distinct_map_filter)
  from seed_fold [OF this disj] obtain new where new: "st_versions (db_store d') = st_versions (db_store d) @ new"
    "list_all2 (\<lambda>r v. v = baseline_of_row r (rv_id v)) ?rows new" unfolding s'(1) by blast
  have recs: "st_records (db_store d') = st_records (db_store d)" unfolding s'(1) using seed_fold_frame by simp
  have ok: "versions_ok (db_store d')" unfolding s'(1) by (rule versions_ok_seed [OF assms(2)])
  have "rr_uri ` set ?rows \<subseteq> rv_uri ` set new" by (rule baseline_uris [OF new(2)])
  then have none: "seed_rows (db_dialect d) m (db_store d') = []"
    using new(1) recs by (auto simp: seed_rows_def filter_empty_conv)
  then have again: "seed_statement (db_dialect d') m (db_store d') = Ok (0, db_store d')"
    using sd by (simp add: seed_statement_def same_env_def)
  then have "SeedBaseline m (d'\<lparr>db_faults := []\<rparr>) = (Ok 0, d'\<lparr>db_faults := []\<rparr>)"
    using False by (simp add: SeedBaseline_def db_bind_def db_wrap_def db_simps db_return_def)
  then show ?thesis using new recs ok none list_all2_lengthD [OF new(2)] s'(2) by simp
qed

theorem SeedBaseline_exact_witness:
  "let d = sqlite_db (empty_store\<lparr>st_records := [sample_row]\<rparr>) 5; m = NewCollectionMatcher ''org.x.y''
   in fst (SeedBaseline m d) = Ok 1
    \<and> fst (SeedBaseline m ((snd (SeedBaseline m d))\<lparr>db_faults := []\<rparr>)) = Ok 0"
proof -
  define d where "d = sqlite_db (empty_store\<lparr>st_records := [sample_row]\<rparr>) 5"
  define m where "m = NewCollectionMatcher ''org.x.y''"
  have ok: "records_ok (db_store d)" "versions_ok (db_store d)" unfolding d_def by code_simp+
  have f: "fst (SeedBaseline m d) = Ok 1" unfolding d_def m_def by code_simp
  from SeedBaseline_exact [OF ok fst_snd_eq [OF f]] f show ?thesis
    unfolding d_def [symmetric] m_def [symmetric] Let_def by blast
qed

section \<open>Pages\<close>

lemma ListByURI_page:
  "0 < limit \<Longrightarrow> limit \<le> MaxRecordHistoryPageSize \<Longrightarrow> ListByURI uri afterID limit d = (Ok page, d') \<Longrightarrow>
    page = keyset_page rv_id (nat limit) afterID (filter (\<lambda>v. rv_uri v = uri) (st_versions (db_store d)))
    \<and> db_store d' = db_store d"
  by (auto simp: ListByURI_def keyset_page_def conj_commute dest!: db_exec_pure_OkD)

text \<open>\<open>ListByURI\<close> refuses a page size outside 1 to 500 without touching the database, and otherwise
  returns the oldest versions of the URI after the given id: strictly increasing ids, at most \<open>limit\<close> of them,
  nothing skipped below the last one returned, and everything that remains when the page is not full.\<close>

theorem ListByURI_pages:
  assumes "versions_ok (db_store d)" "ListByURI uri afterID limit d = (Ok page, d')"
  shows "0 < limit \<and> limit \<le> 500 \<and> db_store d' = db_store d
    \<and> sorted_wrt (\<lambda>a b. rv_id a < rv_id b) page \<and> int (length page) \<le> limit
    \<and> (\<forall>v. v \<in> set page \<longrightarrow> v \<in> set (st_versions (db_store d)) \<and> rv_uri v = uri \<and> afterID < rv_id v)
    \<and> (\<forall>v\<in>set (st_versions (db_store d)). rv_uri v = uri \<and> afterID < rv_id v \<longrightarrow>
         v \<in> set page \<or> (int (length page) = limit \<and> rv_id (last page) < rv_id v))"
proof -
  have lim: "0 < limit" "limit \<le> MaxRecordHistoryPageSize"
    using assms(2) by (auto simp: ListByURI_def split: if_splits)
  let ?vs = "filter (\<lambda>v. rv_uri v = uri) (st_versions (db_store d))"
  let ?all = "sort_key rv_id (filter (\<lambda>v. afterID < rv_id v) ?vs)"
  have page: "page = take (nat limit) ?all" "db_store d' = db_store d"
    using ListByURI_page [OF lim assms(2)] by (auto simp: keyset_page_def)
  have "distinct (map rv_id (st_versions (db_store d)))"
    using assms(1) by (auto simp: versions_ok_def strict_sorted_iff)
  then have srt: "sorted_wrt (\<lambda>a b. rv_id a < rv_id b) ?all" by (intro sort_key_strict distinct_map_filter)
  have rest: "v \<in> set page \<or> (int (length page) = limit \<and> rv_id (last page) < rv_id v)"
    if "v \<in> set (st_versions (db_store d))" "rv_uri v = uri" "afterID < rv_id v" for v
  proof (cases "v \<in> set page")
    case False
    have "v \<in> set ?all" using that by simp
    moreover have "set ?all = set (take (nat limit) ?all) \<union> set (drop (nat limit) ?all)"
      by (metis append_take_drop_id set_append)
    ultimately have dr: "v \<in> set (drop (nat limit) ?all)" using False page(1) by blast
    then have "nat limit < length ?all" by (metis drop_eq_Nil2 empty_iff list.set(1) not_le)
    then have "length page = nat limit" unfolding page(1) length_take by simp
    then have len: "length page = nat limit" "page \<noteq> []" using lim(1) by auto
    have "sorted_wrt (\<lambda>a b. rv_id a < rv_id b) (page @ drop (nat limit) ?all)"
      using srt page(1) by simp
    then have "rv_id (last page) < rv_id v" using dr len(2) by (auto simp: sorted_wrt_append)
    then show ?thesis using len lim by simp
  qed simp
  have "sorted_wrt (\<lambda>a b. rv_id a < rv_id b) page" using srt page(1) by (simp add: sorted_wrt_take)
  moreover have "int (length page) \<le> limit" using page(1) lim by simp
  moreover have "v \<in> set (st_versions (db_store d)) \<and> rv_uri v = uri \<and> afterID < rv_id v" if "v \<in> set page" for v
    using in_set_takeD [of v "nat limit" ?all] that page(1) by auto
  ultimately show ?thesis using lim rest page(2) by (simp add: MaxRecordHistoryPageSize_def)
qed

theorem ListByURI_pages_witness:
  "let d = snd (Append ascii_unicode id sample_version (sqlite_db empty_store 5))
   in map rv_cid (projr (fst (ListByURI ''at://did:plc:a/org.x.y/1'' 0 10 d))) = [''bafy1'']
    \<and> db_store (snd (ListByURI ''at://did:plc:a/org.x.y/1'' 0 10 d)) = db_store d"
proof -
  define d where "d = snd (Append ascii_unicode id sample_version (sqlite_db empty_store 5))"
  define page where "page = projr (fst (ListByURI ''at://did:plc:a/org.x.y/1'' 0 10 d))"
  have ok: "versions_ok (db_store d)" unfolding d_def by code_simp
  have f: "fst (ListByURI ''at://did:plc:a/org.x.y/1'' 0 10 d) = Ok page" "map rv_cid page = [''bafy1'']"
    unfolding page_def d_def by code_simp+
  from ListByURI_pages [OF ok fst_snd_eq [OF f(1)]] f(2) show ?thesis
    unfolding d_def [symmetric] page_def [symmetric] Let_def by blast
qed

end
