(* ===== verification/Actors_Repo.thy ===== *)
theory Actors_Repo
  imports Records_Repo
begin

text \<open>
  \<open>ActorsRepository\<close> (\<open>internal/database/repositories/actors.go\<close>) and the two operations of
  \<open>IndexingActivityRepository\<close> that ingestion calls (\<open>indexing_activity.go\<close>).
\<close>

section \<open>Actors\<close>

text \<open>SQL \<open>TRIM\<close> removes spaces only.\<close>

definition sql_trim :: "string \<Rightarrow> string" where
  "sql_trim s = rev (dropWhile (\<lambda>c. c = CHR '' '') (rev (dropWhile (\<lambda>c. c = CHR '' '') s)))"

definition missing_handle :: "actor_row \<Rightarrow> bool" where
  "missing_handle a = (case ac_handle a of None \<Rightarrow> True | Some h \<Rightarrow> sql_trim h = [] \<or> h = ac_did a)"

definition Ensure :: "string \<Rightarrow> unit dbm" where
  "Ensure did d =
     db_exec (\<lambda>s. Ok ((), s\<lparr>st_actors := tbl_insert_ignore ac_did
        \<lparr>ac_did = did, ac_handle = None, ac_indexed_at = db_now d\<rparr> (st_actors s)\<rparr>)) d"

definition identity_merge :: "actor_row \<Rightarrow> actor_row \<Rightarrow> actor_row" where
  "identity_merge old new = old\<lparr>ac_handle := ac_handle new, ac_indexed_at := ac_indexed_at new\<rparr>"

definition UpsertIdentity :: "string \<Rightarrow> string \<Rightarrow> unit dbm" where
  "UpsertIdentity did handle d =
     db_exec (\<lambda>s. Ok ((), s\<lparr>st_actors := tbl_upsert ac_did identity_merge
        \<lparr>ac_did = did, ac_handle = Some handle, ac_indexed_at = db_now d\<rparr> (st_actors s)\<rparr>)) d"

definition Upsert :: "string \<Rightarrow> string \<Rightarrow> unit dbm" where
  "Upsert did handle = UpsertIdentity did handle"

definition SetHandleIfMissing :: "string \<Rightarrow> string \<Rightarrow> bool dbm" where
  "SetHandleIfMissing did handle d =
     (let P = (\<lambda>a. ac_did a = did \<and> missing_handle a) in
      db_bind (db_exec (\<lambda>s. Ok (tbl_affected P (st_actors s), s\<lparr>st_actors :=
                 tbl_update P (\<lambda>a. a\<lparr>ac_handle := Some handle, ac_indexed_at := db_now d\<rparr>) (st_actors s)\<rparr>)))
        (\<lambda>n. db_bind db_nop (\<lambda>_. db_return (n > 0))) d)"

record actor_data =
  ad_did :: string
  ad_handle :: string

definition batch_actor_merge :: "int \<Rightarrow> actor_row \<Rightarrow> actor_row \<Rightarrow> actor_row" where
  "batch_actor_merge now old new =
     old\<lparr>ac_handle := (if ac_handle new = Some [] then ac_handle old else ac_handle new), ac_indexed_at := now\<rparr>"

definition batchUpsertChunk :: "actor_data list \<Rightarrow> unit dbm" where
  "batchUpsertChunk actors d =
     db_exec (\<lambda>s.
       if db_dialect d = PostgreSQL \<and> \<not> distinct (map ad_did actors) then Err conflictTwiceError
       else Ok ((), s\<lparr>st_actors := foldl (\<lambda>t a. tbl_upsert ac_did (batch_actor_merge (db_now d))
              \<lparr>ac_did = ad_did a, ac_handle = Some (ad_handle a), ac_indexed_at = db_now d\<rparr> t) (st_actors s) actors\<rparr>)) d"

definition BatchUpsert :: "actor_data list \<Rightarrow> unit dbm" where
  "BatchUpsert actors =
     (if actors = [] then db_return () else db_each batchUpsertChunk (chunks BatchInsertSize actors))"

text \<open>Reads give NULL handles as the empty string.\<close>

record actor =
  a_did :: string
  a_handle :: string
  a_indexed_at :: int

definition read_actor :: "actor_row \<Rightarrow> actor" where
  "read_actor r = \<lparr>a_did = ac_did r, a_handle = null_string (ac_handle r), a_indexed_at = ac_indexed_at r\<rparr>"

text \<open>\<open>None\<close> is \<open>sql.ErrNoRows\<close>.\<close>

definition GetByDID :: "string \<Rightarrow> actor option dbm" where
  "GetByDID did = db_exec (\<lambda>s. Ok (map_option read_actor (tbl_find ac_did did (st_actors s)), s))"

definition GetByDIDs :: "string list \<Rightarrow> (string \<times> actor) list dbm" where
  "GetByDIDs dids =
     (if dids = [] then db_return []
      else db_exec (\<lambda>s. Ok (foldl (\<lambda>m r. map_put (ac_did r) (read_actor r) m) []
             (filter (\<lambda>r. ac_did r \<in> set dids) (st_actors s)), s)))"

definition ListDIDsMissingHandle :: "string \<Rightarrow> int \<Rightarrow> string list dbm" where
  "ListDIDsMissingHandle afterDID limit =
     (let lim = (if limit \<le> 0 then 100 else limit) in
      db_exec (\<lambda>s. Ok (take (nat lim) (sort_key (\<lambda>x. x)
        (map ac_did (filter (\<lambda>a. missing_handle a \<and> afterDID < ac_did a) (st_actors s)))), s)))"

definition GetByHandle :: "string \<Rightarrow> actor option dbm" where
  "GetByHandle handle =
     db_exec (\<lambda>s. Ok (map_option read_actor (List.find (\<lambda>r. ac_handle r = Some handle) (st_actors s)), s))"

definition GetActorCount :: "int dbm" where
  "GetActorCount = db_exec (\<lambda>s. Ok (int (length (st_actors s)), s))"

definition DeleteAllActors :: "unit dbm" where
  "DeleteAllActors = db_exec (\<lambda>s. Ok ((), s\<lparr>st_actors := []\<rparr>))"

definition DeleteActorByDID :: "unicode \<Rightarrow> string \<Rightarrow> unit dbm" where
  "DeleteActorByDID U did =
     db_wrap (''delete actor by DID '' @ go_quote U did @ '': '')
       (db_exec (\<lambda>s. Ok ((), s\<lparr>st_actors := tbl_delete (\<lambda>a. ac_did a = did) (st_actors s)\<rparr>)))"

definition ActorExists :: "string \<Rightarrow> bool dbm" where
  "ActorExists did = db_exec (\<lambda>s. Ok (tbl_affected (\<lambda>a. ac_did a = did) (st_actors s) > 0, s))"

section \<open>Activity log\<close>

definition json_valid :: "decoders \<Rightarrow> string \<Rightarrow> bool" where
  "json_valid X s = (dec_json X s \<noteq> None)"

definition normalizeActivityEventJSON :: "unicode \<Rightarrow> decoders \<Rightarrow> string \<Rightarrow> string res" where
  "normalizeActivityEventJSON U X eventJSON =
     (let trimmed = trim_space eventJSON in
      if trimmed = [] \<or> trimmed = ''null'' then Ok ''{}''
      else if \<not> json_valid X trimmed then
        Err (''activity event_json must be valid JSON, got '' @ go_quote U trimmed @
             ''; pass a valid JSON payload or an empty string for delete events'')
      else Ok trimmed)"

text \<open>\<open>now\<close> is the caller's \<open>time.Now()\<close>.\<close>

definition LogActivityWithStatus ::
  "unicode \<Rightarrow> decoders \<Rightarrow> int \<Rightarrow> string \<Rightarrow> string \<Rightarrow> string \<Rightarrow> string \<Rightarrow> string \<Rightarrow> string \<Rightarrow> int dbm" where
  "LogActivityWithStatus U X now operation collection did rkey eventJSON status =
     (case normalizeActivityEventJSON U X eventJSON of
        Inl e \<Rightarrow> db_fail e
      | Inr j \<Rightarrow>
          db_exec (\<lambda>s. Ok (st_next_activity s,
            s\<lparr>st_activity := st_activity s @ [\<lparr>av_id = st_next_activity s, av_timestamp = now, av_operation = operation,
                av_collection = collection, av_did = did, av_rkey = Some rkey, av_status = status,
                av_error = None, av_event_json = j\<rparr>],
              st_next_activity := st_next_activity s + 1\<rparr>)))"

definition LogActivity ::
  "unicode \<Rightarrow> decoders \<Rightarrow> int \<Rightarrow> string \<Rightarrow> string \<Rightarrow> string \<Rightarrow> string \<Rightarrow> string \<Rightarrow> int dbm" where
  "LogActivity U X now operation collection did rkey eventJSON =
     LogActivityWithStatus U X now operation collection did rkey eventJSON ''pending''"

definition UpdateStatus :: "int \<Rightarrow> string \<Rightarrow> string option \<Rightarrow> unit dbm" where
  "UpdateStatus i status errorMessage =
     db_exec (\<lambda>s. Ok ((), s\<lparr>st_activity := tbl_update (\<lambda>a. av_id a = i)
        (\<lambda>a. a\<lparr>av_status := status, av_error := errorMessage\<rparr>) (st_activity s)\<rparr>))"

section \<open>The actor table as a keyed table\<close>

definition actors_ok :: "store \<Rightarrow> bool" where
  "actors_ok s = distinct (map ac_did (st_actors s))"

definition find_actor :: "string \<Rightarrow> store \<Rightarrow> actor_row option" where
  "find_actor did s = tbl_find ac_did did (st_actors s)"

interpretation identity_tbl: keyed_table ac_did identity_merge
  by unfold_locales (simp add: identity_merge_def)

interpretation actor_batch_tbl: keyed_table ac_did "batch_actor_merge now"
  by unfold_locales (simp add: batch_actor_merge_def)

lemma insert_ignore_as_upsert: "tbl_insert_ignore key row t = tbl_upsert key (\<lambda>old new. old) row t"
  by (auto simp: tbl_insert_ignore_def tbl_upsert_def intro!: tbl_update_id [symmetric])

interpretation ensure_tbl: keyed_table ac_did "\<lambda>old new. old"
  by unfold_locales simp

lemma Ensure_cases:
  assumes "Ensure did d = (r, d')"
  shows "same_env d d' \<and> (db_store d' = db_store d \<or> db_store d' = (db_store d)\<lparr>st_actors :=
     tbl_upsert ac_did (\<lambda>old new. old) \<lparr>ac_did = did, ac_handle = None, ac_indexed_at = db_now d\<rparr> (st_actors (db_store d))\<rparr>)"
  using assms unfolding Ensure_def by (auto elim!: db_exec_cases simp: insert_ignore_as_upsert)

lemma UpsertIdentity_cases:
  assumes "UpsertIdentity did handle d = (r, d')"
  shows "same_env d d' \<and> (db_store d' = db_store d \<and> (\<exists>e. r = Err e) \<or> db_store d' = (db_store d)\<lparr>st_actors :=
     tbl_upsert ac_did identity_merge \<lparr>ac_did = did, ac_handle = Some handle, ac_indexed_at = db_now d\<rparr> (st_actors (db_store d))\<rparr>)"
  using assms unfolding UpsertIdentity_def by (auto elim!: db_exec_cases)

lemma SetHandleIfMissing_cases:
  assumes "SetHandleIfMissing did handle d = (r, d')"
  shows "same_env d d' \<and> (db_store d' = db_store d \<or> db_store d' = (db_store d)\<lparr>st_actors :=
     tbl_update (\<lambda>a. ac_did a = did \<and> missing_handle a) (\<lambda>a. a\<lparr>ac_handle := Some handle, ac_indexed_at := db_now d\<rparr>)
       (st_actors (db_store d))\<rparr>)"
proof -
  show ?thesis using assms unfolding SetHandleIfMissing_def Let_def
  proof (cases rule: db_bind_cases)
    case (First e)
    then show ?thesis by (auto elim!: db_exec_cases)
  next
    case (Second n d1)
    have d1: "db_store d1 = (db_store d)\<lparr>st_actors :=
       tbl_update (\<lambda>a. ac_did a = did \<and> missing_handle a) (\<lambda>a. a\<lparr>ac_handle := Some handle, ac_indexed_at := db_now d\<rparr>)
         (st_actors (db_store d))\<rparr>" "same_env d d1"
      using db_exec_pure_OkD [OF Second(1)] by auto
    from Second(2) have "db_store d' = db_store d1 \<and> same_env d1 d'"
      by (cases rule: db_bind_cases) (auto dest: db_nop_env)
    then show ?thesis using d1 same_env_trans by auto
  qed
qed



end
