(* ===== verification/Pub_Sub.thy ===== *)
theory Pub_Sub
  imports Json_Time
begin

text \<open>
  The subscription hub, \<open>internal/graphql/subscription/pubsub.go\<close>.  A subscriber's channel is its
  buffered queue and a closed flag; sending on a closed channel panics, which \<open>ps_panicked\<close>
  records.  The mutex makes every operation one step; \<open>hub_step\<close> is any interleaving of the
  operations with receives by the subscribers.
\<close>

section \<open>Definitions\<close>

definition EventCreate :: string where "EventCreate = ''create''"
definition EventUpdate :: string where "EventUpdate = ''update''"
definition EventDelete :: string where "EventDelete = ''delete''"
definition SubscriberBufferSize :: nat where "SubscriberBufferSize = 100"

record hub_event =
  he_type :: string
  he_uri :: string
  he_cid :: string
  he_did :: string
  he_collection :: string
  he_record :: "json option"
  he_typed :: "(string \<times> json) list option"
  he_typed_visible :: bool
  he_was_valid :: bool

record subscriber =
  su_id :: string
  su_collection :: string
  su_queue :: "hub_event list"
  su_closed :: bool

record pubsub =
  ps_subscribers :: "(string \<times> subscriber) list"
  ps_next_id :: int
  ps_closed :: "subscriber list"
  ps_panicked :: bool

definition NewPubSub :: pubsub where
  "NewPubSub = \<lparr>ps_subscribers = [], ps_next_id = 0, ps_closed = [], ps_panicked = False\<rparr>"

definition Subscribe :: "string \<Rightarrow> pubsub \<Rightarrow> string \<times> pubsub" where
  "Subscribe collection ps =
     (let n = wrap64 (ps_next_id ps + 1); i = show_int n;
          sub = \<lparr>su_id = i, su_collection = collection, su_queue = [], su_closed = False\<rparr>
      in (i, ps\<lparr>ps_next_id := n, ps_subscribers := map_put i sub (ps_subscribers ps)\<rparr>))"

definition Unsubscribe :: "string \<Rightarrow> pubsub \<Rightarrow> pubsub" where
  "Unsubscribe i ps =
     (case map_of (ps_subscribers ps) i of
        None \<Rightarrow> ps
      | Some sub \<Rightarrow>
          ps\<lparr>ps_closed := sub\<lparr>su_closed := True\<rparr> # ps_closed ps,
             ps_subscribers := map_del i (ps_subscribers ps),
             ps_panicked := (ps_panicked ps \<or> su_closed sub)\<rparr>)"

definition wants :: "subscriber \<Rightarrow> hub_event \<Rightarrow> bool" where
  "wants sub ev = (su_collection sub = [] \<or> su_collection sub = he_collection ev)"

text \<open>The non-blocking send of the loop body.\<close>

definition deliver :: "hub_event \<Rightarrow> subscriber \<Rightarrow> subscriber" where
  "deliver ev sub =
     (if wants sub ev \<and> length (su_queue sub) < SubscriberBufferSize
      then sub\<lparr>su_queue := su_queue sub @ [ev]\<rparr> else sub)"

definition Publish :: "hub_event \<Rightarrow> pubsub \<Rightarrow> pubsub" where
  "Publish ev ps =
     ps\<lparr>ps_subscribers := map (\<lambda>(i, sub). (i, deliver ev sub)) (ps_subscribers ps),
        ps_panicked := (ps_panicked ps \<or> list_ex (\<lambda>(i, sub). wants sub ev \<and> su_closed sub) (ps_subscribers ps))\<rparr>"

text \<open>A client receiving from its channel.\<close>

definition receive :: "string \<Rightarrow> pubsub \<Rightarrow> hub_event option \<times> pubsub" where
  "receive i ps =
     (case map_of (ps_subscribers ps) i of
        Some sub \<Rightarrow>
          (case su_queue sub of
             [] \<Rightarrow> (None, ps)
           | ev # rest \<Rightarrow> (Some ev, ps\<lparr>ps_subscribers := map_put i (sub\<lparr>su_queue := rest\<rparr>) (ps_subscribers ps)\<rparr>))
      | None \<Rightarrow> (None, ps))"

definition SubscriberCount :: "pubsub \<Rightarrow> int" where
  "SubscriberCount ps = int (length (ps_subscribers ps))"

text \<open>Decoding an object into a Go map: a repeated key keeps its last value.\<close>

definition json_fields :: "(string \<times> json) list \<Rightarrow> (string \<times> json) list" where
  "json_fields fs = foldl (\<lambda>m (k, v). map_put k v m) [] fs"

definition decodeRawSubscriptionRecord :: "decoders \<Rightarrow> string \<Rightarrow> json option" where
  "decodeRawSubscriptionRecord X recordJSON =
     (if recordJSON = [] then None
      else (case dec_json X recordJSON of Some JNull \<Rightarrow> None | j \<Rightarrow> j))"

definition decodeTypedSubscriptionRecord :: "decoders \<Rightarrow> string \<Rightarrow> string \<Rightarrow> string \<Rightarrow> (string \<times> json) list option" where
  "decodeTypedSubscriptionRecord X recordJSON uri cid =
     (if recordJSON = [] then None
      else (case dec_json X recordJSON of
              Some (JObj fs) \<Rightarrow> Some (map_put ''cid'' (JStr cid) (map_put ''uri'' (JStr uri) (json_fields fs)))
            | _ \<Rightarrow> None))"

definition record_event_of ::
  "decoders \<Rightarrow> string \<Rightarrow> string \<Rightarrow> string \<Rightarrow> string \<Rightarrow> string \<Rightarrow> string \<Rightarrow> bool \<Rightarrow> hub_event" where
  "record_event_of X eventType uri cid did collection recordJSON typedVisible =
     \<lparr>he_type = eventType, he_uri = uri, he_cid = cid, he_did = did, he_collection = collection,
      he_record = decodeRawSubscriptionRecord X recordJSON,
      he_typed = decodeTypedSubscriptionRecord X recordJSON uri cid,
      he_typed_visible = typedVisible, he_was_valid = False\<rparr>"

definition PublishRecordWithValidation ::
  "decoders \<Rightarrow> string \<Rightarrow> string \<Rightarrow> string \<Rightarrow> string \<Rightarrow> string \<Rightarrow> string \<Rightarrow> bool \<Rightarrow> pubsub \<Rightarrow> pubsub" where
  "PublishRecordWithValidation X eventType uri cid did collection recordJSON typedVisible =
     Publish (record_event_of X eventType uri cid did collection recordJSON typedVisible)"

definition PublishRecord ::
  "decoders \<Rightarrow> string \<Rightarrow> string \<Rightarrow> string \<Rightarrow> string \<Rightarrow> string \<Rightarrow> string \<Rightarrow> pubsub \<Rightarrow> pubsub" where
  "PublishRecord X eventType uri cid did collection recordJSON =
     PublishRecordWithValidation X eventType uri cid did collection recordJSON True"

definition delete_event_of ::
  "decoders \<Rightarrow> string \<Rightarrow> string \<Rightarrow> string \<Rightarrow> string \<Rightarrow> string \<Rightarrow> bool \<Rightarrow> hub_event" where
  "delete_event_of X uri cid did collection previousRecordJSON wasValid =
     \<lparr>he_type = EventDelete, he_uri = uri, he_cid = cid, he_did = did, he_collection = collection,
      he_record = None, he_typed = decodeTypedSubscriptionRecord X previousRecordJSON uri cid,
      he_typed_visible = False, he_was_valid = wasValid\<rparr>"

definition PublishDelete ::
  "decoders \<Rightarrow> string \<Rightarrow> string \<Rightarrow> string \<Rightarrow> string \<Rightarrow> string \<Rightarrow> bool \<Rightarrow> pubsub \<Rightarrow> pubsub" where
  "PublishDelete X uri cid did collection previousRecordJSON wasValid =
     Publish (delete_event_of X uri cid did collection previousRecordJSON wasValid)"

definition RawGraphQLValue :: "hub_event \<Rightarrow> (string \<times> json) list" where
  "RawGraphQLValue ev =
     [(''type'', JStr (he_type ev)), (''uri'', JStr (he_uri ev)), (''cid'', JStr (he_cid ev)),
      (''did'', JStr (he_did ev)), (''collection'', JStr (he_collection ev)),
      (''record'', case he_record ev of None \<Rightarrow> JNull | Some j \<Rightarrow> j)]"

section \<open>Reachable hubs\<close>

text \<open>Fewer than \<open>2 ^ 63\<close> subscriptions are made, so identifiers do not wrap.\<close>

inductive hub_step :: "pubsub \<Rightarrow> pubsub \<Rightarrow> bool" where
  hub_subscribe: "ps_next_id ps < 2 ^ 63 - 1 \<Longrightarrow> hub_step ps (snd (Subscribe c ps))"
| hub_unsubscribe: "hub_step ps (Unsubscribe i ps)"
| hub_publish: "hub_step ps (Publish ev ps)"
| hub_receive: "hub_step ps (snd (receive i ps))"

definition sub_ok :: "int \<Rightarrow> string \<times> subscriber \<Rightarrow> bool" where
  "sub_ok n p =
     (\<not> su_closed (snd p) \<and> su_id (snd p) = fst p \<and> length (su_queue (snd p)) \<le> SubscriberBufferSize
      \<and> (\<forall>ev\<in>set (su_queue (snd p)). wants (snd p) ev)
      \<and> (\<exists>k. 1 \<le> k \<and> k \<le> n \<and> fst p = show_int k))"

definition hub_inv :: "pubsub \<Rightarrow> bool" where
  "hub_inv ps =
     (0 \<le> ps_next_id ps \<and> ps_next_id ps < 2 ^ 63 \<and> map_ok (ps_subscribers ps) \<and> \<not> ps_panicked ps
      \<and> (\<forall>p\<in>set (ps_subscribers ps). sub_ok (ps_next_id ps) p))"

lemma sub_ok_mono: "sub_ok n p \<Longrightarrow> n \<le> m \<Longrightarrow> sub_ok m p"
  by (fastforce simp: sub_ok_def)

lemma set_map_put: "p \<in> set (map_put k v m) \<Longrightarrow> p = (k, v) \<or> p \<in> set m"
  by (induction m) (auto split: if_splits)

lemma set_map_del: "p \<in> set (map_del k m) \<Longrightarrow> p \<in> set m"
  by (auto simp: map_del_def)

lemma wants_queue [simp]: "wants (s\<lparr>su_queue := q\<rparr>) ev = wants s ev"
  by (simp add: wants_def)

lemma deliver_simps [simp]:
  "su_closed (deliver ev s) = su_closed s" "su_id (deliver ev s) = su_id s" "wants (deliver ev s) e = wants s e"
  by (simp_all add: deliver_def)

lemma deliver_bound: "length (su_queue s) \<le> SubscriberBufferSize \<Longrightarrow> length (su_queue (deliver ev s)) \<le> SubscriberBufferSize"
  by (simp add: deliver_def)

lemma deliver_wanted: "\<forall>e\<in>set (su_queue s). wants s e \<Longrightarrow> \<forall>e\<in>set (su_queue (deliver ev s)). wants s e"
  by (simp add: deliver_def)

lemma hub_inv_subscribe:
  assumes "hub_inv ps" "ps_next_id ps < 2 ^ 63 - 1"
  shows "hub_inv (snd (Subscribe c ps))"
proof -
  have n: "wrap64 (ps_next_id ps + 1) = ps_next_id ps + 1"
    using assms by (intro wrap64_id) (simp_all add: hub_inv_def)
  let ?m = "ps_next_id ps + 1"
  have "sub_ok ?m p" if "p \<in> set (ps_subscribers ps)" for p
    using assms(1) that by (auto simp: hub_inv_def intro: sub_ok_mono)
  moreover have "sub_ok ?m (show_int ?m, \<lparr>su_id = show_int ?m, su_collection = c, su_queue = [], su_closed = False\<rparr>)"
    using assms(1) by (auto simp: sub_ok_def hub_inv_def intro!: exI [of _ ?m])
  ultimately show ?thesis using assms unfolding hub_inv_def Subscribe_def Let_def n
    by (auto dest!: set_map_put)
qed

lemma hub_inv_unsubscribe: "hub_inv ps \<Longrightarrow> hub_inv (Unsubscribe i ps)"
  by (auto simp: hub_inv_def sub_ok_def Unsubscribe_def split: option.splits dest!: set_map_del map_of_SomeD)

lemma sub_ok_deliver: "sub_ok n (i, sub) \<Longrightarrow> sub_ok n (i, deliver ev sub)"
  by (simp add: sub_ok_def deliver_bound deliver_wanted)

lemma hub_inv_publish:
  assumes "hub_inv ps" shows "hub_inv (Publish ev ps)"
proof -
  have "\<not> list_ex (\<lambda>(i, sub). wants sub ev \<and> su_closed sub) (ps_subscribers ps)"
    using assms by (auto simp: hub_inv_def sub_ok_def list_ex_iff)
  moreover have "map_ok (map (\<lambda>(i, sub). (i, deliver ev sub)) (ps_subscribers ps))"
    using assms by (simp add: hub_inv_def map_ok_def o_def case_prod_beta)
  ultimately show ?thesis using assms
    by (auto simp: hub_inv_def Publish_def intro: sub_ok_deliver)
qed

lemma hub_inv_receive:
  assumes "hub_inv ps" shows "hub_inv (snd (receive i ps))"
proof (cases "map_of (ps_subscribers ps) i")
  case None
  then show ?thesis using assms by (simp add: receive_def)
next
  case (Some sub)
  then have ok: "sub_ok (ps_next_id ps) (i, sub)" using assms by (auto simp: hub_inv_def dest: map_of_SomeD)
  show ?thesis
  proof (cases "su_queue sub")
    case Nil
    then show ?thesis using Some assms by (simp add: receive_def)
  next
    case (Cons e rest)
    then have "sub_ok (ps_next_id ps) (i, sub\<lparr>su_queue := rest\<rparr>)" using ok by (simp add: sub_ok_def)
    then show ?thesis using Some Cons assms by (auto simp: receive_def hub_inv_def dest!: set_map_put)
  qed
qed

lemma hub_inv_step: "hub_step ps ps' \<Longrightarrow> hub_inv ps \<Longrightarrow> hub_inv ps'"
  by (induction rule: hub_step.induct)
    (auto intro: hub_inv_subscribe hub_inv_unsubscribe hub_inv_publish hub_inv_receive)

lemma hub_inv_new [simp]: "hub_inv NewPubSub"
  by (simp add: hub_inv_def NewPubSub_def)

lemma hub_inv_reach: "hub_step\<^sup>*\<^sup>* ps ps' \<Longrightarrow> hub_inv ps \<Longrightarrow> hub_inv ps'"
  by (induction rule: rtranclp_induct) (auto intro: hub_inv_step)

text \<open>C26: in every state the hub can reach, under any interleaving of subscribes, unsubscribes, publishes and
  receives, no send has hit a closed channel, every subscriber is open under its own unique id, buffers hold at most 100
  events and only events of the collection subscribed to; and publishing an event then appends it, once and at the end, to the buffer of exactly the
  subscribers that want it and have room, and changes no other buffer.\<close>

theorem hub_delivery:
  assumes "hub_step\<^sup>*\<^sup>* NewPubSub ps"
  shows "\<not> ps_panicked ps \<and> distinct (map fst (ps_subscribers ps))
    \<and> (\<forall>i sub. map_of (ps_subscribers ps) i = Some sub \<longrightarrow>
         su_id sub = i \<and> \<not> su_closed sub \<and> length (su_queue sub) \<le> 100
         \<and> (\<forall>e\<in>set (su_queue sub). su_collection sub = [] \<or> he_collection e = su_collection sub)
         \<and> (\<exists>sub'. map_of (ps_subscribers (Publish ev ps)) i = Some sub'
             \<and> su_queue sub' = su_queue sub @
                 (if (su_collection sub = [] \<or> su_collection sub = he_collection ev) \<and> length (su_queue sub) < 100
                  then [ev] else [])))
    \<and> map fst (ps_subscribers (Publish ev ps)) = map fst (ps_subscribers ps)"
proof -
  have inv: "hub_inv ps" using hub_inv_reach [OF assms] by simp
  have "map_of (ps_subscribers (Publish ev ps)) i = map_option (deliver ev) (map_of (ps_subscribers ps) i)" for i
    by (simp add: Publish_def map_of_map)
  moreover have "map fst (ps_subscribers (Publish ev ps)) = map fst (ps_subscribers ps)"
    by (simp add: Publish_def o_def case_prod_beta)
  moreover have "su_id sub = i \<and> \<not> su_closed sub \<and> length (su_queue sub) \<le> 100
      \<and> (\<forall>e\<in>set (su_queue sub). su_collection sub = [] \<or> he_collection e = su_collection sub)"
    if "map_of (ps_subscribers ps) i = Some sub" for i sub
    using inv map_of_SomeD [OF that] by (fastforce simp: hub_inv_def sub_ok_def wants_def SubscriberBufferSize_def)
  ultimately show ?thesis using inv
    by (simp add: hub_inv_def map_ok_def deliver_def wants_def SubscriberBufferSize_def)
qed

definition sample_hub_event :: hub_event where
  "sample_hub_event = record_event_of no_decoders EventCreate ''at://d/x.y/1'' ''c'' ''d'' ''x.y'' [] True"

theorem hub_delivery_witness:
  "su_queue (the (map_of (ps_subscribers (Publish sample_hub_event (snd (Subscribe ''x.y'' NewPubSub)))) ''1''))
   = [sample_hub_event]"
proof -
  have "hub_step NewPubSub (snd (Subscribe ''x.y'' NewPubSub))"
    by (rule hub_subscribe) (simp add: NewPubSub_def)
  then have r: "hub_step\<^sup>*\<^sup>* NewPubSub (snd (Subscribe ''x.y'' NewPubSub))" by blast
  let ?ps = "snd (Subscribe ''x.y'' NewPubSub)"
  have m: "map_of (ps_subscribers ?ps) ''1''
    = Some \<lparr>su_id = ''1'', su_collection = ''x.y'', su_queue = [], su_closed = False\<rparr>"
    and c: "he_collection sample_hub_event = ''x.y''" by code_simp+
  obtain sub' where "map_of (ps_subscribers (Publish sample_hub_event ?ps)) ''1'' = Some sub'"
    "su_queue sub' = [sample_hub_event]"
    using hub_delivery [OF r, of sample_hub_event] m c by fastforce
  then show ?thesis by simp
qed

end
