(* ===== verification/Tap_Handler.thy ===== *)
theory Tap_Handler
  imports Versions_Repo Actors_Repo Pub_Sub
begin

text \<open>
  Tap events and their handler: \<open>internal/tap/event.go\<close> and \<open>internal/tap/handler.go\<close>.  The JSON decoding
  of the envelope is the parameter \<open>dec_event\<close> (the struct fields as \<open>encoding/json\<close> fills them);
  the custom decoding of identity payloads and all checks of \<open>ParseEvent\<close> are the repository's and are
  written out.  \<open>HandleRecord\<close> and \<open>HandleIdentity\<close> are the whole handlers over the state they change: the database
  and the subscription hub.
\<close>

section \<open>Events\<close>

definition EventTypeRecord :: string where "EventTypeRecord = ''record''"
definition EventTypeIdentity :: string where "EventTypeIdentity = ''identity''"
definition ActionCreate :: string where "ActionCreate = ''create''"
definition ActionUpdate :: string where "ActionUpdate = ''update''"
definition ActionDelete :: string where "ActionDelete = ''delete''"

record record_event =
  re_live :: bool
  re_rev :: string
  re_did :: string
  re_collection :: string
  re_rkey :: string
  re_action :: string
  re_cid :: string
  re_record :: string

record identity_payload =
  ip_did :: string
  ip_handle :: string
  ip_is_active :: "bool option"
  ip_status :: string

record identity_event =
  ie_did :: string
  ie_handle :: string
  ie_is_active :: bool
  ie_is_active_present :: bool
  ie_status :: string

record tap_event =
  te_id :: int
  te_type :: string
  te_record :: "record_event option"
  te_identity :: "identity_event option"

record raw_event =
  xe_id :: int
  xe_type :: string
  xe_record :: "record_event option"
  xe_identity :: "identity_payload option"

definition URI :: "record_event \<Rightarrow> string" where
  "URI r = ''at://'' @ re_did r @ ''/'' @ re_collection r @ ''/'' @ re_rkey r"

text \<open>\<open>IdentityEvent.UnmarshalJSON\<close> after the decoding of its payload.\<close>

definition identity_of_payload :: "identity_payload \<Rightarrow> identity_event" where
  "identity_of_payload p =
     \<lparr>ie_did = ip_did p, ie_handle = ip_handle p,
      ie_is_active = (case ip_is_active p of None \<Rightarrow> False | Some b \<Rightarrow> b),
      ie_is_active_present = (ip_is_active p \<noteq> None), ie_status = ip_status p\<rparr>"

definition check_record_event :: "record_event option \<Rightarrow> unit res" where
  "check_record_event r =
     (case r of
        None \<Rightarrow> Err ''tap record event missing record payload''
      | Some e \<Rightarrow>
          if re_did e = [] then Err ''tap record event missing did field''
          else if re_collection e = [] then Err ''tap record event missing collection field''
          else if re_rkey e = [] then Err ''tap record event missing rkey field''
          else if re_action e = [] then Err ''tap record event missing action field''
          else Ok ())"

definition check_identity_event :: "identity_event option \<Rightarrow> unit res" where
  "check_identity_event r =
     (case r of
        None \<Rightarrow> Err ''tap identity event missing identity payload''
      | Some e \<Rightarrow> if ie_did e = [] then Err ''tap identity event missing did field'' else Ok ())"

definition ParseEvent :: "(string \<Rightarrow> raw_event res) \<Rightarrow> string \<Rightarrow> tap_event res" where
  "ParseEvent dec_event data =
     (case dec_event data of
        Inl e \<Rightarrow> Err (''failed to parse tap event: '' @ e)
      | Inr raw \<Rightarrow>
          let event = \<lparr>te_id = xe_id raw, te_type = xe_type raw, te_record = xe_record raw,
                       te_identity = map_option identity_of_payload (xe_identity raw)\<rparr> in
          if te_type event = [] then Err ''tap event missing type field''
          else if te_type event = EventTypeRecord then
            (case check_record_event (te_record event) of Inl e \<Rightarrow> Err e | Inr _ \<Rightarrow> Ok event)
          else if te_type event = EventTypeIdentity then
            (case check_identity_event (te_identity event) of Inl e \<Rightarrow> Err e | Inr _ \<Rightarrow> Ok event)
          else Ok event)"

definition IsRecord :: "tap_event \<Rightarrow> bool" where
  "IsRecord e = (te_type e = EventTypeRecord \<and> te_record e \<noteq> None)"

definition IsIdentity :: "tap_event \<Rightarrow> bool" where
  "IsIdentity e = (te_type e = EventTypeIdentity \<and> te_identity e \<noteq> None)"

section \<open>The handler\<close>

text \<open>The fields of \<open>IndexHandler\<close> that do not change; \<open>hc_history\<close> is \<open>None\<close> when there is no versions
  repository.\<close>

record handler_config =
  hc_unicode :: unicode
  hc_decoders :: decoders
  hc_sha :: "string \<Rightarrow> string"
  hc_validator :: "record_validator option"
  hc_history :: "collection_matcher option"
  hc_activity :: bool

record handler_state =
  hs_db :: db
  hs_pubsub :: "pubsub option"

definition NewIndexHandler :: "unicode \<Rightarrow> decoders \<Rightarrow> (string \<Rightarrow> string) \<Rightarrow> bool \<Rightarrow> record_validator list \<Rightarrow> handler_config" where
  "NewIndexHandler U X sha activity validators =
     \<lparr>hc_unicode = U, hc_decoders = X, hc_sha = sha,
      hc_validator = (case validators of [] \<Rightarrow> None | v # _ \<Rightarrow> Some v), hc_history = None, hc_activity = activity\<rparr>"

definition WithRecordHistory :: "collection_matcher \<Rightarrow> handler_config \<Rightarrow> handler_config" where
  "WithRecordHistory collections h = h\<lparr>hc_history := Some collections\<rparr>"

definition keepsHistory :: "handler_config \<Rightarrow> string \<Rightarrow> bool" where
  "keepsHistory h collection = (case hc_history h of None \<Rightarrow> False | Some m \<Rightarrow> Matches m collection)"

definition event_version :: "record_event \<Rightarrow> version_write" where
  "event_version ev =
     \<lparr>vw_uri = URI ev, vw_cid = re_cid ev, vw_did = re_did ev, vw_collection = re_collection ev,
      vw_action = (if re_action ev = ActionUpdate then RecordVersionUpdate else RecordVersionCreate),
      vw_json = Some (re_record ev), vw_live = Some (re_live ev)\<rparr>"

definition event_class :: "handler_config \<Rightarrow> record_event \<Rightarrow> vresult" where
  "event_class h ev = ClassifyRecord (hc_validator h) (re_collection ev) (re_rkey ev) (re_record ev)"

definition event_write :: "handler_config \<Rightarrow> record_event \<Rightarrow> record_write" where
  "event_write h ev =
     \<lparr>rw_uri = URI ev, rw_cid = re_cid ev, rw_did = re_did ev, rw_collection = re_collection ev,
      rw_rkey = re_rkey ev, rw_json = re_record ev, rw_status = vr_status (event_class h ev),
      rw_verror = vr_error (event_class h ev), rw_lexhash = vr_lexhash (event_class h ev)\<rparr>"

text \<open>Logging: \<open>LogActivity\<close> then \<open>UpdateStatus\<close>, whose errors are only reported.\<close>

definition log_completed :: "handler_config \<Rightarrow> string \<Rightarrow> record_event \<Rightarrow> string \<Rightarrow> db \<Rightarrow> db" where
  "log_completed h operation ev payload d =
     (if \<not> hc_activity h then d
      else (case LogActivity (hc_unicode h) (hc_decoders h) (db_now d) operation (re_collection ev) (re_did ev)
                   (re_rkey ev) payload d of
              (Inl e, d') \<Rightarrow> d'
            | (Inr i, d') \<Rightarrow> snd (UpdateStatus i ''completed'' None d')))"

definition append_history :: "handler_config \<Rightarrow> record_event \<Rightarrow> unit dbm" where
  "append_history h ev =
     (if keepsHistory h (re_collection ev)
      then db_wrap ''failed to record version history: '' (Append (hc_unicode h) (hc_sha h) (event_version ev))
      else db_return ())"

definition store_event :: "handler_config \<Rightarrow> record_event \<Rightarrow> insert_result dbm" where
  "store_event h ev =
     db_wrap ''failed to store record with validation metadata: ''
       (UpsertWithValidation (hc_unicode h) (hc_decoders h) (event_write h ev))"

definition publish_write :: "handler_config \<Rightarrow> record_event \<Rightarrow> pubsub option \<Rightarrow> pubsub option" where
  "publish_write h ev =
     map_option (PublishRecordWithValidation (hc_decoders h)
       (if re_action ev = ActionUpdate then EventUpdate else EventCreate)
       (URI ev) (re_cid ev) (re_did ev) (re_collection ev) (re_record ev)
       (vr_status (event_class h ev) = StatusValid))"

definition publish_removal :: "handler_config \<Rightarrow> record_event \<Rightarrow> record_row option \<Rightarrow> pubsub option \<Rightarrow> pubsub option" where
  "publish_removal h ev deleted =
     map_option (case deleted of
        None \<Rightarrow> PublishDelete (hc_decoders h) (URI ev) [] (re_did ev) (re_collection ev) [] False
      | Some r \<Rightarrow> PublishDelete (hc_decoders h) (URI ev) (rr_cid r) (rr_did r) (rr_collection r) (rr_json r)
                   (rr_status r = StatusValid))"

definition handle_write :: "handler_config \<Rightarrow> record_event \<Rightarrow> handler_state \<Rightarrow> unit res \<times> handler_state" where
  "handle_write h ev st =
     (if re_record ev = [] then (Ok (), st)
      else
        let d1 = snd (Ensure (re_did ev) (hs_db st)) in
        case append_history h ev d1 of
          (Inl e, d2) \<Rightarrow> (Err e, st\<lparr>hs_db := d2\<rparr>)
        | (Inr _, d2) \<Rightarrow>
            (case store_event h ev d2 of
               (Inl e, d3) \<Rightarrow> (Err e, st\<lparr>hs_db := d3\<rparr>)
             | (Inr res, d3) \<Rightarrow>
                 let d4 = (if res = Skipped then d3 else log_completed h (re_action ev) ev (re_record ev) d3) in
                 (Ok (), \<lparr>hs_db = d4, hs_pubsub = publish_write h ev (hs_pubsub st)\<rparr>)))"

definition handle_delete :: "handler_config \<Rightarrow> record_event \<Rightarrow> handler_state \<Rightarrow> unit res \<times> handler_state" where
  "handle_delete h ev st =
     (case DeleteReturning (URI ev) (hs_db st) of
        (Inl e, d1) \<Rightarrow> (Err (''failed to delete record: '' @ e), st\<lparr>hs_db := d1\<rparr>)
      | (Inr deleted, d1) \<Rightarrow>
          (Ok (), \<lparr>hs_db = log_completed h ''delete'' ev [] d1,
                   hs_pubsub = publish_removal h ev deleted (hs_pubsub st)\<rparr>))"

definition HandleRecord :: "handler_config \<Rightarrow> record_event \<Rightarrow> handler_state \<Rightarrow> unit res \<times> handler_state" where
  "HandleRecord h ev st =
     (if re_action ev = ActionCreate \<or> re_action ev = ActionUpdate then handle_write h ev st
      else if re_action ev = ActionDelete then handle_delete h ev st
      else (Ok (), st))"

definition identityStatus :: "unicode \<Rightarrow> identity_event \<Rightarrow> string" where
  "identityStatus U ev = to_lower U (trim_space (ie_status ev))"

definition shouldPurgeIdentity :: "unicode \<Rightarrow> identity_event \<Rightarrow> bool" where
  "shouldPurgeIdentity U ev =
     (identityStatus U ev \<in> {''deleted'', ''deactivated'', ''suspended'', ''takendown''})"

definition HandleIdentity :: "handler_config \<Rightarrow> identity_event \<Rightarrow> handler_state \<Rightarrow> unit res \<times> handler_state" where
  "HandleIdentity h ev st =
     (if shouldPurgeIdentity (hc_unicode h) ev then
        (case db_wrap ''failed to purge actor data: '' (PurgeActorData (ie_did ev)) (hs_db st) of
           (r, d1) \<Rightarrow> (r, st\<lparr>hs_db := d1\<rparr>))
      else (case UpsertIdentity (ie_did ev) (ie_handle ev) (hs_db st) of
              (r, d1) \<Rightarrow> (r, st\<lparr>hs_db := d1\<rparr>)))"

section \<open>Invariant\<close>

definition store_ok :: "store \<Rightarrow> bool" where
  "store_ok s = (records_ok s \<and> versions_ok s \<and> actors_ok s)"

definition handler_inv :: "handler_state \<Rightarrow> bool" where
  "handler_inv st = (store_ok (db_store (hs_db st)) \<and> (\<forall>ps. hs_pubsub st = Some ps \<longrightarrow> hub_inv ps))"

text \<open>The tables other than the activity log.\<close>

definition core :: "store \<Rightarrow> record_row list \<times> version_row list \<times> int \<times> actor_row list" where
  "core s = (st_records s, st_versions s, st_next_version s, st_actors s)"

lemma store_ok_core: "core s = core s' \<Longrightarrow> store_ok s = store_ok s'"
  by (simp add: core_def store_ok_def records_ok_def versions_ok_def actors_ok_def)

lemma LogActivity_core: "LogActivity U X now op c did k j d = (r, d') \<Longrightarrow> core (db_store d') = core (db_store d) \<and> same_env d d'"
  by (auto simp: LogActivity_def LogActivityWithStatus_def core_def split: sum.splits dest!: db_exec_pureD)

lemma UpdateStatus_core: "UpdateStatus i status e d = (r, d') \<Longrightarrow> core (db_store d') = core (db_store d) \<and> same_env d d'"
  by (auto simp: UpdateStatus_def core_def dest!: db_exec_pureD)

lemma log_completed_core:
  "core (db_store (log_completed h op ev payload d)) = core (db_store d) \<and> same_env d (log_completed h op ev payload d)"
proof (cases "hc_activity h")
  case True
  obtain r d1 where 1: "LogActivity (hc_unicode h) (hc_decoders h) (db_now d) op (re_collection ev) (re_did ev)
      (re_rkey ev) payload d = (r, d1)" by (metis surj_pair)
  note c1 = LogActivity_core [OF 1]
  show ?thesis
  proof (cases r)
    case (Inr i)
    obtain r2 d2 where 2: "UpdateStatus i ''completed'' None d1 = (r2, d2)" by (metis surj_pair)
    show ?thesis using True 1 2 Inr c1 UpdateStatus_core [OF 2] same_env_trans by (auto simp: log_completed_def)
  qed (use True 1 c1 in \<open>auto simp: log_completed_def\<close>)
qed (simp add: log_completed_def)

lemma Ensure_effect:
  "same_env d (snd (Ensure did d)) \<and> st_records (db_store (snd (Ensure did d))) = st_records (db_store d)
   \<and> st_versions (db_store (snd (Ensure did d))) = st_versions (db_store d)
   \<and> st_next_version (db_store (snd (Ensure did d))) = st_next_version (db_store d)
   \<and> (actors_ok (db_store d) \<longrightarrow> actors_ok (db_store (snd (Ensure did d))))
   \<and> (find_actor did (db_store d) \<noteq> None \<longrightarrow> st_actors (db_store (snd (Ensure did d))) = st_actors (db_store d))"
proof -
  obtain r d' where e: "Ensure did d = (r, d')" by (cases "Ensure did d")
  have known: "tbl_upsert ac_did (\<lambda>old new. old) row t = t" if "tbl_find ac_did (ac_did row) t \<noteq> None" for row t
    using that by (auto simp: tbl_upsert_def tbl_find_None intro: tbl_update_id)
  show ?thesis using Ensure_cases [OF e] e known [of "\<lparr>ac_did = did, ac_handle = None, ac_indexed_at = db_now d\<rparr>"]
    by (auto simp: actors_ok_def ensure_tbl.distinct_upsert find_actor_def)
qed

lemma append_history_effect:
  assumes "append_history h ev d = (r, d')" "store_ok (db_store d)"
  shows "same_env d d' \<and> store_ok (db_store d') \<and> st_records (db_store d') = st_records (db_store d)
    \<and> st_actors (db_store d') = st_actors (db_store d)
    \<and> (is_ok r \<longrightarrow> keepsHistory h (re_collection ev) \<longrightarrow>
         has_version (URI ev) (versionKey (hc_sha h) (event_version ev)) (db_store d'))"
proof (cases "keepsHistory h (re_collection ev)")
  case True
  obtain r1 where a: "Append (hc_unicode h) (hc_sha h) (event_version ev) d = (r1, d')" "is_ok r \<longrightarrow> is_ok r1"
    using assms(1) True by (auto simp: append_history_def db_wrap_eq is_ok_def split: prod.splits sum.splits)
  have "vw_uri (event_version ev) = URI ev" by (simp add: event_version_def)
  then show ?thesis using Append_effect [OF a(1)] assms(2) a(2)
    by (auto simp: store_ok_def records_ok_def actors_ok_def)
qed (use assms in \<open>auto simp: append_history_def\<close>)

lemma append_history_grows:
  "append_history h ev d = (r, d') \<Longrightarrow> set (st_versions (db_store d)) \<subseteq> set (st_versions (db_store d'))"
proof -
  assume a: "append_history h ev d = (r, d')"
  show ?thesis
  proof (cases "keepsHistory h (re_collection ev)")
    case True
    obtain r1 where "Append (hc_unicode h) (hc_sha h) (event_version ev) d = (r1, d')"
      using a True by (auto simp: append_history_def db_wrap_eq split: prod.splits)
    then show ?thesis
    proof (cases rule: Append_cases)
      case (Done b)
      obtain new where "st_versions (db_store d') = st_versions (db_store d) @ new"
        using insert_version_prefix [of "db_dialect d" "version_of_write (hc_sha h) (db_now d) b (event_version ev)" "db_store d"]
          Done(5) by auto
      then show ?thesis by simp
    qed simp
  qed (use a in \<open>simp add: append_history_def\<close>)
qed

lemma store_event_effect:
  assumes "store_event h ev d = (r, d')" "store_ok (db_store d)"
  shows "same_env d d' \<and> store_ok (db_store d') \<and> db_store d' = (db_store d)\<lparr>st_records := st_records (db_store d')\<rparr>"
proof -
  obtain r1 where a: "UpsertWithValidation (hc_unicode h) (hc_decoders h) (event_write h ev) d = (r1, d')"
    using assms(1) by (auto simp: store_event_def db_wrap_eq split: prod.splits)
  have eff: "same_env d d' \<and> (db_store d' = db_store d \<or> (\<exists>d1. db_store d1 = db_store d \<and>
      write_effect (hc_decoders h) d1 (event_write h ev) (db_store d) (db_store d')))"
    by (rule UpsertWithValidation_effect [OF a]) (use assms(2) in \<open>simp add: store_ok_def\<close>)
  have w: "store_ok s' \<and> s' = (db_store d)\<lparr>st_records := st_records s'\<rparr>"
    if "write_effect X d1 rec (db_store d) s'" for X d1 rec s'
  proof -
    have f: "s' = (db_store d)\<lparr>st_records := st_records s'\<rparr>" using write_effect_frame [OF that] by blast
    have "st_versions s' = st_versions (db_store d)" "st_next_version s' = st_next_version (db_store d)"
      "st_actors s' = st_actors (db_store d)" by (subst f, simp)+
    then have "store_ok s'" using assms(2) records_ok_write_effect [OF that]
      by (simp add: store_ok_def versions_ok_def actors_ok_def)
    then show ?thesis using f by (rule conjI)
  qed
  from eff show ?thesis
  proof (elim conjE disjE exE)
    assume "same_env d d'" "db_store d' = db_store d"
    then show ?thesis using assms(2) by simp
  next
    fix d1
    assume "same_env d d'" "write_effect (hc_decoders h) d1 (event_write h ev) (db_store d) (db_store d')"
    then show ?thesis using w by blast
  qed
qed

text \<open>The stages of a successful write.\<close>

lemma handle_write_OkE:
  assumes "handle_write h ev st = (Ok u, st')" "re_record ev \<noteq> []"
  obtains d1 d2 res d3 u' where "d1 = snd (Ensure (re_did ev) (hs_db st))" "append_history h ev d1 = (Ok u', d2)"
    "store_event h ev d2 = (Ok res, d3)"
    "hs_db st' = (if res = Skipped then d3 else log_completed h (re_action ev) ev (re_record ev) d3)"
    "hs_pubsub st' = publish_write h ev (hs_pubsub st)"
  using assms by (auto simp: handle_write_def Let_def split: prod.splits sum.splits)

lemma ensure_store_ok: "store_ok (db_store d) \<Longrightarrow> store_ok (db_store (snd (Ensure did d)))"
  using Ensure_effect [of d did] by (simp add: store_ok_def records_ok_def versions_ok_def)

lemma hub_inv_publish_write:
  "(\<And>ps. p = Some ps \<Longrightarrow> hub_inv ps) \<Longrightarrow> publish_write h ev p = Some ps' \<Longrightarrow> hub_inv ps'"
  by (auto simp: publish_write_def PublishRecordWithValidation_def intro: hub_inv_publish)

lemma hub_inv_publish_removal:
  "(\<And>ps. p = Some ps \<Longrightarrow> hub_inv ps) \<Longrightarrow> publish_removal h ev del p = Some ps' \<Longrightarrow> hub_inv ps'"
  by (auto simp: publish_removal_def PublishDelete_def intro: hub_inv_publish split: option.splits)

lemma store_ok_purge: "store_ok s \<Longrightarrow> store_ok (purge_store c v s)"
  by (simp add: store_ok_def versions_ok_purge) (simp add: purge_store_def actors_ok_def)

lemma store_ok_actors:
  "store_ok s \<Longrightarrow> distinct (map ac_did t) \<Longrightarrow> store_ok (s\<lparr>st_actors := t\<rparr>)"
  by (simp add: store_ok_def records_ok_def versions_ok_def actors_ok_def)

lemma handler_inv_write:
  assumes "handler_inv st" "handle_write h ev st = (r, st')"
  shows "handler_inv st'"
proof (cases "re_record ev = []")
  case True
  then show ?thesis using assms by (simp add: handle_write_def)
next
  case False
  define d1 where "d1 = snd (Ensure (re_did ev) (hs_db st))"
  have ok1: "store_ok (db_store d1)" unfolding d1_def
    using assms(1) by (intro ensure_store_ok) (simp add: handler_inv_def)
  obtain r2 d2 where 2: "append_history h ev d1 = (r2, d2)" by (metis surj_pair)
  have ok2: "store_ok (db_store d2)" using append_history_effect [OF 2 ok1] by blast
  obtain r3 d3 where 3: "store_event h ev d2 = (r3, d3)" by (metis surj_pair)
  have ok3: "store_ok (db_store d3)" using store_event_effect [OF 3 ok2] by blast
  have ok4: "store_ok (db_store (log_completed h (re_action ev) ev (re_record ev) d3))"
    using ok3 log_completed_core store_ok_core by metis
  have pub: "hub_inv ps'" if "publish_write h ev (hs_pubsub st) = Some ps'" for ps'
    using hub_inv_publish_write [OF _ that] assms(1) by (simp add: handler_inv_def)
  show ?thesis using assms False 2 3 ok2 ok3 ok4 pub unfolding handle_write_def d1_def [symmetric]
    by (auto simp: handler_inv_def Let_def split: sum.splits if_splits)
qed

lemma handler_inv_delete:
  assumes "handler_inv st" "handle_delete h ev st = (r, st')"
  shows "handler_inv st'"
proof -
  obtain r1 d1 where 1: "DeleteReturning (URI ev) (hs_db st) = (r1, d1)" by (metis surj_pair)
  have ok1: "store_ok (db_store d1)"
    using DeleteReturning_cases [OF 1] assms(1)
    by (auto simp: handler_inv_def store_ok_purge)
  have ok2: "store_ok (db_store (log_completed h ''delete'' ev [] d1))"
    using ok1 log_completed_core store_ok_core by metis
  have pub: "hub_inv ps'" if "publish_removal h ev del (hs_pubsub st) = Some ps'" for ps' del
    using hub_inv_publish_removal [OF _ that] assms(1) by (simp add: handler_inv_def)
  show ?thesis using assms 1 ok1 ok2 pub unfolding handle_delete_def
    by (auto simp: handler_inv_def split: sum.splits)
qed

lemma handler_inv_identity:
  assumes "handler_inv st" "HandleIdentity h ev st = (r, st')"
  shows "handler_inv st'"
proof (cases "shouldPurgeIdentity (hc_unicode h) ev")
  case True
  obtain r1 d1 where 1: "PurgeActorData (ie_did ev) (hs_db st) = (r1, d1)" by (metis surj_pair)
  have s: "store_ok (db_store (hs_db st))" using assms(1) by (simp add: handler_inv_def)
  then have "distinct (map ac_did (tbl_delete (\<lambda>a. ac_did a = ie_did ev) (st_actors (db_store (hs_db st)))))"
    by (intro distinct_tbl_delete) (simp add: store_ok_def actors_ok_def)
  then have "store_ok (db_store d1)"
    using PurgeActorData_cases [OF 1] s store_ok_actors [OF store_ok_purge [OF s]] by auto
  moreover have "st' = st\<lparr>hs_db := d1\<rparr>" using assms(2) True 1 by (auto simp: HandleIdentity_def db_wrap_eq)
  ultimately show ?thesis using assms(1) by (simp add: handler_inv_def)
next
  case False
  obtain r1 d1 where 1: "UpsertIdentity (ie_did ev) (ie_handle ev) (hs_db st) = (r1, d1)" by (metis surj_pair)
  have s: "store_ok (db_store (hs_db st))" using assms(1) by (simp add: handler_inv_def)
  have "store_ok (db_store d1)"
    using UpsertIdentity_cases [OF 1] s store_ok_actors [OF s] identity_tbl.distinct_upsert
    by (auto simp: store_ok_def actors_ok_def)
  then show ?thesis using assms False 1 by (auto simp: HandleIdentity_def handler_inv_def)
qed

lemma handler_inv_record: "handler_inv st \<Longrightarrow> HandleRecord h ev st = (r, st') \<Longrightarrow> handler_inv st'"
  unfolding HandleRecord_def by (auto split: if_splits intro: handler_inv_write handler_inv_delete)

section \<open>What handling an event guarantees\<close>

abbreviation db_of :: "handler_state \<Rightarrow> store" where "db_of st \<equiv> db_store (hs_db st)"

definition is_write :: "record_event \<Rightarrow> bool" where
  "is_write ev = ((re_action ev = ActionCreate \<or> re_action ev = ActionUpdate) \<and> re_record ev \<noteq> [])"

lemma is_write_HandleRecord: "is_write ev \<Longrightarrow> HandleRecord h ev st = handle_write h ev st"
  by (simp add: is_write_def HandleRecord_def)

lemma event_write_simps [simp]:
  "rw_uri (event_write h ev) = URI ev" "rw_cid (event_write h ev) = re_cid ev"
  "rw_did (event_write h ev) = re_did ev" "rw_collection (event_write h ev) = re_collection ev"
  "rw_json (event_write h ev) = re_record ev" "rw_status (event_write h ev) = vr_status (event_class h ev)"
  "rw_verror (event_write h ev) = vr_error (event_class h ev)" "rw_lexhash (event_write h ev) = vr_lexhash (event_class h ev)"
  by (simp_all add: event_write_def)

lemma write_done:
  assumes "handler_inv st" "is_write ev" "HandleRecord h ev st = (Ok u, st')"
  shows "(\<exists>r. find_record (URI ev) (db_of st') = Some r \<and> row_current (hc_decoders h) (event_write h ev) r)
    \<and> (keepsHistory h (re_collection ev) \<longrightarrow> has_version (URI ev) (versionKey (hc_sha h) (event_version ev)) (db_of st'))
    \<and> hs_pubsub st' = map_option (Publish (record_event_of (hc_decoders h) (re_action ev) (URI ev) (re_cid ev) (re_did ev)
          (re_collection ev) (re_record ev) (vr_status (event_class h ev) = StatusValid))) (hs_pubsub st)
    \<and> (\<forall>uri. uri \<noteq> URI ev \<longrightarrow> find_record uri (db_of st') = find_record uri (db_of st))
    \<and> set (st_versions (db_of st)) \<subseteq> set (st_versions (db_of st'))
    \<and> handler_inv st'"
proof -
  have ne: "re_record ev \<noteq> []" and hw: "handle_write h ev st = (Ok u, st')"
    using assms(2,3) by (auto simp: is_write_def is_write_HandleRecord)
  obtain d1 d2 res d3 u' where st: "d1 = snd (Ensure (re_did ev) (hs_db st))" "append_history h ev d1 = (Ok u', d2)"
    "store_event h ev d2 = (Ok res, d3)"
    "hs_db st' = (if res = Skipped then d3 else log_completed h (re_action ev) ev (re_record ev) d3)"
    "hs_pubsub st' = publish_write h ev (hs_pubsub st)"
    by (rule handle_write_OkE [OF hw ne])
  have ok1: "store_ok (db_store d1)" unfolding st(1) using assms(1) by (intro ensure_store_ok) (simp add: handler_inv_def)
  note a = append_history_effect [OF st(2) ok1]
  have ok2: "records_ok (db_store d2)" using a by (simp add: store_ok_def)
  have up: "UpsertWithValidation (hc_unicode h) (hc_decoders h) (event_write h ev) d2 = (Ok res, d3)"
    using st(3) by (simp add: store_event_def)
  note w = UpsertWithValidation_stores_all [OF ok2 up]
  have core: "core (db_of st') = core (db_store d3)" using st(4) log_completed_core by simp
  have vers: "st_versions (db_store d3) = st_versions (db_store d2)" using w by auto
  have pub: "publish_write h ev (hs_pubsub st) = map_option (Publish (record_event_of (hc_decoders h) (re_action ev) (URI ev)
      (re_cid ev) (re_did ev) (re_collection ev) (re_record ev) (vr_status (event_class h ev) = StatusValid))) (hs_pubsub st)"
    using assms(2) by (auto simp: publish_write_def PublishRecordWithValidation_def is_write_def ActionCreate_def
        ActionUpdate_def EventCreate_def EventUpdate_def)
  have recs: "find_record uri (db_of st') = find_record uri (db_store d3)" for uri
    using core by (simp add: core_def find_record_def)
  have base: "st_records (db_store d2) = st_records (db_of st)" "set (st_versions (db_of st)) \<subseteq> set (st_versions (db_store d2))"
    using a append_history_grows [OF st(2)] Ensure_effect [of "hs_db st" "re_did ev"] st(1) by auto
  have "has_version uri key (db_of st') = has_version uri key (db_store d2)" for uri key
    using core vers by (simp add: core_def has_version_def)
  moreover have "st_versions (db_of st') = st_versions (db_store d2)" using core vers by (simp add: core_def)
  ultimately show ?thesis
    using w a pub st(5) recs base handler_inv_record [OF assms(1,3)] by (auto simp: is_ok_def find_record_def)
qed

text \<open>C18: when \<open>HandleRecord\<close> returns nil for a create or update with a body, the record is stored under its
  AT-URI with the event's CID and the classification of the event's own body, its version is in the history if the
  collection keeps one, and the hub was handed exactly this event, marked visible to typed subscribers exactly when that
  classification is \<open>valid\<close>.  No other record changes, and no version already stored is lost.\<close>

theorem HandleRecord_write_done:
  assumes "handler_inv st" "is_write ev" "HandleRecord h ev st = (Ok u, st')"
  shows "(\<exists>r. find_record (URI ev) (db_of st') = Some r \<and> row_current (hc_decoders h) (event_write h ev) r)
    \<and> (keepsHistory h (re_collection ev) \<longrightarrow> has_version (URI ev) (versionKey (hc_sha h) (event_version ev)) (db_of st'))
    \<and> hs_pubsub st' = map_option (Publish (record_event_of (hc_decoders h) (re_action ev) (URI ev) (re_cid ev) (re_did ev)
          (re_collection ev) (re_record ev) (vr_status (event_class h ev) = StatusValid))) (hs_pubsub st)
    \<and> (\<forall>uri. uri \<noteq> URI ev \<longrightarrow> find_record uri (db_of st') = find_record uri (db_of st))
    \<and> set (st_versions (db_of st)) \<subseteq> set (st_versions (db_of st'))
    \<and> handler_inv st'"
  by (rule write_done [OF assms])

lemma delete_done:
  assumes "re_action ev = ActionDelete" "HandleRecord h ev st = (r, st')"
  shows "case r of
      Inl e \<Rightarrow> db_of st' = db_of st \<and> hs_pubsub st' = hs_pubsub st
    | Inr _ \<Rightarrow>
        find_record (URI ev) (db_of st') = None
        \<and> (\<forall>v\<in>set (st_versions (db_of st')). rv_uri v \<noteq> URI ev)
        \<and> (\<forall>uri. uri \<noteq> URI ev \<longrightarrow> find_record uri (db_of st') = find_record uri (db_of st))
        \<and> hs_pubsub st' = map_option (Publish (case find_record (URI ev) (db_of st) of
              None \<Rightarrow> delete_event_of (hc_decoders h) (URI ev) [] (re_did ev) (re_collection ev) [] False
            | Some row \<Rightarrow> delete_event_of (hc_decoders h) (URI ev) (rr_cid row) (rr_did row) (rr_collection row)
                (rr_json row) (rr_status row = StatusValid))) (hs_pubsub st)"
proof -
  have hd: "handle_delete h ev st = (r, st')"
    using assms by (simp add: HandleRecord_def ActionCreate_def ActionUpdate_def ActionDelete_def)
  obtain r1 d1 where 1: "DeleteReturning (URI ev) (hs_db st) = (r1, d1)" by (metis surj_pair)
  show ?thesis
  proof (cases r1)
    case (Inl e)
    have "db_store d1 = db_of st" using db_tx_ErrD [of _ _ _ "hs_db st" e d1] 1 Inl unfolding DeleteReturning_def by blast
    then show ?thesis using hd 1 Inl by (auto simp: handle_delete_def)
  next
    case (Inr deleted)
    have p: "db_store d1 = purge_store ColURI (URI ev) (db_of st)" "deleted = find_record (URI ev) (db_of st)"
      using DeleteReturning_OkD [of "URI ev" "hs_db st" deleted d1] 1 Inr by auto
    have r: "r = Ok ()" "hs_db st' = log_completed h ''delete'' ev [] d1"
      "hs_pubsub st' = publish_removal h ev deleted (hs_pubsub st)"
      using hd 1 Inr by (auto simp: handle_delete_def)
    have core: "core (db_of st') = core (db_store d1)" using r(2) log_completed_core by simp
    then have "find_record uri (db_of st') = find_record uri (db_store d1)" for uri
      by (simp add: core_def find_record_def)
    moreover have "\<forall>v\<in>set (st_versions (db_of st')). rv_uri v \<noteq> URI ev"
      using core p(1) by (auto simp: core_def purge_store_def table_simps)
    ultimately show ?thesis using r p
      by (auto simp: find_record_purge_uri publish_removal_def PublishDelete_def [abs_def] split: option.splits)
  qed
qed

text \<open>a delete is complete or has no effect.  When \<open>HandleRecord\<close> returns nil for a delete, neither the record
  nor any past version of it is stored, every other record is as before, and the hub was handed one delete event that carries the CID, owner
  and visibility of the row that was actually removed; when it returns an error, records, versions and hub are untouched.\<close>

theorem HandleRecord_delete_done:
  assumes "re_action ev = ActionDelete" "HandleRecord h ev st = (r, st')"
  shows "case r of
      Inl e \<Rightarrow> db_of st' = db_of st \<and> hs_pubsub st' = hs_pubsub st
    | Inr _ \<Rightarrow>
        find_record (URI ev) (db_of st') = None
        \<and> (\<forall>v\<in>set (st_versions (db_of st')). rv_uri v \<noteq> URI ev)
        \<and> (\<forall>uri. uri \<noteq> URI ev \<longrightarrow> find_record uri (db_of st') = find_record uri (db_of st))
        \<and> hs_pubsub st' = map_option (Publish (case find_record (URI ev) (db_of st) of
              None \<Rightarrow> delete_event_of (hc_decoders h) (URI ev) [] (re_did ev) (re_collection ev) [] False
            | Some row \<Rightarrow> delete_event_of (hc_decoders h) (URI ev) (rr_cid row) (rr_did row) (rr_collection row)
                (rr_json row) (rr_status row = StatusValid))) (hs_pubsub st)"
  by (rule delete_done [OF assms])

lemma identity_effect:
  assumes "HandleIdentity h ev st = (r, st')"
  shows "hs_pubsub st' = hs_pubsub st \<and>
    (if to_lower (hc_unicode h) (trim_space (ie_status ev)) \<in> {''deleted'', ''deactivated'', ''suspended'', ''takendown''}
     then (case r of
         Inl e \<Rightarrow> db_of st' = db_of st
       | Inr _ \<Rightarrow> db_of st' = (db_of st)\<lparr>
           st_records := filter (\<lambda>x. rr_did x \<noteq> ie_did ev) (st_records (db_of st)),
           st_versions := filter (\<lambda>x. rv_did x \<noteq> ie_did ev) (st_versions (db_of st)),
           st_actors := filter (\<lambda>x. ac_did x \<noteq> ie_did ev) (st_actors (db_of st))\<rparr>)
     else st_records (db_of st') = st_records (db_of st) \<and> st_versions (db_of st') = st_versions (db_of st)
       \<and> (\<forall>u. r = Ok u \<longrightarrow> map_option ac_handle (find_actor (ie_did ev) (db_of st')) = Some (Some (ie_handle ev)))
       \<and> (\<forall>did. did \<noteq> ie_did ev \<longrightarrow> find_actor did (db_of st') = find_actor did (db_of st)))"
proof (cases "shouldPurgeIdentity (hc_unicode h) ev")
  case True
  obtain r1 d1 where 1: "PurgeActorData (ie_did ev) (hs_db st) = (r1, d1)" by (metis surj_pair)
  have r: "st' = st\<lparr>hs_db := d1\<rparr>" "r = (case r1 of Inl e \<Rightarrow> Err (''failed to purge actor data: '' @ e) | Inr a \<Rightarrow> Ok a)"
    using assms True 1 by (auto simp: HandleIdentity_def db_wrap_eq)
  have "case r1 of Inl e \<Rightarrow> db_store d1 = db_of st | Inr _ \<Rightarrow> db_store d1 = (db_of st)\<lparr>
         st_records := filter (\<lambda>r. rr_did r \<noteq> ie_did ev) (st_records (db_of st)),
         st_versions := filter (\<lambda>v. rv_did v \<noteq> ie_did ev) (st_versions (db_of st)),
         st_actors := filter (\<lambda>a. ac_did a \<noteq> ie_did ev) (st_actors (db_of st))\<rparr>"
    using PurgeActorData_effect [OF 1] .
  then show ?thesis using True r by (auto simp: shouldPurgeIdentity_def identityStatus_def split: sum.splits)
next
  case False
  obtain r1 d1 where 1: "UpsertIdentity (ie_did ev) (ie_handle ev) (hs_db st) = (r1, d1)" by (metis surj_pair)
  have r: "st' = st\<lparr>hs_db := d1\<rparr>" "r = r1" using assms False 1 by (auto simp: HandleIdentity_def)
  have np: "to_lower (hc_unicode h) (trim_space (ie_status ev)) \<notin> {''deleted'', ''deactivated'', ''suspended'', ''takendown''}"
    using False by (simp add: shouldPurgeIdentity_def identityStatus_def)
  show ?thesis using UpsertIdentity_cases [OF 1] r np
    by (auto simp: find_actor_def identity_tbl.find_upsert identity_merge_def split: option.splits)
qed

text \<open>C23: an identity event whose status, trimmed and lower-cased, is deleted, deactivated, suspended or taken down removes every
  record, version and actor row of the account, all or nothing; any other status, the \<open>is_active\<close> flag notwithstanding, stores the handle and
  removes nothing.\<close>

theorem HandleIdentity_effect:
  assumes "HandleIdentity h ev st = (r, st')"
  shows "hs_pubsub st' = hs_pubsub st \<and>
    (if to_lower (hc_unicode h) (trim_space (ie_status ev)) \<in> {''deleted'', ''deactivated'', ''suspended'', ''takendown''}
     then (case r of
         Inl e \<Rightarrow> db_of st' = db_of st
       | Inr _ \<Rightarrow> db_of st' = (db_of st)\<lparr>
           st_records := filter (\<lambda>x. rr_did x \<noteq> ie_did ev) (st_records (db_of st)),
           st_versions := filter (\<lambda>x. rv_did x \<noteq> ie_did ev) (st_versions (db_of st)),
           st_actors := filter (\<lambda>x. ac_did x \<noteq> ie_did ev) (st_actors (db_of st))\<rparr>)
     else st_records (db_of st') = st_records (db_of st) \<and> st_versions (db_of st') = st_versions (db_of st)
       \<and> (\<forall>u. r = Ok u \<longrightarrow> map_option ac_handle (find_actor (ie_did ev) (db_of st')) = Some (Some (ie_handle ev)))
       \<and> (\<forall>did. did \<noteq> ie_did ev \<longrightarrow> find_actor did (db_of st') = find_actor did (db_of st)))"
  by (rule identity_effect [OF assms])

section \<open>Progress\<close>

definition handler_validator_ok :: "handler_config \<Rightarrow> bool" where
  "handler_validator_ok h = (\<forall>v. hc_validator h = Some v \<longrightarrow> record_validator_spec v)"

lemma event_class_known: "handler_validator_ok h \<Longrightarrow> known_status (vr_status (event_class h ev))"
  by (auto simp: handler_validator_ok_def event_class_def ClassifyRecord_def record_validator_spec_def
      split: option.splits)

lemma parsed_record:
  assumes "ParseEvent dec data = Ok e" "IsRecord e" "te_record e = Some ev"
  shows "re_did ev \<noteq> [] \<and> re_collection ev \<noteq> [] \<and> re_rkey ev \<noteq> [] \<and> re_action ev \<noteq> []"
  using assms
  by (auto simp: ParseEvent_def Let_def IsRecord_def check_record_event_def split: sum.splits if_splits option.splits)

lemma event_write_valid:
  assumes "handler_validator_ok h" "re_did ev \<noteq> []" "re_collection ev \<noteq> []" "re_record ev \<noteq> []"
  shows "validateRecordWrite U (event_write h ev) = Ok ()"
  using assms event_class_known by (simp add: validateRecordWrite_def URI_def)

lemma clean_append_history:
  assumes "re_did ev \<noteq> []" "re_collection ev \<noteq> []" "db_json_in d (re_record ev) \<noteq> None"
  shows "clean (append_history h ev) d"
proof -
  have "clean (Append (hc_unicode h) (hc_sha h) (event_version ev)) d"
    using assms by (auto simp: clean_def Append_def event_version_def URI_def RecordVersionCreate_def
        RecordVersionUpdate_def db_wrap_def db_simps)
  then show ?thesis by (simp add: append_history_def clean_wrap)
qed

lemma Ensure_found: "db_faults d = [] \<Longrightarrow> find_actor did (db_store (snd (Ensure did d))) \<noteq> None"
  by (auto simp: Ensure_def db_simps find_actor_def tbl_find_None tbl_insert_ignore_def)

lemma append_history_again:
  assumes "append_history h ev d = (r, d')"
    and "keepsHistory h (re_collection ev) \<longrightarrow> has_version (URI ev) (versionKey (hc_sha h) (event_version ev)) (db_store d)"
  shows "st_versions (db_store d') = st_versions (db_store d) \<and> st_records (db_store d') = st_records (db_store d)
    \<and> st_actors (db_store d') = st_actors (db_store d)"
proof (cases "keepsHistory h (re_collection ev)")
  case True
  obtain r1 where "Append (hc_unicode h) (hc_sha h) (event_version ev) d = (r1, d')"
    using assms(1) True by (auto simp: append_history_def db_wrap_eq split: prod.splits)
  then show ?thesis
  proof (cases rule: Append_cases)
    case (Done b)
    have "(URI ev, versionKey (hc_sha h) (event_version ev)) \<in> version_id ` set (st_versions (db_store d))"
      using assms(2) True unfolding has_version_def by force
    then show ?thesis unfolding Done(5)
      by (cases rule: insert_version_cases [of "version_of_write (hc_sha h) (db_now d) b (event_version ev)" "db_store d" "db_dialect d"])
        (auto simp: event_version_def)
  qed simp
qed (use assms(1) in \<open>simp add: append_history_def\<close>)

lemma Ensure_no_faults: "db_faults d = [] \<Longrightarrow> \<exists>s. snd (Ensure did d) = d\<lparr>db_store := s\<rparr>"
  by (auto simp: Ensure_def db_simps)

lemma handle_write_clean:
  assumes "handler_validator_ok h" "re_did ev \<noteq> []" "re_collection ev \<noteq> []" "re_record ev \<noteq> []"
    and "db_faults (hs_db st) = []" "db_json_in (hs_db st) (re_record ev) \<noteq> None"
  shows "\<exists>st'. handle_write h ev st = (Ok (), st')"
proof -
  obtain s1 where d1: "snd (Ensure (re_did ev) (hs_db st)) = (hs_db st)\<lparr>db_store := s1\<rparr>"
    using Ensure_no_faults [OF assms(5)] by blast
  obtain u s2 where d2: "append_history h ev ((hs_db st)\<lparr>db_store := s1\<rparr>) = (Ok u, (hs_db st)\<lparr>db_store := s2\<rparr>)"
    by (rule cleanE [OF clean_append_history, of ev "(hs_db st)\<lparr>db_store := s1\<rparr>" h]) (use assms in auto)
  have "clean (store_event h ev) ((hs_db st)\<lparr>db_store := s2\<rparr>)"
    unfolding store_event_def
    by (intro clean_wrap clean_UpsertWithValidation event_write_valid) (use assms in auto)
  then obtain res s3 where "store_event h ev ((hs_db st)\<lparr>db_store := s2\<rparr>) = (Ok res, (hs_db st)\<lparr>db_store := s3\<rparr>)"
    using assms(5) by (auto simp: clean_def)
  then show ?thesis using assms(4) d1 d2 by (simp add: handle_write_def)
qed

text \<open>A second delivery finds the actor, the version and the record in place.\<close>

lemma handle_write_again:
  assumes "handler_validator_ok h" "handler_inv st" "re_did ev \<noteq> []" "re_collection ev \<noteq> []" "re_record ev \<noteq> []"
    and "db_faults (hs_db st) = []" "db_json_in (hs_db st) (re_record ev) \<noteq> None"
    and "handle_write h ev st = (Ok (), st')"
    and "re_cid ev \<noteq> []" "hs_db st2 = (hs_db st')\<lparr>db_now := t, db_faults := []\<rparr>"
  shows "\<exists>st3. handle_write h ev st2 = (Ok (), st3) \<and> st_records (db_of st3) = st_records (db_of st')
    \<and> st_versions (db_of st3) = st_versions (db_of st') \<and> st_actors (db_of st3) = st_actors (db_of st')"
proof -
  obtain d1 d2 res d3 u' where s: "d1 = snd (Ensure (re_did ev) (hs_db st))" "append_history h ev d1 = (Ok u', d2)"
    "store_event h ev d2 = (Ok res, d3)"
    "hs_db st' = (if res = Skipped then d3 else log_completed h (re_action ev) ev (re_record ev) d3)"
    using handle_write_OkE [OF assms(8,5)] by metis
  have ok1: "store_ok (db_store d1)" unfolding s(1) using assms(2) by (intro ensure_store_ok) (simp add: handler_inv_def)
  note a = append_history_effect [OF s(2) ok1]
  note w = store_event_effect [OF s(3)]
  have core: "core (db_of st') = core (db_store d3)" and env: "same_env d3 (hs_db st')" using s(4) log_completed_core by auto
  have upd: "st_versions (db_store d3) = st_versions (db_store d2)" "st_actors (db_store d3) = st_actors (db_store d2)"
    using UpsertWithValidation_stores_all [of d2 "hc_unicode h" "hc_decoders h" "event_write h ev" res d3] s(3) a
    by (auto simp: store_event_def store_ok_def)
  have inv': "handler_inv st'" by (rule handler_inv_write [OF assms(2,8)])
  then have okst2: "store_ok (db_of st2)" using assms(10) by (simp add: handler_inv_def)
  have act: "find_actor (re_did ev) (db_of st2) \<noteq> None"
    using Ensure_found [OF assms(6), of "re_did ev"] core a upd s(1) assms(10) by (simp add: core_def find_actor_def)
  have json2: "db_json_in (hs_db st2) (re_record ev) \<noteq> None"
    using assms(7,10) env w a Ensure_effect [of "hs_db st" "re_did ev"] s(1) by (auto simp: same_env_def)
  obtain st3 where st3: "handle_write h ev st2 = (Ok (), st3)"
    using handle_write_clean [OF assms(1,3,4,5) _ json2] assms(10) by auto
  obtain e1 e2 res2 e3 u2 where t: "e1 = snd (Ensure (re_did ev) (hs_db st2))" "append_history h ev e1 = (Ok u2, e2)"
    "store_event h ev e2 = (Ok res2, e3)"
    "hs_db st3 = (if res2 = Skipped then e3 else log_completed h (re_action ev) ev (re_record ev) e3)"
    using handle_write_OkE [OF st3 assms(5)] by metis
  have e1: "st_records (db_store e1) = st_records (db_of st')" "st_versions (db_store e1) = st_versions (db_of st')"
    "st_actors (db_store e1) = st_actors (db_of st')"
    using Ensure_effect [of "hs_db st2" "re_did ev"] act t(1) assms(10) by auto
  have hasv: "keepsHistory h (re_collection ev) \<longrightarrow> has_version (URI ev) (versionKey (hc_sha h) (event_version ev)) (db_store e1)"
    using a core upd(1) e1(2) by (simp add: is_ok_def has_version_def core_def)
  have e2: "st_records (db_store e2) = st_records (db_of st')" "st_versions (db_store e2) = st_versions (db_of st')"
    "st_actors (db_store e2) = st_actors (db_of st')"
    using append_history_again [OF t(2) hasv] e1 by auto
  obtain r where r: "find_record (URI ev) (db_store d3) = Some r" "row_current (hc_decoders h) (event_write h ev) r"
    using UpsertWithValidation_stores_all [of d2 "hc_unicode h" "hc_decoders h" "event_write h ev" res d3] s(3) a
    by (auto simp: store_event_def store_ok_def)
  then have r2: "find_record (rw_uri (event_write h ev)) (db_store e2) = Some r"
    using core e2(1) by (simp add: core_def find_record_def)
  have "db_store e3 = db_store e2 \<and> res2 = Skipped"
    using UpsertWithValidation_current [of "hc_unicode h" "hc_decoders h" "event_write h ev" e2 res2 e3] t(3) r2 r(2) assms(9)
    by (auto simp: store_event_def)
  then show ?thesis using st3 t(4) e2 by simp
qed


section \<open>Witnesses\<close>

definition sample_handler :: handler_config where
  "sample_handler = WithRecordHistory \<lparr>cm_exact = [''org.x.y''], cm_prefixes = []\<rparr>
     (NewIndexHandler ascii_unicode no_decoders id False [])"

definition sample_event :: record_event where
  "sample_event = \<lparr>re_live = True, re_rev = ''r1'', re_did = ''did:plc:a'', re_collection = ''org.x.y'', re_rkey = ''1'',
     re_action = ''create'', re_cid = ''bafy1'', re_record = ''{}''\<rparr>"

definition sample_state :: handler_state where
  "sample_state = \<lparr>hs_db = sqlite_db empty_store 5, hs_pubsub = Some NewPubSub\<rparr>"

lemma sample_state_inv: "handler_inv sample_state"
proof -
  have "store_ok (db_store (hs_db sample_state))" by code_simp
  moreover have "hub_inv NewPubSub" by (simp add: hub_inv_def NewPubSub_def)
  ultimately show ?thesis by (simp add: handler_inv_def sample_state_def)
qed

lemma sample_event_handled: "fst (HandleRecord sample_handler sample_event sample_state) = Ok ()"
  by code_simp

theorem HandleRecord_write_done_witness:
  "let st' = snd (HandleRecord sample_handler sample_event sample_state)
   in map_option rr_cid (find_record ''at://did:plc:a/org.x.y/1'' (db_of st')) = Some ''bafy1''
    \<and> has_version ''at://did:plc:a/org.x.y/1'' ''bafy1'' (db_of st')"
proof -
  have w: "is_write sample_event" by code_simp
  have k: "keepsHistory sample_handler (re_collection sample_event)" "URI sample_event = ''at://did:plc:a/org.x.y/1''"
    "versionKey (hc_sha sample_handler) (event_version sample_event) = ''bafy1''" by code_simp+
  define st' where "st' = snd (HandleRecord sample_handler sample_event sample_state)"
  have "HandleRecord sample_handler sample_event sample_state = (Ok (), st')"
    unfolding st'_def by (rule fst_snd_eq [OF sample_event_handled])
  from HandleRecord_write_done [OF sample_state_inv w this] show ?thesis
    unfolding st'_def [symmetric] using k by (auto simp: row_current_def event_write_def sample_event_def Let_def)
qed

theorem HandleRecord_delete_done_witness:
  "let st = snd (HandleRecord sample_handler sample_event sample_state);
       st' = snd (HandleRecord sample_handler (sample_event\<lparr>re_action := ''delete''\<rparr>) st)
   in find_record ''at://did:plc:a/org.x.y/1'' (db_of st) \<noteq> None \<and> st_versions (db_of st) \<noteq> []
    \<and> find_record ''at://did:plc:a/org.x.y/1'' (db_of st') = None
    \<and> list_all (\<lambda>v. rv_uri v \<noteq> ''at://did:plc:a/org.x.y/1'') (st_versions (db_of st'))"
proof -
  define st where "st = snd (HandleRecord sample_handler sample_event sample_state)"
  define ev where "ev = sample_event\<lparr>re_action := ''delete''\<rparr>"
  define st' where "st' = snd (HandleRecord sample_handler ev st)"
  have a: "re_action ev = ActionDelete" "URI ev = ''at://did:plc:a/org.x.y/1''" unfolding ev_def by code_simp+
  have "fst (HandleRecord sample_handler ev st) = Ok ()" unfolding ev_def st_def by code_simp
  then have "HandleRecord sample_handler ev st = (Ok (), st')" unfolding st'_def by (rule fst_snd_eq)
  note d = HandleRecord_delete_done [OF a(1) this]
  have b: "find_record ''at://did:plc:a/org.x.y/1'' (db_of st) \<noteq> None" "st_versions (db_of st) \<noteq> []"
    unfolding st_def by code_simp+
  show ?thesis using d b a(2) unfolding Let_def st_def [symmetric] ev_def [symmetric] st'_def [symmetric] by (simp add: list_all_iff)
qed

definition sample_identity :: identity_event where
  "sample_identity = \<lparr>ie_did = ''did:plc:a'', ie_handle = ''a.org'', ie_is_active = False, ie_is_active_present = True,
     ie_status = '' deleted ''\<rparr>"

lemma sample_identity_purges: "to_lower U (trim_space (ie_status sample_identity)) = ''deleted''"
proof -
  have t: "trim_space (ie_status sample_identity) = ''deleted''" by code_simp
  have "to_lower U ''deleted'' = ''deleted''" by (rule to_lower_id) (simp_all add: ascii_def)
  then show ?thesis by (simp add: t)
qed

theorem HandleIdentity_effect_witness:
  "let st = snd (HandleRecord sample_handler sample_event sample_state)
   in st_records (db_of (snd (HandleIdentity sample_handler sample_identity st))) = []
     \<and> st_versions (db_of (snd (HandleIdentity sample_handler sample_identity st))) = []"
proof -
  define st where "st = snd (HandleRecord sample_handler sample_event sample_state)"
  define st' where "st' = snd (HandleIdentity sample_handler sample_identity st)"
  have "fst (PurgeActorData (ie_did sample_identity) (hs_db st)) = Ok ()" unfolding st_def by code_simp
  then have "fst (HandleIdentity sample_handler sample_identity st) = Ok ()"
    by (auto simp: HandleIdentity_def shouldPurgeIdentity_def identityStatus_def sample_identity_purges db_wrap_def
      split: prod.splits sum.splits)
  then have "HandleIdentity sample_handler sample_identity st = (Ok (), st')" unfolding st'_def by (rule fst_snd_eq)
  note e = HandleIdentity_effect [OF this]
  have "list_all (\<lambda>x. rr_did x = ie_did sample_identity) (st_records (db_of st))"
    "list_all (\<lambda>x. rv_did x = ie_did sample_identity) (st_versions (db_of st))"
    unfolding st_def by code_simp+
  then have "filter (\<lambda>x. rr_did x \<noteq> ie_did sample_identity) (st_records (db_of st)) = []"
    "filter (\<lambda>x. rv_did x \<noteq> ie_did sample_identity) (st_versions (db_of st)) = []" by (simp_all add: list_all_iff filter_empty_conv)
  then show ?thesis using e unfolding Let_def st_def [symmetric] st'_def [symmetric] by (simp add: sample_identity_purges)
qed

text \<open>A decoder that yields the sample event for every frame.\<close>

definition sample_decode :: "string \<Rightarrow> raw_event res" where
  "sample_decode data = Ok \<lparr>xe_id = 7, xe_type = ''record'', xe_record = Some sample_event, xe_identity = None\<rparr>"

definition sample_tap_event :: tap_event where
  "sample_tap_event = \<lparr>te_id = 7, te_type = ''record'', te_record = Some sample_event, te_identity = None\<rparr>"

lemma sample_parse: "ParseEvent sample_decode data = Ok sample_tap_event" "IsRecord sample_tap_event"
  "te_record sample_tap_event = Some sample_event"
  by (simp_all add: ParseEvent_def sample_decode_def sample_tap_event_def check_record_event_def sample_event_def
    IsRecord_def EventTypeRecord_def)


end
