(* ===== verification/Tap_Consumer.thy ===== *)
theory Tap_Consumer
  imports Tap_Handler "HOL-Library.Sublist"
begin

text \<open>
  The Tap WebSocket consumer, \<open>internal/tap/consumer.go\<close>: dispatch and acknowledgement, the read loop of one
  connection, the statistics, and the reconnect loop with its backoff.  The socket is a list of frames to read
  and a script of write outcomes; the handler is the interface \<open>EventHandler\<close>, a locale here, interpreted for
  \<open>IndexHandler\<close>.
\<close>

section \<open>Definitions\<close>

record 'h event_handler_ops =
  eh_record :: "record_event \<Rightarrow> 'h \<Rightarrow> unit res \<times> 'h"
  eh_identity :: "identity_event \<Rightarrow> 'h \<Rightarrow> unit res \<times> 'h"

datatype write_outcome = WriteOk | DeadlineFail err | WriteFail err

record tap_stats =
  EventsReceived :: int
  RecordsCreated :: int
  RecordsUpdated :: int
  RecordsDeleted :: int
  IdentityEvents :: int
  Errors :: int

record 'h consumer =
  co_disable_acks :: bool
  co_handler :: 'h
  co_stats :: tap_stats
  co_writes :: "write_outcome list"
  co_sent :: "string list"
  co_acked :: "int list"

text \<open>An exhausted script of write outcomes means success.\<close>

definition writeText :: "string \<Rightarrow> 'h consumer \<Rightarrow> unit res \<times> 'h consumer" where
  "writeText msg c =
     (let c' = c\<lparr>co_writes := tl (co_writes c)\<rparr> in
      case co_writes c of
        DeadlineFail e # _ \<Rightarrow> (Err (''failed to set write deadline: '' @ e), c')
      | WriteFail e # _ \<Rightarrow> (Err e, c')
      | _ \<Rightarrow> (Ok (), c'\<lparr>co_sent := co_sent c' @ [msg]\<rparr>))"

definition isWriteError :: "err option \<Rightarrow> bool" where
  "isWriteError e =
     (case e of None \<Rightarrow> False
      | Some msg \<Rightarrow> contains_sub msg ''failed to send ack'' \<or> contains_sub msg ''failed to set write deadline'')"

definition incrementRecordStat :: "string \<Rightarrow> tap_stats \<Rightarrow> tap_stats" where
  "incrementRecordStat action s =
     (if action = ActionCreate then s\<lparr>RecordsCreated := wrap64 (RecordsCreated s + 1)\<rparr>
      else if action = ActionUpdate then s\<lparr>RecordsUpdated := wrap64 (RecordsUpdated s + 1)\<rparr>
      else if action = ActionDelete then s\<lparr>RecordsDeleted := wrap64 (RecordsDeleted s + 1)\<rparr>
      else s)"

definition ack_message :: "int \<Rightarrow> string" where
  \<open>ack_message i = ''{"type":"ack","id":'' @ show_int i @ ''}''\<close>

definition send_ack :: "tap_event \<Rightarrow> 'h consumer \<Rightarrow> unit res \<times> 'h consumer" where
  "send_ack event c =
     (if co_disable_acks c then (Ok (), c)
      else (case writeText (ack_message (te_id event)) c of
              (Inl e, c') \<Rightarrow> (Err (''failed to send ack for event '' @ show_int (te_id event) @ '': '' @ e), c')
            | (Inr _, c') \<Rightarrow> (Ok (), c'\<lparr>co_acked := co_acked c' @ [te_id event]\<rparr>)))"

definition dispatch :: "'h event_handler_ops \<Rightarrow> tap_event \<Rightarrow> 'h consumer \<Rightarrow> unit res \<times> 'h consumer" where
  "dispatch H event c =
     (if IsRecord event then
        let ev = the (te_record event) in
        (case eh_record H ev (co_handler c) of
           (Inl e, hs) \<Rightarrow> (Err e, c\<lparr>co_handler := hs\<rparr>)
         | (Inr _, hs) \<Rightarrow> send_ack event
             (c\<lparr>co_handler := hs, co_stats := incrementRecordStat (re_action ev) (co_stats c)\<rparr>))
      else if IsIdentity event then
        (case eh_identity H (the (te_identity event)) (co_handler c) of
           (Inl e, hs) \<Rightarrow> (Err e, c\<lparr>co_handler := hs\<rparr>)
         | (Inr _, hs) \<Rightarrow> send_ack event
             (c\<lparr>co_handler := hs, co_stats := (co_stats c)\<lparr>IdentityEvents := wrap64 (IdentityEvents (co_stats c) + 1)\<rparr>\<rparr>))
      else (Ok (), c))"

text \<open>What an iteration of the read loop meets: the stop signals checked first, a failing read deadline, or
  the outcome of \<open>ReadMessage\<close>.\<close>

datatype frame =
    CtxDone err | Stopped | ReadDeadlineFail err
  | NormalClose | ReadFail err | OtherMessage | TextMessage string

text \<open>How a connection ended: \<open>Waiting\<close> when the frames given so far are used up.\<close>

datatype conn_end = Waiting | Ended bool "err option"

definition count_received :: "'h consumer \<Rightarrow> 'h consumer" where
  "count_received c = c\<lparr>co_stats := (co_stats c)\<lparr>EventsReceived := wrap64 (EventsReceived (co_stats c) + 1)\<rparr>\<rparr>"

definition count_error :: "'h consumer \<Rightarrow> 'h consumer" where
  "count_error c = c\<lparr>co_stats := (co_stats c)\<lparr>Errors := wrap64 (Errors (co_stats c) + 1)\<rparr>\<rparr>"

definition handle_text ::
  "(string \<Rightarrow> raw_event res) \<Rightarrow> 'h event_handler_ops \<Rightarrow> string \<Rightarrow> 'h consumer \<Rightarrow> err option \<times> 'h consumer" where
  "handle_text dec H data c =
     (let c1 = count_received c in
      case ParseEvent dec data of
        Inl e \<Rightarrow> (None, count_error c1)
      | Inr event \<Rightarrow>
          (case dispatch H event c1 of
             (Inr _, c2) \<Rightarrow> (None, c2)
           | (Inl e, c2) \<Rightarrow>
               (if isWriteError (Some e) then (Some (''failed during Tap ack write: '' @ e), count_error c2)
                else (None, count_error c2))))"

fun run_frames ::
  "(string \<Rightarrow> raw_event res) \<Rightarrow> 'h event_handler_ops \<Rightarrow> frame list \<Rightarrow> 'h consumer \<Rightarrow> conn_end \<times> 'h consumer" where
  "run_frames dec H [] c = (Waiting, c)"
| "run_frames dec H (f # fs) c =
     (case f of
        CtxDone e \<Rightarrow> (Ended False (Some e), c)
      | Stopped \<Rightarrow> (Ended False None, c)
      | ReadDeadlineFail e \<Rightarrow> (Ended False (Some (''failed to set read deadline: '' @ e)), c)
      | NormalClose \<Rightarrow> (Ended False None, c)
      | ReadFail e \<Rightarrow> (Ended False (Some (''read error: '' @ e)), c)
      | OtherMessage \<Rightarrow> run_frames dec H fs c
      | TextMessage data \<Rightarrow>
          (case handle_text dec H data c of
             (Some e, c') \<Rightarrow> (Ended True (Some e), c')
           | (None, c') \<Rightarrow> run_frames dec H fs c'))"

text \<open>\<open>runOnce\<close> with the outcome of the dial: connected, reconnect immediately, error.\<close>

definition runOnce ::
  "(string \<Rightarrow> raw_event res) \<Rightarrow> 'h event_handler_ops \<Rightarrow> err option \<Rightarrow> frame list \<Rightarrow> 'h consumer
   \<Rightarrow> (bool \<times> bool \<times> err option) option \<times> 'h consumer" where
  "runOnce dec H dial frames c =
     (case dial of
        Some e \<Rightarrow> (Some (False, False, Some (''failed to connect to Tap: '' @ e)), c)
      | None \<Rightarrow>
          (case run_frames dec H frames c of
             (Waiting, c') \<Rightarrow> (None, c')
           | (Ended immediate e, c') \<Rightarrow> (Some (True, immediate, e), c')))"

section \<open>Reconnecting\<close>

text \<open>Nanoseconds, as \<open>time.Duration\<close>.\<close>

definition minBackoff :: int where "minBackoff = 1000000000"
definition maxBackoff :: int where "maxBackoff = 120000000000"

definition double_backoff :: "int \<Rightarrow> int" where
  "double_backoff b = (let b2 = wrap64 (b * 2) in if b2 > maxBackoff then maxBackoff else b2)"

text \<open>One pass of \<open>Start\<close>'s loop after \<open>runOnce\<close> returned, with no stop signal: the wait before the next
  attempt (\<open>None\<close> when it reconnects at once) and the next backoff.\<close>

definition start_pass :: "bool \<times> bool \<Rightarrow> int \<Rightarrow> int option \<times> int" where
  "start_pass outcome backoff =
     (case outcome of (connected, immediate) \<Rightarrow>
        let b = (if connected then minBackoff else backoff) in
        if immediate then (None, b) else (Some b, double_backoff b))"

fun start_waits :: "(bool \<times> bool) list \<Rightarrow> int \<Rightarrow> int option list" where
  "start_waits [] backoff = []"
| "start_waits (outcome # rest) backoff =
     (case start_pass outcome backoff of (w, b) \<Rightarrow> w # start_waits rest b)"

definition Start_waits :: "(bool \<times> bool) list \<Rightarrow> int option list" where
  "Start_waits outcomes = start_waits outcomes minBackoff"

lemma double_backoff_min:
  "minBackoff \<le> b \<Longrightarrow> b \<le> maxBackoff \<Longrightarrow> double_backoff b = min (2 * b) maxBackoff"
  by (auto simp: double_backoff_def Let_def wrap64_def minBackoff_def maxBackoff_def)

lemma start_waits_bounds:
  "minBackoff \<le> b \<Longrightarrow> b \<le> maxBackoff \<Longrightarrow> Some w \<in> set (start_waits outcomes b) \<Longrightarrow> minBackoff \<le> w \<and> w \<le> maxBackoff"
proof (induction outcomes arbitrary: b)
  case (Cons o' rest)
  obtain w' b' where p: "start_pass o' b = (w', b')" by (cases "start_pass o' b")
  have "minBackoff \<le> b' \<and> b' \<le> maxBackoff \<and> (\<forall>x. w' = Some x \<longrightarrow> minBackoff \<le> x \<and> x \<le> maxBackoff)"
    using p Cons.prems(1,2) double_backoff_min [of b] double_backoff_min [of minBackoff]
    by (auto simp: start_pass_def Let_def minBackoff_def maxBackoff_def split: prod.splits if_splits)
  then show ?case using Cons p by auto
qed simp

lemma start_pass_cases:
  "start_pass (c, im) b = (if im then (None, if c then minBackoff else b)
     else (Some (if c then minBackoff else b), double_backoff (if c then minBackoff else b)))"
  by (simp add: start_pass_def Let_def)

lemma start_waits_nth:
  assumes "minBackoff \<le> b" "b \<le> maxBackoff" "Suc i < length outcomes"
    "outcomes ! i = (c, False)" "outcomes ! Suc i = (False, False)"
  shows "\<exists>w. start_waits outcomes b ! i = Some w \<and> (c \<longrightarrow> w = minBackoff)
    \<and> start_waits outcomes b ! Suc i = Some (min (2 * w) maxBackoff)"
  using assms
proof (induction outcomes arbitrary: b i)
  case (Cons o' rest)
  obtain w' b' where p: "start_pass o' b = (w', b')" by (cases "start_pass o' b")
  have b': "minBackoff \<le> b'" "b' \<le> maxBackoff"
    using p Cons.prems(1,2) double_backoff_min [of b] double_backoff_min [of minBackoff]
    by (cases o'; auto simp: start_pass_cases minBackoff_def maxBackoff_def split: if_splits)+
  show ?case
  proof (cases i)
    case 0
    obtain o2 rest2 where r: "rest = o2 # rest2" using Cons.prems(3) 0 by (cases rest) auto
    have "o' = (c, False)" "o2 = (False, False)" using Cons.prems(4,5) 0 r by auto
    then show ?thesis using p r 0 Cons.prems(1,2) double_backoff_min [of b] double_backoff_min [of minBackoff]
      by (auto simp: start_pass_cases minBackoff_def maxBackoff_def split: if_splits)
  next
    case (Suc j)
    then show ?thesis using Cons.IH [OF b', of j] Cons.prems p by simp
  qed
qed simp

text \<open>reconnecting never spins and never stalls: every wait lies between one second and two minutes, a
  failed attempt after a wait of \<open>b\<close> waits \<open>min (2 * b) 120s\<close>, and the first wait after a connection that had been
  established is one second again.\<close>

theorem reconnect_backoff:
  "(\<forall>w. Some w \<in> set (Start_waits outcomes) \<longrightarrow> 1000000000 \<le> w \<and> w \<le> 120000000000)
   \<and> (\<forall>i c. Suc i < length outcomes \<and> outcomes ! i = (c, False) \<and> outcomes ! Suc i = (False, False) \<longrightarrow>
        (\<exists>w. Start_waits outcomes ! i = Some w \<and> (c \<longrightarrow> w = 1000000000)
           \<and> Start_waits outcomes ! Suc i = Some (min (2 * w) 120000000000)))"
  using start_waits_bounds [of minBackoff _ outcomes] start_waits_nth [of minBackoff _ outcomes]
  by (simp add: Start_waits_def minBackoff_def maxBackoff_def)

section \<open>The handler interface\<close>

text \<open>The ids of the well-formed events among the frames, in order of arrival.\<close>

fun frame_ids :: "(string \<Rightarrow> raw_event res) \<Rightarrow> frame list \<Rightarrow> int list" where
  "frame_ids dec [] = []"
| "frame_ids dec (f # fs) =
     (case f of TextMessage data \<Rightarrow> (case ParseEvent dec data of Inr e \<Rightarrow> te_id e # frame_ids dec fs | Inl _ \<Rightarrow> frame_ids dec fs)
      | _ \<Rightarrow> frame_ids dec fs)"

lemma send_ack_cases:
  "send_ack e c = (r, c') \<Longrightarrow> co_handler c' = co_handler c \<and> co_stats c' = co_stats c \<and> co_disable_acks c' = co_disable_acks c \<and>
    (co_acked c' = co_acked c \<or> (r = Ok () \<and> co_acked c' = co_acked c @ [te_id e]
       \<and> co_sent c' = co_sent c @ [ack_message (te_id e)]))"
  by (auto simp: send_ack_def writeText_def Let_def split: if_splits list.splits write_outcome.splits prod.splits sum.splits)

lemma count_simps [simp]:
  "co_handler (count_received c) = co_handler c" "co_acked (count_received c) = co_acked c"
  "co_handler (count_error c) = co_handler c" "co_acked (count_error c) = co_acked c"
  by (simp_all add: count_received_def count_error_def)

locale event_handler =
  fixes H :: "'h event_handler_ops" and inv :: "'h \<Rightarrow> bool"
    and rdone :: "record_event \<Rightarrow> 'h \<Rightarrow> bool" and idone :: "identity_event \<Rightarrow> 'h \<Rightarrow> bool"
  assumes inv_record: "inv hs \<Longrightarrow> eh_record H ev hs = (r, hs') \<Longrightarrow> inv hs'"
    and inv_identity: "inv hs \<Longrightarrow> eh_identity H ie hs = (r, hs') \<Longrightarrow> inv hs'"
    and record_done: "inv hs \<Longrightarrow> eh_record H ev hs = (Ok u, hs') \<Longrightarrow> rdone ev hs'"
    and identity_done: "inv hs \<Longrightarrow> eh_identity H ie hs = (Ok u, hs') \<Longrightarrow> idone ie hs'"
begin

definition event_done :: "tap_event \<Rightarrow> 'h \<Rightarrow> bool" where
  "event_done e hs = (if IsRecord e then rdone (the (te_record e)) hs
     else IsIdentity e \<and> idone (the (te_identity e)) hs)"

text \<open>An acknowledgement goes out only for an event whose handling succeeded.\<close>

lemma dispatch_ack:
  assumes "inv (co_handler c)" "dispatch H e c = (r, c')"
  shows "inv (co_handler c') \<and> co_disable_acks c' = co_disable_acks c \<and> (co_acked c' = co_acked c \<or>
    (r = Ok () \<and> co_acked c' = co_acked c @ [te_id e] \<and> event_done e (co_handler c')))"
proof -
  consider "IsRecord e" | "\<not> IsRecord e" "IsIdentity e" | "\<not> IsRecord e" "\<not> IsIdentity e" by blast
  then show ?thesis
  proof cases
    case 1
    obtain r1 hs where h: "eh_record H (the (te_record e)) (co_handler c) = (r1, hs)" by (metis surj_pair)
    show ?thesis
    proof (cases r1)
      case (Inl x)
      then show ?thesis using assms 1 h inv_record [OF assms(1) h] by (auto simp: dispatch_def Let_def)
    next
      case (Inr u)
      then show ?thesis using assms(2) 1 h inv_record [OF assms(1) h] record_done [OF assms(1)]
        by (auto simp: dispatch_def Let_def event_done_def dest!: send_ack_cases)
    qed
  next
    case 2
    obtain r1 hs where h: "eh_identity H (the (te_identity e)) (co_handler c) = (r1, hs)" by (metis surj_pair)
    show ?thesis
    proof (cases r1)
      case (Inl x)
      then show ?thesis using assms 2 h inv_identity [OF assms(1) h] by (auto simp: dispatch_def Let_def)
    next
      case (Inr u)
      then show ?thesis using assms(2) 2 h inv_identity [OF assms(1) h] identity_done [OF assms(1)]
        by (auto simp: dispatch_def Let_def event_done_def dest!: send_ack_cases)
    qed
  next
    case 3
    then show ?thesis using assms by (auto simp: dispatch_def)
  qed
qed

lemma handle_text_ack:
  assumes "inv (co_handler c)" "handle_text dec H data c = (r, c')"
  shows "inv (co_handler c') \<and> (co_acked c' = co_acked c \<or>
    (\<exists>e. ParseEvent dec data = Ok e \<and> co_acked c' = co_acked c @ [te_id e] \<and> event_done e (co_handler c')))"
proof (cases "ParseEvent dec data")
  case (Inl x)
  then show ?thesis using assms by (auto simp: handle_text_def Let_def)
next
  case (Inr e)
  obtain r1 c1 where d: "dispatch H e (count_received c) = (r1, c1)" by (metis surj_pair)
  have "inv (co_handler (count_received c))" using assms(1) by simp
  note da = dispatch_ack [OF this d]
  show ?thesis using assms(2) Inr d da by (auto simp: handle_text_def Let_def split: sum.splits if_splits)
qed

text \<open>Over a whole connection: acknowledgements are a subsequence of the delivered ids, in order.\<close>

lemma run_frames_acks:
  assumes "inv (co_handler c)" "run_frames dec H frames c = (r, c')"
  shows "inv (co_handler c') \<and> (\<exists>new. co_acked c' = co_acked c @ new \<and> subseq new (frame_ids dec frames))"
  using assms
proof (induction frames arbitrary: c)
  case Nil
  then show ?case by simp
next
  case (Cons f fs)
  show ?case
  proof (cases f)
    case (TextMessage data)
    obtain x c1 where h: "handle_text dec H data c = (x, c1)" by (metis surj_pair)
    note ha = handle_text_ack [OF Cons.prems(1) h]
    obtain new1 where new1: "co_acked c1 = co_acked c @ new1"
      "new1 = [] \<or> (\<exists>e. ParseEvent dec data = Ok e \<and> new1 = [te_id e])" using ha by auto
    obtain new2 where "inv (co_handler c')" "co_acked c' = co_acked c1 @ new2" "subseq new2 (frame_ids dec fs)"
      using Cons.IH [of c1] Cons.prems(2) TextMessage h ha by (cases x) auto
    then show ?thesis using new1 TextMessage by (auto split: sum.splits)
  qed (use Cons in auto)
qed

end

section \<open>The consumer on the index handler\<close>

definition index_ops :: "handler_config \<Rightarrow> handler_state event_handler_ops" where
  "index_ops h = \<lparr>eh_record = HandleRecord h, eh_identity = HandleIdentity h\<rparr>"

definition record_handled :: "handler_config \<Rightarrow> record_event \<Rightarrow> handler_state \<Rightarrow> bool" where
  "record_handled h ev st =
     ((is_write ev \<longrightarrow>
         (\<exists>r. find_record (URI ev) (db_of st) = Some r \<and> row_current (hc_decoders h) (event_write h ev) r)
         \<and> (keepsHistory h (re_collection ev) \<longrightarrow>
              has_version (URI ev) (versionKey (hc_sha h) (event_version ev)) (db_of st)))
      \<and> (re_action ev = ActionDelete \<longrightarrow>
         find_record (URI ev) (db_of st) = None \<and> (\<forall>v\<in>set (st_versions (db_of st)). rv_uri v \<noteq> URI ev)))"

definition identity_handled :: "handler_config \<Rightarrow> identity_event \<Rightarrow> handler_state \<Rightarrow> bool" where
  "identity_handled h ie st =
     (if shouldPurgeIdentity (hc_unicode h) ie
      then (\<forall>r\<in>set (st_records (db_of st)). rr_did r \<noteq> ie_did ie) \<and> (\<forall>v\<in>set (st_versions (db_of st)). rv_did v \<noteq> ie_did ie)
        \<and> find_actor (ie_did ie) (db_of st) = None
      else map_option ac_handle (find_actor (ie_did ie) (db_of st)) = Some (Some (ie_handle ie)))"

lemma HandleRecord_handled:
  assumes "handler_inv st" "HandleRecord h ev st = (Ok u, st')"
  shows "record_handled h ev st'"
  unfolding record_handled_def
proof (intro conjI impI)
  assume w: "is_write ev"
  show "\<exists>r. find_record (URI ev) (db_of st') = Some r \<and> row_current (hc_decoders h) (event_write h ev) r"
    using write_done [OF assms(1) w assms(2)] by blast
  show "has_version (URI ev) (versionKey (hc_sha h) (event_version ev)) (db_of st')" if "keepsHistory h (re_collection ev)"
    using write_done [OF assms(1) w assms(2)] that by blast
next
  assume d: "re_action ev = ActionDelete"
  show "find_record (URI ev) (db_of st') = None" "\<forall>v\<in>set (st_versions (db_of st')). rv_uri v \<noteq> URI ev"
    using delete_done [OF d assms(2)] by auto
qed

lemma HandleIdentity_handled:
  assumes "HandleIdentity h ie st = (Ok u, st')"
  shows "identity_handled h ie st'"
  using identity_effect [OF assms]
  by (auto simp: identity_handled_def shouldPurgeIdentity_def identityStatus_def find_actor_def tbl_find_None)

interpretation index: event_handler "index_ops h" handler_inv "record_handled h" "identity_handled h"
  by unfold_locales
    (auto simp: index_ops_def intro: handler_inv_record handler_inv_identity HandleRecord_handled HandleIdentity_handled)

text \<open>C4: acknowledged means durable.  If dispatching an event to the index handler sends its acknowledgement, the
  event's effect is in the database at that moment: the record with its classification and, where kept, its version; or
  the record and its history gone; or the account purged or its handle stored.  An event whose handling failed, or that is of an
  unknown type, is not acknowledged.\<close>

theorem acknowledged_is_durable:
  assumes "handler_inv (co_handler c)" "dispatch (index_ops h) e c = (r, c')"
  shows "handler_inv (co_handler c') \<and> (co_acked c' = co_acked c \<or>
    (r = Ok () \<and> co_acked c' = co_acked c @ [te_id e]
     \<and> (\<forall>ev. IsRecord e \<and> te_record e = Some ev \<longrightarrow> record_handled h ev (co_handler c'))
     \<and> (\<forall>ie. \<not> IsRecord e \<and> te_identity e = Some ie \<longrightarrow> identity_handled h ie (co_handler c'))
     \<and> (IsRecord e \<or> IsIdentity e)))"
  using index.dispatch_ack [OF assms] by (auto simp: index.event_done_def split: if_splits)

text \<open>Over a whole connection, whatever frames arrive and whichever handler calls or writes fail, the ids
  acknowledged are a subsequence of the ids of the well-formed events received, in the order received, so no id is invented or
  acknowledged more often than it was delivered, and the tables and the hub stay well formed.\<close>

theorem connection_acks_in_order:
  assumes "handler_inv (co_handler c)" "run_frames dec (index_ops h) frames c = (r, c')"
  shows "handler_inv (co_handler c') \<and> (\<exists>new. co_acked c' = co_acked c @ new \<and> subseq new (frame_ids dec frames))"
  using index.run_frames_acks [OF assms] .

text \<open>a failed acknowledgement ends the connection at once and asks for an immediate reconnect, and a handler
  error whose message does not look like a write failure never ends it: the loop goes on with the next frame.\<close>

theorem ack_failure_reconnects:
  assumes "ParseEvent dec data = Ok e" "dispatch H e (count_received c) = (Err x, c1)"
  shows "run_frames dec H (TextMessage data # fs) c =
      (if contains_sub x ''failed to send ack'' \<or> contains_sub x ''failed to set write deadline''
       then (Ended True (Some (''failed during Tap ack write: '' @ x)), count_error c1)
       else run_frames dec H fs (count_error c1))
    \<and> (\<forall>hs u. IsRecord e \<and> eh_record H (the (te_record e)) (co_handler c) = (Ok u, hs) \<longrightarrow> contains_sub x ''failed to send ack'')"
proof -
  have "contains_sub x ''failed to send ack''"
    if ok: "IsRecord e" "eh_record H (the (te_record e)) (co_handler c) = (Ok u, hs)" for hs u
  proof -
    obtain c0 where "send_ack e c0 = (Err x, c1)" using assms(2) ok by (auto simp: dispatch_def Let_def)
    then have "\<exists>y. x = ''failed to send ack'' @ y"
      by (auto simp: send_ack_def split: if_splits prod.splits sum.splits)
    then show ?thesis unfolding contains_sub_iff by (metis append_Nil)
  qed
  then show ?thesis using assms by (auto simp: handle_text_def isWriteError_def Let_def)
qed

section \<open>Witnesses\<close>

theorem reconnect_backoff_witness:
  "Start_waits [(True, False), (False, False), (False, True), (False, False)]
     = [Some 1000000000, Some 2000000000, None, Some 4000000000]
   \<and> (\<exists>w. Start_waits [(True, False), (False, False)] ! 0 = Some w \<and> w = 1000000000
        \<and> Start_waits [(True, False), (False, False)] ! 1 = Some (min (2 * w) 120000000000))"
proof
  show "\<exists>w. Start_waits [(True, False), (False, False)] ! 0 = Some w \<and> w = 1000000000
      \<and> Start_waits [(True, False), (False, False)] ! 1 = Some (min (2 * w) 120000000000)"
    using conjunct2 [OF reconnect_backoff [of "[(True, False), (False, False)]"], rule_format, of 0 True] by simp
qed code_simp

definition sample_consumer :: "handler_state consumer" where
  "sample_consumer = \<lparr>co_disable_acks = False, co_handler = sample_state,
     co_stats = \<lparr>EventsReceived = 0, RecordsCreated = 0, RecordsUpdated = 0, RecordsDeleted = 0, IdentityEvents = 0, Errors = 0\<rparr>,
     co_writes = [], co_sent = [], co_acked = []\<rparr>"

theorem acknowledged_is_durable_witness:
  "co_acked (snd (dispatch (index_ops sample_handler) sample_tap_event sample_consumer)) = [7]
   \<and> record_handled sample_handler sample_event (co_handler (snd (dispatch (index_ops sample_handler) sample_tap_event sample_consumer)))"
proof -
  define c' where "c' = snd (dispatch (index_ops sample_handler) sample_tap_event sample_consumer)"
  have i: "handler_inv (co_handler sample_consumer)" by (simp add: sample_consumer_def sample_state_inv)
  have f: "fst (dispatch (index_ops sample_handler) sample_tap_event sample_consumer) = Ok ()"
    and a: "co_acked c' = [7]" "co_acked sample_consumer = []" unfolding c'_def by code_simp+
  from f have "dispatch (index_ops sample_handler) sample_tap_event sample_consumer = (Ok (), c')"
    unfolding c'_def by (rule fst_snd_eq)
  from acknowledged_is_durable [OF i this] a show ?thesis
    unfolding c'_def [symmetric] using sample_parse by auto
qed

theorem connection_acks_in_order_witness:
  "co_acked (snd (run_frames sample_decode (index_ops sample_handler) [OtherMessage, TextMessage [], NormalClose] sample_consumer)) = [7]
   \<and> handler_inv (co_handler (snd (run_frames sample_decode (index_ops sample_handler)
        [OtherMessage, TextMessage [], NormalClose] sample_consumer)))"
proof
  have i: "handler_inv (co_handler sample_consumer)" by (simp add: sample_consumer_def sample_state_inv)
  show "handler_inv (co_handler (snd (run_frames sample_decode (index_ops sample_handler)
        [OtherMessage, TextMessage [], NormalClose] sample_consumer)))"
    using connection_acks_in_order [OF i surjective_pairing] by blast
qed code_simp

theorem ack_failure_reconnects_witness:
  "let c = sample_consumer\<lparr>co_writes := [WriteFail ''broken pipe'']\<rparr>
   in fst (run_frames sample_decode (index_ops sample_handler) [TextMessage [], TextMessage []] c)
      = Ended True (Some ''failed during Tap ack write: failed to send ack for event 7: broken pipe'')"
proof -
  define c where "c = sample_consumer\<lparr>co_writes := [WriteFail ''broken pipe'']\<rparr>"
  define x where "x = ''failed to send ack for event 7: broken pipe''"
  have "fst (dispatch (index_ops sample_handler) sample_tap_event (count_received c)) = Err x"
    unfolding c_def x_def by code_simp
  then have "dispatch (index_ops sample_handler) sample_tap_event (count_received c)
      = (Err x, snd (dispatch (index_ops sample_handler) sample_tap_event (count_received c)))" by (rule fst_snd_eq)
  note r = ack_failure_reconnects [where data = "[]" and fs = "[TextMessage []]", OF sample_parse(1) this]
  have "contains_sub x ''failed to send ack''" unfolding x_def by code_simp
  with r have "fst (run_frames sample_decode (index_ops sample_handler) [TextMessage [], TextMessage []] c)
    = Ended True (Some (''failed during Tap ack write: '' @ x))" by simp
  then show ?thesis by (simp add: c_def x_def Let_def)
qed

end
