(* ===== verification/Validation_Refresh.thy ===== *)
theory Validation_Refresh
  imports Records_Repo Keyset_Paging
begin

text \<open>
  The startup validation refresh, \<open>internal/validationrefresh/scheduler.go\<close>.  \<open>RefreshCollection\<close> pages through
  the stale rows of a collection and writes back each verdict only if the row is still the one that was read;
  its loop is a function with a termination proof (the rows after the page cursor get fewer).  The
  counters it logs are part of the loop state.  \<open>row_rkey\<close> is the generated column \<open>rkey\<close> of the record table
  (migration 002), which the validator is given.
\<close>

section \<open>Definitions\<close>

definition refreshBatchSize :: int where "refreshBatchSize = 500"

text \<open>SQL \<open>instr\<close> and \<open>substr\<close>, one-based.\<close>

fun instr :: "string \<Rightarrow> char \<Rightarrow> nat" where
  "instr [] c = 0"
| "instr (x # xs) c = (if x = c then 1 else case instr xs c of 0 \<Rightarrow> 0 | Suc n \<Rightarrow> Suc (Suc n))"

definition substr_from :: "string \<Rightarrow> nat \<Rightarrow> string" where
  "substr_from s n = drop (n - 1) s"

definition row_rkey :: "dialect \<Rightarrow> string \<Rightarrow> string" where
  "row_rkey dia uri =
     (case dia of
        PostgreSQL \<Rightarrow> rev (takeWhile (\<lambda>c. c \<noteq> CHR ''/'') (rev uri))
      | SQLite \<Rightarrow>
          let i1 = instr (substr_from uri 6) CHR ''/'';
              i2 = instr (substr_from uri (i1 + 6)) CHR ''/'' in
          substr_from uri (i2 + i1 + 6))"

record refresh_counts =
  rc_processed :: int
  rc_valid :: int
  rc_invalid :: int
  rc_hidden :: int
  rc_skipped :: int

definition count_result :: "bool \<Rightarrow> vstatus \<Rightarrow> refresh_counts \<Rightarrow> refresh_counts" where
  "count_result updated status n =
     (let n1 = n\<lparr>rc_processed := rc_processed n + 1\<rparr> in
      if \<not> updated then n1\<lparr>rc_skipped := rc_skipped n1 + 1\<rparr>
      else if status = StatusValid then n1\<lparr>rc_valid := rc_valid n1 + 1\<rparr>
      else if status = StatusInvalid then n1\<lparr>rc_invalid := rc_invalid n1 + 1\<rparr>
      else n1\<lparr>rc_hidden := rc_hidden n1 + 1\<rparr>)"

definition row_verdict :: "record_validator \<Rightarrow> dialect \<Rightarrow> record_row \<Rightarrow> vresult" where
  "row_verdict V dia r = val_validate V (rr_collection r) (row_rkey dia (rr_uri r)) (rr_json r)"

text \<open>The inner loop: the cursor and the counters after a page.\<close>

fun refresh_batch ::
  "record_validator \<Rightarrow> record_row list \<Rightarrow> string \<Rightarrow> refresh_counts \<Rightarrow> (string \<times> refresh_counts) dbm" where
  "refresh_batch V [] afterURI n d = (Ok (afterURI, n), d)"
| "refresh_batch V (r # rs) afterURI n d =
     (let res = row_verdict V (db_dialect d) r in
      case UpdateValidationStatusIfUnchanged (Some r) (vr_status res) (vr_error res) (vr_lexhash res) d of
        (Inl e, d') \<Rightarrow> (Err e, d')
      | (Inr updated, d') \<Rightarrow> refresh_batch V rs (rr_uri r) (count_result updated (vr_status res) n) d')"

lemma UpdateIfUnchanged_cases:
  assumes "UpdateValidationStatusIfUnchanged (Some ob) st ve lh d = (r, d')"
  obtains (Fail) e where "r = Err e" "same_env d d'" "map rr_uri (st_records (db_store d')) = map rr_uri (st_records (db_store d))"
  | (Done) j where "db_json_in d (rr_json ob) = Some j" "same_env d d'"
      "r = Ok (tbl_affected (\<lambda>x. rr_uri x = rr_uri ob \<and> rr_cid x = rr_cid ob \<and> rr_json x = j) (st_records (db_store d)) = 1)"
      "db_store d' = (db_store d)\<lparr>st_records := tbl_update (\<lambda>x. rr_uri x = rr_uri ob \<and> rr_cid x = rr_cid ob \<and> rr_json x = j)
         (set_validation (db_now d) st (nullableTextValue ve) (nullableTextValue lh)) (st_records (db_store d))\<rparr>"
proof (cases "db_json_in d (rr_json ob)")
  case None
  then have "same_env d d'" "db_store d' = db_store d" "\<exists>e. r = Err e"
    using assms unfolding UpdateValidationStatusIfUnchanged_def
    by (auto elim!: db_bind_cases db_exec_cases dest!: db_wrap_ErrD)
  then show ?thesis using Fail by auto
next
  case (Some j)
  let ?P = "\<lambda>x. rr_uri x = rr_uri ob \<and> rr_cid x = rr_cid ob \<and> rr_json x = j"
  let ?t = "tbl_update ?P (set_validation (db_now d) st (nullableTextValue ve) (nullableTextValue lh)) (st_records (db_store d))"
  have keys: "map rr_uri ?t = map rr_uri (st_records (db_store d))"
    by (rule map_key_update) (simp add: set_validation_def)
  from assms show ?thesis unfolding UpdateValidationStatusIfUnchanged_def option.case Some Let_def
  proof (cases rule: db_bind_cases)
    case (First e)
    then show ?thesis using Fail by (auto dest!: db_wrap_ErrD db_exec_pureD)
  next
    case (Second a d1)
    have d1: "same_env d d1" "a = tbl_affected ?P (st_records (db_store d))" "db_store d1 = (db_store d)\<lparr>st_records := ?t\<rparr>"
      using Second(1) by (auto dest!: db_exec_pure_OkD)
    from Second(2) show ?thesis
    proof (cases rule: db_bind_cases)
      case (First e)
      then have "same_env d d'" "db_store d' = db_store d1"
        using d1 by (auto dest!: db_wrap_ErrD db_nop_env intro: same_env_trans)
      then show ?thesis using First d1 keys Fail by auto
    next
      case (Second u d2)
      then have "same_env d d'" "db_store d' = db_store d1" "r = Ok (a = 1)"
        using d1 by (auto dest!: db_nop_env intro: same_env_trans)
      then show ?thesis using Done [OF Some] d1 by simp
    qed
  qed
qed

lemma refresh_batch_keys:
  assumes "refresh_batch V rs afterURI n d = (r, d')"
  shows "same_env d d' \<and> map rr_uri (st_records (db_store d')) = map rr_uri (st_records (db_store d))
    \<and> (\<forall>a m. r = Ok (a, m) \<longrightarrow> a = (if rs = [] then afterURI else rr_uri (last rs)))"
  using assms
proof (induction rs arbitrary: afterURI n d)
  case Nil
  then show ?case by auto
next
  case (Cons x rs)
  let ?res = "row_verdict V (db_dialect d) x"
  obtain u d1 where u: "UpdateValidationStatusIfUnchanged (Some x) (vr_status ?res) (vr_error ?res) (vr_lexhash ?res) d = (u, d1)"
    by (metis surj_pair)
  have d1: "same_env d d1" "map rr_uri (st_records (db_store d1)) = map rr_uri (st_records (db_store d))"
    using u by (cases rule: UpdateIfUnchanged_cases; simp add: map_key_update set_validation_def)+
  show ?case
  proof (cases u)
    case (Inl e)
    then show ?thesis using Cons.prems u d1 by (auto simp: Let_def)
  next
    case (Inr b)
    have "refresh_batch V rs (rr_uri x) (count_result b (vr_status ?res) n) d1 = (r, d')"
      using Cons.prems u Inr by (simp add: Let_def)
    note IH = Cons.IH [OF this]
    show ?thesis using IH d1 same_env_trans by auto
  qed
qed

function refresh_loop ::
  "record_validator \<Rightarrow> string \<Rightarrow> string \<Rightarrow> string \<Rightarrow> refresh_counts \<Rightarrow> refresh_counts dbm" where
  "refresh_loop V collection currentHash afterURI n d =
     (case ListRecordsNeedingValidation collection currentHash afterURI refreshBatchSize d of
        (Inl e, d1) \<Rightarrow> (Err e, d1)
      | (Inr records, d1) \<Rightarrow>
          if records = [] then (Ok n, d1)
          else (case refresh_batch V records afterURI n d1 of
                  (Inl e, d2) \<Rightarrow> (Err e, d2)
                | (Inr (afterURI', n'), d2) \<Rightarrow> refresh_loop V collection currentHash afterURI' n' d2))"
  by pat_completeness auto

lemma filter_keys_cong:
  "map key xs = map key ys \<Longrightarrow> length (filter (\<lambda>x. P (key x)) xs) = length (filter (\<lambda>y. P (key y)) ys)"
proof (induction xs arbitrary: ys)
  case (Cons x xs)
  then obtain y ys' where "ys = y # ys'" "key x = key y" "map key xs = map key ys'" by (cases ys) auto
  then show ?case using Cons.IH [of ys'] by simp
qed simp

lemma ListRecords_OkD:
  assumes "ListRecordsNeedingValidation c h a refreshBatchSize d = (Ok rs, d1)"
  shows "db_store d1 = db_store d \<and> same_env d d1 \<and> rs = keyset_page rr_uri 500 a (filter (needs_validation c h) (st_records (db_store d)))"
  using assms unfolding ListRecordsNeedingValidation_def refreshBatchSize_def Let_def
  by (auto dest!: db_exec_pure_OkD simp: keyset_page_def conj_commute)

lemma refresh_decreases:
  assumes l: "ListRecordsNeedingValidation c h a refreshBatchSize d = (Ok rs, d1)" and ne: "rs \<noteq> []"
    and b: "refresh_batch V rs a n d1 = (Ok (a', n'), d2)"
  shows "length (filter (\<lambda>r. a' < rr_uri r) (st_records (db_store d2))) < length (filter (\<lambda>r. a < rr_uri r) (st_records (db_store d)))"
proof -
  note L = ListRecords_OkD [OF l]
  have a': "a' = rr_uri (last rs)" and k: "map rr_uri (st_records (db_store d2)) = map rr_uri (st_records (db_store d))"
    using refresh_batch_keys [OF b] ne L by auto
  have "last rs \<in> set (st_records (db_store d))" "a < rr_uri (last rs)"
    using keyset_page_last [of rr_uri 500 a "filter (needs_validation c h) (st_records (db_store d))"] L ne by auto
  then have "length (filter (\<lambda>r. a' < rr_uri r) (st_records (db_store d))) < length (filter (\<lambda>r. a < rr_uri r) (st_records (db_store d)))"
    unfolding a' by (rule keyset_remaining_less)
  then show ?thesis using filter_keys_cong [OF k, of "\<lambda>u. a' < u"] by simp
qed

termination refresh_loop
  by (relation "measure (\<lambda>(V, c, h, a, n, d). length (filter (\<lambda>r. a < rr_uri r) (st_records (db_store d))))")
    (auto intro: refresh_decreases [OF sym _ sym])

declare refresh_loop.simps [simp del]

definition no_counts :: refresh_counts where
  "no_counts = \<lparr>rc_processed = 0, rc_valid = 0, rc_invalid = 0, rc_hidden = 0, rc_skipped = 0\<rparr>"

definition RefreshCollection :: "record_validator \<Rightarrow> string \<Rightarrow> unit dbm" where
  "RefreshCollection V collection =
     (case val_hash V collection of
        None \<Rightarrow> MarkCollectionUnknownSchema collection (''no saved lexicon for collection '' @ collection)
      | Some currentHash \<Rightarrow>
          db_bind (refresh_loop V collection currentHash [] no_counts) (\<lambda>_. db_return ()))"

definition RefreshCollections :: "record_validator \<Rightarrow> string list \<Rightarrow> unit dbm" where
  "RefreshCollections V collections =
     db_bind (db_wrap ''list stored collections for validation cleanup: '' GetCollectionStats)
       (\<lambda>stats. db_bind
          (db_each (\<lambda>stat.
             if fst stat \<in> set collections then db_return ()
             else db_wrap (''mark collection '' @ fst stat @ '' unknown schema: '')
                    (MarkCollectionUnknownSchema (fst stat)
                       (''no saved lexicon for collection '' @ fst stat @ '' in the startup schema''))) stats)
          (\<lambda>_. db_each (\<lambda>collection.
             db_wrap (''refresh validation for '' @ collection @ '': '') (RefreshCollection V collection)) collections))"

section \<open>One page\<close>

definition revalidate :: "record_validator \<Rightarrow> dialect \<Rightarrow> int \<Rightarrow> record_row \<Rightarrow> record_row" where
  "revalidate V dia now r =
     (let res = row_verdict V dia r in
      set_validation now (vr_status res) (nullableTextValue (vr_error res)) (nullableTextValue (vr_lexhash res)) r)"

text \<open>A stored JSON text is a fixed point of the column's encoding: reading it back and comparing it finds the row.\<close>

definition json_stable :: "db \<Rightarrow> bool" where
  "json_stable d = (\<forall>r\<in>set (st_records (db_store d)). db_json_in d (rr_json r) = Some (rr_json r))"

lemma set_validation_simps [simp]:
  "rr_uri (set_validation now st e l r) = rr_uri r" "rr_cid (set_validation now st e l r) = rr_cid r"
  "rr_json (set_validation now st e l r) = rr_json r" "rr_did (set_validation now st e l r) = rr_did r"
  "rr_collection (set_validation now st e l r) = rr_collection r" "rr_created_at (set_validation now st e l r) = rr_created_at r"
  "rr_indexed_at (set_validation now st e l r) = rr_indexed_at r" "rr_status (set_validation now st e l r) = st"
  by (simp_all add: set_validation_def)

lemma revalidate_simps [simp]:
  "rr_uri (revalidate V dia now r) = rr_uri r" "rr_collection (revalidate V dia now r) = rr_collection r"
  "rr_json (revalidate V dia now r) = rr_json r" "rr_cid (revalidate V dia now r) = rr_cid r"
  "rr_did (revalidate V dia now r) = rr_did r" "rr_indexed_at (revalidate V dia now r) = rr_indexed_at r"
  "rr_created_at (revalidate V dia now r) = rr_created_at r"
  by (simp_all add: revalidate_def Let_def)

text \<open>The table with the rows of a set of URIs revalidated.\<close>

definition revalidated :: "record_validator \<Rightarrow> dialect \<Rightarrow> int \<Rightarrow> (record_row \<Rightarrow> bool) \<Rightarrow> record_row list \<Rightarrow> record_row list" where
  "revalidated V dia now Q t = map (\<lambda>r. if Q r then revalidate V dia now r else r) t"

lemma revalidated_uris [simp]: "map rr_uri (revalidated V dia now Q t) = map rr_uri t"
  by (simp add: revalidated_def)

lemma refresh_batch_effect:
  assumes "refresh_batch V rs a n d = (Ok x, d')" "distinct (map rr_uri (st_records (db_store d)))"
    "set rs \<subseteq> set (st_records (db_store d))" "distinct (map rr_uri rs)" "json_stable d"
  shows "same_env d d' \<and> db_store d' = (db_store d)\<lparr>st_records :=
     revalidated V (db_dialect d) (db_now d) (\<lambda>r. rr_uri r \<in> rr_uri ` set rs) (st_records (db_store d))\<rparr>"
  using assms
proof (induction rs arbitrary: a n d)
  case Nil
  then show ?case by (auto simp: revalidated_def)
next
  case (Cons y rs)
  let ?res = "row_verdict V (db_dialect d) y"
  let ?t = "st_records (db_store d)"
  obtain u d1 where u: "UpdateValidationStatusIfUnchanged (Some y) (vr_status ?res) (vr_error ?res) (vr_lexhash ?res) d = (Ok u, d1)"
    "refresh_batch V rs (rr_uri y) (count_result u (vr_status ?res) n) d1 = (Ok x, d')"
    using Cons.prems(1) by (auto simp: Let_def split: prod.splits sum.splits)
  have y: "db_json_in d (rr_json y) = Some (rr_json y)" using Cons.prems(3,5) by (auto simp: json_stable_def)
  have uniq: "z = y" if "z \<in> set ?t" "rr_uri z = rr_uri y" for z
    using that Cons.prems(2,3) by (auto simp: distinct_map dest: inj_onD)
  have eq: "tbl_update (\<lambda>z. rr_uri z = rr_uri y \<and> rr_cid z = rr_cid y \<and> rr_json z = rr_json y)
      (set_validation (db_now d) (vr_status ?res) (nullableTextValue (vr_error ?res)) (nullableTextValue (vr_lexhash ?res))) ?t
      = revalidated V (db_dialect d) (db_now d) (\<lambda>r. rr_uri r = rr_uri y) ?t"
    unfolding tbl_update_def revalidated_def by (rule map_cong) (auto simp: revalidate_def Let_def dest: uniq)
  have d1: "same_env d d1" "db_store d1 = (db_store d)\<lparr>st_records := revalidated V (db_dialect d) (db_now d) (\<lambda>r. rr_uri r = rr_uri y) ?t\<rparr>"
    using u(1) by (cases rule: UpdateIfUnchanged_cases; simp add: y eq [symmetric])+
  have keys: "map rr_uri (st_records (db_store d1)) = map rr_uri ?t" using d1(2) by (simp add: revalidated_def)
  have "set rs \<subseteq> set (st_records (db_store d1))"
  proof
    fix z assume z: "z \<in> set rs"
    then have "rr_uri z \<noteq> rr_uri y" using Cons.prems(4) by (auto simp: image_iff)
    then show "z \<in> set (st_records (db_store d1))" using z Cons.prems(3) d1(2)
      by (auto simp: revalidated_def image_iff intro!: bexI [of _ z])
  qed
  moreover have "json_stable d1" using Cons.prems(5) d1 by (auto simp: json_stable_def same_env_def revalidated_def)
  ultimately have IH: "same_env d1 d'" "db_store d' = (db_store d1)\<lparr>st_records :=
     revalidated V (db_dialect d1) (db_now d1) (\<lambda>r. rr_uri r \<in> rr_uri ` set rs) (st_records (db_store d1))\<rparr>"
    using Cons.IH [OF u(2)] Cons.prems(2,4) keys by auto
  have "rr_uri y \<notin> rr_uri ` set rs" using Cons.prems(4) by simp
  then have "revalidated V dia now (\<lambda>r. rr_uri r \<in> rr_uri ` set rs) (revalidated V dia now (\<lambda>r. rr_uri r = rr_uri y) ?t)
      = revalidated V dia now (\<lambda>r. rr_uri r \<in> rr_uri ` set (y # rs)) ?t" for dia now
    by (auto simp: revalidated_def)
  then show ?case using IH d1 same_env_trans by (auto simp: same_env_def)
qed

section \<open>The whole loop\<close>

lemma keys_of_page:
  assumes "distinct (map rr_uri t)" "set rs \<subseteq> set t" "r \<in> set t"
  shows "rr_uri r \<in> rr_uri ` set rs \<longleftrightarrow> r \<in> set rs"
  using assms by (auto simp: distinct_map dest: inj_onD)

lemma refresh_step_compose:
  assumes "distinct (map rr_uri t)" "rs = keyset_page rr_uri 500 a (filter (needs_validation c h) t)" "rs \<noteq> []"
  shows "revalidated V dia now (\<lambda>r. needs_validation c h r \<and> rr_uri (last rs) < rr_uri r)
      (revalidated V dia now (\<lambda>r. rr_uri r \<in> rr_uri ` set rs) t)
    = revalidated V dia now (\<lambda>r. needs_validation c h r \<and> a < rr_uri r) t"
  unfolding revalidated_def map_map o_def
proof (rule map_cong [OF refl])
  fix r assume r: "r \<in> set t"
  let ?f = "filter (needs_validation c h) t"
  have df: "distinct (map rr_uri ?f)" using assms(1) by (rule distinct_map_filter)
  have sub: "set rs \<subseteq> set t" using keyset_page_set assms(2) by fastforce
  have mem: "rr_uri r \<in> rr_uri ` set rs \<longleftrightarrow> r \<in> set rs" by (rule keys_of_page [OF assms(1) sub r])
  have al: "a < rr_uri (last rs)" using keyset_page_last [of rr_uri 500 a ?f] assms(2,3) by simp
  have inp: "needs_validation c h r \<and> a < rr_uri r \<and> \<not> rr_uri (last rs) < rr_uri r" if "r \<in> set rs"
    using keyset_page_set [of r rr_uri 500 a ?f] keyset_page_le [OF df, of r 500 a] that assms(2) by auto
  have out: "needs_validation c h r \<and> a < rr_uri r \<longleftrightarrow> needs_validation c h r \<and> rr_uri (last rs) < rr_uri r" if "r \<notin> set rs"
    using keyset_page_beyond [OF df, of r a 500] that assms(2,3) r al by auto
  show "(if needs_validation c h (if rr_uri r \<in> rr_uri ` set rs then revalidate V dia now r else r)
        \<and> rr_uri (last rs) < rr_uri (if rr_uri r \<in> rr_uri ` set rs then revalidate V dia now r else r)
      then revalidate V dia now (if rr_uri r \<in> rr_uri ` set rs then revalidate V dia now r else r)
      else if rr_uri r \<in> rr_uri ` set rs then revalidate V dia now r else r)
    = (if needs_validation c h r \<and> a < rr_uri r then revalidate V dia now r else r)"
    unfolding mem using inp out by (cases "r \<in> set rs") auto
qed

lemma refresh_loop_effect:
  assumes "refresh_loop V c h a n d = (Ok m, d')" "distinct (map rr_uri (st_records (db_store d)))" "json_stable d"
  shows "same_env d d' \<and> db_store d' = (db_store d)\<lparr>st_records := revalidated V (db_dialect d) (db_now d)
     (\<lambda>r. needs_validation c h r \<and> a < rr_uri r) (st_records (db_store d))\<rparr>"
  using assms
proof (induction V c h a n d rule: refresh_loop.induct)
  case (1 V c h a n d)
  let ?t = "st_records (db_store d)"
  obtain rs d1 where l: "ListRecordsNeedingValidation c h a refreshBatchSize d = (Ok rs, d1)"
    using 1(2) by (auto simp: refresh_loop.simps [of V c h a n d] split: prod.splits sum.splits)
  note L = ListRecords_OkD [OF l]
  have rs: "rs = keyset_page rr_uri 500 a (filter (needs_validation c h) ?t)" using L by simp
  show ?case
  proof (cases "rs = []")
    case True
    then have "d' = d1" using 1(2) l by (simp add: refresh_loop.simps [of V c h a n d])
    moreover have "\<forall>r\<in>set ?t. \<not> (needs_validation c h r \<and> a < rr_uri r)"
    proof -
      have "keyset_all rr_uri 500 a (filter (needs_validation c h) ?t) = []"
        using True rs by (simp add: keyset_all.simps)
      then have "sort_key rr_uri (filter (\<lambda>x. a < rr_uri x) (filter (needs_validation c h) ?t)) = []"
        using keyset_all_complete [of rr_uri "filter (needs_validation c h) ?t" 500 a] 1(3)
        by (simp add: distinct_map_filter)
      then have "set (filter (\<lambda>x. a < rr_uri x) (filter (needs_validation c h) ?t)) = {}" by (metis set_empty set_sort)
      then show ?thesis by auto
    qed
    then have "revalidated V (db_dialect d) (db_now d) (\<lambda>r. needs_validation c h r \<and> a < rr_uri r) ?t = ?t"
      by (auto simp: revalidated_def intro!: map_idI)
    ultimately show ?thesis using L by simp
  next
    case False
    obtain a' n' d2 where b: "refresh_batch V rs a n d1 = (Ok (a', n'), d2)"
      "refresh_loop V c h a' n' d2 = (Ok m, d')"
      using 1(2) l False by (auto simp: refresh_loop.simps [of V c h a n d] split: prod.splits sum.splits)
    have sub: "set rs \<subseteq> set (st_records (db_store d1))" using keyset_page_set rs L by fastforce
    have dr: "distinct (map rr_uri rs)"
    proof -
      have "sorted_wrt (\<lambda>x y. rr_uri x < rr_uri y) rs" unfolding rs keyset_page_def
        by (intro sorted_wrt_take sort_key_strict distinct_map_filter 1(3))
      then have "sorted_wrt (<) (map rr_uri rs)" by (simp add: sorted_wrt_map)
      then show ?thesis by (simp add: strict_sorted_iff)
    qed
    have js1: "json_stable d1" using 1(4) L by (simp add: json_stable_def same_env_def)
    have d2: "same_env d1 d2" "db_store d2 = (db_store d)\<lparr>st_records :=
        revalidated V (db_dialect d) (db_now d) (\<lambda>r. rr_uri r \<in> rr_uri ` set rs) ?t\<rparr>"
      using refresh_batch_effect [OF b(1) _ sub dr js1] 1(3) L by (auto simp: same_env_def)
    have a': "a' = rr_uri (last rs)" using refresh_batch_keys [OF b(1)] False by simp
    have "distinct (map rr_uri (st_records (db_store d2)))" using d2(2) 1(3) by simp
    moreover have "json_stable d2" using js1 d2 L by (auto simp: json_stable_def same_env_def revalidated_def)
    ultimately have "same_env d2 d' \<and> db_store d' = (db_store d2)\<lparr>st_records := revalidated V (db_dialect d2) (db_now d2)
        (\<lambda>r. needs_validation c h r \<and> a' < rr_uri r) (st_records (db_store d2))\<rparr>"
      using 1(1) [OF l [symmetric] refl False b(1) [symmetric] refl refl] b(2) by simp
    then show ?thesis using d2 L a' refresh_step_compose [OF 1(3) rs False] same_env_trans
      by (auto simp: same_env_def)
  qed
qed

section \<open>The startup pass\<close>

text \<open>The columns a refresh never writes.\<close>

definition content :: "record_row \<Rightarrow> string \<times> string \<times> string \<times> string \<times> string \<times> int \<times> string option" where
  "content r = (rr_uri r, rr_cid r, rr_did r, rr_collection r, rr_json r, rr_indexed_at r, rr_created_at r)"

text \<open>What the refresh owes a row of collection \<open>c\<close>.\<close>

definition settled :: "record_validator \<Rightarrow> record_row \<Rightarrow> bool" where
  "settled V r =
     (case val_hash V (rr_collection r) of
        None \<Rightarrow> rr_status r = StatusUnknownSchema
      | Some h \<Rightarrow> rr_lexhash r = Some h \<and> rr_validated_at r \<noteq> None)"

text \<open>An update of validation columns that touches the rows of one collection only.\<close>

definition local_update :: "string \<Rightarrow> (record_row \<Rightarrow> bool) \<Rightarrow> store \<Rightarrow> store \<Rightarrow> bool" where
  "local_update c Q s s' =
     (\<exists>g. s' = s\<lparr>st_records := map g (st_records s)\<rparr> \<and> (\<forall>r. content (g r) = content r)
        \<and> (\<forall>r. rr_collection r \<noteq> c \<longrightarrow> g r = r)
        \<and> (\<forall>r\<in>set (st_records s). rr_collection r = c \<longrightarrow> Q (g r)))"

lemma content_set_validation [simp]: "content (set_validation now st e l r) = content r"
  by (simp add: content_def)

lemma content_revalidate [simp]: "content (revalidate V dia now r) = content r"
  by (simp add: content_def)

lemma MarkCollectionUnknownSchema_OkD:
  assumes "MarkCollectionUnknownSchema c reason d = (Ok u, d')"
  shows "same_env d d' \<and> local_update c (\<lambda>r. rr_status r = StatusUnknownSchema) (db_store d) (db_store d')"
proof -
  let ?P = "\<lambda>r. rr_collection r = c \<and> (rr_status r \<noteq> StatusUnknownSchema \<or> rr_verror r = None \<or> rr_verror r \<noteq> Some reason
                \<or> rr_validated_at r = None \<or> rr_lexhash r \<noteq> None)"
  let ?g = "\<lambda>r. if ?P r then set_validation (db_now d) StatusUnknownSchema (Some reason) None r else r"
  have e: "same_env d d'" "db_store d' = (db_store d)\<lparr>st_records := map ?g (st_records (db_store d))\<rparr>"
    using assms unfolding MarkCollectionUnknownSchema_def tbl_update_def by (auto dest!: db_exec_pure_OkD)
  then have "local_update c (\<lambda>r. rr_status r = StatusUnknownSchema) (db_store d) (db_store d')"
    unfolding local_update_def by (intro exI [of _ ?g]) auto
  then show ?thesis using e(1) by simp
qed

lemma revalidate_settled:
  assumes "record_validator_spec V" "val_hash V (rr_collection r) = Some h"
  shows "settled V (revalidate V dia now r)"
proof -
  have "vr_lexhash (row_verdict V dia r) = h" "h \<noteq> []"
    using assms by (auto simp: row_verdict_def record_validator_spec_def)
  then show ?thesis using assms(2)
    by (simp add: settled_def) (simp add: revalidate_def Let_def set_validation_def nullableTextValue_def)
qed

lemma RefreshCollection_OkD:
  assumes "RefreshCollection V c d = (Ok u, d')" "record_validator_spec V" "records_ok (db_store d)" "json_stable d"
    and "\<forall>r\<in>set (st_records (db_store d)). rr_uri r \<noteq> []"
  shows "same_env d d' \<and> local_update c (settled V) (db_store d) (db_store d')"
proof (cases "val_hash V c")
  case None
  then have m: "same_env d d' \<and> local_update c (\<lambda>r. rr_status r = StatusUnknownSchema) (db_store d) (db_store d')"
    using assms(1) MarkCollectionUnknownSchema_OkD by (auto simp: RefreshCollection_def)
  then obtain g where g: "db_store d' = (db_store d)\<lparr>st_records := map g (st_records (db_store d))\<rparr>" "\<forall>r. content (g r) = content r"
    "\<forall>r. rr_collection r \<noteq> c \<longrightarrow> g r = r" "\<forall>r\<in>set (st_records (db_store d)). rr_collection r = c \<longrightarrow> rr_status (g r) = StatusUnknownSchema"
    by (auto simp: local_update_def)
  have "settled V (g r)" if "r \<in> set (st_records (db_store d))" "rr_collection r = c" for r
    using g(2,4) that None by (auto simp: settled_def content_def)
  then show ?thesis using g m unfolding local_update_def by blast
next
  case (Some h)
  obtain n where l: "refresh_loop V c h [] no_counts d = (Ok n, d')"
    using assms(1) Some by (auto simp: RefreshCollection_def db_bind_Ok_iff)
  let ?g = "\<lambda>r. if needs_validation c h r \<and> [] < rr_uri r then revalidate V (db_dialect d) (db_now d) r else r"
  have e: "same_env d d'" "db_store d' = (db_store d)\<lparr>st_records := map ?g (st_records (db_store d))\<rparr>"
    using refresh_loop_effect [OF l _ assms(4)] assms(3) by (auto simp: records_ok_def revalidated_def)
  have "settled V (?g r)" if "r \<in> set (st_records (db_store d))" "rr_collection r = c" for r
  proof (cases "needs_validation c h r")
    case True
    have "[] < rr_uri r" using assms(5) that(1) by (cases "rr_uri r") auto
    then show ?thesis using True revalidate_settled [OF assms(2), of r h] that(2) Some by simp
  next
    case False
    then show ?thesis using that(2) Some by (auto simp: settled_def needs_validation_def)
  qed
  moreover have "\<forall>r. content (?g r) = content r" by simp
  moreover have "\<forall>r. rr_collection r \<noteq> c \<longrightarrow> ?g r = r" by (auto simp: needs_validation_def)
  ultimately show ?thesis using e unfolding local_update_def by blast
qed

lemma local_update_rows:
  assumes "local_update c Q s s'"
  shows "map content (st_records s') = map content (st_records s)
    \<and> (\<forall>r'\<in>set (st_records s'). (rr_collection r' = c \<and> Q r') \<or> (rr_collection r' \<noteq> c \<and> r' \<in> set (st_records s)))
    \<and> s' = s\<lparr>st_records := st_records s'\<rparr>"
proof -
  obtain g where g: "s' = s\<lparr>st_records := map g (st_records s)\<rparr>" "\<forall>r. content (g r) = content r"
    "\<forall>r. rr_collection r \<noteq> c \<longrightarrow> g r = r" "\<forall>r\<in>set (st_records s). rr_collection r = c \<longrightarrow> Q (g r)"
    using assms unfolding local_update_def by blast
  have "rr_collection (g r) = rr_collection r" for r using g(2) by (simp add: content_def)
  then have "\<forall>r\<in>set (st_records s). (rr_collection (g r) = c \<and> Q (g r)) \<or> (rr_collection (g r) \<noteq> c \<and> g r \<in> set (st_records s))"
    using g(3,4) by metis
  then show ?thesis using g(1,2) by simp
qed

definition refresh_pre :: "db \<Rightarrow> bool" where
  "refresh_pre d = (records_ok (db_store d) \<and> json_stable d \<and> (\<forall>r\<in>set (st_records (db_store d)). rr_uri r \<noteq> []))"

lemma map_content_projections:
  assumes "map content t' = map content t"
  shows "map rr_uri t' = map rr_uri t \<and> map rr_json t' = map rr_json t \<and> map rr_collection t' = map rr_collection t"
proof -
  have m: "map (\<lambda>r. h (content r)) t' = map (\<lambda>r. h (content r)) t" for h :: "_ \<Rightarrow> string"
    using arg_cong [OF assms, of "map h"] by (simp add: o_def)
  show ?thesis
    using m [of fst] m [of "\<lambda>(_, _, _, _, j, _). j"] m [of "\<lambda>(_, _, _, c, _). c"] by (simp add: content_def)
qed

lemma refresh_pre_content:
  assumes "map content (st_records (db_store d')) = map content (st_records (db_store d))" "same_env d d'" "refresh_pre d"
  shows "refresh_pre d'"
proof -
  note p = map_content_projections [OF assms(1)]
  have "set (map rr_uri (st_records (db_store d'))) = set (map rr_uri (st_records (db_store d)))"
    "set (map rr_json (st_records (db_store d'))) = set (map rr_json (st_records (db_store d)))" using p by simp_all
  then have s: "rr_uri ` set (st_records (db_store d')) = rr_uri ` set (st_records (db_store d))"
    "rr_json ` set (st_records (db_store d')) = rr_json ` set (st_records (db_store d))" by simp_all
  have "rr_uri r' \<noteq> []" if "r' \<in> set (st_records (db_store d'))" for r'
  proof -
    have "rr_uri r' \<in> rr_uri ` set (st_records (db_store d))" unfolding s(1) [symmetric] using that by (rule imageI)
    then show ?thesis using assms(3) by (auto simp: refresh_pre_def)
  qed
  moreover have "db_json_in d' (rr_json r') = Some (rr_json r')" if "r' \<in> set (st_records (db_store d'))" for r'
  proof -
    have "rr_json r' \<in> rr_json ` set (st_records (db_store d))" unfolding s(2) [symmetric] using that by (rule imageI)
    then show ?thesis using assms(2,3) by (auto simp: refresh_pre_def json_stable_def same_env_def)
  qed
  moreover have "records_ok (db_store d')" using p assms(3) by (simp add: refresh_pre_def records_ok_def)
  ultimately show ?thesis unfolding refresh_pre_def json_stable_def by blast
qed

text \<open>A loop of local updates settles the collections it visits and keeps what holds of the others.\<close>

lemma each_local_update:
  assumes "db_each f xs d = (Ok u, d')" "refresh_pre d"
    and step: "\<And>x d1 d2 u. x \<in> set xs \<Longrightarrow> refresh_pre d1 \<Longrightarrow> f x d1 = (Ok u, d2) \<Longrightarrow>
       same_env d1 d2 \<and> (if P x then local_update (c x) Q (db_store d1) (db_store d2) else db_store d2 = db_store d1)"
  shows "same_env d d' \<and> map content (st_records (db_store d')) = map content (st_records (db_store d))
    \<and> (\<forall>r'\<in>set (st_records (db_store d')). if rr_collection r' \<in> c ` {x \<in> set xs. P x} then Q r' else r' \<in> set (st_records (db_store d)))
    \<and> db_store d' = (db_store d)\<lparr>st_records := st_records (db_store d')\<rparr>"
  using assms
proof (induction xs arbitrary: d)
  case Nil
  then show ?case by auto
next
  case (Cons x xs)
  obtain u1 d1 where d1: "f x d = (Ok u1, d1)" "db_each f xs d1 = (Ok u, d')"
    using Cons.prems(1) by (auto split: prod.splits sum.splits)
  have s1: "same_env d d1" "if P x then local_update (c x) Q (db_store d) (db_store d1) else db_store d1 = db_store d"
    using Cons.prems(3) [OF _ Cons.prems(2) d1(1)] by auto
  have rows: "map content (st_records (db_store d1)) = map content (st_records (db_store d))"
    "\<forall>r'\<in>set (st_records (db_store d1)). if P x \<and> rr_collection r' = c x then Q r' else r' \<in> set (st_records (db_store d))"
    "db_store d1 = (db_store d)\<lparr>st_records := st_records (db_store d1)\<rparr>"
    using s1(2) local_update_rows [of "c x" Q "db_store d" "db_store d1"] by (auto split: if_splits)
  have pre1: "refresh_pre d1" by (rule refresh_pre_content [OF rows(1) s1(1) Cons.prems(2)])
  have "same_env d1 d' \<and> map content (st_records (db_store d')) = map content (st_records (db_store d1))
    \<and> (\<forall>r'\<in>set (st_records (db_store d')). if rr_collection r' \<in> c ` {x \<in> set xs. P x} then Q r' else r' \<in> set (st_records (db_store d1)))
    \<and> db_store d' = (db_store d1)\<lparr>st_records := st_records (db_store d')\<rparr>"
    by (rule Cons.IH [OF d1(2) pre1]) (rule Cons.prems(3), auto)
  note IH = this
  have "if rr_collection r' \<in> c ` {y \<in> set (x # xs). P y} then Q r' else r' \<in> set (st_records (db_store d))"
    if "r' \<in> set (st_records (db_store d'))" for r'
  proof (cases "rr_collection r' \<in> c ` {x \<in> set xs. P x}")
    case True
    then show ?thesis using IH that by auto
  next
    case False
    then have r1: "r' \<in> set (st_records (db_store d1))" using IH that by auto
    have "rr_collection r' \<in> c ` {y \<in> set (x # xs). P y} \<longleftrightarrow> P x \<and> rr_collection r' = c x"
      using False by (auto simp: image_iff)
    then show ?thesis using rows(2) r1 by simp
  qed
  moreover have "db_store d' = (db_store d)\<lparr>st_records := st_records (db_store d')\<rparr>"
  proof -
    have "db_store d' = (db_store d1)\<lparr>st_records := st_records (db_store d')\<rparr>" using IH by blast
    also have "\<dots> = (db_store d)\<lparr>st_records := st_records (db_store d')\<rparr>" by (subst rows(3)) simp
    finally show ?thesis .
  qed
  ultimately show ?case using IH rows(1) same_env_trans [OF s1(1)] by simp
qed

lemma GetCollectionStats_OkD:
  assumes "GetCollectionStats d = (Ok stats, d')"
  shows "db_store d' = db_store d \<and> same_env d d' \<and> fst ` set stats = rr_collection ` set (st_records (db_store d))"
  using assms unfolding GetCollectionStats_def by (auto dest!: db_exec_pure_OkD simp: image_image)

text \<open>C6: after a startup refresh succeeds, nothing stale is visible.  Every record the typed API would serve
  (status \<open>valid\<close>) belongs to a collection of the startup schema, has a saved Lexicon, and its verdict was made under exactly that Lexicon's
  current hash; records of collections outside the schema or without a Lexicon are all marked \<open>unknown_schema\<close>.  The
  refresh writes validation columns only: URIs, CIDs, owners, JSON, \<open>indexed_at\<close> and creation times are untouched.\<close>

theorem RefreshCollections_settles:
  assumes "record_validator_spec V" "refresh_pre d" "RefreshCollections V collections d = (Ok u, d')"
  shows "(\<forall>r\<in>set (st_records (db_store d')).
       if rr_collection r \<in> set collections
       then (case val_hash V (rr_collection r) of
               None \<Rightarrow> rr_status r = StatusUnknownSchema
             | Some h \<Rightarrow> rr_lexhash r = Some h \<and> rr_validated_at r \<noteq> None)
       else rr_status r = StatusUnknownSchema)
    \<and> map content (st_records (db_store d')) = map content (st_records (db_store d))
    \<and> db_store d' = (db_store d)\<lparr>st_records := st_records (db_store d')\<rparr>"
proof -
  let ?mark = "\<lambda>stat. if fst stat \<in> set collections then db_return ()
     else db_wrap (''mark collection '' @ fst stat @ '' unknown schema: '')
            (MarkCollectionUnknownSchema (fst stat)
               (''no saved lexicon for collection '' @ fst stat @ '' in the startup schema''))"
  obtain stats d1 u1 d2 where
    1: "GetCollectionStats d = (Ok stats, d1)" and 2: "db_each ?mark stats d1 = (Ok u1, d2)" and
    3: "db_each (\<lambda>c. db_wrap (''refresh validation for '' @ c @ '': '') (RefreshCollection V c)) collections d2 = (Ok u, d')"
    using assms(3) unfolding RefreshCollections_def by (auto simp: db_bind_Ok_iff)
  note S = GetCollectionStats_OkD [OF 1]
  have pre1: "refresh_pre d1" by (rule refresh_pre_content [OF _ _ assms(2)]) (use S in simp_all)
  have "same_env d1 d2 \<and> map content (st_records (db_store d2)) = map content (st_records (db_store d1))
    \<and> (\<forall>r'\<in>set (st_records (db_store d2)). if rr_collection r' \<in> fst ` {x \<in> set stats. fst x \<notin> set collections}
          then rr_status r' = StatusUnknownSchema else r' \<in> set (st_records (db_store d1)))
    \<and> db_store d2 = (db_store d1)\<lparr>st_records := st_records (db_store d2)\<rparr>"
    by (rule each_local_update [OF 2 pre1]) (auto dest: MarkCollectionUnknownSchema_OkD)
  note M = this
  have pre2: "refresh_pre d2" by (rule refresh_pre_content [OF _ _ pre1]) (use M in simp_all)
  have "same_env d2 d' \<and> map content (st_records (db_store d')) = map content (st_records (db_store d2))
    \<and> (\<forall>r'\<in>set (st_records (db_store d')). if rr_collection r' \<in> (\<lambda>c. c) ` {c \<in> set collections. True}
          then settled V r' else r' \<in> set (st_records (db_store d2)))
    \<and> db_store d' = (db_store d2)\<lparr>st_records := st_records (db_store d')\<rparr>"
    by (rule each_local_update [OF 3 pre2]) (auto simp: refresh_pre_def dest: RefreshCollection_OkD [OF _ assms(1)])
  note R = this
  have unk: "rr_status r' = StatusUnknownSchema" if r': "r' \<in> set (st_records (db_store d'))" "rr_collection r' \<notin> set collections" for r'
  proof -
    have r2: "r' \<in> set (st_records (db_store d2))" using R r' by auto
    then have "rr_collection r' \<in> set (map rr_collection (st_records (db_store d2)))" by simp
    also have "set (map rr_collection (st_records (db_store d2))) = fst ` set stats"
      using M S map_content_projections [of "st_records (db_store d2)" "st_records (db_store d1)"] by (metis set_map)
    finally have mem: "(rr_collection r' \<in> fst ` {x \<in> set stats. fst x \<notin> set collections}) = True" using r'(2) by auto
    have "\<forall>r'\<in>set (st_records (db_store d2)). if rr_collection r' \<in> fst ` {x \<in> set stats. fst x \<notin> set collections}
          then rr_status r' = StatusUnknownSchema else r' \<in> set (st_records (db_store d1))" using M by blast
    from bspec [OF this r2] show ?thesis unfolding mem if_True .
  qed
  have frame: "db_store d' = (db_store d)\<lparr>st_records := st_records (db_store d')\<rparr>"
  proof -
    have "db_store d' = (db_store d2)\<lparr>st_records := st_records (db_store d')\<rparr>" using R by blast
    also have "\<dots> = (db_store d1)\<lparr>st_records := st_records (db_store d')\<rparr>"
      using M by (metis (no_types, lifting) store.fold_congs(1) store.surjective store.update_convs(1))
    finally show ?thesis using S by simp
  qed
  show ?thesis using R M S unk frame by (auto simp: settled_def)
qed

section \<open>Progress\<close>

lemma UpdateIfUnchanged_content:
  assumes "UpdateValidationStatusIfUnchanged (Some ob) st e l d = (Ok b, d')"
  shows "map content (st_records (db_store d')) = map content (st_records (db_store d))"
  using assms by (cases rule: UpdateIfUnchanged_cases) (auto simp: tbl_update_def)

lemma refresh_batch_content:
  assumes "refresh_batch V rs a n d = (Ok x, d')"
  shows "map content (st_records (db_store d')) = map content (st_records (db_store d))"
  using assms
proof (induction rs arbitrary: a n d)
  case (Cons r rs)
  then obtain b d1 a1 n1 where "UpdateValidationStatusIfUnchanged (Some r) (vr_status (row_verdict V (db_dialect d) r))
      (vr_error (row_verdict V (db_dialect d) r)) (vr_lexhash (row_verdict V (db_dialect d) r)) d = (Ok b, d1)"
    "refresh_batch V rs a1 n1 d1 = (Ok x, d')"
    by (auto simp: Let_def split: prod.splits sum.splits)
  then show ?case using Cons.IH UpdateIfUnchanged_content by fastforce
qed auto

lemma clean_UpdateIfUnchanged:
  "db_json_in d (rr_json ob) \<noteq> None \<Longrightarrow> clean (UpdateValidationStatusIfUnchanged (Some ob) st e l) d"
  by (auto simp: clean_def UpdateValidationStatusIfUnchanged_def Let_def db_bind_def db_wrap_def db_simps db_return_def)

lemma clean_refresh_batch:
  "\<forall>r\<in>set rs. db_json_in d (rr_json r) \<noteq> None \<Longrightarrow> clean (refresh_batch V rs a n) d"
proof (induction rs arbitrary: a n d)
  case Nil
  then show ?case by (auto simp: clean_def intro: exI [of _ "db_store d"])
next
  case (Cons r rs)
  show ?case unfolding clean_def
  proof
    assume f: "db_faults d = []"
    let ?res = "row_verdict V (db_dialect d) r"
    obtain b s where b: "UpdateValidationStatusIfUnchanged (Some r) (vr_status ?res) (vr_error ?res) (vr_lexhash ?res) d = (Ok b, d\<lparr>db_store := s\<rparr>)"
      by (rule cleanE [OF clean_UpdateIfUnchanged f]) (use Cons.prems in auto)
    obtain x s' where "refresh_batch V rs (rr_uri r) (count_result b (vr_status ?res) n) (d\<lparr>db_store := s\<rparr>) = (Ok x, d\<lparr>db_store := s'\<rparr>)"
      by (rule cleanE [OF Cons.IH [of "d\<lparr>db_store := s\<rparr>"]]) (use Cons.prems f in auto)
    then show "\<exists>a' s. refresh_batch V (r # rs) a n d = (Ok a', d\<lparr>db_store := s\<rparr>)" using b by (auto simp: Let_def)
  qed
qed

lemma refresh_loop_progress:
  assumes "db_faults d = []" "refresh_pre d"
  shows "\<exists>m s. refresh_loop V c h a n d = (Ok m, d\<lparr>db_store := s\<rparr>)"
  using assms
proof (induction V c h a n d rule: refresh_loop.induct)
  case (1 V c h a n d)
  obtain rs where l: "ListRecordsNeedingValidation c h a refreshBatchSize d = (Ok rs, d)"
    using 1(2) by (auto simp: ListRecordsNeedingValidation_def db_simps Let_def)
  note L = ListRecords_OkD [OF l]
  show ?case
  proof (cases "rs = []")
    case True
    then show ?thesis using l by (auto simp: refresh_loop.simps [of V c h a n d] intro: exI [of _ "db_store d"])
  next
    case False
    have sub: "set rs \<subseteq> set (st_records (db_store d))" using keyset_page_set L by fastforce
    have "\<forall>r\<in>set rs. db_json_in d (rr_json r) \<noteq> None" using 1(3) sub by (auto simp: refresh_pre_def json_stable_def)
    then obtain x s where b: "refresh_batch V rs a n d = (Ok x, d\<lparr>db_store := s\<rparr>)"
      using cleanE [OF clean_refresh_batch 1(2)] by metis
    obtain a' n' where x: "x = (a', n')" by (cases x)
    have "refresh_pre (d\<lparr>db_store := s\<rparr>)"
      by (rule refresh_pre_content [OF refresh_batch_content [OF b] _ 1(3)]) simp
    then have "\<exists>m s'. refresh_loop V c h a' n' (d\<lparr>db_store := s\<rparr>) = (Ok m, d\<lparr>db_store := s\<rparr>\<lparr>db_store := s'\<rparr>)"
      using 1(1) [OF l [symmetric] refl False b [symmetric, unfolded x] refl refl] 1(2) by simp
    then show ?thesis using l b x False by (auto simp: refresh_loop.simps [of V c h a n d])
  qed
qed

lemma refresh_loop_cursor_all: "(\<forall>r\<in>set t. rr_uri r \<noteq> []) \<Longrightarrow>
    revalidated V dia now (\<lambda>r. needs_validation c h r \<and> [] < rr_uri r) t = revalidated V dia now (needs_validation c h) t"
  unfolding revalidated_def by (rule map_cong [OF refl]) (metis Nil_less_Cons neq_Nil_conv)

text \<open>C24: \<open>RefreshCollection\<close> terminates and is exact.  When no statement fails it returns nil; for a collection with a saved
  Lexicon it then has replaced the validation columns of exactly the rows whose verdict was missing or made under another hash, each
  by the validator's verdict on that row's own collection, key and JSON, and has changed nothing else.\<close>

theorem RefreshCollection_exact:
  assumes "refresh_pre d" "db_faults d = []" "val_hash V c = Some h"
  shows "RefreshCollection V c d = (Ok (), d\<lparr>db_store := (db_store d)\<lparr>st_records :=
     map (\<lambda>r. if rr_collection r = c \<and> (rr_lexhash r \<noteq> Some h \<or> rr_validated_at r = None)
              then revalidate V (db_dialect d) (db_now d) r else r) (st_records (db_store d))\<rparr>\<rparr>)"
proof -
  obtain m s where l: "refresh_loop V c h [] no_counts d = (Ok m, d\<lparr>db_store := s\<rparr>)"
    using refresh_loop_progress [OF assms(2,1)] by blast
  have "s = (db_store d)\<lparr>st_records := revalidated V (db_dialect d) (db_now d) (needs_validation c h) (st_records (db_store d))\<rparr>"
    using refresh_loop_effect [OF l] assms(1) refresh_loop_cursor_all [of "st_records (db_store d)"]
    by (simp add: refresh_pre_def records_ok_def)
  moreover have "needs_validation c h = (\<lambda>r. rr_collection r = c \<and> (rr_lexhash r \<noteq> Some h \<or> rr_validated_at r = None))"
    by (auto simp: needs_validation_def fun_eq_iff)
  ultimately show ?thesis using l assms(3)
    by (simp add: RefreshCollection_def db_bind_def db_return_def revalidated_def)
qed

section \<open>The generated record key\<close>

lemma instr_append: "CHR ''/'' \<notin> set a \<Longrightarrow> instr (a @ CHR ''/'' # b) CHR ''/'' = length a + 1"
  by (induction a) auto

text \<open>Both dialects' generated columns give back the record key the event carried, so a refresh validates a record under
  the same key as ingestion did.\<close>

lemma row_rkey_uri:
  assumes "CHR ''/'' \<notin> set did" "CHR ''/'' \<notin> set c" "CHR ''/'' \<notin> set k"
  shows "row_rkey dia (''at://'' @ did @ ''/'' @ c @ ''/'' @ k) = k"
proof (cases dia)
  case PostgreSQL
  have "takeWhile (\<lambda>x. x \<noteq> CHR ''/'') (rev k @ CHR ''/'' # rest) = rev k" for rest
    using assms(3) by (subst takeWhile_append2) auto
  then show ?thesis using PostgreSQL by (simp add: row_rkey_def)
next
  case SQLite
  have "instr (did @ CHR ''/'' # c @ CHR ''/'' # k) CHR ''/'' = length did + 1" by (rule instr_append [OF assms(1)])
  moreover have "instr (c @ CHR ''/'' # k) CHR ''/'' = length c + 1" by (rule instr_append [OF assms(2)])
  ultimately show ?thesis using SQLite
    by (simp add: row_rkey_def substr_from_def Let_def numeral_eq_Suc)
qed

section \<open>Witnesses\<close>

text \<open>A validator with one schema, which accepts every record of it.\<close>

definition sample_validator :: record_validator where
  "sample_validator = \<lparr>val_validate = (\<lambda>c k j. if c = ''org.x.y''
       then \<lparr>vr_status = StatusValid, vr_error = [], vr_lexhash = ''h2''\<rparr>
       else \<lparr>vr_status = StatusUnknownSchema, vr_error = ''no lexicon'', vr_lexhash = []\<rparr>),
     val_hash = (\<lambda>c. if c = ''org.x.y'' then Some ''h2'' else None)\<rparr>"

lemma sample_validator_ok: "record_validator_spec sample_validator"
  by unfold_locales (auto simp: sample_validator_def known_status_def status_defs split: if_splits)

definition sample_rows_db :: db where
  "sample_rows_db = sqlite_db (empty_store\<lparr>st_records := [sample_row]\<rparr>) 5"

lemma sample_rows_pre: "refresh_pre sample_rows_db"
proof -
  have "records_ok (db_store sample_rows_db)" by code_simp
  then show ?thesis by (simp add: refresh_pre_def sample_rows_db_def sqlite_db_def sample_row_def json_stable_def)
qed

theorem RefreshCollection_exact_witness:
  "map rr_lexhash (st_records (db_store (snd (RefreshCollection sample_validator ''org.x.y'' sample_rows_db)))) = [Some ''h2'']"
proof -
  have f: "db_faults sample_rows_db = []" by code_simp
  have h: "val_hash sample_validator ''org.x.y'' = Some ''h2''" by code_simp
  show ?thesis using RefreshCollection_exact [OF sample_rows_pre f h]
    by (simp add: sample_rows_db_def sqlite_db_def sample_row_def revalidate_def row_verdict_def sample_validator_def
      ClassifyRecord_def set_validation_def nullableTextValue_def Let_def)
qed

theorem RefreshCollections_settles_witness:
  "list_all (\<lambda>r. rr_lexhash r = Some ''h2'')
     (st_records (db_store (snd (RefreshCollections sample_validator [''org.x.y''] sample_rows_db))))"
proof -
  define d' where "d' = snd (RefreshCollections sample_validator [''org.x.y''] sample_rows_db)"
  have f: "fst (RefreshCollections sample_validator [''org.x.y''] sample_rows_db) = Ok ()" by code_simp
  have "list_all (\<lambda>r. rr_collection r = ''org.x.y'') (st_records (db_store d'))" unfolding d'_def by code_simp
  moreover have "val_hash sample_validator ''org.x.y'' = Some ''h2''" by code_simp
  ultimately show ?thesis
    using RefreshCollections_settles [OF sample_validator_ok sample_rows_pre fst_snd_eq [OF f]]
    unfolding d'_def [symmetric] by (auto simp: list_all_iff)
qed

end
