(* ===== verification/Record_Filters.thy ===== *)
theory Record_Filters
  imports Versions_Repo
begin

text \<open>
  The WHERE clauses of record queries (\<open>internal/database/repositories/records.go\<close>): field filters, DID filters and external-label filters.  The code
  builds SQL text with numbered placeholders and, beside it, the list of bind arguments; here a condition is a term of \<open>sql_cond\<close> whose arguments
  are the same placeholder numbers (\<open>TimeParam\<close> with a cast to \<open>timestamptz\<close>, \<open>StrftimeParam\<close> inside \<open>strftime\<close>).  Aliases of subqueries are local names and are not kept: \<open>json_src\<close> says which row an expression reads.

  What the database makes of an expression, a comparison or a pattern is the record \<open>engine\<close>; a context \<open>'c\<close> is the row under test with the
  rows its subqueries have bound.  Conditions are joined by AND, OR and (NOT) EXISTS only, so the truth of a WHERE clause needs no third value: a comparison with
  NULL is not true.  A panic of the executor on a malformed JSON path is an error with the panic's text.
\<close>

section \<open>Filters\<close>

text \<open>A Go \<open>interface{}\<close> that holds a filter value; \<open>VOther\<close> is any other kind.\<close>

datatype fvalue = VStr string | VInt int | VFloat string | VBool bool | VNil | VList "fvalue list" | VStrings "string list" | VOther string

text \<open>\<open>fmt\<close>: the verbs \<open>%v\<close> and \<open>%T\<close> on such a value, and the tables behind \<open>%q\<close>.\<close>

record fmt_env =
  fe_v :: "fvalue \<Rightarrow> string"
  fe_t :: "fvalue \<Rightarrow> string"
  fe_unicode :: unicode

datatype dbval = DText string | DInt int | DFloat string | DBool bool | DNull

record field_filter =
  ff_field :: string
  ff_path :: "string list"
  ff_array_path :: "string list"
  ff_operator :: string
  ff_value :: fvalue
  ff_type :: string
  ff_target :: string

record did_filter =
  df_eq :: string
  df_in :: "string list"

record label_string_filter =
  ls_operator :: string
  ls_value :: fvalue

record label_predicate =
  lp_sources :: "label_string_filter list"
  lp_values :: "label_string_filter list"
  lp_active_only :: bool

record label_record_filter =
  lf_has :: "label_predicate option"
  lf_none :: "label_predicate option"

datatype label_subject = SubjectRecord | SubjectAuthor

record label_filter_set =
  lfs_record :: label_record_filter
  lfs_author :: label_record_filter

definition MaxINListSize :: nat where "MaxINListSize = 100"
definition SQLiteAggregateParameterLimit :: nat where "SQLiteAggregateParameterLimit = 999"
definition SortFieldRecordCreatedAt :: string where "SortFieldRecordCreatedAt = ''record_created_at''"

definition DIDFilter_IsEmpty :: "did_filter \<Rightarrow> bool" where
  "DIDFilter_IsEmpty d = (df_eq d = [] \<and> length (df_in d) = 0)"

definition LabelFilter_IsEmpty :: "label_record_filter \<Rightarrow> bool" where
  "LabelFilter_IsEmpty f = (lf_has f = None \<and> lf_none f = None)"

definition LabelFilterSet_IsEmpty :: "label_filter_set \<Rightarrow> bool" where
  "LabelFilterSet_IsEmpty f = (LabelFilter_IsEmpty (lfs_record f) \<and> LabelFilter_IsEmpty (lfs_author f))"

section \<open>Conditions\<close>

datatype json_src = RecordJson | ElementValue | DefinitionJson | ContributorInfoJson

datatype sql_expr =
    Column string
  | JsonPath json_src "string list"
  | GuardedPath json_src "string list"
  | WholeText json_src
  | WholeValue json_src
  | Numeric sql_expr
  | BadgeTypeOf sql_expr sql_expr
  | LabelColumn string
  | InfoColumn string
  | Strftime sql_expr

datatype sql_arg = Param nat | TimeParam nat | StrftimeParam nat

datatype sql_cond =
    Compare string sql_expr sql_arg
  | LikeCond bool sql_expr sql_arg
  | NullTest bool sql_expr
  | InList sql_expr "sql_arg list"
  | Falsum
  | SameValue sql_expr sql_expr
  | TextIs sql_expr string
  | AnyOf "sql_cond list"
  | AllOf "sql_cond list"
  | AnyElement "string list" "sql_cond list"
  | ContributorInfoExists "sql_cond list"
  | LabelExists bool "sql_cond list"
  | LabelNoCID
  | LabelCIDMatches
  | LabelSubject label_subject
  | LabelActive
  | RowCompare string sql_expr sql_expr sql_arg sql_arg

text \<open>A built condition: the condition, its bind arguments and the number of placeholders it uses.\<close>

type_synonym built = "sql_cond \<times> dbval list \<times> nat"

definition placeholders :: "nat \<Rightarrow> nat \<Rightarrow> sql_arg list" where
  "placeholders n start = map Param [start..<start + n]"

section \<open>Building field conditions\<close>

definition toDBValue :: "fmt_env \<Rightarrow> fvalue \<Rightarrow> dbval" where
  "toDBValue F v =
     (case v of VStr s \<Rightarrow> DText s | VInt i \<Rightarrow> DInt i | VFloat x \<Rightarrow> DFloat x | VBool b \<Rightarrow> DBool b | VNil \<Rightarrow> DNull | _ \<Rightarrow> DText (fe_v F v))"

definition escapeLIKE :: "string \<Rightarrow> string" where
  "escapeLIKE s = replace_char CHR ''_'' [backslash, CHR ''_''] (replace_char CHR ''%'' [backslash, CHR ''%''] (replace_char backslash [backslash, backslash] s))"

definition likeOp_ilike :: "dialect \<Rightarrow> bool" where
  "likeOp_ilike D = (D = PostgreSQL)"

definition recordCreatedAtCursorValueExpr :: "dialect \<Rightarrow> nat \<Rightarrow> sql_arg" where
  "recordCreatedAtCursorValueExpr D n = (if D = PostgreSQL then TimeParam n else Param n)"

text \<open>\<open>validJSONFieldName\<close>, the pattern \<open>^[a-zA-Z_][a-zA-Z0-9_]*$\<close>.\<close>

definition letter_or_underscore :: "char \<Rightarrow> bool" where
  "letter_or_underscore c = (byte c \<in> {97..122} \<union> {65..90} \<or> c = CHR ''_'')"

definition validJSONFieldName :: "string \<Rightarrow> bool" where
  "validJSONFieldName s =
     (case s of [] \<Rightarrow> False
      | c # cs \<Rightarrow> letter_or_underscore c \<and> list_all (\<lambda>c. letter_or_underscore c \<or> byte c \<in> {48..57}) cs)"

definition dialect_name :: "dialect \<Rightarrow> string" where
  "dialect_name D = (case D of PostgreSQL \<Rightarrow> ''postgres'' | SQLite \<Rightarrow> ''sqlite'')"

definition json_name_panic :: "fmt_env \<Rightarrow> dialect \<Rightarrow> string \<Rightarrow> string \<Rightarrow> err" where
  "json_name_panic F D what s =
     dialect_name D @ '': invalid JSON '' @ what @ '': '' @ go_quote (fe_unicode F) s @ '' (must match ^[a-zA-Z_][a-zA-Z0-9_]*$)''"

definition JSONExtract :: "fmt_env \<Rightarrow> dialect \<Rightarrow> json_src \<Rightarrow> string \<Rightarrow> sql_expr res" where
  "JSONExtract F D column field =
     (if validJSONFieldName field then Ok (JsonPath column [field]) else Err (json_name_panic F D ''field name'' field))"

definition JSONExtractPath :: "fmt_env \<Rightarrow> dialect \<Rightarrow> json_src \<Rightarrow> string list \<Rightarrow> sql_expr res" where
  "JSONExtractPath F D column path =
     (case List.find (\<lambda>p. \<not> validJSONFieldName p) path of
        Some p \<Rightarrow> Err (json_name_panic F D ''path segment'' p)
      | None \<Rightarrow> Ok (if path = [] \<and> D = PostgreSQL then WholeValue column else JsonPath column path))"

definition res_map :: "('a \<Rightarrow> 'b) \<Rightarrow> 'a res \<Rightarrow> 'b res" where
  "res_map f r = (case r of Inl e \<Rightarrow> Err e | Inr x \<Rightarrow> Ok (f x))"

definition json_text_expr :: "fmt_env \<Rightarrow> dialect \<Rightarrow> json_src \<Rightarrow> string list \<Rightarrow> sql_expr res" where
  "json_text_expr F D column path =
     (if length path = 0 then Ok (if D = PostgreSQL then WholeText column else WholeValue column)
      else if D \<noteq> PostgreSQL then res_map (\<lambda>_. GuardedPath column path) (JSONExtractPath F D column path)
      else JSONExtractPath F D column path)"

definition filterFieldExpr :: "fmt_env \<Rightarrow> dialect \<Rightarrow> field_filter \<Rightarrow> sql_expr res" where
  "filterFieldExpr F D f =
     (if ff_target f = [] \<or> ff_target f = ''json'' then
        (if length (ff_path f) > 0 then JSONExtractPath F D RecordJson (ff_path f) else JSONExtract F D RecordJson (ff_field f))
      else if ff_target f = ''column'' then
        (if ff_field f \<notin> {''uri'', SortFieldRecordCreatedAt}
         then Err (''unsupported metadata filter column '' @ go_quote (fe_unicode F) (ff_field f)
                   @ '': expose it as a generated metadata filter before using FieldFilterTargetColumn'')
         else Ok (Column (ff_field f)))
      else Err (''unsupported filter target '' @ go_quote (fe_unicode F) (ff_target f) @ '' for field '' @ go_quote (fe_unicode F) (ff_field f)
                @ '': use FieldFilterTargetJSON or FieldFilterTargetColumn''))"

definition in_list_error :: "fmt_env \<Rightarrow> string \<Rightarrow> err" where
  "in_list_error F field = ''IN filter on field '' @ go_quote (fe_unicode F) field @ '' exceeds maximum of '' @ show_nat MaxINListSize @ '' values''"

definition compare_ops :: "(string \<times> string) list" where
  "compare_ops = [(''eq'', ''=''), (''neq'', ''!=''), (''gt'', ''>''), (''lt'', ''<''), (''gte'', ''>=''), (''lte'', ''<='')]"

definition numeric_extract :: "field_filter \<Rightarrow> sql_expr \<Rightarrow> sql_expr" where
  "numeric_extract f extract = (if ff_type f = ''integer'' \<or> ff_type f = ''number'' then Numeric extract else extract)"

definition buildScalarFilterCondition :: "fmt_env \<Rightarrow> dialect \<Rightarrow> sql_expr \<Rightarrow> field_filter \<Rightarrow> nat \<Rightarrow> built res" where
  "buildScalarFilterCondition F D extract0 f ph =
     (let extract = numeric_extract f extract0 in
      case map_of compare_ops (ff_operator f) of
        Some sqlOp \<Rightarrow> Ok (Compare sqlOp extract (Param ph), [toDBValue F (ff_value f)], 1)
      | None \<Rightarrow>
          if ff_operator f = ''contains'' then
            Ok (LikeCond (likeOp_ilike D) extract (Param ph), [DText (''%'' @ escapeLIKE (fe_v F (ff_value f)) @ ''%'')], 1)
          else if ff_operator f = ''startsWith'' then
            Ok (LikeCond (likeOp_ilike D) extract (Param ph), [DText (escapeLIKE (fe_v F (ff_value f)) @ ''%'')], 1)
          else if ff_operator f = ''isNull'' then
            (case ff_value f of
               VBool b \<Rightarrow> Ok (NullTest b extract, [], 0)
             | v \<Rightarrow> Err (''isNull filter on field '' @ go_quote (fe_unicode F) (ff_field f) @ '' must be a boolean, got '' @ fe_t F v))
          else if ff_operator f = ''in'' then
            (case ff_value f of
               VList vs \<Rightarrow>
                 if length vs = 0 then Ok (Falsum, [], 0)
                 else if length vs > MaxINListSize then Err (in_list_error F (ff_field f))
                 else Ok (InList extract (placeholders (length vs) ph), map (toDBValue F) vs, length vs)
             | v \<Rightarrow> Err (''IN filter on field '' @ go_quote (fe_unicode F) (ff_field f) @ '' must be a list, got '' @ fe_t F v))
          else Err (''unsupported filter operator '' @ go_quote (fe_unicode F) (ff_operator f) @ '' for field '' @ go_quote (fe_unicode F) (ff_field f)))"

fun created_at_values :: "fmt_env \<Rightarrow> fvalue list \<Rightarrow> string list res" where
  "created_at_values F [] = Ok []"
| "created_at_values F (v # vs) =
     (case v of
        VStr s \<Rightarrow> res_map (\<lambda>ss. s # ss) (created_at_values F vs)
      | _ \<Rightarrow> Err (''record_created_at in filter values must be normalized datetime strings, got '' @ fe_t F v))"

definition buildRecordCreatedAtFilterCondition :: "fmt_env \<Rightarrow> dialect \<Rightarrow> field_filter \<Rightarrow> nat \<Rightarrow> built res" where
  "buildRecordCreatedAtFilterCondition F D f ph =
     (case map_of compare_ops (ff_operator f) of
        Some sqlOp \<Rightarrow>
          (case ff_value f of
             VStr val \<Rightarrow> Ok (Compare sqlOp (Column SortFieldRecordCreatedAt) (recordCreatedAtCursorValueExpr D ph), [DText val], 1)
           | v \<Rightarrow> Err (''record_created_at '' @ ff_operator f @ '' filter must be a normalized datetime string, got '' @ fe_t F v))
      | None \<Rightarrow>
          if ff_operator f = ''in'' then
            (case ff_value f of
               VList vs \<Rightarrow>
                 if length vs = 0 then Ok (Falsum, [], 0)
                 else if length vs > MaxINListSize then Err (in_list_error F (ff_field f))
                 else (case created_at_values F vs of
                         Inl e \<Rightarrow> Err e
                       | Inr ss \<Rightarrow> Ok (InList (Column SortFieldRecordCreatedAt) (map (\<lambda>i. recordCreatedAtCursorValueExpr D (ph + i)) [0..<length vs]),
                                    map DText ss, length ss))
             | v \<Rightarrow> Err (''record_created_at in filter must be a list, got '' @ fe_t F v))
          else Err (''unsupported record_created_at filter operator '' @ go_quote (fe_unicode F) (ff_operator f)
                    @ '': only eq, neq, gt, lt, gte, lte and in are supported''))"

section \<open>Array, badge and contributor conditions\<close>

definition isArrayAnyFilter :: "field_filter \<Rightarrow> bool" where
  "isArrayAnyFilter f = ((ff_target f = [] \<or> ff_target f = ''json'') \<and> length (ff_array_path f) > 0)"

definition arrayFilterGroupKey :: "field_filter \<Rightarrow> string" where
  "arrayFilterGroupKey f = (if \<not> isArrayAnyFilter f then [] else join_with [CHR 0x00] (ff_array_path f))"

fun array_conditions :: "fmt_env \<Rightarrow> dialect \<Rightarrow> string list \<Rightarrow> field_filter list \<Rightarrow> nat \<Rightarrow> (sql_cond list \<times> dbval list \<times> nat) res" where
  "array_conditions F D path [] ph = Ok ([], [], 0)"
| "array_conditions F D path (f # fs) ph =
     (if \<not> isArrayAnyFilter f \<or> ff_array_path f \<noteq> path then Err ''array any filters must share one JSON array path''
      else case json_text_expr F D ElementValue (ff_path f) of
        Inl e \<Rightarrow> Err e
      | Inr expr \<Rightarrow>
          (case buildScalarFilterCondition F D expr f ph of
             Inl e \<Rightarrow> Err e
           | Inr (c, ps, n) \<Rightarrow>
               (case array_conditions F D path fs (ph + n) of
                  Inl e \<Rightarrow> Err e
                | Inr (cs, qs, m) \<Rightarrow> Ok (c # cs, ps @ qs, n + m))))"

definition buildArrayAnyFilterCondition :: "fmt_env \<Rightarrow> dialect \<Rightarrow> field_filter list \<Rightarrow> nat \<Rightarrow> built res" where
  "buildArrayAnyFilterCondition F D filters ph =
     (case filters of
        [] \<Rightarrow> Err ''array any filter requires at least one condition''
      | first # _ \<Rightarrow>
          (case JSONExtractPath F D RecordJson (ff_array_path first) of
             Inl e \<Rightarrow> Err e
           | Inr _ \<Rightarrow>
               (case array_conditions F D (ff_array_path first) filters ph of
                  Inl e \<Rightarrow> Err e
                | Inr (cs, ps, n) \<Rightarrow> Ok (AnyElement (ff_array_path first) cs, ps, n))))"

definition badgeAwardBadgeTypeExpr :: "fmt_env \<Rightarrow> dialect \<Rightarrow> sql_expr res" where
  "badgeAwardBadgeTypeExpr F D =
     (case json_text_expr F D RecordJson [''badge'', ''uri''] of
        Inl e \<Rightarrow> Err e
      | Inr uri \<Rightarrow> res_map (\<lambda>ty. BadgeTypeOf uri ty) (json_text_expr F D DefinitionJson [''badgeType'']))"

definition buildBadgeAwardBadgeTypeFilterCondition :: "fmt_env \<Rightarrow> dialect \<Rightarrow> field_filter \<Rightarrow> nat \<Rightarrow> built res" where
  "buildBadgeAwardBadgeTypeFilterCondition F D f ph =
     (case badgeAwardBadgeTypeExpr F D of Inl e \<Rightarrow> Err e | Inr expr \<Rightarrow> buildScalarFilterCondition F D expr f ph)"

fun contributor_in_values :: "fmt_env \<Rightarrow> fvalue list \<Rightarrow> string list res" where
  "contributor_in_values F [] = Ok []"
| "contributor_in_values F (v # vs) =
     (case v of
        VStr s \<Rightarrow> res_map (\<lambda>ss. if s \<noteq> [] then s # ss else ss) (contributor_in_values F vs)
      | _ \<Rightarrow> Err (''contributor DID in filter values must be strings, got '' @ fe_t F v))"

definition contributorDIDFilterValues :: "fmt_env \<Rightarrow> field_filter \<Rightarrow> string list res" where
  "contributorDIDFilterValues F f =
     (if ff_operator f = ''eq'' then
        (case ff_value f of
           VStr s \<Rightarrow> Ok (if s = [] then [] else [s])
         | v \<Rightarrow> Err (''contributor DID eq filter must be a string, got '' @ fe_t F v))
      else if ff_operator f = ''in'' then
        (case ff_value f of
           VList vs \<Rightarrow> contributor_in_values F vs
         | v \<Rightarrow> Err (''contributor DID in filter must be a list, got '' @ fe_t F v))
      else Err (''unsupported contributor DID filter operator '' @ go_quote (fe_unicode F) (ff_operator f)))"

definition contributorDIDParams :: "string list \<Rightarrow> nat \<Rightarrow> dbval list" where
  "contributorDIDParams values copies = concat (replicate copies (map DText values))"

text \<open>The five places a contributor's DID may stand: the element itself, \<open>identity\<close>, and under \<open>contributorIdentity\<close> the members
  \<open>identity\<close>, \<open>did\<close> and, by reference, the \<open>identifier\<close> of a contributor information record.\<close>

definition contributor_path :: "dialect \<Rightarrow> string list \<Rightarrow> sql_expr" where
  "contributor_path D path = (if D = PostgreSQL then JsonPath ElementValue path else GuardedPath ElementValue path)"

definition contributor_condition :: "dialect \<Rightarrow> sql_arg list \<Rightarrow> sql_arg list \<Rightarrow> sql_arg list \<Rightarrow> sql_arg list \<Rightarrow> sql_arg list \<Rightarrow> sql_cond" where
  "contributor_condition D bare direct ident did ref =
     AnyElement [''contributors''] [AnyOf
       [InList (if D = PostgreSQL then WholeText ElementValue else WholeValue ElementValue) bare,
        InList (contributor_path D [''identity'']) direct,
        InList (contributor_path D [''contributorIdentity'', ''identity'']) ident,
        InList (contributor_path D [''contributorIdentity'', ''did'']) did,
        ContributorInfoExists
          [SameValue (InfoColumn ''uri'') (contributor_path D [''contributorIdentity'', ''uri'']),
           TextIs (InfoColumn ''collection'') ''org.hypercerts.claim.contributorInformation'',
           InList (JsonPath ContributorInfoJson [''identifier'']) ref]]]"

definition buildContributorDIDFilterCondition :: "fmt_env \<Rightarrow> dialect \<Rightarrow> field_filter \<Rightarrow> nat \<Rightarrow> built res" where
  "buildContributorDIDFilterCondition F D f ph =
     (case contributorDIDFilterValues F f of
        Inl e \<Rightarrow> Err e
      | Inr values \<Rightarrow>
          (let k = length values in
           if k = 0 then Ok (Falsum, [], 0)
           else if k > MaxINListSize then Err (''contributor DID filter exceeds maximum of '' @ show_nat MaxINListSize @ '' values'')
           else if D = PostgreSQL then
             (let p = placeholders k ph in
              Ok (contributor_condition D p p p p (placeholders k (ph + k)), contributorDIDParams values 2, 2 * k))
           else
             Ok (contributor_condition D (placeholders k ph) (placeholders k (ph + k)) (placeholders k (ph + k * 2)) (placeholders k (ph + k * 3))
                   (placeholders k (ph + k * 4)), contributorDIDParams values 5, 5 * k)))"

definition buildFieldFilterCondition :: "fmt_env \<Rightarrow> dialect \<Rightarrow> field_filter \<Rightarrow> nat \<Rightarrow> built res" where
  "buildFieldFilterCondition F D f ph =
     (if ff_target f = ''contributor_did'' then buildContributorDIDFilterCondition F D f ph
      else if ff_target f = ''badge_award_badge_type'' then buildBadgeAwardBadgeTypeFilterCondition F D f ph
      else if (ff_target f = [] \<or> ff_target f = ''json'') \<and> length (ff_array_path f) > 0 then buildArrayAnyFilterCondition F D [f] ph
      else if ff_target f = ''column'' \<and> ff_field f = SortFieldRecordCreatedAt then buildRecordCreatedAtFilterCondition F D f ph
      else (case filterFieldExpr F D f of Inl e \<Rightarrow> Err e | Inr extract \<Rightarrow> buildScalarFilterCondition F D extract f ph))"

fun filter_loop :: "fmt_env \<Rightarrow> dialect \<Rightarrow> string list \<Rightarrow> nat \<Rightarrow> field_filter list \<Rightarrow> (sql_cond list \<times> dbval list) res" where
  "filter_loop F D processed ph [] = Ok ([], [])"
| "filter_loop F D processed ph (f # fs) =
     (if isArrayAnyFilter f \<and> arrayFilterGroupKey f \<in> set processed then filter_loop F D processed ph fs
      else
        (case (if isArrayAnyFilter f
               then buildArrayAnyFilterCondition F D (filter (\<lambda>g. arrayFilterGroupKey g = arrayFilterGroupKey f) (f # fs)) ph
               else buildFieldFilterCondition F D f ph) of
           Inl e \<Rightarrow> Err e
         | Inr (c, ps, n) \<Rightarrow>
             (case filter_loop F D (if isArrayAnyFilter f then arrayFilterGroupKey f # processed else processed) (ph + n) fs of
                Inl e \<Rightarrow> Err e
              | Inr (cs, qs) \<Rightarrow> Ok (c # cs, ps @ qs))))"

definition buildFilterClause :: "fmt_env \<Rightarrow> dialect \<Rightarrow> field_filter list \<Rightarrow> nat \<Rightarrow> (sql_cond list \<times> dbval list) res" where
  "buildFilterClause F D filters start = (if length filters = 0 then Ok ([], []) else filter_loop F D [] start filters)"

section \<open>DID and label conditions\<close>

text \<open>No condition is the empty clause.\<close>

definition buildDIDFilterClause :: "did_filter \<Rightarrow> nat \<Rightarrow> (sql_cond list \<times> dbval list \<times> nat) res" where
  "buildDIDFilterClause f start =
     (if DIDFilter_IsEmpty f then Ok ([], [], 0)
      else if df_eq f \<noteq> [] then Ok ([Compare ''='' (Column ''did'') (Param start)], [DText (df_eq f)], 1)
      else if length (df_in f) = 0 then Ok ([], [], 0)
      else if length (df_in f) > MaxINListSize then Err (''DID filter IN list exceeds maximum of '' @ show_nat MaxINListSize @ '' values'')
      else Ok ([InList (Column ''did'') (placeholders (length (df_in f)) start)], map DText (df_in f), length (df_in f)))"

definition externalLabelStringFilterValue :: "fmt_env \<Rightarrow> fvalue \<Rightarrow> string res" where
  "externalLabelStringFilterValue F v =
     (case v of VStr s \<Rightarrow> Ok s | _ \<Rightarrow> Err (''external label string filter value must be a string, got '' @ fe_t F v))"

fun label_list_values :: "fmt_env \<Rightarrow> fvalue list \<Rightarrow> string list res" where
  "label_list_values F [] = Ok []"
| "label_list_values F (v # vs) =
     (case v of
        VStr s \<Rightarrow> res_map (\<lambda>ss. s # ss) (label_list_values F vs)
      | _ \<Rightarrow> Err (''external label IN filter value must contain strings, got '' @ fe_t F v))"

definition externalLabelStringFilterList :: "fmt_env \<Rightarrow> fvalue \<Rightarrow> string list res" where
  "externalLabelStringFilterList F v =
     (case v of
        VList vs \<Rightarrow> label_list_values F vs
      | VStrings ss \<Rightarrow> Ok ss
      | _ \<Rightarrow> Err (''external label IN filter value must be a string list, got '' @ fe_t F v))"

definition label_string_condition :: "fmt_env \<Rightarrow> dialect \<Rightarrow> string \<Rightarrow> label_string_filter \<Rightarrow> nat \<Rightarrow> built res" where
  "label_string_condition F D column f ph =
     (let op = ls_operator f; text = externalLabelStringFilterValue F (ls_value f) in
      if op = ''eq'' then res_map (\<lambda>s. (Compare ''='' (LabelColumn column) (Param ph), [DText s], 1)) text
      else if op = ''neq'' then res_map (\<lambda>s. (Compare ''!='' (LabelColumn column) (Param ph), [DText s], 1)) text
      else if op = ''in'' then
        (case externalLabelStringFilterList F (ls_value f) of
           Inl e \<Rightarrow> Err e
         | Inr ss \<Rightarrow>
             if length ss = 0 then Ok (Falsum, [], 0)
             else if length ss > MaxINListSize then Err (''external label filter IN list exceeds maximum of '' @ show_nat MaxINListSize @ '' values'')
             else Ok (InList (LabelColumn column) (placeholders (length ss) ph), map DText ss, length ss))
      else if op = ''contains'' then
        res_map (\<lambda>s. (LikeCond (likeOp_ilike D) (LabelColumn column) (Param ph), [DText (''%'' @ escapeLIKE s @ ''%'')], 1)) text
      else if op = ''startsWith'' then
        res_map (\<lambda>s. (LikeCond (likeOp_ilike D) (LabelColumn column) (Param ph), [DText (escapeLIKE s @ ''%'')], 1)) text
      else if op = ''isNull'' then Ok (NullTest (ls_value f = VBool True) (LabelColumn column), [], 0)
      else Err (''unsupported external label filter operator '' @ go_quote (fe_unicode F) op))"

fun buildExternalLabelStringFilterConditions ::
  "fmt_env \<Rightarrow> dialect \<Rightarrow> string \<Rightarrow> label_string_filter list \<Rightarrow> nat \<Rightarrow> (sql_cond list \<times> dbval list \<times> nat) res" where
  "buildExternalLabelStringFilterConditions F D column [] ph = Ok ([], [], 0)"
| "buildExternalLabelStringFilterConditions F D column (f # fs) ph =
     (case label_string_condition F D column f ph of
        Inl e \<Rightarrow> Err e
      | Inr (c, ps, n) \<Rightarrow>
          (case buildExternalLabelStringFilterConditions F D column fs (ph + n) of
             Inl e \<Rightarrow> Err e
           | Inr (cs, qs, m) \<Rightarrow> Ok (c # cs, ps @ qs, n + m)))"

definition externalLabelSubjectConditions :: "label_subject \<Rightarrow> sql_cond list" where
  "externalLabelSubjectConditions subject =
     (case subject of
        SubjectRecord \<Rightarrow> [LabelSubject SubjectRecord, AnyOf [LabelNoCID, LabelCIDMatches]]
      | SubjectAuthor \<Rightarrow> [LabelSubject SubjectAuthor, LabelNoCID])"

definition buildExternalLabelExistsSubquery ::
  "fmt_env \<Rightarrow> dialect \<Rightarrow> label_subject \<Rightarrow> label_predicate \<Rightarrow> nat \<Rightarrow> (sql_cond list \<times> dbval list \<times> nat) res" where
  "buildExternalLabelExistsSubquery F D subject p start =
     (case buildExternalLabelStringFilterConditions F D ''src'' (lp_sources p) start of
        Inl e \<Rightarrow> Err e
      | Inr (cs, ps, n) \<Rightarrow>
          (case buildExternalLabelStringFilterConditions F D ''val'' (lp_values p) (start + n) of
             Inl e \<Rightarrow> Err e
           | Inr (ds, qs, m) \<Rightarrow>
               Ok (externalLabelSubjectConditions subject @ cs @ ds @ (if lp_active_only p then [LabelActive] else []), ps @ qs, n + m)))"

definition label_test ::
  "fmt_env \<Rightarrow> dialect \<Rightarrow> label_subject \<Rightarrow> bool \<Rightarrow> label_predicate option \<Rightarrow> nat \<Rightarrow> (sql_cond list \<times> dbval list \<times> nat) res" where
  "label_test F D subject positive po start =
     (case po of
        None \<Rightarrow> Ok ([], [], 0)
      | Some p \<Rightarrow> res_map (\<lambda>(cs, ps, n). ([LabelExists positive cs], ps, n)) (buildExternalLabelExistsSubquery F D subject p start))"

definition join_built ::
  "(sql_cond list \<times> dbval list \<times> nat) res \<Rightarrow> (nat \<Rightarrow> (sql_cond list \<times> dbval list \<times> nat) res) \<Rightarrow> (sql_cond list \<times> dbval list \<times> nat) res" where
  "join_built a b =
     (case a of
        Inl e \<Rightarrow> Err e
      | Inr (cs, ps, n) \<Rightarrow> (case b n of Inl e \<Rightarrow> Err e | Inr (ds, qs, m) \<Rightarrow> Ok (cs @ ds, ps @ qs, n + m)))"

definition buildExternalLabelSubjectFilterClause ::
  "fmt_env \<Rightarrow> dialect \<Rightarrow> label_subject \<Rightarrow> label_record_filter \<Rightarrow> nat \<Rightarrow> (sql_cond list \<times> dbval list \<times> nat) res" where
  "buildExternalLabelSubjectFilterClause F D subject f start =
     (if LabelFilter_IsEmpty f then Ok ([], [], 0)
      else join_built (label_test F D subject True (lf_has f) start) (\<lambda>n. label_test F D subject False (lf_none f) (start + n)))"

definition buildExternalLabelFilterSetClause :: "fmt_env \<Rightarrow> dialect \<Rightarrow> label_filter_set \<Rightarrow> nat \<Rightarrow> (sql_cond list \<times> dbval list) res" where
  "buildExternalLabelFilterSetClause F D f start =
     (if LabelFilterSet_IsEmpty f then Ok ([], [])
      else res_map (\<lambda>(cs, ps, _). (cs, ps))
        (join_built (buildExternalLabelSubjectFilterClause F D SubjectRecord (lfs_record f) start)
           (\<lambda>n. buildExternalLabelSubjectFilterClause F D SubjectAuthor (lfs_author f) (start + n))))"

section \<open>What conditions mean\<close>

record ('c, 'v) engine =
  en_expr :: "sql_expr \<Rightarrow> 'c \<Rightarrow> 'v option"
  en_elements :: "string list \<Rightarrow> 'c \<Rightarrow> 'c list"
  en_infos :: "'c \<Rightarrow> 'c list"
  en_labels :: "'c \<Rightarrow> 'c list"
  en_label_no_cid :: "'c \<Rightarrow> bool"
  en_label_cid :: "'c \<Rightarrow> bool"
  en_label_subject :: "label_subject \<Rightarrow> 'c \<Rightarrow> bool"
  en_label_active :: "'c \<Rightarrow> bool"
  en_value :: "dbval \<Rightarrow> 'v option"
  en_time :: "dbval \<Rightarrow> 'v option"
  en_strftime :: "dbval \<Rightarrow> 'v option"
  en_cmp :: "string \<Rightarrow> 'v \<Rightarrow> 'v \<Rightarrow> bool"
  en_like :: "bool \<Rightarrow> 'v \<Rightarrow> 'v \<Rightarrow> bool"

definition both :: "('v \<Rightarrow> 'v \<Rightarrow> bool) \<Rightarrow> 'v option \<Rightarrow> 'v option \<Rightarrow> bool" where
  "both R x y = (case x of None \<Rightarrow> False | Some a \<Rightarrow> (case y of None \<Rightarrow> False | Some b \<Rightarrow> R a b))"

definition arg_value :: "('c, 'v) engine \<Rightarrow> dbval list \<Rightarrow> sql_arg \<Rightarrow> 'v option" where
  "arg_value E args a = (case a of Param n \<Rightarrow> en_value E (args ! (n - 1)) | TimeParam n \<Rightarrow> en_time E (args ! (n - 1))
     | StrftimeParam n \<Rightarrow> en_strftime E (args ! (n - 1)))"

text \<open>\<open>(a, b) < (x, y)\<close>: decided by the first component unless it is equal.\<close>

fun holds :: "('c, 'v) engine \<Rightarrow> dbval list \<Rightarrow> 'c \<Rightarrow> sql_cond \<Rightarrow> bool" where
  "holds E args c (Compare op e a) = both (en_cmp E op) (en_expr E e c) (arg_value E args a)"
| "holds E args c (LikeCond i e a) = both (en_like E i) (en_expr E e c) (arg_value E args a)"
| "holds E args c (NullTest b e) = ((en_expr E e c = None) = b)"
| "holds E args c (InList e as) = list_ex (\<lambda>a. both (en_cmp E ''='') (en_expr E e c) (arg_value E args a)) as"
| "holds E args c Falsum = False"
| "holds E args c (SameValue e e') = both (en_cmp E ''='') (en_expr E e c) (en_expr E e' c)"
| "holds E args c (TextIs e s) = both (en_cmp E ''='') (en_expr E e c) (en_value E (DText s))"
| "holds E args c (AnyOf cs) = list_ex (holds E args c) cs"
| "holds E args c (AnyElement path cs) = list_ex (\<lambda>el. list_all (holds E args el) cs) (en_elements E path c)"
| "holds E args c (ContributorInfoExists cs) = list_ex (\<lambda>el. list_all (holds E args el) cs) (en_infos E c)"
| "holds E args c (LabelExists b cs) = (list_ex (\<lambda>el. list_all (holds E args el) cs) (en_labels E c) = b)"
| "holds E args c LabelNoCID = en_label_no_cid E c"
| "holds E args c LabelCIDMatches = en_label_cid E c"
| "holds E args c (LabelSubject s) = en_label_subject E s c"
| "holds E args c LabelActive = en_label_active E c"
| "holds E args c (RowCompare op e1 e2 a1 a2) =
     (both (en_cmp E op) (en_expr E e1 c) (arg_value E args a1)
      \<or> both (en_cmp E ''='') (en_expr E e1 c) (arg_value E args a1) \<and> both (en_cmp E op) (en_expr E e2 c) (arg_value E args a2))"
| "holds E args c (AllOf cs) = list_all (holds E args c) cs"

text \<open>The placeholders of a condition, in the order of the text.\<close>

fun arg_place :: "sql_arg \<Rightarrow> nat" where
  "arg_place (Param n) = n"
| "arg_place (TimeParam n) = n"
| "arg_place (StrftimeParam n) = n"

fun places :: "sql_cond \<Rightarrow> nat list" where
  "places (Compare op e a) = [arg_place a]"
| "places (LikeCond i e a) = [arg_place a]"
| "places (InList e as) = map arg_place as"
| "places (AnyOf cs) = concat (map places cs)"
| "places (AllOf cs) = concat (map places cs)"
| "places (AnyElement path cs) = concat (map places cs)"
| "places (ContributorInfoExists cs) = concat (map places cs)"
| "places (LabelExists b cs) = concat (map places cs)"
| "places (RowCompare op e1 e2 a1 a2) = [arg_place a1, arg_place a2]"
| "places _ = []"

section \<open>What filters mean\<close>

definition value_in :: "('c, 'v) engine \<Rightarrow> 'v option \<Rightarrow> dbval list \<Rightarrow> bool" where
  "value_in E x vs = list_ex (\<lambda>v. both (en_cmp E ''='') x (en_value E v)) vs"

definition scalar_means :: "fmt_env \<Rightarrow> dialect \<Rightarrow> ('c, 'v) engine \<Rightarrow> sql_expr \<Rightarrow> field_filter \<Rightarrow> 'c \<Rightarrow> bool" where
  "scalar_means F D E extract f c =
     (let x = en_expr E (numeric_extract f extract) c; op = ff_operator f in
      case map_of compare_ops op of
        Some sqlOp \<Rightarrow> both (en_cmp E sqlOp) x (en_value E (toDBValue F (ff_value f)))
      | None \<Rightarrow>
          if op = ''contains'' then both (en_like E (D = PostgreSQL)) x (en_value E (DText (''%'' @ escapeLIKE (fe_v F (ff_value f)) @ ''%'')))
          else if op = ''startsWith'' then both (en_like E (D = PostgreSQL)) x (en_value E (DText (escapeLIKE (fe_v F (ff_value f)) @ ''%'')))
          else if op = ''isNull'' then (x = None) = (ff_value f = VBool True)
          else (case ff_value f of VList vs \<Rightarrow> value_in E x (map (toDBValue F) vs) | _ \<Rightarrow> False))"

definition elem_means :: "fmt_env \<Rightarrow> dialect \<Rightarrow> ('c, 'v) engine \<Rightarrow> field_filter \<Rightarrow> 'c \<Rightarrow> bool" where
  "elem_means F D E g el = (case json_text_expr F D ElementValue (ff_path g) of Inr e \<Rightarrow> scalar_means F D E e g el | Inl _ \<Rightarrow> False)"

text \<open>Filters on the same array are about one and the same element.\<close>

definition group_means :: "fmt_env \<Rightarrow> dialect \<Rightarrow> ('c, 'v) engine \<Rightarrow> field_filter list \<Rightarrow> field_filter \<Rightarrow> 'c \<Rightarrow> bool" where
  "group_means F D E filters f c =
     list_ex (\<lambda>el. list_all (\<lambda>g. elem_means F D E g el) (filter (\<lambda>g. isArrayAnyFilter g \<and> ff_array_path g = ff_array_path f) filters))
       (en_elements E (ff_array_path f) c)"

definition contributor_means :: "dialect \<Rightarrow> ('c, 'v) engine \<Rightarrow> string list \<Rightarrow> 'c \<Rightarrow> bool" where
  "contributor_means D E values c =
     list_ex (\<lambda>el.
         value_in E (en_expr E (if D = PostgreSQL then WholeText ElementValue else WholeValue ElementValue) el) (map DText values)
       \<or> value_in E (en_expr E (contributor_path D [''identity'']) el) (map DText values)
       \<or> value_in E (en_expr E (contributor_path D [''contributorIdentity'', ''identity'']) el) (map DText values)
       \<or> value_in E (en_expr E (contributor_path D [''contributorIdentity'', ''did'']) el) (map DText values)
       \<or> list_ex (\<lambda>info.
            both (en_cmp E ''='') (en_expr E (InfoColumn ''uri'') info) (en_expr E (contributor_path D [''contributorIdentity'', ''uri'']) info)
          \<and> both (en_cmp E ''='') (en_expr E (InfoColumn ''collection'') info) (en_value E (DText ''org.hypercerts.claim.contributorInformation''))
          \<and> value_in E (en_expr E (JsonPath ContributorInfoJson [''identifier'']) info) (map DText values)) (en_infos E el))
       (en_elements E [''contributors''] c)"

definition time_value :: "dialect \<Rightarrow> ('c, 'v) engine \<Rightarrow> string \<Rightarrow> 'v option" where
  "time_value D E s = (if D = PostgreSQL then en_time E (DText s) else en_value E (DText s))"

definition created_at_means :: "fmt_env \<Rightarrow> dialect \<Rightarrow> ('c, 'v) engine \<Rightarrow> field_filter \<Rightarrow> 'c \<Rightarrow> bool" where
  "created_at_means F D E f c =
     (let x = en_expr E (Column SortFieldRecordCreatedAt) c in
      case map_of compare_ops (ff_operator f) of
        Some sqlOp \<Rightarrow> (case ff_value f of VStr s \<Rightarrow> both (en_cmp E sqlOp) x (time_value D E s) | _ \<Rightarrow> False)
      | None \<Rightarrow> (case ff_value f of
                   VList vs \<Rightarrow> list_ex (\<lambda>v. case v of VStr s \<Rightarrow> both (en_cmp E ''='') x (time_value D E s) | _ \<Rightarrow> False) vs
                 | _ \<Rightarrow> False))"

definition field_means :: "fmt_env \<Rightarrow> dialect \<Rightarrow> ('c, 'v) engine \<Rightarrow> field_filter \<Rightarrow> 'c \<Rightarrow> bool" where
  "field_means F D E f c =
     (if ff_target f = ''contributor_did'' then
        (case contributorDIDFilterValues F f of Inr values \<Rightarrow> contributor_means D E values c | Inl _ \<Rightarrow> False)
      else if ff_target f = ''badge_award_badge_type'' then
        (case badgeAwardBadgeTypeExpr F D of Inr e \<Rightarrow> scalar_means F D E e f c | Inl _ \<Rightarrow> False)
      else if ff_target f = ''column'' \<and> ff_field f = SortFieldRecordCreatedAt then created_at_means F D E f c
      else (case filterFieldExpr F D f of Inr e \<Rightarrow> scalar_means F D E e f c | Inl _ \<Rightarrow> False))"

definition filters_mean :: "fmt_env \<Rightarrow> dialect \<Rightarrow> ('c, 'v) engine \<Rightarrow> field_filter list \<Rightarrow> 'c \<Rightarrow> bool" where
  "filters_mean F D E filters c =
     list_all (\<lambda>f. if isArrayAnyFilter f then group_means F D E filters f c else field_means F D E f c) filters"

section \<open>Placeholders line up with arguments\<close>

definition conds_mean :: "dialect \<Rightarrow> ('c, 'v) engine \<Rightarrow> nat \<Rightarrow> sql_cond list \<Rightarrow> dbval list \<Rightarrow> nat \<Rightarrow> ('c \<Rightarrow> bool) \<Rightarrow> bool" where
  "conds_mean D E ph cs ps n P =
     (n = length ps
      \<and> (\<forall>pre post c. length pre + 1 = ph \<longrightarrow> list_all (holds E (pre @ ps @ post) c) cs = P c)
      \<and> (D = SQLite \<longrightarrow> concat (map places cs) = [ph..<ph + n])
      \<and> set (concat (map places cs)) \<subseteq> {ph..<ph + n})"

lemma conds_meanI:
  assumes "n = length ps" "\<And>pre post c. length pre + 1 = ph \<Longrightarrow> list_all (holds E (pre @ ps @ post) c) cs = P c"
    "concat (map places cs) = [ph..<ph + n]"
  shows "conds_mean D E ph cs ps n P"
  using assms by (simp add: conds_mean_def)

lemma conds_mean_holds: "conds_mean D E ph cs ps n P \<Longrightarrow> length pre + 1 = ph \<Longrightarrow> list_all (holds E (pre @ ps @ post) c) cs = P c"
  by (simp add: conds_mean_def)

lemma conds_mean_cong: "conds_mean D E ph cs ps n P \<Longrightarrow> (\<And>c. P c = Q c) \<Longrightarrow> conds_mean D E ph cs ps n Q"
  unfolding conds_mean_def by (elim conjE, intro conjI; simp)

lemma conds_mean_Nil: "conds_mean D E ph [] [] 0 (\<lambda>c. True)"
  by (simp add: conds_mean_def)

lemma upt_join: "lo \<le> mid \<Longrightarrow> mid \<le> hi \<Longrightarrow> [lo..<mid] @ [mid..<hi] = [lo..<hi]"
  by (metis le_Suc_ex upt_add_eq_append)

lemma conds_mean_append:
  assumes "conds_mean D E ph cs ps n P" "conds_mean D E (ph + n) ds qs m Q" "1 \<le> ph"
  shows "conds_mean D E ph (cs @ ds) (ps @ qs) (n + m) (\<lambda>c. P c \<and> Q c)"
proof -
  have n: "n = length ps" "m = length qs" using assms by (simp_all add: conds_mean_def)
  have "list_all (holds E (pre @ (ps @ qs) @ post) c) (cs @ ds) = (P c \<and> Q c)" if "length pre + 1 = ph" for pre post c
    using conds_mean_holds [OF assms(1) that, of "qs @ post" c] conds_mean_holds [OF assms(2), of "pre @ ps" post c] that n by simp
  moreover have "D = SQLite \<Longrightarrow> concat (map places (cs @ ds)) = [ph..<ph + (n + m)]"
    using assms(1,2) by (simp add: conds_mean_def upt_add_eq_append [symmetric] add.assoc) (metis add.assoc le_add1 upt_add_eq_append)
  moreover have "set (concat (map places (cs @ ds))) \<subseteq> {ph..<ph + (n + m)}" using assms(1,2) by (fastforce simp: conds_mean_def)
  ultimately show ?thesis using n by (simp add: conds_mean_def)
qed

lemma conds_mean_exists:
  assumes "conds_mean D E ph cs ps n P" "\<And>args c. holds E args c q = list_ex (\<lambda>el. list_all (holds E args el) cs) (els c)"
    "places q = concat (map places cs)"
  shows "conds_mean D E ph [q] ps n (\<lambda>c. list_ex P (els c))"
proof -
  have "list_all (holds E (pre @ ps @ post) c) [q] = list_ex P (els c)" if "length pre + 1 = ph" for pre post c
    using conds_mean_holds [OF assms(1) that] assms(2) by (simp add: list_ex_iff)
  then show ?thesis using assms(1,3) unfolding conds_mean_def by (elim conjE, intro conjI; simp)
qed

lemma arg_at: "length pre + 1 = ph \<Longrightarrow> i < length ps \<Longrightarrow> (pre @ ps @ post) ! (ph + i - 1) = ps ! i"
proof -
  assume "length pre + 1 = ph" "i < length ps"
  then have "ph + i - 1 = length pre + i" by simp
  then show ?thesis using \<open>i < length ps\<close> by (simp add: nth_append)
qed

lemma arg_first: "length pre + 1 = ph \<Longrightarrow> (pre @ v # post) ! (ph - 1) = v" "length pre + 1 = ph \<Longrightarrow> (pre @ v # post) ! (ph - Suc 0) = v"
  by (auto simp: nth_append)

lemma placeholders_value:
  assumes "length pre + 1 = ph"
  shows "list_ex (\<lambda>a. both R x (arg_value E (pre @ ps @ post) a)) (placeholders (length ps) ph) = list_ex (\<lambda>v. both R x (en_value E v)) ps"
proof -
  have "[ph..<ph + length ps] = map (\<lambda>i. ph + i) [0..<length ps]" by (simp add: map_add_upt add.commute)
  then have "map (arg_value E (pre @ ps @ post)) (placeholders (length ps) ph) = map (\<lambda>i. en_value E (ps ! i)) [0..<length ps]"
    using arg_at [OF assms] by (simp add: placeholders_def arg_value_def comp_def)
  also have "\<dots> = map (en_value E) ps" by (metis map_map map_nth comp_def map_cong)
  finally have m: "map (arg_value E (pre @ ps @ post)) (placeholders (length ps) ph) = map (en_value E) ps" .
  have "list_ex (\<lambda>a. both R x (arg_value E (pre @ ps @ post) a)) (placeholders (length ps) ph)
      = list_ex (both R x) (map (arg_value E (pre @ ps @ post)) (placeholders (length ps) ph))" by (simp add: list_ex_iff)
  then show ?thesis unfolding m by (simp add: list_ex_iff)
qed

lemma places_placeholders: "map arg_place (placeholders k ph) = [ph..<ph + k]"
  by (simp add: placeholders_def comp_def)

lemma compare_ops_in: "map_of compare_ops ''contains'' = None" "map_of compare_ops ''startsWith'' = None" "map_of compare_ops ''isNull'' = None" "map_of compare_ops ''in'' = None"
  by (simp_all add: compare_ops_def)

lemma scalar_conds_mean:
  assumes "buildScalarFilterCondition F D e f ph = Ok (c, ps, n)"
  shows "conds_mean D E ph [c] ps n (scalar_means F D E e f)"
proof (cases "map_of compare_ops (ff_operator f)")
  case (Some op)
  then have "c = Compare op (numeric_extract f e) (Param ph)" "ps = [toDBValue F (ff_value f)]" "n = 1"
    using assms by (simp_all add: buildScalarFilterCondition_def Let_def)
  then show ?thesis using Some by (intro conds_meanI) (simp_all add: scalar_means_def Let_def arg_value_def arg_first)
next
  case None
  note b = assms [unfolded buildScalarFilterCondition_def Let_def None option.case]
  consider "ff_operator f = ''contains''" | "ff_operator f = ''startsWith''" | "ff_operator f = ''isNull''" | "ff_operator f = ''in''"
    using b by (auto split: if_splits)
  then show ?thesis
  proof cases
    case 1
    then show ?thesis using b by (intro conds_meanI) (auto simp: scalar_means_def Let_def arg_value_def arg_first None [unfolded 1] likeOp_ilike_def)
  next
    case 2
    then show ?thesis using b by (intro conds_meanI) (auto simp: scalar_means_def Let_def arg_value_def arg_first None [unfolded 2] likeOp_ilike_def)
  next
    case 3
    then show ?thesis using b by (intro conds_meanI) (auto simp: scalar_means_def Let_def None [unfolded 3] split: fvalue.splits)
  next
    case 4
    obtain vs where vs: "ff_value f = VList vs" using b 4 by (auto split: fvalue.splits)
    show ?thesis
    proof (cases "vs = []")
      case True
      then show ?thesis using b 4 vs by (intro conds_meanI) (auto simp: scalar_means_def Let_def None [unfolded 4] value_in_def)
    next
      case False
      then have c: "c = InList (numeric_extract f e) (placeholders (length vs) ph)" "ps = map (toDBValue F) vs" "n = length vs"
        using b 4 vs by (auto split: if_splits)
      show ?thesis unfolding c
        using placeholders_value [where ps = "map (toDBValue F) vs"]
        by (intro conds_meanI) (simp_all add: scalar_means_def Let_def None [unfolded 4] 4 vs value_in_def places_placeholders)
    qed
  qed
qed

lemma array_conds_mean:
  assumes "array_conditions F D path fs ph = Ok (cs, ps, n)" "1 \<le> ph"
  shows "conds_mean D E ph cs ps n (\<lambda>el. list_all (\<lambda>g. elem_means F D E g el) fs) \<and> list_all (\<lambda>g. isArrayAnyFilter g \<and> ff_array_path g = path) fs"
  using assms
proof (induction fs arbitrary: ph cs ps n)
  case Nil
  then show ?case by (simp add: conds_mean_Nil)
next
  case (Cons f fs)
  obtain e c qs k ds rs m where f: "isArrayAnyFilter f" "ff_array_path f = path" "json_text_expr F D ElementValue (ff_path f) = Ok e"
      "buildScalarFilterCondition F D e f ph = Ok (c, qs, k)" "array_conditions F D path fs (ph + k) = Ok (ds, rs, m)"
    and r: "cs = c # ds" "ps = qs @ rs" "n = k + m"
    using Cons.prems(1) by (auto split: if_splits sum.splits prod.splits)
  have "conds_mean D E ph ([c] @ ds) (qs @ rs) (k + m) (\<lambda>el. scalar_means F D E e f el \<and> list_all (\<lambda>g. elem_means F D E g el) fs)"
    using conds_mean_append [OF scalar_conds_mean [OF f(4)] conjunct1 [OF Cons.IH [OF f(5)]]] Cons.prems(2) by simp
  then show ?case using Cons.IH [OF f(5)] Cons.prems(2) f r by (simp add: elem_means_def)
qed

lemma array_any_conds_mean:
  assumes "buildArrayAnyFilterCondition F D fs ph = Ok (c, ps, n)" "1 \<le> ph"
  obtains f where "f \<in> set fs" "hd fs = f" "list_all (\<lambda>g. isArrayAnyFilter g \<and> ff_array_path g = ff_array_path f) fs"
    "conds_mean D E ph [c] ps n (\<lambda>c. list_ex (\<lambda>el. list_all (\<lambda>g. elem_means F D E g el) fs) (en_elements E (ff_array_path f) c))"
proof -
  obtain f fs' cs where fs: "fs = f # fs'" "array_conditions F D (ff_array_path f) fs ph = Ok (cs, ps, n)" "c = AnyElement (ff_array_path f) cs"
    using assms(1) by (auto simp: buildArrayAnyFilterCondition_def simp del: array_conditions.simps split: list.splits sum.splits prod.splits)
  note A = array_conds_mean [OF fs(2) assms(2), of E]
  have "conds_mean D E ph [c] ps n (\<lambda>c. list_ex (\<lambda>el. list_all (\<lambda>g. elem_means F D E g el) fs) (en_elements E (ff_array_path f) c))"
    using conds_mean_exists [OF conjunct1 [OF A], where q = c and els = "en_elements E (ff_array_path f)"] fs(3) by simp
  then show thesis using that [of f] fs(1) conjunct2 [OF A] by simp
qed

lemma created_at_values_Ok: "created_at_values F vs = Ok ss \<Longrightarrow> vs = map VStr ss"
  by (induction vs arbitrary: ss) (auto simp: res_map_def split: fvalue.splits sum.splits)

lemma arg_place_created [simp]: "arg_place (recordCreatedAtCursorValueExpr D n) = n"
  by (simp add: recordCreatedAtCursorValueExpr_def)

lemma created_at_arg: "arg_value E (pre @ v # post) (recordCreatedAtCursorValueExpr D ph) = (if D = PostgreSQL then en_time E v else en_value E v)"
  if "length pre + 1 = ph"
  using that by (simp add: arg_value_def recordCreatedAtCursorValueExpr_def arg_first)

lemma created_at_args:
  assumes "length pre + 1 = ph"
  shows "list_ex (\<lambda>a. both R x (arg_value E (pre @ map DText ss @ post) a)) (map (\<lambda>i. recordCreatedAtCursorValueExpr D (ph + i)) [0..<length ss])
    = list_ex (\<lambda>s. both R x (time_value D E s)) ss"
proof -
  have "map (arg_value E (pre @ map DText ss @ post)) (map (\<lambda>i. recordCreatedAtCursorValueExpr D (ph + i)) [0..<length ss])
      = map (\<lambda>i. time_value D E (ss ! i)) [0..<length ss]"
    using arg_at [OF assms, of _ "map DText ss" post] by (simp add: arg_value_def recordCreatedAtCursorValueExpr_def time_value_def)
  also have "\<dots> = map (time_value D E) ss" by (metis map_map map_nth comp_def map_cong)
  finally have m: "map (arg_value E (pre @ map DText ss @ post)) (map (\<lambda>i. recordCreatedAtCursorValueExpr D (ph + i)) [0..<length ss]) = map (time_value D E) ss" .
  have "list_ex (\<lambda>a. both R x (arg_value E (pre @ map DText ss @ post) a)) (map (\<lambda>i. recordCreatedAtCursorValueExpr D (ph + i)) [0..<length ss])
      = list_ex (both R x) (map (arg_value E (pre @ map DText ss @ post)) (map (\<lambda>i. recordCreatedAtCursorValueExpr D (ph + i)) [0..<length ss]))"
    by (simp add: list_ex_iff)
  then show ?thesis unfolding m by (simp add: list_ex_iff)
qed

lemma created_at_conds_mean:
  assumes "buildRecordCreatedAtFilterCondition F D f ph = Ok (c, ps, n)"
  shows "conds_mean D E ph [c] ps n (created_at_means F D E f)"
proof (cases "map_of compare_ops (ff_operator f)")
  case (Some op)
  then obtain s where s: "ff_value f = VStr s" "c = Compare op (Column SortFieldRecordCreatedAt) (recordCreatedAtCursorValueExpr D ph)" "ps = [DText s]" "n = 1"
    using assms by (auto simp: buildRecordCreatedAtFilterCondition_def split: fvalue.splits)
  show ?thesis unfolding s(2-4)
    by (intro conds_meanI) (simp_all add: created_at_means_def Some s(1) Let_def created_at_arg time_value_def)
next
  case None
  note b = assms [unfolded buildRecordCreatedAtFilterCondition_def None option.case]
  obtain vs where vs: "ff_operator f = ''in''" "ff_value f = VList vs" using b by (auto split: if_splits fvalue.splits)
  show ?thesis
  proof (cases "vs = []")
    case True
    then show ?thesis using b vs by (intro conds_meanI) (auto simp: created_at_means_def None [unfolded vs(1)] Let_def)
  next
    case False
    then obtain ss where ss: "created_at_values F vs = Ok ss"
        "c = InList (Column SortFieldRecordCreatedAt) (map (\<lambda>i. recordCreatedAtCursorValueExpr D (ph + i)) [0..<length vs])" "ps = map DText ss" "n = length ss"
      using b vs by (auto split: if_splits sum.splits)
    have v: "vs = map VStr ss" by (rule created_at_values_Ok [OF ss(1)])
    have p: "map arg_place (map (\<lambda>i. recordCreatedAtCursorValueExpr D (ph + i)) [0..<length ss]) = [ph..<ph + length ss]"
      by (simp add: comp_def map_add_upt add.commute)
    show ?thesis unfolding ss(2-4) using created_at_args p
      by (intro conds_meanI) (simp_all add: created_at_means_def None [unfolded vs(1)] vs v Let_def list_ex_iff)
  qed
qed

lemma contributor_params_at:
  "contributorDIDParams values 2 = map DText values @ map DText values"
  "contributorDIDParams values 5 = map DText values @ map DText values @ map DText values @ map DText values @ map DText values"
  by (simp_all add: contributorDIDParams_def numeral_eq_Suc)

lemma placeholders_value_in:
  assumes "args = pre @ map DText values @ post" "length pre + 1 = ph" "k = length values"
  shows "holds E args c (InList e (placeholders k ph)) = value_in E (en_expr E e c) (map DText values)"
  using placeholders_value [OF assms(2), of "en_cmp E ''=''" "en_expr E e c" E "map DText values" post] assms(1,3) by (simp add: value_in_def)

lemma contributor_conds_mean:
  assumes "buildContributorDIDFilterCondition F D f ph = Ok (c, ps, n)" "1 \<le> ph" "contributorDIDFilterValues F f = Ok values"
  shows "conds_mean D E ph [c] ps n (contributor_means D E values)"
proof (cases "values = []")
  case True
  then have "c = Falsum" "ps = []" "n = 0" using assms by (simp_all add: buildContributorDIDFilterCondition_def Let_def)
  then show ?thesis using True by (simp add: conds_mean_def contributor_means_def value_in_def list_ex_iff)
next
  case False
  note b = assms(1) [unfolded buildContributorDIDFilterCondition_def assms(3) sum.case Let_def]
  let ?k = "length values" and ?v = "map DText values"
  show ?thesis
  proof (cases D)
    case PostgreSQL
    have c: "c = contributor_condition D (placeholders ?k ph) (placeholders ?k ph) (placeholders ?k ph) (placeholders ?k ph) (placeholders ?k (ph + ?k))"
      "ps = ?v @ ?v" "n = 2 * ?k" using b False PostgreSQL by (auto simp: contributor_params_at split: if_splits)
    have "holds E (pre @ ps @ post) x c = contributor_means D E values x" if "length pre + 1 = ph" for pre post x
    proof -
      have 1: "holds E (pre @ ps @ post) y (InList e (placeholders ?k ph)) = value_in E (en_expr E e y) ?v" for y e
        by (rule placeholders_value_in [where pre = pre and post = "?v @ post"]) (use c that in simp_all)
      have 2: "holds E (pre @ ps @ post) y (InList e (placeholders ?k (ph + ?k))) = value_in E (en_expr E e y) ?v" for y e
        by (rule placeholders_value_in [where pre = "pre @ ?v" and post = post]) (use c that in simp_all)
      show ?thesis unfolding c(1) contributor_condition_def contributor_means_def holds.simps(8-10) list_ex_Cons_iff list_ex_Nil_iff list.pred_inject 1 2 by simp
    qed
    moreover have "set (places c) \<subseteq> {ph..<ph + n}" unfolding c(1,3) by (auto simp: contributor_condition_def places_placeholders)
    ultimately show ?thesis using PostgreSQL c(2,3) by (simp add: conds_mean_def)
  next
    case SQLite
    have c: "c = contributor_condition D (placeholders ?k ph) (placeholders ?k (ph + ?k)) (placeholders ?k (ph + ?k * 2)) (placeholders ?k (ph + ?k * 3)) (placeholders ?k (ph + ?k * 4))"
      "ps = ?v @ ?v @ ?v @ ?v @ ?v" "n = 5 * ?k" using b False SQLite by (auto simp: contributor_params_at split: if_splits)
    have "holds E (pre @ ps @ post) x c = contributor_means D E values x" if "length pre + 1 = ph" for pre post x
    proof -
      have 1: "holds E (pre @ ps @ post) y (InList e (placeholders ?k ph)) = value_in E (en_expr E e y) ?v" for y e
        by (rule placeholders_value_in [where pre = pre and post = "?v @ ?v @ ?v @ ?v @ post"]) (use c that in simp_all)
      have 2: "holds E (pre @ ps @ post) y (InList e (placeholders ?k (ph + ?k))) = value_in E (en_expr E e y) ?v" for y e
        by (rule placeholders_value_in [where pre = "pre @ ?v" and post = "?v @ ?v @ ?v @ post"]) (use c that in simp_all)
      have 3: "holds E (pre @ ps @ post) y (InList e (placeholders ?k (ph + ?k * 2))) = value_in E (en_expr E e y) ?v" for y e
        by (rule placeholders_value_in [where pre = "pre @ ?v @ ?v" and post = "?v @ ?v @ post"]) (use c that in simp_all)
      have 4: "holds E (pre @ ps @ post) y (InList e (placeholders ?k (ph + ?k * 3))) = value_in E (en_expr E e y) ?v" for y e
        by (rule placeholders_value_in [where pre = "pre @ ?v @ ?v @ ?v" and post = "?v @ post"]) (use c that in simp_all)
      have 5: "holds E (pre @ ps @ post) y (InList e (placeholders ?k (ph + ?k * 4))) = value_in E (en_expr E e y) ?v" for y e
        by (rule placeholders_value_in [where pre = "pre @ ?v @ ?v @ ?v @ ?v" and post = post]) (use c that in simp_all)
      show ?thesis unfolding c(1) contributor_condition_def contributor_means_def holds.simps(8-10) list_ex_Cons_iff list_ex_Nil_iff list.pred_inject 1 2 3 4 5 by simp
    qed
    moreover have "places c = [ph..<ph + n]"
    proof -
      have "[ph..<ph + n] = [ph..<ph + ?k] @ [ph + ?k..<ph + ?k * 2] @ [ph + ?k * 2..<ph + ?k * 3] @ [ph + ?k * 3..<ph + ?k * 4] @ [ph + ?k * 4..<ph + ?k * 5]"
        unfolding c(3) by (simp add: upt_join mult.commute)
      then show ?thesis unfolding c(1) by (simp add: contributor_condition_def places_placeholders) (simp add: algebra_simps mult_2_right)
    qed
    ultimately show ?thesis using c(2,3) by (simp add: conds_mean_def)
  qed
qed

lemma field_conds_mean:
  assumes "buildFieldFilterCondition F D f ph = Ok (c, ps, n)" "1 \<le> ph" "\<not> isArrayAnyFilter f"
  shows "conds_mean D E ph [c] ps n (field_means F D E f)"
proof -
  consider "ff_target f = ''contributor_did''" | "ff_target f = ''badge_award_badge_type''" | "ff_target f = ''column''" "ff_field f = SortFieldRecordCreatedAt"
    | "ff_target f \<noteq> ''contributor_did''" "ff_target f \<noteq> ''badge_award_badge_type''" "\<not> (ff_target f = ''column'' \<and> ff_field f = SortFieldRecordCreatedAt)"
    by blast
  then show ?thesis
  proof cases
    case 1
    then have b: "buildContributorDIDFilterCondition F D f ph = Ok (c, ps, n)" using assms(1) by (simp add: buildFieldFilterCondition_def)
    then obtain vals where v: "contributorDIDFilterValues F f = Ok vals" by (auto simp: buildContributorDIDFilterCondition_def split: sum.splits)
    show ?thesis using contributor_conds_mean [OF b assms(2) v, of E] 1 v by (simp add: field_means_def [abs_def])
  next
    case 2
    then obtain e where "badgeAwardBadgeTypeExpr F D = Ok e" "buildScalarFilterCondition F D e f ph = Ok (c, ps, n)"
      using assms(1) by (auto simp: buildFieldFilterCondition_def buildBadgeAwardBadgeTypeFilterCondition_def split: sum.splits)
    then show ?thesis using scalar_conds_mean 2 by (simp add: field_means_def [abs_def])
  next
    case 3
    then have "buildRecordCreatedAtFilterCondition F D f ph = Ok (c, ps, n)" using assms(1) by (simp add: buildFieldFilterCondition_def)
    then show ?thesis using created_at_conds_mean 3 by (simp add: field_means_def [abs_def])
  next
    case 4
    then obtain e where e: "filterFieldExpr F D f = Ok e" "buildScalarFilterCondition F D e f ph = Ok (c, ps, n)"
      using assms(1,3) by (auto simp: buildFieldFilterCondition_def isArrayAnyFilter_def split: sum.splits if_splits)
    have "field_means F D E f = scalar_means F D E e f" by (rule ext) (use 4 e(1) in \<open>auto simp: field_means_def\<close>)
    then show ?thesis using scalar_conds_mean [OF e(2), of E] by simp
  qed
qed

lemma group_key: "isArrayAnyFilter f \<Longrightarrow> isArrayAnyFilter g \<Longrightarrow> ff_array_path g = ff_array_path f \<Longrightarrow> arrayFilterGroupKey g = arrayFilterGroupKey f"
  by (simp add: arrayFilterGroupKey_def)

lemma sum_case_Ok:
  assumes "(case r of Inl e \<Rightarrow> Err e | Inr x \<Rightarrow> f x) = Ok y"
  obtains x where "r = Ok x" "f x = Ok y"
  using assms by (cases r) auto

lemma filter_loop_step:
  assumes "filter_loop F D processed ph (f # fs) = Ok (cs, ps)" "\<not> (isArrayAnyFilter f \<and> arrayFilterGroupKey f \<in> set processed)"
  obtains c qs n ds rs where "(if isArrayAnyFilter f
       then buildArrayAnyFilterCondition F D (filter (\<lambda>g. arrayFilterGroupKey g = arrayFilterGroupKey f) (f # fs)) ph
       else buildFieldFilterCondition F D f ph) = Ok (c, qs, n)"
    "filter_loop F D (if isArrayAnyFilter f then arrayFilterGroupKey f # processed else processed) (ph + n) fs = Ok (ds, rs)"
    "cs = c # ds" "ps = qs @ rs"
proof -
  obtain x where x: "(if isArrayAnyFilter f
       then buildArrayAnyFilterCondition F D (filter (\<lambda>g. arrayFilterGroupKey g = arrayFilterGroupKey f) (f # fs)) ph
       else buildFieldFilterCondition F D f ph) = Ok x"
    "(case x of (c, ps, n) \<Rightarrow> case filter_loop F D (if isArrayAnyFilter f then arrayFilterGroupKey f # processed else processed) (ph + n) fs of
        Inl e \<Rightarrow> Err e | Inr (cs, qs) \<Rightarrow> Ok (c # cs, ps @ qs)) = Ok (cs, ps)"
    using assms(1) [unfolded filter_loop.simps if_not_P [OF assms(2)]] by (rule sum_case_Ok)
  obtain c qs n where c: "x = (c, qs, n)" by (cases x)
  obtain y where "filter_loop F D (if isArrayAnyFilter f then arrayFilterGroupKey f # processed else processed) (ph + n) fs = Ok y"
    "(case y of (cs, rs) \<Rightarrow> Ok (c # cs, qs @ rs)) = Ok (cs, ps)" using x(2) [unfolded c prod.case] by (rule sum_case_Ok)
  then show thesis using that [of c qs n] x(1) c by (cases y) auto
qed

text \<open>In the loop, the filters before are those of \<open>pre\<close>; the groups already built are skipped.\<close>

lemma filter_loop_mean:
  assumes "filter_loop F D processed ph fs = Ok (cs, ps)" "1 \<le> ph" "whole = pre @ fs"
    and "set processed = arrayFilterGroupKey ` {g \<in> set pre. isArrayAnyFilter g}"
  shows "conds_mean D E ph cs ps (length ps) (\<lambda>c. list_all (\<lambda>f.
      if isArrayAnyFilter f then arrayFilterGroupKey f \<in> set processed \<or> group_means F D E whole f c else field_means F D E f c) fs)"
  using assms
proof (induction fs arbitrary: processed ph cs ps pre)
  case Nil
  then show ?case by (simp add: conds_mean_Nil)
next
  case (Cons f fs)
  let ?Q = "\<lambda>processed c. list_all (\<lambda>f. if isArrayAnyFilter f then arrayFilterGroupKey f \<in> set processed \<or> group_means F D E whole f c else field_means F D E f c) fs"
  have w: "whole = (pre @ [f]) @ fs" using Cons.prems(3) by simp
  consider "isArrayAnyFilter f" "arrayFilterGroupKey f \<in> set processed" | "isArrayAnyFilter f" "arrayFilterGroupKey f \<notin> set processed" | "\<not> isArrayAnyFilter f" by blast
  then show ?case
  proof cases
    case 1
    then have "filter_loop F D processed ph fs = Ok (cs, ps)" using Cons.prems(1) by simp
    moreover have "set processed = arrayFilterGroupKey ` {g \<in> set (pre @ [f]). isArrayAnyFilter g}" using 1 Cons.prems(4) by auto
    ultimately have "conds_mean D E ph cs ps (length ps) (?Q processed)" by (rule Cons.IH [OF _ Cons.prems(2) w])
    then show ?thesis by (rule conds_mean_cong) (use 1 in simp)
  next
    case 2
    let ?G = "filter (\<lambda>g. arrayFilterGroupKey g = arrayFilterGroupKey f) (f # fs)"
    obtain c qs n ds rs where b: "buildArrayAnyFilterCondition F D ?G ph = Ok (c, qs, n)"
      and l: "filter_loop F D (arrayFilterGroupKey f # processed) (ph + n) fs = Ok (ds, rs)" and r: "cs = c # ds" "ps = qs @ rs"
      by (rule filter_loop_step [OF Cons.prems(1)]) (use 2 in \<open>simp_all del: filter.simps\<close>)
    obtain f' where f': "hd ?G = f'" "list_all (\<lambda>g. isArrayAnyFilter g \<and> ff_array_path g = ff_array_path f') ?G"
      "conds_mean D E ph [c] qs n (\<lambda>c. list_ex (\<lambda>el. list_all (\<lambda>g. elem_means F D E g el) ?G) (en_elements E (ff_array_path f') c))"
      by (rule array_any_conds_mean [OF b Cons.prems(2), where E = E])
    have "f' = f" using f'(1) by simp
    note h = f'(2) [unfolded this] and m = f'(3) [unfolded this]
    have G: "filter (\<lambda>g. isArrayAnyFilter g \<and> ff_array_path g = ff_array_path f) whole = ?G"
    proof -
      have "filter (\<lambda>g. isArrayAnyFilter g \<and> ff_array_path g = ff_array_path f) pre = []"
      proof (rule filter_False, rule ballI, rule notI)
        fix g assume g: "g \<in> set pre" "isArrayAnyFilter g \<and> ff_array_path g = ff_array_path f"
        then have "arrayFilterGroupKey g \<in> set processed" unfolding Cons.prems(4) by blast
        then show False using group_key [OF 2(1)] g(2) 2(2) by simp
      qed
      moreover have "filter (\<lambda>g. isArrayAnyFilter g \<and> ff_array_path g = ff_array_path f) (f # fs) = ?G"
      proof (rule filter_cong [OF refl])
        fix g assume "g \<in> set (f # fs)"
        then show "(isArrayAnyFilter g \<and> ff_array_path g = ff_array_path f) = (arrayFilterGroupKey g = arrayFilterGroupKey f)"
          using h group_key [OF 2(1), of g] unfolding list_all_iff set_filter by blast
      qed
      ultimately show ?thesis using Cons.prems(3) by (simp only: filter_append) simp
    qed
    have g: "group_means F D E whole f x = list_ex (\<lambda>el. list_all (\<lambda>g. elem_means F D E g el) ?G) (en_elements E (ff_array_path f) x)" for x
      unfolding group_means_def G ..
    have same: "group_means F D E whole g x = group_means F D E whole f x" if "g \<in> set fs" "arrayFilterGroupKey g = arrayFilterGroupKey f" for g x
    proof -
      have "ff_array_path g = ff_array_path f" using h that unfolding list_all_iff set_filter by (metis (mono_tags, lifting) list.set_intros(2) mem_Collect_eq)
      then show ?thesis by (simp add: group_means_def)
    qed
    have "set (arrayFilterGroupKey f # processed) = arrayFilterGroupKey ` {g \<in> set (pre @ [f]). isArrayAnyFilter g}" using 2 Cons.prems(4) by auto
    then have IH: "conds_mean D E (ph + n) ds rs (length rs) (?Q (arrayFilterGroupKey f # processed))"
      using Cons.IH [OF l _ w] Cons.prems(2) by simp
    have n: "n = length qs" using m by (simp add: conds_mean_def)
    have q: "group_means F D E whole f x \<and> ?Q (arrayFilterGroupKey f # processed) x \<longleftrightarrow> group_means F D E whole f x \<and> ?Q processed x" for x
    proof (rule conj_cong [OF refl])
      assume "group_means F D E whole f x"
      then have "(arrayFilterGroupKey g \<in> set (arrayFilterGroupKey f # processed) \<or> group_means F D E whole g x)
          = (arrayFilterGroupKey g \<in> set processed \<or> group_means F D E whole g x)" if "g \<in> set fs" for g using same [OF that, of x] by auto
      then show "?Q (arrayFilterGroupKey f # processed) x = ?Q processed x" unfolding list_all_iff by (intro ball_cong) simp_all
    qed
    from conds_mean_append [OF m IH Cons.prems(2), unfolded g [symmetric] q]
    show ?thesis unfolding r n using 2 by simp
  next
    case 3
    obtain c qs n ds rs where b: "buildFieldFilterCondition F D f ph = Ok (c, qs, n)"
      and l: "filter_loop F D processed (ph + n) fs = Ok (ds, rs)" and r: "cs = c # ds" "ps = qs @ rs"
      by (rule filter_loop_step [OF Cons.prems(1)]) (use 3 in simp_all)
    have "set processed = arrayFilterGroupKey ` {g \<in> set (pre @ [f]). isArrayAnyFilter g}" using 3 Cons.prems(4) by auto
    then have IH: "conds_mean D E (ph + n) ds rs (length rs) (?Q processed)" using Cons.IH [OF l _ w] Cons.prems(2) by simp
    note m = field_conds_mean [OF b Cons.prems(2) 3, of E]
    have n: "n = length qs" using m by (simp add: conds_mean_def)
    show ?thesis using conds_mean_append [OF m IH Cons.prems(2)] 3 unfolding r n by simp
  qed
qed

lemma filter_clause_mean:
  assumes "buildFilterClause F D filters ph = Ok (cs, ps)" "1 \<le> ph"
  shows "conds_mean D E ph cs ps (length ps) (filters_mean F D E filters)"
proof (cases "filters = []")
  case True
  then show ?thesis using assms(1) by (simp add: buildFilterClause_def filters_mean_def [abs_def] conds_mean_Nil)
next
  case False
  then have "filter_loop F D [] ph filters = Ok (cs, ps)" using assms(1) by (simp add: buildFilterClause_def)
  from filter_loop_mean [OF this assms(2), of filters "[]" E] show ?thesis by (simp add: filters_mean_def [abs_def] cong: if_cong)
qed

section \<open>DID and label clauses\<close>

definition did_means :: "('c, 'v) engine \<Rightarrow> did_filter \<Rightarrow> 'c \<Rightarrow> bool" where
  "did_means E f c =
     (if df_eq f \<noteq> [] then value_in E (en_expr E (Column ''did'') c) [DText (df_eq f)]
      else df_in f = [] \<or> value_in E (en_expr E (Column ''did'') c) (map DText (df_in f)))"

definition label_string_means :: "fmt_env \<Rightarrow> dialect \<Rightarrow> ('c, 'v) engine \<Rightarrow> string \<Rightarrow> label_string_filter \<Rightarrow> 'c \<Rightarrow> bool" where
  "label_string_means F D E column f l =
     (let x = en_expr E (LabelColumn column) l; op = ls_operator f;
          text = (case ls_value f of VStr s \<Rightarrow> s | _ \<Rightarrow> []) in
      if op = ''eq'' then both (en_cmp E ''='') x (en_value E (DText text))
      else if op = ''neq'' then both (en_cmp E ''!='') x (en_value E (DText text))
      else if op = ''in'' then (case externalLabelStringFilterList F (ls_value f) of Inr ss \<Rightarrow> value_in E x (map DText ss) | Inl _ \<Rightarrow> False)
      else if op = ''contains'' then both (en_like E (D = PostgreSQL)) x (en_value E (DText (''%'' @ escapeLIKE text @ ''%'')))
      else if op = ''startsWith'' then both (en_like E (D = PostgreSQL)) x (en_value E (DText (escapeLIKE text @ ''%'')))
      else (x = None) = (ls_value f = VBool True))"

text \<open>A label row matches a predicate when it is about the subject (a label on a record may name its CID; one on an account names none), satisfies
  the source and value conditions, and is active if that is asked for.\<close>

definition label_matches :: "fmt_env \<Rightarrow> dialect \<Rightarrow> ('c, 'v) engine \<Rightarrow> label_subject \<Rightarrow> label_predicate \<Rightarrow> 'c \<Rightarrow> bool" where
  "label_matches F D E subject p l =
     (en_label_subject E subject l
      \<and> (en_label_no_cid E l \<or> subject = SubjectRecord \<and> en_label_cid E l)
      \<and> list_all (\<lambda>f. label_string_means F D E ''src'' f l) (lp_sources p)
      \<and> list_all (\<lambda>f. label_string_means F D E ''val'' f l) (lp_values p)
      \<and> (lp_active_only p \<longrightarrow> en_label_active E l))"

definition subject_means :: "fmt_env \<Rightarrow> dialect \<Rightarrow> ('c, 'v) engine \<Rightarrow> label_subject \<Rightarrow> label_record_filter \<Rightarrow> 'c \<Rightarrow> bool" where
  "subject_means F D E subject f c =
     ((case lf_has f of None \<Rightarrow> True | Some p \<Rightarrow> list_ex (label_matches F D E subject p) (en_labels E c))
      \<and> (case lf_none f of None \<Rightarrow> True | Some p \<Rightarrow> \<not> list_ex (label_matches F D E subject p) (en_labels E c)))"

definition labels_mean :: "fmt_env \<Rightarrow> dialect \<Rightarrow> ('c, 'v) engine \<Rightarrow> label_filter_set \<Rightarrow> 'c \<Rightarrow> bool" where
  "labels_mean F D E f c = (subject_means F D E SubjectRecord (lfs_record f) c \<and> subject_means F D E SubjectAuthor (lfs_author f) c)"

lemma did_conds_mean:
  assumes "buildDIDFilterClause f ph = Ok (cs, ps, n)"
  shows "conds_mean D E ph cs ps n (did_means E f)"
proof -
  consider "DIDFilter_IsEmpty f" | "df_eq f \<noteq> []" | "df_eq f = []" "df_in f \<noteq> []" by (auto simp: DIDFilter_IsEmpty_def)
  then show ?thesis
  proof cases
    case 1
    then show ?thesis using assms by (simp add: buildDIDFilterClause_def DIDFilter_IsEmpty_def did_means_def [abs_def] conds_mean_Nil)
  next
    case 2
    then have "cs = [Compare ''='' (Column ''did'') (Param ph)]" "ps = [DText (df_eq f)]" "n = 1"
      using assms by (simp_all add: buildDIDFilterClause_def DIDFilter_IsEmpty_def)
    then show ?thesis using 2 by (intro conds_meanI) (simp_all add: did_means_def arg_value_def arg_first value_in_def)
  next
    case 3
    then have c: "cs = [InList (Column ''did'') (placeholders (length (df_in f)) ph)]" "ps = map DText (df_in f)" "n = length (df_in f)"
      using assms by (auto simp: buildDIDFilterClause_def DIDFilter_IsEmpty_def split: if_splits)
    show ?thesis unfolding c using 3 placeholders_value [where ps = "map DText (df_in f)"]
      by (intro conds_meanI) (simp_all add: did_means_def value_in_def places_placeholders)
  qed
qed

lemma res_map_Ok: "res_map f r = Ok y \<longleftrightarrow> (\<exists>x. r = Ok x \<and> y = f x)"
  by (cases r) (auto simp: res_map_def)

lemma label_text_Ok: "externalLabelStringFilterValue F v = Ok s \<longleftrightarrow> v = VStr s"
  by (auto simp: externalLabelStringFilterValue_def split: fvalue.splits)

lemma label_string_conds_mean:
  assumes "label_string_condition F D column f ph = Ok (c, ps, n)"
  shows "conds_mean D E ph [c] ps n (label_string_means F D E column f)"
proof -
  note b = assms [unfolded label_string_condition_def Let_def]
  consider "ls_operator f = ''eq''" | "ls_operator f = ''neq''" | "ls_operator f = ''in''" | "ls_operator f = ''contains''" | "ls_operator f = ''startsWith''"
    | "ls_operator f = ''isNull''" using b by (auto split: if_splits)
  then show ?thesis
  proof cases
    case 3
    then obtain ss where ss: "externalLabelStringFilterList F (ls_value f) = Ok ss" using b by (auto split: sum.splits)
    show ?thesis
    proof (cases "ss = []")
      case True
      then show ?thesis using b 3 ss by (intro conds_meanI) (auto simp: label_string_means_def value_in_def Let_def)
    next
      case False
      then have c: "c = InList (LabelColumn column) (placeholders (length ss) ph)" "ps = map DText ss" "n = length ss"
        using b 3 ss by (auto split: if_splits)
      show ?thesis unfolding c using placeholders_value [where ps = "map DText ss"]
        by (intro conds_meanI) (simp_all add: label_string_means_def Let_def 3 ss value_in_def places_placeholders)
    qed
  qed (use b in \<open>intro conds_meanI; auto simp: res_map_Ok label_text_Ok label_string_means_def Let_def arg_value_def arg_first likeOp_ilike_def\<close>)+
qed

lemma label_strings_conds_mean:
  assumes "buildExternalLabelStringFilterConditions F D column fs ph = Ok (cs, ps, n)" "1 \<le> ph"
  shows "conds_mean D E ph cs ps n (\<lambda>l. list_all (\<lambda>f. label_string_means F D E column f l) fs)"
  using assms
proof (induction fs arbitrary: ph cs ps n)
  case Nil
  then show ?case by (simp add: conds_mean_Nil)
next
  case (Cons f fs)
  obtain c qs k ds rs m where f: "label_string_condition F D column f ph = Ok (c, qs, k)"
      "buildExternalLabelStringFilterConditions F D column fs (ph + k) = Ok (ds, rs, m)" and r: "cs = [c] @ ds" "ps = qs @ rs" "n = k + m"
    using Cons.prems(1) by (auto split: sum.splits prod.splits)
  show ?case unfolding r list.pred_inject
    by (rule conds_mean_append [OF label_string_conds_mean [OF f(1)] Cons.IH [OF f(2)] Cons.prems(2)]) (use Cons.prems(2) in simp)
qed

lemma plain_conds_mean:
  assumes "\<And>args c. list_all (holds E args c) cs = P c" "concat (map places cs) = []"
  shows "conds_mean D E ph cs [] 0 P"
  using assms by (intro conds_meanI) simp_all

lemma exists_conds_mean:
  assumes "buildExternalLabelExistsSubquery F D subject p ph = Ok (cs, ps, n)" "1 \<le> ph"
  shows "conds_mean D E ph cs ps n (label_matches F D E subject p)"
proof -
  obtain as qs k bs rs m where a: "buildExternalLabelStringFilterConditions F D ''src'' (lp_sources p) ph = Ok (as, qs, k)"
    and b: "buildExternalLabelStringFilterConditions F D ''val'' (lp_values p) (ph + k) = Ok (bs, rs, m)"
    and r: "cs = externalLabelSubjectConditions subject @ as @ bs @ (if lp_active_only p then [LabelActive] else [])" "ps = [] @ qs @ rs @ []" "n = 0 + (k + (m + 0))"
    using assms(1) by (auto simp: buildExternalLabelExistsSubquery_def split: sum.splits prod.splits)
  have s: "conds_mean D E ph (externalLabelSubjectConditions subject) [] 0
      (\<lambda>l. en_label_subject E subject l \<and> (en_label_no_cid E l \<or> subject = SubjectRecord \<and> en_label_cid E l))"
    by (rule plain_conds_mean) (auto simp: externalLabelSubjectConditions_def split: label_subject.splits)
  have t: "conds_mean D E (ph + k + m) (if lp_active_only p then [LabelActive] else []) [] 0 (\<lambda>l. lp_active_only p \<longrightarrow> en_label_active E l)"
    by (rule plain_conds_mean) auto
  have 1: "1 \<le> ph + k" using assms(2) by simp
  note AB = conds_mean_append [OF label_strings_conds_mean [OF b 1] t 1]
  note A = conds_mean_append [OF label_strings_conds_mean [OF a assms(2)] AB assms(2)]
  have "conds_mean D E (ph + 0) (as @ bs @ (if lp_active_only p then [LabelActive] else [])) (qs @ rs @ []) (k + (m + 0))
      (\<lambda>l. list_all (\<lambda>f. label_string_means F D E ''src'' f l) (lp_sources p)
        \<and> list_all (\<lambda>f. label_string_means F D E ''val'' f l) (lp_values p) \<and> (lp_active_only p \<longrightarrow> en_label_active E l))"
    using A by simp
  from conds_mean_append [OF s this assms(2)] show ?thesis unfolding r by (rule conds_mean_cong) (auto simp: label_matches_def)
qed

lemma label_test_conds_mean:
  assumes "label_test F D subject b po ph = Ok (cs, ps, n)" "1 \<le> ph"
  shows "conds_mean D E ph cs ps n (\<lambda>c. case po of None \<Rightarrow> True | Some p \<Rightarrow> list_ex (label_matches F D E subject p) (en_labels E c) = b)"
proof (cases po)
  case None
  then show ?thesis using assms(1) by (simp add: label_test_def conds_mean_Nil)
next
  case (Some p)
  then obtain ds where d: "buildExternalLabelExistsSubquery F D subject p ph = Ok (ds, ps, n)" "cs = [LabelExists b ds]"
    using assms(1) by (auto simp: label_test_def res_map_Ok)
  note m = exists_conds_mean [OF d(1) assms(2), of E]
  have "list_all (holds E (pre @ ps @ post) c) cs = (list_ex (label_matches F D E subject p) (en_labels E c) = b)" if "length pre + 1 = ph" for pre post c
    using conds_mean_holds [OF m that] d(2) by (simp add: list_ex_iff)
  then show ?thesis using m d(2) Some unfolding conds_mean_def by (elim conjE, intro conjI; simp)
qed

lemma join_built_Ok:
  assumes "join_built a b = Ok (cs, ps, n)"
  obtains as qs k bs rs m where "a = Ok (as, qs, k)" "b k = Ok (bs, rs, m)" "cs = as @ bs" "ps = qs @ rs" "n = k + m"
  using assms by (auto simp: join_built_def split: sum.splits prod.splits)

lemma subject_conds_mean:
  assumes "buildExternalLabelSubjectFilterClause F D subject f ph = Ok (cs, ps, n)" "1 \<le> ph"
  shows "conds_mean D E ph cs ps n (subject_means F D E subject f)"
proof (cases "LabelFilter_IsEmpty f")
  case True
  then show ?thesis using assms(1)
    by (simp add: buildExternalLabelSubjectFilterClause_def LabelFilter_IsEmpty_def subject_means_def [abs_def] conds_mean_Nil)
next
  case False
  then have "join_built (label_test F D subject True (lf_has f) ph) (\<lambda>n. label_test F D subject False (lf_none f) (ph + n)) = Ok (cs, ps, n)"
    using assms(1) by (simp add: buildExternalLabelSubjectFilterClause_def)
  then obtain as qs k bs rs m where a: "label_test F D subject True (lf_has f) ph = Ok (as, qs, k)"
    and b: "label_test F D subject False (lf_none f) (ph + k) = Ok (bs, rs, m)" and r: "cs = as @ bs" "ps = qs @ rs" "n = k + m" by (rule join_built_Ok)
  have 1: "1 \<le> ph + k" using assms(2) by simp
  show ?thesis unfolding r
    by (rule conds_mean_cong [OF conds_mean_append [OF label_test_conds_mean [OF a assms(2)] label_test_conds_mean [OF b 1] assms(2)]])
      (auto simp: subject_means_def split: option.splits)
qed

lemma label_set_conds_mean:
  assumes "buildExternalLabelFilterSetClause F D f ph = Ok (cs, ps)" "1 \<le> ph"
  shows "conds_mean D E ph cs ps (length ps) (labels_mean F D E f)"
proof (cases "LabelFilterSet_IsEmpty f")
  case True
  then show ?thesis using assms(1)
    by (simp add: buildExternalLabelFilterSetClause_def LabelFilterSet_IsEmpty_def LabelFilter_IsEmpty_def labels_mean_def [abs_def] subject_means_def conds_mean_Nil)
next
  case False
  then obtain n where "join_built (buildExternalLabelSubjectFilterClause F D SubjectRecord (lfs_record f) ph)
      (\<lambda>n. buildExternalLabelSubjectFilterClause F D SubjectAuthor (lfs_author f) (ph + n)) = Ok (cs, ps, n)"
    using assms(1) by (auto simp: buildExternalLabelFilterSetClause_def res_map_Ok)
  then obtain as qs k bs rs m where a: "buildExternalLabelSubjectFilterClause F D SubjectRecord (lfs_record f) ph = Ok (as, qs, k)"
    and b: "buildExternalLabelSubjectFilterClause F D SubjectAuthor (lfs_author f) (ph + k) = Ok (bs, rs, m)"
    and r: "cs = as @ bs" "ps = qs @ rs" "n = k + m" by (rule join_built_Ok)
  have 1: "1 \<le> ph + k" using assms(2) by simp
  note m = conds_mean_append [OF subject_conds_mean [OF a assms(2)] subject_conds_mean [OF b 1] assms(2), of E]
  then have "k + m = length ps" unfolding conds_mean_def r by simp
  then show ?thesis using m unfolding r(1,2) labels_mean_def [abs_def] by simp
qed

end
