(* ===== verification/External_Labels.thy ===== *)
theory External_Labels
  imports Record_Filters "HOL-Library.Product_Lexorder"
begin

text \<open>
  \<open>ExternalLabelsRepository\<close> (\<open>internal/database/repositories/external_labels.go\<close>): the labels received from external labelers and the cursor of
  every labeler subscription.

  A fatal cursor is a text in \<open>last_error\<close>: SQL recognises it by \<open>LIKE 'FATAL_CURSOR %'\<close>, Go by a prefix test after \<open>TrimSpace\<close>.  Timestamps of
  labels are kept as the text the labeler sent; \<open>le_sql_time\<close> is how the database reads one (\<open>julianday\<close>, \<open>::timestamptz\<close>), in the database's
  resolution, with \<open>None\<close> for SQLite's NULL; a text PostgreSQL cannot cast makes the statement fail, which is an entry of the fault script.
  \<open>le_parse\<close> is \<open>time.Parse(time.RFC3339Nano, _)\<close>: the error, if any.  The columns the database fills with its clock are integers, so the
  parsing of their texts (\<open>parseDBTime\<close>) has no counterpart.
\<close>

section \<open>Texts\<close>

record label_env =
  le_parse :: "string \<Rightarrow> err option"
  le_sql_time :: "string \<Rightarrow> int option"
  le_unicode :: unicode

definition externalLabelLastErrorMaxLen :: nat where "externalLabelLastErrorMaxLen = 4096"
definition externalLabelSubjectBatchSize :: nat where "externalLabelSubjectBatchSize = 250"
definition fatalCursorPrefix :: string where "fatalCursorPrefix = ''FATAL_CURSOR ''"

text \<open>\<open>strings.ToValidUTF8\<close>: every maximal run of invalid bytes becomes one replacement.\<close>

definition invalid_rune :: "nat \<times> string \<Rightarrow> bool" where
  "invalid_rune r = (fst r = 65533 \<and> length (snd r) = 1)"

fun valid_runs :: "string \<Rightarrow> bool \<Rightarrow> (nat \<times> string) list \<Rightarrow> string" where
  "valid_runs repl inside [] = []"
| "valid_runs repl inside (r # rs) =
     (if invalid_rune r then (if inside then [] else repl) @ valid_runs repl True rs
      else snd r @ valid_runs repl False rs)"

definition ToValidUTF8 :: "string \<Rightarrow> string \<Rightarrow> string" where
  "ToValidUTF8 s repl = valid_runs repl False (runes s)"

definition replacementChar :: string where
  "replacementChar = encode_rune 65533"

definition normalizeLastError :: "string \<Rightarrow> string" where
  "normalizeLastError errText0 =
     (let errText = trim_space (ToValidUTF8 errText0 replacementChar) in
      if errText = [] then ''unknown error''
      else if length errText > externalLabelLastErrorMaxLen then take externalLabelLastErrorMaxLen errText
      else errText)"

definition normalizeErrorCode :: "string \<Rightarrow> string" where
  "normalizeErrorCode errorCode0 =
     (let errorCode = trim_space (ToValidUTF8 errorCode0 replacementChar) in
      if errorCode = [] then ''Unknown'' else errorCode)"

definition formatFatalCursorLastError :: "string \<Rightarrow> string \<Rightarrow> string" where
  "formatFatalCursorLastError errorCode errText =
     (let code = normalizeErrorCode errorCode;
          m1 = trim_space (ToValidUTF8 errText replacementChar);
          m2 = trim_space (trim_prefix m1 fatalCursorPrefix);
          m3 = (if has_prefix m2 (code @ '':'') then trim_space (trim_prefix m2 (code @ '':'')) else m2);
          message = normalizeLastError m3 in
      normalizeLastError (fatalCursorPrefix @ code @ '': '' @ message))"

definition IsFatalCursorError :: "string option \<Rightarrow> bool" where
  "IsFatalCursorError lastError =
     (case lastError of None \<Rightarrow> False | Some e \<Rightarrow> has_prefix (trim_space e) fatalCursorPrefix)"

definition FatalCursorCode :: "string option \<Rightarrow> string" where
  "FatalCursorCode lastError =
     (if \<not> IsFatalCursorError lastError then []
      else (let marker = trim_prefix (trim_space (the lastError)) fatalCursorPrefix;
                code = trim_space (case cut_at CHR '':'' marker of None \<Rightarrow> marker | Some (a, _) \<Rightarrow> a) in
            if code = [] then ''FatalCursor'' else code))"

definition IsFatal :: "label_state_row \<Rightarrow> bool" where
  "IsFatal s = IsFatalCursorError (ls_last_error s)"

definition Status :: "label_state_row \<Rightarrow> string" where
  "Status s =
     (if IsFatal s then ''fatal''
      else if (case ls_last_error s of None \<Rightarrow> False | Some e \<Rightarrow> trim_space e \<noteq> []) then ''error''
      else if ls_last_connected_at s \<noteq> None \<or> ls_last_event_at s \<noteq> None \<or> ls_last_seq s > 0 then ''connected''
      else ''pending'')"

text \<open>\<open>last_error LIKE 'FATAL_CURSOR %'\<close>: the underscore of the pattern stands for any character, and SQLite ignores the case of ASCII letters.\<close>

definition fatal_like :: "dialect \<Rightarrow> string \<Rightarrow> bool" where
  "fatal_like D e =
     (let rs = map snd (runes e) in
      length fatalCursorPrefix \<le> length rs
      \<and> list_all2 (\<lambda>p r. p = CHR ''_'' \<or> map (like_fold D) r = [like_fold D p]) fatalCursorPrefix (take (length fatalCursorPrefix) rs))"

text \<open>The guard \<open>last_error IS NULL OR last_error NOT LIKE ...\<close> is the negation of this.\<close>

definition fatal_row :: "dialect \<Rightarrow> label_state_row \<Rightarrow> bool" where
  "fatal_row D r = (case ls_last_error r of None \<Rightarrow> False | Some e \<Rightarrow> fatal_like D e)"

section \<open>Subscription state\<close>

definition validateSubscriptionURL :: "string \<Rightarrow> unit res" where
  "validateSubscriptionURL url = (if trim_space url = [] then Err ''label subscription URL must not be empty'' else Ok ())"

definition fresh_state :: "string \<Rightarrow> int \<Rightarrow> label_state_row" where
  "fresh_state url now = \<lparr>ls_url = url, ls_labeler_did = None, ls_last_seq = 0, ls_last_connected_at = None, ls_last_event_at = None,
     ls_last_error = None, ls_created_at = now, ls_updated_at = now\<rparr>"

definition insert_state :: "string \<Rightarrow> unit dbm" where
  "insert_state url d =
     db_exec (\<lambda>s. Ok ((), s\<lparr>st_label_states := tbl_insert_ignore ls_url (fresh_state url (db_now d)) (st_label_states s)\<rparr>)) d"

definition update_state :: "(dialect \<Rightarrow> label_state_row \<Rightarrow> bool) \<Rightarrow> (int \<Rightarrow> label_state_row \<Rightarrow> label_state_row) \<Rightarrow> unit dbm" where
  "update_state P f d =
     db_exec (\<lambda>s. Ok ((), s\<lparr>st_label_states := tbl_update (P (db_dialect d)) (f (db_now d)) (st_label_states s)\<rparr>)) d"

definition GetState :: "string \<Rightarrow> label_state_row dbm" where
  "GetState url =
     db_exec (\<lambda>s. case tbl_find ls_url url (st_label_states s) of
        None \<Rightarrow> Err ''sql: no rows in result set'' | Some r \<Rightarrow> Ok (r, s))"

definition res_db :: "'a res \<Rightarrow> 'a dbm" where
  "res_db r = (case r of Inl e \<Rightarrow> db_fail e | Inr a \<Rightarrow> db_return a)"

definition EnsureState :: "string \<Rightarrow> label_state_row dbm" where
  "EnsureState url =
     db_bind (res_db (validateSubscriptionURL url)) (\<lambda>_. db_bind (insert_state url) (\<lambda>_. GetState url))"

fun dedupe_urls :: "string list \<Rightarrow> string list \<Rightarrow> string list res" where
  "dedupe_urls seen [] = Ok []"
| "dedupe_urls seen (u # us) =
     (case validateSubscriptionURL u of
        Inl e \<Rightarrow> Err e
      | Inr _ \<Rightarrow> if u \<in> set seen then dedupe_urls seen us else res_map (\<lambda>vs. u # vs) (dedupe_urls (u # seen) us))"

text \<open>The struct of a configured URL without a row has only its URL set.\<close>

definition pending_state :: "string \<Rightarrow> label_state_row" where
  "pending_state url = fresh_state url 0"

definition ListStates :: "string list \<Rightarrow> label_state_row list dbm" where
  "ListStates subscriptionURLs =
     (if length subscriptionURLs = 0 then db_return []
      else db_bind (res_db (dedupe_urls [] subscriptionURLs)) (\<lambda>urls.
        if length urls = 0 then db_return []
        else db_wrap ''list label subscription states: ''
          (db_exec (\<lambda>s.
            let statesByURL = foldl (\<lambda>m r. map_put (ls_url r) r m) [] (filter (\<lambda>r. ls_url r \<in> set urls) (st_label_states s)) in
            Ok (map (\<lambda>u. case map_of statesByURL u of None \<Rightarrow> pending_state u | Some r \<Rightarrow> r) urls, s)))))"

definition UpdateConnected :: "string \<Rightarrow> unit dbm" where
  "UpdateConnected url =
     db_bind (EnsureState url) (\<lambda>_. update_state (\<lambda>D r. ls_url r = url \<and> \<not> fatal_row D r)
       (\<lambda>now r. r\<lparr>ls_last_connected_at := Some now, ls_last_error := None, ls_updated_at := now\<rparr>))"

definition UpdateError :: "string \<Rightarrow> string \<Rightarrow> unit dbm" where
  "UpdateError url errText =
     db_bind (EnsureState url) (\<lambda>_. update_state (\<lambda>D r. ls_url r = url \<and> \<not> fatal_row D r)
       (\<lambda>now r. r\<lparr>ls_last_error := Some (normalizeLastError errText), ls_updated_at := now\<rparr>))"

definition MarkFatalCursor :: "string \<Rightarrow> string \<Rightarrow> string \<Rightarrow> unit dbm" where
  "MarkFatalCursor url errorCode errText =
     db_bind (EnsureState url) (\<lambda>_. update_state (\<lambda>D r. ls_url r = url)
       (\<lambda>now r. r\<lparr>ls_last_error := Some (formatFatalCursorLastError errorCode errText), ls_updated_at := now\<rparr>))"

section \<open>Events\<close>

record label_input =
  li_index :: int
  li_src :: string
  li_uri :: string
  li_cid :: "string option"
  li_val :: string
  li_neg :: bool
  li_cts :: string
  li_exp :: "string option"
  li_sig :: "string option"
  li_ver :: "int option"
  li_raw_json :: string

fun validate_inputs_from :: "label_env \<Rightarrow> nat \<Rightarrow> label_input list \<Rightarrow> unit res" where
  "validate_inputs_from L i [] = Ok ()"
| "validate_inputs_from L i (label # labels) =
     (let who = ''external label '' @ show_nat i in
      if li_index label < 0 then Err (who @ '' has negative label_index '' @ show_int (li_index label))
      else if trim_space (li_src label) = [] then Err (who @ '' missing src'')
      else if trim_space (li_uri label) = [] then Err (who @ '' missing uri'')
      else if trim_space (li_val label) = [] then Err (who @ '' missing val'')
      else (case le_parse L (li_cts label) of
              Some e \<Rightarrow> Err (who @ '' has invalid cts '' @ go_quote (le_unicode L) (li_cts label) @ '': '' @ e)
            | None \<Rightarrow>
                (case (case li_exp label of None \<Rightarrow> None | Some x \<Rightarrow> map_option (\<lambda>e. (x, e)) (le_parse L x)) of
                   Some (x, e) \<Rightarrow> Err (who @ '' has invalid exp '' @ go_quote (le_unicode L) x @ '': '' @ e)
                 | None \<Rightarrow> validate_inputs_from L (Suc i) labels)))"

definition validateExternalLabelInputs :: "label_env \<Rightarrow> label_input list \<Rightarrow> unit res" where
  "validateExternalLabelInputs L labels = validate_inputs_from L 0 labels"

definition ensureStateTx :: "string \<Rightarrow> unit dbm" where
  "ensureStateTx url = db_wrap ''ensure label subscription state: '' (insert_state url)"

definition label_of_input :: "string \<Rightarrow> int \<Rightarrow> int \<Rightarrow> string option \<Rightarrow> label_input \<Rightarrow> int \<Rightarrow> label_row" where
  "label_of_input url seq now raw label i =
     \<lparr>lb_id = i, lb_subscription = url, lb_seq = seq, lb_index = li_index label, lb_src = li_src label, lb_uri = li_uri label,
      lb_cid = li_cid label, lb_val = li_val label, lb_neg = li_neg label, lb_cts = li_cts label, lb_exp = li_exp label,
      lb_sig = li_sig label, lb_ver = li_ver label, lb_raw_json = raw, lb_received_at = now\<rparr>"

abbreviation label_key :: "label_row \<Rightarrow> string \<times> int \<times> int" where
  "label_key l \<equiv> (lb_subscription l, lb_seq l, lb_index l)"

text \<open>\<open>ON CONFLICT(subscription_url, seq, label_index) DO NOTHING\<close>; PostgreSQL's sequence advances on a conflict as well.\<close>

definition insert_label :: "dialect \<Rightarrow> (int \<Rightarrow> label_row) \<Rightarrow> store \<Rightarrow> store" where
  "insert_label D mk s =
     (let row = mk (st_next_label s) in
      if label_key row \<in> label_key ` set (st_labels s)
      then (case D of PostgreSQL \<Rightarrow> s\<lparr>st_next_label := st_next_label s + 1\<rparr> | SQLite \<Rightarrow> s)
      else s\<lparr>st_labels := st_labels s @ [row], st_next_label := st_next_label s + 1\<rparr>)"

text \<open>\<open>nullableNonEmptyText\<close> of the raw JSON, as the column takes it in.\<close>

definition raw_json_in :: "(string \<Rightarrow> string option) \<Rightarrow> string \<Rightarrow> string option res" where
  "raw_json_in json_in raw =
     (if raw = [] then Ok None else (case json_in raw of None \<Rightarrow> Err jsonCastError | Some j \<Rightarrow> Ok (Some j)))"

definition insertExternalLabelTx :: "string \<Rightarrow> int \<Rightarrow> label_input \<Rightarrow> unit dbm" where
  "insertExternalLabelTx url seq label d =
     db_wrap (''insert external label seq='' @ show_int seq @ '' index='' @ show_int (li_index label) @ '': '')
       (db_exec (\<lambda>s. res_map (\<lambda>raw. ((), insert_label (db_dialect d) (label_of_input url seq (db_now d) raw label) s))
          (raw_json_in (db_json_in d) (li_raw_json label)))) d"

definition advance_state :: "int \<Rightarrow> int \<Rightarrow> label_state_row \<Rightarrow> label_state_row" where
  "advance_state seq now r =
     r\<lparr>ls_last_seq := (if ls_last_seq r < seq then seq else ls_last_seq r),
       ls_last_event_at := (if ls_last_seq r < seq then Some now else ls_last_event_at r),
       ls_last_error := None, ls_updated_at := now\<rparr>"

definition updateLastSeqTx :: "string \<Rightarrow> int \<Rightarrow> unit dbm" where
  "updateLastSeqTx url seq =
     db_wrap ''update external label cursor: ''
       (update_state (\<lambda>D r. ls_url r = url \<and> \<not> fatal_row D r) (advance_state seq))"

definition PersistEvent :: "label_env \<Rightarrow> string \<Rightarrow> int \<Rightarrow> label_input list \<Rightarrow> unit dbm" where
  "PersistEvent L url seq labels =
     (case validateSubscriptionURL url of
        Inl e \<Rightarrow> db_fail e
      | Inr _ \<Rightarrow>
          if seq < 0 then db_fail (''external label event seq must be non-negative: '' @ show_int seq)
          else (case validateExternalLabelInputs L labels of
                  Inl e \<Rightarrow> db_fail e
                | Inr _ \<Rightarrow>
                    db_tx ''begin external label event transaction: '' ''commit external label event transaction: ''
                      (db_bind (ensureStateTx url) (\<lambda>_.
                       db_bind (db_each (insertExternalLabelTx url seq) labels) (\<lambda>_.
                       updateLastSeqTx url seq)))))"

definition UpdateLastSeq :: "string \<Rightarrow> int \<Rightarrow> unit dbm" where
  "UpdateLastSeq url seq =
     (case validateSubscriptionURL url of
        Inl e \<Rightarrow> db_fail e
      | Inr _ \<Rightarrow>
          if seq < 0 then db_fail (''external label event seq must be non-negative: '' @ show_int seq)
          else db_tx ''begin external label cursor transaction: '' ''commit external label cursor transaction: ''
                 (db_bind (ensureStateTx url) (\<lambda>_. updateLastSeqTx url seq)))"

section \<open>Fatal markers\<close>

lemma runes_ascii_append: "ascii P \<Longrightarrow> runes (P @ s) = map (\<lambda>c. (byte c, [c])) P @ runes s"
  by (induction P) (auto simp: decode_rune_ascii)

lemma valid_runs_plain: "list_all (\<lambda>r. \<not> invalid_rune r) rs \<Longrightarrow> rs \<noteq> [] \<Longrightarrow> valid_runs repl b (rs @ ss) = rune_bytes rs @ valid_runs repl False ss"
proof (induction rs arbitrary: b)
  case (Cons r rs)
  then show ?case by (cases "rs = []") simp_all
qed simp

lemma ascii_runes_plain: "ascii P \<Longrightarrow> list_all (\<lambda>r. \<not> invalid_rune r) (map (\<lambda>c. (byte c, [c])) P)"
  by (induction P) (auto simp: invalid_rune_def)

lemma ToValidUTF8_ascii_append: "ascii P \<Longrightarrow> P \<noteq> [] \<Longrightarrow> ToValidUTF8 (P @ s) repl = P @ ToValidUTF8 s repl"
  by (simp add: ToValidUTF8_def runes_ascii_append valid_runs_plain ascii_runes_plain comp_def)

lemma fatal_prefix_ascii: "ascii fatalCursorPrefix" "fatalCursorPrefix \<noteq> []" "\<not> rune_is_space (byte (hd fatalCursorPrefix))"
  "length fatalCursorPrefix = 13"
  by (simp_all add: fatalCursorPrefix_def rune_is_space_def)

lemma decode_rune_prefix:
  assumes "decode_rune (c # s) = (x, n)" "\<not> (x = 65533 \<and> n = 1)"
  shows "decode_rune (take n (c # s) @ t) = (x, n)"
proof (cases "byte c < 128")
  case True
  then have "n = 1" "x = byte c" using assms(1) by (simp_all add: decode_rune_ascii)
  then show ?thesis using True by (simp add: decode_rune_ascii)
next
  case False
  obtain r where "s = [] \<or> (\<exists>c1. s = [c1]) \<or> (\<exists>c1 c2. s = [c1, c2]) \<or> (\<exists>c1 c2 c3. s = c1 # c2 # c3 # r)"
    by (metis list.exhaust)
  then show ?thesis using assms False
    by (elim disjE exE) (simp_all add: decode_rune_def Let_def split: if_splits)
qed

text \<open>The bytes of valid runes decode to those runes again, whatever follows.\<close>

lemma rune_prefix:
  assumes "r \<in> set (runes s)" "\<not> invalid_rune r"
  shows "runes (snd r @ t) = r # runes t"
  using assms(1)
proof (induction s rule: runes.induct)
  case (2 c s)
  show ?case
  proof (cases "r = (fst (decode_rune (c # s)), take (snd (decode_rune (c # s))) (c # s))")
    case True
    obtain x n where d: "decode_rune (c # s) = (x, n)" by (cases "decode_rune (c # s)")
    have n: "1 \<le> n" "n \<le> length (c # s)" using decode_rune_width [of c s] d by auto
    have r: "r = (x, take n (c # s))" using True d by simp
    have l: "length (take n (c # s)) = n" using n by simp
    then have v: "\<not> (x = 65533 \<and> n = 1)" using assms(2) r by (auto simp: invalid_rune_def)
    have "take n (c # s) @ t = c # (take (n - 1) s @ t)" using n by (cases n) simp_all
    moreover have "decode_rune (c # (take (n - 1) s @ t)) = (x, n)" using decode_rune_prefix [OF d v, of t] calculation by simp
    moreover have "take n (c # (take (n - 1) s @ t)) = take n (c # s)" "drop (n - 1) (take (n - 1) s @ t) = t"
      using n by (cases n; simp)+
    ultimately show ?thesis using r by (simp add: Let_def)
  next
    case False
    then have "r \<in> set (runes (drop (snd (decode_rune (c # s)) - 1) s))" using 2(2) by (auto simp: Let_def)
    then show ?thesis using 2(1) [OF refl] by simp
  qed
qed simp

definition clean_runes :: "(nat \<times> string) list \<Rightarrow> bool" where
  "clean_runes rs = (\<forall>r\<in>set rs. \<not> invalid_rune r \<and> (\<forall>t. runes (snd r @ t) = r # runes t))"

lemma clean_runes_bytes: "clean_runes rs \<Longrightarrow> runes (rune_bytes rs @ t) = rs @ runes t"
  by (induction rs) (simp_all add: clean_runes_def)

lemma replacement_rune: "runes (replacementChar @ t) = (65533, replacementChar) # runes t" "\<not> invalid_rune (65533, replacementChar)"
  by (simp_all add: replacementChar_def encode_rune_def decode_rune_def Let_def second_byte_ok_def cont_byte_def invalid_rune_def)

lemma valid_runs_clean:
  assumes "\<And>r. r \<in> set rs \<Longrightarrow> \<not> invalid_rune r \<Longrightarrow> (\<forall>t. runes (snd r @ t) = r # runes t)"
  shows "\<exists>vs. valid_runs replacementChar b rs = rune_bytes vs \<and> clean_runes vs"
  using assms
proof (induction rs arbitrary: b)
  case Nil
  then show ?case by (intro exI [of _ "[]"]) (simp add: clean_runes_def)
next
  case (Cons r rs)
  obtain vs where vs: "valid_runs replacementChar (invalid_rune r) rs = rune_bytes vs" "clean_runes vs" using Cons.IH [of "invalid_rune r"] Cons.prems by auto
  show ?case
  proof (cases "invalid_rune r")
    case True
    then show ?thesis using vs replacement_rune
      by (intro exI [of _ "(if b then [] else [(65533, replacementChar)]) @ vs"]) (auto simp: clean_runes_def)
  next
    case False
    then show ?thesis using vs Cons.prems [of r] by (intro exI [of _ "r # vs"]) (auto simp: clean_runes_def)
  qed
qed

lemma ToValidUTF8_clean: "clean_runes (runes (ToValidUTF8 s replacementChar))"
proof -
  obtain vs where "ToValidUTF8 s replacementChar = rune_bytes vs" "clean_runes vs"
    using valid_runs_clean [of "runes s" False] rune_prefix [of _ s] by (auto simp: ToValidUTF8_def)
  then show ?thesis using clean_runes_bytes [of vs "[]"] by simp
qed

lemma trim_space_clean:
  assumes "clean_runes (runes s)" "trim_space s \<noteq> []"
  shows "\<exists>r rs. runes (trim_space s) = r # rs \<and> \<not> space_rune r \<and> clean_runes (r # rs)"
proof -
  let ?m = "dropWhile space_rune (runes s)"
  let ?k = "rev (dropWhile space_rune (rev ?m))"
  have "set ?k \<subseteq> set (runes s)" by (auto dest!: set_dropWhileD)
  then have c: "clean_runes ?k" using assms(1) by (auto simp: clean_runes_def)
  have t: "trim_space s = rune_bytes ?k" by (simp add: trim_space_def)
  have k: "?k \<noteq> []" using assms(2) unfolding t by force
  obtain zs where z: "?m = ?k @ zs" by (metis dropWhile_eq_drop append_take_drop_id rev_append rev_rev_ident rev_drop rev_take take_append)
  then have "hd ?k = hd ?m" using k by (metis hd_append2)
  moreover have "?m \<noteq> []" using z k by (metis append_is_Nil_conv)
  ultimately have "\<not> space_rune (hd ?k)" by (metis (no_types, lifting) hd_dropWhile)
  moreover have "runes (trim_space s) = ?k" using clean_runes_bytes [OF c, of "[]"] by (simp add: t)
  ultimately show ?thesis using c k by (intro exI [of _ "hd ?k"] exI [of _ "tl ?k"]) simp
qed

lemma rune_short: "r \<in> set (runes s) \<Longrightarrow> length (snd r) \<le> 4"
proof (induction s rule: runes.induct)
  case (2 c s)
  have "snd (decode_rune (c # s)) \<le> 4" by (simp add: decode_rune_def Let_def split: list.splits)
  then show ?case using 2 by (auto simp: Let_def)
qed simp

lemma all_valid_clean: "list_all (\<lambda>r. \<not> invalid_rune r) (runes s) \<Longrightarrow> clean_runes (runes s)"
  using rune_prefix [of _ s] by (auto simp: clean_runes_def list_all_iff)

lemma dropWhile_rev_keep: "\<not> Q r \<Longrightarrow> \<exists>zs. rev (dropWhile Q (rev (xs @ r # ys))) = xs @ r # zs"
proof -
  assume "\<not> Q r"
  then have "dropWhile Q ((rev ys @ [r]) @ rev xs) = dropWhile Q (rev ys @ [r]) @ rev xs" by (intro dropWhile_append1 [of r]) simp_all
  moreover have "dropWhile Q (rev ys @ [r]) = dropWhile Q (rev ys) @ [r]"
  proof (cases "\<forall>x\<in>set ys. Q x")
    case True
    then show ?thesis using \<open>\<not> Q r\<close> dropWhile_append2 [of "rev ys" Q "[r]"] by (simp add: dropWhile_eq_Nil_conv [THEN iffD2])
  next
    case False
    then obtain x where "x \<in> set (rev ys)" "\<not> Q x" by auto
    then show ?thesis by (rule dropWhile_append1)
  qed
  ultimately show ?thesis by simp
qed

text \<open>Trimming keeps an ASCII prefix that starts with a non-space, together with a first non-space rune behind it.\<close>

lemma trim_space_keeps_rune:
  assumes "ascii P" "P \<noteq> []" "\<not> rune_is_space (byte (hd P))" "\<not> space_rune r" "clean_runes [r]"
  shows "\<exists>u. trim_space (P @ snd r @ t) = P @ snd r @ u"
proof -
  have "runes (snd r @ t) = r # runes t" using assms(5) by (simp add: clean_runes_def)
  then have d: "dropWhile space_rune (runes (P @ snd r @ t)) = map (\<lambda>c. (byte c, [c])) P @ r # runes t"
    using assms(1,2,3) by (cases P) (simp_all add: runes_ascii_append decode_rune_ascii)
  obtain zs where "rev (dropWhile space_rune (rev (map (\<lambda>c. (byte c, [c])) P @ r # runes t))) = map (\<lambda>c. (byte c, [c])) P @ r # zs"
    using dropWhile_rev_keep [of space_rune r] assms(4) by blast
  then show ?thesis unfolding trim_space_def d by (simp add: comp_def)
qed

lemma normalizeErrorCode_start: "\<exists>r rs. runes (normalizeErrorCode code) = r # rs \<and> \<not> space_rune r \<and> clean_runes (r # rs)"
proof (cases "trim_space (ToValidUTF8 code replacementChar) = []")
  case True
  have "runes ''Unknown'' = map (\<lambda>c. (byte c, [c])) ''Unknown''" by (rule runes_ascii) simp
  moreover have "clean_runes (runes ''Unknown'')" by (rule all_valid_clean) (simp add: decode_rune_ascii invalid_rune_def)
  ultimately show ?thesis using True by (simp add: normalizeErrorCode_def rune_is_space_def)
next
  case False
  then show ?thesis using trim_space_clean [OF ToValidUTF8_clean False] by (simp add: normalizeErrorCode_def)
qed

text \<open>Whatever code and message are given, the marker is the fatal prefix followed by a non-space, so SQL and Go both recognise it.\<close>

lemma fatal_marker_shape:
  "\<exists>r u. formatFatalCursorLastError code msg = fatalCursorPrefix @ snd r @ u \<and> \<not> space_rune r \<and> clean_runes [r]"
proof -
  obtain r rs where c: "runes (normalizeErrorCode code) = r # rs" "\<not> space_rune r" "clean_runes (r # rs)" using normalizeErrorCode_start by blast
  then have r: "clean_runes [r]" by (simp add: clean_runes_def)
  obtain m where f: "formatFatalCursorLastError code msg = normalizeLastError (fatalCursorPrefix @ normalizeErrorCode code @ m)"
    by (simp add: formatFatalCursorLastError_def Let_def)
  have q: "rune_bytes (r # rs) = normalizeErrorCode code" by (metis c(1) rune_bytes_runes)
  have "runes (normalizeErrorCode code @ m) = (r # rs) @ runes m" using clean_runes_bytes [OF c(3), of m] unfolding q .
  then have "ToValidUTF8 (normalizeErrorCode code @ m) replacementChar = snd r @ valid_runs replacementChar False (rs @ runes m)"
    using r by (simp add: ToValidUTF8_def clean_runes_def)
  then obtain x where v: "ToValidUTF8 (fatalCursorPrefix @ normalizeErrorCode code @ m) replacementChar = fatalCursorPrefix @ snd r @ x"
    by (simp add: ToValidUTF8_ascii_append [OF fatal_prefix_ascii(1,2)])
  obtain u where u: "trim_space (fatalCursorPrefix @ snd r @ x) = fatalCursorPrefix @ snd r @ u"
    using trim_space_keeps_rune [OF fatal_prefix_ascii(1-3) c(2) r] by blast
  have "length (snd r) \<le> 4" using rune_short [of r "normalizeErrorCode code"] c(1) by simp
  then have "take externalLabelLastErrorMaxLen (fatalCursorPrefix @ snd r @ u) = fatalCursorPrefix @ snd r @ take (externalLabelLastErrorMaxLen - 13 - length (snd r)) u"
    by (simp add: fatal_prefix_ascii(4) externalLabelLastErrorMaxLen_def)
  then have "\<exists>w. formatFatalCursorLastError code msg = fatalCursorPrefix @ snd r @ w"
    unfolding f normalizeLastError_def Let_def v u using fatal_prefix_ascii(2) by auto
  then show ?thesis using c(2) r by blast
qed

lemma fatal_marker_IsFatal: "IsFatalCursorError (Some (formatFatalCursorLastError code msg))"
proof -
  obtain r u where m: "formatFatalCursorLastError code msg = fatalCursorPrefix @ snd r @ u" "\<not> space_rune r" "clean_runes [r]" using fatal_marker_shape by blast
  obtain v where "trim_space (fatalCursorPrefix @ snd r @ u) = fatalCursorPrefix @ snd r @ v"
    using trim_space_keeps_rune [OF fatal_prefix_ascii(1-3) m(2,3)] by blast
  then show ?thesis by (simp add: IsFatalCursorError_def m(1))
qed

lemma fatal_like_prefix: "fatal_like D (fatalCursorPrefix @ u)"
proof -
  have "list_all2 (\<lambda>p r. p = CHR ''_'' \<or> map (like_fold D) r = [like_fold D p]) P (map (\<lambda>c. [c]) P)" for P by (induction P) auto
  then show ?thesis using fatal_prefix_ascii(1) by (simp add: fatal_like_def Let_def runes_ascii_append comp_def)
qed

lemma fatal_marker_recognised: "fatal_like D (formatFatalCursorLastError code msg)"
  using fatal_marker_shape [of code msg] fatal_like_prefix by metis

section \<open>Histories\<close>

datatype label_op =
    EnsureOp string
  | ConnectedOp string
  | ErrorOp string string
  | FatalOp string string string
  | PersistOp string int "label_input list"
  | LastSeqOp string int

fun run_label_op :: "label_env \<Rightarrow> label_op \<Rightarrow> unit dbm" where
  "run_label_op L (EnsureOp url) = db_bind (EnsureState url) (\<lambda>_. db_return ())"
| "run_label_op L (ConnectedOp url) = UpdateConnected url"
| "run_label_op L (ErrorOp url msg) = UpdateError url msg"
| "run_label_op L (FatalOp url code msg) = MarkFatalCursor url code msg"
| "run_label_op L (PersistOp url seq labels) = PersistEvent L url seq labels"
| "run_label_op L (LastSeqOp url seq) = UpdateLastSeq url seq"

text \<open>The databases a sequence of calls can lead to: any call, with any outcome, at any time and with any statements failing.\<close>

inductive label_reach :: "label_env \<Rightarrow> db \<Rightarrow> db \<Rightarrow> bool" for L d where
  Start: "label_reach L d d"
| Call: "label_reach L d d1 \<Longrightarrow> run_label_op L op d1 = (r, d2) \<Longrightarrow> label_reach L d d2"
| Environment: "label_reach L d d1 \<Longrightarrow> label_reach L d (d1\<lparr>db_now := t, db_faults := fs\<rparr>)"

inductive_cases label_reachE: "label_reach L d d'"

definition row_advances :: "dialect \<Rightarrow> label_state_row \<Rightarrow> label_state_row \<Rightarrow> bool" where
  "row_advances D r r' =
     (ls_url r' = ls_url r \<and> ls_labeler_did r' = ls_labeler_did r \<and> ls_created_at r' = ls_created_at r \<and> ls_last_seq r \<le> ls_last_seq r'
      \<and> (fatal_row D r \<longrightarrow> fatal_row D r' \<and> (IsFatal r \<longrightarrow> IsFatal r') \<and> ls_last_seq r' = ls_last_seq r \<and> ls_last_connected_at r' = ls_last_connected_at r
           \<and> ls_last_event_at r' = ls_last_event_at r))"

definition labels_grow :: "dialect \<Rightarrow> store \<Rightarrow> store \<Rightarrow> bool" where
  "labels_grow D s s' =
     (take (length (st_labels s)) (st_labels s') = st_labels s
      \<and> list_all (\<lambda>r. list_ex (row_advances D r) (st_label_states s')) (st_label_states s)
      \<and> st_records s' = st_records s \<and> st_versions s' = st_versions s \<and> st_actors s' = st_actors s \<and> st_activity s' = st_activity s)"

text \<open>Subscriptions and label keys are unique, identifiers increase, every label has its subscription, and a subscription's cursor is not behind the
  labels stored for it unless it is fatal.  \<open>open_event\<close> is the event a transaction is in the middle of.\<close>

definition covered :: "dialect \<Rightarrow> (string \<times> int) option \<Rightarrow> label_state_row list \<Rightarrow> label_row \<Rightarrow> bool" where
  "covered D open_event states l =
     list_ex (\<lambda>r. ls_url r = lb_subscription l
       \<and> (lb_seq l \<le> ls_last_seq r \<or> fatal_row D r \<or> open_event = Some (lb_subscription l, lb_seq l))) states"

definition opened :: "(string \<times> int) option \<Rightarrow> label_state_row list \<Rightarrow> bool" where
  "opened open_event states =
     (case open_event of None \<Rightarrow> True | Some (url, seq) \<Rightarrow> 0 \<le> seq \<and> list_ex (\<lambda>r. ls_url r = url) states)"

definition label_inv :: "dialect \<Rightarrow> (string \<times> int) option \<Rightarrow> store \<Rightarrow> bool" where
  "label_inv D open_event s =
     (distinct (map ls_url (st_label_states s)) \<and> distinct (map label_key (st_labels s)) \<and> sorted_wrt (<) (map lb_id (st_labels s))
      \<and> list_all (\<lambda>l. lb_id l < st_next_label s) (st_labels s)
      \<and> list_all (\<lambda>r. 0 \<le> ls_last_seq r) (st_label_states s)
      \<and> list_all (covered D open_event (st_label_states s)) (st_labels s)
      \<and> opened open_event (st_label_states s))"

lemma row_advances_refl: "row_advances D r r"
  by (simp add: row_advances_def)

lemma row_advances_trans: "row_advances D a b \<Longrightarrow> row_advances D b c \<Longrightarrow> row_advances D a c"
  by (simp add: row_advances_def)

lemma labels_grow_refl: "labels_grow D s s"
  by (auto simp: labels_grow_def list_all_iff list_ex_iff intro: row_advances_refl)

lemma labels_grow_trans:
  assumes "labels_grow D a b" "labels_grow D b c"
  shows "labels_grow D a c"
proof -
  obtain xs ys where "st_labels b = st_labels a @ xs" "st_labels c = st_labels b @ ys"
    using assms unfolding labels_grow_def by (metis append_take_drop_id)
  moreover have "\<exists>r'\<in>set (st_label_states c). row_advances D r r'" if "r \<in> set (st_label_states a)" for r
    using assms that unfolding labels_grow_def list_all_iff list_ex_iff by (meson row_advances_trans)
  ultimately show ?thesis using assms by (simp add: labels_grow_def list_all_iff list_ex_iff)
qed

text \<open>The effect of a successful program, and of a program that keeps the invariant whatever happens.\<close>

definition label_does :: "dialect \<Rightarrow> (string \<times> int) option \<Rightarrow> (string \<times> int) option \<Rightarrow> 'a dbm \<Rightarrow> bool" where
  "label_does D e e' m =
     (\<forall>d a d'. m d = (Ok a, d') \<longrightarrow> db_dialect d = D \<longrightarrow> label_inv D e (db_store d) \<longrightarrow>
        db_dialect d' = D \<and> label_inv D e' (db_store d') \<and> labels_grow D (db_store d) (db_store d'))"

definition label_keeps :: "dialect \<Rightarrow> 'a dbm \<Rightarrow> bool" where
  "label_keeps D m =
     (\<forall>d r d'. m d = (r, d') \<longrightarrow> db_dialect d = D \<longrightarrow> label_inv D None (db_store d) \<longrightarrow>
        db_dialect d' = D \<and> label_inv D None (db_store d') \<and> labels_grow D (db_store d) (db_store d'))"

lemma label_doesD:
  assumes "label_does D e e' m" "m d = (Ok a, d')" "db_dialect d = D" "label_inv D e (db_store d)"
  shows "db_dialect d' = D" "label_inv D e' (db_store d')" "labels_grow D (db_store d) (db_store d')"
  using assms unfolding label_does_def by simp_all

lemma label_keepsD:
  assumes "label_keeps D m" "m d = (r, d')" "db_dialect d = D" "label_inv D None (db_store d)"
  shows "db_dialect d' = D" "label_inv D None (db_store d')" "labels_grow D (db_store d) (db_store d')"
  using assms unfolding label_keeps_def by simp_all

lemma label_does_bind:
  assumes "label_does D e e1 m" "\<And>a. label_does D e1 e2 (f a)"
  shows "label_does D e e2 (db_bind m f)"
  unfolding label_does_def
proof (intro allI impI)
  fix d b d''
  assume "db_bind m f d = (Ok b, d'')" and D: "db_dialect d = D" "label_inv D e (db_store d)"
  then obtain a d' where m: "m d = (Ok a, d')" and f: "f a d' = (Ok b, d'')" by (auto simp: db_bind_Ok_iff)
  note 1 = label_doesD [OF assms(1) m D]
  note 2 = label_doesD [OF assms(2) f 1(1,2)]
  show "db_dialect d'' = D \<and> label_inv D e2 (db_store d'') \<and> labels_grow D (db_store d) (db_store d'')"
    using 2 labels_grow_trans [OF 1(3)] by simp
qed

lemma label_keeps_bind:
  assumes "label_keeps D m" "\<And>a. label_keeps D (f a)"
  shows "label_keeps D (db_bind m f)"
  unfolding label_keeps_def
proof (intro allI impI)
  fix d r d''
  assume b: "db_bind m f d = (r, d'')" and D: "db_dialect d = D" "label_inv D None (db_store d)"
  from b show "db_dialect d'' = D \<and> label_inv D None (db_store d'') \<and> labels_grow D (db_store d) (db_store d'')"
  proof (cases rule: db_bind_cases)
    case (First e)
    then show ?thesis using label_keepsD [OF assms(1) First(1) D] by simp
  next
    case (Second a d')
    note 1 = label_keepsD [OF assms(1) Second(1) D]
    note 2 = label_keepsD [OF assms(2) Second(2) 1(1,2)]
    show ?thesis using 2 labels_grow_trans [OF 1(3)] by simp
  qed
qed

lemma label_keeps_plain: "label_keeps D (db_return a)" "label_keeps D (db_fail e)" "label_keeps D (res_db x)"
  by (auto simp: label_keeps_def labels_grow_refl res_db_def split: sum.splits)

lemma label_keeps_query: "label_keeps D (db_exec (\<lambda>s. case q s of None \<Rightarrow> Err e | Some r \<Rightarrow> Ok (r, s)))"
  unfolding label_keeps_def
  by (auto elim!: db_exec_cases simp: labels_grow_refl same_env_def split: option.splits)

lemma label_does_wrap: "label_does D e e' m \<Longrightarrow> label_does D e e' (db_wrap p m)"
  by (simp add: label_does_def)

lemma label_does_each:
  assumes "\<And>x. label_does D e e (f x)"
  shows "label_does D e e (db_each f xs)"
proof (induction xs)
  case Nil
  then show ?case by (simp add: label_does_def labels_grow_refl)
next
  case (Cons x xs)
  have "db_each f (x # xs) d = db_bind (f x) (\<lambda>_. db_each f xs) d" for d by (simp add: db_bind_def)
  then have "db_each f (x # xs) = db_bind (f x) (\<lambda>_. db_each f xs)" by blast
  then show ?case using label_does_bind [OF assms Cons.IH] by simp
qed

lemma label_keeps_tx:
  assumes "label_does D None None body" "keeps_env body"
  shows "label_keeps D (db_tx bm cm body)"
  unfolding label_keeps_def
proof (intro allI impI)
  fix d r d'
  assume t: "db_tx bm cm body d = (r, d')" and D: "db_dialect d = D" "label_inv D None (db_store d)"
  show "db_dialect d' = D \<and> label_inv D None (db_store d') \<and> labels_grow D (db_store d) (db_store d')"
  proof (cases r)
    case (Inr a)
    then obtain d2 where "body (d\<lparr>db_faults := tl (db_faults d)\<rparr>) = (Ok a, d2)" "d' = d2\<lparr>db_faults := tl (db_faults d2)\<rparr>"
      using t by (auto elim: db_tx_OkD)
    then show ?thesis using label_doesD [OF assms(1), of "d\<lparr>db_faults := tl (db_faults d)\<rparr>" a d2] D by simp
  next
    case (Inl e)
    have "db_dialect d' = db_dialect d"
      using keeps_envD [OF keeps_env_tx [OF assms(2)] t] by (simp add: same_env_def)
    then show ?thesis using db_tx_ErrD [of bm cm body d e d'] t Inl D labels_grow_refl by simp
  qed
qed

text \<open>Statements on the subscription table: a conflict-free insert, and an update of rows that advances each of them.\<close>

lemma update_rows_inv:
  assumes "label_inv D e s" "\<And>r. P r \<Longrightarrow> row_advances D r (f r)"
  shows "label_inv D e (s\<lparr>st_label_states := tbl_update P f (st_label_states s)\<rparr>)"
    "labels_grow D s (s\<lparr>st_label_states := tbl_update P f (st_label_states s)\<rparr>)"
proof -
  define g where "g = (\<lambda>r. if P r then f r else r)"
  have g: "row_advances D r (g r)" for r using assms(2) row_advances_refl by (simp add: g_def)
  have t: "tbl_update P f t = map g t" for t by (simp add: tbl_update_def g_def)
  have u: "ls_url (g r) = ls_url r" "ls_last_seq r \<le> ls_last_seq (g r)" "fatal_row D r \<Longrightarrow> fatal_row D (g r)" for r
    using g [of r] unfolding row_advances_def by blast+
  have o: "ls_url \<circ> g = ls_url" using u(1) by auto
  have n: "0 \<le> ls_last_seq (g r)" if "0 \<le> ls_last_seq r" for r using u(2) [of r] that by linarith
  have c: "covered D e (map g t) l" if c: "covered D e t l" for t l
  proof -
    obtain r where r: "r \<in> set t" "ls_url r = lb_subscription l" "lb_seq l \<le> ls_last_seq r \<or> fatal_row D r \<or> e = Some (lb_subscription l, lb_seq l)"
      using c unfolding covered_def list_ex_iff by blast
    then have "lb_seq l \<le> ls_last_seq (g r) \<or> fatal_row D (g r) \<or> e = Some (lb_subscription l, lb_seq l)" using u(2,3) [of r] by linarith
    then show ?thesis using r u(1) [of r] by (auto simp: covered_def list_ex_iff)
  qed
  have p: "opened e (map g t)" if "opened e t" for t
    using that u(1) by (auto simp: opened_def list_ex_iff split: option.splits)
  show "label_inv D e (s\<lparr>st_label_states := tbl_update P f (st_label_states s)\<rparr>)"
    using assms(1) by (simp add: label_inv_def t o p list_all_iff c n)
  show "labels_grow D s (s\<lparr>st_label_states := tbl_update P f (st_label_states s)\<rparr>)"
    using g by (auto simp: labels_grow_def t list_all_iff list_ex_iff)
qed

lemma label_does_pure:
  assumes "\<And>now s. label_inv D e s \<Longrightarrow> label_inv D e' (g D now s) \<and> labels_grow D s (g D now s)"
  shows "label_does D e e' (\<lambda>d. db_exec (\<lambda>s. Ok ((), g (db_dialect d) (db_now d) s)) d)"
  unfolding label_does_def
proof (intro allI impI)
  fix d a d'
  assume x: "db_exec (\<lambda>s. Ok ((), g (db_dialect d) (db_now d) s)) d = (Ok a, d')" and D: "db_dialect d = D" "label_inv D e (db_store d)"
  from db_exec_pure_OkD [OF x] show "db_dialect d' = D \<and> label_inv D e' (db_store d') \<and> labels_grow D (db_store d) (db_store d')"
    using assms [OF D(2)] D(1) by (simp add: same_env_def)
qed

lemma label_keeps_pure:
  assumes "\<And>now s. label_inv D None s \<Longrightarrow> label_inv D None (g D now s) \<and> labels_grow D s (g D now s)"
  shows "label_keeps D (\<lambda>d. db_exec (\<lambda>s. Ok ((), g (db_dialect d) (db_now d) s)) d)"
  unfolding label_keeps_def
proof (intro allI impI)
  fix d r d'
  assume x: "db_exec (\<lambda>s. Ok ((), g (db_dialect d) (db_now d) s)) d = (r, d')" and D: "db_dialect d = D" "label_inv D None (db_store d)"
  from db_exec_pureD [OF x] show "db_dialect d' = D \<and> label_inv D None (db_store d') \<and> labels_grow D (db_store d) (db_store d')"
    using assms [OF D(2)] D labels_grow_refl by (auto simp: same_env_def)
qed

lemma label_does_update:
  assumes "\<And>r t. P D r \<Longrightarrow> row_advances D r (f t r)"
  shows "label_does D e e (update_state P f)" "label_keeps D (update_state P f)"
  unfolding update_state_def [abs_def]
  by (rule label_does_pure label_keeps_pure; intro conjI update_rows_inv; simp add: assms)+

lemma insert_state_inv:
  assumes "label_inv D e s" "opened (Some (url, seq)) (fresh_state url now # st_label_states s)" "e = None \<or> e = Some (url, seq)" "e' = e \<or> e' = Some (url, seq)"
  shows "label_inv D e' (s\<lparr>st_label_states := tbl_insert_ignore ls_url (fresh_state url now) (st_label_states s)\<rparr>)"
    "labels_grow D s (s\<lparr>st_label_states := tbl_insert_ignore ls_url (fresh_state url now) (st_label_states s)\<rparr>)"
proof -
  let ?t = "tbl_insert_ignore ls_url (fresh_state url now) (st_label_states s)"
  have sub: "set (st_label_states s) \<subseteq> set ?t" by (auto simp: tbl_insert_ignore_def)
  have url: "\<exists>r\<in>set ?t. ls_url r = url" by (auto simp: tbl_insert_ignore_def fresh_state_def)
  have "distinct (map ls_url ?t)" "list_all (\<lambda>r. 0 \<le> ls_last_seq r) ?t"
    using assms(1) by (auto simp: label_inv_def tbl_insert_ignore_def fresh_state_def)
  moreover have "covered D e' ?t l" if "covered D e (st_label_states s) l" for l
    using that sub assms(3,4) unfolding covered_def list_ex_iff by blast
  moreover have "opened e' ?t" using assms(1,2,3,4) url sub by (auto simp: label_inv_def opened_def list_ex_iff split: option.splits)
  ultimately show "label_inv D e' (s\<lparr>st_label_states := ?t\<rparr>)" using assms(1) by (simp add: label_inv_def list_all_iff)
  show "labels_grow D s (s\<lparr>st_label_states := ?t\<rparr>)"
    using sub row_advances_refl by (auto simp: labels_grow_def list_all_iff list_ex_iff)
qed

lemma fresh_state_opens: "0 \<le> seq \<Longrightarrow> opened (Some (url, seq)) (fresh_state url now # t)"
  by (simp add: opened_def fresh_state_def)

lemma label_does_insert_state: "0 \<le> seq \<Longrightarrow> label_does D None (Some (url, seq)) (insert_state url)"
  unfolding insert_state_def [abs_def]
  by (rule label_does_pure, intro conjI insert_state_inv [where e = None and seq = seq and e' = "Some (url, seq)"]) (simp_all add: fresh_state_opens)

lemma label_keeps_insert_state: "label_keeps D (insert_state url)"
  unfolding insert_state_def [abs_def]
  by (rule label_keeps_pure, intro conjI insert_state_inv [where e = None and seq = 0 and e' = None]) (simp_all add: fresh_state_opens)

text \<open>Inserting a label of the open event, and closing the event by advancing the cursor.\<close>

lemma insert_label_inv:
  assumes "label_inv D (Some (url, seq)) s"
  shows "label_inv D (Some (url, seq)) (insert_label D' (label_of_input url seq now raw label) s)"
    "labels_grow D s (insert_label D' (label_of_input url seq now raw label) s)"
proof -
  let ?row = "label_of_input url seq now raw label (st_next_label s)"
  have key: "label_key ?row = (url, seq, li_index label)" "lb_id ?row = st_next_label s" by (simp_all add: label_of_input_def)
  have c: "covered D (Some (url, seq)) (st_label_states s) ?row"
    using assms by (auto simp: label_inv_def covered_def opened_def list_ex_iff label_of_input_def)
  have lt: "lb_id l < st_next_label s" if "l \<in> set (st_labels s)" for l using assms that by (simp add: label_inv_def list_all_iff)
  have lt': "lb_id l < st_next_label s + 1" if "l \<in> set (st_labels s)" for l using lt [OF that] by simp
  show "label_inv D (Some (url, seq)) (insert_label D' (label_of_input url seq now raw label) s)"
    using assms c lt lt' unfolding label_inv_def insert_label_def Let_def
    by (cases D') (auto simp: key list_all_iff sorted_wrt_append simp del: prod.inject)
  show "labels_grow D s (insert_label D' (label_of_input url seq now raw label) s)"
    by (cases D') (auto simp: insert_label_def Let_def labels_grow_def list_all_iff list_ex_iff intro: row_advances_refl)
qed

lemma label_does_insert_label: "label_does D (Some (url, seq)) (Some (url, seq)) (insertExternalLabelTx url seq label)"
  unfolding insertExternalLabelTx_def [abs_def] label_does_def
  by (auto simp: res_map_Ok same_env_def insert_label_inv elim!: db_exec_cases)

lemma advance_row: "\<not> fatal_row D r \<Longrightarrow> row_advances D r (advance_state seq now r)"
  by (simp add: row_advances_def advance_state_def)

lemma close_event_inv:
  assumes "label_inv D (Some (url, seq)) s"
  shows "label_inv D None (s\<lparr>st_label_states := tbl_update (\<lambda>r. ls_url r = url \<and> \<not> fatal_row D r) (advance_state seq now) (st_label_states s)\<rparr>)"
proof -
  let ?t = "tbl_update (\<lambda>r. ls_url r = url \<and> \<not> fatal_row D r) (advance_state seq now) (st_label_states s)"
  have i: "label_inv D (Some (url, seq)) (s\<lparr>st_label_states := ?t\<rparr>)" by (rule update_rows_inv(1) [OF assms]) (simp add: advance_row)
  have "covered D None ?t l" if l: "covered D (Some (url, seq)) ?t l" for l
  proof -
    obtain r where r: "r \<in> set ?t" "ls_url r = lb_subscription l" "lb_seq l \<le> ls_last_seq r \<or> fatal_row D r \<or> url = lb_subscription l \<and> seq = lb_seq l"
      using l by (auto simp: covered_def list_ex_iff)
    obtain r0 where r0: "r = (if ls_url r0 = url \<and> \<not> fatal_row D r0 then advance_state seq now r0 else r0)"
      using r(1) unfolding tbl_update_def set_map by (elim imageE)
    have "fatal_row D r \<or> seq \<le> ls_last_seq r" if "url = ls_url r"
      using that unfolding r0 by (cases "fatal_row D r0"; cases "ls_url r0 = url") (simp_all add: advance_state_def)
    then have "lb_seq l \<le> ls_last_seq r \<or> fatal_row D r" using r(2,3) by metis
    then show ?thesis using r unfolding covered_def list_ex_iff by blast
  qed
  then show ?thesis using i by (simp add: label_inv_def list_all_iff opened_def)
qed

lemma label_does_close: "label_does D (Some (url, seq)) None (updateLastSeqTx url seq)"
  unfolding updateLastSeqTx_def update_state_def [abs_def]
  by (rule label_does_wrap, rule label_does_pure, intro conjI close_event_inv update_rows_inv(2)) (simp_all add: advance_row)

lemma res_db_env [db_env]: "keeps_env (res_db x)"
  by (cases x) (simp_all add: res_db_def db_env)

lemma label_env_keeps [db_env]:
  "keeps_env (insert_state url)" "keeps_env (update_state P f)" "keeps_env (insertExternalLabelTx url seq label)" "keeps_env (GetState url)"
  by (simp_all add: insert_state_def [abs_def] update_state_def [abs_def] insertExternalLabelTx_def [abs_def] GetState_def keeps_env_def db_wrap_eq db_exec_env
      split: prod.splits)

lemma persist_body_env: "keeps_env (db_bind (ensureStateTx url) (\<lambda>_. db_bind (db_each (insertExternalLabelTx url seq) labels) (\<lambda>_. updateLastSeqTx url seq)))"
  unfolding ensureStateTx_def updateLastSeqTx_def by (intro db_env)

lemma label_does_ensure: "0 \<le> seq \<Longrightarrow> label_does D None (Some (url, seq)) (ensureStateTx url)"
  unfolding ensureStateTx_def by (intro label_does_wrap label_does_insert_state)

lemma PersistEvent_keeps: "label_keeps D (PersistEvent L url seq labels)"
proof -
  have "label_keeps D (db_tx bm cm (db_bind (ensureStateTx url) (\<lambda>_. db_bind (db_each (insertExternalLabelTx url seq) labels) (\<lambda>_. updateLastSeqTx url seq))))"
    if "0 \<le> seq" for bm cm
    by (rule label_keeps_tx [OF label_does_bind [OF label_does_ensure [OF that] label_does_bind [OF label_does_each [OF label_does_insert_label] label_does_close]] persist_body_env])
  then show ?thesis by (auto simp: PersistEvent_def label_keeps_plain split: sum.splits)
qed

lemma cursor_body_env: "keeps_env (db_bind (ensureStateTx url) (\<lambda>_. updateLastSeqTx url seq))"
  unfolding ensureStateTx_def updateLastSeqTx_def by (intro db_env)

lemma UpdateLastSeq_keeps: "label_keeps D (UpdateLastSeq url seq)"
proof -
  have "label_keeps D (db_tx bm cm (db_bind (ensureStateTx url) (\<lambda>_. updateLastSeqTx url seq)))" if "0 \<le> seq" for bm cm
    by (rule label_keeps_tx [OF label_does_bind [OF label_does_ensure [OF that] label_does_close] cursor_body_env])
  then show ?thesis by (auto simp: UpdateLastSeq_def label_keeps_plain split: sum.splits)
qed

lemma EnsureState_keeps: "label_keeps D (EnsureState url)"
  unfolding EnsureState_def GetState_def
  by (intro label_keeps_bind label_keeps_plain label_keeps_insert_state label_keeps_query)

lemma label_op_keeps: "label_keeps D (run_label_op L op)"
proof (cases op)
  case (FatalOp url code msg)
  have "row_advances D r (r\<lparr>ls_last_error := Some (formatFatalCursorLastError code msg), ls_updated_at := now\<rparr>)" for r now
    by (simp add: row_advances_def fatal_row_def fatal_marker_recognised IsFatal_def fatal_marker_IsFatal)
  then show ?thesis unfolding FatalOp run_label_op.simps MarkFatalCursor_def
    by (intro label_keeps_bind EnsureState_keeps label_does_update)
qed (auto simp: UpdateConnected_def UpdateError_def row_advances_def
    intro!: label_keeps_bind EnsureState_keeps label_does_update label_keeps_plain PersistEvent_keeps UpdateLastSeq_keeps)

lemma label_reach_history:
  assumes "label_reach L d d'" "db_dialect d = D" "label_inv D None (db_store d)"
  shows "db_dialect d' = D \<and> label_inv D None (db_store d') \<and> labels_grow D (db_store d) (db_store d')"
  using assms
proof (induction rule: label_reach.induct)
  case Start
  then show ?case by (simp add: labels_grow_refl)
next
  case (Call d1 op r d2)
  then have 1: "db_dialect d1 = D" "label_inv D None (db_store d1)" "labels_grow D (db_store d) (db_store d1)" by simp_all
  note 2 = label_keepsD [OF label_op_keeps Call.hyps(2) 1(1,2)]
  show ?case using 2 labels_grow_trans [OF 1(3)] by simp
next
  case (Environment d1 t fs)
  then show ?case by simp
qed

section \<open>Persisting an event\<close>

definition label_content :: "label_row \<Rightarrow> label_input" where
  "label_content l = \<lparr>li_index = lb_index l, li_src = lb_src l, li_uri = lb_uri l, li_cid = lb_cid l, li_val = lb_val l, li_neg = lb_neg l,
     li_cts = lb_cts l, li_exp = lb_exp l, li_sig = lb_sig l, li_ver = lb_ver l, li_raw_json = null_string (lb_raw_json l)\<rparr>"

definition stored_input :: "(string \<Rightarrow> string option) \<Rightarrow> label_input \<Rightarrow> label_input" where
  "stored_input json_in i = i\<lparr>li_raw_json := (if li_raw_json i = [] then [] else null_string (json_in (li_raw_json i)))\<rparr>"

definition event_rows :: "string \<Rightarrow> int \<Rightarrow> label_row list \<Rightarrow> label_input list \<Rightarrow> label_input list" where
  "event_rows url seq stored labels = filter (\<lambda>i. (url, seq, li_index i) \<notin> label_key ` set stored) labels"

lemma insert_label_done:
  assumes "insertExternalLabelTx url seq i d = (Ok u, d')"
  shows "same_env d d' \<and> st_label_states (db_store d') = st_label_states (db_store d)
    \<and> (\<exists>ys. st_labels (db_store d') = st_labels (db_store d) @ ys \<and> list_all (\<lambda>l. lb_subscription l = url \<and> lb_seq l = seq) ys
         \<and> map label_content ys = map (stored_input (db_json_in d)) (event_rows url seq (st_labels (db_store d)) [i]))"
proof -
  from assms obtain raw where s: "same_env d d'" and raw: "raw_json_in (db_json_in d) (li_raw_json i) = Ok raw"
    and st: "db_store d' = insert_label (db_dialect d) (label_of_input url seq (db_now d) raw i) (db_store d)"
    by (auto simp: insertExternalLabelTx_def res_map_Ok elim!: db_exec_cases)
  have r: "null_string raw = (if li_raw_json i = [] then [] else null_string (db_json_in d (li_raw_json i)))"
    using raw by (auto simp: raw_json_in_def null_string_def split: if_splits option.splits)
  show ?thesis
  proof (cases "(url, seq, li_index i) \<in> label_key ` set (st_labels (db_store d))")
    case True
    then show ?thesis using s st by (cases "db_dialect d") (auto simp: insert_label_def Let_def label_of_input_def event_rows_def)
  next
    case False
    then show ?thesis using s st r
      by (auto simp: insert_label_def Let_def label_of_input_def event_rows_def label_content_def stored_input_def)
  qed
qed

lemma insert_labels_done:
  assumes "db_each (insertExternalLabelTx url seq) labels d = (Ok u, d')" "distinct (map li_index labels)"
  shows "same_env d d' \<and> st_label_states (db_store d') = st_label_states (db_store d)
    \<and> (\<exists>ys. st_labels (db_store d') = st_labels (db_store d) @ ys \<and> list_all (\<lambda>l. lb_subscription l = url \<and> lb_seq l = seq) ys
         \<and> map label_content ys = map (stored_input (db_json_in d)) (event_rows url seq (st_labels (db_store d)) labels))"
  using assms
proof (induction labels arbitrary: d)
  case Nil
  then show ?case by (simp add: event_rows_def)
next
  case (Cons i labels)
  obtain d1 where 1: "insertExternalLabelTx url seq i d = (Ok (), d1)" and 2: "db_each (insertExternalLabelTx url seq) labels d1 = (Ok u, d')"
    using Cons.prems(1) by (auto split: prod.splits sum.splits)
  from insert_label_done [OF 1] obtain ys where a: "same_env d d1" "st_label_states (db_store d1) = st_label_states (db_store d)"
    and ys: "st_labels (db_store d1) = st_labels (db_store d) @ ys" "list_all (\<lambda>l. lb_subscription l = url \<and> lb_seq l = seq) ys"
      "map label_content ys = map (stored_input (db_json_in d)) (event_rows url seq (st_labels (db_store d)) [i])" by blast
  from Cons.IH [OF 2] Cons.prems(2) obtain zs where b: "same_env d1 d'" "st_label_states (db_store d') = st_label_states (db_store d1)"
    and zs: "st_labels (db_store d') = st_labels (db_store d1) @ zs" "list_all (\<lambda>l. lb_subscription l = url \<and> lb_seq l = seq) zs"
      "map label_content zs = map (stored_input (db_json_in d1)) (event_rows url seq (st_labels (db_store d1)) labels)" by auto
  have "map li_index (map label_content ys) = map li_index (event_rows url seq (st_labels (db_store d)) [i])"
    unfolding ys(3) by (simp add: stored_input_def)
  then have idx: "lb_index l = li_index i" if "l \<in> set ys" for l
    using that by (auto simp: label_content_def event_rows_def comp_def split: if_splits)
  have "event_rows url seq (st_labels (db_store d) @ ys) labels = event_rows url seq (st_labels (db_store d)) labels"
    unfolding event_rows_def
  proof (rule filter_cong [OF refl])
    fix j
    assume "j \<in> set labels"
    then have "li_index j \<noteq> li_index i" using Cons.prems(2) by (auto simp: image_iff)
    then show "((url, seq, li_index j) \<notin> label_key ` set (st_labels (db_store d) @ ys)) = ((url, seq, li_index j) \<notin> label_key ` set (st_labels (db_store d)))"
      using idx by auto
  qed
  moreover have "event_rows url seq t (i # labels) = event_rows url seq t [i] @ event_rows url seq t labels" for t by (simp add: event_rows_def)
  moreover have "db_json_in d1 = db_json_in d" using a(1) by (simp add: same_env_def)
  ultimately show ?case using a b ys zs same_env_trans [OF a(1) b(1)]
    by (intro conjI exI [of _ "ys @ zs"]) simp_all
qed

definition current_state :: "store \<Rightarrow> string \<Rightarrow> int \<Rightarrow> label_state_row" where
  "current_state s url now = (case tbl_find ls_url url (st_label_states s) of None \<Rightarrow> fresh_state url now | Some r \<Rightarrow> r)"

lemma find_inserted_state:
  "tbl_find ls_url url (tbl_insert_ignore ls_url (fresh_state url now) t) = Some (case tbl_find ls_url url t of None \<Rightarrow> fresh_state url now | Some r \<Rightarrow> r)"
proof -
  have app: "tbl_find ls_url url (t @ [fresh_state url now]) = (case tbl_find ls_url url t of None \<Rightarrow> Some (fresh_state url now) | Some r \<Rightarrow> Some r)"
    by (induction t) (auto simp: tbl_find_def fresh_state_def)
  show ?thesis
  proof (cases "tbl_find ls_url url t")
    case None
    then have "url \<notin> ls_url ` set t" by (metis tbl_find_None)
    moreover have "ls_url (fresh_state url now) = url" by (simp add: fresh_state_def)
    ultimately show ?thesis using app None by (simp add: tbl_insert_ignore_def)
  next
    case (Some r)
    then have "url \<in> ls_url ` set t" using tbl_find_None [of ls_url url t] by auto
    then show ?thesis using Some by (simp add: tbl_insert_ignore_def fresh_state_def)
  qed
qed

lemma PersistEvent_outcome:
  assumes "PersistEvent L url seq labels d = (res, d')" "distinct (map li_index labels)"
  shows "(\<exists>e. res = Err e) \<and> db_store d' = db_store d
    \<or> res = Ok ()
      \<and> (\<exists>ys. st_labels (db_store d') = st_labels (db_store d) @ ys \<and> list_all (\<lambda>l. lb_subscription l = url \<and> lb_seq l = seq) ys
           \<and> map label_content ys = map (stored_input (db_json_in d)) (event_rows url seq (st_labels (db_store d)) labels))
      \<and> tbl_find ls_url url (st_label_states (db_store d')) =
          Some (let r = current_state (db_store d) url (db_now d) in
                if fatal_row (db_dialect d) r then r else advance_state seq (db_now d) r)"
proof (cases res)
  case (Inl e)
  then show ?thesis using assms(1) by (auto simp: PersistEvent_def db_tx_ErrD split: sum.splits if_splits)
next
  case (Inr u)
  let ?d0 = "d\<lparr>db_faults := tl (db_faults d)\<rparr>"
  obtain d3 where b: "db_bind (ensureStateTx url) (\<lambda>_. db_bind (db_each (insertExternalLabelTx url seq) labels) (\<lambda>_. updateLastSeqTx url seq)) ?d0 = (Ok (), d3)"
    and d': "db_store d' = db_store d3"
    using assms(1) Inr by (auto simp: PersistEvent_def split: sum.splits if_splits elim!: db_tx_OkD)
  then obtain d1 d2 where 1: "insert_state url ?d0 = (Ok (), d1)" and 2: "db_each (insertExternalLabelTx url seq) labels d1 = (Ok (), d2)"
    and 3: "update_state (\<lambda>D r. ls_url r = url \<and> \<not> fatal_row D r) (advance_state seq) d2 = (Ok (), d3)"
    by (auto simp: db_bind_Ok_iff ensureStateTx_def updateLastSeqTx_def)
  have s1: "st_label_states (db_store d1) = tbl_insert_ignore ls_url (fresh_state url (db_now d)) (st_label_states (db_store d))"
    "st_labels (db_store d1) = st_labels (db_store d)" "same_env d d1"
    using db_exec_pure_OkD [OF 1 [unfolded insert_state_def]] by simp_all
  from insert_labels_done [OF 2 assms(2)] obtain ys where s2: "same_env d1 d2" "st_label_states (db_store d2) = st_label_states (db_store d1)"
    "st_labels (db_store d2) = st_labels (db_store d1) @ ys" "list_all (\<lambda>l. lb_subscription l = url \<and> lb_seq l = seq) ys"
    "map label_content ys = map (stored_input (db_json_in d1)) (event_rows url seq (st_labels (db_store d1)) labels)" by blast
  have env: "db_json_in d1 = db_json_in d" "db_now d2 = db_now d" "db_dialect d2 = db_dialect d" using s1(3) s2(1) by (simp_all add: same_env_def)
  have s3: "st_label_states (db_store d3) = tbl_update (\<lambda>r. ls_url r = url \<and> \<not> fatal_row (db_dialect d) r) (advance_state seq (db_now d)) (st_label_states (db_store d2))"
    "st_labels (db_store d3) = st_labels (db_store d2)"
    using db_exec_pure_OkD [OF 3 [unfolded update_state_def]] env by simp_all
  have "tbl_find ls_url url (st_label_states (db_store d3)) =
      map_option (\<lambda>r. if ls_url r = url \<and> \<not> fatal_row (db_dialect d) r then advance_state seq (db_now d) r else r) (tbl_find ls_url url (st_label_states (db_store d2)))"
    unfolding s3 by (rule tbl_find_update) (simp add: advance_state_def)
  moreover have "tbl_find ls_url url (st_label_states (db_store d2)) = Some (current_state (db_store d) url (db_now d))"
    unfolding s2 s1 find_inserted_state by (simp add: current_state_def)
  moreover have "ls_url (current_state (db_store d) url (db_now d)) = url"
    by (auto simp: current_state_def fresh_state_def split: option.splits dest: tbl_find_Some)
  ultimately have "tbl_find ls_url url (st_label_states (db_store d')) =
          Some (let r = current_state (db_store d) url (db_now d) in
                if fatal_row (db_dialect d) r then r else advance_state seq (db_now d) r)" by (simp add: d' Let_def)
  then show ?thesis using Inr s1 s2 s3 env d' by auto
qed

section \<open>Properties\<close>

text \<open>C9: however the repository's calls are ordered, whatever they are called with and whichever statements fail, subscription rows stay unique, label
  identifiers and keys stay unique, every label keeps its subscription, a cursor never moves backwards nor falls behind the labels stored for it (unless it
  is fatal), labels are only ever appended, a fatal subscription stays fatal with its cursor and timestamps frozen, and no other table is touched.\<close>

theorem label_history:
  assumes "label_reach L d d'" "label_inv (db_dialect d) None (db_store d)"
  shows "label_inv (db_dialect d) None (db_store d') \<and> labels_grow (db_dialect d) (db_store d) (db_store d')"
  using label_reach_history [OF assms(1) refl assms(2)] by simp

text \<open>C10: storing an event is all or nothing.  On success exactly the labels of the event that were not stored yet have been appended, with the contents the
  labeler sent, so a redelivered event adds nothing, and the cursor has moved in the same transaction to the event's sequence number if that is later, with
  the error cleared; a fatal subscription keeps its row.\<close>

theorem PersistEvent_exact:
  assumes "PersistEvent L url seq labels d = (res, d')" "distinct (map li_index labels)"
  shows "(\<exists>e. res = Err e) \<and> db_store d' = db_store d
    \<or> res = Ok ()
      \<and> (\<exists>ys. st_labels (db_store d') = st_labels (db_store d) @ ys \<and> list_all (\<lambda>l. lb_subscription l = url \<and> lb_seq l = seq) ys
           \<and> map label_content ys = map (stored_input (db_json_in d)) (event_rows url seq (st_labels (db_store d)) labels))
      \<and> tbl_find ls_url url (st_label_states (db_store d')) =
          Some (let r = current_state (db_store d) url (db_now d) in
                if fatal_row (db_dialect d) r then r else advance_state seq (db_now d) r)"
  using PersistEvent_outcome [OF assms] .

section \<open>Witnesses\<close>

definition sample_label_env :: label_env where
  "sample_label_env = \<lparr>le_parse = (\<lambda>_. None), le_sql_time = (\<lambda>s. Some (int (length s))), le_unicode = ascii_unicode\<rparr>"

definition sample_input :: "int \<Rightarrow> bool \<Rightarrow> label_input" where
  "sample_input i neg = \<lparr>li_index = i, li_src = ''s'', li_uri = ''u'', li_cid = None, li_val = ''v'', li_neg = neg, li_cts = ''1'', li_exp = None,
     li_sig = None, li_ver = None, li_raw_json = []\<rparr>"

definition sample_label_db :: db where
  "sample_label_db = snd (PersistEvent sample_label_env ''w'' 5 [sample_input 0 True, sample_input 1 False] (sqlite_db empty_store 7))"

definition sample_fatal_db :: db where
  "sample_fatal_db = snd (MarkFatalCursor ''w'' ''X'' ''m'' sample_label_db)"

lemma empty_label_inv: "label_inv D None empty_store"
  by (simp add: label_inv_def empty_store_def opened_def)

lemma sample_label_reach: "label_reach L (sqlite_db empty_store 7) (snd (run_label_op L op (sqlite_db empty_store 7)))"
  by (rule label_reach.Call [OF label_reach.Start surjective_pairing])

lemma sample_fatal_reach: "label_reach sample_label_env (sqlite_db empty_store 7) sample_fatal_db"
proof -
  have "label_reach sample_label_env (sqlite_db empty_store 7) sample_label_db"
    using sample_label_reach [of sample_label_env "PersistOp ''w'' 5 [sample_input 0 True, sample_input 1 False]"] by (simp add: sample_label_db_def)
  from label_reach.Call [OF this surjective_pairing, of "FatalOp ''w'' ''X'' ''m''"] show ?thesis by (simp add: sample_fatal_db_def)
qed

lemma trim_space_ascii:
  assumes "ascii s" "s \<noteq> []" "\<not> rune_is_space (byte (hd s))" "\<not> rune_is_space (byte (last s))"
  shows "trim_space s = s"
proof -
  have "dropWhile space_rune (map (\<lambda>c. (byte c, [c])) s) = map (\<lambda>c. (byte c, [c])) s" using assms(2,3) by (cases s) simp_all
  moreover have "rev (map (\<lambda>c. (byte c, [c])) s) \<noteq> []" "\<not> space_rune (hd (rev (map (\<lambda>c. (byte c, [c])) s)))" using assms(2,4) by (simp_all add: hd_rev last_map)
  then have "dropWhile space_rune (rev (map (\<lambda>c. (byte c, [c])) s)) = rev (map (\<lambda>c. (byte c, [c])) s)" by (metis (no_types, lifting) dropWhile_eq_self_iff)
  ultimately show ?thesis using assms(1) by (simp add: trim_space_def runes_ascii comp_def)
qed

lemma ToValidUTF8_ascii: "ascii s \<Longrightarrow> ToValidUTF8 s repl = s"
proof (cases "s = []")
  case False
  assume "ascii s"
  from ToValidUTF8_ascii_append [OF this False, of "[]"] show ?thesis by (simp add: ToValidUTF8_def)
qed (simp add: ToValidUTF8_def)

lemma sample_label_ok: "PersistEvent sample_label_env ''w'' 5 [sample_input 0 True, sample_input 1 False] (sqlite_db empty_store 7) = (Ok (), sample_label_db)"
  unfolding sample_label_db_def
  by (simp add: PersistEvent_def validateSubscriptionURL_def validateExternalLabelInputs_def trim_space_ascii rune_is_space_def sample_input_def sample_label_env_def
      db_tx_def sqlite_db_def ensureStateTx_def insert_state_def db_exec_def db_bind_def db_wrap_def insertExternalLabelTx_def raw_json_in_def res_map_def
      updateLastSeqTx_def update_state_def Let_def db_nop_def)

theorem PersistEvent_exact_witness:
  "\<exists>ys. st_labels (db_store sample_label_db) = ys \<and> map label_content ys = [sample_input 0 True, sample_input 1 False]
     \<and> map_option ls_last_seq (tbl_find ls_url ''w'' (st_label_states (db_store sample_label_db))) = Some 5"
  using PersistEvent_exact [OF sample_label_ok]
  by (auto simp: sqlite_db_def empty_store_def sample_input_def event_rows_def stored_input_def current_state_def tbl_find_def fresh_state_def
      fatal_row_def advance_state_def Let_def)

lemmas sample_db_simps = trim_space_ascii rune_is_space_def db_exec_def db_bind_def db_wrap_def res_map_def Let_def db_nop_def

lemma sample_label_store:
  "sample_label_db = sqlite_db (empty_store\<lparr>
     st_label_states := [advance_state 5 7 (fresh_state ''w'' 7)],
     st_labels := [label_of_input ''w'' 5 7 None (sample_input 0 True) 1, label_of_input ''w'' 5 7 None (sample_input 1 False) 2],
     st_next_label := 3\<rparr>) 7"
  unfolding sample_label_db_def
  by (simp add: sample_db_simps PersistEvent_def validateSubscriptionURL_def validateExternalLabelInputs_def sample_input_def sample_label_env_def
      db_tx_def sqlite_db_def ensureStateTx_def insert_state_def insertExternalLabelTx_def raw_json_in_def insert_label_def label_of_input_def
      updateLastSeqTx_def update_state_def empty_store_def tbl_insert_ignore_def tbl_update_def fresh_state_def advance_state_def fatal_row_def)

lemma sample_marker: "formatFatalCursorLastError ''X'' ''m'' = ''FATAL_CURSOR X: m''"
proof -
  have "normalizeLastError ''m'' = ''m''" "normalizeLastError ''FATAL_CURSOR X: m'' = ''FATAL_CURSOR X: m''"
    by (simp_all add: normalizeLastError_def Let_def ToValidUTF8_ascii trim_space_ascii rune_is_space_def externalLabelLastErrorMaxLen_def)
  then show ?thesis
    by (simp add: formatFatalCursorLastError_def normalizeErrorCode_def Let_def ToValidUTF8_ascii trim_space_ascii rune_is_space_def
        fatalCursorPrefix_def trim_prefix_def has_prefix_def)
qed

lemma sample_fatal_store:
  "st_labels (db_store sample_fatal_db) = st_labels (db_store sample_label_db)"
  "map ls_last_error (st_label_states (db_store sample_fatal_db)) = [Some ''FATAL_CURSOR X: m'']"
  unfolding sample_fatal_db_def sample_label_store
  by (simp_all add: sample_db_simps MarkFatalCursor_def EnsureState_def validateSubscriptionURL_def res_db_def db_return_def
      sqlite_db_def insert_state_def GetState_def update_state_def empty_store_def tbl_insert_ignore_def tbl_update_def tbl_find_def fresh_state_def advance_state_def sample_marker)

theorem label_history_witness:
  "label_inv SQLite None (db_store sample_fatal_db) \<and> labels_grow SQLite empty_store (db_store sample_fatal_db)
    \<and> map lb_id (st_labels (db_store sample_fatal_db)) = [1, 2]
    \<and> map ls_last_error (st_label_states (db_store sample_fatal_db)) = [Some ''FATAL_CURSOR X: m'']"
  using label_history [OF sample_fatal_reach] empty_label_inv sample_fatal_store
  by (simp add: sqlite_db_def sample_label_store empty_store_def label_of_input_def)

end
