(* ===== verification/Label_Lookup.thy ===== *)
theory Label_Lookup
  imports External_Labels
begin

text \<open>
  The lookups of \<open>ExternalLabelsRepository\<close>: the labels of an event, and the labels of many subjects at once (\<open>GetBySubjects\<close>, in batches of 250 subjects),
  with the SQL predicate for active labels that record filters use as well.
\<close>

section \<open>Queries\<close>

definition read_label :: "label_row \<Rightarrow> label_row" where
  "read_label l = l\<lparr>lb_raw_json := Some (null_string (lb_raw_json l))\<rparr>"

definition ListLabelsByEvent :: "string \<Rightarrow> int \<Rightarrow> label_row list dbm" where
  "ListLabelsByEvent url seq =
     db_exec (\<lambda>s. Ok (map read_label (sort_key lb_index (filter (\<lambda>l. lb_subscription l = url \<and> lb_seq l = seq) (st_labels s))), s))"

definition CountLabels :: "string \<Rightarrow> int dbm" where
  "CountLabels url = db_exec (\<lambda>s. Ok (tbl_affected (\<lambda>l. lb_subscription l = url) (st_labels s), s))"

record label_subject_ref =
  lsub_uri :: string
  lsub_cid :: string

definition subject_key :: "label_subject_ref \<Rightarrow> string" where
  "subject_key s = (if lsub_cid s = [] then lsub_uri s else lsub_uri s @ [CHR 0x00] @ lsub_cid s)"

record label_query =
  lq_sources :: "string list"
  lq_values :: "string list"
  lq_active_only :: bool

definition validateExternalLabelString :: "string \<Rightarrow> string \<Rightarrow> unit res" where
  "validateExternalLabelString name v =
     (if trim_space v = [] then Err (name @ '' must not be empty'')
      else if v \<noteq> trim_space v then Err (name @ '' must not have leading or trailing whitespace'')
      else if CHR 0x00 \<in> set v then Err (name @ '' must not contain NUL bytes'')
      else Ok ())"

fun normalize_from :: "nat \<Rightarrow> string list \<Rightarrow> label_subject_ref list \<Rightarrow> label_subject_ref list res" where
  "normalize_from i seen [] = Ok []"
| "normalize_from i seen (s # ss) =
     (case validateExternalLabelString (''external label subject '' @ show_nat i @ '' URI'') (lsub_uri s) of
        Inl e \<Rightarrow> Err e
      | Inr _ \<Rightarrow>
          (case (if lsub_cid s \<noteq> [] then validateExternalLabelString (''external label subject '' @ show_nat i @ '' CID'') (lsub_cid s) else Ok ()) of
             Inl e \<Rightarrow> Err e
           | Inr _ \<Rightarrow>
               if subject_key s \<in> set seen then normalize_from (Suc i) seen ss
               else res_map (\<lambda>ns. s # ns) (normalize_from (Suc i) (subject_key s # seen) ss)))"

definition normalizeLabelSubjects :: "label_subject_ref list \<Rightarrow> label_subject_ref list res" where
  "normalizeLabelSubjects subjects = (if length subjects = 0 then Ok [] else normalize_from 0 [] subjects)"

fun validate_strings_from :: "string \<Rightarrow> nat \<Rightarrow> string list \<Rightarrow> unit res" where
  "validate_strings_from what i [] = Ok ()"
| "validate_strings_from what i (v # vs) =
     (case validateExternalLabelString (what @ show_nat i) v of Inl e \<Rightarrow> Err e | Inr _ \<Rightarrow> validate_strings_from what (Suc i) vs)"

definition validateExternalLabelFilter :: "label_query \<Rightarrow> unit res" where
  "validateExternalLabelFilter f =
     (if length (lq_sources f) > MaxINListSize then Err (''external label source filter exceeds maximum of '' @ show_nat MaxINListSize @ '' values'')
      else case validate_strings_from ''external label source filter '' 0 (lq_sources f) of
        Inl e \<Rightarrow> Err e
      | Inr _ \<Rightarrow>
          if length (lq_values f) > MaxINListSize then Err (''external label value filter exceeds maximum of '' @ show_nat MaxINListSize @ '' values'')
          else validate_strings_from ''external label value filter '' 0 (lq_values f))"

text \<open>A comparison of timestamps with NULL is not true.\<close>

definition time_rel :: "(int \<Rightarrow> int \<Rightarrow> bool) \<Rightarrow> int option \<Rightarrow> int option \<Rightarrow> bool" where
  "time_rel R a b = (case a of None \<Rightarrow> False | Some x \<Rightarrow> (case b of None \<Rightarrow> False | Some y \<Rightarrow> R x y))"

definition supersedes :: "label_env \<Rightarrow> label_row \<Rightarrow> label_row \<Rightarrow> bool" where
  "supersedes L newer l =
     (lb_src newer = lb_src l \<and> lb_uri newer = lb_uri l \<and> lb_val newer = lb_val l \<and> lb_cid newer = lb_cid l
      \<and> (time_rel (>) (le_sql_time L (lb_cts newer)) (le_sql_time L (lb_cts l))
         \<or> time_rel (=) (le_sql_time L (lb_cts newer)) (le_sql_time L (lb_cts l)) \<and> lb_id newer > lb_id l))"

definition externalLabelActivePredicate :: "label_env \<Rightarrow> int \<Rightarrow> label_row list \<Rightarrow> label_row \<Rightarrow> bool" where
  "externalLabelActivePredicate L now labels l =
     (\<not> lb_neg l
      \<and> (case lb_exp l of None \<Rightarrow> True | Some x \<Rightarrow> time_rel (>) (le_sql_time L x) (Some now))
      \<and> \<not> list_ex (\<lambda>newer. supersedes L newer l) labels)"

text \<open>The rows the batch query joins to one requested subject, newest first; SQLite sorts a NULL timestamp last in descending order.\<close>

definition subject_rows :: "label_env \<Rightarrow> int \<Rightarrow> label_query \<Rightarrow> label_row list \<Rightarrow> label_subject_ref \<Rightarrow> label_row list" where
  "subject_rows L now f labels s =
     filter (\<lambda>l. lb_uri l = lsub_uri s
       \<and> (lsub_cid s = [] \<or> lb_cid l = None \<or> lb_cid l = Some (lsub_cid s))
       \<and> (lq_sources f = [] \<or> lb_src l \<in> set (lq_sources f))
       \<and> (lq_values f = [] \<or> lb_val l \<in> set (lq_values f))
       \<and> (lq_active_only f \<longrightarrow> externalLabelActivePredicate L now labels l)) labels"

definition newest_first :: "label_env \<Rightarrow> label_row \<Rightarrow> int \<times> int \<times> int" where
  "newest_first L l = (case le_sql_time L (lb_cts l) of Some t \<Rightarrow> (0, - t, - lb_id l) | None \<Rightarrow> (1, 0, - lb_id l))"

definition batch_rows :: "label_env \<Rightarrow> int \<Rightarrow> label_query \<Rightarrow> label_row list \<Rightarrow> label_subject_ref list \<Rightarrow> (nat \<times> label_row) list" where
  "batch_rows L now f labels subjects =
     concat (map (\<lambda>(i, s). map (\<lambda>l. (i, l)) (sort_key (newest_first L) (subject_rows L now f labels s))) (enumerate 0 subjects))"

definition append_label :: "label_subject_ref list \<Rightarrow> (string \<times> label_row list) list \<Rightarrow> nat \<times> label_row \<Rightarrow> (string \<times> label_row list) list" where
  "append_label subjects m row =
     (let k = subject_key (subjects ! fst row) in
      map_put k ((case map_of m k of None \<Rightarrow> [] | Some ls \<Rightarrow> ls) @ [read_label (snd row)]) m)"

definition nil_entries :: "label_subject_ref list \<Rightarrow> (string \<times> label_row list) list" where
  "nil_entries subjects = foldl (\<lambda>m s. map_put (subject_key s) [] m) [] subjects"

definition getBySubjectsBatch :: "label_env \<Rightarrow> label_query \<Rightarrow> label_subject_ref list \<Rightarrow> (string \<times> label_row list) list dbm" where
  "getBySubjectsBatch L f subjects d =
     (if length subjects = 0 then (Ok (nil_entries subjects), d)
      else db_wrap ''get external labels by subjects: ''
        (db_exec (\<lambda>s. Ok (foldl (append_label subjects) (nil_entries subjects) (batch_rows L (db_now d) f (st_labels s) subjects), s))) d)"

definition merge_labels :: "(string \<times> label_row list) list \<Rightarrow> (string \<times> label_row list) list \<Rightarrow> (string \<times> label_row list) list" where
  "merge_labels m batch = foldl (\<lambda>m (k, ls). map_put k ((case map_of m k of None \<Rightarrow> [] | Some xs \<Rightarrow> xs) @ ls) m) m batch"

fun subject_batches :: "label_env \<Rightarrow> label_query \<Rightarrow> (string \<times> label_row list) list \<Rightarrow> label_subject_ref list list
    \<Rightarrow> (string \<times> label_row list) list dbm" where
  "subject_batches L f m [] = db_return m"
| "subject_batches L f m (b # bs) = db_bind (getBySubjectsBatch L f b) (\<lambda>batch. subject_batches L f (merge_labels m batch) bs)"

definition GetBySubjects :: "label_env \<Rightarrow> label_subject_ref list \<Rightarrow> label_query \<Rightarrow> (string \<times> label_row list) list dbm" where
  "GetBySubjects L subjects f =
     (case normalizeLabelSubjects subjects of
        Inl e \<Rightarrow> db_fail e
      | Inr ns \<Rightarrow>
          (case validateExternalLabelFilter f of
             Inl e \<Rightarrow> db_fail e
           | Inr _ \<Rightarrow> subject_batches L f (nil_entries ns) (chunks externalLabelSubjectBatchSize ns)))"

section \<open>Labels by subject\<close>

lemma append_labels_map:
  assumes "map_of m k = Some ls"
  shows "map_of (foldl (append_label subjects) m rows) k = Some (ls @ map (read_label \<circ> snd) (filter (\<lambda>r. subject_key (subjects ! fst r) = k) rows))"
  using assms
proof (induction rows arbitrary: m ls)
  case (Cons row rows)
  let ?ls = "if subject_key (subjects ! fst row) = k then ls @ [read_label (snd row)] else ls"
  have "map_of (append_label subjects m row) k = Some ?ls" using Cons.prems by (auto simp: append_label_def Let_def)
  from Cons.IH [OF this] show ?case by simp
qed simp

lemma nil_entries_map: "map_of (nil_entries ss) k = (if k \<in> subject_key ` set ss then Some [] else None)"
proof -
  have "map_of (foldl (\<lambda>m s. map_put (subject_key s) ([] :: label_row list) m) m ss) k = (if k \<in> subject_key ` set ss then Some [] else map_of m k)" for m
    by (induction ss arbitrary: m) auto
  then show ?thesis by (simp add: nil_entries_def)
qed

definition rows_for :: "label_env \<Rightarrow> int \<Rightarrow> label_query \<Rightarrow> label_row list \<Rightarrow> label_subject_ref list \<Rightarrow> string \<Rightarrow> label_row list" where
  "rows_for L now f labels subjects k =
     concat (map (\<lambda>s. if subject_key s = k then map read_label (sort_key (newest_first L) (subject_rows L now f labels s)) else []) subjects)"

lemma filter_pairs: "filter (\<lambda>r. Q (fst r)) (map (Pair i) xs) = (if Q i then map (Pair i) xs else [])"
  by (induction xs) auto

lemma batch_rows_for:
  "map (read_label \<circ> snd) (filter (\<lambda>r. subject_key (subjects ! fst r) = k) (batch_rows L now f labels subjects)) = rows_for L now f labels subjects k"
proof -
  let ?rows = "\<lambda>s. sort_key (newest_first L) (subject_rows L now f labels s)"
  have "map (read_label \<circ> snd) (filter (\<lambda>r. subject_key ((pre @ ss) ! fst r) = k)
      (concat (map (\<lambda>(i, s). map (\<lambda>l. (i, l)) (?rows s)) (enumerate (length pre) ss)))) = rows_for L now f labels ss k" for pre ss
  proof (induction ss arbitrary: pre)
    case Nil
    then show ?case by (simp add: rows_for_def)
  next
    case (Cons s ss)
    have "filter (\<lambda>r. subject_key ((pre @ s # ss) ! fst r) = k) (map (Pair (length pre)) (?rows s))
        = (if subject_key s = k then map (Pair (length pre)) (?rows s) else [])"
      using filter_pairs [of "\<lambda>i. subject_key ((pre @ s # ss) ! i) = k" "length pre"] by simp
    moreover have "rows_for L now f labels (s # ss) k = (if subject_key s = k then map read_label (?rows s) else []) @ rows_for L now f labels ss k"
      by (simp add: rows_for_def)
    ultimately show ?case using Cons.IH [of "pre @ [s]"] by (simp add: comp_def)
  qed
  from this [of "[]" subjects] show ?thesis by (simp add: batch_rows_def)
qed

lemma batch_result:
  assumes "getBySubjectsBatch L f b d = (Ok m, d')"
  shows "same_env d d' \<and> db_store d' = db_store d \<and> map_ok m
    \<and> (\<forall>k. map_of m k = (if k \<in> subject_key ` set b then Some (rows_for L (db_now d) f (st_labels (db_store d)) b k) else None))"
proof -
  let ?labels = "st_labels (db_store d)"
  have m: "m = foldl (append_label b) (nil_entries b) (batch_rows L (db_now d) f ?labels b)" "same_env d d'" "db_store d' = db_store d"
  proof -
    have "batch_rows L (db_now d) f ?labels [] = []" by (simp add: batch_rows_def)
    then show "m = foldl (append_label b) (nil_entries b) (batch_rows L (db_now d) f ?labels b)" "same_env d d'" "db_store d' = db_store d"
      using assms by (auto simp: getBySubjectsBatch_def split: if_splits dest!: db_exec_pure_OkD)
  qed
  have fold_ok: "map_ok (foldl (append_label b) n rows)" if "map_ok n" for n rows
    using that by (induction rows arbitrary: n) (auto simp: append_label_def Let_def)
  have "map_ok (foldl (\<lambda>m s. map_put (subject_key s) ([] :: label_row list) m) n ss)" if "map_ok n" for n ss
    using that by (induction ss arbitrary: n) auto
  then have "map_ok m" unfolding m(1) nil_entries_def by (intro fold_ok) simp
  moreover have "map_of m k = Some (rows_for L (db_now d) f ?labels b k)" if "k \<in> subject_key ` set b" for k
    using append_labels_map [of "nil_entries b" k "[]" b] that unfolding m(1) by (simp add: nil_entries_map batch_rows_for)
  moreover have "map_of m k = None" if "k \<notin> subject_key ` set b" for k
  proof -
    have "r \<in> set (batch_rows L (db_now d) f ?labels b) \<Longrightarrow> fst r < length b" for r
      by (auto simp: batch_rows_def enumerate_eq_zip dest: set_zip_leftD)
    then have rows: "subject_key (b ! fst r) \<noteq> k" if "r \<in> set (batch_rows L (db_now d) f ?labels b)" for r
      using that \<open>k \<notin> subject_key ` set b\<close> by (metis image_eqI nth_mem)
    have "map_of (foldl (append_label b) n rows) k = None" if "map_of n k = None" "\<And>r. r \<in> set rows \<Longrightarrow> subject_key (b ! fst r) \<noteq> k" for n rows
      using that
    proof (induction rows arbitrary: n)
      case (Cons row rows)
      have "subject_key (b ! fst row) \<noteq> k" using Cons.prems(2) by simp
      then have "map_of (append_label b n row) k = None" using Cons.prems(1) by (simp add: append_label_def Let_def)
      then show ?case using Cons.IH Cons.prems(2) by simp
    qed simp
    then show ?thesis using that rows unfolding m(1) by (simp add: nil_entries_map)
  qed
  ultimately show ?thesis using m by simp
qed

lemma merge_labels_map:
  assumes "map_ok batch" "map_of m k = Some ls"
  shows "map_of (merge_labels m batch) k = Some (ls @ (case map_of batch k of None \<Rightarrow> [] | Some xs \<Rightarrow> xs))"
  using assms unfolding merge_labels_def
proof (induction batch arbitrary: m ls)
  case (Cons p batch)
  obtain j xs where p: "p = (j, xs)" by (cases p)
  have ok: "map_ok batch" and j: "map_of batch j = None" using Cons.prems(1) p by (auto simp: map_ok_def map_of_eq_None_iff)
  let ?m = "map_put j ((case map_of m j of None \<Rightarrow> [] | Some xs \<Rightarrow> xs) @ xs) m"
  show ?case
  proof (cases "j = k")
    case True
    then have "map_of ?m k = Some (ls @ xs)" using Cons.prems(2) by simp
    from Cons.IH [OF ok this] show ?thesis using j True p by simp
  next
    case False
    then have "map_of ?m k = Some ls" using Cons.prems(2) by simp
    from Cons.IH [OF ok this] show ?thesis using False p by simp
  qed
qed simp

lemma batches_result:
  assumes "subject_batches L f m bs d = (Ok m', d')" "map_of m k = Some ls"
  shows "db_store d' = db_store d \<and> map_of m' k = Some (ls @ rows_for L (db_now d) f (st_labels (db_store d)) (concat bs) k)"
  using assms
proof (induction bs arbitrary: m d ls)
  case Nil
  then show ?case by (simp add: rows_for_def)
next
  case (Cons b bs)
  obtain batch d1 where 1: "getBySubjectsBatch L f b d = (Ok batch, d1)" and 2: "subject_batches L f (merge_labels m batch) bs d1 = (Ok m', d')"
    using Cons.prems(1) by (auto simp: db_bind_Ok_iff)
  note r = batch_result [OF 1]
  have env: "db_now d1 = db_now d" using r by (simp add: same_env_def)
  let ?R = "\<lambda>ss. rows_for L (db_now d) f (st_labels (db_store d)) ss k"
  have n: "?R b = []" if "k \<notin> subject_key ` set b" using that by (auto simp: rows_for_def)
  have "map_of (merge_labels m batch) k = Some (ls @ ?R b)"
    using merge_labels_map [of batch m k ls] Cons.prems(2) r n by (auto simp: split: if_splits)
  from Cons.IH [OF 2 this] show ?case using r env by (simp add: rows_for_def)
qed

lemma subject_key_inj:
  assumes "subject_key s = subject_key t" "CHR 0x00 \<notin> set (lsub_uri s)" "CHR 0x00 \<notin> set (lsub_uri t)"
  shows "s = t"
proof -
  have cut: "cut_at CHR 0x00 (subject_key x) = (if lsub_cid x = [] then None else Some (lsub_uri x, lsub_cid x))" if "CHR 0x00 \<notin> set (lsub_uri x)" for x
    using that by (simp add: subject_key_def)
  have "lsub_uri s = lsub_uri t \<and> lsub_cid s = lsub_cid t"
    using assms(1) cut [OF assms(2)] cut [OF assms(3)] by (auto simp: subject_key_def split: if_splits)
  then show ?thesis by simp
qed

lemma normalize_from_ok:
  assumes "normalize_from i seen ss = Ok ns"
  shows "distinct (map subject_key ns) \<and> subject_key ` set ns \<inter> set seen = {} \<and> set ns \<subseteq> set ss
    \<and> subject_key ` set ss \<subseteq> set seen \<union> subject_key ` set ns \<and> (\<forall>s\<in>set ss. CHR 0x00 \<notin> set (lsub_uri s))"
  using assms
proof (induction ss arbitrary: i seen ns)
  case (Cons s ss)
  have uri: "CHR 0x00 \<notin> set (lsub_uri s)" using Cons.prems by (auto simp: validateExternalLabelString_def split: if_splits sum.splits)
  show ?case
  proof (cases "subject_key s \<in> set seen")
    case True
    then have "normalize_from (Suc i) seen ss = Ok ns" using Cons.prems by (auto split: sum.splits)
    from Cons.IH [OF this] show ?thesis using True uri by auto
  next
    case False
    then obtain ms where "normalize_from (Suc i) (subject_key s # seen) ss = Ok ms" "ns = s # ms"
      using Cons.prems by (auto simp: res_map_Ok split: sum.splits)
    from Cons.IH [OF this(1)] this(2) show ?thesis using False uri by auto
  qed
qed simp

lemma rows_for_distinct:
  assumes "distinct (map subject_key ns)" "s \<in> set ns"
  shows "rows_for L now f labels ns (subject_key s) = map read_label (sort_key (newest_first L) (subject_rows L now f labels s))"
  using assms
proof (induction ns)
  case (Cons t ns)
  have none: "rows_for L now f labels ns k = []" if "k \<notin> subject_key ` set ns" for k using that by (auto simp: rows_for_def)
  have step: "rows_for L now f labels (t # ns) k = (if subject_key t = k then map read_label (sort_key (newest_first L) (subject_rows L now f labels t)) else []) @ rows_for L now f labels ns k" for k
    by (simp add: rows_for_def)
  show ?case
  proof (cases "s = t")
    case True
    then show ?thesis using Cons.prems(1) none [of "subject_key t"] by (simp add: step)
  next
    case False
    then have "s \<in> set ns" "subject_key t \<noteq> subject_key s" using Cons.prems by (auto simp: image_iff)
    then show ?thesis using Cons.IH Cons.prems(1) by (simp add: step)
  qed
qed simp

lemma GetBySubjects_rows:
  assumes "GetBySubjects L subjects f d = (Ok m, d')" "s \<in> set subjects"
  shows "db_store d' = db_store d
    \<and> map_of m (subject_key s) = Some (map read_label (sort_key (newest_first L) (subject_rows L (db_now d) f (st_labels (db_store d)) s)))"
proof -
  obtain ns where n: "normalize_from 0 [] subjects = Ok ns" and b: "subject_batches L f (nil_entries ns) (chunks externalLabelSubjectBatchSize ns) d = (Ok m, d')"
    using assms by (auto simp: GetBySubjects_def normalizeLabelSubjects_def split: sum.splits if_splits)
  note ok = normalize_from_ok [OF n]
  then obtain t where t: "t \<in> set ns" "subject_key t = subject_key s" using assms(2) by auto
  moreover have "CHR 0x00 \<notin> set (lsub_uri s)" "CHR 0x00 \<notin> set (lsub_uri t)" using ok assms(2) t(1) by auto
  ultimately have s: "s \<in> set ns" using subject_key_inj by blast
  have "map_of (nil_entries ns) (subject_key s) = Some []" using s by (simp add: nil_entries_map)
  from batches_result [OF b this] show ?thesis using rows_for_distinct [of ns s] ok s by (simp add: externalLabelSubjectBatchSize_def)
qed

text \<open>What makes a label current: not withdrawn, not expired, and the last word of its source on its subject and value.\<close>

definition label_identity :: "label_row \<Rightarrow> string \<times> string \<times> string \<times> string option" where
  "label_identity l = (lb_src l, lb_uri l, lb_val l, lb_cid l)"

definition label_time :: "label_env \<Rightarrow> label_row \<Rightarrow> int \<times> int" where
  "label_time L l = (the (le_sql_time L (lb_cts l)), lb_id l)"

definition label_applies :: "label_query \<Rightarrow> label_subject_ref \<Rightarrow> label_row \<Rightarrow> bool" where
  "label_applies f s l =
     (lb_uri l = lsub_uri s \<and> (lsub_cid s = [] \<or> lb_cid l = None \<or> lb_cid l = Some (lsub_cid s))
      \<and> (lq_sources f = [] \<or> lb_src l \<in> set (lq_sources f)) \<and> (lq_values f = [] \<or> lb_val l \<in> set (lq_values f)))"

definition label_current :: "label_env \<Rightarrow> int \<Rightarrow> label_row list \<Rightarrow> label_row \<Rightarrow> bool" where
  "label_current L now labels l =
     (\<not> lb_neg l \<and> (case lb_exp l of None \<Rightarrow> True | Some x \<Rightarrow> (case le_sql_time L x of None \<Rightarrow> False | Some t \<Rightarrow> now < t))
      \<and> list_all (\<lambda>l'. label_identity l' = label_identity l \<longrightarrow> label_time L l' \<le> label_time L l) labels)"

definition readable :: "label_env \<Rightarrow> label_row list \<Rightarrow> bool" where
  "readable L labels = list_all (\<lambda>l. le_sql_time L (lb_cts l) \<noteq> None) labels"

lemma active_is_current:
  assumes "readable L labels" "l \<in> set labels"
  shows "externalLabelActivePredicate L now labels l = label_current L now labels l"
proof -
  have e: "supersedes L l' l \<longleftrightarrow> \<not> (label_identity l' = label_identity l \<longrightarrow> label_time L l' \<le> label_time L l)" if l': "l' \<in> set labels" for l'
  proof -
    obtain a b where t: "le_sql_time L (lb_cts l) = Some a" "le_sql_time L (lb_cts l') = Some b"
      using assms l' unfolding readable_def list_all_iff by blast
    have "label_identity l' = label_identity l \<longleftrightarrow> lb_src l' = lb_src l \<and> lb_uri l' = lb_uri l \<and> lb_val l' = lb_val l \<and> lb_cid l' = lb_cid l"
      unfolding label_identity_def by simp
    moreover have "label_time L l' \<le> label_time L l \<longleftrightarrow> \<not> (b > a \<or> b = a \<and> lb_id l' > lb_id l)"
      unfolding label_time_def t by (auto simp: less_eq_prod_def)
    ultimately show ?thesis unfolding supersedes_def t time_rel_def option.case by blast
  qed
  have "list_ex (\<lambda>l'. supersedes L l' l) labels = list_ex (\<lambda>l'. \<not> (label_identity l' = label_identity l \<longrightarrow> label_time L l' \<le> label_time L l)) labels"
    by (rule list_ex_cong [OF refl]) (rule e)
  then have "\<not> list_ex (\<lambda>l'. supersedes L l' l) labels \<longleftrightarrow> list_all (\<lambda>l'. label_identity l' = label_identity l \<longrightarrow> label_time L l' \<le> label_time L l) labels"
    by (simp only: list_ex_iff list_all_iff) blast
  then show ?thesis unfolding externalLabelActivePredicate_def label_current_def by (simp add: time_rel_def split: option.splits)
qed

lemma subject_rows_eq:
  assumes "readable L labels"
  shows "subject_rows L now f labels s = filter (\<lambda>l. label_applies f s l \<and> (lq_active_only f \<longrightarrow> label_current L now labels l)) labels"
  unfolding subject_rows_def by (rule filter_cong [OF refl]) (use active_is_current [OF assms] in \<open>auto simp: label_applies_def\<close>)

lemma newest_first_order:
  assumes "le_sql_time L (lb_cts a) \<noteq> None" "le_sql_time L (lb_cts b) \<noteq> None"
  shows "newest_first L a \<le> newest_first L b \<longleftrightarrow> label_time L b \<le> label_time L a"
  using assms by (auto simp: newest_first_def label_time_def less_eq_prod_def)

lemma label_inv_ids:
  assumes "label_inv D e s" "a \<in> set (st_labels s)" "b \<in> set (st_labels s)" "lb_id a = lb_id b"
  shows "a = b"
proof -
  have "distinct (map lb_id (st_labels s))" using assms(1) by (simp add: label_inv_def strict_sorted_iff)
  then show ?thesis using assms(2-) by (simp add: distinct_map inj_on_def)
qed

lemma newest_first_sorted:
  assumes "label_inv D e s" "readable L (st_labels s)" "set xs \<subseteq> set (st_labels s)" "distinct xs"
  shows "sorted_wrt (\<lambda>a b. label_time L b < label_time L a) (sort_key (newest_first L) xs)"
proof -
  let ?ys = "sort_key (newest_first L) xs"
  have s: "sorted_wrt (\<lambda>a b. newest_first L a \<le> newest_first L b) ?ys" by (metis sorted_map sorted_sort_key)
  have d: "distinct ?ys" using assms(4) by simp
  have "sorted_wrt (\<lambda>a b. newest_first L a \<le> newest_first L b \<and> a \<noteq> b) ?ys"
    using s d by (simp add: sorted_wrt_iff_nth_less nth_eq_iff_index_eq)
  then show ?thesis
  proof (rule sorted_wrt_mono_rel [rotated])
    fix a b
    assume ab: "a \<in> set ?ys" "b \<in> set ?ys" "newest_first L a \<le> newest_first L b \<and> a \<noteq> b"
    then have m: "a \<in> set (st_labels s)" "b \<in> set (st_labels s)" using assms(3) by auto
    then have "label_time L b \<le> label_time L a" using newest_first_order [of L a b] assms(2) ab(3) by (simp add: readable_def list_all_iff)
    moreover have "lb_id a \<noteq> lb_id b" using label_inv_ids [OF assms(1) m] ab(3) by blast
    then have "label_time L b \<noteq> label_time L a" by (simp add: label_time_def)
    ultimately show "label_time L b < label_time L a" by simp
  qed
qed

lemma label_inv_distinct: "label_inv D e s \<Longrightarrow> distinct (st_labels s)"
  by (simp add: label_inv_def distinct_map)

lemma current_labels_unique:
  assumes "label_inv D e s" "readable L (st_labels s)" "distinct ls" "set ls \<subseteq> {l \<in> set (st_labels s). label_current L now (st_labels s) l}"
  shows "distinct (map label_identity ls)"
proof -
  have "a = b" if "a \<in> set ls" "b \<in> set ls" "label_identity a = label_identity b" for a b
  proof -
    have m: "a \<in> set (st_labels s)" "b \<in> set (st_labels s)" "label_current L now (st_labels s) a" "label_current L now (st_labels s) b" using that assms(4) by auto
    then have "label_time L a \<le> label_time L b" "label_time L b \<le> label_time L a" using that(3) unfolding label_current_def list_all_iff by metis+
    then have "label_time L a = label_time L b" by (rule order.antisym)
    then show ?thesis using label_inv_ids [OF assms(1) m(1,2)] by (simp add: label_time_def)
  qed
  then show ?thesis using assms(3) by (simp add: distinct_map inj_on_def)
qed

section \<open>The property and a sample lookup\<close>


definition sample_label_query :: "(string \<times> label_row list) list" where
  "sample_label_query = [(''u'', [read_label (label_of_input ''w'' 5 7 None (sample_input 1 False) 2)])]"

lemma chunks_single: "0 < n \<Longrightarrow> chunks n [x] = [[x]]"
  by (simp add: chunks.simps [of n "[x]"])

lemma sample_query_ok:
  "GetBySubjects sample_label_env [\<lparr>lsub_uri = ''u'', lsub_cid = []\<rparr>] \<lparr>lq_sources = [], lq_values = [], lq_active_only = True\<rparr> sample_label_db
    = (Ok sample_label_query, sample_label_db)"
  unfolding sample_label_store
  by (simp add: GetBySubjects_def normalizeLabelSubjects_def validateExternalLabelString_def validateExternalLabelFilter_def MaxINListSize_def sample_db_simps
      chunks_single externalLabelSubjectBatchSize_def getBySubjectsBatch_def nil_entries_def subject_key_def batch_rows_def subject_rows_def
      empty_store_def sqlite_db_def label_of_input_def sample_input_def externalLabelActivePredicate_def supersedes_def time_rel_def sample_label_env_def
      append_label_def merge_labels_def db_return_def sample_label_query_def)


end
