(* ===== verification/Label_Subscriber.thy ===== *)
theory Label_Subscriber
  imports Label_Lookup Cursors
begin

text \<open>
  The subscriber to external labelers (\<open>internal/labeler/subscriber.go\<close>): one loop per configured URL that connects with the stored cursor, hands every
  frame of the stream to a callback, and reconnects with a doubling wait until a fatal cursor error or the end of the context.

  The websocket dialler and \<open>events.HandleRepoStream\<close> belong to other modules.  An \<open>attempt\<close> of the loop is what they do in one round: the outcome of
  dialling, and how the stream calls the handler it is given.  The theorems rely on the stream reaching the database only through that handler
  (\<open>only_through_handler\<close>).  \<open>json.Marshal\<close> of an Indigo label and the rewriting of the URL's query (\<open>net/url\<close>) are parameters as well.
\<close>

section \<open>Errors\<close>

text \<open>A Go error that \<open>errors.As\<close> may find a \<open>FatalCursorError\<close> in: the text wrapped around it, its code and its message.\<close>

datatype stream_err = PlainErr err | FatalCursorErr err string string

fun err_text :: "stream_err \<Rightarrow> err" where
  "err_text (PlainErr e) = e"
| "err_text (FatalCursorErr p code message) = p @ (if message = [] then code else code @ '': '' @ message)"

fun wrap_err :: "err \<Rightarrow> stream_err \<Rightarrow> stream_err" where
  "wrap_err p (PlainErr e) = PlainErr (p @ e)"
| "wrap_err p (FatalCursorErr q code message) = FatalCursorErr (p @ q) code message"

section \<open>Configuration\<close>

record labeler_config =
  lc_urls :: "string list"
  lc_reconnect_min :: int
  lc_reconnect_max :: int
  lc_read_limit :: int

definition second :: int where "second = 1000000000"

fun config_urls :: "string list \<Rightarrow> string list \<Rightarrow> string list" where
  "config_urls seen [] = []"
| "config_urls seen (raw # raws) =
     (let trimmed = trim_space raw in
      if trimmed = [] \<or> trimmed \<in> set seen then config_urls seen raws else trimmed # config_urls (trimmed # seen) raws)"

definition normalizeConfig :: "labeler_config \<Rightarrow> labeler_config" where
  "normalizeConfig cfg =
     (let rmin = (if lc_reconnect_min cfg \<le> 0 then second else lc_reconnect_min cfg);
          rmax0 = (if lc_reconnect_max cfg \<le> 0 then 60 * second else lc_reconnect_max cfg);
          rmax = (if rmax0 < rmin then rmin else rmax0) in
      \<lparr>lc_urls = config_urls [] (lc_urls cfg), lc_reconnect_min = rmin, lc_reconnect_max = rmax,
       lc_read_limit = (if lc_read_limit cfg \<le> 0 then 4194304 else lc_read_limit cfg)\<rparr>)"

section \<open>Labels of a frame\<close>

record indigo_label =
  il_src :: string
  il_uri :: string
  il_cid :: "string option"
  il_val :: string
  il_neg :: "bool option"
  il_cts :: string
  il_exp :: "string option"
  il_sig :: string
  il_ver :: "int option"

record subscriber_env =
  sv_labels :: label_env
  sv_marshal :: "indigo_label \<Rightarrow> string res"
  sv_set_cursor :: "string \<Rightarrow> string \<Rightarrow> string res"

text \<open>\<open>base64.StdEncoding\<close> differs from \<open>URLEncoding\<close> in the last two digits.\<close>

definition b64_std_encode :: "string \<Rightarrow> string" where
  "b64_std_encode s = map (\<lambda>c. if c = CHR ''-'' then CHR ''+'' else if c = CHR ''_'' then CHR ''/'' else c) (b64_encode s)"

fun convert_from :: "subscriber_env \<Rightarrow> nat \<Rightarrow> indigo_label option list \<Rightarrow> label_input list res" where
  "convert_from V i [] = Ok []"
| "convert_from V i (None # labels) = Err (''label '' @ show_nat i @ '' is nil'')"
| "convert_from V i (Some label # labels) =
     (case sv_marshal V label of
        Inl e \<Rightarrow> Err (''marshal label '' @ show_nat i @ '' raw JSON: '' @ e)
      | Inr rawJSON \<Rightarrow>
          res_map (\<lambda>inputs.
            \<lparr>li_index = int i, li_src = il_src label, li_uri = il_uri label, li_cid = il_cid label, li_val = il_val label,
             li_neg = (case il_neg label of None \<Rightarrow> False | Some b \<Rightarrow> b), li_cts = il_cts label, li_exp = il_exp label,
             li_sig = (if length (il_sig label) > 0 then Some (b64_std_encode (il_sig label)) else None),
             li_ver = il_ver label, li_raw_json = rawJSON\<rparr> # inputs) (convert_from V (Suc i) labels))"

definition ConvertLabels :: "subscriber_env \<Rightarrow> indigo_label option list \<Rightarrow> label_input list res" where
  "ConvertLabels V labels = convert_from V 0 labels"

section \<open>Callbacks\<close>

definition fatalCursorFuture :: string where "fatalCursorFuture = ''FutureCursor''"
definition fatalCursorOutdated :: string where "fatalCursorOutdated = ''OutdatedCursor''"

datatype frame =
    LabelLabels int "indigo_label option list"
  | RepoInfo string "string option"
  | LabelInfo string "string option"
  | ErrorFrame string string

type_synonym handler = "frame \<Rightarrow> db \<Rightarrow> stream_err option \<times> db"

definition fatalCursorResetMessage :: "string \<Rightarrow> string \<Rightarrow> string" where
  "fatalCursorResetMessage code message0 =
     (let base = ''Reset subscription cursor and replay labels.''; message = trim_space message0 in
      if message = [] then
        (if code = fatalCursorFuture then ''Cursor is in the future. '' @ base else ''Cursor is outside retained history. '' @ base)
      else (if \<not> has_suffix message ''.'' \<and> \<not> has_suffix message ''!'' \<and> \<not> has_suffix message ''?'' then message @ ''.'' else message) @ '' '' @ base)"

definition recordAndReturnError :: "string \<Rightarrow> stream_err \<Rightarrow> db \<Rightarrow> stream_err option \<times> db" where
  "recordAndReturnError url e d = (Some e, snd (UpdateError url (err_text e) d))"

definition recordFatalCursorAndReturnError :: "string \<Rightarrow> string \<Rightarrow> string \<Rightarrow> db \<Rightarrow> stream_err option \<times> db" where
  "recordFatalCursorAndReturnError url code message d =
     (let m = fatalCursorResetMessage code message in
      case MarkFatalCursor url code m d of
        (Inl updateErr, d') \<Rightarrow> (Some (PlainErr (''record fatal labeler subscription error '' @ code @ '': '' @ updateErr)), d')
      | (Inr _, d') \<Rightarrow> (Some (FatalCursorErr [] code m), d'))"

definition handleInfo :: "string \<Rightarrow> string \<Rightarrow> string option \<Rightarrow> db \<Rightarrow> stream_err option \<times> db" where
  "handleInfo url name message d =
     (if name = fatalCursorOutdated
      then recordFatalCursorAndReturnError url fatalCursorOutdated (case message of None \<Rightarrow> [] | Some m \<Rightarrow> m) d
      else (None, d))"

fun callbacks :: "subscriber_env \<Rightarrow> string \<Rightarrow> handler" where
  "callbacks V url (LabelLabels seq labels) d =
     (case ConvertLabels V labels of
        Inl e \<Rightarrow> recordAndReturnError url (PlainErr (''convert labeler labels seq='' @ show_int seq @ '': '' @ e)) d
      | Inr inputs \<Rightarrow>
          (case PersistEvent (sv_labels V) url seq inputs d of
             (Inl e, d') \<Rightarrow> recordAndReturnError url (PlainErr (''persist labeler labels seq='' @ show_int seq @ '': '' @ e)) d'
           | (Inr _, d') \<Rightarrow> (None, d')))"
| "callbacks V url (RepoInfo name message) d = handleInfo url name message d"
| "callbacks V url (LabelInfo name message) d = handleInfo url name message d"
| "callbacks V url (ErrorFrame e message) d =
     (if e = fatalCursorFuture then recordFatalCursorAndReturnError url fatalCursorFuture message d
      else recordAndReturnError url (PlainErr (''labeler stream error: '' @ (if message \<noteq> [] then e @ '': '' @ message else e))) d)"

section \<open>The connection loop\<close>

record attempt =
  at_now :: int
  at_faults :: "err option list"
  at_dial :: "string \<Rightarrow> err option"
  at_stream :: "handler \<Rightarrow> db \<Rightarrow> stream_err option \<times> db"
  at_cancelled :: bool

definition buildSubscribeURL :: "subscriber_env \<Rightarrow> string \<Rightarrow> int \<Rightarrow> string res" where
  "buildSubscribeURL V rawURL cursor =
     (if cursor < 0 then Err (''cursor must be non-negative: '' @ show_int cursor) else sv_set_cursor V rawURL (show_int cursor))"

text \<open>The error of one round, the cursor it dialled with, if it dialled, and the database it leaves.\<close>

definition runOnce :: "subscriber_env \<Rightarrow> attempt \<Rightarrow> string \<Rightarrow> db \<Rightarrow> stream_err option \<times> int option \<times> db" where
  "runOnce V A url d =
     (case EnsureState url d of
        (Inl e, d1) \<Rightarrow> (Some (PlainErr (''ensure labeler subscription state: '' @ e)), None, d1)
      | (Inr state, d1) \<Rightarrow>
          if IsFatal state then
            (let code0 = FatalCursorCode (ls_last_error state); code = (if code0 = [] then ''FatalCursor'' else code0) in
             (Some (FatalCursorErr ''labeler subscription requires reset: '' code
                ''subscription is marked fatal. Reset subscription cursor and replay labels before labels can resume''), None, d1))
          else
            (case buildSubscribeURL V url (ls_last_seq state) of
               Inl e \<Rightarrow> (Some (PlainErr (''build labeler subscription URL: '' @ e)), None, d1)
             | Inr streamURL \<Rightarrow>
                 (case at_dial A streamURL of
                    Some e \<Rightarrow> (Some (PlainErr (''connect to labeler subscription: '' @ e)), Some (ls_last_seq state), d1)
                  | None \<Rightarrow>
                      (case UpdateConnected url d1 of
                         (Inl e, d2) \<Rightarrow> (Some (PlainErr (''record labeler connection: '' @ e)), Some (ls_last_seq state), d2)
                       | (Inr _, d2) \<Rightarrow>
                           (case at_stream A (callbacks V url) d2 of
                              (Some e, d3) \<Rightarrow> (Some (wrap_err ''handle labeler stream: '' e), Some (ls_last_seq state), d3)
                            | (None, d3) \<Rightarrow> (None, Some (ls_last_seq state), d3))))))"

definition next_backoff :: "labeler_config \<Rightarrow> int \<Rightarrow> int" where
  "next_backoff cfg backoff =
     (let b = wrap64 (backoff * 2) in if b > lc_reconnect_max cfg then lc_reconnect_max cfg else b)"

text \<open>The rounds of a subscription: for each the cursor it dialled with and how long it then waited.  The list of attempts ends when the context does.\<close>

fun subscription_rounds :: "subscriber_env \<Rightarrow> labeler_config \<Rightarrow> string \<Rightarrow> int \<Rightarrow> attempt list \<Rightarrow> db \<Rightarrow> (int option \<times> int option) list \<times> db" where
  "subscription_rounds V cfg url backoff [] d = ([], d)"
| "subscription_rounds V cfg url backoff (A # As) d =
     (case runOnce V A url (d\<lparr>db_now := at_now A, db_faults := at_faults A\<rparr>) of
        (e, cursor, d1) \<Rightarrow>
          if at_cancelled A then ([(cursor, None)], d1)
          else (case e of
                  Some (FatalCursorErr p code message) \<Rightarrow> ([(cursor, None)], d1)
                | _ \<Rightarrow>
                    (let d2 = (case e of Some x \<Rightarrow> snd (UpdateError url (err_text x) d1) | None \<Rightarrow> d1);
                         rest = subscription_rounds V cfg url (next_backoff cfg backoff) As d2 in
                     ((cursor, Some backoff) # fst rest, snd rest))))"

definition runSubscription :: "subscriber_env \<Rightarrow> labeler_config \<Rightarrow> string \<Rightarrow> attempt list \<Rightarrow> db \<Rightarrow> (int option \<times> int option) list \<times> db" where
  "runSubscription V cfg url As d = subscription_rounds V cfg url (lc_reconnect_min cfg) As d"

section \<open>Only the repository's calls reach the database\<close>

inductive delivered :: "handler \<Rightarrow> db \<Rightarrow> db \<Rightarrow> bool" for h d where
  Opened: "delivered h d d"
| Frame: "delivered h d d1 \<Longrightarrow> h f d1 = (r, d2) \<Longrightarrow> delivered h d d2"
| Clock: "delivered h d d1 \<Longrightarrow> delivered h d (d1\<lparr>db_now := t, db_faults := fs\<rparr>)"

definition only_through_handler :: "(handler \<Rightarrow> db \<Rightarrow> stream_err option \<times> db) \<Rightarrow> bool" where
  "only_through_handler S = (\<forall>h d. delivered h d (snd (S h d)))"

lemma label_reach_trans:
  assumes "label_reach L d1 d2" "label_reach L d d1"
  shows "label_reach L d d2"
  using assms by (induction rule: label_reach.induct) (auto intro: label_reach.intros)

lemma label_reach_call: "label_reach L d (snd (run_label_op L op d))"
  by (rule label_reach.Call [OF label_reach.Start surjective_pairing])

lemmas label_reach_calls =
  label_reach_call [of _ _ "ConnectedOp url" for url, simplified]
  label_reach_call [of _ _ "ErrorOp url msg" for url msg, simplified]
  label_reach_call [of _ _ "FatalOp url code msg" for url code msg, simplified]
  label_reach_call [of _ _ "PersistOp url seq labels" for url seq labels, simplified]

lemma EnsureState_reach: "label_reach L d (snd (EnsureState url d))"
proof -
  have "snd (run_label_op L (EnsureOp url) d) = snd (EnsureState url d)"
    by (cases "EnsureState url d") (auto simp: db_bind_def db_return_def split: sum.splits)
  then show ?thesis using label_reach_call [of L d "EnsureOp url"] by simp
qed

lemma record_fatal_reach: "label_reach L d (snd (recordFatalCursorAndReturnError url code msg d))"
proof -
  have "snd (recordFatalCursorAndReturnError url code msg d) = snd (MarkFatalCursor url code (fatalCursorResetMessage code msg) d)"
    by (auto simp: recordFatalCursorAndReturnError_def Let_def split: prod.splits sum.splits)
  then show ?thesis using label_reach_calls(3) by simp
qed

lemma callbacks_reach: "label_reach (sv_labels V) d (snd (callbacks V url f d))"
proof (cases f)
  case (LabelLabels seq labels)
  show ?thesis
  proof (cases "ConvertLabels V labels")
    case (Inl e)
    then show ?thesis using LabelLabels label_reach_calls(2) by (simp add: recordAndReturnError_def)
  next
    case (Inr inputs)
    obtain r d1 where p: "PersistEvent (sv_labels V) url seq inputs d = (r, d1)" by (cases "PersistEvent (sv_labels V) url seq inputs d")
    have 1: "label_reach (sv_labels V) d d1" using label_reach_calls(4) [of "sv_labels V" d url seq inputs] p by simp
    then show ?thesis using LabelLabels Inr p label_reach_trans [OF label_reach_calls(2) 1]
      by (cases r) (simp_all add: recordAndReturnError_def)
  qed
qed (auto simp: handleInfo_def record_fatal_reach recordAndReturnError_def label_reach.Start label_reach_calls(2))

lemma delivered_reach:
  assumes "delivered (callbacks V url) d d'"
  shows "label_reach (sv_labels V) d d'"
  using assms
proof (induction rule: delivered.induct)
  case (Frame d1 f r d2)
  then have "label_reach (sv_labels V) d1 d2" using callbacks_reach [of V d1 url f] by simp
  then show ?case using Frame.IH by (rule label_reach_trans)
qed (auto intro: label_reach.intros)

lemma runOnce_reach:
  assumes "only_through_handler (at_stream A)" "runOnce V A url d = (e, c, d')"
  shows "label_reach (sv_labels V) d d'"
proof -
  obtain r d1 where 1: "EnsureState url d = (r, d1)" by (cases "EnsureState url d")
  have a: "label_reach (sv_labels V) d d1" using EnsureState_reach [of "sv_labels V" d url] 1 by simp
  obtain r2 d2 where 2: "UpdateConnected url d1 = (r2, d2)" by (cases "UpdateConnected url d1")
  have b: "label_reach (sv_labels V) d d2" using label_reach_trans [OF label_reach_calls(1) [of "sv_labels V" d1 url] a] 2 by simp
  obtain r3 d3 where 3: "at_stream A (callbacks V url) d2 = (r3, d3)" by (cases "at_stream A (callbacks V url) d2")
  have "delivered (callbacks V url) d2 d3" using assms(1) 3 unfolding only_through_handler_def by (metis snd_conv)
  then have c: "label_reach (sv_labels V) d d3" using label_reach_trans [OF delivered_reach b] by simp
  have "d' = d1 \<or> d' = d2 \<or> d' = d3"
    using assms(2) 1 2 3 by (auto simp: runOnce_def Let_def split: sum.splits if_splits option.splits)
  then show ?thesis using a b c by blast
qed

section \<open>Cursors of a subscription\<close>

definition cursor_at :: "store \<Rightarrow> string \<Rightarrow> int" where
  "cursor_at s url = (case tbl_find ls_url url (st_label_states s) of None \<Rightarrow> 0 | Some r \<Rightarrow> ls_last_seq r)"

definition fatal_at :: "dialect \<Rightarrow> store \<Rightarrow> string \<Rightarrow> bool" where
  "fatal_at D s url = (case tbl_find ls_url url (st_label_states s) of None \<Rightarrow> False | Some r \<Rightarrow> fatal_row D r \<and> IsFatal r)"

lemma subscription_row_advances:
  assumes "label_inv D e s'" "labels_grow D s s'" "tbl_find ls_url url (st_label_states s) = Some r"
  obtains r' where "tbl_find ls_url url (st_label_states s') = Some r'" "row_advances D r r'"
proof -
  have r: "r \<in> set (st_label_states s)" "ls_url r = url" using tbl_find_Some [OF assms(3)] by simp_all
  then obtain r' where "r' \<in> set (st_label_states s')" "row_advances D r r'" using assms(2) by (auto simp: labels_grow_def list_all_iff list_ex_iff)
  moreover then have "ls_url r' = url" using r by (simp add: row_advances_def)
  moreover have "distinct (map ls_url (st_label_states s'))" using assms(1) by (simp add: label_inv_def)
  ultimately show ?thesis using that tbl_find_distinct by metis
qed

lemma cursor_mono:
  assumes "label_inv D e s'" "labels_grow D s s'"
  shows "cursor_at s url \<le> cursor_at s' url" "fatal_at D s url \<Longrightarrow> fatal_at D s' url"
proof -
  have nonneg: "0 \<le> ls_last_seq r" if "tbl_find ls_url url (st_label_states s') = Some r" for r
    using tbl_find_Some [OF that] assms(1) by (simp add: label_inv_def list_all_iff)
  show "cursor_at s url \<le> cursor_at s' url"
  proof (cases "tbl_find ls_url url (st_label_states s)")
    case None
    then show ?thesis using nonneg by (simp add: cursor_at_def split: option.splits)
  next
    case (Some r)
    obtain r' where "tbl_find ls_url url (st_label_states s') = Some r'" "row_advances D r r'" using subscription_row_advances [OF assms Some] .
    then show ?thesis using Some by (simp add: cursor_at_def row_advances_def)
  qed
  assume f: "fatal_at D s url"
  then obtain r where r: "tbl_find ls_url url (st_label_states s) = Some r" "fatal_row D r" "IsFatal r" by (auto simp: fatal_at_def split: option.splits)
  obtain r' where "tbl_find ls_url url (st_label_states s') = Some r'" "row_advances D r r'" using subscription_row_advances [OF assms r(1)] .
  then show "fatal_at D s' url" using r by (simp add: fatal_at_def row_advances_def)
qed

lemma EnsureState_row:
  assumes "EnsureState url d = (Ok st, d1)"
  shows "tbl_find ls_url url (st_label_states (db_store d1)) = Some st"
proof -
  obtain d0 where "GetState url d0 = (Ok st, d1)" using assms by (auto simp: EnsureState_def db_bind_Ok_iff)
  then show ?thesis unfolding GetState_def by (auto elim!: db_exec_cases split: option.splits)
qed

lemma runOnce_dialled:
  assumes "only_through_handler (at_stream A)" "runOnce V A url d = (e, Some c, d')"
  obtains st d1 where "EnsureState url d = (Ok st, d1)" "\<not> IsFatal st" "c = ls_last_seq st" "label_reach (sv_labels V) d1 d'"
proof -
  obtain st d1 where 1: "EnsureState url d = (Ok st, d1)" using assms(2) by (auto simp: runOnce_def Let_def split: prod.splits sum.splits if_splits)
  have n: "\<not> IsFatal st" "c = ls_last_seq st" using assms(2) 1 by (auto simp: runOnce_def Let_def split: sum.splits if_splits option.splits prod.splits)
  obtain r2 d2 where 2: "UpdateConnected url d1 = (r2, d2)" by (cases "UpdateConnected url d1")
  have b: "label_reach (sv_labels V) d1 d2" using label_reach_calls(1) [of "sv_labels V" d1 url] 2 by simp
  obtain r3 d3 where 3: "at_stream A (callbacks V url) d2 = (r3, d3)" by (cases "at_stream A (callbacks V url) d2")
  have "delivered (callbacks V url) d2 d3" using assms(1) 3 unfolding only_through_handler_def by (metis snd_conv)
  then have c: "label_reach (sv_labels V) d1 d3" using label_reach_trans [OF delivered_reach b] by simp
  have "d' = d1 \<or> d' = d2 \<or> d' = d3" using assms(2) 1 2 3 by (auto simp: runOnce_def Let_def split: sum.splits if_splits option.splits)
  then show ?thesis using that [OF 1 n] b c label_reach.Start by metis
qed

lemma runOnce_cursor:
  assumes "only_through_handler (at_stream A)" "runOnce V A url d = (e, Some c, d')" "db_dialect d = D" "label_inv D None (db_store d)"
  shows "cursor_at (db_store d) url \<le> c \<and> c \<le> cursor_at (db_store d') url \<and> \<not> fatal_at D (db_store d) url"
proof -
  obtain st d1 where 1: "EnsureState url d = (Ok st, d1)" "\<not> IsFatal st" "c = ls_last_seq st" and r: "label_reach (sv_labels V) d1 d'"
    by (rule runOnce_dialled [OF assms(1,2)])
  have f: "tbl_find ls_url url (st_label_states (db_store d1)) = Some st" by (rule EnsureState_row [OF 1(1)])
  have c: "cursor_at (db_store d1) url = c" "\<not> fatal_at D (db_store d1) url" using f 1(2,3) by (simp_all add: cursor_at_def fatal_at_def)
  note a = label_reach_history [OF EnsureState_reach [of "sv_labels V" d url] assms(3,4)]
  then have a': "db_dialect d1 = D" "label_inv D None (db_store d1)" "labels_grow D (db_store d) (db_store d1)" using 1(1) by simp_all
  note b = label_reach_history [OF r a'(1,2)]
  show ?thesis using cursor_mono [OF a'(2,3), of url] cursor_mono(1) [of D None "db_store d'" "db_store d1" url] b c by auto
qed

lemma next_backoff_bounds:
  assumes "0 < b" "b \<le> lc_reconnect_max cfg" "lc_reconnect_max cfg < 2 ^ 62"
  shows "b \<le> next_backoff cfg b" "next_backoff cfg b \<le> lc_reconnect_max cfg"
proof -
  have "wrap64 (b * 2) = b * 2" using assms by (intro wrap64_id) simp_all
  then show "b \<le> next_backoff cfg b" "next_backoff cfg b \<le> lc_reconnect_max cfg" using assms by (simp_all add: next_backoff_def Let_def)
qed

definition dialled :: "(int option \<times> int option) list \<Rightarrow> int list" where
  "dialled tr = List.map_filter fst tr"

definition waited :: "(int option \<times> int option) list \<Rightarrow> int list" where
  "waited tr = List.map_filter snd tr"

lemma dialled_Cons: "dialled ((c, w) # tr) = (case c of None \<Rightarrow> dialled tr | Some x \<Rightarrow> x # dialled tr)"
  "waited ((c, w) # tr) = (case w of None \<Rightarrow> waited tr | Some x \<Rightarrow> x # waited tr)"
  by (auto simp: dialled_def waited_def List.map_filter_simps split: option.splits)

lemma dialled_Nil [simp]: "dialled [] = []" "waited [] = []"
  by (simp_all add: dialled_def waited_def List.map_filter_simps)

lemma rounds_step:
  assumes "subscription_rounds V cfg url backoff (A # As) d = (tr, d')"
    "runOnce V A url (d\<lparr>db_now := at_now A, db_faults := at_faults A\<rparr>) = (e, c, d1)"
  obtains (Stop) "tr = [(c, None)]" "d' = d1"
  | (Again) d2 rest where "d2 = d1 \<or> (\<exists>msg. d2 = snd (UpdateError url msg d1))"
      "subscription_rounds V cfg url (next_backoff cfg backoff) As d2 = (rest, d')" "tr = (c, Some backoff) # rest"
proof (cases "at_cancelled A \<or> (\<exists>p code m. e = Some (FatalCursorErr p code m))")
  case True
  then show ?thesis using assms Stop by (auto split: if_splits)
next
  case False
  define d2 where "d2 = (case e of Some x \<Rightarrow> snd (UpdateError url (err_text x) d1) | None \<Rightarrow> d1)"
  obtain rest d3 where r: "subscription_rounds V cfg url (next_backoff cfg backoff) As d2 = (rest, d3)" by (cases "subscription_rounds V cfg url (next_backoff cfg backoff) As d2")
  have "tr = (c, Some backoff) # rest" "d3 = d'"
    using assms False r by (auto simp: d2_def Let_def split: option.splits stream_err.splits)
  moreover have "d2 = d1 \<or> (\<exists>msg. d2 = snd (UpdateError url msg d1))" by (auto simp: d2_def split: option.splits)
  ultimately show ?thesis using Again r by simp
qed

lemma rounds_waits:
  assumes "subscription_rounds V cfg url backoff As d = (tr, d')" "0 < backoff" "backoff \<le> lc_reconnect_max cfg" "lc_reconnect_max cfg < 2 ^ 62"
  shows "sorted (waited tr) \<and> list_all (\<lambda>w. backoff \<le> w \<and> w \<le> lc_reconnect_max cfg) (waited tr)"
  using assms
proof (induction As arbitrary: backoff d tr)
  case (Cons A As)
  obtain e c d1 where r: "runOnce V A url (d\<lparr>db_now := at_now A, db_faults := at_faults A\<rparr>) = (e, c, d1)" by (metis prod_cases3)
  note b = next_backoff_bounds [OF Cons.prems(2-4)]
  have pos: "0 < next_backoff cfg backoff" using b(1) Cons.prems(2) by linarith
  from Cons.prems(1) r show ?case
  proof (cases rule: rounds_step)
    case Stop
    then show ?thesis by (simp add: dialled_Cons)
  next
    case (Again d2 rest)
    from Cons.IH [OF Again(2) pos b(2) Cons.prems(4)] show ?thesis using Again(3) b Cons.prems(3) by (auto simp: dialled_Cons list_all_iff)
  qed
qed simp

lemma rounds_history:
  assumes "subscription_rounds V cfg url backoff As d = (tr, d')" "list_all (\<lambda>A. only_through_handler (at_stream A)) As"
    "db_dialect d = D" "label_inv D None (db_store d)"
  shows "label_inv D None (db_store d') \<and> labels_grow D (db_store d) (db_store d')
    \<and> sorted (dialled tr) \<and> list_all (\<lambda>c. cursor_at (db_store d) url \<le> c \<and> c \<le> cursor_at (db_store d') url) (dialled tr)
    \<and> (fatal_at D (db_store d) url \<longrightarrow> dialled tr = [])"
  using assms
proof (induction As arbitrary: backoff d tr)
  case Nil
  then show ?case by (simp add: labels_grow_refl)
next
  case (Cons A As)
  let ?d0 = "d\<lparr>db_now := at_now A, db_faults := at_faults A\<rparr>"
  obtain e c d1 where r: "runOnce V A url ?d0 = (e, c, d1)" by (metis prod_cases3)
  have A: "only_through_handler (at_stream A)" and As: "list_all (\<lambda>A. only_through_handler (at_stream A)) As" using Cons.prems(2) by simp_all
  have D0: "db_dialect ?d0 = D" "label_inv D None (db_store ?d0)" using Cons.prems(3,4) by simp_all
  note h = label_reach_history [OF runOnce_reach [OF A r] D0]
  have c: "cursor_at (db_store d) url \<le> x \<and> x \<le> cursor_at (db_store d1) url \<and> \<not> fatal_at D (db_store d) url" if "c = Some x" for x
    using runOnce_cursor [OF A _ D0, of V url e x d1] r that by simp
  from Cons.prems(1) r show ?case
  proof (cases rule: rounds_step)
    case Stop
    then show ?thesis using h c by (auto simp: dialled_Cons split: option.splits)
  next
    case (Again d2 rest)
    have "label_reach (sv_labels V) d1 d2" using Again(1) label_reach_calls(2) label_reach.Start by metis
    note h2 = label_reach_history [OF this conjunct1 [OF h] conjunct1 [OF conjunct2 [OF h]]]
    note IH = Cons.IH [OF Again(2) As conjunct1 [OF h2] conjunct1 [OF conjunct2 [OF h2]]]
    have g: "labels_grow D (db_store d) (db_store d1)" "labels_grow D (db_store d1) (db_store d2)" "labels_grow D (db_store d2) (db_store d')"
      and i: "label_inv D None (db_store d1)" "label_inv D None (db_store d2)" "label_inv D None (db_store d')" using h h2 IH by simp_all
    note m1 = cursor_mono [OF i(1) g(1), of url] and m2 = cursor_mono [OF i(2) g(2), of url] and m3 = cursor_mono [OF i(3) g(3), of url]
    have "labels_grow D (db_store d) (db_store d')" by (rule labels_grow_trans [OF labels_grow_trans [OF g(1,2)] g(3)])
    moreover have "fatal_at D (db_store d) url \<longrightarrow> dialled tr = []" using IH m1(2) m2(2) c Again(3) by (cases c) (auto simp: dialled_Cons)
    moreover have "sorted (dialled tr) \<and> list_all (\<lambda>c. cursor_at (db_store d) url \<le> c \<and> c \<le> cursor_at (db_store d') url) (dialled tr)"
    proof -
      have rest: "sorted (dialled rest)" "\<And>x. x \<in> set (dialled rest) \<Longrightarrow> cursor_at (db_store d2) url \<le> x \<and> x \<le> cursor_at (db_store d') url"
        using IH by (simp_all add: list_all_iff)
      show ?thesis using rest c m1(1) m2(1) m3(1) Again(3) unfolding list_all_iff by (cases c) (force simp: dialled_Cons)+
    qed
    ultimately show ?thesis using IH by blast
  qed
qed

section \<open>A fatal cursor ends the subscription\<close>

lemma EnsureState_existing:
  assumes "db_faults d = []" "trim_space url \<noteq> []" "tbl_find ls_url url (st_label_states (db_store d)) = Some r"
  shows "EnsureState url d = (Ok r, d)"
proof -
  have "url \<in> ls_url ` set (st_label_states (db_store d))" using assms(3) tbl_find_None [of ls_url url] by (metis option.distinct(1))
  then have "tbl_insert_ignore ls_url (fresh_state url now) (st_label_states (db_store d)) = st_label_states (db_store d)" for now
    by (simp add: tbl_insert_ignore_def fresh_state_def)
  then show ?thesis using assms
    by (simp add: EnsureState_def validateSubscriptionURL_def res_db_def db_bind_def db_return_def insert_state_def GetState_def db_exec_no_faults)
qed

lemma fatal_stops:
  assumes "fatal_at D (db_store d) url" "at_faults A = []" "trim_space url \<noteq> []"
  shows "fst (subscription_rounds V cfg url b (A # As) d) = [(None, None)]" "db_store (snd (subscription_rounds V cfg url b (A # As) d)) = db_store d"
proof -
  let ?d0 = "d\<lparr>db_now := at_now A, db_faults := at_faults A\<rparr>"
  obtain r where r: "tbl_find ls_url url (st_label_states (db_store d)) = Some r" "IsFatal r" using assms(1) by (auto simp: fatal_at_def split: option.splits)
  have "EnsureState url ?d0 = (Ok r, ?d0)" by (rule EnsureState_existing) (use assms r in simp_all)
  then obtain code m where "runOnce V A url ?d0 = (Some (FatalCursorErr ''labeler subscription requires reset: '' code m), None, ?d0)"
    using r(2) by (simp add: runOnce_def Let_def)
  then show "fst (subscription_rounds V cfg url b (A # As) d) = [(None, None)]" "db_store (snd (subscription_rounds V cfg url b (A # As) d)) = db_store d"
    by simp_all
qed

lemma MarkFatalCursor_fatal:
  assumes "MarkFatalCursor url code msg d = (Ok u, d')"
  shows "fatal_at (db_dialect d) (db_store d') url" "trim_space url \<noteq> []"
proof -
  obtain st d1 where 1: "EnsureState url d = (Ok st, d1)"
    and 2: "update_state (\<lambda>D r. ls_url r = url) (\<lambda>now r. r\<lparr>ls_last_error := Some (formatFatalCursorLastError code msg), ls_updated_at := now\<rparr>) d1 = (Ok u, d')"
    using assms by (auto simp: MarkFatalCursor_def db_bind_Ok_iff)
  let ?f = "\<lambda>r. r\<lparr>ls_last_error := Some (formatFatalCursorLastError code msg), ls_updated_at := db_now d1\<rparr>"
  have "tbl_find ls_url url (tbl_update (\<lambda>r. ls_url r = url) ?f (st_label_states (db_store d1))) =
      (if url = url then map_option ?f (tbl_find ls_url url (st_label_states (db_store d1))) else tbl_find ls_url url (st_label_states (db_store d1)))"
    by (rule tbl_find_update_key) simp
  moreover have "st_label_states (db_store d') = tbl_update (\<lambda>r. ls_url r = url) ?f (st_label_states (db_store d1))"
    using db_exec_pure_OkD [OF 2 [unfolded update_state_def]] by simp
  ultimately have "tbl_find ls_url url (st_label_states (db_store d')) = Some (?f st)" using EnsureState_row [OF 1] by simp
  then show "fatal_at (db_dialect d) (db_store d') url"
    by (simp add: fatal_at_def fatal_row_def fatal_marker_recognised IsFatal_def fatal_marker_IsFatal)
  show "trim_space url \<noteq> []" using 1 by (auto simp: EnsureState_def db_bind_Ok_iff res_db_def validateSubscriptionURL_def split: if_splits)
qed

lemma normalizeConfig_bounds:
  "0 < lc_reconnect_min (normalizeConfig cfg)" "lc_reconnect_min (normalizeConfig cfg) \<le> lc_reconnect_max (normalizeConfig cfg)"
  by (simp_all add: normalizeConfig_def Let_def second_def)

section \<open>Properties\<close>


text \<open>C39: when a labeler reports a cursor error and the marker could be stored, then after any further calls of the repository, however they end, a
  subscription to that URL stops in its first round without dialling and without touching the tables.\<close>

theorem fatal_cursor_stops:
  assumes "recordFatalCursorAndReturnError url code msg d = (Some (FatalCursorErr p c m), d1)" "label_inv (db_dialect d) None (db_store d)"
    "label_reach L d1 d2" "at_faults A = []"
  shows "fst (subscription_rounds V cfg url b (A # As) d2) = [(None, None)] \<and> db_store (snd (subscription_rounds V cfg url b (A # As) d2)) = db_store d2"
proof -
  obtain u where mk: "MarkFatalCursor url code (fatalCursorResetMessage code msg) d = (Ok u, d1)"
    using assms(1) by (auto simp: recordFatalCursorAndReturnError_def Let_def split: prod.splits sum.splits)
  note h1 = label_reach_history [OF record_fatal_reach [of L d url code msg] refl assms(2)]
  then have i: "db_dialect d1 = db_dialect d" "label_inv (db_dialect d) None (db_store d1)" using assms(1) by simp_all
  note h2 = label_reach_history [OF assms(3) i]
  have "fatal_at (db_dialect d) (db_store d2) url"
    using cursor_mono(2) [of "db_dialect d" None "db_store d2" "db_store d1" url] h2 MarkFatalCursor_fatal(1) [OF mk] by simp
  then show ?thesis using fatal_stops [OF _ assms(4) MarkFatalCursor_fatal(2) [OF mk]] by simp
qed

section \<open>Witnesses\<close>

definition sample_label :: indigo_label where
  "sample_label = \<lparr>il_src = ''s'', il_uri = ''u'', il_cid = None, il_val = ''v'', il_neg = None, il_cts = ''1'', il_exp = None, il_sig = [], il_ver = None\<rparr>"

definition sample_subscriber_env :: subscriber_env where
  "sample_subscriber_env = \<lparr>sv_labels = sample_label_env, sv_marshal = (\<lambda>_. Ok []), sv_set_cursor = (\<lambda>u c. Ok u)\<rparr>"

text \<open>A labeler that sends one event and closes the stream.\<close>

definition sample_attempt :: attempt where
  "sample_attempt = \<lparr>at_now = 7, at_faults = [], at_dial = (\<lambda>_. None),
     at_stream = (\<lambda>h d. h (LabelLabels 5 [Some sample_label]) d), at_cancelled = False\<rparr>"

definition sample_labeler_config :: labeler_config where
  "sample_labeler_config = \<lparr>lc_urls = [''w''], lc_reconnect_min = 0, lc_reconnect_max = 0, lc_read_limit = 0\<rparr>"

lemma sample_stream_ok: "only_through_handler (at_stream sample_attempt)"
  unfolding only_through_handler_def sample_attempt_def by (auto intro: delivered.Frame [OF delivered.Opened surjective_pairing])

definition sample_rounds :: "(int option \<times> int option) list" where
  "sample_rounds = [(Some 0, Some 1000000000), (Some 5, Some 2000000000)]"

lemma sample_rounds_run:
  "\<exists>d'. runSubscription sample_subscriber_env (normalizeConfig sample_labeler_config) ''w'' [sample_attempt, sample_attempt] (sqlite_db empty_store 7) = (sample_rounds, d')"
  by (simp add: sample_db_simps runSubscription_def normalizeConfig_def sample_labeler_config_def sample_attempt_def runOnce_def EnsureState_def
      validateSubscriptionURL_def res_db_def db_return_def sqlite_db_def insert_state_def GetState_def update_state_def empty_store_def tbl_insert_ignore_def
      tbl_update_def tbl_find_def fresh_state_def advance_state_def buildSubscribeURL_def sample_subscriber_env_def UpdateConnected_def fatal_row_def IsFatal_def
      IsFatalCursorError_def ConvertLabels_def sample_label_def PersistEvent_def validateExternalLabelInputs_def sample_label_env_def db_tx_def ensureStateTx_def
      insertExternalLabelTx_def raw_json_in_def insert_label_def label_of_input_def updateLastSeqTx_def sample_rounds_def second_def next_backoff_def wrap64_def)


definition sample_stopped_db :: db where
  "sample_stopped_db = snd (recordFatalCursorAndReturnError ''w'' fatalCursorFuture [] sample_label_db)"

lemma sample_stopped:
  "recordFatalCursorAndReturnError ''w'' fatalCursorFuture [] sample_label_db
    = (Some (FatalCursorErr [] fatalCursorFuture (fatalCursorResetMessage fatalCursorFuture [])), sample_stopped_db)"
  unfolding sample_stopped_db_def sample_label_store
  by (simp add: sample_db_simps recordFatalCursorAndReturnError_def MarkFatalCursor_def EnsureState_def validateSubscriptionURL_def res_db_def db_return_def
      sqlite_db_def insert_state_def GetState_def update_state_def empty_store_def tbl_insert_ignore_def tbl_find_def fresh_state_def advance_state_def)

theorem fatal_cursor_stops_witness:
  "fst (subscription_rounds sample_subscriber_env (normalizeConfig sample_labeler_config) ''w'' 1 [sample_attempt] sample_stopped_db) = [(None, None)]
    \<and> db_store (snd (subscription_rounds sample_subscriber_env (normalizeConfig sample_labeler_config) ''w'' 1 [sample_attempt] sample_stopped_db)) = db_store sample_stopped_db"
proof -
  have inv: "label_inv (db_dialect sample_label_db) None (db_store sample_label_db)"
    using label_reach_history [of sample_label_env "sqlite_db empty_store 7" sample_label_db SQLite] empty_label_inv
      sample_label_reach [of sample_label_env "PersistOp ''w'' 5 [sample_input 0 True, sample_input 1 False]"]
    by (simp add: sqlite_db_def sample_label_db_def)
  show ?thesis
    by (rule fatal_cursor_stops [OF sample_stopped inv label_reach.Start]) (simp add: sample_attempt_def)
qed

end
