(* ===== verification/Sorted_Pages.thy ===== *)
theory Sorted_Pages
  imports Label_Lookup Validation_Refresh
begin

text \<open>
  Sorted, filtered and paginated record lists (\<open>internal/database/repositories/records.go\<close>, \<open>records_created_at_keyset.go\<close>) and the cursor values the
  GraphQL layer takes from a record (\<open>sortFieldValueForRecord\<close>, \<open>internal/graphql/schema/builder.go\<close>).

  The statements run on the tables of \<open>Db_Store\<close> through the engine \<open>store_engine\<close>: what a database makes of JSON texts, LIKE patterns and
  timestamp texts is the record \<open>json_engine\<close>; columns, comparisons, label subqueries and the order of rows are defined here.  A text that PostgreSQL
  cannot cast makes the statement fail, which is an entry of the fault script.  \<open>ORDER BY\<close> places NULLs as the dialect does unless the clause
  says otherwise.
\<close>

section \<open>The engine\<close>

text \<open>Values of columns and parameters: numbers sort before texts, as in SQLite; a comparison never mixes the kinds except on JSON values.\<close>

datatype sqlv = SNum int | STime int | SText string

fun sqlv_key :: "sqlv \<Rightarrow> int \<times> int \<times> string" where
  "sqlv_key (SNum i) = (0, i, [])"
| "sqlv_key (STime t) = (1, t, [])"
| "sqlv_key (SText s) = (2, 0, s)"

definition sqlv_cmp :: "string \<Rightarrow> sqlv \<Rightarrow> sqlv \<Rightarrow> bool" where
  "sqlv_cmp op a b =
     (if op = ''='' then a = b else if op = ''!='' then a \<noteq> b
      else if op = ''<'' then sqlv_key a < sqlv_key b else if op = ''>'' then sqlv_key b < sqlv_key a
      else if op = ''<='' then sqlv_key a \<le> sqlv_key b else op = ''>='' \<and> sqlv_key b \<le> sqlv_key a)"

text \<open>A GraphQL value on its way to the client: decoded JSON, and the maps resolvers build from it.\<close>

datatype node_value = NJson json | NNil | NLabels "label_row list" | NMap "(string \<times> node_value) list"

record json_engine =
  je_path :: "string \<Rightarrow> string list \<Rightarrow> sqlv option"
  je_guarded :: "string \<Rightarrow> string list \<Rightarrow> sqlv option"
  je_whole_text :: "string \<Rightarrow> sqlv option"
  je_whole_value :: "string \<Rightarrow> sqlv option"
  je_elements :: "string \<Rightarrow> string list \<Rightarrow> string list"
  je_numeric :: "sqlv \<Rightarrow> sqlv option"
  je_number :: "dbval \<Rightarrow> sqlv option"
  je_like :: "bool \<Rightarrow> sqlv \<Rightarrow> sqlv \<Rightarrow> bool"
  je_instant :: "string \<Rightarrow> int option"
  je_time_text :: "int \<Rightarrow> string"
  je_fmt :: "node_value \<Rightarrow> string"
  je_labels :: label_env

text \<open>The row under test and the rows its subqueries have bound.\<close>

record ctx =
  cx_row :: record_row
  cx_element :: "string option"
  cx_info :: "record_row option"
  cx_definition :: "record_row option"
  cx_label :: "label_row option"

definition row_ctx :: "record_row \<Rightarrow> ctx" where
  "row_ctx r = \<lparr>cx_row = r, cx_element = None, cx_info = None, cx_definition = None, cx_label = None\<rparr>"

fun src_json :: "json_src \<Rightarrow> ctx \<Rightarrow> string option" where
  "src_json RecordJson c = Some (rr_json (cx_row c))"
| "src_json ElementValue c = cx_element c"
| "src_json ContributorInfoJson c = map_option rr_json (cx_info c)"
| "src_json DefinitionJson c = map_option rr_json (cx_definition c)"

definition created_value :: "json_engine \<Rightarrow> dialect \<Rightarrow> string \<Rightarrow> sqlv option" where
  "created_value J D s = (if D = PostgreSQL then map_option STime (je_instant J s) else Some (SText s))"

definition column_value :: "json_engine \<Rightarrow> dialect \<Rightarrow> string \<Rightarrow> record_row \<Rightarrow> sqlv option" where
  "column_value J D n r =
     (if n = ''uri'' then Some (SText (rr_uri r)) else if n = ''did'' then Some (SText (rr_did r))
      else if n = ''collection'' then Some (SText (rr_collection r)) else if n = ''cid'' then Some (SText (rr_cid r))
      else if n = ''rkey'' then Some (SText (row_rkey D (rr_uri r))) else if n = ''validation_status'' then Some (SText (rr_status r))
      else if n = ''indexed_at'' then Some (STime (rr_indexed_at r))
      else if n = SortFieldRecordCreatedAt then Option.bind (rr_created_at r) (created_value J D)
      else None)"

fun store_expr :: "json_engine \<Rightarrow> dialect \<Rightarrow> store \<Rightarrow> sql_expr \<Rightarrow> ctx \<Rightarrow> sqlv option" where
  "store_expr J D s (Column n) c = column_value J D n (cx_row c)"
| "store_expr J D s (JsonPath src p) c = Option.bind (src_json src c) (\<lambda>j. je_path J j p)"
| "store_expr J D s (GuardedPath src p) c = Option.bind (src_json src c) (\<lambda>j. je_guarded J j p)"
| "store_expr J D s (WholeText src) c = Option.bind (src_json src c) (je_whole_text J)"
| "store_expr J D s (WholeValue src) c = Option.bind (src_json src c) (je_whole_value J)"
| "store_expr J D s (Numeric e) c = Option.bind (store_expr J D s e c) (je_numeric J)"
| "store_expr J D s (BadgeTypeOf uri ty) c =
     (case List.find (\<lambda>r. store_expr J D s uri c = Some (SText (rr_uri r)) \<and> rr_collection r = ''app.certified.badge.definition'') (st_records s) of
        None \<Rightarrow> None
      | Some r \<Rightarrow> store_expr J D s ty (c\<lparr>cx_definition := Some r\<rparr>))"
| "store_expr J D s (LabelColumn n) c =
     map_option (\<lambda>l. SText (if n = ''src'' then lb_src l else lb_val l)) (cx_label c)"
| "store_expr J D s (InfoColumn n) c =
     map_option (\<lambda>r. SText (if n = ''uri'' then rr_uri r else rr_collection r)) (cx_info c)"
| "store_expr J D s (Strftime e) c = store_expr J D s e c"

definition label_test_of :: "(label_row \<Rightarrow> bool) \<Rightarrow> ctx \<Rightarrow> bool" where
  "label_test_of P c = (case cx_label c of None \<Rightarrow> False | Some l \<Rightarrow> P l)"

definition store_engine :: "json_engine \<Rightarrow> dialect \<Rightarrow> int \<Rightarrow> store \<Rightarrow> (ctx, sqlv) engine" where
  "store_engine J D now s =
     \<lparr>en_expr = store_expr J D s,
      en_elements = (\<lambda>path c. map (\<lambda>j. c\<lparr>cx_element := Some j\<rparr>) (je_elements J (rr_json (cx_row c)) path)),
      en_infos = (\<lambda>c. map (\<lambda>r. c\<lparr>cx_info := Some r\<rparr>) (st_records s)),
      en_labels = (\<lambda>c. map (\<lambda>l. c\<lparr>cx_label := Some l\<rparr>) (st_labels s)),
      en_label_no_cid = label_test_of (\<lambda>l. lb_cid l = None),
      en_label_cid = (\<lambda>c. label_test_of (\<lambda>l. lb_cid l = Some (rr_cid (cx_row c))) c),
      en_label_subject = (\<lambda>sub c. label_test_of (\<lambda>l. lb_uri l = (case sub of SubjectRecord \<Rightarrow> rr_uri (cx_row c) | SubjectAuthor \<Rightarrow> rr_did (cx_row c))) c),
      en_label_active = label_test_of (externalLabelActivePredicate (je_labels J) now (st_labels s)),
      en_value = (\<lambda>v. case v of DText t \<Rightarrow> Some (SText t) | DNull \<Rightarrow> None | _ \<Rightarrow> je_number J v),
      en_time = (\<lambda>v. case v of DText t \<Rightarrow> map_option STime (je_instant J t) | _ \<Rightarrow> None),
      en_strftime = (\<lambda>v. case v of DText t \<Rightarrow> map_option STime (je_instant J t) | _ \<Rightarrow> None),
      en_cmp = sqlv_cmp,
      en_like = je_like J\<rparr>"

section \<open>ORDER BY and LIMIT\<close>

text \<open>An expression, whether it is ascending, and an explicit NULLS FIRST or NULLS LAST.\<close>

datatype order_key = OrderKey sql_expr bool "bool option"

definition nulls_first :: "dialect \<Rightarrow> bool \<Rightarrow> bool option \<Rightarrow> bool" where
  "nulls_first D asc nulls = (case nulls of Some b \<Rightarrow> b | None \<Rightarrow> if D = SQLite then asc else \<not> asc)"

definition value_before :: "bool \<Rightarrow> bool \<Rightarrow> sqlv option \<Rightarrow> sqlv option \<Rightarrow> bool" where
  "value_before nf asc x y =
     (case x of
        None \<Rightarrow> nf \<and> y \<noteq> None
      | Some a \<Rightarrow> (case y of None \<Rightarrow> \<not> nf | Some b \<Rightarrow> if asc then sqlv_key a < sqlv_key b else sqlv_key b < sqlv_key a))"

fun order_before :: "json_engine \<Rightarrow> dialect \<Rightarrow> store \<Rightarrow> order_key list \<Rightarrow> record_row \<Rightarrow> record_row \<Rightarrow> bool" where
  "order_before J D s [] r r' = False"
| "order_before J D s (OrderKey e asc nulls # ks) r r' =
     (let x = store_expr J D s e (row_ctx r); y = store_expr J D s e (row_ctx r') in
      value_before (nulls_first D asc nulls) asc x y \<or> x = y \<and> order_before J D s ks r r')"

fun insert_by :: "('a \<Rightarrow> 'a \<Rightarrow> bool) \<Rightarrow> 'a \<Rightarrow> 'a list \<Rightarrow> 'a list" where
  "insert_by R x [] = [x]"
| "insert_by R x (y # ys) = (if R x y then x # y # ys else y # insert_by R x ys)"

definition sort_by :: "('a \<Rightarrow> 'a \<Rightarrow> bool) \<Rightarrow> 'a list \<Rightarrow> 'a list" where
  "sort_by R xs = foldr (insert_by R) xs []"

definition sql_limit :: "dialect \<Rightarrow> int \<Rightarrow> 'a list \<Rightarrow> 'a list res" where
  "sql_limit D limit rows =
     (if limit < 0 then (case D of SQLite \<Rightarrow> Ok rows | PostgreSQL \<Rightarrow> Err ''LIMIT must not be negative'') else Ok (take (nat limit) rows))"

definition sql_rows :: "json_engine \<Rightarrow> dialect \<Rightarrow> int \<Rightarrow> store \<Rightarrow> sql_cond list \<Rightarrow> dbval list \<Rightarrow> record_row list" where
  "sql_rows J D now s conds args = filter (\<lambda>r. list_all (holds (store_engine J D now s) args (row_ctx r)) conds) (st_records s)"

definition sql_select :: "json_engine \<Rightarrow> sql_cond list \<Rightarrow> dbval list \<Rightarrow> order_key list \<Rightarrow> int \<Rightarrow> record_row list dbm" where
  "sql_select J conds args keys limit d =
     db_exec (\<lambda>s. res_map (\<lambda>rows. (rows, s))
       (sql_limit (db_dialect d) limit (sort_by (order_before J (db_dialect d) s keys) (sql_rows J (db_dialect d) (db_now d) s conds args)))) d"

section \<open>Sort expressions\<close>

record sort_option =
  so_field :: string
  so_direction :: string

definition directSortColumns :: "string list" where
  "directSortColumns = [''indexed_at'', ''uri'', ''did'', ''collection'', ''cid'', ''rkey'']"

definition keysetSortFieldName :: "sort_option option \<Rightarrow> string" where
  "keysetSortFieldName so = (case so of None \<Rightarrow> ''indexed_at'' | Some o1 \<Rightarrow> so_field o1)"

definition normalizedIndextAtExpr :: "dialect \<Rightarrow> sql_expr" where
  "normalizedIndextAtExpr D = (case D of PostgreSQL \<Rightarrow> Column ''indexed_at'' | SQLite \<Rightarrow> Strftime (Column ''indexed_at''))"

definition keysetSortFieldExpr :: "fmt_env \<Rightarrow> dialect \<Rightarrow> string \<Rightarrow> sql_expr res" where
  "keysetSortFieldExpr F D sortField =
     (if sortField = ''indexed_at'' then Ok (normalizedIndextAtExpr D)
      else if sortField \<in> set directSortColumns then Ok (Column sortField)
      else JSONExtract F D RecordJson sortField)"

definition keysetCursorValueExpr :: "dialect \<Rightarrow> string \<Rightarrow> nat \<Rightarrow> sql_arg" where
  "keysetCursorValueExpr D sortField n =
     (if sortField \<noteq> ''indexed_at'' then Param n else (case D of PostgreSQL \<Rightarrow> TimeParam n | SQLite \<Rightarrow> StrftimeParam n))"

text \<open>\<open>recordCreatedAtNullsClause\<close>: whether NULLs come first.\<close>

definition recordCreatedAtNullsClause :: "bool \<Rightarrow> bool" where
  "recordCreatedAtNullsClause asc = asc"

definition recordCreatedAtOrderBy :: "dialect \<Rightarrow> string \<Rightarrow> order_key list" where
  "recordCreatedAtOrderBy D direction =
     (let asc = (direction = ''ASC'') in
      [OrderKey (Column SortFieldRecordCreatedAt) asc (if D = PostgreSQL then Some (recordCreatedAtNullsClause asc) else None),
       OrderKey (Column ''uri'') asc None])"

definition buildSortExpr :: "fmt_env \<Rightarrow> dialect \<Rightarrow> sort_option option \<Rightarrow> order_key list res" where
  "buildSortExpr F D so =
     (case so of
        None \<Rightarrow> Ok [OrderKey (normalizedIndextAtExpr D) False None, OrderKey (Column ''uri'') False None]
      | Some o1 \<Rightarrow>
          (let dir = (if so_direction o1 \<noteq> ''ASC'' \<and> so_direction o1 \<noteq> ''DESC'' then ''DESC'' else so_direction o1); asc = (dir = ''ASC'') in
           if so_field o1 = SortFieldRecordCreatedAt then Ok (recordCreatedAtOrderBy D dir)
           else res_map (\<lambda>fieldExpr. OrderKey fieldExpr asc None # (if so_field o1 \<noteq> ''uri'' then [OrderKey (Column ''uri'') asc None] else []))
             (if so_field o1 = ''indexed_at'' then Ok (normalizedIndextAtExpr D)
              else if so_field o1 \<in> set directSortColumns then Ok (Column (so_field o1))
              else JSONExtract F D RecordJson (so_field o1))))"

section \<open>Pages\<close>

record keyset_segment =
  ks_condition :: "sql_cond list"
  ks_args :: "dbval list"

definition recordCreatedAtKeysetSegments :: "dialect \<Rightarrow> string \<Rightarrow> string \<Rightarrow> string \<Rightarrow> nat \<Rightarrow> keyset_segment list" where
  "recordCreatedAtKeysetSegments D direction cursorValue cursorURI first =
     (let ascending = (direction = ''ASC''); cmp = (if ascending then ''>'' else ''<''); created = Column SortFieldRecordCreatedAt in
      if cursorValue = [] then
        (let undated = \<lparr>ks_condition = [AllOf [NullTest True created, Compare cmp (Column ''uri'') (Param first)]], ks_args = [DText cursorURI]\<rparr> in
         if \<not> ascending then [undated] else [undated, \<lparr>ks_condition = [NullTest False created], ks_args = []\<rparr>])
      else
        (let dated = \<lparr>ks_condition = [RowCompare cmp created (Column ''uri'') (recordCreatedAtCursorValueExpr D first) (Param (first + 1))],
                      ks_args = [DText cursorValue, DText cursorURI]\<rparr> in
         if ascending then [dated] else [dated, \<lparr>ks_condition = [NullTest True created], ks_args = []\<rparr>]))"

record page_segment =
  pg_where :: "sql_cond list"
  pg_args :: "dbval list"

record sorted_page =
  sp_order :: "order_key list"
  sp_segments :: "page_segment list"

definition newSortedPage :: "fmt_env \<Rightarrow> dialect \<Rightarrow> sort_option option \<Rightarrow> sql_cond list \<Rightarrow> dbval list \<Rightarrow> keyset_segment list \<Rightarrow> sorted_page res" where
  "newSortedPage F D so whereParts args keyset0 =
     (let keyset = (if length keyset0 = 0 then [\<lparr>ks_condition = [], ks_args = []\<rparr>] else keyset0) in
      res_map (\<lambda>orderBy. \<lparr>sp_order = orderBy,
          sp_segments = map (\<lambda>k. \<lparr>pg_where = whereParts @ ks_condition k, pg_args = args @ ks_args k\<rparr>) keyset\<rparr>)
        (buildSortExpr F D so))"

definition validateSQLiteAggregateParameterCount :: "dialect \<Rightarrow> nat \<Rightarrow> unit res" where
  "validateSQLiteAggregateParameterCount D paramCount =
     (if D \<noteq> SQLite then Ok ()
      else if paramCount > SQLiteAggregateParameterLimit then
        Err (''sqlite query parameter count exceeds maximum allowed: '' @ show_nat paramCount @ '' exceeds maximum allowed '' @ show_nat SQLiteAggregateParameterLimit)
      else Ok ())"

definition querySegment :: "json_engine \<Rightarrow> sorted_page \<Rightarrow> string \<Rightarrow> page_segment \<Rightarrow> int \<Rightarrow> record_row list dbm" where
  "querySegment J page label segment limit d =
     (case validateSQLiteAggregateParameterCount (db_dialect d) (length (pg_args segment)) of
        Inl e \<Rightarrow> (Err e, d)
      | Inr _ \<Rightarrow> db_wrap (''failed to query '' @ label @ '' records: '') (sql_select J (pg_where segment) (pg_args segment) (sp_order page) limit) d)"

fun readSegments :: "int \<Rightarrow> (page_segment \<Rightarrow> int \<Rightarrow> record_row list dbm) \<Rightarrow> nat \<Rightarrow> page_segment list \<Rightarrow> record_row list \<Rightarrow> record_row list dbm" where
  "readSegments limit read i [] records = db_return records"
| "readSegments limit read i (segment # segments) records =
     (if i > 0 \<and> int (length records) \<ge> limit then db_return records
      else db_bind (read segment (limit - int (length records))) (\<lambda>page. readSegments limit read (Suc i) segments (records @ page)))"

definition readSortedPage :: "json_engine \<Rightarrow> sorted_page \<Rightarrow> int \<Rightarrow> string \<Rightarrow> record_row list dbm" where
  "readSortedPage J page limit label = readSegments limit (querySegment J page label) 0 (sp_segments page) []"

text \<open>The keyset condition of a cursor that is not on \<open>record_created_at\<close>.\<close>

definition keyset_condition :: "dialect \<Rightarrow> sort_option option \<Rightarrow> sql_expr \<Rightarrow> nat \<Rightarrow> sql_cond" where
  "keyset_condition D so e n =
     (let f = keysetSortFieldName so; cmp = (if (case so of None \<Rightarrow> True | Some o1 \<Rightarrow> so_direction o1 = ''DESC'') then ''<'' else ''>'') in
      AnyOf [Compare cmp e (keysetCursorValueExpr D f n),
             AllOf [Compare ''='' e (keysetCursorValueExpr D f (n + 1)), Compare cmp (Column ''uri'') (Param (n + 2))]])"

definition res_prefix :: "string \<Rightarrow> 'a res \<Rightarrow> 'a res" where
  "res_prefix p r = (case r of Inl e \<Rightarrow> Err (p @ e) | Inr x \<Rightarrow> Ok x)"

text \<open>Field, DID and label filters from a placeholder on: the conditions, their arguments and the next placeholder.\<close>

definition filter_parts :: "fmt_env \<Rightarrow> dialect \<Rightarrow> field_filter list \<Rightarrow> did_filter \<Rightarrow> label_filter_set \<Rightarrow> nat \<Rightarrow> (sql_cond list \<times> dbval list) res" where
  "filter_parts F D filters didFilter labels n =
     (case res_prefix ''failed to build filter clause: '' (buildFilterClause F D filters n) of
        Inl e \<Rightarrow> Err e
      | Inr (cs, ps) \<Rightarrow>
          (case res_prefix ''failed to build DID filter clause: '' (buildDIDFilterClause didFilter (n + length ps)) of
             Inl e \<Rightarrow> Err e
           | Inr (ds, qs, k) \<Rightarrow>
               (case res_prefix ''failed to build external label filter clause: '' (buildExternalLabelFilterSetClause F D labels (n + length ps + k)) of
                  Inl e \<Rightarrow> Err e
                | Inr (ls, rs) \<Rightarrow> Ok (cs @ ds @ ls, ps @ qs @ rs))))"

definition page_base :: "bool \<Rightarrow> sql_cond list" where
  "page_base validOnly = Compare ''='' (Column ''collection'') (Param 1) # (if validOnly then [TextIs (Column ''validation_status'') StatusValid] else [])"

definition sortedRecordsPage :: "fmt_env \<Rightarrow> dialect \<Rightarrow> string \<Rightarrow> field_filter list \<Rightarrow> did_filter \<Rightarrow> label_filter_set \<Rightarrow> sort_option option
    \<Rightarrow> string list \<Rightarrow> bool \<Rightarrow> sorted_page res" where
  "sortedRecordsPage F D collection filters didFilter labels so after validOnly =
     (let base = page_base validOnly;
          createdAtCursor = (length after = 2 \<and> keysetSortFieldName so = SortFieldRecordCreatedAt) in
      case (if length after = 2 \<and> \<not> createdAtCursor
            then res_map (\<lambda>e. ([keyset_condition D so e 2], [DText (after ! 0), DText (after ! 0), DText (after ! 1)]))
                   (keysetSortFieldExpr F D (keysetSortFieldName so))
            else Ok ([], [])) of
        Inl e \<Rightarrow> Err e
      | Inr (kc, ka) \<Rightarrow>
          (case filter_parts F D filters didFilter labels (2 + length ka) of
             Inl e \<Rightarrow> Err e
           | Inr (cs, ps) \<Rightarrow>
               newSortedPage F D so (base @ kc @ cs) (DText collection # ka @ ps)
                 (if createdAtCursor
                  then recordCreatedAtKeysetSegments D (case so of None \<Rightarrow> [] | Some o1 \<Rightarrow> so_direction o1) (after ! 0) (after ! 1) (2 + length ka + length ps)
                  else [])))"

definition getByCollectionSorted :: "json_engine \<Rightarrow> fmt_env \<Rightarrow> string \<Rightarrow> field_filter list \<Rightarrow> did_filter \<Rightarrow> label_filter_set \<Rightarrow> sort_option option
    \<Rightarrow> int \<Rightarrow> string list \<Rightarrow> bool \<Rightarrow> record_row list dbm" where
  "getByCollectionSorted J F collection filters didFilter labels so limit after validOnly d =
     (case sortedRecordsPage F (db_dialect d) collection filters didFilter labels so after validOnly of
        Inl e \<Rightarrow> (Err e, d)
      | Inr page \<Rightarrow> readSortedPage J page limit ''sorted'' d)"

definition reversedSort :: "sort_option option \<Rightarrow> sort_option" where
  "reversedSort so =
     (case so of
        None \<Rightarrow> \<lparr>so_field = ''indexed_at'', so_direction = ''ASC''\<rparr>
      | Some o1 \<Rightarrow> \<lparr>so_field = so_field o1, so_direction = (if so_direction o1 = ''ASC'' then ''DESC'' else ''ASC'')\<rparr>)"

definition getByCollectionReversed :: "json_engine \<Rightarrow> fmt_env \<Rightarrow> string \<Rightarrow> field_filter list \<Rightarrow> did_filter \<Rightarrow> label_filter_set \<Rightarrow> sort_option option
    \<Rightarrow> int \<Rightarrow> string list \<Rightarrow> bool \<Rightarrow> record_row list dbm" where
  "getByCollectionReversed J F collection filters didFilter labels so limit before validOnly d =
     (case sortedRecordsPage F (db_dialect d) collection filters didFilter labels (Some (reversedSort so)) before validOnly of
        Inl e \<Rightarrow> (Err e, d)
      | Inr page \<Rightarrow> db_bind (readSortedPage J page limit ''reversed'') (\<lambda>records. db_return (rev records)) d)"

definition no_label_filter :: label_record_filter where
  "no_label_filter = \<lparr>lf_has = None, lf_none = None\<rparr>"

abbreviation no_labels :: label_filter_set where
  "no_labels \<equiv> \<lparr>lfs_record = no_label_filter, lfs_author = no_label_filter\<rparr>"

abbreviation record_labels :: "label_record_filter \<Rightarrow> label_filter_set" where
  "record_labels f \<equiv> \<lparr>lfs_record = f, lfs_author = no_label_filter\<rparr>"

definition GetByCollectionSortedWithKeysetCursor where
  "GetByCollectionSortedWithKeysetCursor J F collection filters didFilter so limit after =
     getByCollectionSorted J F collection filters didFilter no_labels so limit after False"

definition GetByCollectionSortedWithExternalLabels where
  "GetByCollectionSortedWithExternalLabels J F collection filters didFilter labelFilter so limit after =
     getByCollectionSorted J F collection filters didFilter (record_labels labelFilter) so limit after False"

definition GetByCollectionSortedWithExternalLabelFilters where
  "GetByCollectionSortedWithExternalLabelFilters J F collection filters didFilter labels so limit after =
     getByCollectionSorted J F collection filters didFilter labels so limit after False"

definition GetValidByCollectionSorted where
  "GetValidByCollectionSorted J F collection filters didFilter labels so limit after =
     getByCollectionSorted J F collection filters didFilter labels so limit after True"

definition GetByCollectionReversedWithKeysetCursor where
  "GetByCollectionReversedWithKeysetCursor J F collection filters didFilter so limit before =
     getByCollectionReversed J F collection filters didFilter no_labels so limit before False"

definition GetByCollectionReversedWithExternalLabels where
  "GetByCollectionReversedWithExternalLabels J F collection filters didFilter labelFilter so limit before =
     getByCollectionReversed J F collection filters didFilter (record_labels labelFilter) so limit before False"

definition GetByCollectionReversedWithExternalLabelFilters where
  "GetByCollectionReversedWithExternalLabelFilters J F collection filters didFilter labels so limit before =
     getByCollectionReversed J F collection filters didFilter labels so limit before False"

definition GetValidByCollectionReversed where
  "GetValidByCollectionReversed J F collection filters didFilter labels so limit before =
     getByCollectionReversed J F collection filters didFilter labels so limit before True"

text \<open>\<open>GetByCollectionFilteredWithKeysetCursor\<close>: the default order with a cursor of timestamp and URI.\<close>

definition GetByCollectionFilteredWithKeysetCursor :: "json_engine \<Rightarrow> fmt_env \<Rightarrow> string \<Rightarrow> field_filter list \<Rightarrow> did_filter \<Rightarrow> int
    \<Rightarrow> string \<Rightarrow> string \<Rightarrow> record_row list dbm" where
  "GetByCollectionFilteredWithKeysetCursor J F collection filters didFilter limit afterTimestamp afterURI d =
     (let D = db_dialect d; e = normalizedIndextAtExpr D;
          (kc, ka) = (if afterTimestamp \<noteq> [] \<and> afterURI \<noteq> []
            then ([AnyOf [Compare ''<'' e (keysetCursorValueExpr D ''indexed_at'' 2),
                          AllOf [Compare ''='' e (keysetCursorValueExpr D ''indexed_at'' 3), Compare ''<'' (Column ''uri'') (Param 4)]]],
                  [DText afterTimestamp, DText afterTimestamp, DText afterURI])
            else ([], [])) in
      case res_prefix ''failed to build filter clause: '' (buildFilterClause F D filters (2 + length ka)) of
        Inl x \<Rightarrow> (Err x, d)
      | Inr (cs, ps) \<Rightarrow>
          (case res_prefix ''failed to build DID filter clause: '' (buildDIDFilterClause didFilter (2 + length ka + length ps)) of
             Inl x \<Rightarrow> (Err x, d)
           | Inr (ds, qs, _) \<Rightarrow>
               (let args = DText collection # ka @ ps @ qs in
                case validateSQLiteAggregateParameterCount D (length args) of
                  Inl x \<Rightarrow> (Err x, d)
                | Inr _ \<Rightarrow> db_wrap ''failed to query filtered records: ''
                    (sql_select J (Compare ''='' (Column ''collection'') (Param 1) # kc @ cs @ ds) args [OrderKey e False None, OrderKey (Column ''uri'') False None] limit) d)))"

definition getCollectionCountFiltered :: "json_engine \<Rightarrow> fmt_env \<Rightarrow> string \<Rightarrow> field_filter list \<Rightarrow> did_filter \<Rightarrow> label_filter_set \<Rightarrow> bool \<Rightarrow> int dbm" where
  "getCollectionCountFiltered J F collection filters didFilter labels validOnly d =
     (let base = Compare ''='' (Column ''collection'') (Param 1) # (if validOnly then [Compare ''='' (Column ''validation_status'') (Param 2)] else []);
          args = DText collection # (if validOnly then [DText StatusValid] else []) in
      case filter_parts F (db_dialect d) filters didFilter labels (1 + length args) of
        Inl e \<Rightarrow> (Err e, d)
      | Inr (cs, ps) \<Rightarrow>
          (case validateSQLiteAggregateParameterCount (db_dialect d) (length (args @ ps)) of
             Inl e \<Rightarrow> (Err e, d)
           | Inr _ \<Rightarrow> db_exec (\<lambda>s. Ok (int (length (sql_rows J (db_dialect d) (db_now d) s (base @ cs) (args @ ps))), s)) d))"

definition GetCollectionCountFiltered where
  "GetCollectionCountFiltered J F collection filters didFilter = getCollectionCountFiltered J F collection filters didFilter no_labels False"

definition GetCollectionCountFilteredWithExternalLabels where
  "GetCollectionCountFilteredWithExternalLabels J F collection filters didFilter labelFilter =
     getCollectionCountFiltered J F collection filters didFilter (record_labels labelFilter) False"

definition GetCollectionCountFilteredWithExternalLabelFilters where
  "GetCollectionCountFilteredWithExternalLabelFilters J F collection filters didFilter labels = getCollectionCountFiltered J F collection filters didFilter labels False"

definition GetValidCollectionCountFiltered where
  "GetValidCollectionCountFiltered J F collection filters didFilter labels = getCollectionCountFiltered J F collection filters didFilter labels True"

text \<open>The cursor value of a record: the first member of its cursor; the second is its URI.  \<open>je_fmt\<close> is the verb \<open>%v\<close>, applied to a member of the
  record's value; the record key is the generated column of the database \<open>D\<close>.\<close>

definition sortFieldValueForRecord :: "json_engine \<Rightarrow> dialect \<Rightarrow> sort_option option \<Rightarrow> record_row \<Rightarrow> node_value \<Rightarrow> string" where
  "sortFieldValueForRecord J D so r value =
     (case so of
        None \<Rightarrow> je_time_text J (rr_indexed_at r)
      | Some o1 \<Rightarrow>
          if so_field o1 = SortFieldRecordCreatedAt then null_string (rr_created_at r)
          else if so_field o1 = ''indexed_at'' then je_time_text J (rr_indexed_at r)
          else if so_field o1 = ''uri'' then rr_uri r
          else if so_field o1 = ''did'' then rr_did r
          else if so_field o1 = ''collection'' then rr_collection r
          else if so_field o1 = ''cid'' then rr_cid r
          else if so_field o1 = ''rkey'' then row_rkey D (rr_uri r)
          else (case value of
                  NMap m \<Rightarrow> (case map_of m (so_field o1) of Some v \<Rightarrow> if v = NNil \<or> v = NJson JNull then [] else je_fmt J v | None \<Rightarrow> [])
                | _ \<Rightarrow> []))"

section \<open>Sorting by a strict order\<close>

definition total_on_rows :: "('r \<Rightarrow> 'r \<Rightarrow> bool) \<Rightarrow> 'r set \<Rightarrow> bool" where
  "total_on_rows R A = (\<forall>x\<in>A. \<forall>y\<in>A. x = y \<or> R x y \<or> R y x)"

lemma total_on_rows_subset: "total_on_rows R A \<Longrightarrow> B \<subseteq> A \<Longrightarrow> total_on_rows R B"
  unfolding total_on_rows_def by blast

lemma set_insert_by [simp]: "set (insert_by R x ys) = insert x (set ys)"
  by (induction ys) auto

lemma set_sort_by [simp]: "set (sort_by R xs) = set xs"
  by (induction xs) (simp_all add: sort_by_def)

text \<open>The contract of an ORDER BY clause: a strict order.  What a page of a keyset pagination is follows from it.\<close>

locale row_order =
  fixes R :: "'r \<Rightarrow> 'r \<Rightarrow> bool"
  assumes irrefl: "\<not> R x x" and trans: "R x y \<Longrightarrow> R y z \<Longrightarrow> R x z"
begin

lemma asym: "R x y \<Longrightarrow> \<not> R y x"
  using irrefl trans by blast

lemma sorted_insert_by:
  assumes "sorted_wrt R ys" "x \<notin> set ys" "total_on_rows R (insert x (set ys))"
  shows "sorted_wrt R (insert_by R x ys)"
  using assms
proof (induction ys)
  case (Cons y ys)
  show ?case
  proof (cases "R x y")
    case True
    then show ?thesis using Cons.prems(1) trans by auto
  next
    case False
    then have "R y x" using Cons.prems(2,3) unfolding total_on_rows_def by auto
    moreover have "total_on_rows R (insert x (set ys))" by (rule total_on_rows_subset [OF Cons.prems(3)]) auto
    ultimately show ?thesis using Cons False by simp
  qed
qed simp

lemma sorted_sort_by: "distinct xs \<Longrightarrow> total_on_rows R (set xs) \<Longrightarrow> sorted_wrt R (sort_by R xs)"
proof (induction xs)
  case (Cons x xs)
  have "total_on_rows R (set xs)" by (rule total_on_rows_subset [OF Cons.prems(2)]) auto
  then have "sorted_wrt R (sort_by R xs)" using Cons by simp
  then have "sorted_wrt R (insert_by R x (sort_by R xs))" by (rule sorted_insert_by) (use Cons.prems in simp_all)
  then show ?case by (simp add: sort_by_def)
qed (simp add: sort_by_def)

lemma sorted_unique: "sorted_wrt R xs \<Longrightarrow> sorted_wrt R ys \<Longrightarrow> set xs = set ys \<Longrightarrow> xs = ys"
proof (induction xs arbitrary: ys)
  case (Cons x xs)
  obtain y zs where y: "ys = y # zs" using Cons.prems(3) by (cases ys) auto
  have x: "\<And>a. a \<in> set xs \<Longrightarrow> R x a" and z: "\<And>a. a \<in> set zs \<Longrightarrow> R y a" using Cons.prems(1,2) y by auto
  have "x \<in> insert y (set zs)" "y \<in> insert x (set xs)" using Cons.prems(3) y by auto
  then have xy: "x = y" using x z asym by blast
  have "x \<notin> set xs" "y \<notin> set zs" using x z irrefl by blast+
  then have "set xs = set zs" using Cons.prems(3) y xy by auto
  then show ?case using Cons.IH Cons.prems(1,2) y xy by simp
qed simp

lemma sort_by_eqI:
  assumes "distinct xs" "total_on_rows R (set xs)" "sorted_wrt R ys" "set ys = set xs"
  shows "sort_by R xs = ys"
  by (rule sorted_unique [OF sorted_sort_by [OF assms(1,2)] assms(3)]) (simp add: assms(4))

lemma sort_by_rev:
  assumes "distinct xs" "total_on_rows R (set xs)" "row_order R'" "\<And>x y. R' x y = R y x"
  shows "sort_by R' xs = rev (sort_by R xs)"
proof -
  have "R' = (\<lambda>x y. R y x)" using assms(4) by blast
  then have "sorted_wrt R' (rev (sort_by R xs))" using sorted_sort_by [OF assms(1,2)] by (simp add: sorted_wrt_rev)
  moreover have "total_on_rows R' (set xs)" using assms(2,4) unfolding total_on_rows_def by blast
  ultimately show ?thesis using row_order.sort_by_eqI [OF assms(3,1)] by simp
qed

text \<open>The rows after a row of the listing are the ones it comes before.\<close>

lemma sort_by_after:
  assumes "distinct xs" "total_on_rows R (set xs)" "sort_by R xs = pre @ r # suf"
  shows "sort_by R (filter (R r) xs) = suf"
proof -
  have s: "sorted_wrt R (pre @ r # suf)" using sorted_sort_by [OF assms(1,2)] assms(3) by simp
  have m: "set xs = set pre \<union> {r} \<union> set suf" using set_sort_by [of R xs] assms(3) by auto
  have "set suf = {x \<in> set xs. R r x}"
  proof -
    have "R r x" if "x \<in> set suf" for x using s that by (simp add: sorted_wrt_append)
    moreover have "\<not> R r x" if "x \<in> set pre" for x using s that asym by (simp add: sorted_wrt_append)
    ultimately show ?thesis using m irrefl by blast
  qed
  moreover have "sorted_wrt R suf" using s by (simp add: sorted_wrt_append)
  moreover have "total_on_rows R (set (filter (R r) xs))" by (rule total_on_rows_subset [OF assms(2)]) auto
  ultimately show ?thesis using assms(1) by (intro sort_by_eqI) simp_all
qed

text \<open>A listing falls apart into segments when every row of the first comes before every row of the second.\<close>

lemma sort_by_segments:
  assumes "distinct xs" "total_on_rows R (set xs)" "\<And>x y. x \<in> set xs \<Longrightarrow> y \<in> set xs \<Longrightarrow> P x \<Longrightarrow> Q y \<Longrightarrow> R x y"
  shows "sort_by R (filter (\<lambda>x. P x \<or> Q x) xs) = sort_by R (filter P xs) @ sort_by R (filter Q xs)"
proof (rule sort_by_eqI)
  have t: "total_on_rows R (set (filter T xs))" for T by (rule total_on_rows_subset [OF assms(2)]) auto
  show "total_on_rows R (set (filter (\<lambda>x. P x \<or> Q x) xs))" by (rule t)
  show "sorted_wrt R (sort_by R (filter P xs) @ sort_by R (filter Q xs))"
    using sorted_sort_by [OF _ t] assms(1,3) by (simp add: sorted_wrt_append)
qed (use assms(1) in auto)

end

lemma sqlv_key_inj: "sqlv_key a = sqlv_key b \<Longrightarrow> a = b"
  by (cases a; cases b) simp_all

lemma value_before_irrefl: "\<not> value_before nf asc x x"
  by (cases x) (simp_all add: value_before_def)

lemma value_before_trans: "value_before nf asc x y \<Longrightarrow> value_before nf asc y z \<Longrightarrow> value_before nf asc x z"
  by (cases x; cases y; cases z) (auto simp: value_before_def split: if_splits)

lemma value_before_total: "x = y \<or> value_before nf asc x y \<or> value_before nf asc y x"
proof -
  have "a = b \<or> sqlv_key a < sqlv_key b \<or> sqlv_key b < sqlv_key a" for a b using sqlv_key_inj less_linear by metis
  then show ?thesis by (cases x; cases y) (auto simp: value_before_def)
qed

lemma order_before_irrefl: "\<not> order_before J D s ks r r"
  by (induction ks) (auto simp: Let_def value_before_irrefl elim!: order_before.elims)

lemma order_before_step: "order_before J D s (k # ks) r r' =
    (case k of OrderKey e asc nulls \<Rightarrow>
       value_before (nulls_first D asc nulls) asc (store_expr J D s e (row_ctx r)) (store_expr J D s e (row_ctx r'))
       \<or> store_expr J D s e (row_ctx r) = store_expr J D s e (row_ctx r') \<and> order_before J D s ks r r')"
  by (cases k) (simp add: Let_def)

lemma order_before_trans: "order_before J D s ks a b \<Longrightarrow> order_before J D s ks b c \<Longrightarrow> order_before J D s ks a c"
proof (induction ks)
  case (Cons k ks)
  obtain e asc nulls where k: "k = OrderKey e asc nulls" by (cases k)
  show ?case using Cons value_before_trans [of "nulls_first D asc nulls" asc] unfolding order_before_step k order_key.case by metis
qed simp

interpretation page_order: row_order "order_before J D s ks" for J D s ks
  by unfold_locales (auto simp: order_before_irrefl intro: order_before_trans)

lemma order_before_total:
  assumes "distinct (map rr_uri rows)" "OrderKey (Column ''uri'') asc nulls \<in> set ks"
  shows "total_on_rows (order_before J D s ks) (set rows)"
proof -
  have "order_before J D s ks x y \<or> order_before J D s ks y x" if "rr_uri x \<noteq> rr_uri y" for x y
    using assms(2)
  proof (induction ks)
    case (Cons k ks)
    obtain e as nu where k: "k = OrderKey e as nu" by (cases k)
    show ?case
    proof (cases "store_expr J D s e (row_ctx x) = store_expr J D s e (row_ctx y)")
      case False
      then show ?thesis using value_before_total unfolding order_before_step k order_key.case by metis
    next
      case True
      then have "e \<noteq> Column ''uri''" using that by (auto simp: column_value_def row_ctx_def)
      then have "OrderKey (Column ''uri'') asc nulls \<in> set ks" using Cons.prems k by auto
      then show ?thesis using Cons.IH True unfolding order_before_step k order_key.case by metis
    qed
  qed simp
  moreover have "x = y" if "x \<in> set rows" "y \<in> set rows" "rr_uri x = rr_uri y" for x y
    using assms(1) that by (simp add: distinct_map inj_on_def)
  ultimately show ?thesis unfolding total_on_rows_def by blast
qed

text \<open>Reversing the direction of every key reverses the order.\<close>

lemma value_before_flip: "value_before (\<not> nf) (\<not> asc) x y = value_before nf asc y x"
  by (cases x; cases y) (auto simp: value_before_def)

fun flip_key :: "order_key \<Rightarrow> order_key" where
  "flip_key (OrderKey e asc nulls) = OrderKey e (\<not> asc) (map_option Not nulls)"

lemma order_before_flip: "order_before J D s (map flip_key ks) x y = order_before J D s ks y x"
proof (induction ks)
  case (Cons k ks)
  obtain e asc nulls where k: "k = OrderKey e asc nulls" by (cases k)
  have n: "nulls_first D (\<not> asc) (map_option Not nulls) = (\<not> nulls_first D asc nulls)" by (auto simp: nulls_first_def split: option.splits)
  show ?case unfolding list.map k flip_key.simps order_before_step order_key.case n value_before_flip Cons by auto
qed simp

end
