(* ===== verification/Sorted_Paging.thy ===== *)
theory Sorted_Paging
  imports Sorted_Pages
begin

text \<open>
  Keyset pagination of the sorted record lists of \<open>Sorted_Pages\<close>: the rows a request wants, the listing it pages through, and that
  a page is the rows after (or before) the row its cursor was taken from, in the order of the listing, cut at the limit.
\<close>

section \<open>Reading a page\<close>

definition segment_rows :: "json_engine \<Rightarrow> db \<Rightarrow> order_key list \<Rightarrow> page_segment \<Rightarrow> record_row list" where
  "segment_rows J d keys sg =
     sort_by (order_before J (db_dialect d) (db_store d) keys) (sql_rows J (db_dialect d) (db_now d) (db_store d) (pg_where sg) (pg_args sg))"

definition segment_ok :: "dialect \<Rightarrow> page_segment \<Rightarrow> bool" where
  "segment_ok D sg = is_ok (validateSQLiteAggregateParameterCount D (length (pg_args sg)))"

lemma querySegment_result:
  assumes "db_faults d = []" "segment_ok (db_dialect d) sg" "0 \<le> limit"
  shows "querySegment J page label sg limit d = (Ok (take (nat limit) (segment_rows J d (sp_order page) sg)), d)"
proof -
  have "validateSQLiteAggregateParameterCount (db_dialect d) (length (pg_args sg)) = Ok ()"
    using assms(2) by (auto simp: segment_ok_def is_ok_def split: sum.splits)
  then show ?thesis using assms(1,3)
    by (simp add: querySegment_def db_wrap_def sql_select_def db_exec_no_faults sql_limit_def res_map_def segment_rows_def)
qed

lemma readSegments_result:
  assumes "db_faults d = []" "list_all (segment_ok (db_dialect d)) sgs" "int (length acc) \<le> limit"
  shows "readSegments limit (querySegment J page label) i sgs acc d =
    (Ok (take (nat limit) (acc @ concat (map (segment_rows J d (sp_order page)) sgs))), d)"
  using assms
proof (induction sgs arbitrary: i acc)
  case Nil
  then show ?case by (simp add: db_return_def)
next
  case (Cons sg sgs)
  show ?case
  proof (cases "i > 0 \<and> int (length acc) \<ge> limit")
    case True
    then have "nat limit = length acc" using Cons.prems(3) by simp
    then show ?thesis using True by (simp add: db_return_def)
  next
    case False
    let ?p = "take (nat (limit - int (length acc))) (segment_rows J d (sp_order page) sg)"
    have q: "querySegment J page label sg (limit - int (length acc)) d = (Ok ?p, d)"
      by (rule querySegment_result) (use Cons.prems in simp_all)
    have l: "int (length (acc @ ?p)) \<le> limit" using Cons.prems(3) by simp
    have n: "nat (limit - int (length acc)) = nat limit - length acc" by simp
    have "take (nat limit) ((acc @ ?p) @ rest) = take (nat limit) (acc @ segment_rows J d (sp_order page) sg @ rest)" for rest
      using Cons.prems(3) unfolding n by (simp add: min_def)
    then show ?thesis using False q Cons.IH [of "acc @ ?p" "Suc i", OF Cons.prems(1) _ l] Cons.prems(2) by (auto simp: db_bind_def)
  qed
qed

lemma readSortedPage_result:
  assumes "db_faults d = []" "list_all (segment_ok (db_dialect d)) (sp_segments page)" "0 \<le> limit"
  shows "readSortedPage J page limit label d = (Ok (take (nat limit) (concat (map (segment_rows J d (sp_order page)) (sp_segments page)))), d)"
  using readSegments_result [OF assms(1,2), of "[]" limit] assms(3) by (simp add: readSortedPage_def)

section \<open>What a page is asked for\<close>

definition wanted :: "json_engine \<Rightarrow> fmt_env \<Rightarrow> db \<Rightarrow> string \<Rightarrow> field_filter list \<Rightarrow> did_filter \<Rightarrow> label_filter_set \<Rightarrow> bool \<Rightarrow> record_row \<Rightarrow> bool" where
  "wanted J F d collection filters didFilter labels validOnly r =
     (let E = store_engine J (db_dialect d) (db_now d) (db_store d) in
      rr_collection r = collection \<and> (validOnly \<longrightarrow> rr_status r = StatusValid)
      \<and> filters_mean F (db_dialect d) E filters (row_ctx r) \<and> did_means E didFilter (row_ctx r)
      \<and> labels_mean F (db_dialect d) E labels (row_ctx r))"

lemma res_prefix_Ok: "res_prefix p r = Ok x \<longleftrightarrow> r = Ok x"
  by (cases r) (simp_all add: res_prefix_def)

lemma filter_parts_mean:
  assumes "filter_parts F D filters didFilter labels n = Ok (cs, ps)" "1 \<le> n"
  shows "conds_mean D E n cs ps (length ps) (\<lambda>c. filters_mean F D E filters c \<and> did_means E didFilter c \<and> labels_mean F D E labels c)"
proof -
  obtain as qs bs rs k ls ts where a: "buildFilterClause F D filters n = Ok (as, qs)" and b: "buildDIDFilterClause didFilter (n + length qs) = Ok (bs, rs, k)"
    and c: "buildExternalLabelFilterSetClause F D labels (n + length qs + k) = Ok (ls, ts)" and r: "cs = as @ bs @ ls" "ps = qs @ rs @ ts"
    using assms(1) by (auto simp: filter_parts_def res_prefix_def split: sum.splits prod.splits)
  have 1: "1 \<le> n + length qs" "1 \<le> n + length qs + k" using assms(2) by simp_all
  note bc = conds_mean_append [OF did_conds_mean [OF b, of D E] label_set_conds_mean [OF c 1(2), of E] 1(1)]
  note abc = conds_mean_append [OF filter_clause_mean [OF a assms(2), of E] bc assms(2)]
  moreover have "k = length rs" using did_conds_mean [OF b, of D E] by (simp add: conds_mean_def)
  ultimately show ?thesis unfolding r by simp
qed

abbreviation eng :: "json_engine \<Rightarrow> db \<Rightarrow> (ctx, sqlv) engine" where
  "eng J d \<equiv> store_engine J (db_dialect d) (db_now d) (db_store d)"

lemma store_engine_simps [simp]:
  "en_expr (store_engine J D now s) = store_expr J D s" "en_cmp (store_engine J D now s) = sqlv_cmp"
  "en_value (store_engine J D now s) (DText t) = Some (SText t)"
  "en_time (store_engine J D now s) (DText t) = map_option STime (je_instant J t)"
  "en_strftime (store_engine J D now s) (DText t) = map_option STime (je_instant J t)"
  by (simp_all add: store_engine_def)

lemma sqlv_cmp_simps [simp]:
  "sqlv_cmp ''='' a b = (a = b)" "sqlv_cmp ''<'' a b = (sqlv_key a < sqlv_key b)" "sqlv_cmp ''>'' a b = (sqlv_key b < sqlv_key a)"
  by (simp_all add: sqlv_cmp_def)

lemma base_holds:
  "list_all (holds (eng J d) (DText collection # args) (row_ctx r))
     (page_base validOnly)
   = (rr_collection r = collection \<and> (validOnly \<longrightarrow> rr_status r = StatusValid))"
  by (auto simp: page_base_def both_def arg_value_def column_value_def row_ctx_def)

text \<open>The rows of a segment: those that are wanted and satisfy its keyset conditions.\<close>

lemma segment_select:
  assumes "filter_parts F (db_dialect d) filters didFilter labels (2 + length ka) = Ok (cs, ps)"
  shows "sql_rows J (db_dialect d) (db_now d) (db_store d)
      ((page_base validOnly) @ kc @ cs @ ks)
      ((DText collection # ka @ ps) @ kargs)
    = filter (\<lambda>r. wanted J F d collection filters didFilter labels validOnly r
        \<and> list_all (holds (eng J d) ((DText collection # ka @ ps) @ kargs) (row_ctx r)) kc
        \<and> list_all (holds (eng J d) ((DText collection # ka @ ps) @ kargs) (row_ctx r)) ks) (st_records (db_store d))"
proof -
  have m: "conds_mean (db_dialect d) (eng J d) (2 + length ka) cs ps (length ps)
      (\<lambda>c. filters_mean F (db_dialect d) (eng J d) filters c \<and> did_means (eng J d) didFilter c \<and> labels_mean F (db_dialect d) (eng J d) labels c)"
    by (rule filter_parts_mean [OF assms]) simp
  have f: "list_all (holds (eng J d) ((DText collection # ka @ ps) @ kargs) c) cs =
      (filters_mean F (db_dialect d) (eng J d) filters c \<and> did_means (eng J d) didFilter c \<and> labels_mean F (db_dialect d) (eng J d) labels c)" for c
    using conds_mean_holds [OF m, of "DText collection # ka" kargs c] by simp
  have b: "list_all (holds (eng J d) ((DText collection # ka @ ps) @ kargs) (row_ctx r))
      (page_base validOnly)
      = (rr_collection r = collection \<and> (validOnly \<longrightarrow> rr_status r = StatusValid))" for r
    using base_holds [of J d collection "(ka @ ps) @ kargs"] by simp
  show ?thesis unfolding sql_rows_def by (rule filter_cong [OF refl], unfold list_all_append b f wanted_def Let_def) blast
qed

section \<open>Keyset conditions follow the order\<close>

text \<open>The indexing times of the rows are read back as the cursor writes them, and their creation times are non-empty texts the database can read.\<close>

definition times_ok :: "json_engine \<Rightarrow> dialect \<Rightarrow> record_row list \<Rightarrow> bool" where
  "times_ok J D rows =
     list_all (\<lambda>r. je_instant J (je_time_text J (rr_indexed_at r)) = Some (rr_indexed_at r)
       \<and> (case rr_created_at r of None \<Rightarrow> True | Some s \<Rightarrow> s \<noteq> [] \<and> created_value J D s \<noteq> None)) rows"

definition dir_ok :: "sort_option option \<Rightarrow> bool" where
  "dir_ok so = (case so of None \<Rightarrow> True | Some o1 \<Rightarrow> so_direction o1 = ''ASC'' \<or> so_direction o1 = ''DESC'')"

definition so_asc :: "sort_option option \<Rightarrow> bool" where
  "so_asc so = (case so of None \<Rightarrow> False | Some o1 \<Rightarrow> so_direction o1 = ''ASC'')"

lemma direct_keys:
  assumes "keysetSortFieldName so \<in> set directSortColumns" "dir_ok so"
  obtains e where "keysetSortFieldExpr F D (keysetSortFieldName so) = Ok e"
    "buildSortExpr F D so = Ok (OrderKey e (so_asc so) None # (if keysetSortFieldName so \<noteq> ''uri'' then [OrderKey (Column ''uri'') (so_asc so) None] else []))"
    "keysetSortFieldName so = ''indexed_at'' \<Longrightarrow> e = normalizedIndextAtExpr D" "keysetSortFieldName so \<noteq> ''indexed_at'' \<Longrightarrow> e = Column (keysetSortFieldName so)"
proof (cases so)
  case None
  then show ?thesis using that [of "normalizedIndextAtExpr D"]
    by (simp add: keysetSortFieldExpr_def keysetSortFieldName_def buildSortExpr_def so_asc_def)
next
  case (Some o1)
  have "so_field o1 \<noteq> SortFieldRecordCreatedAt" using assms(1) Some by (auto simp: keysetSortFieldName_def directSortColumns_def SortFieldRecordCreatedAt_def)
  then show ?thesis using assms Some that [of "if so_field o1 = ''indexed_at'' then normalizedIndextAtExpr D else Column (so_field o1)"]
    by (auto simp: keysetSortFieldExpr_def keysetSortFieldName_def buildSortExpr_def so_asc_def res_map_def dir_ok_def Let_def)
qed

text \<open>The sort value of a row, and the cursor value made of it as the engine reads it.\<close>

lemma direct_value:
  assumes "keysetSortFieldName so \<in> set directSortColumns" "je_instant J (je_time_text J (rr_indexed_at r)) = Some (rr_indexed_at r)"
    "keysetSortFieldName so = ''indexed_at'' \<Longrightarrow> e = normalizedIndextAtExpr D" "keysetSortFieldName so \<noteq> ''indexed_at'' \<Longrightarrow> e = Column (keysetSortFieldName so)"
    "args ! (n - 1) = DText (sortFieldValueForRecord J D so r nv)" "db_dialect d = D"
  shows "\<exists>v. store_expr J D s e (row_ctx r) = Some v \<and> arg_value (eng J d) args (keysetCursorValueExpr D (keysetSortFieldName so) n) = Some v"
proof (cases "keysetSortFieldName so = ''indexed_at''")
  case True
  then have "sortFieldValueForRecord J D so r nv = je_time_text J (rr_indexed_at r)"
    by (auto simp: keysetSortFieldName_def sortFieldValueForRecord_def SortFieldRecordCreatedAt_def split: option.splits)
  moreover have "e = normalizedIndextAtExpr D" using assms(3) True by simp
  ultimately show ?thesis using assms(2,5,6) True
    by (cases D) (auto simp: normalizedIndextAtExpr_def keysetCursorValueExpr_def arg_value_def column_value_def row_ctx_def)
next
  case False
  then obtain o1 where so: "so = Some o1" "so_field o1 = keysetSortFieldName so" by (cases so) (simp_all add: keysetSortFieldName_def)
  have "keysetSortFieldName so \<in> {''uri'', ''did'', ''collection'', ''cid'', ''rkey''}" using assms(1) False by (auto simp: directSortColumns_def)
  then have "column_value J D (keysetSortFieldName so) r = Some (SText (sortFieldValueForRecord J D so r nv))"
    using so(2) unfolding so(1) by (auto simp: column_value_def sortFieldValueForRecord_def SortFieldRecordCreatedAt_def)
  then show ?thesis using assms(5) False assms(4) [OF False] by (simp add: keysetCursorValueExpr_def arg_value_def row_ctx_def)
qed

lemma direct_column_value:
  assumes "keysetSortFieldName so \<in> set directSortColumns"
    "keysetSortFieldName so = ''indexed_at'' \<Longrightarrow> e = normalizedIndextAtExpr D" "keysetSortFieldName so \<noteq> ''indexed_at'' \<Longrightarrow> e = Column (keysetSortFieldName so)"
  shows "\<exists>v. store_expr J D s e (row_ctx x) = Some v"
  using assms by (cases D) (auto simp: normalizedIndextAtExpr_def column_value_def directSortColumns_def)

lemma direct_keyset_holds:
  assumes "keysetSortFieldName so \<in> set directSortColumns" "dir_ok so" "je_instant J (je_time_text J (rr_indexed_at r)) = Some (rr_indexed_at r)"
    "keysetSortFieldExpr F (db_dialect d) (keysetSortFieldName so) = Ok e" "buildSortExpr F (db_dialect d) so = Ok keys"
    "args ! 1 = DText (sortFieldValueForRecord J (db_dialect d) so r nv)" "args ! 2 = DText (sortFieldValueForRecord J (db_dialect d) so r nv)" "args ! 3 = DText (rr_uri r)"
  shows "holds (eng J d) args (row_ctx x) (keyset_condition (db_dialect d) so e 2) = order_before J (db_dialect d) (db_store d) keys r x"
proof -
  let ?D = "db_dialect d" and ?f = "keysetSortFieldName so"
  obtain e' where e': "keysetSortFieldExpr F ?D ?f = Ok e'"
    "buildSortExpr F ?D so = Ok (OrderKey e' (so_asc so) None # (if ?f \<noteq> ''uri'' then [OrderKey (Column ''uri'') (so_asc so) None] else []))"
    "?f = ''indexed_at'' \<Longrightarrow> e' = normalizedIndextAtExpr ?D" "?f \<noteq> ''indexed_at'' \<Longrightarrow> e' = Column ?f"
    using direct_keys [OF assms(1,2), where F = F and D = ?D] by metis
  then have e: "e' = e" and keys: "keys = OrderKey e (so_asc so) None # (if ?f \<noteq> ''uri'' then [OrderKey (Column ''uri'') (so_asc so) None] else [])"
    using assms(4,5) by simp_all
  note V = direct_value [where s = "db_store d" and D = ?D, OF assms(1,3), of e]
  obtain v where v: "store_expr J ?D (db_store d) e (row_ctx r) = Some v" "arg_value (eng J d) args (keysetCursorValueExpr ?D ?f 2) = Some v"
    using V [where args = args and n = 2 and d = d] e'(3,4) e assms(6) by auto
  moreover obtain v' where "store_expr J ?D (db_store d) e (row_ctx r) = Some v'" "arg_value (eng J d) args (keysetCursorValueExpr ?D ?f (2 + 1)) = Some v'"
    using V [where args = args and n = "2 + 1" and d = d] e'(3,4) e assms(7) by (auto simp: numeral_eq_Suc)
  ultimately have v3: "arg_value (eng J d) args (keysetCursorValueExpr ?D ?f (2 + 1)) = Some v" by simp
  obtain w where w: "store_expr J ?D (db_store d) e (row_ctx x) = Some w"
    using direct_column_value [OF assms(1), of e ?D J "db_store d" x] e'(3,4) e by auto
  have u: "arg_value (eng J d) args (Param (2 + 2)) = Some (SText (rr_uri r))" using assms(8) by (simp add: arg_value_def numeral_eq_Suc)
  have c: "(case so of None \<Rightarrow> True | Some o1 \<Rightarrow> so_direction o1 = ''DESC'') = (\<not> so_asc so)" using assms(2) by (auto simp: dir_ok_def so_asc_def split: option.splits)
  have ux: "store_expr J ?D (db_store d) (Column ''uri'') (row_ctx y) = Some (SText (rr_uri y))" for y by (simp add: column_value_def row_ctx_def)
  have "(rr_uri r = rr_uri x) = (v = w)" if "?f = ''uri''" using v(1) w e'(4) e that ux by auto
  moreover have "sqlv_key (SText (rr_uri r)) = sqlv_key v \<and> sqlv_key (SText (rr_uri x)) = sqlv_key w" if "?f = ''uri''"
    using v(1) w e'(4) e that ux by auto
  ultimately show ?thesis
    unfolding keyset_condition_def Let_def c keys order_before_step order_key.case
    using v v3 w u ux by (cases "so_asc so"; cases "?f = ''uri''") (auto simp: both_def value_before_def)
qed

text \<open>Created-at cursors: the segments are the rows after the cursor, cut where the dated rows meet the undated ones.\<close>

definition created_of :: "json_engine \<Rightarrow> dialect \<Rightarrow> record_row \<Rightarrow> sqlv option" where
  "created_of J D r = Option.bind (rr_created_at r) (created_value J D)"

lemma created_expr: "store_expr J D s (Column SortFieldRecordCreatedAt) (row_ctx r) = created_of J D r"
  by (simp add: column_value_def row_ctx_def created_of_def SortFieldRecordCreatedAt_def)

lemma uri_expr: "store_expr J D s (Column ''uri'') (row_ctx r) = Some (SText (rr_uri r))"
  by (simp add: column_value_def row_ctx_def)

definition created_before :: "json_engine \<Rightarrow> dialect \<Rightarrow> bool \<Rightarrow> record_row \<Rightarrow> record_row \<Rightarrow> bool" where
  "created_before J D asc r x =
     (let a = created_of J D r; b = created_of J D x in
      value_before asc asc a b \<or> a = b \<and> (if asc then rr_uri r < rr_uri x else rr_uri x < rr_uri r))"

lemma created_column: "column_value J D SortFieldRecordCreatedAt (cx_row (row_ctx r)) = created_of J D r"
  and uri_column: "column_value J D ''uri'' (cx_row (row_ctx r)) = Some (SText (rr_uri r))"
  using created_expr [of J D s r] uri_expr [of J D s r] by simp_all

lemma value_before_texts: "value_before nf asc (Some (SText a)) (Some (SText b)) = (if asc then a < b else b < a)"
  by (simp add: value_before_def)

lemma created_order:
  assumes "asc = (direction = ''ASC'')"
  shows "order_before J D s (recordCreatedAtOrderBy D direction) = created_before J D asc"
proof -
  have "nulls_first D asc (if D = PostgreSQL then Some asc else None) = asc" by (cases D) (simp_all add: nulls_first_def)
  then show ?thesis
    unfolding recordCreatedAtOrderBy_def Let_def assms [symmetric] recordCreatedAtNullsClause_def
    by (simp add: fun_eq_iff Let_def created_column uri_column created_before_def value_before_texts)
qed

lemma created_arg:
  assumes "first = length base + 1"
  shows "arg_value (store_engine J D now s) (base @ DText t # post) (recordCreatedAtCursorValueExpr D first) = created_value J D t"
    "arg_value (store_engine J D now s) (base @ DText t # post) (Param first) = Some (SText t)"
    "arg_value (store_engine J D now s) (base @ a # DText t # post) (Param (first + 1)) = Some (SText t)"
    "arg_value (store_engine J D now s) (base @ a # DText t # post) (Param (Suc first)) = Some (SText t)"
  using assms by (auto simp: arg_value_def recordCreatedAtCursorValueExpr_def created_value_def nth_append)

text \<open>The condition of each segment, on a row.\<close>

lemma created_segment_conditions:
  assumes "first = length base + 1" "db_dialect d = D" "created_of J D r = (case rr_created_at r of None \<Rightarrow> None | Some t \<Rightarrow> created_value J D t)"
    "\<And>t. rr_created_at r = Some t \<Longrightarrow> t \<noteq> [] \<and> created_value J D t \<noteq> None" "asc = (direction = ''ASC'')"
  shows "map (\<lambda>k x. list_all (holds (eng J d) (base @ ks_args k) (row_ctx x)) (ks_condition k))
      (recordCreatedAtKeysetSegments D direction (null_string (rr_created_at r)) (rr_uri r) first)
    = (if asc then (if rr_created_at r = None then [\<lambda>x. created_of J D x = None \<and> created_before J D asc r x, \<lambda>x. created_of J D x \<noteq> None]
                    else [\<lambda>x. created_before J D asc r x])
       else (if rr_created_at r = None then [\<lambda>x. created_before J D asc r x]
             else [\<lambda>x. created_of J D x \<noteq> None \<and> created_before J D asc r x, \<lambda>x. created_of J D x = None]))"
proof (cases "rr_created_at r")
  case None
  then have a: "created_of J D r = None" using assms(3) by simp
  show ?thesis
    unfolding recordCreatedAtKeysetSegments_def Let_def None null_string_def option.case assms(5) [symmetric]
    by (cases asc; simp add: created_arg [OF assms(1)] created_column uri_column assms(2) both_def fun_eq_iff)
      (auto simp: created_before_def a value_before_def Let_def)
next
  case (Some t)
  then obtain v where v: "created_value J D t = Some v" "t \<noteq> []" using assms(4) by auto
  then have a: "created_of J D r = Some v" using assms(3) Some by simp
  have n: "null_string (Some t) = t" by (simp add: null_string_def)
  show ?thesis
    unfolding recordCreatedAtKeysetSegments_def Let_def Some n assms(5) [symmetric]
    using v(2)
    by (cases asc; simp add: created_arg [OF assms(1)] created_column uri_column assms(2) both_def v fun_eq_iff)
      (auto simp: created_before_def a value_before_def Let_def split: option.splits)
qed

lemma created_segments:
  assumes "times_ok J D rows" "r \<in> set rows" "distinct (map rr_uri rows)" "asc = (direction = ''ASC'')"
    "first = length base + 1" "db_dialect d = D"
  shows "concat (map (\<lambda>k. sort_by (created_before J D asc)
      (filter (\<lambda>x. W x \<and> list_all (holds (eng J d) (base @ ks_args k) (row_ctx x)) (ks_condition k)) rows))
      (recordCreatedAtKeysetSegments D direction (null_string (rr_created_at r)) (rr_uri r) first))
    = sort_by (created_before J D asc) (filter (\<lambda>x. W x \<and> created_before J D asc r x) rows)"
proof -
  let ?R = "created_before J D asc" and ?xs = "filter W rows"
  let ?ks = "recordCreatedAtOrderBy D direction"
  have R: "order_before J D s ?ks = ?R" for s by (rule created_order [OF assms(4)])
  have dist: "distinct ?xs" using assms(3) by (simp add: distinct_map)
  have "total_on_rows (order_before J D empty_store ?ks) (set rows)"
    by (rule order_before_total [OF assms(3), of asc None]) (simp add: recordCreatedAtOrderBy_def Let_def assms(4))
  then have tot: "total_on_rows ?R (set ?xs)" unfolding R by (rule total_on_rows_subset) auto
  note segs = page_order.sort_by_segments [of ?xs J D empty_store ?ks, unfolded R, OF dist tot]
  have t: "\<And>t. rr_created_at r = Some t \<Longrightarrow> t \<noteq> [] \<and> created_value J D t \<noteq> None" using assms(1,2) by (auto simp: times_ok_def list_all_iff split: option.splits)
  have c: "created_of J D r = (case rr_created_at r of None \<Rightarrow> None | Some t \<Rightarrow> created_value J D t)" by (simp add: created_of_def split: option.splits)
  note conds = created_segment_conditions [OF assms(5,6) c t assms(4)]
  have m: "concat (map (\<lambda>k. sort_by ?R (filter (\<lambda>x. list_all (holds (eng J d) (base @ ks_args k) (row_ctx x)) (ks_condition k)) ?xs)) ss)
      = concat (map (\<lambda>C. sort_by ?R (filter C ?xs)) (map (\<lambda>k x. list_all (holds (eng J d) (base @ ks_args k) (row_ctx x)) (ks_condition k)) ss))" for ss
    by (simp add: comp_def)
  have ff: "filter (\<lambda>x. W x \<and> Q x) rows = filter Q ?xs" for Q by simp
  let ?segs = "if asc then (if rr_created_at r = None then [\<lambda>x. created_of J D x = None \<and> ?R r x, \<lambda>x. created_of J D x \<noteq> None] else [\<lambda>x. ?R r x])
    else (if rr_created_at r = None then [\<lambda>x. ?R r x] else [\<lambda>x. created_of J D x \<noteq> None \<and> ?R r x, \<lambda>x. created_of J D x = None])"
  have "concat (map (\<lambda>C. sort_by ?R (filter C ?xs)) ?segs) = sort_by ?R (filter (?R r) ?xs)"
  proof (cases "rr_created_at r")
    case None
    then have a: "created_of J D r = None" by (simp add: created_of_def)
    show ?thesis
    proof (cases asc)
      case True
      have "?R x y" if "created_of J D x = None \<and> ?R r x" "created_of J D y \<noteq> None" for x y
        using that True by (simp add: created_before_def value_before_def)
      from segs [OF this] have "sort_by ?R (filter (\<lambda>x. created_of J D x = None \<and> ?R r x) ?xs) @ sort_by ?R (filter (\<lambda>x. created_of J D x \<noteq> None) ?xs)
          = sort_by ?R (filter (\<lambda>x. (created_of J D x = None \<and> ?R r x) \<or> created_of J D x \<noteq> None) ?xs)" by simp
      also have "(\<lambda>x. (created_of J D x = None \<and> ?R r x) \<or> created_of J D x \<noteq> None) = ?R r"
        using True a by (auto simp: fun_eq_iff created_before_def value_before_def Let_def)
      finally show ?thesis using True None by simp
    qed (simp add: None)
  next
    case (Some u)
    then obtain v where a: "created_of J D r = Some v" using t c by auto
    show ?thesis
    proof (cases asc)
      case False
      have "?R x y" if "created_of J D x \<noteq> None \<and> ?R r x" "created_of J D y = None" for x y
        using that False by (auto simp: created_before_def value_before_def split: option.splits)
      from segs [OF this] have "sort_by ?R (filter (\<lambda>x. created_of J D x \<noteq> None \<and> ?R r x) ?xs) @ sort_by ?R (filter (\<lambda>x. created_of J D x = None) ?xs)
          = sort_by ?R (filter (\<lambda>x. (created_of J D x \<noteq> None \<and> ?R r x) \<or> created_of J D x = None) ?xs)" by simp
      also have "(\<lambda>x. (created_of J D x \<noteq> None \<and> ?R r x) \<or> created_of J D x = None) = ?R r"
        using False a by (auto simp: fun_eq_iff created_before_def value_before_def Let_def)
      finally show ?thesis using False Some by simp
    qed (simp add: Some)
  qed
  then show ?thesis unfolding ff m by (subst conds)
qed

section \<open>The rows of a page\<close>

definition sort_ok :: "sort_option option \<Rightarrow> bool" where
  "sort_ok so = (dir_ok so \<and> (keysetSortFieldName so \<in> set directSortColumns \<or> keysetSortFieldName so = SortFieldRecordCreatedAt))"

definition cursor_of :: "json_engine \<Rightarrow> dialect \<Rightarrow> sort_option option \<Rightarrow> node_value \<Rightarrow> record_row \<Rightarrow> string list" where
  "cursor_of J D so nv r = [sortFieldValueForRecord J D so r nv, rr_uri r]"

lemma newSortedPage_Ok:
  assumes "newSortedPage F D so wh args ks = Ok page" "buildSortExpr F D so = Ok keys"
  shows "sp_order page = keys"
    "sp_segments page = map (\<lambda>k. \<lparr>pg_where = wh @ ks_condition k, pg_args = args @ ks_args k\<rparr>) (if ks = [] then [\<lparr>ks_condition = [], ks_args = []\<rparr>] else ks)"
  using assms by (auto simp: newSortedPage_def Let_def res_map_def)

lemma sortedRecordsPage_Ok:
  assumes "sortedRecordsPage F D collection filters didFilter labels so after validOnly = Ok page" "buildSortExpr F D so = Ok keys"
  obtains kc ka cs ps where "filter_parts F D filters didFilter labels (2 + length ka) = Ok (cs, ps)" "sp_order page = keys"
    "sp_segments page = map (\<lambda>k. \<lparr>pg_where = (page_base validOnly @ kc @ cs) @ ks_condition k,
        pg_args = (DText collection # ka @ ps) @ ks_args k\<rparr>)
      (if length after = 2 \<and> keysetSortFieldName so = SortFieldRecordCreatedAt
       then recordCreatedAtKeysetSegments D (case so of None \<Rightarrow> [] | Some o1 \<Rightarrow> so_direction o1) (after ! 0) (after ! 1) (2 + length ka + length ps)
       else [\<lparr>ks_condition = [], ks_args = []\<rparr>])"
    "(if length after = 2 \<and> keysetSortFieldName so \<noteq> SortFieldRecordCreatedAt
      then res_map (\<lambda>e. ([keyset_condition D so e 2], [DText (after ! 0), DText (after ! 0), DText (after ! 1)])) (keysetSortFieldExpr F D (keysetSortFieldName so))
      else Ok ([], [])) = Ok (kc, ka)"
proof -
  let ?c = "length after = 2 \<and> keysetSortFieldName so = SortFieldRecordCreatedAt"
  let ?k = "if length after = 2 \<and> \<not> ?c
            then res_map (\<lambda>e. ([keyset_condition D so e 2], [DText (after ! 0), DText (after ! 0), DText (after ! 1)]))
                   (keysetSortFieldExpr F D (keysetSortFieldName so))
            else Ok ([], [])"
  have seg: "recordCreatedAtKeysetSegments D dir v u n \<noteq> []" for dir v u n by (simp add: recordCreatedAtKeysetSegments_def Let_def)
  obtain kc ka where k: "?k = Ok (kc, ka)" using assms(1) by (auto simp: sortedRecordsPage_def Let_def split: sum.splits)
  obtain cs ps where c: "filter_parts F D filters didFilter labels (2 + length ka) = Ok (cs, ps)"
    using assms(1) unfolding sortedRecordsPage_def Let_def k by (auto split: sum.splits)
  note n = newSortedPage_Ok [OF _ assms(2)]
  have p: "newSortedPage F D so (page_base validOnly @ kc @ cs)
      (DText collection # ka @ ps) (if ?c then recordCreatedAtKeysetSegments D (case so of None \<Rightarrow> [] | Some o1 \<Rightarrow> so_direction o1) (after ! 0) (after ! 1) (2 + length ka + length ps) else []) = Ok page"
    using assms(1) unfolding sortedRecordsPage_def Let_def k by (simp only: sum.case prod.case c)
  show thesis
    by (rule that [where kc = kc, OF c n(1) [OF p]]) (use n(2) [OF p] k seg in \<open>simp_all split: if_splits\<close>)
qed

lemma page_without_cursor:
  assumes "db_faults d = []" "sortedRecordsPage F (db_dialect d) collection filters didFilter labels so [] validOnly = Ok page"
    "buildSortExpr F (db_dialect d) so = Ok keys" "list_all (segment_ok (db_dialect d)) (sp_segments page)" "0 \<le> limit"
  shows "readSortedPage J page limit label d =
    (Ok (take (nat limit) (sort_by (order_before J (db_dialect d) (db_store d) keys)
      (filter (wanted J F d collection filters didFilter labels validOnly) (st_records (db_store d))))), d)"
proof -
  show ?thesis
  proof (rule sortedRecordsPage_Ok [OF assms(2,3)])
    fix kc ka cs ps
    assume c: "filter_parts F (db_dialect d) filters didFilter labels (2 + length ka) = Ok (cs, ps)" and o: "sp_order page = keys"
      and s: "sp_segments page = map (\<lambda>k. \<lparr>pg_where = (page_base validOnly @ kc @ cs) @ ks_condition k, pg_args = (DText collection # ka @ ps) @ ks_args k\<rparr>)
        (if length ([] :: string list) = 2 \<and> keysetSortFieldName so = SortFieldRecordCreatedAt
         then recordCreatedAtKeysetSegments (db_dialect d) (case so of None \<Rightarrow> [] | Some o1 \<Rightarrow> so_direction o1) ([] ! 0) ([] ! 1) (2 + length ka + length ps)
         else [\<lparr>ks_condition = [], ks_args = []\<rparr>])"
      and k: "(if length ([] :: string list) = 2 \<and> keysetSortFieldName so \<noteq> SortFieldRecordCreatedAt
      then res_map (\<lambda>e. ([keyset_condition (db_dialect d) so e 2], [DText ([] ! 0), DText ([] ! 0), DText ([] ! 1)])) (keysetSortFieldExpr F (db_dialect d) (keysetSortFieldName so))
      else Ok ([], [])) = Ok (kc, ka)"
    have k': "kc = []" "ka = []" using k by simp_all
    show ?thesis
      using segment_select [OF c, where kc = kc and ks = "[]" and kargs = "[]"]
      unfolding readSortedPage_result [OF assms(1,4,5)] o s k' by (simp add: segment_rows_def o)
  qed
qed

lemma page_with_cursor:
  assumes "db_faults d = []" "distinct (map rr_uri (st_records (db_store d)))" "times_ok J (db_dialect d) (st_records (db_store d))" "sort_ok so" "r \<in> set (st_records (db_store d))"
    "sortedRecordsPage F (db_dialect d) collection filters didFilter labels so (cursor_of J (db_dialect d) so nv r) validOnly = Ok page"
    "buildSortExpr F (db_dialect d) so = Ok keys" "list_all (segment_ok (db_dialect d)) (sp_segments page)" "0 \<le> limit"
  shows "readSortedPage J page limit label d =
    (Ok (take (nat limit) (sort_by (order_before J (db_dialect d) (db_store d) keys)
      (filter (\<lambda>x. wanted J F d collection filters didFilter labels validOnly x \<and> order_before J (db_dialect d) (db_store d) keys r x) (st_records (db_store d))))), d)"
proof (rule sortedRecordsPage_Ok [OF assms(6,7)])
  let ?D = "db_dialect d" and ?f = "keysetSortFieldName so" and ?rows = "st_records (db_store d)"
  let ?W = "wanted J F d collection filters didFilter labels validOnly" and ?R = "order_before J (db_dialect d) (db_store d) keys"
  have cur: "length (cursor_of J (db_dialect d) so nv r) = 2" "cursor_of J (db_dialect d) so nv r ! 0 = sortFieldValueForRecord J (db_dialect d) so r nv" "cursor_of J (db_dialect d) so nv r ! 1 = rr_uri r"
    by (simp_all add: cursor_of_def)
  fix kc ka cs ps
  assume c: "filter_parts F ?D filters didFilter labels (2 + length ka) = Ok (cs, ps)" and o: "sp_order page = keys"
    and s: "sp_segments page = map (\<lambda>k. \<lparr>pg_where = (page_base validOnly @ kc @ cs) @ ks_condition k, pg_args = (DText collection # ka @ ps) @ ks_args k\<rparr>)
      (if length (cursor_of J (db_dialect d) so nv r) = 2 \<and> ?f = SortFieldRecordCreatedAt
       then recordCreatedAtKeysetSegments ?D (case so of None \<Rightarrow> [] | Some o1 \<Rightarrow> so_direction o1) (cursor_of J (db_dialect d) so nv r ! 0) (cursor_of J (db_dialect d) so nv r ! 1) (2 + length ka + length ps)
       else [\<lparr>ks_condition = [], ks_args = []\<rparr>])"
    and k: "(if length (cursor_of J (db_dialect d) so nv r) = 2 \<and> ?f \<noteq> SortFieldRecordCreatedAt
      then res_map (\<lambda>e. ([keyset_condition ?D so e 2], [DText (cursor_of J (db_dialect d) so nv r ! 0), DText (cursor_of J (db_dialect d) so nv r ! 0), DText (cursor_of J (db_dialect d) so nv r ! 1)])) (keysetSortFieldExpr F ?D ?f)
      else Ok ([], [])) = Ok (kc, ka)"
  note sel = segment_select [OF c, where J = J and validOnly = validOnly and collection = collection and kc = kc]
  have "concat (map (segment_rows J d (sp_order page)) (sp_segments page)) = sort_by ?R (filter (\<lambda>x. ?W x \<and> ?R r x) ?rows)"
  proof (cases "?f = SortFieldRecordCreatedAt")
    case False
    then obtain e where e: "keysetSortFieldExpr F ?D ?f = Ok e" "kc = [keyset_condition ?D so e 2]"
      "ka = [DText (sortFieldValueForRecord J (db_dialect d) so r nv), DText (sortFieldValueForRecord J (db_dialect d) so r nv), DText (rr_uri r)]"
      using k cur by (auto simp: res_map_def split: sum.splits)
    have "holds (eng J d) ((DText collection # ka @ ps) @ []) (row_ctx x) (keyset_condition ?D so e 2) = ?R r x" for x
      by (rule direct_keyset_holds [OF _ _ _ e(1) assms(7)]) (use assms(3,4,5) False e(3) in \<open>simp_all add: sort_ok_def times_ok_def list_all_iff\<close>)
    then show ?thesis using sel [where ks = "[]" and kargs = "[]"] unfolding s o using False e(2) by (simp add: segment_rows_def)
  next
    case True
    then obtain o1 where so: "so = Some o1" "so_field o1 = SortFieldRecordCreatedAt" by (cases so) (auto simp: keysetSortFieldName_def SortFieldRecordCreatedAt_def)
    let ?asc = "so_direction o1 = ''ASC''"
    have ks: "keys = recordCreatedAtOrderBy ?D (so_direction o1)"
      using assms(4,7) so by (auto simp: buildSortExpr_def Let_def sort_ok_def dir_ok_def)
    have R: "?R = created_before J ?D ?asc" unfolding ks by (rule created_order [OF refl])
    have k': "kc = []" "ka = []" using k True by simp_all
    have v: "sortFieldValueForRecord J (db_dialect d) so r nv = null_string (rr_created_at r)" using so by (simp add: sortFieldValueForRecord_def)
    have seg: "segment_rows J d keys \<lparr>pg_where = (page_base validOnly @ kc @ cs) @ ks_condition x, pg_args = (DText collection # ka @ ps) @ ks_args x\<rparr>
        = sort_by ?R (filter (\<lambda>y. ?W y \<and> list_all (holds (eng J d) ((DText collection # ps) @ ks_args x) (row_ctx y)) (ks_condition x)) ?rows)" for x
      using sel [where ks = "ks_condition x" and kargs = "ks_args x"] by (simp add: segment_rows_def k')
    have l: "2 + length ka + length ps = length (DText collection # ps) + 1" by (simp add: k')
    show ?thesis unfolding s o list.map_comp comp_def seg
      using created_segments [OF assms(3,5,2) refl l refl, where W = ?W and direction = "so_direction o1"] cur True so v unfolding R by simp
  qed
  then show ?thesis unfolding readSortedPage_result [OF assms(1,8,9)] by simp
qed

section \<open>Paging forwards and backwards\<close>

lemma sort_ok_keys:
  assumes "sort_ok so" "buildSortExpr F D so = Ok keys"
  shows "OrderKey (Column ''uri'') (so_asc so) None \<in> set keys"
    "buildSortExpr F D (Some (reversedSort so)) = Ok (map flip_key keys)"
proof -
  consider (none) "so = None" | (created) o1 where "so = Some o1" "so_field o1 = SortFieldRecordCreatedAt" "so_direction o1 = ''ASC'' \<or> so_direction o1 = ''DESC''"
    | (direct) o1 where "so = Some o1" "so_field o1 \<noteq> SortFieldRecordCreatedAt" "so_field o1 \<in> set directSortColumns" "so_direction o1 = ''ASC'' \<or> so_direction o1 = ''DESC''"
    using assms(1) by (cases so) (auto simp: sort_ok_def dir_ok_def keysetSortFieldName_def)
  then show "OrderKey (Column ''uri'') (so_asc so) None \<in> set keys"
    using assms(2) by cases (auto simp: so_asc_def buildSortExpr_def Let_def res_map_def recordCreatedAtOrderBy_def split: if_splits)
  from \<open>sort_ok so\<close> show "buildSortExpr F D (Some (reversedSort so)) = Ok (map flip_key keys)" using assms(2)
    by (cases so) (auto simp: sort_ok_def dir_ok_def keysetSortFieldName_def buildSortExpr_def Let_def res_map_def reversedSort_def
        recordCreatedAtOrderBy_def recordCreatedAtNullsClause_def SortFieldRecordCreatedAt_def split: if_splits)
qed

lemma reversed_sort_ok: "sort_ok so \<Longrightarrow> sort_ok (Some (reversedSort so))"
  by (cases so) (auto simp: sort_ok_def dir_ok_def reversedSort_def keysetSortFieldName_def directSortColumns_def)

lemma cursor_of_reversed: "cursor_of J D (Some (reversedSort so)) nv r = cursor_of J D so nv r"
  by (cases so) (simp_all add: cursor_of_def reversedSort_def sortFieldValueForRecord_def SortFieldRecordCreatedAt_def split: node_value.splits)

text \<open>The statement of a page is built and its arguments are within the limit of SQLite.\<close>

definition page_builds :: "fmt_env \<Rightarrow> dialect \<Rightarrow> string \<Rightarrow> field_filter list \<Rightarrow> did_filter \<Rightarrow> label_filter_set \<Rightarrow> sort_option option
    \<Rightarrow> string list \<Rightarrow> bool \<Rightarrow> bool" where
  "page_builds F D collection filters didFilter labels so after validOnly =
     (case sortedRecordsPage F D collection filters didFilter labels so after validOnly of
        Inl _ \<Rightarrow> False
      | Inr page \<Rightarrow> list_all (segment_ok D) (sp_segments page))"

definition listing :: "json_engine \<Rightarrow> fmt_env \<Rightarrow> db \<Rightarrow> order_key list \<Rightarrow> string \<Rightarrow> field_filter list \<Rightarrow> did_filter \<Rightarrow> label_filter_set \<Rightarrow> bool \<Rightarrow> record_row list" where
  "listing J F d keys collection filters didFilter labels validOnly =
     sort_by (order_before J (db_dialect d) (db_store d) keys)
       (filter (wanted J F d collection filters didFilter labels validOnly) (st_records (db_store d)))"

lemma page_builds_Ok:
  assumes "page_builds F D collection filters didFilter labels so after validOnly"
  obtains page where "sortedRecordsPage F D collection filters didFilter labels so after validOnly = Ok page" "list_all (segment_ok D) (sp_segments page)"
  using assms by (auto simp: page_builds_def split: sum.splits)

lemma rev_take_rev: "rev (take n (rev xs)) = drop (length xs - n) xs"
  by (simp add: rev_take)

lemma listing_after:
  assumes "distinct (map rr_uri (st_records (db_store d)))" "OrderKey (Column ''uri'') asc nulls \<in> set keys"
    "listing J F d keys collection filters didFilter labels validOnly = pre @ r # suf"
  shows "sort_by (order_before J (db_dialect d) (db_store d) keys)
      (filter (\<lambda>x. wanted J F d collection filters didFilter labels validOnly x \<and> order_before J (db_dialect d) (db_store d) keys r x) (st_records (db_store d))) = suf"
    "listing J F d (map flip_key keys) collection filters didFilter labels validOnly = rev suf @ r # rev pre" "r \<in> set (st_records (db_store d))"
proof -
  let ?R = "order_before J (db_dialect d) (db_store d)" and ?xs = "filter (wanted J F d collection filters didFilter labels validOnly) (st_records (db_store d))"
  have t: "total_on_rows (?R keys) (set ?xs)" by (rule total_on_rows_subset [OF order_before_total [OF assms(1,2)]]) auto
  have x: "distinct ?xs" using assms(1) by (simp add: distinct_map)
  have l: "sort_by (?R keys) ?xs = pre @ r # suf" using assms(3) by (simp add: listing_def)
  from page_order.sort_by_after [OF x t l]
  show "sort_by (?R keys) (filter (\<lambda>x. wanted J F d collection filters didFilter labels validOnly x \<and> ?R keys r x) (st_records (db_store d))) = suf"
    by (simp add: conj_commute)
  have "sort_by (?R (map flip_key keys)) ?xs = rev (sort_by (?R keys) ?xs)"
    by (rule page_order.sort_by_rev [OF x t page_order.row_order_axioms order_before_flip])
  then show "listing J F d (map flip_key keys) collection filters didFilter labels validOnly = rev suf @ r # rev pre" using l by (simp add: listing_def)
  have "r \<in> set ?xs" using set_sort_by [of "?R keys" ?xs] unfolding l by auto
  then show "r \<in> set (st_records (db_store d))" by simp
qed

text \<open>The total count of a request is the length of its listing, and the default listing pages alike through either entry point.\<close>

definition count_builds :: "fmt_env \<Rightarrow> dialect \<Rightarrow> field_filter list \<Rightarrow> did_filter \<Rightarrow> label_filter_set \<Rightarrow> bool \<Rightarrow> bool" where
  "count_builds F D filters didFilter labels validOnly =
     (let n = (if validOnly then 2 else 1) in
      case filter_parts F D filters didFilter labels (1 + n) of
        Inl _ \<Rightarrow> False
      | Inr (_, ps) \<Rightarrow> is_ok (validateSQLiteAggregateParameterCount D (n + length ps)))"

lemma is_ok_unit: "is_ok r \<longleftrightarrow> r = Ok ()"
  by (cases r) (simp_all add: is_ok_def)

lemma length_sort_by: "length (sort_by R xs) = length xs"
proof -
  have "length (insert_by R x ys) = Suc (length ys)" for x ys by (induction ys) auto
  then show ?thesis by (induction xs) (simp_all add: sort_by_def)
qed

lemma collection_count:
  assumes "db_faults d = []" "count_builds F (db_dialect d) filters didFilter labels validOnly"
  shows "getCollectionCountFiltered J F collection filters didFilter labels validOnly d =
    (Ok (int (length (listing J F d keys collection filters didFilter labels validOnly))), d)"
proof -
  let ?args = "DText collection # (if validOnly then [DText StatusValid] else [])" and ?D = "db_dialect d"
  let ?base = "Compare ''='' (Column ''collection'') (Param 1) # (if validOnly then [Compare ''='' (Column ''validation_status'') (Param 2)] else [])"
  let ?W = "wanted J F d collection filters didFilter labels validOnly"
  obtain cs ps where c: "filter_parts F ?D filters didFilter labels (1 + length ?args) = Ok (cs, ps)"
    and l: "validateSQLiteAggregateParameterCount ?D (length (?args @ ps)) = Ok ()"
    using assms(2) by (cases validOnly) (auto simp: count_builds_def Let_def is_ok_unit numeral_eq_Suc split: sum.splits)
  have f: "list_all (holds (eng J d) (?args @ ps) (row_ctx r)) cs =
      (filters_mean F ?D (eng J d) filters (row_ctx r) \<and> did_means (eng J d) didFilter (row_ctx r) \<and> labels_mean F ?D (eng J d) labels (row_ctx r))" for r
    using conds_mean_holds [OF filter_parts_mean [OF c, of "eng J d"], of ?args "[]" "row_ctx r"] by simp
  have b: "list_all (holds (eng J d) (?args @ ps) (row_ctx r)) ?base = (rr_collection r = collection \<and> (validOnly \<longrightarrow> rr_status r = StatusValid))" for r
    by (auto simp: both_def arg_value_def column_value_def row_ctx_def)
  have "sql_rows J ?D (db_now d) (db_store d) (?base @ cs) (?args @ ps) = filter ?W (st_records (db_store d))"
    unfolding sql_rows_def by (rule filter_cong [OF refl], unfold list_all_append b f wanted_def Let_def) blast
  then show ?thesis using assms(1)
    unfolding getCollectionCountFiltered_def Let_def c sum.case prod.case l by (simp add: db_exec_no_faults listing_def length_sort_by)
qed

lemma filtered_is_default_sort:
  assumes "afterTimestamp \<noteq> []" "afterURI \<noteq> []"
    "fst (getByCollectionSorted J F collection filters didFilter no_labels None limit [afterTimestamp, afterURI] False d) = Ok rows"
  shows "fst (GetByCollectionFilteredWithKeysetCursor J F collection filters didFilter limit afterTimestamp afterURI d) = Ok rows"
proof -
  let ?D = "db_dialect d" and ?e = "normalizedIndextAtExpr (db_dialect d)"
  have n: "buildExternalLabelFilterSetClause F ?D no_labels m = Ok ([], [])" for m
    by (simp add: buildExternalLabelFilterSetClause_def LabelFilterSet_IsEmpty_def LabelFilter_IsEmpty_def no_label_filter_def)
  have o: "fst (db_wrap p m d) = Ok rows \<longleftrightarrow> fst (m d) = Ok rows" for p and m :: "record_row list dbm" by (simp add: db_wrap_def split: sum.splits prod.splits)
  have f: "keysetSortFieldExpr F ?D ''indexed_at'' = Ok ?e" "keysetSortFieldName None = ''indexed_at''" "''indexed_at'' \<noteq> SortFieldRecordCreatedAt"
    by (simp_all add: keysetSortFieldExpr_def keysetSortFieldName_def SortFieldRecordCreatedAt_def)
  have r: "fst (readSegments limit q 0 [sg] [] d) = Ok rows \<longleftrightarrow> fst (q sg limit d) = Ok rows" for q sg
    by (simp add: db_bind_def db_return_def split: sum.splits prod.splits)
  show ?thesis using assms(3)
    unfolding getByCollectionSorted_def sortedRecordsPage_def GetByCollectionFilteredWithKeysetCursor_def filter_parts_def newSortedPage_def f n Let_def
    by (auto simp: assms(1,2) f n res_map_def buildSortExpr_def readSortedPage_def r querySegment_def o page_base_def keyset_condition_def numeral_eq_Suc
        res_prefix_def Let_def simp del: readSegments.simps split: sum.splits prod.splits)
qed

lemma sorted_pages:
  assumes "db_faults d = []" "distinct (map rr_uri (st_records (db_store d)))" "times_ok J (db_dialect d) (st_records (db_store d))" "sort_ok so" "0 \<le> limit"
    "buildSortExpr F (db_dialect d) so = Ok keys" "listing J F d keys collection filters didFilter labels validOnly = pre @ r # suf"
    "page_builds F (db_dialect d) collection filters didFilter labels so [] validOnly"
    "page_builds F (db_dialect d) collection filters didFilter labels so (cursor_of J (db_dialect d) so nv r) validOnly"
    "page_builds F (db_dialect d) collection filters didFilter labels (Some (reversedSort so)) (cursor_of J (db_dialect d) so nv r) validOnly"
    "count_builds F (db_dialect d) filters didFilter labels validOnly"
  shows "getByCollectionSorted J F collection filters didFilter labels so limit [] validOnly d = (Ok (take (nat limit) (pre @ r # suf)), d)
    \<and> getByCollectionSorted J F collection filters didFilter labels so limit (cursor_of J (db_dialect d) so nv r) validOnly d = (Ok (take (nat limit) suf), d)
    \<and> getByCollectionReversed J F collection filters didFilter labels so limit (cursor_of J (db_dialect d) so nv r) validOnly d = (Ok (drop (length pre - nat limit) pre), d)
    \<and> getCollectionCountFiltered J F collection filters didFilter labels validOnly d = (Ok (int (length pre + 1 + length suf)), d)"
proof (intro conjI)
  let ?R = "order_before J (db_dialect d) (db_store d)"
  note u = sort_ok_keys(1) [OF assms(4,6)] and u' = sort_ok_keys(1) [OF reversed_sort_ok [OF assms(4)] sort_ok_keys(2) [OF assms(4,6)]]
  note after = listing_after [OF assms(2) u assms(7)]
  note before = listing_after [OF assms(2) u' after(2)]
  obtain page where "sortedRecordsPage F (db_dialect d) collection filters didFilter labels so [] validOnly = Ok page" "list_all (segment_ok (db_dialect d)) (sp_segments page)"
    by (rule page_builds_Ok [OF assms(8)])
  then show "getByCollectionSorted J F collection filters didFilter labels so limit [] validOnly d = (Ok (take (nat limit) (pre @ r # suf)), d)"
    using page_without_cursor [OF assms(1) _ assms(6) _ assms(5)] assms(7) by (simp add: getByCollectionSorted_def listing_def)
  obtain page where "sortedRecordsPage F (db_dialect d) collection filters didFilter labels so (cursor_of J (db_dialect d) so nv r) validOnly = Ok page" "list_all (segment_ok (db_dialect d)) (sp_segments page)"
    by (rule page_builds_Ok [OF assms(9)])
  then show "getByCollectionSorted J F collection filters didFilter labels so limit (cursor_of J (db_dialect d) so nv r) validOnly d = (Ok (take (nat limit) suf), d)"
    using page_with_cursor [OF assms(1,2,3,4) after(3) _ assms(6) _ assms(5)] after(1) by (simp add: getByCollectionSorted_def)
  obtain page where "sortedRecordsPage F (db_dialect d) collection filters didFilter labels (Some (reversedSort so)) (cursor_of J (db_dialect d) so nv r) validOnly = Ok page" "list_all (segment_ok (db_dialect d)) (sp_segments page)"
    by (rule page_builds_Ok [OF assms(10)])
  then show "getByCollectionReversed J F collection filters didFilter labels so limit (cursor_of J (db_dialect d) so nv r) validOnly d = (Ok (drop (length pre - nat limit) pre), d)"
    using page_with_cursor [OF assms(1,2,3) reversed_sort_ok [OF assms(4)] after(3) _ sort_ok_keys(2) [OF assms(4,6)] _ assms(5)] before(1)
    by (simp add: getByCollectionReversed_def cursor_of_reversed db_bind_def db_return_def rev_take_rev)
  show "getCollectionCountFiltered J F collection filters didFilter labels validOnly d = (Ok (int (length pre + 1 + length suf)), d)"
    unfolding collection_count [OF assms(1,11), where keys = keys] assms(7) by simp
qed

text \<open>C7: Sorted pages are exact.  For a request whose statement builds (any field, DID and label filters; sorted by a direct column or by
  \<open>record_created_at\<close>, in either direction, on either database) let the listing be the wanted records in the order of the ORDER BY clause, with record
  \<open>r\<close> somewhere in it.  The first page is the first \<open>limit\<close> records of the listing; the page after the cursor of \<open>r\<close> is the first
  \<open>limit\<close> records after \<open>r\<close>; the page before it is the last \<open>limit\<close> records before \<open>r\<close>, in the order of the listing.  The total count of the request is the length of the listing.  No record
  is skipped or repeated, also where records without a creation time meet the dated ones.\<close>

theorem sorted_pages_exact:
  assumes "db_faults d = []" "distinct (map rr_uri (st_records (db_store d)))" "times_ok J (db_dialect d) (st_records (db_store d))" "sort_ok so" "0 \<le> limit"
    "buildSortExpr F (db_dialect d) so = Ok keys" "listing J F d keys collection filters didFilter labels validOnly = pre @ r # suf"
    "page_builds F (db_dialect d) collection filters didFilter labels so [] validOnly"
    "page_builds F (db_dialect d) collection filters didFilter labels so (cursor_of J (db_dialect d) so nv r) validOnly"
    "page_builds F (db_dialect d) collection filters didFilter labels (Some (reversedSort so)) (cursor_of J (db_dialect d) so nv r) validOnly"
    "count_builds F (db_dialect d) filters didFilter labels validOnly"
  shows "getByCollectionSorted J F collection filters didFilter labels so limit [] validOnly d = (Ok (take (nat limit) (pre @ r # suf)), d)
    \<and> getByCollectionSorted J F collection filters didFilter labels so limit (cursor_of J (db_dialect d) so nv r) validOnly d = (Ok (take (nat limit) suf), d)
    \<and> getByCollectionReversed J F collection filters didFilter labels so limit (cursor_of J (db_dialect d) so nv r) validOnly d = (Ok (drop (length pre - nat limit) pre), d)
    \<and> getCollectionCountFiltered J F collection filters didFilter labels validOnly d = (Ok (int (length pre + 1 + length suf)), d)"
  by (rule sorted_pages [OF assms])

text \<open>A row whose sort expression is NULL satisfies no keyset condition: a cursor page sorted by a JSON field leaves out the records that lack it.\<close>

lemma keyset_condition_skips_null: "holds E args c (keyset_condition D so e n) \<Longrightarrow> en_expr E e c \<noteq> None"
  by (auto simp: keyset_condition_def Let_def both_def split: option.splits)

section \<open>A small store\<close>

definition sample_json_engine :: json_engine where
  "sample_json_engine =
     \<lparr>je_path = (\<lambda>_ _. None), je_guarded = (\<lambda>_ _. None), je_whole_text = (\<lambda>_. None), je_whole_value = (\<lambda>_. None), je_elements = (\<lambda>_ _. []),
      je_numeric = (\<lambda>_. None), je_number = (\<lambda>_. None), je_like = (\<lambda>_ _ _. False),
      je_instant = (\<lambda>s. if s = [] then None else Some (int (length s))), je_time_text = (\<lambda>t. replicate (nat t) CHR ''i''),
      je_fmt = (\<lambda>_. []), je_labels = sample_label_env\<rparr>"

definition sample_page_row :: "string \<Rightarrow> string option \<Rightarrow> record_row" where
  "sample_page_row u created = \<lparr>rr_uri = u, rr_cid = ''c'', rr_did = ''d'', rr_collection = ''k'', rr_json = ''{}'', rr_indexed_at = 3, rr_created_at = created,
     rr_status = StatusValid, rr_verror = None, rr_validated_at = None, rr_lexhash = None\<rparr>"

definition sample_page_db :: db where
  "sample_page_db = sqlite_db (empty_store\<lparr>st_records := [sample_page_row ''a'' None, sample_page_row ''b'' (Some ''2024''), sample_page_row ''c'' (Some ''2025''),
     (sample_page_row ''x'' None)\<lparr>rr_collection := ''other''\<rparr>]\<rparr>) 5"

definition sample_fmt :: fmt_env where
  "sample_fmt = \<lparr>fe_v = (\<lambda>_. []), fe_t = (\<lambda>_. []), fe_unicode = le_unicode sample_label_env\<rparr>"

abbreviation newest :: "sort_option option" where
  "newest \<equiv> Some \<lparr>so_field = SortFieldRecordCreatedAt, so_direction = ''DESC''\<rparr>"

abbreviation any_did :: did_filter where "any_did \<equiv> \<lparr>df_eq = [], df_in = []\<rparr>"

lemma sample_parts: "filter_parts sample_fmt D [] any_did no_labels n = Ok ([], [])"
  by (simp add: filter_parts_def res_prefix_def buildFilterClause_def buildDIDFilterClause_def DIDFilter_IsEmpty_def
      buildExternalLabelFilterSetClause_def LabelFilterSet_IsEmpty_def LabelFilter_IsEmpty_def no_label_filter_def)

lemma sample_wanted: "wanted J sample_fmt d ''k'' [] any_did no_labels True r = (rr_collection r = ''k'' \<and> rr_status r = StatusValid)"
  by (simp add: wanted_def filters_mean_def did_means_def labels_mean_def subject_means_def no_label_filter_def)

lemma sample_listing:
  "listing sample_json_engine sample_fmt sample_page_db (recordCreatedAtOrderBy SQLite ''DESC'') ''k'' [] any_did no_labels True
    = [sample_page_row ''c'' (Some ''2025'')] @ sample_page_row ''b'' (Some ''2024'') # [sample_page_row ''a'' None]"
proof -
  have "order_before sample_json_engine SQLite s (recordCreatedAtOrderBy SQLite ''DESC'') = created_before sample_json_engine SQLite False" for s
    by (rule created_order) simp
  then show ?thesis
    by (simp add: listing_def sample_wanted sample_page_db_def sqlite_db_def sample_page_row_def sort_by_def created_before_def created_of_def
        created_value_def value_before_def)
qed

lemma sample_builds:
  "after = [] \<or> length after = 2 \<Longrightarrow> page_builds sample_fmt SQLite ''k'' [] any_did no_labels (Some \<lparr>so_field = SortFieldRecordCreatedAt, so_direction = dir\<rparr>) after True"
  by (auto simp: page_builds_def sortedRecordsPage_def keysetSortFieldName_def Let_def sample_parts newSortedPage_def buildSortExpr_def res_map_def
      recordCreatedAtKeysetSegments_def segment_ok_def validateSQLiteAggregateParameterCount_def SQLiteAggregateParameterLimit_def is_ok_def)

theorem sorted_pages_exact_witness:
  "fst (getByCollectionSorted sample_json_engine sample_fmt ''k'' [] any_did no_labels newest 1 [''2024'', ''b''] True sample_page_db) = Ok [sample_page_row ''a'' None]
   \<and> fst (getByCollectionReversed sample_json_engine sample_fmt ''k'' [] any_did no_labels newest 1 [''2024'', ''b''] True sample_page_db) = Ok [sample_page_row ''c'' (Some ''2025'')]
   \<and> fst (getCollectionCountFiltered sample_json_engine sample_fmt ''k'' [] any_did no_labels True sample_page_db) = Ok 3"
proof -
  let ?r = "sample_page_row ''b'' (Some ''2024'')"
  have c: "cursor_of sample_json_engine SQLite newest NNil ?r = [''2024'', ''b'']"
    by (simp add: cursor_of_def sortFieldValueForRecord_def null_string_def sample_page_row_def)
  have D: "db_dialect sample_page_db = SQLite" "db_faults sample_page_db = []" by (simp_all add: sample_page_db_def sqlite_db_def)
  have u: "distinct (map rr_uri (st_records (db_store sample_page_db)))" by (simp add: sample_page_db_def sqlite_db_def sample_page_row_def)
  have t: "times_ok sample_json_engine SQLite (st_records (db_store sample_page_db))"
    by (simp add: times_ok_def sample_page_db_def sqlite_db_def sample_page_row_def sample_json_engine_def created_value_def)
  have o: "sort_ok newest" by (simp add: sort_ok_def dir_ok_def keysetSortFieldName_def)
  have k: "buildSortExpr sample_fmt SQLite newest = Ok (recordCreatedAtOrderBy SQLite ''DESC'')" by (simp add: buildSortExpr_def Let_def)
  have b: "page_builds sample_fmt SQLite ''k'' [] any_did no_labels newest [] True"
    "page_builds sample_fmt SQLite ''k'' [] any_did no_labels newest [''2024'', ''b''] True"
    "page_builds sample_fmt SQLite ''k'' [] any_did no_labels (Some (reversedSort newest)) [''2024'', ''b''] True"
    unfolding reversedSort_def option.case sort_option.simps by (rule sample_builds, simp)+
  have n: "count_builds sample_fmt SQLite [] any_did no_labels True"
    by (simp add: count_builds_def Let_def sample_parts validateSQLiteAggregateParameterCount_def SQLiteAggregateParameterLimit_def is_ok_def)
  show ?thesis
    using sorted_pages_exact [of sample_page_db sample_json_engine newest 1, where nv = NNil, unfolded D, OF refl u t o _ k sample_listing, unfolded c, OF _ b n] by simp
qed

end
