(* ===== verification/Where_Filters.thy ===== *)
theory Where_Filters
  imports Record_Filters Lexicon_Registry Json_Time "HOL-Library.Multiset"
begin

text \<open>
  The \<open>where\<close> argument of typed record queries becomes repository filters: \<open>extractFiltersWithExternalLabels\<close> (\<open>internal/graphql/schema/builder.go\<close>),
  nested property filters (\<open>nested_filters.go\<close>), the hand-written filter fields of two collections (\<open>collection_filter_extensions.go\<close>) and the
  rewriting of \<open>createdAt\<close> to the indexed column (\<open>created_at_column.go\<close>).

  A Go map is the list of its entries in the order a loop over it takes, which Go chooses anew each time; \<open>same_arg\<close> relates the orders of
  one map at every level.  graphql-go delivers a map only where an input object is declared, so a map never stands where an operator expects a value.
\<close>

section \<open>Arguments\<close>

datatype gval = GVal fvalue | GMap "(string \<times> gval) list"

definition gval_leaf :: "gval \<Rightarrow> fvalue" where
  "gval_leaf v = (case v of GVal x \<Rightarrow> x | GMap _ \<Rightarrow> VOther ''map[string]interface {}'')"

definition gval_nil :: "gval \<Rightarrow> bool" where
  "gval_nil v = (v = GVal VNil)"

definition MaxFilterConditions :: nat where "MaxFilterConditions = 20"

definition FieldFilterTargetJSON :: string where "FieldFilterTargetJSON = ''json''"
definition FieldFilterTargetColumn :: string where "FieldFilterTargetColumn = ''column''"
definition FieldFilterTargetContributorDID :: string where "FieldFilterTargetContributorDID = ''contributor_did''"
definition FieldFilterTargetBadgeAwardBadgeType :: string where "FieldFilterTargetBadgeAwardBadgeType = ''badge_award_badge_type''"

text \<open>One filter per entry of an operator map, in its order; nil values are skipped.\<close>

definition operator_filters :: "string \<Rightarrow> string \<Rightarrow> string \<Rightarrow> (string \<times> gval) list \<Rightarrow> field_filter list" where
  "operator_filters field ty target filterMap =
     map (\<lambda>(op, v). \<lparr>ff_field = field, ff_path = [], ff_array_path = [], ff_operator = op, ff_value = gval_leaf v, ff_type = ty, ff_target = target\<rparr>)
       (filter (\<lambda>(op, v). \<not> gval_nil v) filterMap)"

section \<open>DIDs and labels\<close>

definition nonempty_strings :: "fvalue list \<Rightarrow> string list" where
  "nonempty_strings vs = concat (map (\<lambda>v. case v of VStr s \<Rightarrow> if s \<noteq> [] then [s] else [] | _ \<Rightarrow> []) vs)"

definition extract_did :: "(string \<times> gval) list \<Rightarrow> did_filter \<Rightarrow> did_filter" where
  "extract_did filterMap df =
     (let df1 = (case map_of filterMap ''eq'' of Some (GVal (VStr s)) \<Rightarrow> if s \<noteq> [] then df\<lparr>df_eq := s\<rparr> else df | _ \<Rightarrow> df) in
      case map_of filterMap ''in'' of Some (GVal (VList vs)) \<Rightarrow> df1\<lparr>df_in := df_in df1 @ nonempty_strings vs\<rparr> | _ \<Rightarrow> df1)"

fun extractExternalLabelStringFilters :: "fmt_env \<Rightarrow> (string \<times> gval) list \<Rightarrow> label_string_filter list res" where
  "extractExternalLabelStringFilters F [] = Ok []"
| "extractExternalLabelStringFilters F ((op, v) # filterMap) =
     (if gval_nil v then extractExternalLabelStringFilters F filterMap
      else if op \<in> {''eq'', ''neq'', ''in'', ''contains'', ''startsWith'', ''isNull''} then
        res_map (\<lambda>fs. \<lparr>ls_operator = op, ls_value = gval_leaf v\<rparr> # fs) (extractExternalLabelStringFilters F filterMap)
      else Err (''unsupported operator '' @ go_quote (fe_unicode F) op))"

definition extract_label_strings :: "fmt_env \<Rightarrow> string \<Rightarrow> string \<Rightarrow> (string \<times> gval) list \<Rightarrow> label_string_filter list res" where
  "extract_label_strings F key prefix m =
     (case map_of m key of
        Some (GMap fs) \<Rightarrow> (case extractExternalLabelStringFilters F fs of Inl e \<Rightarrow> Err (prefix @ e) | Inr x \<Rightarrow> Ok x)
      | _ \<Rightarrow> Ok [])"

definition extractExternalLabelPredicate :: "fmt_env \<Rightarrow> (string \<times> gval) list \<Rightarrow> label_predicate res" where
  "extractExternalLabelPredicate F m =
     (let activeOnly = (case map_of m ''activeOnly'' of Some (GVal (VBool b)) \<Rightarrow> b | _ \<Rightarrow> True) in
      case extract_label_strings F ''src'' ''invalid src filter: '' m of
        Inl e \<Rightarrow> Err e
      | Inr sources \<Rightarrow>
          res_map (\<lambda>values. \<lparr>lp_sources = sources, lp_values = values, lp_active_only = activeOnly\<rparr>)
            (extract_label_strings F ''val'' ''invalid val filter: '' m))"

definition extract_label_predicate :: "fmt_env \<Rightarrow> string \<Rightarrow> string \<Rightarrow> (string \<times> gval) list \<Rightarrow> label_predicate option res" where
  "extract_label_predicate F fieldName key m =
     (case map_of m key of
        Some (GMap p) \<Rightarrow>
          (case extractExternalLabelPredicate F p of
             Inl e \<Rightarrow> Err (''invalid '' @ fieldName @ ''.'' @ key @ '' filter: '' @ e)
           | Inr x \<Rightarrow> Ok (Some x))
      | _ \<Rightarrow> Ok None)"

definition extractExternalLabelRecordFilter :: "fmt_env \<Rightarrow> string \<Rightarrow> (string \<times> gval) list \<Rightarrow> label_record_filter res" where
  "extractExternalLabelRecordFilter F fieldName m =
     (case extract_label_predicate F fieldName ''has'' m of
        Inl e \<Rightarrow> Err e
      | Inr h \<Rightarrow> res_map (\<lambda>n. \<lparr>lf_has = h, lf_none = n\<rparr>) (extract_label_predicate F fieldName ''none'' m))"

section \<open>Filter fields of single collections\<close>

record collection_filter_extension =
  ce_collection :: string
  ce_field :: string
  ce_type :: string
  ce_target :: string

definition collectionFilterExtensions :: "collection_filter_extension list" where
  "collectionFilterExtensions =
     [\<lparr>ce_collection = ''org.hypercerts.claim.activity'', ce_field = ''contributorDid'', ce_type = ''string'', ce_target = FieldFilterTargetContributorDID\<rparr>,
      \<lparr>ce_collection = ''app.certified.badge.award'', ce_field = ''badgeType'', ce_type = ''string'', ce_target = FieldFilterTargetBadgeAwardBadgeType\<rparr>]"

definition collectionFilterExtensionsForCollection :: "string \<Rightarrow> collection_filter_extension list" where
  "collectionFilterExtensionsForCollection collection = filter (\<lambda>e. ce_collection e = collection) collectionFilterExtensions"

definition collectionFilterExtensionForField :: "string \<Rightarrow> string \<Rightarrow> collection_filter_extension option" where
  "collectionFilterExtensionForField collection field = List.find (\<lambda>e. ce_collection e = collection \<and> ce_field e = field) collectionFilterExtensions"

definition extractCollectionFilterExtensionFilters :: "collection_filter_extension \<Rightarrow> (string \<times> gval) list \<Rightarrow> field_filter list" where
  "extractCollectionFilterExtensionFilters e filterMap = operator_filters (ce_field e) (ce_type e) (ce_target e) filterMap"

section \<open>Nested properties\<close>

text \<open>The name of the input object of a scalar type, None where the source has nil.\<close>

definition FilterInputForLexiconType :: "string \<Rightarrow> string \<Rightarrow> string option" where
  "FilterInputForLexiconType ty format =
     (if ty = ''string'' then Some (if format = ''datetime'' then ''DateTimeFilterInput'' else ''StringFilterInput'')
      else if ty = ''integer'' then Some ''IntFilterInput''
      else if ty = ''number'' then Some ''FloatFilterInput''
      else if ty = ''boolean'' then Some ''BooleanFilterInput''
      else None)"

definition ExactFilterInputForLexiconType :: "string \<Rightarrow> string \<Rightarrow> string option" where
  "ExactFilterInputForLexiconType ty format =
     (if ty = ''string'' then Some (if format = ''datetime'' then ''ExactDateTimeFilterInput'' else ''ExactStringFilterInput'')
      else if ty = ''integer'' then Some ''ExactIntFilterInput''
      else if ty = ''number'' then Some ''ExactFloatFilterInput''
      else if ty = ''boolean'' then Some ''ExactBooleanFilterInput''
      else None)"

definition nestedFilterMaxLexiconDepth :: nat where "nestedFilterMaxLexiconDepth = 3"

definition nestedPropertyFilterType :: "property \<Rightarrow> string" where
  "nestedPropertyFilterType p =
     (case ExactFilterInputForLexiconType (pf_type (prop_fields p)) (pf_format (prop_fields p)) of Some n \<Rightarrow> n | None \<Rightarrow> pf_type (prop_fields p))"

definition scalarFieldType :: "property \<Rightarrow> string" where
  "scalarFieldType p =
     (if ExactFilterInputForLexiconType (pf_type (prop_fields p)) (pf_format (prop_fields p)) = None then []
      else if pf_format (prop_fields p) = ''datetime'' then ''datetime'' else pf_type (prop_fields p))"

definition findPropertyEntry :: "(string \<times> property) list \<Rightarrow> string \<Rightarrow> property option" where
  "findPropertyEntry props name = map_of props name"

definition resolved_properties :: "resolved \<Rightarrow> (string \<times> property) list" where
  "resolved_properties r = (case r of ResolvedObject d \<Rightarrow> od_properties d | ResolvedRecord d \<Rightarrow> rd_properties d)"

fun union_property :: "registry \<Rightarrow> string \<Rightarrow> string \<Rightarrow> string list \<Rightarrow> property option \<Rightarrow> property option" where
  "union_property g ctx name [] found = found"
| "union_property g ctx name (ref # refs) found =
     (case ResolveRef ref ctx g of
        None \<Rightarrow> union_property g ctx name refs found
      | Some r \<Rightarrow>
          (case findPropertyEntry (resolved_properties r) name of
             None \<Rightarrow> union_property g ctx name refs found
           | Some p \<Rightarrow>
               (case found of
                  Some q \<Rightarrow> if nestedPropertyFilterType q \<noteq> nestedPropertyFilterType p then None else union_property g ctx name refs (Some p)
                | None \<Rightarrow> union_property g ctx name refs (Some p))))"

definition findUnionNestedProperty :: "string \<Rightarrow> registry \<Rightarrow> string list \<Rightarrow> string \<Rightarrow> property option" where
  "findUnionNestedProperty ctx g refs name = union_property g ctx name refs None"

definition nested_filter :: "string \<Rightarrow> string list \<Rightarrow> string list \<Rightarrow> string \<Rightarrow> gval \<Rightarrow> string \<Rightarrow> field_filter" where
  "nested_filter field path arrayPath op v ty =
     \<lparr>ff_field = field, ff_path = path, ff_array_path = arrayPath, ff_operator = op, ff_value = gval_leaf v, ff_type = ty, ff_target = []\<rparr>"

definition present :: "(string \<times> gval) list \<Rightarrow> string \<Rightarrow> gval option" where
  "present m k = (case map_of m k of Some v \<Rightarrow> if gval_nil v then None else Some v | None \<Rightarrow> None)"

definition nested_operator :: "string \<Rightarrow> string list \<Rightarrow> string list \<Rightarrow> string \<Rightarrow> (string \<times> gval) list \<Rightarrow> string \<Rightarrow> field_filter list" where
  "nested_operator field path arrayPath ty m op = (case present m op of Some v \<Rightarrow> [nested_filter field path arrayPath op v ty] | None \<Rightarrow> [])"

definition item_property :: "array_items \<Rightarrow> property" where
  "item_property items = Property \<lparr>pf_type = ai_type items, pf_required = False, pf_format = [], pf_ref = ai_ref items, pf_refs = ai_refs items,
     pf_items = None, pf_description = [], pf_default = None, pf_minimum = None, pf_maximum = None, pf_min_length = None, pf_max_length = None,
     pf_enum = [], pf_const = None, pf_known_values = []\<rparr> None"

definition nested_any_error :: "fmt_env \<Rightarrow> string \<Rightarrow> string list \<Rightarrow> err" where
  "nested_any_error F field path =
     ''nested array any filters inside another array any are not supported for field '' @ go_quote (fe_unicode F) field
       @ '' at path '' @ go_quote (fe_unicode F) (join_with ''.'' path)"

lemma any_smaller: "map_of m k = Some (GMap m') \<Longrightarrow> size (GMap m') < size (GMap m)"
  by (induction m) (auto split: if_splits)

text \<open>The four functions call each other on parts of the argument, so they end however the schemas refer to each other.\<close>

function (sequential)
  extractNestedPropertyFiltersAtPath :: "fmt_env \<Rightarrow> registry \<Rightarrow> string \<Rightarrow> string \<Rightarrow> property \<Rightarrow> (string \<times> gval) list \<Rightarrow> string list \<Rightarrow> string list \<Rightarrow> nat \<Rightarrow> field_filter list res"
and extractNestedRefFilters :: "fmt_env \<Rightarrow> registry \<Rightarrow> string \<Rightarrow> string \<Rightarrow> string \<Rightarrow> (string \<times> gval) list \<Rightarrow> string list \<Rightarrow> string list \<Rightarrow> nat \<Rightarrow> field_filter list res"
and extractNestedUnionFilters :: "fmt_env \<Rightarrow> registry \<Rightarrow> string \<Rightarrow> string \<Rightarrow> string list \<Rightarrow> (string \<times> gval) list \<Rightarrow> string list \<Rightarrow> string list \<Rightarrow> nat \<Rightarrow> field_filter list res"
and extractNestedObjectFilters :: "fmt_env \<Rightarrow> registry \<Rightarrow> string \<Rightarrow> string \<Rightarrow> (string \<times> property) list \<Rightarrow> (string \<times> gval) list \<Rightarrow> string list \<Rightarrow> string list \<Rightarrow> nat \<Rightarrow> field_filter list res"
where
  "extractNestedPropertyFiltersAtPath F g ctx field prop m path arrayPath depth =
     (let filters = nested_operator field path arrayPath (pf_type (prop_fields prop)) m ''isNull''; scalarType = scalarFieldType prop in
      if scalarType \<noteq> [] then
        Ok (filters @ nested_operator field path arrayPath scalarType m ''eq'' @ nested_operator field path arrayPath scalarType m ''in'')
      else if depth \<ge> nestedFilterMaxLexiconDepth \<and> pf_type (prop_fields prop) \<noteq> ''array'' then Ok filters
      else if pf_type (prop_fields prop) = ''array'' then
        (case (map_of m ''any'', pf_items (prop_fields prop)) of
           (Some (GMap anyVal), Some items) \<Rightarrow>
             if length arrayPath > 0 then Err (nested_any_error F field path)
             else res_map (\<lambda>fs. filters @ fs) (extractNestedPropertyFiltersAtPath F g ctx field (item_property items) anyVal [] path depth)
         | _ \<Rightarrow> Ok filters)
      else if pf_type (prop_fields prop) = ''ref'' then
        res_map (\<lambda>fs. filters @ fs) (extractNestedRefFilters F g ctx field (pf_ref (prop_fields prop)) m path arrayPath depth)
      else if pf_type (prop_fields prop) = ''union'' then
        res_map (\<lambda>fs. filters @ fs) (extractNestedUnionFilters F g ctx field (pf_refs (prop_fields prop)) m path arrayPath depth)
      else Ok filters)"
| "extractNestedRefFilters F g ctx field ref m path arrayPath depth =
     (case ResolveRef ref ctx g of
        None \<Rightarrow> Ok []
      | Some r \<Rightarrow> extractNestedObjectFilters F g ctx field (resolved_properties r) m path arrayPath depth)"
| "extractNestedUnionFilters F g ctx field refs [] path arrayPath depth = Ok []"
| "extractNestedUnionFilters F g ctx field refs ((name, GMap nested) # m) path arrayPath depth =
     (case findUnionNestedProperty ctx g refs name of
        Some prop \<Rightarrow>
          if name = ''isNull'' \<or> depth + 1 > nestedFilterMaxLexiconDepth then extractNestedUnionFilters F g ctx field refs m path arrayPath depth
          else (case extractNestedPropertyFiltersAtPath F g ctx field prop nested (path @ [name]) arrayPath (depth + 1) of
                  Inl e \<Rightarrow> Err e
                | Inr fs \<Rightarrow> res_map (\<lambda>rest. fs @ rest) (extractNestedUnionFilters F g ctx field refs m path arrayPath depth))
      | None \<Rightarrow> extractNestedUnionFilters F g ctx field refs m path arrayPath depth)"
| "extractNestedUnionFilters F g ctx field refs (_ # m) path arrayPath depth = extractNestedUnionFilters F g ctx field refs m path arrayPath depth"
| "extractNestedObjectFilters F g ctx field props [] path arrayPath depth = Ok []"
| "extractNestedObjectFilters F g ctx field props ((name, GMap nested) # m) path arrayPath depth =
     (case findPropertyEntry props name of
        Some prop \<Rightarrow>
          if name = ''isNull'' \<or> depth + 1 > nestedFilterMaxLexiconDepth then extractNestedObjectFilters F g ctx field props m path arrayPath depth
          else (case extractNestedPropertyFiltersAtPath F g ctx field prop nested (path @ [name]) arrayPath (depth + 1) of
                  Inl e \<Rightarrow> Err e
                | Inr fs \<Rightarrow> res_map (\<lambda>rest. fs @ rest) (extractNestedObjectFilters F g ctx field props m path arrayPath depth))
      | None \<Rightarrow> extractNestedObjectFilters F g ctx field props m path arrayPath depth)"
| "extractNestedObjectFilters F g ctx field props (_ # m) path arrayPath depth = extractNestedObjectFilters F g ctx field props m path arrayPath depth"
  by pat_completeness auto
termination
  by (relation "measures [\<lambda>x. case x of Inl (Inl (F, g, ctx, field, prop, m, _)) \<Rightarrow> size (GMap m) | Inl (Inr (F, g, ctx, field, ref, m, _)) \<Rightarrow> size (GMap m)
        | Inr (Inl (F, g, ctx, field, refs, m, _)) \<Rightarrow> size (GMap m) | Inr (Inr (F, g, ctx, field, props, m, _)) \<Rightarrow> size (GMap m),
      \<lambda>x. case x of Inl (Inl _) \<Rightarrow> 2 | Inl (Inr _) \<Rightarrow> 1 | Inr _ \<Rightarrow> (0 :: nat)]")
    (auto dest: any_smaller [OF sym])

definition extractNestedPropertyFilters :: "fmt_env \<Rightarrow> registry \<Rightarrow> string \<Rightarrow> string \<Rightarrow> property \<Rightarrow> (string \<times> gval) list \<Rightarrow> field_filter list res" where
  "extractNestedPropertyFilters F g ctx field prop m = extractNestedPropertyFiltersAtPath F g ctx field prop m [field] [] 1"

section \<open>The where argument\<close>

record where_filters =
  wf_filters :: "field_filter list"
  wf_did :: did_filter
  wf_labels :: label_filter_set

definition no_where :: where_filters where
  "no_where = \<lparr>wf_filters = [], wf_did = \<lparr>df_eq = [], df_in = []\<rparr>,
     wf_labels = \<lparr>lfs_record = \<lparr>lf_has = None, lf_none = None\<rparr>, lfs_author = \<lparr>lf_has = None, lf_none = None\<rparr>\<rparr>\<rparr>"

text \<open>The filters of a field that is neither \<open>did\<close> nor a label filter.\<close>

definition extract_field :: "fmt_env \<Rightarrow> registry \<Rightarrow> string \<Rightarrow> string \<Rightarrow> (string \<times> gval) list \<Rightarrow> field_filter list res" where
  "extract_field F g lexiconID fieldName filterMap =
     (case collectionFilterExtensionForField lexiconID fieldName of
        Some e \<Rightarrow> Ok (extractCollectionFilterExtensionFilters e filterMap)
      | None \<Rightarrow>
          if fieldName = ''uri'' then Ok (operator_filters fieldName ''string'' FieldFilterTargetColumn filterMap)
          else (case Option.bind (GetRecordDef lexiconID g) (\<lambda>d. GetProperty fieldName (rd_properties d)) of
                  None \<Rightarrow> Ok (operator_filters fieldName ''string'' FieldFilterTargetJSON filterMap)
                | Some prop \<Rightarrow>
                    let fieldType = (if pf_format (prop_fields prop) = ''datetime'' then ''datetime'' else pf_type (prop_fields prop)) in
                    if FilterInputForLexiconType (pf_type (prop_fields prop)) (pf_format (prop_fields prop)) = None
                    then extractNestedPropertyFilters F g lexiconID fieldName prop filterMap
                    else Ok (operator_filters fieldName fieldType FieldFilterTargetJSON filterMap)))"

definition extract_entry :: "fmt_env \<Rightarrow> registry \<Rightarrow> string \<Rightarrow> string \<Rightarrow> (string \<times> gval) list \<Rightarrow> where_filters \<Rightarrow> where_filters res" where
  "extract_entry F g lexiconID fieldName filterMap w =
     (if fieldName = ''did'' then Ok (w\<lparr>wf_did := extract_did filterMap (wf_did w)\<rparr>)
      else if fieldName = ''externalLabels'' then
        res_map (\<lambda>f. w\<lparr>wf_labels := (wf_labels w)\<lparr>lfs_record := f\<rparr>\<rparr>) (extractExternalLabelRecordFilter F fieldName filterMap)
      else if fieldName = ''authorLabels'' then
        res_map (\<lambda>f. w\<lparr>wf_labels := (wf_labels w)\<lparr>lfs_author := f\<rparr>\<rparr>) (extractExternalLabelRecordFilter F fieldName filterMap)
      else res_map (\<lambda>fs. w\<lparr>wf_filters := wf_filters w @ fs\<rparr>) (extract_field F g lexiconID fieldName filterMap))"

fun extract_where :: "fmt_env \<Rightarrow> registry \<Rightarrow> string \<Rightarrow> (string \<times> gval) list \<Rightarrow> where_filters \<Rightarrow> where_filters res" where
  "extract_where F g lexiconID [] w = Ok w"
| "extract_where F g lexiconID ((fieldName, GMap filterMap) # whereMap) w =
     (case extract_entry F g lexiconID fieldName filterMap w of
        Inl e \<Rightarrow> Err e
      | Inr w' \<Rightarrow> extract_where F g lexiconID whereMap w')"
| "extract_where F g lexiconID (_ # whereMap) w = extract_where F g lexiconID whereMap w"

definition extractFiltersWithExternalLabels :: "fmt_env \<Rightarrow> registry \<Rightarrow> string \<Rightarrow> gval \<Rightarrow> where_filters res" where
  "extractFiltersWithExternalLabels F g lexiconID whereArg =
     (case whereArg of
        GVal _ \<Rightarrow> Ok no_where
      | GMap whereMap \<Rightarrow>
          if length whereMap = 0 then Ok no_where
          else (case extract_where F g lexiconID whereMap no_where of
                  Inl e \<Rightarrow> Err e
                | Inr w \<Rightarrow>
                    if length (wf_filters w) > MaxFilterConditions then
                      Err (''too many filter conditions: '' @ show_nat (length (wf_filters w)) @ '' (maximum '' @ show_nat MaxFilterConditions @ '')'')
                    else Ok w))"

definition extractFilters :: "fmt_env \<Rightarrow> registry \<Rightarrow> string \<Rightarrow> gval \<Rightarrow> (field_filter list \<times> did_filter) res" where
  "extractFilters F g lexiconID whereArg = res_map (\<lambda>w. (wf_filters w, wf_did w)) (extractFiltersWithExternalLabels F g lexiconID whereArg)"

section \<open>createdAt on the indexed column\<close>

definition createdAtDatetimeProperty :: "registry \<Rightarrow> string \<Rightarrow> property option" where
  "createdAtDatetimeProperty g collection =
     (case GetRecordDef collection g of
        None \<Rightarrow> None
      | Some d \<Rightarrow>
          (case GetProperty ''createdAt'' (rd_properties d) of
             None \<Rightarrow> None
           | Some p \<Rightarrow> if pf_type (prop_fields p) \<noteq> ''string'' \<or> pf_format (prop_fields p) \<noteq> ''datetime'' then None else Some p))"

definition sortsByRecordCreatedAtColumn :: "registry \<Rightarrow> string \<Rightarrow> bool" where
  "sortsByRecordCreatedAtColumn g collection = (createdAtDatetimeProperty g collection \<noteq> None)"

definition filtersByRecordCreatedAtColumn :: "registry \<Rightarrow> string \<Rightarrow> bool \<Rightarrow> bool" where
  "filtersByRecordCreatedAtColumn g collection validOnly =
     (validOnly \<and> (case createdAtDatetimeProperty g collection of None \<Rightarrow> False | Some p \<Rightarrow> pf_required (prop_fields p)))"

definition normalized_text :: "decoders \<Rightarrow> fvalue \<Rightarrow> fvalue option" where
  "normalized_text X v = (case v of VStr s \<Rightarrow> map_option VStr (NormalizeRecordDatetime X s) | _ \<Rightarrow> None)"

fun normalized_list :: "decoders \<Rightarrow> fvalue list \<Rightarrow> fvalue list option" where
  "normalized_list X [] = Some []"
| "normalized_list X (v # vs) =
     (case normalized_text X v of None \<Rightarrow> None | Some n \<Rightarrow> map_option (\<lambda>ns. n # ns) (normalized_list X vs))"

definition createdAtColumnFilter :: "decoders \<Rightarrow> field_filter \<Rightarrow> field_filter option" where
  "createdAtColumnFilter X f =
     (if ff_field f \<noteq> ''createdAt'' \<or> length (ff_path f) > 0 \<or> length (ff_array_path f) > 0 \<or> ff_target f \<noteq> [] \<and> ff_target f \<noteq> FieldFilterTargetJSON then None
      else map_option (\<lambda>v. \<lparr>ff_field = SortFieldRecordCreatedAt, ff_path = [], ff_array_path = [], ff_operator = ff_operator f, ff_value = v,
             ff_type = ''datetime'', ff_target = FieldFilterTargetColumn\<rparr>)
        (if ff_operator f \<in> {''eq'', ''neq'', ''gt'', ''lt'', ''gte'', ''lte''} then normalized_text X (ff_value f)
         else if ff_operator f = ''in'' then (case ff_value f of VList vs \<Rightarrow> map_option VList (normalized_list X vs) | _ \<Rightarrow> None)
         else None))"

definition mapCreatedAtFiltersToColumn :: "decoders \<Rightarrow> field_filter list \<Rightarrow> field_filter list" where
  "mapCreatedAtFiltersToColumn X = map (\<lambda>f. case createdAtColumnFilter X f of Some column \<Rightarrow> column | None \<Rightarrow> f)"

section \<open>The order of a map's entries\<close>

text \<open>One argument seen by two loops: Go maps have distinct keys, and a loop may take the entries in any order, at every level.\<close>

inductive same_arg :: "gval \<Rightarrow> gval \<Rightarrow> bool" where
  same_leaf: "same_arg (GVal v) (GVal v)"
| same_map: "list_all2 (\<lambda>p q. fst p = fst q \<and> same_arg (snd p) (snd q)) m m1 \<Longrightarrow> mset m1 = mset m' \<Longrightarrow> distinct (map fst m)
    \<Longrightarrow> same_arg (GMap m) (GMap m')"
monos list.rel_mono

inductive_cases same_argE: "same_arg (GVal v) b" "same_arg a (GVal v)" "same_arg (GMap m) b"
inductive_simps same_arg_simps: "same_arg (GVal v) (GVal v')" "same_arg (GVal v) (GMap m)" "same_arg (GMap m) (GVal v)"

lemma list_all2_keys: "list_all2 (\<lambda>p q. fst p = fst q \<and> R (snd p) (snd q)) m m1 \<Longrightarrow> map fst m = map fst m1"
  by (induction rule: list_all2_induct) simp_all

lemma list_all2_lookup: "list_all2 (\<lambda>p q. fst p = fst q \<and> R (snd p) (snd q)) m m1 \<Longrightarrow> rel_option R (map_of m k) (map_of m1 k)"
  by (induction rule: list_all2_induct) auto

lemma same_map_lookup: "same_arg (GMap m) (GMap m') \<Longrightarrow> rel_option same_arg (map_of m k) (map_of m' k)"
proof (erule same_argE)
  fix m1 m'' assume a: "GMap m' = GMap m''" "list_all2 (\<lambda>p q. fst p = fst q \<and> same_arg (snd p) (snd q)) m m1" "mset m1 = mset m''" "distinct (map fst m)"
  then have "distinct (map fst m1)" by (simp add: list_all2_keys [OF a(2)])
  moreover have "distinct (map fst m')" using a(1,3) calculation by (metis gval.inject(2) mset_eq_imp_distinct_iff mset_map)
  ultimately have "map_of m1 = map_of m'" using a(1,3) by (intro map_of_inject_set [THEN iffD2]) (auto dest: mset_eq_setD)
  with list_all2_lookup [OF a(2), of k] show ?thesis by simp
qed

lemma same_nil: "same_arg a b \<Longrightarrow> gval_nil a = gval_nil b"
  by (cases rule: same_arg.cases) (auto simp: gval_nil_def)

lemma same_value: "same_arg a b \<Longrightarrow> gval_leaf a = gval_leaf b"
  by (cases rule: same_arg.cases) (auto simp: gval_leaf_def)

lemma same_present: "same_arg (GMap m) (GMap m') \<Longrightarrow> rel_option same_arg (present m k) (present m' k)"
  using same_map_lookup [of m m' k] by (auto simp: present_def rel_option_iff same_nil split: option.splits)

lemma same_nested_operator: "same_arg (GMap m) (GMap m') \<Longrightarrow> nested_operator field path ap ty m op = nested_operator field path ap ty m' op"
  using same_present [of m m' op] by (auto simp: nested_operator_def nested_filter_def rel_option_iff same_value split: option.splits)

definition same_res :: "('a \<Rightarrow> 'b \<Rightarrow> bool) \<Rightarrow> 'a res \<Rightarrow> 'b res \<Rightarrow> bool" where
  "same_res R a b = (case (a, b) of (Inl _, Inl _) \<Rightarrow> True | (Inr x, Inr y) \<Rightarrow> R x y | _ \<Rightarrow> False)"

abbreviation same_filters :: "'a list res \<Rightarrow> 'a list res \<Rightarrow> bool" where
  "same_filters \<equiv> same_res (\<lambda>fs gs. mset fs = mset gs)"

lemma same_res_simps [simp]:
  "same_res R (Ok x) (Ok y) = R x y" "same_res R (Err e) (Err e') = True" "same_res R (Ok x) (Err e) = False" "same_res R (Err e) (Ok y) = False"
  by (simp_all add: same_res_def)

lemma same_res_map: "same_res R a b \<Longrightarrow> (\<And>x y. R x y \<Longrightarrow> S (f x) (g y)) \<Longrightarrow> same_res S (res_map f a) (res_map g b)"
  by (cases a; cases b) (simp_all add: res_map_def)

text \<open>A loop that collects filters from the entries of a map, up to the first error.\<close>

fun collect :: "('a \<Rightarrow> 'b list res) \<Rightarrow> 'a list \<Rightarrow> 'b list res" where
  "collect f [] = Ok []"
| "collect f (x # xs) = (case f x of Inl e \<Rightarrow> Err e | Inr fs \<Rightarrow> res_map (\<lambda>rest. fs @ rest) (collect f xs))"

lemma collect_Ok: "collect f xs = Ok ys \<longleftrightarrow> (\<forall>x\<in>set xs. is_ok (f x)) \<and> ys = concat (map (\<lambda>x. case f x of Inl _ \<Rightarrow> [] | Inr fs \<Rightarrow> fs) xs)"
proof (induction xs arbitrary: ys)
  case (Cons a xs)
  show ?case using Cons.IH [of "concat (map (\<lambda>x. case f x of Inl _ \<Rightarrow> [] | Inr fs \<Rightarrow> fs) xs)"] Cons.IH
    by (cases "f a"; cases "collect f xs") (auto simp: res_map_def is_ok_def)
qed auto

lemma collect_same:
  assumes "list_all2 (\<lambda>x y. same_filters (f x) (g y)) xs ys"
  shows "same_filters (collect f xs) (collect g ys)"
  using assms
proof (induction rule: list_all2_induct)
  case (Cons x xs y ys)
  then show ?case by (cases "f x"; cases "g y"; cases "collect f xs"; cases "collect g ys") (simp_all add: res_map_def)
qed simp

lemma collect_perm:
  assumes "mset xs = mset ys"
  shows "same_filters (collect f xs) (collect f ys)"
proof -
  have s: "set xs = set ys" using assms by (rule mset_eq_setD)
  have m: "mset (concat (map h xs)) = mset (concat (map h ys))" for h :: "'a \<Rightarrow> 'b list"
  proof -
    have "mset (concat (map h zs)) = sum_mset (image_mset (\<lambda>x. mset (h x)) (mset zs))" for zs by (induction zs) simp_all
    then show ?thesis by (simp add: assms)
  qed
  show ?thesis
  proof (cases "\<forall>x\<in>set xs. is_ok (f x)")
    case True
    then have "collect f xs = Ok (concat (map (\<lambda>x. case f x of Inl _ \<Rightarrow> [] | Inr fs \<Rightarrow> fs) xs))" "collect f ys = Ok (concat (map (\<lambda>x. case f x of Inl _ \<Rightarrow> [] | Inr fs \<Rightarrow> fs) ys))"
      using s by (simp_all add: collect_Ok)
    then show ?thesis by (simp add: m)
  next
    case False
    then have "\<not> is_ok (collect f xs)" "\<not> is_ok (collect f ys)" using s by (auto simp: is_ok_def collect_Ok split: sum.splits)
    then show ?thesis by (auto simp: is_ok_def split: sum.splits)
  qed
qed

lemma collect_same_map:
  assumes "same_arg (GMap m) (GMap m')" "\<And>k v w. (k, v) \<in> set m \<Longrightarrow> same_arg v w \<Longrightarrow> same_filters (f (k, v)) (f (k, w))"
  shows "same_filters (collect f m) (collect f m')"
proof -
  obtain m1 where m: "list_all2 (\<lambda>p q. fst p = fst q \<and> same_arg (snd p) (snd q)) m m1" "mset m1 = mset m'" using assms(1) by (auto elim: same_argE)
  have "list_all2 (\<lambda>x y. same_filters (f x) (f y)) m m1"
  proof (rule list_all2_all_nthI)
    show "length m = length m1" using m(1) by (rule list_all2_lengthD)
    fix n assume "n < length m"
    then have "fst (m ! n) = fst (m1 ! n)" "same_arg (snd (m ! n)) (snd (m1 ! n))" "m ! n \<in> set m" using list_all2_nthD [OF m(1)] by auto
    then show "same_filters (f (m ! n)) (f (m1 ! n))" using assms(2) [of "fst (m ! n)" "snd (m ! n)" "snd (m1 ! n)"] by (metis prod.collapse)
  qed
  from collect_same [OF this] collect_perm [OF m(2), of f] show ?thesis
    by (cases "collect f m"; cases "collect f m1"; cases "collect f m'") auto
qed

definition nested_entry :: "fmt_env \<Rightarrow> registry \<Rightarrow> string \<Rightarrow> string \<Rightarrow> (string \<Rightarrow> property option) \<Rightarrow> string list \<Rightarrow> string list \<Rightarrow> nat \<Rightarrow> string \<times> gval \<Rightarrow> field_filter list res" where
  "nested_entry F g ctx field lk path ap depth e =
     (case snd e of
        GVal _ \<Rightarrow> Ok []
      | GMap nested \<Rightarrow>
          (case lk (fst e) of
             None \<Rightarrow> Ok []
           | Some prop \<Rightarrow> if fst e = ''isNull'' \<or> depth + 1 > nestedFilterMaxLexiconDepth then Ok []
                          else extractNestedPropertyFiltersAtPath F g ctx field prop nested (path @ [fst e]) ap (depth + 1)))"

lemma nested_entry_pair:
  "nested_entry F g ctx field lk path ap depth (k, GVal x) = Ok []"
  "nested_entry F g ctx field lk path ap depth (k, GMap nested) =
     (case lk k of
        None \<Rightarrow> Ok []
      | Some p \<Rightarrow> if k = ''isNull'' \<or> depth + 1 > nestedFilterMaxLexiconDepth then Ok []
                   else extractNestedPropertyFiltersAtPath F g ctx field p nested (path @ [k]) ap (depth + 1))"
  by (simp_all add: nested_entry_def split: option.splits)

lemma res_map_simps [simp]: "res_map f (Ok x) = Ok (f x)" "res_map f (Err e) = Err e"
  by (simp_all add: res_map_def)

lemma res_map_id [simp]: "res_map ((@) []) r = r"
  by (cases r) (simp_all add: res_map_def)

lemma object_collect:
  "extractNestedObjectFilters F g ctx field props m path ap depth = collect (nested_entry F g ctx field (findPropertyEntry props) path ap depth) m"
proof (induction m)
  case (Cons e m)
  obtain k v where "e = (k, v)" by (cases e)
  then show ?case using Cons
    by (cases v) (auto simp: nested_entry_pair simp del: extractNestedPropertyFiltersAtPath.simps split: option.splits sum.splits)
qed simp

lemma union_collect:
  "extractNestedUnionFilters F g ctx field refs m path ap depth = collect (nested_entry F g ctx field (findUnionNestedProperty ctx g refs) path ap depth) m"
proof (induction m)
  case (Cons e m)
  obtain k v where "e = (k, v)" by (cases e)
  then show ?case using Cons
    by (cases v) (auto simp: nested_entry_pair simp del: extractNestedPropertyFiltersAtPath.simps split: option.splits sum.splits)
qed simp

lemma entry_smaller: "(k, v) \<in> set m \<Longrightarrow> size v < size (GMap m)"
  by (induction m) auto

lemma same_nested:
  "same_arg (GMap m) (GMap m') \<Longrightarrow>
    same_filters (extractNestedPropertyFiltersAtPath F g ctx field pr m path ap depth) (extractNestedPropertyFiltersAtPath F g ctx field pr m' path ap depth)"
proof (induction "size (GMap m)" arbitrary: m m' pr path ap depth rule: less_induct)
  case less
  let ?ty = "pf_type (prop_fields pr)"
  have loop: "same_filters (collect (nested_entry F g ctx field lk path ap depth) m) (collect (nested_entry F g ctx field lk path ap depth) m')" for lk
  proof (rule collect_same_map [OF less.prems])
    fix k v w assume kv: "(k, v) \<in> set m" and vw: "same_arg v w"
    show "same_filters (nested_entry F g ctx field lk path ap depth (k, v)) (nested_entry F g ctx field lk path ap depth (k, w))"
    proof (cases v)
      case (GVal x)
      then show ?thesis using vw by (auto simp: nested_entry_pair elim: same_argE)
    next
      case (GMap n)
      then obtain n' where "w = GMap n'" using vw by (auto elim: same_argE)
      then show ?thesis using less.hyps [of n n'] entry_smaller [OF kv] vw GMap
        by (auto simp: nested_entry_pair simp del: extractNestedPropertyFiltersAtPath.simps split: option.splits)
    qed
  qed
  note op = same_nested_operator [OF less.prems]
  consider (scalar) "scalarFieldType pr \<noteq> []" | (deep) "scalarFieldType pr = []" "depth \<ge> nestedFilterMaxLexiconDepth" "?ty \<noteq> ''array''"
    | (array) "scalarFieldType pr = []" "?ty = ''array''" | (ref) "scalarFieldType pr = []" "depth < nestedFilterMaxLexiconDepth" "?ty = ''ref''"
    | (union) "scalarFieldType pr = []" "depth < nestedFilterMaxLexiconDepth" "?ty = ''union''"
    | (other) "scalarFieldType pr = []" "depth < nestedFilterMaxLexiconDepth" "?ty \<notin> {''array'', ''ref'', ''union''}" by fastforce
  then show ?case
  proof cases
    case scalar
    then show ?thesis by (simp add: op Let_def)
  next
    case array
    show ?thesis
    proof (cases "map_of m ''any''")
      case None
      then have "map_of m' ''any'' = None" using same_map_lookup [OF less.prems, of "''any''"] by auto
      then show ?thesis using None array by (simp add: op Let_def)
    next
      case (Some v)
      then obtain w where w: "map_of m' ''any'' = Some w" "same_arg v w" using same_map_lookup [OF less.prems, of "''any''"] by (auto simp: option_rel_Some1)
      show ?thesis
      proof (cases v)
        case (GVal x)
        then show ?thesis using w Some array by (auto simp: op Let_def elim!: same_argE)
      next
        case (GMap n)
        then obtain n' where n': "w = GMap n'" using w by (auto elim: same_argE)
        have sub: "same_filters (extractNestedPropertyFiltersAtPath F g ctx field p n [] path depth) (extractNestedPropertyFiltersAtPath F g ctx field p n' [] path depth)" for p
          by (rule less.hyps) (use any_smaller Some GMap w n' in auto)
        show ?thesis unfolding extractNestedPropertyFiltersAtPath.simps [of F g ctx field pr] Let_def
          using Some GMap w(1) n' array by (auto simp: op intro!: same_res_map [OF sub] simp del: extractNestedPropertyFiltersAtPath.simps split: option.splits)
      qed
    qed
  next
    case ref
    then show ?thesis
      by (auto simp: op Let_def object_collect intro!: same_res_map [OF loop] split: option.splits)
  next
    case union
    then show ?thesis by (auto simp: op Let_def union_collect intro!: same_res_map [OF loop])
  qed (auto simp: op Let_def)
qed

section \<open>The whole argument\<close>

lemma same_operator_filters:
  assumes "same_arg (GMap m) (GMap m')"
  shows "mset (operator_filters field ty target m) = mset (operator_filters field ty target m')"
proof -
  let ?f = "\<lambda>e. Ok (operator_filters field ty target [e])"
  have c: "collect ?f xs = Ok (operator_filters field ty target xs)" for xs
    by (induction xs) (auto simp: operator_filters_def)
  have "same_filters (collect ?f m) (collect ?f m')"
    by (rule collect_same_map [OF assms]) (auto simp: operator_filters_def same_nil same_value)
  then show ?thesis by (simp add: c)
qed

lemma same_field:
  assumes "same_arg (GMap m) (GMap m')"
  shows "same_filters (extract_field F g lexiconID k m) (extract_field F g lexiconID k m')"
  using same_operator_filters [OF assms] same_nested [OF assms]
  by (auto simp: extract_field_def extractCollectionFilterExtensionFilters_def extractNestedPropertyFilters_def Let_def
      simp del: extractNestedPropertyFiltersAtPath.simps split: option.splits)

lemma same_strings:
  assumes "same_arg (GMap m) (GMap m')"
  shows "same_filters (extractExternalLabelStringFilters F m) (extractExternalLabelStringFilters F m')"
proof -
  let ?f = "\<lambda>e. extractExternalLabelStringFilters F [e]"
  have one: "?f (op, v) = (if gval_nil v then Ok [] else if op \<in> {''eq'', ''neq'', ''in'', ''contains'', ''startsWith'', ''isNull''}
      then Ok [\<lparr>ls_operator = op, ls_value = gval_leaf v\<rparr>] else Err (''unsupported operator '' @ go_quote (fe_unicode F) op))" for op v by simp
  have c: "collect ?f xs = extractExternalLabelStringFilters F xs" for xs
  proof (induction xs)
    case (Cons e xs)
    obtain op v where e: "e = (op, v)" by (cases e)
    have cons: "(@) [x] = (#) x" for x :: label_string_filter by (simp add: fun_eq_iff)
    show ?case unfolding e collect.simps one Cons by (simp add: cons)
  qed simp
  have "same_filters (collect ?f m) (collect ?f m')"
    by (rule collect_same_map [OF assms]) (auto simp: same_nil same_value)
  then show ?thesis by (simp add: c)
qed

definition same_predicate :: "label_predicate \<Rightarrow> label_predicate \<Rightarrow> bool" where
  "same_predicate p q = (mset (lp_sources p) = mset (lp_sources q) \<and> mset (lp_values p) = mset (lp_values q) \<and> lp_active_only p = lp_active_only q)"

definition same_label_filter :: "label_record_filter \<Rightarrow> label_record_filter \<Rightarrow> bool" where
  "same_label_filter f h = (rel_option same_predicate (lf_has f) (lf_has h) \<and> rel_option same_predicate (lf_none f) (lf_none h))"

lemma same_cases:
  assumes "same_arg (GMap m) (GMap m')"
  obtains "map_of m k = None" "map_of m' k = None" | x where "map_of m k = Some (GVal x)" "map_of m' k = Some (GVal x)"
    | n n' where "map_of m k = Some (GMap n)" "map_of m' k = Some (GMap n')" "same_arg (GMap n) (GMap n')"
proof (cases "map_of m k")
  case None
  then show ?thesis using same_map_lookup [OF assms, of k] that(1) by auto
next
  case (Some v)
  then obtain w where "map_of m' k = Some w" "same_arg v w" using same_map_lookup [OF assms, of k] by (auto simp: option_rel_Some1)
  note w = this
  show ?thesis
  proof (cases v)
    case (GVal x)
    then show ?thesis using w Some that(2) by (auto elim: same_argE)
  next
    case (GMap n)
    then obtain n' where "w = GMap n'" using w by (auto elim: same_argE)
    then show ?thesis using w Some GMap that(3) by simp
  qed
qed

lemma same_label_strings:
  assumes "same_arg (GMap m) (GMap m')"
  shows "same_filters (extract_label_strings F key pre m) (extract_label_strings F key pre m')"
proof (cases rule: same_cases [OF assms, of key])
  case (3 n n')
  then show ?thesis using same_strings [OF 3(3), of F]
    by (cases "extractExternalLabelStringFilters F n"; cases "extractExternalLabelStringFilters F n'") (simp_all add: extract_label_strings_def)
qed (simp_all add: extract_label_strings_def)

lemma same_predicates:
  assumes "same_arg (GMap m) (GMap m')"
  shows "same_res same_predicate (extractExternalLabelPredicate F m) (extractExternalLabelPredicate F m')"
proof -
  have "(case map_of m ''activeOnly'' of Some (GVal (VBool b)) \<Rightarrow> b | _ \<Rightarrow> True) = (case map_of m' ''activeOnly'' of Some (GVal (VBool b)) \<Rightarrow> b | _ \<Rightarrow> True)"
    by (cases rule: same_cases [OF assms, of "''activeOnly''"]) simp_all
  then show ?thesis
    using same_label_strings [OF assms, of F "''src''" "''invalid src filter: ''"] same_label_strings [OF assms, of F "''val''" "''invalid val filter: ''"]
    unfolding extractExternalLabelPredicate_def Let_def
    by (cases "extract_label_strings F ''src'' ''invalid src filter: '' m"; cases "extract_label_strings F ''src'' ''invalid src filter: '' m'";
        cases "extract_label_strings F ''val'' ''invalid val filter: '' m"; cases "extract_label_strings F ''val'' ''invalid val filter: '' m'")
      (simp_all add: same_predicate_def)
qed

lemma same_label_predicate:
  assumes "same_arg (GMap m) (GMap m')"
  shows "same_res (rel_option same_predicate) (extract_label_predicate F fieldName key m) (extract_label_predicate F fieldName key m')"
proof (cases rule: same_cases [OF assms, of key])
  case (3 n n')
  then show ?thesis using same_predicates [OF 3(3), of F]
    by (cases "extractExternalLabelPredicate F n"; cases "extractExternalLabelPredicate F n'") (simp_all add: extract_label_predicate_def)
qed (simp_all add: extract_label_predicate_def)

lemma same_record_filter:
  assumes "same_arg (GMap m) (GMap m')"
  shows "same_res same_label_filter (extractExternalLabelRecordFilter F k m) (extractExternalLabelRecordFilter F k m')"
  using same_label_predicate [OF assms, of F k "''has''"] same_label_predicate [OF assms, of F k "''none''"]
  unfolding extractExternalLabelRecordFilter_def
  by (cases "extract_label_predicate F k ''has'' m"; cases "extract_label_predicate F k ''has'' m'";
      cases "extract_label_predicate F k ''none'' m"; cases "extract_label_predicate F k ''none'' m'") (simp_all add: same_label_filter_def)

lemma same_did:
  assumes "same_arg (GMap m) (GMap m')"
  shows "extract_did m df = extract_did m' df"
proof -
  have "map_of m k = map_of m' k \<or> (\<exists>n n'. map_of m k = Some (GMap n) \<and> map_of m' k = Some (GMap n'))" for k by (cases rule: same_cases [OF assms, of k]) auto
  from this [of "''eq''"] this [of "''in''"] show ?thesis by (auto simp: extract_did_def)
qed

text \<open>The loop over the where map: filters are collected; the DID and label filters come from one entry each.\<close>

definition where_entry :: "fmt_env \<Rightarrow> registry \<Rightarrow> string \<Rightarrow> string \<times> gval \<Rightarrow> field_filter list res" where
  "where_entry F g lexiconID e =
     (case snd e of
        GVal _ \<Rightarrow> Ok []
      | GMap m \<Rightarrow>
          if fst e = ''did'' then Ok []
          else if fst e = ''externalLabels'' \<or> fst e = ''authorLabels'' then res_map (\<lambda>_. []) (extractExternalLabelRecordFilter F (fst e) m)
          else extract_field F g lexiconID (fst e) m)"

definition where_labels :: "fmt_env \<Rightarrow> string \<Rightarrow> (string \<times> gval) list \<Rightarrow> label_record_filter \<Rightarrow> label_record_filter" where
  "where_labels F k m f =
     (case map_of m k of Some (GMap n) \<Rightarrow> (case extractExternalLabelRecordFilter F k n of Inr h \<Rightarrow> h | Inl _ \<Rightarrow> f) | _ \<Rightarrow> f)"

definition where_did :: "(string \<times> gval) list \<Rightarrow> did_filter \<Rightarrow> did_filter" where
  "where_did m df = (case map_of m ''did'' of Some (GMap n) \<Rightarrow> extract_did n df | _ \<Rightarrow> df)"

lemma where_entry_pair:
  "where_entry F g lexiconID (k, GVal x) = Ok []"
  "where_entry F g lexiconID (k, GMap m) =
     (if k = ''did'' then Ok []
      else if k = ''externalLabels'' \<or> k = ''authorLabels'' then res_map (\<lambda>_. []) (extractExternalLabelRecordFilter F k m)
      else extract_field F g lexiconID k m)"
  by (simp_all add: where_entry_def)

lemma extract_where_parts:
  assumes "distinct (map fst m)"
  shows "extract_where F g lexiconID m w =
    res_map (\<lambda>fs. \<lparr>wf_filters = wf_filters w @ fs, wf_did = where_did m (wf_did w),
        wf_labels = \<lparr>lfs_record = where_labels F ''externalLabels'' m (lfs_record (wf_labels w)), lfs_author = where_labels F ''authorLabels'' m (lfs_author (wf_labels w))\<rparr>\<rparr>)
      (collect (where_entry F g lexiconID) m)"
  using assms
proof (induction m arbitrary: w)
  case Nil
  then show ?case by (simp add: where_did_def where_labels_def)
next
  case (Cons e m)
  obtain k v where e: "e = (k, v)" by (cases e)
  have d: "map_of m k = None" "distinct (map fst m)" using Cons.prems e by (simp_all add: map_of_eq_None_iff)
  show ?case
  proof (cases v)
    case (GVal x)
    then have "where_did (e # m) df = where_did m df" "where_labels F j (e # m) f = where_labels F j m f" for df j f
      using d(1) e by (auto simp: where_did_def where_labels_def)
    then show ?thesis using Cons.IH [OF d(2)] e GVal by (simp add: where_entry_pair)
  next
    case (GMap n)
    have step: "extract_where F g lexiconID (e # m) w = (case extract_entry F g lexiconID k n w of Inl x \<Rightarrow> Err x | Inr w' \<Rightarrow> extract_where F g lexiconID m w')"
      using e GMap by simp
    note parts = where_did_def where_labels_def extract_entry_def where_entry_pair d(1)
    consider (did) "k = ''did''" | (rec) "k = ''externalLabels''" | (auth) "k = ''authorLabels''" | (field) "k \<noteq> ''did''" "k \<noteq> ''externalLabels''" "k \<noteq> ''authorLabels''"
      by blast
    then show ?thesis
    proof cases
      case did
      then show ?thesis using d(1) unfolding step e GMap by (simp add: parts Cons.IH [OF d(2)])
    next
      case rec
      then show ?thesis using d(1) unfolding step e GMap
        by (cases "extractExternalLabelRecordFilter F k n") (simp_all add: parts Cons.IH [OF d(2)])
    next
      case auth
      then show ?thesis using d(1) unfolding step e GMap
        by (cases "extractExternalLabelRecordFilter F k n") (simp_all add: parts Cons.IH [OF d(2)])
    next
      case field
      then show ?thesis using d(1) unfolding step e GMap
        by (cases "extract_field F g lexiconID k n"; cases "collect (where_entry F g lexiconID) m") (simp_all add: parts Cons.IH [OF d(2)])
    qed
  qed
qed

definition same_where :: "where_filters \<Rightarrow> where_filters \<Rightarrow> bool" where
  "same_where w w' = (mset (wf_filters w) = mset (wf_filters w') \<and> wf_did w = wf_did w'
     \<and> same_label_filter (lfs_record (wf_labels w)) (lfs_record (wf_labels w')) \<and> same_label_filter (lfs_author (wf_labels w)) (lfs_author (wf_labels w')))"

lemma same_label_filter_refl: "same_label_filter f f"
  by (cases "lf_has f"; cases "lf_none f") (simp_all add: same_label_filter_def same_predicate_def)

lemma same_where_entry: "same_arg v u \<Longrightarrow> same_filters (where_entry F g lexiconID (k, v)) (where_entry F g lexiconID (k, u))"
proof (cases v)
  case (GMap n)
  assume vu: "same_arg v u"
  then obtain n' where n': "u = GMap n'" using GMap by (auto elim: same_argE)
  have f: "same_filters (res_map (\<lambda>_. [] :: field_filter list) (extractExternalLabelRecordFilter F k n)) (res_map (\<lambda>_. []) (extractExternalLabelRecordFilter F k n'))" for k
    by (rule same_res_map [OF same_record_filter]) (use vu GMap n' in auto)
  show ?thesis using f same_field [of n n' F g lexiconID k] vu unfolding GMap n' by (simp add: where_entry_def)
qed (auto simp: where_entry_def elim: same_argE)

lemma same_where_labels:
  assumes "same_arg (GMap m) (GMap m')"
  shows "same_label_filter (where_labels F k m f) (where_labels F k m' f)"
proof (cases rule: same_cases [OF assms, of k])
  case (3 n n')
  then show ?thesis using same_record_filter [OF 3(3), of F k]
    by (cases "extractExternalLabelRecordFilter F k n"; cases "extractExternalLabelRecordFilter F k n'") (simp_all add: where_labels_def same_label_filter_refl)
qed (simp_all add: where_labels_def same_label_filter_refl)

lemma same_where_did:
  assumes "same_arg (GMap m) (GMap m')"
  shows "where_did m df = where_did m' df"
  by (cases rule: same_cases [OF assms, of "''did''"]) (auto simp: where_did_def same_did)

lemma same_extract:
  assumes "same_arg a b"
  shows "same_res same_where (extractFiltersWithExternalLabels F g lexiconID a) (extractFiltersWithExternalLabels F g lexiconID b)"
proof (cases a)
  case (GVal x)
  then show ?thesis using assms by (auto simp: extractFiltersWithExternalLabels_def same_where_def same_label_filter_refl elim: same_argE)
next
  case (GMap m)
  then obtain m1 m' where m: "b = GMap m'" "mset m1 = mset m'" "map fst m = map fst m1" "distinct (map fst m)"
    using assms by (auto elim!: same_argE dest: list_all2_keys)
  have d: "distinct (map fst m')" using m(2,3,4) by (metis mset_eq_imp_distinct_iff mset_map)
  have l: "length m = length m'" using m(2,3) by (metis length_map size_mset)
  have s: "same_arg (GMap m) (GMap m')" using assms GMap m(1) by simp
  have c: "same_filters (collect (where_entry F g lexiconID) m) (collect (where_entry F g lexiconID) m')"
    by (rule collect_same_map [OF s]) (rule same_where_entry)
  have "same_res same_where (extract_where F g lexiconID m no_where) (extract_where F g lexiconID m' no_where)"
    unfolding extract_where_parts [OF m(4)] extract_where_parts [OF d]
    by (rule same_res_map [OF c]) (simp add: same_where_def same_where_labels [OF s] same_where_did [OF s])
  moreover have "same_where w w' \<Longrightarrow> length (wf_filters w) = length (wf_filters w')" for w w' by (auto simp: same_where_def dest: mset_eq_length)
  ultimately show ?thesis unfolding GMap m(1) extractFiltersWithExternalLabels_def gval.case l
    by (cases "extract_where F g lexiconID m no_where"; cases "extract_where F g lexiconID m' no_where") (auto simp: same_where_def same_label_filter_refl)
qed

text \<open>Filters in another order mean the same.\<close>

lemma filters_mean_same: "mset fs = mset gs \<Longrightarrow> filters_mean F D E fs c = filters_mean F D E gs c"
proof -
  assume "mset fs = mset gs"
  then have "set fs = set gs" by (rule mset_eq_setD)
  then show ?thesis by (simp add: filters_mean_def group_means_def list_all_iff)
qed

lemma labels_mean_same: "same_label_filter f h \<Longrightarrow> subject_means F D E sub f c = subject_means F D E sub h c"
proof -
  have "label_matches F D E sub p l = label_matches F D E sub q l" if "same_predicate p q" for p q l
    using that by (auto simp: same_predicate_def label_matches_def list_all_iff dest: mset_eq_setD)
  then show "same_label_filter f h \<Longrightarrow> ?thesis"
    by (auto simp: same_label_filter_def subject_means_def rel_option_iff split: option.splits) (metis (mono_tags, lifting) list_ex_iff)+
qed

end
