(* ===== verification/Record_Connection.thy ===== *)
theory Record_Connection
  imports Sorted_Paging Where_Filters Cursors Endorsement_Closure Actors_Repo Versions_Repo
begin

text \<open>
  The resolvers of record queries (\<open>internal/graphql/schema/builder.go\<close>): connections with forward and backward pages, single records, label and
  history lookups, and the attachments a query asks for (labels, author, profile), read from the selection set of the query.  \<open>emptyConnection\<close>
  stands for a server without repositories and has no counterpart.

  Parameters are the JSON decoder and the datetime parser (\<open>decoders\<close>), the database's reading of texts (\<open>json_engine\<close>), \<open>fmt\<close>, the
  RFC 3339 printer and Indigo's test for the invalid handle.
\<close>

record conn_env =
  cn_json :: json_engine
  cn_fmt :: fmt_env
  cn_dec :: decoders
  cn_rfc3339 :: "int \<Rightarrow> string"
  cn_invalid_handle :: "string \<Rightarrow> bool"

record builder =
  bl_registry :: registry
  bl_require_valid :: bool
  bl_record_types :: "string list"

section \<open>Selections\<close>

datatype ast_value = AstBool bool | AstVar string | AstOther

datatype selection =
    SelField string "(string \<times> ast_value) list" "selection list"
  | SelInline "selection list"
  | SelSpread string

record resolve_params =
  rp_args :: "(string \<times> gval) list"
  rp_fields :: "selection list list"
  rp_fragments :: "(string \<times> selection list) list"
  rp_vars :: "(string \<times> gval) list"

definition isTotalCountRequested :: "resolve_params \<Rightarrow> bool" where
  "isTotalCountRequested p = list_ex (list_ex (\<lambda>s. case s of SelField n _ _ \<Rightarrow> n = ''totalCount'' | _ \<Rightarrow> False)) (rp_fields p)"

text \<open>The fields a path reaches, with their arguments, and the fragments visited on the way.\<close>

function (domintros) sel_walk :: "(string \<times> selection list) list \<Rightarrow> selection list \<Rightarrow> string list \<Rightarrow> string list
    \<Rightarrow> (string \<times> ast_value) list list \<times> string list" where
  "sel_walk fr [] path visited = ([], visited)"
| "sel_walk fr (SelField n args sub # sels) path visited =
     (if path = [] then ([], visited)
      else if n \<noteq> hd path then sel_walk fr sels path visited
      else if length path = 1 then (let (ms, v) = sel_walk fr sels path visited in (args # ms, v))
      else (let (ms, v) = sel_walk fr sub (tl path) visited; (ns, v') = sel_walk fr sels path v in (ms @ ns, v')))"
| "sel_walk fr (SelInline sub # sels) path visited =
     (if path = [] then ([], visited)
      else (let (ms, v) = sel_walk fr sub path visited; (ns, v') = sel_walk fr sels path v in (ms @ ns, v')))"
| "sel_walk fr (SelSpread n # sels) path visited =
     (if path = [] then ([], visited)
      else if n \<in> set visited then sel_walk fr sels path visited
      else (case map_of fr n of
              None \<Rightarrow> sel_walk fr sels path visited
            | Some sub \<Rightarrow> (let (ms, v) = sel_walk fr sub path (n # visited); (ns, v') = sel_walk fr sels path v in (ms @ ns, v'))))"
  by pat_completeness auto

lemma sel_walk_grows: "sel_walk_dom (fr, sels, path, visited) \<Longrightarrow> set visited \<subseteq> set (snd (sel_walk fr sels path visited))"
proof (induction rule: sel_walk.pinduct)
  case (2 fr n args sub sels path visited)
  let ?s = "sel_walk fr sub (tl path) visited"
  show ?case
  proof (cases "path = [] \<or> n \<noteq> hd path \<or> length path = 1")
    case True
    then show ?thesis using 2 by (auto simp: sel_walk.psimps Let_def split: prod.splits)
  next
    case False
    have "set visited \<subseteq> set (snd ?s)" using "2.IH"(3) False by simp
    also have "\<dots> \<subseteq> set (snd (sel_walk fr sels path (snd ?s)))" using "2.IH"(4) [of ?s "fst ?s" "snd ?s"] False by simp
    finally show ?thesis using False "2.hyps" by (simp add: sel_walk.psimps Let_def case_prod_beta)
  qed
next
  case (3 fr sub sels path visited)
  let ?s = "sel_walk fr sub path visited"
  show ?case
  proof (cases "path = []")
    case False
    have "set visited \<subseteq> set (snd ?s)" using "3.IH"(1) False by simp
    also have "\<dots> \<subseteq> set (snd (sel_walk fr sels path (snd ?s)))" using "3.IH"(2) [of ?s "fst ?s" "snd ?s"] False by simp
    finally show ?thesis using False "3.hyps" by (simp add: sel_walk.psimps Let_def case_prod_beta)
  qed (use "3.hyps" in \<open>simp add: sel_walk.psimps\<close>)
next
  case (4 fr n sels path visited)
  show ?case
  proof (cases "path = [] \<or> n \<in> set visited \<or> map_of fr n = None")
    case True
    then show ?thesis using 4 by (auto simp: sel_walk.psimps)
  next
    case False
    then obtain sub where sub: "map_of fr n = Some sub" by auto
    let ?s = "sel_walk fr sub path (n # visited)"
    have "set visited \<subseteq> set (n # visited)" by auto
    also have "\<dots> \<subseteq> set (snd ?s)" using "4.IH"(3) [OF _ _ sub] False by simp
    also have "\<dots> \<subseteq> set (snd (sel_walk fr sels path (snd ?s)))" using "4.IH"(4) [OF _ _ sub, of ?s "fst ?s" "snd ?s"] False by simp
    finally show ?thesis using False sub "4.hyps" by (simp add: sel_walk.psimps Let_def case_prod_beta)
  qed
qed (simp add: sel_walk.psimps)

lemma unvisited_le: "set v \<subseteq> set v' \<Longrightarrow> card (fst ` set fr - set v') \<le> card (fst ` set fr - set v)"
  by (rule card_mono) auto

lemma unvisited_less:
  assumes "map_of fr n = Some sub" "n \<notin> set v"
  shows "card (fst ` set fr - set (n # v)) < card (fst ` set fr - set v)"
proof (rule psubset_card_mono)
  have "n \<in> fst ` set fr" using map_of_SomeD [OF assms(1)] by force
  then show "fst ` set fr - set (n # v) \<subset> fst ` set fr - set v" using assms(2) by auto
qed simp

lemma sel_walk_step:
  assumes "sel_walk_dom (fr, sub, p, v)" "(ms, v') = sel_walk fr sub p v" "card (fst ` set fr - set v) \<le> card (fst ` set fr - set w)" "card (fst ` set fr - set v') \<noteq> card (fst ` set fr - set w)"
  shows "card (fst ` set fr - set v') < card (fst ` set fr - set w)"
proof -
  have "set v \<subseteq> set v'" using sel_walk_grows [OF assms(1)] assms(2) by (metis snd_conv)
  from unvisited_le [OF this, of fr] show ?thesis using assms(3,4) by simp
qed

termination sel_walk
  by (relation "measures [\<lambda>(fr, sels, path, visited). card (fst ` set fr - set visited), \<lambda>(fr, sels, path, visited). size_list size sels]")
    (auto intro: sel_walk_step sel_walk_step [OF _ _ less_imp_le [OF unvisited_less]] dest: unvisited_less)

definition field_matches :: "resolve_params \<Rightarrow> string list \<Rightarrow> (string \<times> ast_value) list list" where
  "field_matches p path = concat (map (\<lambda>sels. fst (sel_walk (rp_fragments p) sels path [])) (rp_fields p))"

definition isFieldPathSelected :: "resolve_params \<Rightarrow> string list \<Rightarrow> bool" where
  "isFieldPathSelected p path = (field_matches p path \<noteq> [])"

section \<open>Labels of the records\<close>

record label_requirements =
  lr_active :: bool
  lr_history :: bool

definition requirements_any :: "label_requirements \<Rightarrow> bool" where
  "requirements_any r = (lr_active r \<or> lr_history r)"

definition requirements_merge :: "label_requirements \<Rightarrow> label_requirements \<Rightarrow> label_requirements" where
  "requirements_merge r q = \<lparr>lr_active = lr_active r \<or> lr_active q, lr_history = lr_history r \<or> lr_history q\<rparr>"

definition externalLabelActiveOnlyArgument :: "resolve_params \<Rightarrow> (string \<times> ast_value) list \<Rightarrow> bool \<times> bool" where
  "externalLabelActiveOnlyArgument p args =
     (case map_of args ''activeOnly'' of
        None \<Rightarrow> (True, True)
      | Some (AstBool b) \<Rightarrow> (b, True)
      | Some (AstVar n) \<Rightarrow>
          (case map_of (rp_vars p) n of
             None \<Rightarrow> (False, False)
           | Some v \<Rightarrow> if gval_nil v then (True, True) else (case v of GVal (VBool b) \<Rightarrow> (b, True) | _ \<Rightarrow> (False, False)))
      | Some AstOther \<Rightarrow> (False, False))"

definition externalLabelHydrationRequirementsForField :: "resolve_params \<Rightarrow> (string \<times> ast_value) list \<Rightarrow> label_requirements" where
  "externalLabelHydrationRequirementsForField p args =
     (let (activeOnly, known) = externalLabelActiveOnlyArgument p args in
      if \<not> known then \<lparr>lr_active = True, lr_history = True\<rparr>
      else if activeOnly then \<lparr>lr_active = True, lr_history = False\<rparr> else \<lparr>lr_active = False, lr_history = True\<rparr>)"

definition externalLabelHydrationRequirementsForPath :: "resolve_params \<Rightarrow> string list \<Rightarrow> label_requirements" where
  "externalLabelHydrationRequirementsForPath p path =
     foldl (\<lambda>r args. requirements_merge r (externalLabelHydrationRequirementsForField p args)) \<lparr>lr_active = False, lr_history = False\<rparr> (field_matches p path)"

record label_hydration =
  lh_active :: "(string \<times> label_row list) list"
  lh_history :: "(string \<times> label_row list) list"

definition record_subject :: "record_row \<Rightarrow> label_subject_ref" where
  "record_subject r = \<lparr>lsub_uri = rr_uri r, lsub_cid = rr_cid r\<rparr>"

definition labels_if :: "bool \<Rightarrow> err \<Rightarrow> label_env \<Rightarrow> record_row list \<Rightarrow> bool \<Rightarrow> (string \<times> label_row list) list dbm" where
  "labels_if needed message L records activeOnly =
     (if needed then db_wrap message (GetBySubjects L (map record_subject records) \<lparr>lq_sources = [], lq_values = [], lq_active_only = activeOnly\<rparr>)
      else db_return [])"

definition hydrateExternalLabelsForRecords :: "label_env \<Rightarrow> record_row list \<Rightarrow> label_requirements \<Rightarrow> label_hydration option dbm" where
  "hydrateExternalLabelsForRecords L records req =
     (if length records = 0 \<or> \<not> requirements_any req then db_return None
      else db_bind (labels_if (lr_active req) ''failed to hydrate active external labels: '' L records True) (\<lambda>active.
           db_bind (labels_if (lr_history req) ''failed to hydrate historical external labels: '' L records False) (\<lambda>history.
           db_return (Some \<lparr>lh_active = active, lh_history = history\<rparr>))))"

definition hydrateExternalLabelsForConnection :: "label_env \<Rightarrow> resolve_params \<Rightarrow> record_row list \<Rightarrow> label_hydration option dbm" where
  "hydrateExternalLabelsForConnection L p records =
     (let req = externalLabelHydrationRequirementsForPath p [''edges'', ''node'', ''externalLabels''] in
      if \<not> requirements_any req then db_return None else hydrateExternalLabelsForRecords L records req)"

definition hydrateExternalLabelsForSingleRecord :: "label_env \<Rightarrow> resolve_params \<Rightarrow> record_row \<Rightarrow> label_hydration option dbm" where
  "hydrateExternalLabelsForSingleRecord L p rec =
     (let req = externalLabelHydrationRequirementsForPath p [''externalLabels''] in
      if \<not> requirements_any req then db_return None else hydrateExternalLabelsForRecords L [rec] req)"

text \<open>A node is a map; attachments are entries under internal keys.\<close>

type_synonym node_map = "(string \<times> node_value) list"

definition go_index :: "('k \<times> 'v list) list \<Rightarrow> 'k \<Rightarrow> 'v list" where
  "go_index m k = (case map_of m k of Some vs \<Rightarrow> vs | None \<Rightarrow> [])"

definition attachExternalLabels :: "record_row \<Rightarrow> label_hydration option \<Rightarrow> node_map \<Rightarrow> node_map" where
  "attachExternalLabels rec h m =
     (case h of
        None \<Rightarrow> m
      | Some x \<Rightarrow> map_put ''__externalLabelsHistory'' (NLabels (go_index (lh_history x) (subject_key (record_subject rec))))
          (map_put ''__externalLabelsActive'' (NLabels (go_index (lh_active x) (subject_key (record_subject rec)))) m))"

section \<open>Authors\<close>

definition PublicHandle :: "conn_env \<Rightarrow> string \<Rightarrow> node_value" where
  "PublicHandle e handle =
     (let h = trim_space handle in if h = [] \<or> cn_invalid_handle e h then NNil else NJson (JStr h))"

definition NewSource :: "conn_env \<Rightarrow> string \<Rightarrow> string \<Rightarrow> node_value" where
  "NewSource e did handle = NMap [(''did'', NJson (JStr did)), (''handle'', PublicHandle e handle)]"

definition distinct_dids :: "record_row list \<Rightarrow> string list" where
  "distinct_dids records = rev (remdups (rev (filter (\<lambda>did. did \<noteq> []) (map rr_did records))))"

definition hydrateAuthorsForRecords :: "conn_env \<Rightarrow> record_row list \<Rightarrow> node_map option dbm" where
  "hydrateAuthorsForRecords e records =
     (if length records = 0 then db_return None
      else let dids = distinct_dids records in
        if length dids = 0 then db_return (Some [])
        else db_bind (db_wrap ''failed to hydrate record authors: '' (GetByDIDs dids)) (\<lambda>actors.
          db_return (Some (map (\<lambda>did. (did, NewSource e did (case map_of actors did of Some a \<Rightarrow> a_handle a | None \<Rightarrow> []))) dids))))"

definition hydrateAuthorsForConnection :: "conn_env \<Rightarrow> resolve_params \<Rightarrow> record_row list \<Rightarrow> node_map option dbm" where
  "hydrateAuthorsForConnection e p records =
     (if \<not> isFieldPathSelected p [''edges'', ''node'', ''author''] then db_return None else hydrateAuthorsForRecords e records)"

definition hydrateAuthorForSingleRecord :: "conn_env \<Rightarrow> resolve_params \<Rightarrow> record_row \<Rightarrow> node_map option dbm" where
  "hydrateAuthorForSingleRecord e p rec =
     (if \<not> isFieldPathSelected p [''author''] then db_return None else hydrateAuthorsForRecords e [rec])"

definition attachAuthorIdentity :: "record_row \<Rightarrow> node_map option \<Rightarrow> node_map \<Rightarrow> node_map" where
  "attachAuthorIdentity rec h m =
     (case h of
        None \<Rightarrow> m
      | Some authors \<Rightarrow> (case map_of authors (rr_did rec) of Some a \<Rightarrow> map_put ''__authorIdentity'' a m | None \<Rightarrow> m))"

section \<open>Nodes\<close>

definition object_map :: "(string \<times> json) list \<Rightarrow> node_map" where
  "object_map fs = foldl (\<lambda>m (k, v). map_put k (NJson v) m) [] fs"

definition attachValidationMetadata :: "record_row \<Rightarrow> node_map \<Rightarrow> node_map" where
  "attachValidationMetadata rec m =
     map_put ''validationError'' (if null_string (rr_verror rec) \<noteq> [] then NJson (JStr (null_string (rr_verror rec))) else NNil)
       (map_put ''validationStatus'' (NJson (JStr (rr_status rec))) m)"

definition node_nil :: "node_value \<Rightarrow> bool" where
  "node_nil v = (v = NNil \<or> v = NJson JNull)"

definition coerceRequiredFields :: "builder \<Rightarrow> string \<Rightarrow> node_map \<Rightarrow> node_map" where
  "coerceRequiredFields b collection m =
     (case GetRecordDef collection (bl_registry b) of
        None \<Rightarrow> m
      | Some d \<Rightarrow>
          foldl (\<lambda>m (name, prop).
            if (case map_of m name of Some v \<Rightarrow> \<not> node_nil v | None \<Rightarrow> False) then m
            else (case ZeroValueForType (pf_type (prop_fields prop)) of None \<Rightarrow> m | Some z \<Rightarrow> map_put name (NJson z) m))
            m (RequiredProperties d))"

text \<open>The standard fields of a typed record.\<close>

definition typed_fields :: "builder \<Rightarrow> dialect \<Rightarrow> string \<Rightarrow> record_row \<Rightarrow> node_map \<Rightarrow> node_map" where
  "typed_fields b D collection rec m =
     coerceRequiredFields b collection (attachValidationMetadata rec
       (map_put ''rkey'' (NJson (JStr (row_rkey D (rr_uri rec)))) (map_put ''did'' (NJson (JStr (rr_did rec)))
         (map_put ''cid'' (NJson (JStr (rr_cid rec))) (map_put ''uri'' (NJson (JStr (rr_uri rec))) m)))))"

definition genericRecordNode :: "conn_env \<Rightarrow> dialect \<Rightarrow> record_row \<Rightarrow> node_value \<Rightarrow> node_map" where
  "genericRecordNode e D rec value =
     [(''uri'', NJson (JStr (rr_uri rec))), (''cid'', NJson (JStr (rr_cid rec))), (''did'', NJson (JStr (rr_did rec))),
      (''collection'', NJson (JStr (rr_collection rec))), (''rkey'', NJson (JStr (row_rkey D (rr_uri rec)))), (''value'', value),
      (''validationStatus'', NJson (JStr (rr_status rec))), (''validationError'', NJson (JStr (null_string (rr_verror rec)))),
      (''lexiconHash'', NJson (JStr (null_string (rr_lexhash rec))))]
     @ (case rr_validated_at rec of None \<Rightarrow> [] | Some t \<Rightarrow> [(''validatedAt'', NJson (JStr (cn_rfc3339 e t)))])"

definition decodeConnectionRecordValue :: "decoders \<Rightarrow> record_row \<Rightarrow> bool \<Rightarrow> node_value option" where
  "decodeConnectionRecordValue X rec objectOnly =
     (case dec_json X (rr_json rec) of
        None \<Rightarrow> None
      | Some (JObj fs) \<Rightarrow> Some (NMap (object_map fs))
      | Some j \<Rightarrow> if objectOnly then None else Some (NJson j))"

text \<open>The node builders of the two connection resolvers: the node, and the value as it is afterwards (the typed builder fills in the decoded map itself).\<close>

definition build_node :: "conn_env \<Rightarrow> builder \<Rightarrow> dialect \<Rightarrow> string \<Rightarrow> bool \<Rightarrow> record_row \<Rightarrow> node_value \<Rightarrow> node_map option" where
  "build_node e b D collection typed rec value =
     (if typed then (case value of NMap m \<Rightarrow> Some (typed_fields b D collection rec m) | _ \<Rightarrow> None)
      else Some (genericRecordNode e D rec value))"

section \<open>Certified profiles\<close>

definition certified_profile_collection :: string where "certified_profile_collection = ''app.certified.actor.profile''"

definition certifiedProfileURI :: "string \<Rightarrow> string" where
  "certifiedProfileURI did = ''at://'' @ did @ ''/'' @ certified_profile_collection @ ''/self''"

definition profile_node :: "conn_env \<Rightarrow> builder \<Rightarrow> dialect \<Rightarrow> label_hydration option \<Rightarrow> record_row \<Rightarrow> node_map option" where
  "profile_node e b D labels rec =
     (if rr_collection rec \<noteq> certified_profile_collection then None
      else (case decodeConnectionRecordValue (cn_dec e) rec True of
              Some (NMap m) \<Rightarrow> Some (attachExternalLabels rec labels (typed_fields b D certified_profile_collection rec m))
            | _ \<Rightarrow> None))"

definition profiles_by_did :: "conn_env \<Rightarrow> builder \<Rightarrow> dialect \<Rightarrow> label_hydration option \<Rightarrow> record_row list \<Rightarrow> node_map" where
  "profiles_by_did e b D labels profiles =
     foldl (\<lambda>m rec. case profile_node e b D labels rec of Some n \<Rightarrow> map_put (rr_did rec) (NMap n) m | None \<Rightarrow> m) [] profiles"

definition hydrateCertifiedProfilesForRecords :: "conn_env \<Rightarrow> builder \<Rightarrow> record_row list \<Rightarrow> label_requirements \<Rightarrow> node_map option dbm" where
  "hydrateCertifiedProfilesForRecords e b records req d =
     (if length records = 0 \<or> certified_profile_collection \<notin> set (bl_record_types b) then (Ok None, d)
      else let uris = map certifiedProfileURI (distinct_dids records) in
        if length uris = 0 then (Ok (Some []), d)
        else db_bind (db_wrap ''failed to fetch certified profiles: '' (if bl_require_valid b then GetValidByURIs uris else GetByURIs uris)) (\<lambda>profiles.
          db_bind (if requirements_any req then db_wrap ''failed to hydrate certified profile external labels: ''
                     (hydrateExternalLabelsForRecords (je_labels (cn_json e)) profiles req) else db_return None) (\<lambda>labels.
            db_return (Some (profiles_by_did e b (db_dialect d) labels profiles)))) d)"

definition hydrateCertifiedProfilesForConnection :: "conn_env \<Rightarrow> builder \<Rightarrow> resolve_params \<Rightarrow> record_row list \<Rightarrow> node_map option dbm" where
  "hydrateCertifiedProfilesForConnection e b p records =
     (if \<not> isFieldPathSelected p [''edges'', ''node'', ''certifiedProfileData''] then db_return None
      else hydrateCertifiedProfilesForRecords e b records
        (externalLabelHydrationRequirementsForPath p [''edges'', ''node'', ''certifiedProfileData'', ''externalLabels'']))"

definition hydrateCertifiedProfileForSingleRecord :: "conn_env \<Rightarrow> builder \<Rightarrow> resolve_params \<Rightarrow> record_row \<Rightarrow> node_map option dbm" where
  "hydrateCertifiedProfileForSingleRecord e b p rec =
     (if \<not> isFieldPathSelected p [''certifiedProfileData''] then db_return None
      else hydrateCertifiedProfilesForRecords e b [rec] (externalLabelHydrationRequirementsForPath p [''certifiedProfileData'', ''externalLabels'']))"

definition attachCertifiedProfileData :: "record_row \<Rightarrow> node_map option \<Rightarrow> node_map \<Rightarrow> node_map" where
  "attachCertifiedProfileData rec h m =
     (case h of
        None \<Rightarrow> m
      | Some profiles \<Rightarrow> map_put ''__certifiedProfileData'' (case map_of profiles (rr_did rec) of Some p \<Rightarrow> p | None \<Rightarrow> NNil) m)"

section \<open>Connections\<close>

record edge =
  eg_cursor :: string
  eg_node :: node_map

record connection =
  cx_edges :: "edge list"
  cx_has_next :: bool
  cx_has_previous :: bool
  cx_start :: string
  cx_end :: string
  cx_total :: "int option"

record attachments =
  at_labels :: "label_hydration option"
  at_authors :: "node_map option"
  at_profiles :: "node_map option"

definition hydrate :: "conn_env \<Rightarrow> builder \<Rightarrow> resolve_params \<Rightarrow> record_row list \<Rightarrow> attachments dbm" where
  "hydrate e b p records =
     db_bind (hydrateExternalLabelsForConnection (je_labels (cn_json e)) p records) (\<lambda>labels.
     db_bind (hydrateAuthorsForConnection e p records) (\<lambda>authors.
     db_bind (hydrateCertifiedProfilesForConnection e b p records) (\<lambda>profiles.
     db_return \<lparr>at_labels = labels, at_authors = authors, at_profiles = profiles\<rparr>)))"

text \<open>The body of the loop over the records: None where the record is skipped.\<close>

definition record_edge :: "conn_env \<Rightarrow> builder \<Rightarrow> dialect \<Rightarrow> string \<Rightarrow> bool \<Rightarrow> sort_option option \<Rightarrow> attachments \<Rightarrow> record_row \<Rightarrow> edge option" where
  "record_edge e b D collection typed so at rec =
     (case decodeConnectionRecordValue (cn_dec e) rec typed of
        None \<Rightarrow> None
      | Some value \<Rightarrow>
          (case build_node e b D collection typed rec value of
             None \<Rightarrow> None
           | Some m \<Rightarrow>
               let node = attachCertifiedProfileData rec (at_profiles at) (attachAuthorIdentity rec (at_authors at) (attachExternalLabels rec (at_labels at) m));
                   value' = (if typed then NMap node else value) in
               Some \<lparr>eg_cursor = encodeCursorValues [sortFieldValueForRecord (cn_json e) D so rec value', rr_uri rec], eg_node = node\<rparr>))"

definition record_edges :: "conn_env \<Rightarrow> builder \<Rightarrow> dialect \<Rightarrow> string \<Rightarrow> bool \<Rightarrow> sort_option option \<Rightarrow> attachments \<Rightarrow> record_row list \<Rightarrow> edge list" where
  "record_edges e b D collection typed so at records = List.map_filter (record_edge e b D collection typed so at) records"

definition cursor_ends :: "edge list \<Rightarrow> string \<times> string" where
  "cursor_ends es = (case es of [] \<Rightarrow> ([], []) | x # xs \<Rightarrow> (eg_cursor x, eg_cursor (last es)))"

definition normalizeCreatedAtCursor :: "fmt_env \<Rightarrow> decoders \<Rightarrow> sort_option option \<Rightarrow> string list \<Rightarrow> string list res" where
  "normalizeCreatedAtCursor F X so vs =
     (if so = None \<or> keysetSortFieldName so \<noteq> SortFieldRecordCreatedAt \<or> length vs \<noteq> 2 \<or> vs ! 0 = [] then Ok vs
      else (case NormalizeRecordDatetime X (vs ! 0) of
              None \<Rightarrow> Err (''invalid cursor: createdAt value '' @ go_quote (fe_unicode F) (vs ! 0) @ '' is not a valid datetime; restart pagination without a cursor'')
            | Some t \<Rightarrow> Ok (vs[0 := t])))"

definition decode_position :: "conn_env \<Rightarrow> sort_option option \<Rightarrow> string \<Rightarrow> string list res" where
  "decode_position e so cursor =
     (if cursor = [] then Ok []
      else (case decodeCursorValues cursor of
              Inl x \<Rightarrow> Err (''invalid cursor: '' @ x)
            | Inr parts \<Rightarrow> if length parts \<noteq> 2 then Err ''invalid cursor: expected 2 components'' else normalizeCreatedAtCursor (cn_fmt e) (cn_dec e) so parts))"

definition mapCreatedAtSortToColumn :: "sort_option option \<Rightarrow> sort_option option" where
  "mapCreatedAtSortToColumn so = (case so of Some o1 \<Rightarrow> if so_field o1 = ''createdAt'' then Some (o1\<lparr>so_field := SortFieldRecordCreatedAt\<rparr>) else Some o1 | None \<Rightarrow> None)"

definition sort_argument :: "builder \<Rightarrow> string \<Rightarrow> (string \<times> gval) list \<Rightarrow> sort_option option" where
  "sort_argument b collection args =
     (let so = (case map_of args ''sortBy'' of
          Some (GVal (VStr f)) \<Rightarrow>
            if f = [] then None
            else Some \<lparr>so_field = f, so_direction = (case map_of args ''sortDirection'' of Some (GVal (VStr s)) \<Rightarrow> if s \<noteq> [] then s else ''DESC'' | _ \<Rightarrow> ''DESC'')\<rparr>
        | _ \<Rightarrow> None) in
      if sortsByRecordCreatedAtColumn (bl_registry b) collection then mapCreatedAtSortToColumn so else so)"

definition total_count :: "conn_env \<Rightarrow> resolve_params \<Rightarrow> string \<Rightarrow> where_filters \<Rightarrow> bool \<Rightarrow> int option dbm" where
  "total_count e p collection w validOnly d =
     (if \<not> isTotalCountRequested p then (Ok None, d)
      else (case (if validOnly then GetValidCollectionCountFiltered (cn_json e) (cn_fmt e) collection (wf_filters w) (wf_did w) (wf_labels w) d
                  else GetCollectionCountFilteredWithExternalLabelFilters (cn_json e) (cn_fmt e) collection (wf_filters w) (wf_did w) (wf_labels w) d) of
              (Inl _, d') \<Rightarrow> (Ok None, d')
            | (Inr n, d') \<Rightarrow> (Ok (Some n), d')))"

definition backward_page :: "conn_env \<Rightarrow> builder \<Rightarrow> resolve_params \<Rightarrow> string \<Rightarrow> bool \<Rightarrow> bool \<Rightarrow> where_filters \<Rightarrow> sort_option option \<Rightarrow> int \<Rightarrow> string \<Rightarrow> connection dbm" where
  "backward_page e b p collection typed validOnly w so lastArg before d =
     (let n = ClampPageSize lastArg in
      case decode_position e so before of
        Inl x \<Rightarrow> (Err x, d)
      | Inr position \<Rightarrow>
          db_bind (db_wrap ''failed to query records: ''
              (if validOnly then GetValidByCollectionReversed (cn_json e) (cn_fmt e) collection (wf_filters w) (wf_did w) (wf_labels w) so (n + 1) position
               else GetByCollectionReversedWithExternalLabelFilters (cn_json e) (cn_fmt e) collection (wf_filters w) (wf_did w) (wf_labels w) so (n + 1) position))
            (\<lambda>records0.
              let hasPrevious = (int (length records0) > n); records = (if hasPrevious then tl records0 else records0) in
              db_bind (hydrate e b p records) (\<lambda>at.
              db_bind (total_count e p collection w validOnly) (\<lambda>total.
                let es = record_edges e b (db_dialect d) collection typed so at records in
                db_return \<lparr>cx_edges = es, cx_has_next = (before \<noteq> []), cx_has_previous = hasPrevious,
                  cx_start = fst (cursor_ends es), cx_end = snd (cursor_ends es), cx_total = total\<rparr>))) d)"

definition forward_page :: "conn_env \<Rightarrow> builder \<Rightarrow> resolve_params \<Rightarrow> string \<Rightarrow> bool \<Rightarrow> bool \<Rightarrow> where_filters \<Rightarrow> sort_option option \<Rightarrow> int \<Rightarrow> string \<Rightarrow> connection dbm" where
  "forward_page e b p collection typed validOnly w so firstArg after d =
     (let n = ClampPageSize firstArg in
      case decode_position e so after of
        Inl x \<Rightarrow> (Err x, d)
      | Inr position \<Rightarrow>
          db_bind (db_wrap ''failed to query records: ''
              (if validOnly then GetValidByCollectionSorted (cn_json e) (cn_fmt e) collection (wf_filters w) (wf_did w) (wf_labels w) so (n + 1) position
               else GetByCollectionSortedWithExternalLabelFilters (cn_json e) (cn_fmt e) collection (wf_filters w) (wf_did w) (wf_labels w) so (n + 1) position))
            (\<lambda>records0.
              let hasNext = (int (length records0) > n); records = (if hasNext then take (nat n) records0 else records0) in
              db_bind (hydrate e b p records) (\<lambda>at.
              db_bind (total_count e p collection w validOnly) (\<lambda>total.
                let es = record_edges e b (db_dialect d) collection typed so at records in
                db_return \<lparr>cx_edges = es, cx_has_next = hasNext, cx_has_previous = (after \<noteq> []),
                  cx_start = fst (cursor_ends es), cx_end = snd (cursor_ends es), cx_total = total\<rparr>))) d)"

definition int_arg :: "(string \<times> gval) list \<Rightarrow> string \<Rightarrow> int option" where
  "int_arg args k = (case map_of args k of Some (GVal (VInt n)) \<Rightarrow> Some n | _ \<Rightarrow> None)"

definition str_arg :: "(string \<times> gval) list \<Rightarrow> string \<Rightarrow> string" where
  "str_arg args k = (case map_of args k of Some (GVal (VStr s)) \<Rightarrow> s | _ \<Rightarrow> [])"

definition connection_filters :: "conn_env \<Rightarrow> builder \<Rightarrow> string \<Rightarrow> bool \<Rightarrow> (string \<times> gval) list \<Rightarrow> where_filters res" where
  "connection_filters e b collection validOnly args =
     res_map (\<lambda>w. if filtersByRecordCreatedAtColumn (bl_registry b) collection validOnly
         then w\<lparr>wf_filters := mapCreatedAtFiltersToColumn (cn_dec e) (wf_filters w)\<rparr> else w)
       (case map_of args ''where'' of
          Some w \<Rightarrow> if gval_nil w then Ok no_where else extractFiltersWithExternalLabels (cn_fmt e) (bl_registry b) collection w
        | None \<Rightarrow> Ok no_where)"

definition resolveRecordConnection :: "conn_env \<Rightarrow> builder \<Rightarrow> resolve_params \<Rightarrow> string \<Rightarrow> bool \<Rightarrow> connection dbm" where
  "resolveRecordConnection e b p collection typed d =
     (let validOnly = (typed \<and> bl_require_valid b); args = rp_args p; after = str_arg args ''after''; before = str_arg args ''before'' in
      if (int_arg args ''first'' \<noteq> None \<or> after \<noteq> []) \<and> (int_arg args ''last'' \<noteq> None \<or> before \<noteq> [])
      then (Err ''cannot use both first/after and last/before'', d)
      else (case connection_filters e b collection validOnly args of
              Inl x \<Rightarrow> (Err x, d)
            | Inr w \<Rightarrow>
                let so = sort_argument b collection args in
                if int_arg args ''last'' \<noteq> None \<or> before \<noteq> []
                then backward_page e b p collection typed validOnly w so (case int_arg args ''last'' of Some n \<Rightarrow> n | None \<Rightarrow> 0) before d
                else forward_page e b p collection typed validOnly w so (case int_arg args ''first'' of Some n \<Rightarrow> n | None \<Rightarrow> 0) after d))"

definition createGenericRecordsResolver :: "conn_env \<Rightarrow> builder \<Rightarrow> resolve_params \<Rightarrow> connection dbm" where
  "createGenericRecordsResolver e b p =
     (let collection = str_arg (rp_args p) ''collection'' in
      if collection = [] then db_fail ''collection is required'' else resolveRecordConnection e b p collection False)"

definition createCollectionResolver :: "conn_env \<Rightarrow> builder \<Rightarrow> string \<Rightarrow> resolve_params \<Rightarrow> connection dbm" where
  "createCollectionResolver e b lexiconID p = resolveRecordConnection e b p lexiconID True"

section \<open>Single records, labels and history\<close>

text \<open>\<open>typedRecordByURI\<close>; None is \<open>sql.ErrNoRows\<close>.\<close>

definition typedRecordByURI :: "builder \<Rightarrow> string \<Rightarrow> string \<Rightarrow> record_row option dbm" where
  "typedRecordByURI b uri collection =
     (if bl_require_valid b then GetValidByURI uri collection
      else db_bind (GetByURI uri) (\<lambda>r. db_return (case r of Some rec \<Rightarrow> if rr_collection rec \<noteq> collection then None else Some rec | None \<Rightarrow> None)))"

definition createSingleRecordResolver :: "conn_env \<Rightarrow> builder \<Rightarrow> string \<Rightarrow> resolve_params \<Rightarrow> node_map option dbm" where
  "createSingleRecordResolver e b lexiconID p d =
     (case map_of (rp_args p) ''uri'' of
        Some (GVal (VStr uri)) \<Rightarrow>
          db_bind (db_wrap ''failed to fetch record: '' (typedRecordByURI b uri lexiconID)) (\<lambda>found.
            case found of
              None \<Rightarrow> db_return None
            | Some rec \<Rightarrow>
                (case dec_json (cn_dec e) (rr_json rec) of
                   Some (JObj fs) \<Rightarrow>
                     db_bind (hydrateExternalLabelsForSingleRecord (je_labels (cn_json e)) p rec) (\<lambda>labels.
                     db_bind (hydrateAuthorForSingleRecord e p rec) (\<lambda>authors.
                     db_bind (hydrateCertifiedProfileForSingleRecord e b p rec) (\<lambda>profiles.
                     db_return (Some (attachCertifiedProfileData rec profiles (attachAuthorIdentity rec authors
                       (attachExternalLabels rec labels (typed_fields b (db_dialect d) lexiconID rec (object_map fs)))))))))
                 | Some JNull \<Rightarrow> db_return None
                 | _ \<Rightarrow> db_fail ''failed to parse record JSON'')) d
      | _ \<Rightarrow> (Err ''uri is required'', d))"

definition stringListArg :: "gval option \<Rightarrow> string list" where
  "stringListArg v = (case v of Some (GVal (VList vs)) \<Rightarrow> nonempty_strings vs | Some (GVal (VStrings ss)) \<Rightarrow> ss | _ \<Rightarrow> [])"

definition FilterFromArgs :: "(string \<times> gval) list \<Rightarrow> label_query" where
  "FilterFromArgs args =
     \<lparr>lq_sources = stringListArg (map_of args ''sources''), lq_values = stringListArg (map_of args ''values''),
      lq_active_only = (case map_of args ''activeOnly'' of Some (GVal (VBool b)) \<Rightarrow> b | _ \<Rightarrow> True)\<rparr>"

definition ApplyFilter :: "label_row list \<Rightarrow> label_query \<Rightarrow> label_row list" where
  "ApplyFilter labels f =
     filter (\<lambda>l. (lq_sources f = [] \<or> lb_src l \<in> set (lq_sources f)) \<and> (lq_values f = [] \<or> lb_val l \<in> set (lq_values f))) labels"

definition ResolveFromSource :: "node_map \<Rightarrow> (string \<times> gval) list \<Rightarrow> label_row list" where
  "ResolveFromSource source args =
     (let f = FilterFromArgs args in
      case map_of source (if lq_active_only f then ''__externalLabelsActive'' else ''__externalLabelsHistory'') of
        Some (NLabels ls) \<Rightarrow> ApplyFilter ls f
      | _ \<Rightarrow> [])"

definition createExternalLabelsResolver :: "conn_env \<Rightarrow> resolve_params \<Rightarrow> label_row list dbm" where
  "createExternalLabelsResolver e p =
     (let subjects = map (\<lambda>s. \<lparr>lsub_uri = s, lsub_cid = []\<rparr>) (stringListArg (map_of (rp_args p) ''subjects'')) in
      if subjects = [] then db_return []
      else db_bind (db_wrap ''failed to query external labels: '' (GetBySubjects (je_labels (cn_json e)) subjects (FilterFromArgs (rp_args p))))
        (\<lambda>m. db_return (concat (map (\<lambda>s. go_index m (subject_key s)) subjects))))"

definition createRecordHistoryResolver :: "resolve_params \<Rightarrow> version_row list dbm" where
  "createRecordHistoryResolver p =
     (let uri = str_arg (rp_args p) ''uri''; n = (case int_arg (rp_args p) ''first'' of Some n \<Rightarrow> n | None \<Rightarrow> 0); after = trim_space (str_arg (rp_args p) ''after'') in
      if trim_space uri = [] then db_return []
      else if n < 1 \<or> n > MaxRecordHistoryPageSize then db_fail (''first must be between 1 and '' @ show_int MaxRecordHistoryPageSize)
      else (case (if after = [] then Some 0 else Atoi after) of
              Some i \<Rightarrow> if i < 0 then db_fail ''after must be a version id from a previous recordHistory page''
                         else db_wrap ''failed to query record history: '' (ListByURI uri i n)
            | None \<Rightarrow> db_fail ''after must be a version id from a previous recordHistory page''))"

end
