(* ===== verification/Connection_Walk.thy ===== *)
theory Connection_Walk
  imports Record_Connection
begin

text \<open>
  Walking a record connection page by page: a client that follows \<open>endCursor\<close> while \<open>hasNextPage\<close> holds reads the listing of its request.
  The pages of the repository (\<open>Sorted_Paging\<close>), the cursors (\<open>Cursors\<close>) and the resolver (\<open>Record_Connection\<close>) meet here.
\<close>

section \<open>Walking a connection\<close>

text \<open>A client that follows \<open>endCursor\<close> while \<open>hasNextPage\<close> holds.\<close>

fun walk :: "nat \<Rightarrow> (string \<Rightarrow> connection dbm) \<Rightarrow> string \<Rightarrow> edge list dbm" where
  "walk 0 req after = db_fail ''page budget exhausted''"
| "walk (Suc n) req after =
     db_bind (req after) (\<lambda>c. if cx_has_next c then db_bind (walk n req (cx_end c)) (\<lambda>es. db_return (cx_edges c @ es)) else db_return (cx_edges c))"

definition page_request :: "resolve_params \<Rightarrow> string \<Rightarrow> resolve_params" where
  "page_request p after = p\<lparr>rp_args := map_put ''after'' (GVal (VStr after)) (rp_args p)\<rparr>"

text \<open>The query asks for no attachments.\<close>

definition plain_selection :: "resolve_params \<Rightarrow> bool" where
  "plain_selection p =
     (\<not> requirements_any (externalLabelHydrationRequirementsForPath p [''edges'', ''node'', ''externalLabels''])
      \<and> \<not> isFieldPathSelected p [''edges'', ''node'', ''author''] \<and> \<not> isFieldPathSelected p [''edges'', ''node'', ''certifiedProfileData''])"

definition no_attachments :: attachments where
  "no_attachments = \<lparr>at_labels = None, at_authors = None, at_profiles = None\<rparr>"

lemma hydrate_plain: "plain_selection p \<Longrightarrow> hydrate e b p records d = (Ok no_attachments, d)"
  by (simp add: plain_selection_def hydrate_def hydrateExternalLabelsForConnection_def hydrateAuthorsForConnection_def hydrateCertifiedProfilesForConnection_def
      Let_def db_bind_def db_return_def no_attachments_def)

lemma page_request_same:
  "plain_selection (page_request p after) = plain_selection p" "isTotalCountRequested (page_request p after) = isTotalCountRequested p"
  "str_arg (rp_args (page_request p after)) ''after'' = after" "k \<noteq> ''after'' \<Longrightarrow> map_of (rp_args (page_request p after)) k = map_of (rp_args p) k"
proof -
  have f: "field_matches (page_request p after) path = field_matches p path" for path by (simp add: field_matches_def page_request_def)
  have v: "rp_vars (page_request p after) = rp_vars p" by (simp add: page_request_def)
  have a: "externalLabelActiveOnlyArgument (page_request p after) = externalLabelActiveOnlyArgument p"
    unfolding externalLabelActiveOnlyArgument_def [abs_def] v ..
  show "plain_selection (page_request p after) = plain_selection p"
    by (simp add: plain_selection_def isFieldPathSelected_def f externalLabelHydrationRequirementsForPath_def externalLabelHydrationRequirementsForField_def a)
  show "isTotalCountRequested (page_request p after) = isTotalCountRequested p" by (simp add: isTotalCountRequested_def page_request_def)
  show "str_arg (rp_args (page_request p after)) ''after'' = after" by (simp add: str_arg_def page_request_def)
qed (simp add: page_request_def)

lemma total_count_reads: "db_faults d = [] \<Longrightarrow> \<exists>t. total_count e p collection w validOnly d = (Ok t, d)"
proof -
  assume "db_faults d = []"
  then have "snd (getCollectionCountFiltered J F collection fs df ls v d) = d" for J F fs df ls v
    by (auto simp: getCollectionCountFiltered_def Let_def db_exec_no_faults split: sum.splits prod.splits)
  then show ?thesis
    by (auto simp: total_count_def GetValidCollectionCountFiltered_def GetCollectionCountFilteredWithExternalLabelFilters_def split: sum.splits prod.splits)
      (metis snd_conv)+
qed

section \<open>One page\<close>

definition cursor_ok :: "conn_env \<Rightarrow> dialect \<Rightarrow> sort_option option \<Rightarrow> record_row \<Rightarrow> bool" where
  "cursor_ok e D so r =
     (list_all ascii (cursor_of (cn_json e) D so NNil r)
      \<and> (case rr_created_at r of None \<Rightarrow> True | Some s \<Rightarrow> NormalizeRecordDatetime (cn_dec e) s = Some s))"

lemma cursor_of_value: "sort_ok so \<Longrightarrow> cursor_of J D so nv r = cursor_of J D so NNil r"
  by (auto simp: cursor_of_def sortFieldValueForRecord_def sort_ok_def keysetSortFieldName_def directSortColumns_def split: option.splits)

lemma empty_cursor_not: "length c = 2 \<Longrightarrow> decodeCursorValues [] \<noteq> Ok c"
proof -
  have "b64_decode [] = Some []" by code_simp
  moreover have "unmarshal_strings [] = None" by code_simp
  moreover have "split_on CHR ''|'' [] = [[]]" by simp
  ultimately show ?thesis by (simp add: decodeCursorValues_def)
qed

lemma decode_position_cursor:
  assumes "sort_ok so" "cursor_ok e D so r"
  shows "decode_position e so (encodeCursorValues (cursor_of (cn_json e) D so nv r)) = Ok (cursor_of (cn_json e) D so NNil r)"
proof -
  let ?c = "cursor_of (cn_json e) D so NNil r"
  have c: "cursor_of (cn_json e) D so nv r = ?c" by (rule cursor_of_value [OF assms(1)])
  have l: "?c \<noteq> []" "length ?c = 2" by (simp_all add: cursor_of_def)
  have "\<forall>v\<in>set ?c. ascii v" using assms(2) by (simp add: cursor_ok_def list_all_iff)
  with l(1) have rt: "decodeCursorValues (encodeCursorValues ?c) = Ok ?c" by (rule cursor_values_roundtrip)
  have "decodeCursorValues [] \<noteq> Ok ?c" by (rule empty_cursor_not [OF l(2)])
  with rt have ne: "encodeCursorValues ?c \<noteq> []" by metis
  have "normalizeCreatedAtCursor (cn_fmt e) (cn_dec e) so ?c = Ok ?c"
  proof (cases "so \<noteq> None \<and> keysetSortFieldName so = SortFieldRecordCreatedAt \<and> ?c ! 0 \<noteq> []")
    case True
    then have "?c ! 0 = null_string (rr_created_at r)" by (auto simp: cursor_of_def sortFieldValueForRecord_def keysetSortFieldName_def)
    moreover have "rr_created_at r \<noteq> None" using True calculation by (auto simp: null_string_def split: option.splits)
    ultimately obtain s where "rr_created_at r = Some s" "?c ! 0 = s" by (auto simp: null_string_def)
    then show ?thesis using assms(2) True l(2) by (simp add: normalizeCreatedAtCursor_def cursor_ok_def) (metis list_update_id)
  qed (auto simp: normalizeCreatedAtCursor_def)
  then show ?thesis using rt ne l(2) unfolding c by (simp add: decode_position_def)
qed

abbreviation plain_edge :: "conn_env \<Rightarrow> builder \<Rightarrow> dialect \<Rightarrow> string \<Rightarrow> bool \<Rightarrow> sort_option option \<Rightarrow> record_row \<Rightarrow> edge option" where
  "plain_edge e b D collection typed so \<equiv> record_edge e b D collection typed so no_attachments"

lemma edges_total:
  "list_all (\<lambda>r. record_edge e b D collection typed so at r \<noteq> None) rows \<Longrightarrow>
    record_edges e b D collection typed so at rows = map (\<lambda>r. the (record_edge e b D collection typed so at r)) rows"
  unfolding record_edges_def by (induction rows) (auto simp: List.map_filter_def)

lemma edge_cursor: "record_edge e b D collection typed so at r = Some x \<Longrightarrow> \<exists>nv. eg_cursor x = encodeCursorValues (cursor_of (cn_json e) D so nv r)"
  by (auto simp: record_edge_def cursor_of_def Let_def split: option.splits)

lemma forward_page_rows:
  assumes "db_faults d = []" "plain_selection p" "decode_position e so after = Ok position"
    "getByCollectionSorted (cn_json e) (cn_fmt e) collection (wf_filters w) (wf_did w) (wf_labels w) so (ClampPageSize k + 1) position validOnly d
      = (Ok (take (nat (ClampPageSize k + 1)) rows), d)"
    "list_all (\<lambda>r. plain_edge e b (db_dialect d) collection typed so r \<noteq> None) rows"
  shows "\<exists>c. forward_page e b p collection typed validOnly w so k after d = (Ok c, d)
    \<and> cx_edges c = map (\<lambda>r. the (plain_edge e b (db_dialect d) collection typed so r)) (take (nat (ClampPageSize k)) rows)
    \<and> cx_has_next c = (length rows > nat (ClampPageSize k))
    \<and> (rows \<noteq> [] \<longrightarrow> cx_end c = eg_cursor (the (plain_edge e b (db_dialect d) collection typed so (last (take (nat (ClampPageSize k)) rows)))))"
proof -
  let ?n = "ClampPageSize k" and ?E = "\<lambda>r. the (plain_edge e b (db_dialect d) collection typed so r)"
  have n: "1 \<le> ?n" by (simp add: ClampPageSize_def DefaultPageSize_def MaxPageSize_def)
  let ?rs0 = "take (nat (?n + 1)) rows"
  have h: "(int (length ?rs0) > ?n) = (length rows > nat ?n)" using n by auto
  have t: "(if length rows > nat ?n then take (nat ?n) ?rs0 else ?rs0) = take (nat ?n) rows" using n by (auto simp: min_def)
  have es: "record_edges e b (db_dialect d) collection typed so no_attachments (take (nat ?n) rows) = map ?E (take (nat ?n) rows)"
    by (rule edges_total) (use assms(5) in \<open>auto simp: list_all_iff dest: in_set_takeD\<close>)
  obtain tc where tc: "total_count e p collection w validOnly d = (Ok tc, d)" using total_count_reads [OF assms(1)] by blast
  have q: "(if validOnly then GetValidByCollectionSorted (cn_json e) (cn_fmt e) collection (wf_filters w) (wf_did w) (wf_labels w) so (?n + 1) position
        else GetByCollectionSortedWithExternalLabelFilters (cn_json e) (cn_fmt e) collection (wf_filters w) (wf_did w) (wf_labels w) so (?n + 1) position) d
      = (Ok ?rs0, d)"
    using assms(4) by (cases validOnly) (simp_all add: GetValidByCollectionSorted_def GetByCollectionSortedWithExternalLabelFilters_def)
  have "forward_page e b p collection typed validOnly w so k after d =
      (Ok \<lparr>cx_edges = map ?E (take (nat ?n) rows), cx_has_next = (length rows > nat ?n), cx_has_previous = (after \<noteq> []),
        cx_start = fst (cursor_ends (map ?E (take (nat ?n) rows))), cx_end = snd (cursor_ends (map ?E (take (nat ?n) rows))), cx_total = tc\<rparr>, d)"
    unfolding forward_page_def Let_def assms(3) sum.case db_bind_def db_wrap_def q prod.case hydrate_plain [OF assms(2)] tc h t es
    by (simp add: db_return_def)
  moreover have "snd (cursor_ends (map ?E (take (nat ?n) rows))) = eg_cursor (?E (last (take (nat ?n) rows)))" if "rows \<noteq> []"
  proof -
    have "take (nat ?n) rows \<noteq> []" using that n by auto
    then show ?thesis by (cases "take (nat ?n) rows") (simp_all add: cursor_ends_def last_map)
  qed
  ultimately show ?thesis by auto
qed

section \<open>All pages\<close>

text \<open>What a walk needs of a request whose listing is \<open>rows\<close>: its statements build, its records decode and their cursors survive the client.\<close>

definition walkable :: "conn_env \<Rightarrow> builder \<Rightarrow> string \<Rightarrow> bool \<Rightarrow> where_filters \<Rightarrow> sort_option option \<Rightarrow> bool \<Rightarrow> record_row list \<Rightarrow> db \<Rightarrow> bool" where
  "walkable e b collection typed w so validOnly rows d =
     (page_builds (cn_fmt e) (db_dialect d) collection (wf_filters w) (wf_did w) (wf_labels w) so [] validOnly
      \<and> list_all (\<lambda>r. cursor_ok e (db_dialect d) so r \<and> plain_edge e b (db_dialect d) collection typed so r \<noteq> None
          \<and> page_builds (cn_fmt e) (db_dialect d) collection (wf_filters w) (wf_did w) (wf_labels w) so (cursor_of (cn_json e) (db_dialect d) so NNil r) validOnly) rows)"

definition cursor_after :: "conn_env \<Rightarrow> builder \<Rightarrow> dialect \<Rightarrow> string \<Rightarrow> bool \<Rightarrow> sort_option option \<Rightarrow> record_row list \<Rightarrow> string" where
  "cursor_after e b D collection typed so pre = (if pre = [] then [] else eg_cursor (the (plain_edge e b D collection typed so (last pre))))"

definition position_after :: "conn_env \<Rightarrow> dialect \<Rightarrow> sort_option option \<Rightarrow> record_row list \<Rightarrow> string list" where
  "position_after e D so pre = (if pre = [] then [] else cursor_of (cn_json e) D so NNil (last pre))"

lemma decode_cursor_after:
  assumes "sort_ok so" "walkable e b collection typed w so validOnly (pre @ suf) d"
  shows "decode_position e so (cursor_after e b (db_dialect d) collection typed so pre) = Ok (position_after e (db_dialect d) so pre)"
proof (cases "pre = []")
  case True
  then show ?thesis by (simp add: cursor_after_def position_after_def decode_position_def)
next
  case False
  then have "last pre \<in> set (pre @ suf)" by simp
  with assms(2) have c: "cursor_ok e (db_dialect d) so (last pre)" and "plain_edge e b (db_dialect d) collection typed so (last pre) \<noteq> None"
    unfolding walkable_def list_all_iff by blast+
  then obtain x where x: "plain_edge e b (db_dialect d) collection typed so (last pre) = Some x" by blast
  obtain nv where "eg_cursor x = encodeCursorValues (cursor_of (cn_json e) (db_dialect d) so nv (last pre))" using edge_cursor [OF x] by blast
  then show ?thesis using False x decode_position_cursor [OF assms(1) c] by (simp add: cursor_after_def position_after_def)
qed

lemma rows_after:
  assumes "db_faults d = []" "distinct (map rr_uri (st_records (db_store d)))" "times_ok (cn_json e) (db_dialect d) (st_records (db_store d))" "sort_ok so" "0 \<le> limit"
    "buildSortExpr (cn_fmt e) (db_dialect d) so = Ok keys"
    "listing (cn_json e) (cn_fmt e) d keys collection (wf_filters w) (wf_did w) (wf_labels w) validOnly = pre @ suf"
    "walkable e b collection typed w so validOnly (pre @ suf) d"
  shows "getByCollectionSorted (cn_json e) (cn_fmt e) collection (wf_filters w) (wf_did w) (wf_labels w) so limit (position_after e (db_dialect d) so pre) validOnly d
    = (Ok (take (nat limit) suf), d)"
proof (cases "pre = []")
  case True
  have "page_builds (cn_fmt e) (db_dialect d) collection (wf_filters w) (wf_did w) (wf_labels w) so [] validOnly" using assms(8) by (simp add: walkable_def)
  then obtain page where "sortedRecordsPage (cn_fmt e) (db_dialect d) collection (wf_filters w) (wf_did w) (wf_labels w) so [] validOnly = Ok page"
    "list_all (segment_ok (db_dialect d)) (sp_segments page)" by (rule page_builds_Ok)
  then show ?thesis using page_without_cursor [OF assms(1) _ assms(6) _ assms(5)] assms(7) True
    by (simp add: getByCollectionSorted_def listing_def position_after_def)
next
  case False
  let ?r = "last pre"
  have l: "listing (cn_json e) (cn_fmt e) d keys collection (wf_filters w) (wf_did w) (wf_labels w) validOnly = butlast pre @ ?r # suf"
    using assms(7) False append_butlast_last_id [OF False] by (metis append.assoc append_Cons append_Nil)
  note after = listing_after [OF assms(2) sort_ok_keys(1) [OF assms(4,6)] l]
  have "page_builds (cn_fmt e) (db_dialect d) collection (wf_filters w) (wf_did w) (wf_labels w) so (cursor_of (cn_json e) (db_dialect d) so NNil ?r) validOnly"
    using assms(8) False unfolding walkable_def list_all_iff by (metis last_in_set set_append UnI1)
  then obtain page where "sortedRecordsPage (cn_fmt e) (db_dialect d) collection (wf_filters w) (wf_did w) (wf_labels w) so (cursor_of (cn_json e) (db_dialect d) so NNil ?r) validOnly = Ok page"
    "list_all (segment_ok (db_dialect d)) (sp_segments page)" by (rule page_builds_Ok)
  then show ?thesis using page_with_cursor [OF assms(1,2,3,4) after(3) _ assms(6) _ assms(5)] after(1) False
    by (simp add: getByCollectionSorted_def position_after_def)
qed

lemma forward_request:
  assumes "int_arg (rp_args p) ''last'' = None" "str_arg (rp_args p) ''before'' = []" "connection_filters e b collection (typed \<and> bl_require_valid b) (rp_args p) = Ok w"
  shows "resolveRecordConnection e b (page_request p after) collection typed =
    forward_page e b (page_request p after) collection typed (typed \<and> bl_require_valid b) w (sort_argument b collection (rp_args p))
      (case int_arg (rp_args p) ''first'' of Some n \<Rightarrow> n | None \<Rightarrow> 0) after"
proof -
  let ?q = "page_request p after"
  have i: "int_arg (rp_args ?q) k = int_arg (rp_args p) k" if "k \<noteq> ''after''" for k using that by (simp add: int_arg_def page_request_same)
  have s: "str_arg (rp_args ?q) k = str_arg (rp_args p) k" if "k \<noteq> ''after''" for k using that by (simp add: str_arg_def page_request_same)
  have f: "connection_filters e b collection (typed \<and> bl_require_valid b) (rp_args ?q) = Ok w" using assms(3) by (simp add: connection_filters_def page_request_same)
  have g: "map_of (rp_args ?q) ''sortBy'' = map_of (rp_args p) ''sortBy''" "map_of (rp_args ?q) ''sortDirection'' = map_of (rp_args p) ''sortDirection''"
    by (simp_all add: page_request_same)
  have o: "sort_argument b collection (rp_args ?q) = sort_argument b collection (rp_args p)" unfolding sort_argument_def g ..
  show ?thesis using assms(1,2) by (rule_tac ext) (simp add: resolveRecordConnection_def Let_def i s f o page_request_same)
qed

lemma walk_from:
  assumes "db_faults d = []" "distinct (map rr_uri (st_records (db_store d)))" "times_ok (cn_json e) (db_dialect d) (st_records (db_store d))"
    "plain_selection p" "int_arg (rp_args p) ''last'' = None" "str_arg (rp_args p) ''before'' = []"
    "connection_filters e b collection (typed \<and> bl_require_valid b) (rp_args p) = Ok w" "so = sort_argument b collection (rp_args p)" "sort_ok so"
    "buildSortExpr (cn_fmt e) (db_dialect d) so = Ok keys"
    "listing (cn_json e) (cn_fmt e) d keys collection (wf_filters w) (wf_did w) (wf_labels w) (typed \<and> bl_require_valid b) = rows"
    "walkable e b collection typed w so (typed \<and> bl_require_valid b) rows d"
  shows "rows = pre @ suf \<Longrightarrow> length suf < fuel \<Longrightarrow>
    walk fuel (\<lambda>after. resolveRecordConnection e b (page_request p after) collection typed) (cursor_after e b (db_dialect d) collection typed so pre) d
      = (Ok (map (\<lambda>r. the (plain_edge e b (db_dialect d) collection typed so r)) suf), d)"
proof (induction fuel arbitrary: pre suf)
  case (Suc n)
  let ?a = "cursor_after e b (db_dialect d) collection typed so pre" and ?E = "\<lambda>r. the (plain_edge e b (db_dialect d) collection typed so r)"
  let ?k = "case int_arg (rp_args p) ''first'' of Some n \<Rightarrow> n | None \<Rightarrow> 0"
  let ?n = "nat (ClampPageSize ?k)"
  have k: "1 \<le> ClampPageSize ?k" by (simp add: ClampPageSize_def DefaultPageSize_def MaxPageSize_def)
  note wk = assms(12) [unfolded Suc.prems(1)] and ls = assms(11) [unfolded Suc.prems(1)]
  have q: "plain_selection (page_request p ?a)" using assms(4) by (simp add: page_request_same)
  have rows: "getByCollectionSorted (cn_json e) (cn_fmt e) collection (wf_filters w) (wf_did w) (wf_labels w) so (ClampPageSize ?k + 1)
      (position_after e (db_dialect d) so pre) (typed \<and> bl_require_valid b) d = (Ok (take (nat (ClampPageSize ?k + 1)) suf), d)"
    using k by (intro rows_after [OF assms(1,2,3,9) _ assms(10) ls wk]) simp
  have "list_all (\<lambda>r. plain_edge e b (db_dialect d) collection typed so r \<noteq> None) suf" using wk by (auto simp: walkable_def list_all_iff)
  from forward_page_rows [OF assms(1) q decode_cursor_after [OF assms(9) wk] rows this]
  obtain c where c: "resolveRecordConnection e b (page_request p ?a) collection typed d = (Ok c, d)" "cx_edges c = map ?E (take ?n suf)"
    "cx_has_next c = (length suf > ?n)" "suf \<noteq> [] \<Longrightarrow> cx_end c = eg_cursor (?E (last (take ?n suf)))"
    unfolding forward_request [OF assms(5,6,7)] assms(8) by blast
  show ?case
  proof (cases "length suf > ?n")
    case True
    have ne: "take ?n suf \<noteq> []" using True k by auto
    then have "cx_end c = cursor_after e b (db_dialect d) collection typed so (pre @ take ?n suf)" using c(4) by (auto simp: cursor_after_def)
    moreover have "walk n (\<lambda>after. resolveRecordConnection e b (page_request p after) collection typed)
        (cursor_after e b (db_dialect d) collection typed so (pre @ take ?n suf)) d = (Ok (map ?E (drop ?n suf)), d)"
      using Suc.prems k True by (intro Suc.IH) simp_all
    moreover have "map ?E (take ?n suf) @ map ?E (drop ?n suf) = map ?E suf" by (metis append_take_drop_id map_append)
    ultimately show ?thesis using c True by (simp add: db_bind_def db_return_def)
  next
    case False
    then show ?thesis using c by (simp add: db_bind_def db_return_def)
  qed
qed simp


definition sample_created :: property where
  "sample_created = Property \<lparr>pf_type = ''string'', pf_required = True, pf_format = ''datetime'', pf_ref = [], pf_refs = [], pf_items = None, pf_description = [],
     pf_default = None, pf_minimum = None, pf_maximum = None, pf_min_length = None, pf_max_length = None, pf_enum = [], pf_const = None, pf_known_values = []\<rparr> None"

definition sample_builder :: builder where
  "sample_builder = \<lparr>bl_registry = Register \<lparr>lx_id = ''k'', lx_main = Some \<lparr>rd_type = ''record'', rd_key = ''tid'', rd_properties = [(''createdAt'', sample_created)]\<rparr>,
     lx_others = []\<rparr> NewRegistry, bl_require_valid = True, bl_record_types = [''k'']\<rparr>"

definition sample_conn :: conn_env where
  "sample_conn = \<lparr>cn_json = sample_json_engine, cn_fmt = sample_fmt,
     cn_dec = \<lparr>dec_json = (\<lambda>_. Some (JObj [])), dec_datetime = (\<lambda>s. if s = ''1970-01-01T00:00:00.000Z'' then Some 0 else if s = ''1970-01-02T00:00:00.000Z'' then Some 86400000000000 else None)\<rparr>,
     cn_rfc3339 = (\<lambda>_. []), cn_invalid_handle = (\<lambda>_. False)\<rparr>"

definition sample_conn_db :: db where
  "sample_conn_db = sqlite_db (empty_store\<lparr>st_records := [sample_page_row ''a'' None, sample_page_row ''b'' (Some ''1970-01-01T00:00:00.000Z''),
     sample_page_row ''c'' (Some ''1970-01-02T00:00:00.000Z''), (sample_page_row ''x'' None)\<lparr>rr_collection := ''other''\<rparr>]\<rparr>) 5"

definition sample_request :: resolve_params where
  "sample_request = \<lparr>rp_args = [(''first'', GVal (VInt 1)), (''sortBy'', GVal (VStr ''createdAt''))],
     rp_fields = [[SelField ''edges'' [] [SelField ''node'' [] [SelField ''uri'' [] []]]]], rp_fragments = [], rp_vars = []\<rparr>"

abbreviation sample_rows :: "record_row list" where
  "sample_rows \<equiv> [sample_page_row ''c'' (Some ''1970-01-02T00:00:00.000Z''), sample_page_row ''b'' (Some ''1970-01-01T00:00:00.000Z''), sample_page_row ''a'' None]"

lemma sample_conn_listing:
  "listing sample_json_engine sample_fmt sample_conn_db (recordCreatedAtOrderBy SQLite ''DESC'') ''k'' [] any_did no_labels True = sample_rows"
proof -
  have "order_before sample_json_engine SQLite s (recordCreatedAtOrderBy SQLite ''DESC'') = created_before sample_json_engine SQLite False" for s
    by (rule created_order) simp
  then show ?thesis
    by (simp add: listing_def sample_wanted sample_conn_db_def sqlite_db_def sample_page_row_def sort_by_def created_before_def created_of_def
        created_value_def value_before_def)
qed

lemma sample_sort: "sort_argument sample_builder ''k'' (rp_args sample_request) = newest"
proof -
  have "sortsByRecordCreatedAtColumn (bl_registry sample_builder) ''k''" by code_simp
  then show ?thesis by (simp add: sort_argument_def sample_request_def mapCreatedAtSortToColumn_def SortFieldRecordCreatedAt_def)
qed

lemma sample_where: "wf_filters no_where = []" "wf_did no_where = any_did" "wf_labels no_where = no_labels"
  by (simp_all add: no_where_def no_label_filter_def)

lemma sample_walkable: "walkable sample_conn sample_builder ''k'' True no_where newest True sample_rows sample_conn_db"
proof -
  have f: "format_millis 0 = ''1970-01-01T00:00:00.000Z''" "format_millis 86400000000000 = ''1970-01-02T00:00:00.000Z''" by code_simp+
  have c: "cursor_of J SQLite newest NNil (sample_page_row u t) = [null_string t, u]" for J u t
    by (simp add: cursor_of_def sortFieldValueForRecord_def sample_page_row_def)
  have k: "cursor_ok sample_conn SQLite newest r" if "r \<in> set sample_rows" for r
    using that by (auto simp: cursor_ok_def c null_string_def NormalizeRecordDatetime_def sample_conn_def f) (simp_all add: sample_page_row_def ascii_def f NormalizeRecordDatetime_def)
  have p: "plain_edge sample_conn sample_builder SQLite ''k'' True newest (sample_page_row u t) \<noteq> None" for u t
    by (simp add: record_edge_def decodeConnectionRecordValue_def build_node_def sample_conn_def Let_def)
  have b: "page_builds sample_fmt SQLite ''k'' [] any_did no_labels newest [] True"
    "length after = 2 \<Longrightarrow> page_builds sample_fmt SQLite ''k'' [] any_did no_labels newest after True" for after
    by (rule sample_builds, simp)+
  have D: "db_dialect sample_conn_db = SQLite" by (simp add: sample_conn_db_def sqlite_db_def)
  show ?thesis
    unfolding walkable_def D using k p b(1) b(2) by (simp add: c) (simp add: sample_conn_def sample_where)
qed


section \<open>The order of the where argument\<close>

text \<open>C40: Go takes the entries of the \<open>where\<close> argument, a map of maps, in an unspecified order.  The order does not matter to what a connection returns:
  two arguments with the same entries are both refused or both accepted, and the filters they give want the same records, whatever the
  database holds.\<close>

theorem where_order_irrelevant:
  assumes "same_arg a a'"
  shows "case (connection_filters e b collection validOnly ((''where'', a) # args), connection_filters e b collection validOnly ((''where'', a') # args)) of
      (Inr w, Inr w') \<Rightarrow> wanted J F d collection (wf_filters w) (wf_did w) (wf_labels w) validOnly = wanted J F d collection (wf_filters w') (wf_did w') (wf_labels w') validOnly
    | (Inl _, Inl _) \<Rightarrow> True | _ \<Rightarrow> False"
proof -
  let ?f = "\<lambda>w. if filtersByRecordCreatedAtColumn (bl_registry b) collection validOnly
      then w\<lparr>wf_filters := mapCreatedAtFiltersToColumn (cn_dec e) (wf_filters w)\<rparr> else w"
  let ?x = "\<lambda>a. if gval_nil a then Ok no_where else extractFiltersWithExternalLabels (cn_fmt e) (bl_registry b) collection a"
  have "same_where no_where no_where" by (simp add: same_where_def same_label_filter_refl)
  then have s: "same_res same_where (?x a) (?x a')" using same_extract [OF assms, of "cn_fmt e" "bl_registry b" collection] same_nil [OF assms] by simp
  have m: "same_where w w' \<Longrightarrow> same_where (?f w) (?f w')" for w w' by (simp add: same_where_def mapCreatedAtFiltersToColumn_def mset_map)
  have "same_res same_where (res_map ?f (?x a)) (res_map ?f (?x a'))" by (rule same_res_map [OF s]) (rule m)
  then have c: "same_res same_where (connection_filters e b collection validOnly ((''where'', a) # args)) (connection_filters e b collection validOnly ((''where'', a') # args))"
    by (simp add: connection_filters_def)
  have w: "wanted J F d collection (wf_filters w) (wf_did w) (wf_labels w) validOnly = wanted J F d collection (wf_filters w') (wf_did w') (wf_labels w') validOnly"
    if "same_where w w'" for w w'
  proof -
    have "mset (wf_filters w) = mset (wf_filters w')" "wf_did w = wf_did w'"
      and l: "same_label_filter (lfs_record (wf_labels w)) (lfs_record (wf_labels w'))" "same_label_filter (lfs_author (wf_labels w)) (lfs_author (wf_labels w'))"
      using that by (simp_all add: same_where_def)
    then show ?thesis
      by (intro ext) (simp add: wanted_def Let_def labels_mean_def filters_mean_same [OF \<open>mset (wf_filters w) = mset (wf_filters w')\<close>] labels_mean_same [OF l(1)] labels_mean_same [OF l(2)])
  qed
  show ?thesis using c w by (auto simp: same_res_def split: sum.splits)
qed

abbreviation sample_title :: gval where "sample_title \<equiv> GMap [(''eq'', GVal (VStr ''x'')), (''contains'', GVal (VStr ''y''))]"
abbreviation sample_title' :: gval where "sample_title' \<equiv> GMap [(''contains'', GVal (VStr ''y'')), (''eq'', GVal (VStr ''x''))]"
abbreviation sample_did :: gval where "sample_did \<equiv> GMap [(''eq'', GVal (VStr ''did:x''))]"

theorem where_order_irrelevant_witness:
  "case (connection_filters sample_conn sample_builder ''k'' True [(''where'', GMap [(''createdAt'', sample_title), (''did'', sample_did)])],
         connection_filters sample_conn sample_builder ''k'' True [(''where'', GMap [(''did'', sample_did), (''createdAt'', sample_title')])]) of
      (Inr w, Inr w') \<Rightarrow> wanted sample_json_engine sample_fmt sample_page_db ''k'' (wf_filters w) (wf_did w) (wf_labels w) True
        = wanted sample_json_engine sample_fmt sample_page_db ''k'' (wf_filters w') (wf_did w') (wf_labels w') True
    | (Inl _, Inl _) \<Rightarrow> True | _ \<Rightarrow> False"
proof (rule where_order_irrelevant)
  have t: "same_arg sample_title sample_title'" by (rule same_map [of _ "[(''eq'', GVal (VStr ''x'')), (''contains'', GVal (VStr ''y''))]"]) (auto intro: same_leaf)
  have d: "same_arg sample_did sample_did" by (rule same_map [of _ "[(''eq'', GVal (VStr ''did:x''))]"]) (auto intro: same_leaf)
  show "same_arg (GMap [(''createdAt'', sample_title), (''did'', sample_did)]) (GMap [(''did'', sample_did), (''createdAt'', sample_title')])"
    by (rule same_map [of _ "[(''createdAt'', sample_title'), (''did'', sample_did)]"]) (use t d in simp_all)
qed

end
