(* ===== verification/OAuth_Store.thy ===== *)
theory OAuth_Store
  imports Db_Store Cursors
begin

text \<open>
  The tables of the OAuth server and the repositories over them (\<open>internal/database/repositories/oauth_*.go\<close>, the structs of
  \<open>internal/oauth/types.go\<close>).  A statement fails as the script \<open>ow_faults\<close> says, on a duplicate primary key, on a missing client (foreign keys of
  the initial schema) and, on PostgreSQL, where it meets a BOOLEAN column with an integer: the schema declares \<open>used\<close> and \<open>revoked\<close> as BOOLEAN there
  and as INTEGER on SQLite, while the statements write 0 and 1 and scan into an int.

  \<open>ow_now\<close> is the clock in seconds, the same throughout one request; \<open>ow_random\<close> is the source of random tokens, None where \<open>rand.Read\<close> fails, of
  which \<open>ow_drawn\<close> have been drawn.
\<close>

section \<open>Rows\<close>

record oauth_client =
  oc_id :: string
  oc_secret :: "string option"
  oc_name :: string
  oc_redirect_uris :: "string list"
  oc_grant_types :: "string list"
  oc_response_types :: "string list"
  oc_scope :: "string option"
  oc_auth_method :: string
  oc_type :: string
  oc_created_at :: int
  oc_updated_at :: int
  oc_metadata :: string
  oc_access_expiration :: int
  oc_refresh_expiration :: int
  oc_require_exact :: bool
  oc_registration_token :: "string option"
  oc_jwks :: "string option"

record access_token =
  tk_token :: string
  tk_type :: string
  tk_client :: string
  tk_user :: "string option"
  tk_session :: "string option"
  tk_iteration :: "int option"
  tk_scope :: "string option"
  tk_created_at :: int
  tk_expires_at :: int
  tk_revoked :: bool
  tk_jkt :: "string option"

record refresh_token =
  rt_token :: string
  rt_access_token :: string
  rt_client :: string
  rt_user :: string
  rt_session :: "string option"
  rt_iteration :: "int option"
  rt_scope :: "string option"
  rt_created_at :: int
  rt_expires_at :: "int option"
  rt_revoked :: bool

record auth_code =
  cd_code :: string
  cd_client :: string
  cd_user :: string
  cd_session :: "string option"
  cd_iteration :: "int option"
  cd_redirect_uri :: string
  cd_scope :: "string option"
  cd_challenge :: "string option"
  cd_method :: "string option"
  cd_nonce :: "string option"
  cd_created_at :: int
  cd_expires_at :: int
  cd_used :: bool

record par_request =
  pr_uri :: string
  pr_request :: string
  pr_client :: string
  pr_created_at :: int
  pr_expires_at :: int
  pr_subject :: "string option"
  pr_metadata :: string

record dpop_nonce =
  dn_nonce :: string
  dn_expires_at :: int

record dpop_jti =
  dj_jti :: string
  dj_created_at :: int

record auth_request =
  ar_session :: string
  ar_client :: string
  ar_redirect_uri :: string
  ar_scope :: "string option"
  ar_state :: "string option"
  ar_challenge :: "string option"
  ar_method :: "string option"
  ar_response_type :: string
  ar_nonce :: "string option"
  ar_login_hint :: "string option"
  ar_created_at :: int
  ar_expires_at :: int

record atp_session =
  as_session :: string
  as_iteration :: int
  as_did :: "string option"
  as_created_at :: int
  as_state :: string
  as_jkt :: string
  as_key :: string
  as_access_token :: "string option"
  as_refresh_token :: "string option"
  as_token_created_at :: "int option"
  as_token_expires_at :: "int option"
  as_scopes :: "string option"
  as_exchanged_at :: "int option"
  as_error :: "string option"

record atp_request =
  ap_state :: string
  ap_server :: string
  ap_nonce :: string
  ap_verifier :: string
  ap_public_key :: string
  ap_private_key :: string
  ap_created_at :: int
  ap_expires_at :: int

text \<open>The methods \<open>IsExpired\<close>: a token is good for the second in which it expires.\<close>

definition past :: "int \<Rightarrow> int \<Rightarrow> bool" where
  "past now expiresAt = (now > expiresAt)"

definition refresh_past :: "int \<Rightarrow> refresh_token \<Rightarrow> bool" where
  "refresh_past now t = (case rt_expires_at t of None \<Rightarrow> False | Some e \<Rightarrow> past now e)"

section \<open>The database\<close>

record oauth_tables =
  ot_clients :: "oauth_client list"
  ot_access :: "access_token list"
  ot_refresh :: "refresh_token list"
  ot_codes :: "auth_code list"
  ot_pars :: "par_request list"
  ot_nonces :: "dpop_nonce list"
  ot_jtis :: "dpop_jti list"
  ot_auth_requests :: "auth_request list"
  ot_sessions :: "atp_session list"
  ot_atp_requests :: "atp_request list"

record oauth_world =
  ow_tables :: oauth_tables
  ow_dialect :: dialect
  ow_faults :: "err option list"
  ow_now :: int
  ow_random :: "nat \<Rightarrow> string option"
  ow_drawn :: nat

type_synonym 'a om = "oauth_world \<Rightarrow> 'a res \<times> oauth_world"
type_synonym 'a oauth_statement = "dialect \<Rightarrow> oauth_tables \<Rightarrow> ('a \<times> oauth_tables) res"

definition ox_exec :: "'a oauth_statement \<Rightarrow> 'a om" where
  "ox_exec f w =
     (let w' = w\<lparr>ow_faults := tl (ow_faults w)\<rparr> in
      case ow_faults w of
        Some e # _ \<Rightarrow> (Err e, w')
      | _ \<Rightarrow> (case f (ow_dialect w) (ow_tables w) of Inl e \<Rightarrow> (Err e, w') | Inr (a, t) \<Rightarrow> (Ok a, w'\<lparr>ow_tables := t\<rparr>)))"

definition ox_return :: "'a \<Rightarrow> 'a om" where
  "ox_return a w = (Ok a, w)"

definition ox_bind :: "'a om \<Rightarrow> ('a \<Rightarrow> 'b om) \<Rightarrow> 'b om" where
  "ox_bind m f w = (case m w of (Inl e, w') \<Rightarrow> (Err e, w') | (Inr a, w') \<Rightarrow> f a w')"

definition constraint_error :: err where "constraint_error = ''constraint violation''"
definition boolean_error :: err where "boolean_error = ''failed to execute statement''"
definition scan_error :: err where "scan_error = ''failed to scan row''"

text \<open>A new row: its primary key is free and its foreign key, if it has one, refers to a client.\<close>

definition add_row :: "('r \<Rightarrow> 'k) \<Rightarrow> bool \<Rightarrow> 'r \<Rightarrow> 'r list \<Rightarrow> ('r list \<Rightarrow> oauth_tables) \<Rightarrow> (unit \<times> oauth_tables) res" where
  "add_row key references row rows put = (if key row \<in> key ` set rows \<or> \<not> references then Err constraint_error else Ok ((), put (rows @ [row])))"

definition has_client :: "oauth_tables \<Rightarrow> string \<Rightarrow> bool" where
  "has_client t c = (c \<in> oc_id ` set (ot_clients t))"

text \<open>Statements over a table with a BOOLEAN column.\<close>

definition with_boolean :: "'a oauth_statement \<Rightarrow> 'a oauth_statement" where
  "with_boolean f D t = (if D = PostgreSQL then Err boolean_error else f D t)"

definition scan_boolean :: "(oauth_tables \<Rightarrow> 'r option) \<Rightarrow> 'r option oauth_statement" where
  "scan_boolean f D t = (case f t of Some r \<Rightarrow> if D = PostgreSQL then Err scan_error else Ok (Some r, t) | None \<Rightarrow> Ok (None, t))"

definition scan_booleans :: "(oauth_tables \<Rightarrow> 'r list) \<Rightarrow> 'r list oauth_statement" where
  "scan_booleans f D t = (if f t \<noteq> [] \<and> D = PostgreSQL then Err scan_error else Ok (f t, t))"

definition query :: "(oauth_tables \<Rightarrow> 'a) \<Rightarrow> 'a oauth_statement" where
  "query f D t = Ok (f t, t)"

definition modify :: "(oauth_tables \<Rightarrow> oauth_tables) \<Rightarrow> unit oauth_statement" where
  "modify f D t = Ok ((), f t)"

section \<open>Authorization codes\<close>

definition Codes_Insert :: "auth_code \<Rightarrow> unit om" where
  "Codes_Insert c = ox_exec (with_boolean (\<lambda>D t. add_row cd_code True c (ot_codes t) (\<lambda>rows. t\<lparr>ot_codes := rows\<rparr>)))"

definition Codes_Get :: "string \<Rightarrow> auth_code option om" where
  "Codes_Get code = ox_exec (scan_boolean (\<lambda>t. tbl_find cd_code code (ot_codes t)))"

definition Codes_MarkUsed :: "string \<Rightarrow> unit om" where
  "Codes_MarkUsed code = ox_exec (with_boolean (modify (\<lambda>t. t\<lparr>ot_codes := tbl_update (\<lambda>c. cd_code c = code) (\<lambda>c. c\<lparr>cd_used := True\<rparr>) (ot_codes t)\<rparr>)))"

definition Codes_Delete :: "string \<Rightarrow> unit om" where
  "Codes_Delete code = ox_exec (modify (\<lambda>t. t\<lparr>ot_codes := tbl_delete (\<lambda>c. cd_code c = code) (ot_codes t)\<rparr>))"

definition Codes_DeleteExpired :: "int \<Rightarrow> unit om" where
  "Codes_DeleteExpired before = ox_exec (modify (\<lambda>t. t\<lparr>ot_codes := tbl_delete (\<lambda>c. cd_expires_at c < before) (ot_codes t)\<rparr>))"

section \<open>Access tokens\<close>

definition AccessTokens_Insert :: "access_token \<Rightarrow> unit om" where
  "AccessTokens_Insert a =
     ox_exec (with_boolean (\<lambda>D t. add_row tk_token (has_client t (tk_client a)) a (ot_access t) (\<lambda>rows. t\<lparr>ot_access := rows\<rparr>)))"

definition AccessTokens_Get :: "string \<Rightarrow> access_token option om" where
  "AccessTokens_Get token = ox_exec (scan_boolean (\<lambda>t. tbl_find tk_token token (ot_access t)))"

definition newest_tokens :: "('r \<Rightarrow> int) \<Rightarrow> 'r list \<Rightarrow> 'r list" where
  "newest_tokens created rows = sort_key (\<lambda>r. - created r) rows"

definition AccessTokens_GetByUserID :: "string \<Rightarrow> access_token list om" where
  "AccessTokens_GetByUserID user = ox_exec (scan_booleans (\<lambda>t. newest_tokens tk_created_at (filter (\<lambda>a. tk_user a = Some user) (ot_access t))))"

definition AccessTokens_GetByDPoPJKT :: "string \<Rightarrow> access_token list om" where
  "AccessTokens_GetByDPoPJKT jkt = ox_exec (scan_booleans (\<lambda>t. newest_tokens tk_created_at (filter (\<lambda>a. tk_jkt a = Some jkt) (ot_access t))))"

definition AccessTokens_Revoke :: "string \<Rightarrow> unit om" where
  "AccessTokens_Revoke token =
     ox_exec (with_boolean (modify (\<lambda>t. t\<lparr>ot_access := tbl_update (\<lambda>a. tk_token a = token) (\<lambda>a. a\<lparr>tk_revoked := True\<rparr>) (ot_access t)\<rparr>)))"

definition AccessTokens_RevokeByUserID :: "string \<Rightarrow> unit om" where
  "AccessTokens_RevokeByUserID user =
     ox_exec (with_boolean (modify (\<lambda>t. t\<lparr>ot_access := tbl_update (\<lambda>a. tk_user a = Some user) (\<lambda>a. a\<lparr>tk_revoked := True\<rparr>) (ot_access t)\<rparr>)))"

definition AccessTokens_Delete :: "string \<Rightarrow> unit om" where
  "AccessTokens_Delete token = ox_exec (modify (\<lambda>t. t\<lparr>ot_access := tbl_delete (\<lambda>a. tk_token a = token) (ot_access t)\<rparr>))"

definition AccessTokens_DeleteExpired :: "int \<Rightarrow> unit om" where
  "AccessTokens_DeleteExpired before = ox_exec (modify (\<lambda>t. t\<lparr>ot_access := tbl_delete (\<lambda>a. tk_expires_at a < before) (ot_access t)\<rparr>))"

section \<open>Refresh tokens\<close>

definition RefreshTokens_Insert :: "refresh_token \<Rightarrow> unit om" where
  "RefreshTokens_Insert r =
     ox_exec (with_boolean (\<lambda>D t. add_row rt_token (has_client t (rt_client r)) r (ot_refresh t) (\<lambda>rows. t\<lparr>ot_refresh := rows\<rparr>)))"

definition RefreshTokens_Get :: "string \<Rightarrow> refresh_token option om" where
  "RefreshTokens_Get token = ox_exec (scan_boolean (\<lambda>t. tbl_find rt_token token (ot_refresh t)))"

definition RefreshTokens_GetByAccessToken :: "string \<Rightarrow> refresh_token option om" where
  "RefreshTokens_GetByAccessToken token = ox_exec (scan_boolean (\<lambda>t. tbl_find rt_access_token token (ot_refresh t)))"

definition RefreshTokens_GetByUserID :: "string \<Rightarrow> refresh_token list om" where
  "RefreshTokens_GetByUserID user = ox_exec (scan_booleans (\<lambda>t. newest_tokens rt_created_at (filter (\<lambda>r. rt_user r = user) (ot_refresh t))))"

definition RefreshTokens_Revoke :: "string \<Rightarrow> unit om" where
  "RefreshTokens_Revoke token =
     ox_exec (with_boolean (modify (\<lambda>t. t\<lparr>ot_refresh := tbl_update (\<lambda>r. rt_token r = token) (\<lambda>r. r\<lparr>rt_revoked := True\<rparr>) (ot_refresh t)\<rparr>)))"

definition RefreshTokens_RevokeByUserID :: "string \<Rightarrow> unit om" where
  "RefreshTokens_RevokeByUserID user =
     ox_exec (with_boolean (modify (\<lambda>t. t\<lparr>ot_refresh := tbl_update (\<lambda>r. rt_user r = user) (\<lambda>r. r\<lparr>rt_revoked := True\<rparr>) (ot_refresh t)\<rparr>)))"

definition RefreshTokens_Delete :: "string \<Rightarrow> unit om" where
  "RefreshTokens_Delete token = ox_exec (modify (\<lambda>t. t\<lparr>ot_refresh := tbl_delete (\<lambda>r. rt_token r = token) (ot_refresh t)\<rparr>))"

definition RefreshTokens_DeleteExpired :: "int \<Rightarrow> unit om" where
  "RefreshTokens_DeleteExpired before =
     ox_exec (modify (\<lambda>t. t\<lparr>ot_refresh := tbl_delete (\<lambda>r. case rt_expires_at r of Some e \<Rightarrow> e < before | None \<Rightarrow> False) (ot_refresh t)\<rparr>))"

section \<open>DPoP identifiers and nonces\<close>

definition JTI_Insert :: "dpop_jti \<Rightarrow> unit om" where
  "JTI_Insert j = ox_exec (\<lambda>D t. add_row dj_jti True j (ot_jtis t) (\<lambda>rows. t\<lparr>ot_jtis := rows\<rparr>))"

definition JTI_Get :: "string \<Rightarrow> dpop_jti option om" where
  "JTI_Get jti = ox_exec (query (\<lambda>t. tbl_find dj_jti jti (ot_jtis t)))"

definition JTI_Exists :: "string \<Rightarrow> bool om" where
  "JTI_Exists jti = ox_exec (query (\<lambda>t. tbl_find dj_jti jti (ot_jtis t) \<noteq> None))"

definition JTI_Delete :: "string \<Rightarrow> unit om" where
  "JTI_Delete jti = ox_exec (modify (\<lambda>t. t\<lparr>ot_jtis := tbl_delete (\<lambda>j. dj_jti j = jti) (ot_jtis t)\<rparr>))"

definition JTI_DeleteOlderThan :: "int \<Rightarrow> unit om" where
  "JTI_DeleteOlderThan before = ox_exec (modify (\<lambda>t. t\<lparr>ot_jtis := tbl_delete (\<lambda>j. dj_created_at j < before) (ot_jtis t)\<rparr>))"

definition Nonces_Insert :: "dpop_nonce \<Rightarrow> unit om" where
  "Nonces_Insert n = ox_exec (\<lambda>D t. add_row dn_nonce True n (ot_nonces t) (\<lambda>rows. t\<lparr>ot_nonces := rows\<rparr>))"

definition Nonces_Get :: "string \<Rightarrow> dpop_nonce option om" where
  "Nonces_Get nonce = ox_exec (query (\<lambda>t. tbl_find dn_nonce nonce (ot_nonces t)))"

definition Nonces_Exists :: "string \<Rightarrow> int \<Rightarrow> bool om" where
  "Nonces_Exists nonce now = ox_exec (query (\<lambda>t. \<exists>n\<in>set (ot_nonces t). dn_nonce n = nonce \<and> dn_expires_at n > now))"

definition Nonces_Delete :: "string \<Rightarrow> unit om" where
  "Nonces_Delete nonce = ox_exec (modify (\<lambda>t. t\<lparr>ot_nonces := tbl_delete (\<lambda>n. dn_nonce n = nonce) (ot_nonces t)\<rparr>))"

definition Nonces_DeleteExpired :: "int \<Rightarrow> unit om" where
  "Nonces_DeleteExpired before = ox_exec (modify (\<lambda>t. t\<lparr>ot_nonces := tbl_delete (\<lambda>n. dn_expires_at n < before) (ot_nonces t)\<rparr>))"

section \<open>Pushed and pending requests\<close>

definition PAR_Insert :: "par_request \<Rightarrow> unit om" where
  "PAR_Insert p = ox_exec (\<lambda>D t. add_row pr_uri (has_client t (pr_client p)) p (ot_pars t) (\<lambda>rows. t\<lparr>ot_pars := rows\<rparr>))"

definition PAR_Get :: "string \<Rightarrow> par_request option om" where
  "PAR_Get uri = ox_exec (query (\<lambda>t. tbl_find pr_uri uri (ot_pars t)))"

definition PAR_UpdateSubject :: "string \<Rightarrow> string \<Rightarrow> unit om" where
  "PAR_UpdateSubject uri subject = ox_exec (modify (\<lambda>t. t\<lparr>ot_pars := tbl_update (\<lambda>p. pr_uri p = uri) (\<lambda>p. p\<lparr>pr_subject := Some subject\<rparr>) (ot_pars t)\<rparr>))"

definition PAR_Delete :: "string \<Rightarrow> unit om" where
  "PAR_Delete uri = ox_exec (modify (\<lambda>t. t\<lparr>ot_pars := tbl_delete (\<lambda>p. pr_uri p = uri) (ot_pars t)\<rparr>))"

definition PAR_DeleteExpired :: "int \<Rightarrow> unit om" where
  "PAR_DeleteExpired before = ox_exec (modify (\<lambda>t. t\<lparr>ot_pars := tbl_delete (\<lambda>p. pr_expires_at p < before) (ot_pars t)\<rparr>))"

definition AuthRequests_Insert :: "auth_request \<Rightarrow> unit om" where
  "AuthRequests_Insert r =
     ox_exec (\<lambda>D t. add_row ar_session (has_client t (ar_client r)) r (ot_auth_requests t) (\<lambda>rows. t\<lparr>ot_auth_requests := rows\<rparr>))"

definition AuthRequests_Get :: "string \<Rightarrow> auth_request option om" where
  "AuthRequests_Get session = ox_exec (query (\<lambda>t. tbl_find ar_session session (ot_auth_requests t)))"

definition AuthRequests_Delete :: "string \<Rightarrow> unit om" where
  "AuthRequests_Delete session = ox_exec (modify (\<lambda>t. t\<lparr>ot_auth_requests := tbl_delete (\<lambda>r. ar_session r = session) (ot_auth_requests t)\<rparr>))"

definition AuthRequests_DeleteExpired :: "int \<Rightarrow> unit om" where
  "AuthRequests_DeleteExpired before = ox_exec (modify (\<lambda>t. t\<lparr>ot_auth_requests := tbl_delete (\<lambda>r. ar_expires_at r < before) (ot_auth_requests t)\<rparr>))"

definition AuthRequests_DeleteByClientID :: "string \<Rightarrow> unit om" where
  "AuthRequests_DeleteByClientID c = ox_exec (modify (\<lambda>t. t\<lparr>ot_auth_requests := tbl_delete (\<lambda>r. ar_client r = c) (ot_auth_requests t)\<rparr>))"

definition ATPRequests_Insert :: "atp_request \<Rightarrow> unit om" where
  "ATPRequests_Insert r = ox_exec (\<lambda>D t. add_row ap_state True r (ot_atp_requests t) (\<lambda>rows. t\<lparr>ot_atp_requests := rows\<rparr>))"

definition ATPRequests_Get :: "string \<Rightarrow> atp_request option om" where
  "ATPRequests_Get state = ox_exec (query (\<lambda>t. tbl_find ap_state state (ot_atp_requests t)))"

definition ATPRequests_Delete :: "string \<Rightarrow> unit om" where
  "ATPRequests_Delete state = ox_exec (modify (\<lambda>t. t\<lparr>ot_atp_requests := tbl_delete (\<lambda>r. ap_state r = state) (ot_atp_requests t)\<rparr>))"

definition ATPRequests_DeleteExpired :: "int \<Rightarrow> unit om" where
  "ATPRequests_DeleteExpired before = ox_exec (modify (\<lambda>t. t\<lparr>ot_atp_requests := tbl_delete (\<lambda>r. ap_expires_at r < before) (ot_atp_requests t)\<rparr>))"

section \<open>Sessions\<close>

definition session_key :: "atp_session \<Rightarrow> string \<times> int" where
  "session_key s = (as_session s, as_iteration s)"

definition ATPSessions_Insert :: "atp_session \<Rightarrow> unit om" where
  "ATPSessions_Insert s = ox_exec (\<lambda>D t. add_row session_key True s (ot_sessions t) (\<lambda>rows. t\<lparr>ot_sessions := rows\<rparr>))"

definition ATPSessions_Get :: "string \<Rightarrow> int \<Rightarrow> atp_session option om" where
  "ATPSessions_Get session iteration = ox_exec (query (\<lambda>t. tbl_find session_key (session, iteration) (ot_sessions t)))"

definition top_row :: "'r list \<Rightarrow> 'r option" where
  "top_row rows = (case rows of [] \<Rightarrow> None | r # _ \<Rightarrow> Some r)"

definition ATPSessions_GetLatest :: "string \<Rightarrow> atp_session option om" where
  "ATPSessions_GetLatest session =
     ox_exec (query (\<lambda>t. top_row (newest_tokens as_iteration (filter (\<lambda>s. as_session s = session) (ot_sessions t)))))"

definition ATPSessions_GetByDID :: "string \<Rightarrow> atp_session option om" where
  "ATPSessions_GetByDID did = ox_exec (query (\<lambda>t. top_row (newest_tokens as_created_at (filter (\<lambda>s. as_did s = Some did) (ot_sessions t)))))"

definition ATPSessions_GetByAccessToken :: "string \<Rightarrow> atp_session option om" where
  "ATPSessions_GetByAccessToken token = ox_exec (query (\<lambda>t. top_row (filter (\<lambda>s. as_access_token s = Some token) (ot_sessions t))))"

definition ATPSessions_Update :: "atp_session \<Rightarrow> unit om" where
  "ATPSessions_Update s =
     ox_exec (modify (\<lambda>t. t\<lparr>ot_sessions := tbl_update (\<lambda>x. session_key x = session_key s)
       (\<lambda>x. x\<lparr>as_did := as_did s, as_access_token := as_access_token s, as_refresh_token := as_refresh_token s, as_token_created_at := as_token_created_at s,
         as_token_expires_at := as_token_expires_at s, as_scopes := as_scopes s, as_exchanged_at := as_exchanged_at s, as_error := as_error s\<rparr>) (ot_sessions t)\<rparr>))"

definition ATPSessions_Delete :: "string \<Rightarrow> int \<Rightarrow> unit om" where
  "ATPSessions_Delete session iteration = ox_exec (modify (\<lambda>t. t\<lparr>ot_sessions := tbl_delete (\<lambda>s. session_key s = (session, iteration)) (ot_sessions t)\<rparr>))"

definition ATPSessions_DeleteAllIterations :: "string \<Rightarrow> unit om" where
  "ATPSessions_DeleteAllIterations session = ox_exec (modify (\<lambda>t. t\<lparr>ot_sessions := tbl_delete (\<lambda>s. as_session s = session) (ot_sessions t)\<rparr>))"

section \<open>Clients\<close>

text \<open>A list column as it comes back: \<open>json.Marshal\<close> on the way in, \<open>json.Unmarshal\<close>, whose error is ignored, on the way out.\<close>

definition stored_strings :: "string list \<Rightarrow> string list" where
  "stored_strings vs = (case unmarshal_strings (json_strings vs) of Some xs \<Rightarrow> xs | None \<Rightarrow> [])"

definition stored_client :: "oauth_client \<Rightarrow> oauth_client" where
  "stored_client c = c\<lparr>oc_redirect_uris := stored_strings (oc_redirect_uris c), oc_grant_types := stored_strings (oc_grant_types c),
     oc_response_types := stored_strings (oc_response_types c)\<rparr>"

definition Clients_Insert :: "oauth_client \<Rightarrow> unit om" where
  "Clients_Insert c = ox_exec (with_boolean (\<lambda>D t. add_row oc_id True (stored_client c) (ot_clients t) (\<lambda>rows. t\<lparr>ot_clients := rows\<rparr>)))"

definition Clients_Get :: "string \<Rightarrow> oauth_client option om" where
  "Clients_Get c = ox_exec (query (\<lambda>t. tbl_find oc_id c (ot_clients t)))"

definition Clients_GetAll :: "oauth_client list om" where
  "Clients_GetAll = ox_exec (query (\<lambda>t. newest_tokens oc_created_at (filter (\<lambda>c. oc_id c \<noteq> ''admin'') (ot_clients t))))"

definition Clients_Update :: "oauth_client \<Rightarrow> unit om" where
  "Clients_Update c =
     ox_exec (with_boolean (modify (\<lambda>t. t\<lparr>ot_clients := tbl_update (\<lambda>x. oc_id x = oc_id c)
       (\<lambda>x. (stored_client c)\<lparr>oc_type := oc_type x, oc_created_at := oc_created_at x, oc_registration_token := oc_registration_token x\<rparr>) (ot_clients t)\<rparr>)))"

text \<open>The foreign keys cascade; authorization codes and ATP sessions have none.\<close>

definition Clients_Delete :: "string \<Rightarrow> unit om" where
  "Clients_Delete c =
     ox_exec (modify (\<lambda>t. t\<lparr>ot_clients := tbl_delete (\<lambda>x. oc_id x = c) (ot_clients t), ot_access := tbl_delete (\<lambda>a. tk_client a = c) (ot_access t),
       ot_refresh := tbl_delete (\<lambda>r. rt_client r = c) (ot_refresh t), ot_pars := tbl_delete (\<lambda>p. pr_client p = c) (ot_pars t),
       ot_auth_requests := tbl_delete (\<lambda>r. ar_client r = c) (ot_auth_requests t)\<rparr>))"

definition admin_client :: "int \<Rightarrow> oauth_client" where
  "admin_client now = \<lparr>oc_id = ''admin'', oc_secret = None, oc_name = ''Admin UI'', oc_redirect_uris = [], oc_grant_types = [], oc_response_types = [],
     oc_scope = None, oc_auth_method = ''none'', oc_type = ''confidential'', oc_created_at = now, oc_updated_at = now, oc_metadata = ''{}'',
     oc_access_expiration = 86400 * 7, oc_refresh_expiration = 86400 * 30, oc_require_exact = False, oc_registration_token = None, oc_jwks = None\<rparr>"

definition Clients_EnsureAdminClient :: "unit om" where
  "Clients_EnsureAdminClient w =
     ox_bind (Clients_Get ''admin'') (\<lambda>existing. if existing \<noteq> None then ox_return () else Clients_Insert (admin_client (ow_now w))) w"

definition Clients_GetCount :: "int om" where
  "Clients_GetCount = ox_exec (query (\<lambda>t. tbl_affected (\<lambda>c. oc_id c \<noteq> ''admin'') (ot_clients t)))"

end
