(* ===== verification/OAuth_Tokens.thy ===== *)
theory OAuth_Tokens
  imports OAuth_Store
begin

text \<open>
  PKCE, scopes, random tokens, DPoP proofs and the middleware that authenticates requests (\<open>internal/oauth\<close>: \<open>pkce.go\<close>, \<open>scopes.go\<close>,
  \<open>token_generator.go\<close>, \<open>dpop.go\<close>, \<open>middleware.go\<close>).

  Parameters are SHA-256, the decoding of a JWT header, the curve's test of a public key, the claims that golang-jwt decodes from a token and whether it
  accepts the token's signature under a key and its expiry at a time (the packages crypto, encoding/json and golang-jwt), the Unicode tables, \<open>net/url\<close>,
  and what the network answers.  Where an error text quotes an error of those packages only the part of this program is kept.
\<close>

record jwk =
  jk_kty :: string
  jk_crv :: string
  jk_x :: string
  jk_y :: string

record jwt_header =
  jh_typ :: string
  jh_alg :: string
  jh_jwk :: "jwk option"

record dpop_claims =
  dc_htm :: string
  dc_htu :: string
  dc_id :: string
  dc_iat :: "int option"

record url =
  url_scheme :: string
  url_host :: string
  url_hostname :: string
  url_fragment :: string

record upstream_tokens =
  ut_sub :: string
  ut_access :: string
  ut_refresh :: string
  ut_expires_in :: int
  ut_scope :: "string option"

record oauth_env =
  ox_sha256 :: "string \<Rightarrow> string"
  ox_header :: "string \<Rightarrow> jwt_header option"
  ox_point :: "string \<Rightarrow> bool"
  ox_claims :: "string \<Rightarrow> dpop_claims option"
  ox_verifies :: "string \<Rightarrow> string \<Rightarrow> int \<Rightarrow> bool"
  ox_unicode :: unicode
  ox_url :: "string \<Rightarrow> url option"
  ox_resolve_handle :: "string \<Rightarrow> string res"
  ox_auth_server :: "string \<Rightarrow> (string \<times> string) res"
  ox_exchange :: "string \<Rightarrow> string \<Rightarrow> string \<Rightarrow> string \<Rightarrow> string \<Rightarrow> upstream_tokens res"
  ox_key_json :: "string \<Rightarrow> string option"
  ox_key_jkt :: "string \<Rightarrow> string option"
  ox_parse_key :: "string \<Rightarrow> string option"

section \<open>Random tokens and times\<close>

definition b64_raw :: "string \<Rightarrow> string" where
  "b64_raw s = filter (\<lambda>c. c \<noteq> CHR ''='') (b64_encode s)"

definition b64_raw_decode :: "string \<Rightarrow> string option" where
  "b64_raw_decode s =
     (let t = filter (\<lambda>c. byte c \<noteq> 13 \<and> byte c \<noteq> 10) s in
      if CHR ''='' \<in> set t then None else b64_groups (t @ replicate ((4 - length t mod 4) mod 4) CHR ''=''))"

definition generateRandomToken :: "string om" where
  "generateRandomToken w =
     (let w' = w\<lparr>ow_drawn := Suc (ow_drawn w)\<rparr> in
      case ow_random w (ow_drawn w) of Some t \<Rightarrow> (Ok t, w') | None \<Rightarrow> (Err ''random source failed'', w'))"

definition GenerateCodeChallenge :: "oauth_env \<Rightarrow> string \<Rightarrow> string" where
  "GenerateCodeChallenge e verifier = b64_raw (ox_sha256 e verifier)"

definition VerifyCodeChallenge :: "oauth_env \<Rightarrow> string \<Rightarrow> string \<Rightarrow> string \<Rightarrow> bool" where
  "VerifyCodeChallenge e verifier challenge m =
     (if m = ''S256'' then GenerateCodeChallenge e verifier = challenge else if m = ''plain'' then verifier = challenge else False)"

section \<open>Scopes\<close>

definition ParseScopes :: "string \<Rightarrow> string list" where
  "ParseScopes s = (if s = [] then [] else filter (\<lambda>p. p \<noteq> []) (map trim_space (Go_Prelude.fields s)))"

definition JoinScopes :: "string list \<Rightarrow> string" where
  "JoinScopes scopes = join_with '' '' scopes"

definition isValidScopeChar :: "nat \<Rightarrow> bool" where
  "isValidScopeChar r = (97 \<le> r \<and> r \<le> 122 \<or> 65 \<le> r \<and> r \<le> 90 \<or> 48 \<le> r \<and> r \<le> 57 \<or> r = 46 \<or> r = 58 \<or> r = 95 \<or> r = 45)"

definition scope_separator :: "char \<Rightarrow> bool" where
  "scope_separator c = (c = CHR ''.'' \<or> c = CHR '':'' \<or> c = CHR ''_'' \<or> c = CHR ''-'')"

definition validateSingleScope :: "unicode \<Rightarrow> string \<Rightarrow> unit res" where
  "validateSingleScope U scope =
     (if scope = [] then Err ''empty scope value''
      else case List.find (\<lambda>r. \<not> isValidScopeChar (fst r)) (runes scope) of
        Some r \<Rightarrow> Err (''invalid character in scope: '' @ go_quote U (encode_rune (fst r)))
      | None \<Rightarrow>
          if scope_separator (hd scope) then Err (''scope cannot start with separator: '' @ go_quote U scope)
          else if scope_separator (last scope) then Err (''scope cannot end with separator: '' @ go_quote U scope)
          else Ok ())"

fun validate_scopes :: "unicode \<Rightarrow> string list \<Rightarrow> unit res" where
  "validate_scopes U [] = Ok ()"
| "validate_scopes U (s # ss) = (case validateSingleScope U s of Inl x \<Rightarrow> Err x | Inr _ \<Rightarrow> validate_scopes U ss)"

definition ValidateScopeFormat :: "unicode \<Rightarrow> string \<Rightarrow> unit res" where
  "ValidateScopeFormat U s = (if s = [] then Ok () else validate_scopes U (ParseScopes s))"

definition ContainsScope :: "string \<Rightarrow> string \<Rightarrow> bool" where
  "ContainsScope s target = list_ex (\<lambda>x. x = target) (ParseScopes s)"

definition IsScopeSubset :: "string \<Rightarrow> string \<Rightarrow> bool" where
  "IsScopeSubset requested granted = list_all (\<lambda>s. s \<in> set (ParseScopes granted)) (ParseScopes requested)"

definition FilterScopes :: "string \<Rightarrow> string list \<Rightarrow> string" where
  "FilterScopes s allowed = (if s = [] then [] else JoinScopes (filter (\<lambda>x. x \<in> set allowed) (ParseScopes s)))"

section \<open>DPoP proofs\<close>

definition p256CoordinateSize :: nat where "p256CoordinateSize = 32"

definition allZero :: "string \<Rightarrow> bool" where
  "allZero b = list_all (\<lambda>c. byte c = 0) b"

definition normalizeCoordinate :: "string \<Rightarrow> string res" where
  "normalizeCoordinate b =
     (if b = [] then Err ''empty coordinate''
      else if length b > p256CoordinateSize then
        (if \<not> allZero (take (length b - p256CoordinateSize) b) then Err (''coordinate too large: '' @ show_nat (length b) @ '' bytes'')
         else Ok (drop (length b - p256CoordinateSize) b))
      else Ok (replicate (p256CoordinateSize - length b) (char_of (0 :: nat)) @ b))"

definition quoted :: "string \<Rightarrow> string" where
  "quoted s = CHR 0x22 # s @ [CHR 0x22]"

definition CalculateJKTFromJWK :: "oauth_env \<Rightarrow> jwk \<Rightarrow> string" where
  "CalculateJKTFromJWK e k =
     b64_raw (ox_sha256 e (''{'' @ quoted ''crv'' @ '':'' @ quoted (jk_crv k) @ '','' @ quoted ''kty'' @ '':'' @ quoted (jk_kty k) @ '',''
       @ quoted ''x'' @ '':'' @ quoted (jk_x k) @ '','' @ quoted ''y'' @ '':'' @ quoted (jk_y k) @ ''}''))"

record dpop_result =
  dp_jkt :: string
  dp_jti :: string
  dp_iat :: int

definition coordinate :: "string \<Rightarrow> string \<Rightarrow> string res" where
  "coordinate name text64 =
     (case b64_raw_decode text64 of
        None \<Rightarrow> Err (''failed to decode '' @ name)
      | Some raw \<Rightarrow> (case normalizeCoordinate raw of Inl x \<Rightarrow> Err (''failed to normalize '' @ name @ '': '' @ x) | Inr b \<Rightarrow> Ok b))"

text \<open>The public key of the proof, in uncompressed form.  Both coordinates are decoded before either is normalized.\<close>

definition proof_key :: "oauth_env \<Rightarrow> jwk \<Rightarrow> string res" where
  "proof_key e k =
     (if b64_raw_decode (jk_x k) = None then Err ''failed to decode X''
      else if b64_raw_decode (jk_y k) = None then Err ''failed to decode Y''
      else case coordinate ''X'' (jk_x k) of
        Inl x \<Rightarrow> Err x
      | Inr xs \<Rightarrow>
          (case coordinate ''Y'' (jk_y k) of
             Inl x \<Rightarrow> Err x
           | Inr ys \<Rightarrow> let p = char_of (4 :: nat) # xs @ ys in if ox_point e p then Ok p else Err ''failed to parse public key''))"

definition proof_header :: "oauth_env \<Rightarrow> string \<Rightarrow> jwk res" where
  "proof_header e proof =
     (let parts = split_on CHR ''.'' proof in
      if length parts \<noteq> 3 then Err ''invalid JWT format''
      else case b64_raw_decode (parts ! 0) of
        None \<Rightarrow> Err ''failed to decode header''
      | Some bytes \<Rightarrow>
          (case ox_header e bytes of
             None \<Rightarrow> Err ''failed to parse header''
           | Some h \<Rightarrow>
               if jh_typ h \<noteq> ''dpop+jwt'' then Err ''invalid typ: expected dpop+jwt''
               else if jh_alg h \<noteq> ''ES256'' then Err ''invalid alg: expected ES256''
               else (case jh_jwk h of
                       None \<Rightarrow> Err ''missing jwk in header''
                     | Some k \<Rightarrow> if jk_kty k \<noteq> ''EC'' \<or> jk_crv k \<noteq> ''P-256'' then Err ''invalid jwk: expected EC P-256'' else Ok k)))"

text \<open>The age is a difference of int64 values and wraps around.\<close>

definition check_claims :: "dpop_claims \<Rightarrow> string \<Rightarrow> string \<Rightarrow> int \<Rightarrow> int \<Rightarrow> int res" where
  "check_claims c m u maxAge now =
     (if dc_htm c \<noteq> m then Err (''method mismatch: expected '' @ m @ '', got '' @ dc_htm c)
      else if dc_htu c \<noteq> u then Err (''url mismatch: expected '' @ u @ '', got '' @ dc_htu c)
      else if dc_id c = [] then Err ''missing jti claim''
      else case dc_iat c of
        None \<Rightarrow> Err ''missing iat claim''
      | Some iat \<Rightarrow>
          if wrap64 (now - iat) > maxAge then Err (''proof too old: '' @ show_int (wrap64 (now - iat)) @ '' seconds'')
          else if iat > now + 60 then Err ''proof issued in the future'' else Ok iat)"

definition VerifyDPoPProof :: "oauth_env \<Rightarrow> string \<Rightarrow> string \<Rightarrow> string \<Rightarrow> int \<Rightarrow> int \<Rightarrow> dpop_result res" where
  "VerifyDPoPProof e proof m u maxAge now =
     (case proof_header e proof of
        Inl x \<Rightarrow> Err x
      | Inr k \<Rightarrow>
          (case proof_key e k of
             Inl x \<Rightarrow> Err x
           | Inr key \<Rightarrow>
               (case (if ox_verifies e proof key now then ox_claims e proof else None) of
                  None \<Rightarrow> Err ''failed to verify token''
                | Some c \<Rightarrow>
                    (case check_claims c m u maxAge now of
                       Inl x \<Rightarrow> Err x
                     | Inr iat \<Rightarrow> Ok \<lparr>dp_jkt = CalculateJKTFromJWK e k, dp_jti = dc_id c, dp_iat = iat\<rparr>))))"

section \<open>Requests and their authentication\<close>

record http_request =
  hq_method :: string
  hq_authorization :: string
  hq_dpop :: string
  hq_path :: string
  hq_raw_query :: string
  hq_query :: "(string \<times> string) list"
  hq_form :: "(string \<times> string) list option"

definition tried :: "'a om \<Rightarrow> (err \<Rightarrow> oauth_world \<Rightarrow> 'b \<times> oauth_world) \<Rightarrow> ('a \<Rightarrow> oauth_world \<Rightarrow> 'b \<times> oauth_world) \<Rightarrow> oauth_world \<Rightarrow> 'b \<times> oauth_world" where
  "tried m f g w = (case m w of (Inl x, w') \<Rightarrow> f x w' | (Inr a, w') \<Rightarrow> g a w')"

definition respond :: "'b \<Rightarrow> oauth_world \<Rightarrow> 'b \<times> oauth_world" where
  "respond r w = (r, w)"

record auth_error =
  ae_code :: string
  ae_description :: string

record auth_result =
  re_user :: string
  re_token :: access_token
  re_scopes :: "string list"

record auth_middleware =
  mw_max_age :: int
  mw_resource_url :: string

definition DefaultMaxDPoPAge :: int where "DefaultMaxDPoPAge = 300"

definition NewAuthMiddleware :: "string \<Rightarrow> auth_middleware" where
  "NewAuthMiddleware resourceURL = \<lparr>mw_max_age = DefaultMaxDPoPAge, mw_resource_url = trim_suffix resourceURL ''/''\<rparr>"

abbreviation invalid_token :: "string \<Rightarrow> auth_error" where "invalid_token s \<equiv> \<lparr>ae_code = ''invalid_token'', ae_description = s\<rparr>"
abbreviation invalid_proof :: "string \<Rightarrow> auth_error" where "invalid_proof s \<equiv> \<lparr>ae_code = ''invalid_dpop_proof'', ae_description = s\<rparr>"

definition ErrServerError :: auth_error where "ErrServerError = \<lparr>ae_code = ''server_error'', ae_description = ''Internal server error''\<rparr>"
definition ErrDPoPReplay :: auth_error where "ErrDPoPReplay = invalid_proof ''DPoP proof replay detected''"

definition AuthError_HTTPStatus :: "auth_error \<Rightarrow> int" where
  "AuthError_HTTPStatus x = (if ae_code x = ''insufficient_scope'' then 403 else if ae_code x = ''server_error'' then 500 else 401)"

text \<open>The checks the two schemes share: stored, in time, not revoked; then the binding, then the user.\<close>

definition token_checks :: "int \<Rightarrow> access_token option \<Rightarrow> (access_token \<Rightarrow> auth_error option) \<Rightarrow> auth_error + auth_result" where
  "token_checks now found binding =
     (case found of
        None \<Rightarrow> Inl (invalid_token ''Invalid access token'')
      | Some a \<Rightarrow>
          if past now (tk_expires_at a) then Inl (invalid_token ''Access token has expired'')
          else if tk_revoked a then Inl (invalid_token ''Access token has been revoked'')
          else (case binding a of
                  Some x \<Rightarrow> Inl x
                | None \<Rightarrow>
                    (case tk_user a of
                       None \<Rightarrow> Inl (invalid_token ''Token has no user'')
                     | Some user \<Rightarrow> Inr \<lparr>re_user = user, re_token = a, re_scopes = (case tk_scope a of Some s \<Rightarrow> ParseScopes s | None \<Rightarrow> [])\<rparr>)))"

definition validateBearerToken :: "string \<Rightarrow> oauth_world \<Rightarrow> (auth_error + auth_result) \<times> oauth_world" where
  "validateBearerToken token =
     tried (AccessTokens_Get token) (\<lambda>_. respond (Inl ErrServerError))
       (\<lambda>found w. (token_checks (ow_now w) found
          (\<lambda>a. if tk_jkt a \<noteq> None then Some (invalid_token ''DPoP-bound token requires DPoP authorization'') else None), w))"

definition request_url :: "auth_middleware \<Rightarrow> http_request \<Rightarrow> string" where
  "request_url m rq = mw_resource_url m @ hq_path rq @ (if hq_raw_query rq \<noteq> [] then ''?'' @ hq_raw_query rq else [])"

definition validateDPoPToken :: "oauth_env \<Rightarrow> auth_middleware \<Rightarrow> http_request \<Rightarrow> string \<Rightarrow> oauth_world \<Rightarrow> (auth_error + auth_result) \<times> oauth_world" where
  "validateDPoPToken e m rq token w =
     (if hq_dpop rq = [] then (Inl (invalid_proof ''Missing DPoP proof for DPoP-bound token''), w)
      else case VerifyDPoPProof e (hq_dpop rq) (hq_method rq) (request_url m rq) (mw_max_age m) (ow_now w) of
        Inl x \<Rightarrow> (Inl (invalid_proof x), w)
      | Inr p \<Rightarrow>
          tried (JTI_Exists (dp_jti p)) (\<lambda>_. respond (Inl ErrServerError)) (\<lambda>used.
            if used then respond (Inl ErrDPoPReplay)
            else tried (JTI_Insert \<lparr>dj_jti = dp_jti p, dj_created_at = dp_iat p\<rparr>) (\<lambda>_. respond (Inl ErrDPoPReplay)) (\<lambda>_.
              tried (AccessTokens_Get token) (\<lambda>_. respond (Inl ErrServerError)) (\<lambda>found w'.
                (token_checks (ow_now w') found
                   (\<lambda>a. case tk_jkt a of
                        None \<Rightarrow> Some (invalid_token ''Token is not DPoP-bound'')
                      | Some jkt \<Rightarrow> if jkt \<noteq> dp_jkt p then Some (invalid_proof ''DPoP key mismatch'') else None), w')))) w)"

definition ValidateRequest :: "oauth_env \<Rightarrow> auth_middleware \<Rightarrow> http_request \<Rightarrow> oauth_world \<Rightarrow> (auth_error + auth_result) \<times> oauth_world" where
  "ValidateRequest e m rq =
     (if hq_authorization rq = [] then respond (Inl \<lparr>ae_code = ''missing_authorization'', ae_description = ''Missing Authorization header''\<rparr>)
      else case cut_at CHR '' '' (hq_authorization rq) of
        None \<Rightarrow> respond (Inl \<lparr>ae_code = ''invalid_request'', ae_description = ''Invalid Authorization header format''\<rparr>)
      | Some (scheme, token) \<Rightarrow>
          if scheme = ''DPoP'' then validateDPoPToken e m rq token
          else if scheme = ''Bearer'' then validateBearerToken token
          else respond (Inl \<lparr>ae_code = ''invalid_request'', ae_description = ''Unsupported authorization scheme''\<rparr>))"

text \<open>The middleware passes a request on with what it knows of the caller, or answers with a status.\<close>

datatype passed = Refused int auth_error | Anonymous | Authenticated auth_result

definition RequireAuth :: "oauth_env \<Rightarrow> auth_middleware \<Rightarrow> http_request \<Rightarrow> oauth_world \<Rightarrow> passed \<times> oauth_world" where
  "RequireAuth e m rq w =
     (case ValidateRequest e m rq w of
        (Inl x, w') \<Rightarrow> (Refused (AuthError_HTTPStatus x) x, w')
      | (Inr r, w') \<Rightarrow> (Authenticated r, w'))"

definition OptionalAuth :: "oauth_env \<Rightarrow> auth_middleware \<Rightarrow> http_request \<Rightarrow> oauth_world \<Rightarrow> passed \<times> oauth_world" where
  "OptionalAuth e m rq w = (if hq_authorization rq = [] then (Anonymous, w) else RequireAuth e m rq w)"

definition RequireScope :: "string list \<Rightarrow> passed \<Rightarrow> passed" where
  "RequireScope required p =
     (let insufficient = \<lparr>ae_code = ''insufficient_scope'', ae_description = ''Insufficient scope for this resource''\<rparr> in
      case p of
        Authenticated r \<Rightarrow> if list_all (\<lambda>s. s \<in> set (re_scopes r)) required then p else Refused (AuthError_HTTPStatus insufficient) insufficient
      | Anonymous \<Rightarrow> Refused (AuthError_HTTPStatus insufficient) insufficient
      | Refused _ _ \<Rightarrow> p)"

definition UseJTI :: "string \<Rightarrow> int \<Rightarrow> bool om" where
  "UseJTI jti iat =
     ox_bind (JTI_Exists jti) (\<lambda>exists. if exists then ox_return False else ox_bind (JTI_Insert \<lparr>dj_jti = jti, dj_created_at = iat\<rparr>) (\<lambda>_. ox_return True))"

definition CleanupExpiredJTIs :: "int \<Rightarrow> unit om" where
  "CleanupExpiredJTIs maxAge w = JTI_DeleteOlderThan (ow_now w - maxAge) w"

end
