(* ===== verification/OAuth_Server.thy ===== *)
theory OAuth_Server
  imports OAuth_Tokens
begin

text \<open>
  The OAuth endpoints (\<open>internal/server/oauth_handlers.go\<close>, \<open>oauth_par.go\<close>, \<open>oauth_register.go\<close>): authorization, the callback of the upstream server,
  the token endpoint with its two grants, revocation, pushed requests, registration and the periodic clean-up.  Discovery documents and the key set are
  constant answers and have no counterpart.
\<close>

record oauth_config =
  cf_base_url :: string
  cf_client_id :: string
  cf_callback :: string
  cf_access_lifetime :: int
  cf_refresh_lifetime :: int
  cf_code_lifetime :: int

definition NewOAuthHandlers :: "oauth_config \<Rightarrow> oauth_config" where
  "NewOAuthHandlers c =
     c\<lparr>cf_access_lifetime := (if cf_access_lifetime c = 0 then 3600 else cf_access_lifetime c),
       cf_refresh_lifetime := (if cf_refresh_lifetime c = 0 then 1209600 else cf_refresh_lifetime c),
       cf_code_lifetime := (if cf_code_lifetime c = 0 then 600 else cf_code_lifetime c)\<rparr>"

record token_response =
  tr_access :: string
  tr_type :: string
  tr_expires_in :: int
  tr_refresh :: string
  tr_scope :: "string option"
  tr_sub :: string

text \<open>Answers: a JSON error, a redirect with an error or with query parameters set on a URI, tokens, an empty 200, a created resource, and a nil dereference:
  of \<open>HandleCallback\<close> on a redirect URI that does not parse, and of \<open>http.Redirect\<close> on a relative one, because \<open>redirectWithError\<close> passes it an empty request.\<close>

datatype http_response =
    ErrorAnswer int string string
  | NotAllowed "string list"
  | RedirectError string string string string
  | RedirectTo string "(string \<times> string) list"
  | TokenAnswer token_response
  | Empty200
  | PARCreated string int
  | ClientCreated oauth_client string
  | Panicked

type_synonym oauth_handler = "oauth_world \<Rightarrow> http_response \<times> oauth_world"

definition writeOAuthError :: "int \<Rightarrow> string \<Rightarrow> string \<Rightarrow> oauth_handler" where
  "writeOAuthError status code description = respond (ErrorAnswer status code description)"

abbreviation bad_request :: "string \<Rightarrow> string \<Rightarrow> oauth_handler" where "bad_request \<equiv> writeOAuthError 400"
abbreviation server_error :: "string \<Rightarrow> oauth_handler" where "server_error \<equiv> writeOAuthError 500 ''server_error''"

definition redirectWithError :: "oauth_env \<Rightarrow> string \<Rightarrow> string \<Rightarrow> string \<Rightarrow> string \<Rightarrow> oauth_handler" where
  "redirectWithError e uri code description state =
     (case ox_url e uri of
        None \<Rightarrow> bad_request ''invalid_request'' ''Invalid redirect_uri''
      | Some u \<Rightarrow> if url_scheme u = [] \<and> url_host u = [] then respond Panicked else respond (RedirectError uri code description state))"

text \<open>A call whose error is ignored.\<close>

definition ignoring :: "'a om \<Rightarrow> oauth_handler \<Rightarrow> oauth_handler" where
  "ignoring m h w = h (snd (m w))"

definition form_get :: "(string \<times> string) list \<Rightarrow> string \<Rightarrow> string" where
  "form_get params k = (case map_of params k of Some v \<Rightarrow> v | None \<Rightarrow> [])"

definition ptrString :: "string \<Rightarrow> string option" where
  "ptrString s = (if s = [] then None else Some s)"

definition isValidRedirectURI :: "string \<Rightarrow> string list \<Rightarrow> bool \<Rightarrow> bool" where
  "isValidRedirectURI uri registered requireExact = list_ex (\<lambda>r. if requireExact then uri = r else has_prefix uri r) registered"

section \<open>Authorization\<close>

definition new_atp_request :: "oauth_config \<Rightarrow> string \<Rightarrow> string \<Rightarrow> string \<Rightarrow> string \<Rightarrow> string \<Rightarrow> string \<Rightarrow> int \<Rightarrow> atp_request" where
  "new_atp_request cfg atpState server sessionID verifier jkt keyJSON now = \<lparr>ap_state = atpState, ap_server = server, ap_nonce = sessionID,
     ap_verifier = verifier, ap_public_key = jkt, ap_private_key = keyJSON, ap_created_at = now, ap_expires_at = now + cf_code_lifetime cfg\<rparr>"

definition new_atp_session :: "string \<Rightarrow> string \<Rightarrow> string \<Rightarrow> string \<Rightarrow> string \<Rightarrow> int \<Rightarrow> atp_session" where
  "new_atp_session sessionID did atpState jkt keyJSON now = \<lparr>as_session = sessionID, as_iteration = 0, as_did = Some did, as_created_at = now,
     as_state = atpState, as_jkt = jkt, as_key = keyJSON, as_access_token = None, as_refresh_token = None, as_token_created_at = None,
     as_token_expires_at = None, as_scopes = None, as_exchanged_at = None, as_error = None\<rparr>"

definition new_auth_request :: "oauth_config \<Rightarrow> (string \<times> string) list \<Rightarrow> string \<Rightarrow> int \<Rightarrow> auth_request" where
  "new_auth_request cfg params sessionID now =
     (let get = form_get params in
      \<lparr>ar_session = sessionID, ar_client = get ''client_id'', ar_redirect_uri = get ''redirect_uri'', ar_scope = ptrString (get ''scope''),
       ar_state = ptrString (get ''state''), ar_challenge = ptrString (get ''code_challenge''), ar_method = Some ''S256'',
       ar_response_type = get ''response_type'', ar_nonce = ptrString (get ''nonce''), ar_login_hint = ptrString (get ''login_hint''), ar_created_at = now,
       ar_expires_at = now + cf_code_lifetime cfg\<rparr>)"

text \<open>The upstream request: its state, key and PKCE verifier, kept for the callback.\<close>

definition start_upstream :: "oauth_env \<Rightarrow> oauth_config \<Rightarrow> string \<Rightarrow> string \<Rightarrow> string \<Rightarrow> string \<times> string \<Rightarrow> string \<Rightarrow> string \<Rightarrow> oauth_handler" where
  "start_upstream e cfg redirectURI state did server sessionID scope w0 =
     (let fail = redirectWithError e redirectURI ''server_error''; now = ow_now w0 in
      tried generateRandomToken (\<lambda>_. fail ''Failed to generate state'' state) (\<lambda>atpState.
      tried generateRandomToken (\<lambda>_. fail ''Failed to generate DPoP key'' state) (\<lambda>key.
      case ox_key_json e key of
        None \<Rightarrow> fail ''Failed to serialize DPoP key'' state
      | Some keyJSON \<Rightarrow>
          (case ox_key_jkt e key of
             None \<Rightarrow> fail ''Failed to compute DPoP key thumbprint'' state
           | Some jkt \<Rightarrow>
               tried generateRandomToken (\<lambda>_. fail ''Failed to generate PKCE verifier'' state) (\<lambda>verifier.
               tried (ATPRequests_Insert (new_atp_request cfg atpState (fst server) sessionID verifier jkt keyJSON now))
                 (\<lambda>_. fail ''Failed to store ATP request'' state) (\<lambda>_.
               tried (ATPSessions_Insert (new_atp_session sessionID did atpState jkt keyJSON now))
                 (\<lambda>_. fail ''Failed to store ATP session'' state) (\<lambda>_.
               respond (RedirectTo (snd server)
                 [(''client_id'', cf_client_id cfg), (''redirect_uri'', cf_callback cfg), (''response_type'', ''code''),
                  (''code_challenge'', GenerateCodeChallenge e verifier), (''code_challenge_method'', ''S256''), (''state'', atpState),
                  (''scope'', scope), (''login_hint'', did)])))))))) w0"

definition authorize_client :: "oauth_env \<Rightarrow> oauth_config \<Rightarrow> (string \<times> string) list \<Rightarrow> oauth_client \<Rightarrow> oauth_handler" where
  "authorize_client e cfg params client w0 =
     (let get = form_get params; clientID = get ''client_id''; redirectURI = get ''redirect_uri''; state = get ''state''; scope = get ''scope'';
          challenge = get ''code_challenge''; m = get ''code_challenge_method''; loginHint = get ''login_hint'';
          fail = (\<lambda>code description. redirectWithError e redirectURI code description state) in
      if get ''response_type'' \<noteq> ''code'' then fail ''unsupported_response_type'' (''Only '' @ [CHR 0x27] @ ''code'' @ [CHR 0x27] @ '' response_type is supported'')
      else if challenge = [] then fail ''invalid_request'' ''code_challenge is required''
      else if m \<noteq> ''S256'' \<and> m \<noteq> [] then fail ''invalid_request'' ''Only S256 code_challenge_method is supported''
      else if loginHint = [] then fail ''invalid_request'' ''login_hint (DID or handle) is required''
      else case (if has_prefix loginHint ''did:'' then Ok loginHint else ox_resolve_handle e loginHint) of
        Inl x \<Rightarrow> fail ''invalid_request'' (''Failed to resolve handle: '' @ x)
      | Inr did \<Rightarrow>
          (case ox_auth_server e did of
             Inl x \<Rightarrow> fail ''server_error'' (''Failed to resolve authorization server: '' @ x)
           | Inr server \<Rightarrow>
               tried generateRandomToken (\<lambda>_. fail ''server_error'' ''Failed to generate session'') (\<lambda>sessionID.
               tried (AuthRequests_Insert (new_auth_request cfg params sessionID (ow_now w0)))
                 (\<lambda>_. fail ''server_error'' ''Failed to store authorization request'') (\<lambda>_.
               start_upstream e cfg redirectURI state did server sessionID
                 (if scope \<noteq> [] then scope
                  else (case oc_scope client of Some s \<Rightarrow> if s \<noteq> [] then s else ''atproto'' | None \<Rightarrow> ''atproto'')))))) w0"

definition HandleAuthorize :: "oauth_env \<Rightarrow> oauth_config \<Rightarrow> http_request \<Rightarrow> oauth_handler" where
  "HandleAuthorize e cfg rq =
     (if hq_method rq \<noteq> ''GET'' \<and> hq_method rq \<noteq> ''POST'' then respond (NotAllowed [''GET'', ''POST''])
      else case (if hq_method rq = ''GET'' then Some (hq_query rq) else hq_form rq) of
        None \<Rightarrow> bad_request ''invalid_request'' ''Failed to parse form data''
      | Some params \<Rightarrow>
          let clientID = form_get params ''client_id''; redirectURI = form_get params ''redirect_uri'' in
          if clientID = [] then bad_request ''invalid_request'' ''client_id is required''
          else if redirectURI = [] then bad_request ''invalid_request'' ''redirect_uri is required''
          else tried (Clients_Get clientID) (\<lambda>_. server_error ''Database error'') (\<lambda>found.
            case found of
              None \<Rightarrow> bad_request ''invalid_client'' ''Client not found''
            | Some client \<Rightarrow>
                if \<not> isValidRedirectURI redirectURI (oc_redirect_uris client) (oc_require_exact client)
                then bad_request ''invalid_request'' ''redirect_uri not registered for client''
                else authorize_client e cfg params client))"

section \<open>The callback\<close>

definition exchanged_session :: "upstream_tokens \<Rightarrow> int \<Rightarrow> atp_session \<Rightarrow> atp_session" where
  "exchanged_session t now s =
     s\<lparr>as_did := Some (ut_sub t), as_access_token := Some (ut_access t), as_refresh_token := Some (ut_refresh t), as_token_created_at := Some now,
       as_token_expires_at := Some (now + ut_expires_in t), as_scopes := (case ut_scope t of Some x \<Rightarrow> Some x | None \<Rightarrow> as_scopes s),
       as_exchanged_at := Some now\<rparr>"

text \<open>Storing the upstream tokens: errors are ignored.\<close>

definition update_session :: "string \<Rightarrow> upstream_tokens \<Rightarrow> oauth_handler \<Rightarrow> oauth_handler" where
  "update_session sessionID t h =
     tried (ATPSessions_GetLatest sessionID) (\<lambda>_. h)
       (\<lambda>found w. (case found of None \<Rightarrow> h | Some s \<Rightarrow> ignoring (ATPSessions_Update (exchanged_session t (ow_now w) s)) h) w)"

definition new_code :: "oauth_config \<Rightarrow> string \<Rightarrow> string \<Rightarrow> upstream_tokens \<Rightarrow> auth_request \<Rightarrow> int \<Rightarrow> auth_code" where
  "new_code cfg code sessionID t r now = \<lparr>cd_code = code, cd_client = ar_client r, cd_user = ut_sub t, cd_session = Some sessionID, cd_iteration = Some 0,
     cd_redirect_uri = ar_redirect_uri r, cd_scope = ar_scope r, cd_challenge = ar_challenge r, cd_method = ar_method r, cd_nonce = ar_nonce r,
     cd_created_at = now, cd_expires_at = now + cf_code_lifetime cfg, cd_used = False\<rparr>"

definition issue_code :: "oauth_env \<Rightarrow> oauth_config \<Rightarrow> string \<Rightarrow> string \<Rightarrow> upstream_tokens \<Rightarrow> auth_request \<Rightarrow> string \<Rightarrow> oauth_handler" where
  "issue_code e cfg atpState sessionID t r clientState w0 =
     (let fail = (\<lambda>description. redirectWithError e (ar_redirect_uri r) ''server_error'' description clientState) in
      tried generateRandomToken (\<lambda>_. fail ''Failed to generate authorization code'') (\<lambda>code.
      tried (Codes_Insert (new_code cfg code sessionID t r (ow_now w0))) (\<lambda>_. fail ''Failed to store authorization code'') (\<lambda>_.
      ignoring (ATPRequests_Delete atpState) (ignoring (AuthRequests_Delete sessionID)
        (if ox_url e (ar_redirect_uri r) = None then respond Panicked
         else respond (RedirectTo (ar_redirect_uri r) ((''code'', code) # (if clientState \<noteq> [] then [(''state'', clientState)] else []))))))) w0)"

definition HandleCallback :: "oauth_env \<Rightarrow> oauth_config \<Rightarrow> http_request \<Rightarrow> oauth_handler" where
  "HandleCallback e cfg rq =
     (if hq_method rq \<noteq> ''GET'' then respond (NotAllowed [''GET''])
      else let get = form_get (hq_query rq); atpState = get ''state'' in
      tried (ATPRequests_Get atpState) (\<lambda>_. server_error ''Database error'') (\<lambda>found w.
        (case found of
          None \<Rightarrow> bad_request ''invalid_request'' ''Invalid or expired state''
        | Some a \<Rightarrow>
            if past (ow_now w) (ap_expires_at a)
            then ignoring (ATPRequests_Delete atpState) (bad_request ''invalid_request'' ''Authorization request expired'')
            else tried (AuthRequests_Get (ap_nonce a)) (\<lambda>_. server_error ''Database error'') (\<lambda>found'.
              case found' of
                None \<Rightarrow> bad_request ''invalid_request'' ''Session not found''
              | Some r \<Rightarrow>
                  let clientState = (case ar_state r of Some s \<Rightarrow> s | None \<Rightarrow> []); fail = (\<lambda>code description. redirectWithError e (ar_redirect_uri r) code description clientState) in
                  if get ''error'' \<noteq> [] then fail (get ''error'') (get ''error_description'')
                  else if get ''code'' = [] then fail ''invalid_request'' ''Missing authorization code''
                  else (case ox_parse_key e (ap_private_key a) of
                          None \<Rightarrow> fail ''server_error'' ''Failed to parse DPoP key''
                        | Some key \<Rightarrow>
                            (case ox_exchange e (ap_server a @ ''/oauth/token'') (get ''code'') (ap_verifier a) (cf_callback cfg) key of
                               Inl x \<Rightarrow> fail ''server_error'' (''Token exchange failed: '' @ x)
                             | Inr t \<Rightarrow> update_session (ap_nonce a) t (issue_code e cfg atpState (ap_nonce a) t r clientState))))) w))"

section \<open>The token endpoint\<close>

text \<open>A proof, where the request has one: its key, unless its identifier was seen before.\<close>

definition validateDPoP :: "oauth_env \<Rightarrow> oauth_config \<Rightarrow> http_request \<Rightarrow> string option om" where
  "validateDPoP e cfg rq w =
     (if hq_dpop rq = [] then (Ok None, w)
      else case VerifyDPoPProof e (hq_dpop rq) ''POST'' (cf_base_url cfg @ ''/oauth/token'') DefaultMaxDPoPAge (ow_now w) of
        Inl x \<Rightarrow> (Err x, w)
      | Inr p \<Rightarrow>
          ox_bind (JTI_Exists (dp_jti p)) (\<lambda>used.
            if used then (\<lambda>w. (Err (ae_code ErrDPoPReplay @ '': '' @ ae_description ErrDPoPReplay), w))
            else ox_bind (JTI_Insert \<lparr>dj_jti = dp_jti p, dj_created_at = dp_iat p\<rparr>) (\<lambda>_. ox_return (Some (dp_jkt p)))) w)"

definition token_type :: "string option \<Rightarrow> string" where
  "token_type jkt = (if jkt = None then ''Bearer'' else ''DPoP'')"

definition new_access :: "oauth_config \<Rightarrow> string \<Rightarrow> string \<Rightarrow> string option \<Rightarrow> string option \<Rightarrow> string option \<Rightarrow> int \<Rightarrow> string \<Rightarrow> access_token" where
  "new_access cfg clientID user session scope jkt now token = \<lparr>tk_token = token, tk_type = token_type jkt, tk_client = clientID, tk_user = Some user, tk_session = session,
     tk_iteration = Some 0, tk_scope = scope, tk_created_at = now, tk_expires_at = now + cf_access_lifetime cfg, tk_revoked = False, tk_jkt = jkt\<rparr>"

definition new_refresh :: "oauth_config \<Rightarrow> string \<Rightarrow> string \<Rightarrow> string option \<Rightarrow> string option \<Rightarrow> int \<Rightarrow> string \<Rightarrow> string \<Rightarrow> refresh_token" where
  "new_refresh cfg clientID user session scope now access token = \<lparr>rt_token = token, rt_access_token = access, rt_client = clientID, rt_user = user, rt_session = session,
     rt_iteration = Some 0, rt_scope = scope, rt_created_at = now,
     rt_expires_at = (if cf_refresh_lifetime cfg > 0 then Some (now + cf_refresh_lifetime cfg) else None), rt_revoked = False\<rparr>"

definition issue_tokens :: "oauth_config \<Rightarrow> string \<Rightarrow> string \<Rightarrow> string option \<Rightarrow> string option \<Rightarrow> string option \<Rightarrow> oauth_handler" where
  "issue_tokens cfg clientID user session scope jkt w0 =
     tried generateRandomToken (\<lambda>_. server_error ''Failed to generate access token'') (\<lambda>access.
     tried generateRandomToken (\<lambda>_. server_error ''Failed to generate refresh token'') (\<lambda>refresh.
     tried (AccessTokens_Insert (new_access cfg clientID user session scope jkt (ow_now w0) access)) (\<lambda>_. server_error ''Failed to store access token'') (\<lambda>_.
     tried (RefreshTokens_Insert (new_refresh cfg clientID user session scope (ow_now w0) access refresh)) (\<lambda>_. server_error ''Failed to store refresh token'') (\<lambda>_.
     respond (TokenAnswer \<lparr>tr_access = access, tr_type = token_type jkt, tr_expires_in = cf_access_lifetime cfg, tr_refresh = refresh, tr_scope = scope,
       tr_sub = user\<rparr>))))) w0"

text \<open>The grant up to the point where the code is taken, and from there.\<close>

definition code_error :: "oauth_env \<Rightarrow> int \<Rightarrow> (string \<times> string) list \<Rightarrow> auth_code \<Rightarrow> (string \<times> string) option" where
  "code_error e now params c =
     (if cd_used c then Some (''invalid_grant'', ''Authorization code already used'')
      else if past now (cd_expires_at c) then Some (''invalid_grant'', ''Authorization code expired'')
      else if cd_client c \<noteq> form_get params ''client_id'' then Some (''invalid_grant'', ''Client ID mismatch'')
      else if cd_redirect_uri c \<noteq> form_get params ''redirect_uri'' then Some (''invalid_grant'', ''Redirect URI mismatch'')
      else case cd_challenge c of
        None \<Rightarrow> None
      | Some challenge \<Rightarrow>
          if challenge = [] then None
          else if form_get params ''code_verifier'' = [] then Some (''invalid_request'', ''code_verifier required for PKCE'')
          else if \<not> VerifyCodeChallenge e (form_get params ''code_verifier'') challenge (case cd_method c of Some m \<Rightarrow> m | None \<Rightarrow> ''S256'')
          then Some (''invalid_grant'', ''Invalid code verifier'') else None)"

definition code_check :: "oauth_env \<Rightarrow> oauth_config \<Rightarrow> http_request \<Rightarrow> (string \<times> string) list \<Rightarrow> (auth_code \<Rightarrow> string option \<Rightarrow> oauth_handler) \<Rightarrow> oauth_handler" where
  "code_check e cfg rq params next =
     (let get = form_get params in
      if get ''code'' = [] then bad_request ''invalid_request'' ''code is required''
      else if get ''client_id'' = [] then bad_request ''invalid_request'' ''client_id is required''
      else if get ''redirect_uri'' = [] then bad_request ''invalid_request'' ''redirect_uri is required''
      else tried (Clients_Get (get ''client_id'')) (\<lambda>_. server_error ''Database error'') (\<lambda>client.
        case client of
          None \<Rightarrow> writeOAuthError 401 ''invalid_client'' ''Client not found''
        | Some _ \<Rightarrow>
            tried (Codes_Get (get ''code'')) (\<lambda>_. server_error ''Database error'') (\<lambda>found w.
              (case found of
                None \<Rightarrow> bad_request ''invalid_grant'' ''Invalid authorization code''
              | Some c \<Rightarrow>
                  (case code_error e (ow_now w) params c of
                     Some (code, description) \<Rightarrow> bad_request code description
                   | None \<Rightarrow> tried (validateDPoP e cfg rq) (\<lambda>x. bad_request ''invalid_dpop_proof'' x) (next c))) w)))"

definition code_issue :: "oauth_config \<Rightarrow> (string \<times> string) list \<Rightarrow> auth_code \<Rightarrow> string option \<Rightarrow> oauth_handler" where
  "code_issue cfg params c jkt =
     tried (Codes_MarkUsed (form_get params ''code'')) (\<lambda>_. server_error ''Database error'') (\<lambda>_.
       issue_tokens cfg (form_get params ''client_id'') (cd_user c) (cd_session c) (cd_scope c) jkt)"

definition handleAuthorizationCodeGrant :: "oauth_env \<Rightarrow> oauth_config \<Rightarrow> http_request \<Rightarrow> (string \<times> string) list \<Rightarrow> oauth_handler" where
  "handleAuthorizationCodeGrant e cfg rq params = code_check e cfg rq params (code_issue cfg params)"

definition refresh_error :: "int \<Rightarrow> (string \<times> string) list \<Rightarrow> refresh_token \<Rightarrow> (string \<times> string) option" where
  "refresh_error now params r =
     (if rt_revoked r then Some (''invalid_grant'', ''Refresh token revoked'')
      else if refresh_past now r then Some (''invalid_grant'', ''Refresh token expired'')
      else if rt_client r \<noteq> form_get params ''client_id'' then Some (''invalid_grant'', ''Client ID mismatch'') else None)"

definition handleRefreshTokenGrant :: "oauth_env \<Rightarrow> oauth_config \<Rightarrow> http_request \<Rightarrow> (string \<times> string) list \<Rightarrow> oauth_handler" where
  "handleRefreshTokenGrant e cfg rq params =
     (let get = form_get params in
      if get ''refresh_token'' = [] then bad_request ''invalid_request'' ''refresh_token is required''
      else if get ''client_id'' = [] then bad_request ''invalid_request'' ''client_id is required''
      else tried (Clients_Get (get ''client_id'')) (\<lambda>_. server_error ''Database error'') (\<lambda>client.
        case client of
          None \<Rightarrow> writeOAuthError 401 ''invalid_client'' ''Client not found''
        | Some _ \<Rightarrow>
            tried (RefreshTokens_Get (get ''refresh_token'')) (\<lambda>_. server_error ''Database error'') (\<lambda>found w.
              (case found of
                None \<Rightarrow> bad_request ''invalid_grant'' ''Invalid refresh token''
              | Some r \<Rightarrow>
                  (case refresh_error (ow_now w) params r of
                     Some (code, description) \<Rightarrow> bad_request code description
                   | None \<Rightarrow>
                       tried (validateDPoP e cfg rq) (\<lambda>x. bad_request ''invalid_dpop_proof'' x) (\<lambda>jkt.
                       tried (RefreshTokens_Revoke (get ''refresh_token'')) (\<lambda>_. server_error ''Database error'') (\<lambda>_.
                         issue_tokens cfg (get ''client_id'') (rt_user r) (rt_session r) (rt_scope r) jkt)))) w)))"

definition HandleToken :: "oauth_env \<Rightarrow> oauth_config \<Rightarrow> http_request \<Rightarrow> oauth_handler" where
  "HandleToken e cfg rq =
     (if hq_method rq \<noteq> ''POST'' then respond (NotAllowed [''POST''])
      else case hq_form rq of
        None \<Rightarrow> bad_request ''invalid_request'' ''Failed to parse form data''
      | Some params \<Rightarrow>
          if form_get params ''grant_type'' = ''authorization_code'' then handleAuthorizationCodeGrant e cfg rq params
          else if form_get params ''grant_type'' = ''refresh_token'' then handleRefreshTokenGrant e cfg rq params
          else bad_request ''unsupported_grant_type'' (''Unsupported grant_type: '' @ form_get params ''grant_type''))"

definition HandleRevoke :: "http_request \<Rightarrow> oauth_handler" where
  "HandleRevoke rq =
     (if hq_method rq \<noteq> ''POST'' then respond (NotAllowed [''POST''])
      else case hq_form rq of
        None \<Rightarrow> bad_request ''invalid_request'' ''Failed to parse form data''
      | Some params \<Rightarrow>
          let token = form_get params ''token'' in
          if token = [] then bad_request ''invalid_request'' ''token is required''
          else ignoring (AccessTokens_Revoke token) (ignoring (RefreshTokens_Revoke token) (respond Empty200)))"

text \<open>One tick of \<open>StartCleanupWorker\<close>.\<close>

definition cleanup :: "oauth_world \<Rightarrow> oauth_world" where
  "cleanup w =
     (let now = ow_now w; run = (\<lambda>m :: unit om. \<lambda>w. snd (m w)) in
      run (JTI_DeleteOlderThan (now - 3600)) (run (AccessTokens_DeleteExpired now) (run (Codes_DeleteExpired now)
        (run (ATPRequests_DeleteExpired now) (run (AuthRequests_DeleteExpired now) w)))))"

section \<open>Pushed requests\<close>

definition json_object :: "(string \<times> string) list \<Rightarrow> string" where
  "json_object members = ''{'' @ join_with '','' (map (\<lambda>(k, v). json_string k @ '':'' @ json_string v) members) @ ''}''"

text \<open>\<open>json.Marshal\<close> sorts the keys of a map; absent parameters have no entry.\<close>

definition pushed_request :: "(string \<times> string) list \<Rightarrow> string" where
  "pushed_request params =
     json_object (filter (\<lambda>p. snd p \<noteq> [] \<or> fst p \<in> {''client_id'', ''redirect_uri'', ''response_type''})
       (map (\<lambda>k. (k, form_get params k)) [''client_id'', ''code_challenge'', ''code_challenge_method'', ''login_hint'', ''nonce'', ''redirect_uri'', ''response_type'', ''scope'', ''state'']))"

text \<open>\<open>randomString\<close> ignores a failing source: the buffer is then zero.\<close>

definition randomString :: "nat \<Rightarrow> (string \<Rightarrow> oauth_handler) \<Rightarrow> oauth_handler" where
  "randomString n h = tried generateRandomToken (\<lambda>_. h (b64_raw (replicate n (char_of (0 :: nat))))) h"

definition HandlePAR :: "http_request \<Rightarrow> oauth_handler" where
  "HandlePAR rq =
     (if hq_method rq \<noteq> ''POST'' then respond (ErrorAnswer 405 ''invalid_request'' ''Method not allowed'')
      else case hq_form rq of
        None \<Rightarrow> bad_request ''invalid_request'' ''Failed to parse form data''
      | Some params \<Rightarrow>
          let clientID = form_get params ''client_id'' in
          if clientID = [] then bad_request ''invalid_request'' ''client_id is required''
          else tried (Clients_Get clientID) (\<lambda>_. server_error ''Database error'') (\<lambda>client.
            case client of
              None \<Rightarrow> writeOAuthError 401 ''invalid_client'' ''Client not found''
            | Some _ \<Rightarrow>
                if form_get params ''response_type'' = [] then bad_request ''invalid_request'' ''response_type is required''
                else if form_get params ''redirect_uri'' = [] then bad_request ''invalid_request'' ''redirect_uri is required''
                else randomString 32 (\<lambda>r w.
                  let uri = ''urn:ietf:params:oauth:request_uri:'' @ r in
                  tried (PAR_Insert \<lparr>pr_uri = uri, pr_request = pushed_request params, pr_client = clientID, pr_created_at = ow_now w,
                      pr_expires_at = ow_now w + 60, pr_subject = None, pr_metadata = ''{}''\<rparr>)
                    (\<lambda>_. server_error ''Failed to store PAR request'') (\<lambda>_. respond (PARCreated uri 60)) w)))"

section \<open>Registration\<close>

record registration_request =
  rg_client_name :: string
  rg_redirect_uris :: "string list"
  rg_grant_types :: "string list"
  rg_response_types :: "string list"
  rg_auth_method :: string
  rg_scope :: string
  rg_application_type :: string

definition validateRedirectURI :: "oauth_env \<Rightarrow> string \<Rightarrow> unit res" where
  "validateRedirectURI e uri =
     (case ox_url e uri of
        None \<Rightarrow> Err (''Invalid URI: '' @ uri)
      | Some u \<Rightarrow>
          if url_scheme u = [] then Err (''redirect_uri must be absolute: '' @ uri)
          else if url_scheme u \<noteq> ''https'' \<and> to_lower (ox_unicode e) (url_hostname u) \<notin> {''localhost'', ''127.0.0.1'', ''[::1]''}
          then Err (''redirect_uri must use https (except for localhost): '' @ uri)
          else if url_fragment u \<noteq> [] then Err (''redirect_uri must not contain fragment: '' @ uri)
          else Ok ())"

fun validate_uris :: "oauth_env \<Rightarrow> string list \<Rightarrow> unit res" where
  "validate_uris e [] = Ok ()"
| "validate_uris e (u # us) = (case validateRedirectURI e u of Inl x \<Rightarrow> Err x | Inr _ \<Rightarrow> validate_uris e us)"

definition parseGrantTypes :: "string list \<Rightarrow> string list" where
  "parseGrantTypes = filter (\<lambda>t. t \<in> {''authorization_code'', ''refresh_token'', ''client_credentials''})"

definition parseResponseTypes :: "string list \<Rightarrow> string list" where
  "parseResponseTypes = filter (\<lambda>t. t \<in> {''code'', ''token''})"

definition parseAuthMethod :: "string \<Rightarrow> string" where
  "parseAuthMethod m = (if m \<in> {''client_secret_basic'', ''client_secret_post'', ''private_key_jwt''} then m else ''none'')"

definition registered_client :: "registration_request \<Rightarrow> string \<Rightarrow> string option \<Rightarrow> int \<Rightarrow> oauth_client" where
  "registered_client q clientID secret now =
     (let grants = parseGrantTypes (rg_grant_types q); responses = parseResponseTypes (rg_response_types q); m = parseAuthMethod (rg_auth_method q) in
      \<lparr>oc_id = clientID, oc_secret = secret, oc_name = (if rg_client_name q = [] then ''OAuth Client'' else rg_client_name q),
       oc_redirect_uris = rg_redirect_uris q, oc_grant_types = (if grants = [] then [''authorization_code'', ''refresh_token''] else grants),
       oc_response_types = (if responses = [] then [''code''] else responses), oc_scope = Some (if rg_scope q = [] then ''atproto'' else rg_scope q),
       oc_auth_method = m, oc_type = (if m = ''none'' then ''public'' else ''confidential''), oc_created_at = now, oc_updated_at = now, oc_metadata = [],
       oc_access_expiration = 3600, oc_refresh_expiration = 2592000, oc_require_exact = True, oc_registration_token = None, oc_jwks = None\<rparr>)"

definition with_secret :: "bool \<Rightarrow> (string option \<Rightarrow> oauth_handler) \<Rightarrow> oauth_handler" where
  "with_secret confidential h = (if confidential then randomString 32 (\<lambda>s. h (Some s)) else h None)"

text \<open>The body is the decoded JSON, None where it does not decode.\<close>

definition HandleRegister :: "oauth_env \<Rightarrow> http_request \<Rightarrow> registration_request option \<Rightarrow> oauth_handler" where
  "HandleRegister e rq body =
     (if hq_method rq \<noteq> ''POST'' then respond (ErrorAnswer 405 ''invalid_request'' ''Method not allowed'')
      else case body of
        None \<Rightarrow> bad_request ''invalid_request'' ''Invalid JSON''
      | Some q \<Rightarrow>
          if rg_redirect_uris q = [] then bad_request ''invalid_request'' ''redirect_uris cannot be empty''
          else (case validate_uris e (rg_redirect_uris q) of
                  Inl x \<Rightarrow> bad_request ''invalid_request'' x
                | Inr _ \<Rightarrow>
                    randomString 16 (\<lambda>r.
                    with_secret (parseAuthMethod (rg_auth_method q) \<noteq> ''none'') (\<lambda>secret w.
                      let client = registered_client q (''client_'' @ r) secret (ow_now w) in
                      tried (Clients_Insert client) (\<lambda>_. server_error ''Failed to store client'')
                        (\<lambda>_. respond (ClientCreated client (if rg_application_type q = [] then ''web'' else rg_application_type q))) w))))"

end
