(* ===== verification/OAuth_Safety.thy ===== *)
theory OAuth_Safety
  imports OAuth_Server
begin

text \<open>
  What the OAuth server keeps through every sequence of requests: every handler is steady, that is, it keeps each row of the codes and tokens that it found spent,
  adds rows only under keys it has drawn, and drops proof identifiers only when they are an hour old.  The locale \<open>spendable\<close> is the contract of a table
  whose rows can be spent; it is interpreted for codes, refresh and access tokens.
\<close>

section \<open>How the tables change\<close>

definition drawn :: "oauth_world \<Rightarrow> oauth_world \<Rightarrow> string \<Rightarrow> bool" where
  "drawn w0 w t = (\<exists>n. ow_drawn w0 \<le> n \<and> n < ow_drawn w \<and> ow_random w0 n = Some t)"

text \<open>Every row comes from an old one, spent if that was, or has a new key.\<close>

definition kept_rows :: "('r \<Rightarrow> string) \<Rightarrow> ('r \<Rightarrow> bool) \<Rightarrow> (string \<Rightarrow> bool) \<Rightarrow> 'r list \<Rightarrow> 'r list \<Rightarrow> bool" where
  "kept_rows key spent fresh old new = (\<forall>r\<in>set new. (\<exists>r0\<in>set old. key r0 = key r \<and> (spent r0 \<longrightarrow> spent r)) \<or> fresh (key r))"

definition later :: "oauth_world \<Rightarrow> oauth_world \<Rightarrow> bool" where
  "later w w' =
     (ow_random w' = ow_random w \<and> ow_dialect w' = ow_dialect w \<and> ow_drawn w \<le> ow_drawn w' \<and> ow_now w \<le> ow_now w'
      \<and> kept_rows cd_code cd_used (drawn w w') (ot_codes (ow_tables w)) (ot_codes (ow_tables w'))
      \<and> kept_rows rt_token rt_revoked (drawn w w') (ot_refresh (ow_tables w)) (ot_refresh (ow_tables w'))
      \<and> kept_rows tk_token tk_revoked (drawn w w') (ot_access (ow_tables w)) (ot_access (ow_tables w'))
      \<and> (\<forall>j\<in>set (ot_jtis (ow_tables w)). j \<in> set (ot_jtis (ow_tables w')) \<or> dj_created_at j < ow_now w' - 3600))"

lemma kept_rows_refl [simp]: "kept_rows key spent fresh t t"
  by (auto simp: kept_rows_def)

lemma kept_rows_trans:
  assumes "kept_rows key spent f a b" "kept_rows key spent g b c" "\<And>t. f t \<Longrightarrow> h t" "\<And>t. g t \<Longrightarrow> h t"
  shows "kept_rows key spent h a c"
  unfolding kept_rows_def
proof
  fix r assume "r \<in> set c"
  then consider (old) r1 where "r1 \<in> set b" "key r1 = key r" "spent r1 \<longrightarrow> spent r" | (new) "g (key r)" using assms(2) by (auto simp: kept_rows_def)
  then show "(\<exists>r0\<in>set a. key r0 = key r \<and> (spent r0 \<longrightarrow> spent r)) \<or> h (key r)"
  proof cases
    case old
    then have "(\<exists>r0\<in>set a. key r0 = key r1 \<and> (spent r0 \<longrightarrow> spent r1)) \<or> f (key r1)" using assms(1) old(1) unfolding kept_rows_def by blast
    then show ?thesis using old(2,3) assms(3) by auto
  qed (use assms(4) in blast)
qed

lemma kept_rows_delete: "kept_rows key spent fresh t (tbl_delete P t)"
  by (auto simp: kept_rows_def table_simps)

lemma kept_rows_update: "(\<And>r. key (f r) = key r) \<Longrightarrow> (\<And>r. spent r \<Longrightarrow> spent (f r)) \<Longrightarrow> kept_rows key spent fresh t (tbl_update P f t)"
  by (auto simp: kept_rows_def table_simps)

lemma later_refl [simp]: "later w w"
  by (simp add: later_def)

lemma drawn_mono: "drawn w w' t \<Longrightarrow> ow_drawn w' \<le> ow_drawn w'' \<Longrightarrow> drawn w w'' t"
  by (auto simp: drawn_def intro: less_le_trans)

lemma later_trans:
  assumes "later w w'" "later w' w''"
  shows "later w w''"
proof -
  have f: "drawn w w' t \<Longrightarrow> drawn w w'' t" "drawn w' w'' t \<Longrightarrow> drawn w w'' t" for t
    using assms by (auto simp: later_def drawn_def) (metis le_trans less_le_trans)+
  have k: "kept_rows key spent (drawn w w') a b \<Longrightarrow> kept_rows key spent (drawn w' w'') b c \<Longrightarrow> kept_rows key spent (drawn w w'') a c" for key spent a b c
    by (erule (1) kept_rows_trans) (use f in auto)
  have j: "j \<in> set (ot_jtis (ow_tables w'')) \<or> dj_created_at j < ow_now w'' - 3600" if "j \<in> set (ot_jtis (ow_tables w))" for j
  proof -
    have n: "ow_now w' \<le> ow_now w''" using assms(2) by (simp add: later_def)
    have "j \<in> set (ot_jtis (ow_tables w')) \<or> dj_created_at j < ow_now w' - 3600" using that assms(1) by (simp add: later_def)
    then show ?thesis using n assms(2) by (auto simp: later_def)
  qed
  note a = assms [unfolded later_def]
  show ?thesis unfolding later_def
  proof (intro conjI ballI)
    show "ow_drawn w \<le> ow_drawn w''" "ow_now w \<le> ow_now w''" using a by (blast intro: order_trans)+
    show "kept_rows cd_code cd_used (drawn w w'') (ot_codes (ow_tables w)) (ot_codes (ow_tables w''))" using a by (blast intro: k)
    show "kept_rows rt_token rt_revoked (drawn w w'') (ot_refresh (ow_tables w)) (ot_refresh (ow_tables w''))" using a by (blast intro: k)
    show "kept_rows tk_token tk_revoked (drawn w w'') (ot_access (ow_tables w)) (ot_access (ow_tables w''))" using a by (blast intro: k)
  qed (use a j in auto)
qed

section \<open>Calls that keep the tables in order\<close>

definition steady :: "(oauth_world \<Rightarrow> 'a \<times> oauth_world) \<Rightarrow> bool" where
  "steady h = (\<forall>w. later w (snd (h w)))"

named_theorems steady_intros

lemma steady_respond [steady_intros]: "steady (respond r)"
  by (simp add: steady_def respond_def)

lemma steady_tried [steady_intros]: "steady m \<Longrightarrow> (\<And>x. steady (f x)) \<Longrightarrow> (\<And>a. steady (g a)) \<Longrightarrow> steady (tried m f g)"
  unfolding steady_def
proof
  fix w assume a: "\<forall>w. later w (snd (m w))" "\<And>x. \<forall>w. later w (snd (f x w))" "\<And>a. \<forall>w. later w (snd (g a w))"
  obtain r v where r: "m w = (r, v)" by (cases "m w")
  have "later w v" using a(1) r by (metis snd_conv)
  then show "later w (snd (tried m f g w))" using a(2,3) r by (cases r) (auto simp: tried_def intro: later_trans)
qed

lemma steady_ignoring [steady_intros]: "steady m \<Longrightarrow> steady h \<Longrightarrow> steady (ignoring m h)"
  unfolding steady_def ignoring_def using later_trans by blast

lemma steady_bind [steady_intros]: "steady m \<Longrightarrow> (\<And>a. steady (f a)) \<Longrightarrow> steady (ox_bind m f)"
proof -
  have "ox_bind m f = tried m (\<lambda>x w. (Err x, w)) f" by (simp add: fun_eq_iff ox_bind_def tried_def)
  then show "steady m \<Longrightarrow> (\<And>a. steady (f a)) \<Longrightarrow> ?thesis" by (simp add: steady_tried steady_def [of "\<lambda>w. (_, w)"])
qed

lemma steady_return [steady_intros]: "steady (ox_return a)"
  by (simp add: steady_def ox_return_def)

lemma steady_pair [steady_intros]: "steady (\<lambda>w. (f w, w))"
  by (simp add: steady_def)

lemma steady_if [steady_intros]: "(b \<Longrightarrow> steady f) \<Longrightarrow> (\<not> b \<Longrightarrow> steady g) \<Longrightarrow> steady (if b then f else g)"
  by simp

lemma steady_option [steady_intros]: "(steady f) \<Longrightarrow> (\<And>a. steady (g a)) \<Longrightarrow> steady (case x of None \<Rightarrow> f | Some a \<Rightarrow> g a)"
  by (cases x) simp_all

lemma steady_sum [steady_intros]: "(\<And>a. steady (f a)) \<Longrightarrow> (\<And>a. steady (g a)) \<Longrightarrow> steady (case x of Inl a \<Rightarrow> f a | Inr a \<Rightarrow> g a)"
  by (cases x) simp_all

lemma steady_prod [steady_intros]: "(\<And>a b. steady (f a b)) \<Longrightarrow> steady (case x of (a, b) \<Rightarrow> f a b)"
  by (cases x) simp

text \<open>A handler that looks at the world it starts in.\<close>

lemma steady_at: "(\<And>v. steady (h v)) \<Longrightarrow> steady (\<lambda>w. h w w)"
  by (simp add: steady_def)

lemma later_tables:
  assumes "ow_random w' = ow_random w" "ow_dialect w' = ow_dialect w" "ow_drawn w' = ow_drawn w" "ow_now w' = ow_now w"
    "kept_rows cd_code cd_used (drawn w w') (ot_codes (ow_tables w)) (ot_codes (ow_tables w'))"
    "kept_rows rt_token rt_revoked (drawn w w') (ot_refresh (ow_tables w)) (ot_refresh (ow_tables w'))"
    "kept_rows tk_token tk_revoked (drawn w w') (ot_access (ow_tables w)) (ot_access (ow_tables w'))"
    "\<forall>j\<in>set (ot_jtis (ow_tables w)). j \<in> set (ot_jtis (ow_tables w')) \<or> dj_created_at j < ow_now w' - 3600"
  shows "later w w'"
  using assms unfolding later_def by simp

lemma ox_exec_cases:
  obtains (same) "snd (ox_exec f w) = w\<lparr>ow_faults := tl (ow_faults w)\<rparr>" "\<exists>x. fst (ox_exec f w) = Err x"
  | (ran) a t where "f (ow_dialect w) (ow_tables w) = Ok (a, t)" "ox_exec f w = (Ok a, w\<lparr>ow_faults := tl (ow_faults w), ow_tables := t\<rparr>)"
proof (cases "ow_faults w")
  case Nil
  then show ?thesis using that by (cases "f (ow_dialect w) (ow_tables w)") (auto simp: ox_exec_def)
next
  case (Cons a list)
  then show ?thesis using that by (cases a; cases "f (ow_dialect w) (ow_tables w)") (auto simp: ox_exec_def)
qed

lemma steady_exec:
  assumes "\<And>D t a t'. f D t = Ok (a, t') \<Longrightarrow> kept_rows cd_code cd_used (\<lambda>_. False) (ot_codes t) (ot_codes t')
      \<and> kept_rows rt_token rt_revoked (\<lambda>_. False) (ot_refresh t) (ot_refresh t') \<and> kept_rows tk_token tk_revoked (\<lambda>_. False) (ot_access t) (ot_access t')
      \<and> set (ot_jtis t) \<subseteq> set (ot_jtis t')"
  shows "steady (ox_exec f)"
  unfolding steady_def
proof
  fix w
  have k: "kept_rows key spent (\<lambda>_. False) a b \<Longrightarrow> kept_rows key spent g a b" for key spent g a b by (auto simp: kept_rows_def)
  show "later w (snd (ox_exec f w))"
  proof (cases rule: ox_exec_cases [of f w])
    case same
    show ?thesis unfolding same(1) by (rule later_tables) simp_all
  next
    case (ran a t)
    then show ?thesis using assms [OF ran(1)] k by (intro later_tables) (auto simp: k)
  qed
qed

lemmas oauth_statements = with_boolean_def scan_boolean_def scan_booleans_def query_def modify_def add_row_def

text \<open>Statements that insert no code and no token.\<close>

lemma steady_statements [steady_intros]:
  "steady (Codes_Get a)" "steady (Codes_MarkUsed a)" "steady (Codes_DeleteExpired i)" "steady (AccessTokens_Get a)" "steady (AccessTokens_Revoke a)"
  "steady (AccessTokens_DeleteExpired i)" "steady (RefreshTokens_Get a)" "steady (RefreshTokens_Revoke a)" "steady (JTI_Insert j)" "steady (JTI_Exists a)"
  "steady (PAR_Insert p)" "steady (AuthRequests_Insert q)" "steady (AuthRequests_Get a)" "steady (AuthRequests_Delete a)" "steady (AuthRequests_DeleteExpired i)"
  "steady (ATPRequests_Insert r)" "steady (ATPRequests_Get a)" "steady (ATPRequests_Delete a)" "steady (ATPRequests_DeleteExpired i)" "steady (ATPSessions_Insert s)"
  "steady (ATPSessions_GetLatest a)" "steady (ATPSessions_Update s)" "steady (Clients_Insert c)" "steady (Clients_Get a)" "steady (Clients_Update c)" "steady (Clients_Delete a)"
  unfolding Codes_Get_def Codes_MarkUsed_def Codes_DeleteExpired_def AccessTokens_Get_def AccessTokens_Revoke_def AccessTokens_DeleteExpired_def
    RefreshTokens_Get_def RefreshTokens_Revoke_def JTI_Insert_def JTI_Exists_def PAR_Insert_def AuthRequests_Insert_def AuthRequests_Get_def
    AuthRequests_Delete_def AuthRequests_DeleteExpired_def ATPRequests_Insert_def ATPRequests_Get_def ATPRequests_Delete_def
    ATPRequests_DeleteExpired_def ATPSessions_Insert_def ATPSessions_GetLatest_def ATPSessions_Update_def Clients_Insert_def Clients_Get_def
    Clients_Update_def Clients_Delete_def
  by (rule steady_exec, force simp: oauth_statements intro: kept_rows_delete kept_rows_update split: if_splits option.splits)+

lemma steady_draw [steady_intros]: "steady generateRandomToken"
  by (auto simp: steady_def generateRandomToken_def later_def Let_def split: option.splits)

section \<open>New codes and tokens\<close>

lemma ox_exec_env:
  "ow_random (snd (ox_exec f w)) = ow_random w" "ow_dialect (snd (ox_exec f w)) = ow_dialect w" "ow_drawn (snd (ox_exec f w)) = ow_drawn w"
  "ow_now (snd (ox_exec f w)) = ow_now w"
  by (cases rule: ox_exec_cases [of f w]; simp)+

lemma kept_rows_fresh: "fresh (key r) \<Longrightarrow> kept_rows key spent fresh t (t @ [r])"
  by (auto simp: kept_rows_def)

text \<open>An insertion whose key was drawn since \<open>w0\<close>.\<close>

lemma later_insert:
  assumes "later w0 w" "kept_rows cd_code cd_used (drawn w0 w) (ot_codes (ow_tables w)) (ot_codes t)"
    "kept_rows rt_token rt_revoked (drawn w0 w) (ot_refresh (ow_tables w)) (ot_refresh t)" "kept_rows tk_token tk_revoked (drawn w0 w) (ot_access (ow_tables w)) (ot_access t)"
    "ot_jtis t = ot_jtis (ow_tables w)"
  shows "later w0 (w\<lparr>ow_faults := fs, ow_tables := t\<rparr>)"
proof -
  have d: "drawn w0 (w\<lparr>ow_faults := fs, ow_tables := t\<rparr>) = drawn w0 w" by (simp add: drawn_def fun_eq_iff)
  have k: "kept_rows key spent (drawn w0 w) a b \<Longrightarrow> kept_rows key spent (drawn w0 w) b c \<Longrightarrow> kept_rows key spent (drawn w0 w) a c" for key spent a b c
    by (erule (1) kept_rows_trans)
  show ?thesis using assms unfolding later_def d by (auto intro: k)
qed

lemma later_exec:
  assumes "later w0 w" "\<And>a t fs. f (ow_dialect w) (ow_tables w) = Ok (a, t) \<Longrightarrow> later w0 (w\<lparr>ow_faults := fs, ow_tables := t\<rparr>)"
  shows "later w0 (snd (ox_exec f w))"
proof (cases rule: ox_exec_cases [of f w])
  case same
  have "later w (w\<lparr>ow_faults := fs\<rparr>)" for fs by (rule later_tables) simp_all
  then show ?thesis using assms(1) same(1) later_trans by metis
next
  case (ran a t)
  then show ?thesis using assms(2) [OF ran(1)] by simp
qed

lemma later_inserts:
  assumes "later w0 w"
  shows "drawn w0 w (cd_code c) \<Longrightarrow> later w0 (snd (Codes_Insert c w))"
    "drawn w0 w (tk_token a) \<Longrightarrow> later w0 (snd (AccessTokens_Insert a w))"
    "drawn w0 w (rt_token r) \<Longrightarrow> later w0 (snd (RefreshTokens_Insert r w))"
  unfolding Codes_Insert_def AccessTokens_Insert_def RefreshTokens_Insert_def
  by (rule later_exec [OF assms], auto simp: oauth_statements split: if_splits intro!: later_insert [OF assms] kept_rows_fresh)+

lemma draw_Ok:
  assumes "generateRandomToken w = (Inr t, w')"
  shows "drawn w w' t" "w' = w\<lparr>ow_drawn := Suc (ow_drawn w)\<rparr>"
  using assms by (auto simp: generateRandomToken_def Let_def drawn_def split: option.splits)

lemma later_tried:
  assumes "later w0 (snd (m w))" "\<And>x w'. m w = (Inl x, w') \<Longrightarrow> later w0 w' \<Longrightarrow> later w0 (snd (f x w'))"
    "\<And>a w'. m w = (Inr a, w') \<Longrightarrow> later w0 w' \<Longrightarrow> later w0 (snd (g a w'))"
  shows "later w0 (snd (tried m f g w))"
proof (cases "m w")
  case (Pair r w')
  then show ?thesis using assms by (cases r) (auto simp: tried_def)
qed

lemma steady_later: "steady h \<Longrightarrow> later w0 w \<Longrightarrow> later w0 (snd (h w))"
  unfolding steady_def using later_trans by blast

lemma exec_drawn: "ox_exec f w = (r, w') \<Longrightarrow> drawn w0 w' = drawn w0 w"
  using ox_exec_env(3) [of f w] by (simp add: drawn_def fun_eq_iff)

lemma inserts_drawn: "AccessTokens_Insert a w = (r, w') \<Longrightarrow> drawn w0 w' = drawn w0 w"
  unfolding AccessTokens_Insert_def by (rule exec_drawn)

lemma steady_errors [steady_intros]:
  "steady (writeOAuthError status code description)" "steady (redirectWithError e uri code description state)"
  by (simp_all add: writeOAuthError_def redirectWithError_def steady_intros)

lemma later_draw:
  assumes "later w0 w" "\<And>x w'. later w0 w' \<Longrightarrow> later w0 (snd (f x w'))"
    "\<And>t w'. later w0 w' \<Longrightarrow> drawn w0 w' t \<Longrightarrow> (\<And>s. drawn w0 w s \<Longrightarrow> drawn w0 w' s) \<Longrightarrow> later w0 (snd (g t w'))"
  shows "later w0 (snd (tried generateRandomToken f g w))"
proof (rule later_tried)
  show "later w0 (snd (generateRandomToken w))" by (rule steady_later [OF steady_draw assms(1)])
  fix t w' assume g: "generateRandomToken w = (Inr t, w')" "later w0 w'"
  note d = draw_Ok [OF g(1)]
  have "drawn w0 w' t" using d assms(1) by (auto simp: drawn_def later_def) (metis le_trans)
  moreover have "drawn w0 w s \<Longrightarrow> drawn w0 w' s" for s using d(2) by (auto simp: drawn_def)
  ultimately show "later w0 (snd (g t w'))" using assms(3) g(2) by blast
qed (rule assms(2))

lemma steady_issue_tokens [steady_intros]: "steady (issue_tokens cfg clientID user session scope jkt)"
  unfolding steady_def issue_tokens_def
proof
  fix w0
  note s = steady_later [OF steady_errors(1)]
  show "later w0 (snd (tried generateRandomToken (\<lambda>_. server_error ''Failed to generate access token'') (\<lambda>access.
     tried generateRandomToken (\<lambda>_. server_error ''Failed to generate refresh token'') (\<lambda>refresh.
     tried (AccessTokens_Insert (new_access cfg clientID user session scope jkt (ow_now w0) access)) (\<lambda>_. server_error ''Failed to store access token'') (\<lambda>_.
     tried (RefreshTokens_Insert (new_refresh cfg clientID user session scope (ow_now w0) access refresh)) (\<lambda>_. server_error ''Failed to store refresh token'') (\<lambda>_.
     respond (TokenAnswer \<lparr>tr_access = access, tr_type = token_type jkt, tr_expires_in = cf_access_lifetime cfg, tr_refresh = refresh, tr_scope = scope,
       tr_sub = user\<rparr>))))) w0))"
    by (rule later_draw [OF later_refl s], assumption, rule later_draw, assumption, erule s, rule later_tried)
      (auto simp: new_access_def new_refresh_def inserts_drawn intro!: later_inserts later_tried s steady_later [OF steady_respond])
qed

lemma steady_issue_code [steady_intros]: "steady (issue_code e cfg atpState sessionID t r clientState)"
  unfolding steady_def issue_code_def Let_def
proof
  fix w0
  note s = steady_later [OF steady_errors(2)]
  have k: "steady (ignoring (ATPRequests_Delete atpState) (ignoring (AuthRequests_Delete sessionID)
        (if ox_url e (ar_redirect_uri r) = None then respond Panicked
         else respond (RedirectTo (ar_redirect_uri r) ((''code'', code) # (if clientState \<noteq> [] then [(''state'', clientState)] else []))))))" for code
    by (intro steady_intros)
  show "later w0 (snd (tried generateRandomToken (\<lambda>_. redirectWithError e (ar_redirect_uri r) ''server_error'' ''Failed to generate authorization code'' clientState) (\<lambda>code.
      tried (Codes_Insert (new_code cfg code sessionID t r (ow_now w0))) (\<lambda>_. redirectWithError e (ar_redirect_uri r) ''server_error'' ''Failed to store authorization code'' clientState) (\<lambda>_.
      ignoring (ATPRequests_Delete atpState) (ignoring (AuthRequests_Delete sessionID)
        (if ox_url e (ar_redirect_uri r) = None then respond Panicked
         else respond (RedirectTo (ar_redirect_uri r) ((''code'', code) # (if clientState \<noteq> [] then [(''state'', clientState)] else []))))))) w0))"
    by (rule later_draw [OF later_refl s], assumption, rule later_tried, rule later_inserts, assumption, simp add: new_code_def, rule s, assumption,
        rule steady_later [OF k])
qed

lemma steady_random [steady_intros]: "(\<And>s. steady (h s)) \<Longrightarrow> steady (randomString n h)"
  unfolding randomString_def by (intro steady_intros)

lemma steady_secret [steady_intros]: "(\<And>s. steady (h s)) \<Longrightarrow> steady (with_secret b h)"
  unfolding with_secret_def by (intro steady_intros)

lemma steady_authorize [steady_intros]: "steady (HandleAuthorize e cfg rq)"
proof -
  have u: "steady (start_upstream e cfg redirectURI state did server sessionID scope)" for redirectURI state did server sessionID scope
    unfolding start_upstream_def Let_def by (rule steady_at, intro steady_intros)
  have "steady (authorize_client e cfg params client)" for params client
    unfolding authorize_client_def Let_def by (rule steady_at, intro steady_intros u)
  then show ?thesis unfolding HandleAuthorize_def Let_def by (intro steady_intros)
qed

lemma steady_callback [steady_intros]: "steady (HandleCallback e cfg rq)"
  unfolding HandleCallback_def update_session_def Let_def
  by (intro steady_intros) (rule steady_at, intro steady_intros, rule steady_at, intro steady_intros)

lemma steady_dpop [steady_intros]: "steady (validateDPoP e cfg rq)"
proof -
  have "validateDPoP e cfg rq = (\<lambda>w. (if hq_dpop rq = [] then ox_return None
      else case VerifyDPoPProof e (hq_dpop rq) ''POST'' (cf_base_url cfg @ ''/oauth/token'') DefaultMaxDPoPAge (ow_now w) of
        Inl x \<Rightarrow> (\<lambda>w. (Err x, w))
      | Inr p \<Rightarrow>
          ox_bind (JTI_Exists (dp_jti p)) (\<lambda>used.
            if used then (\<lambda>w. (Err (ae_code ErrDPoPReplay @ '': '' @ ae_description ErrDPoPReplay), w))
            else ox_bind (JTI_Insert \<lparr>dj_jti = dp_jti p, dj_created_at = dp_iat p\<rparr>) (\<lambda>_. ox_return (Some (dp_jkt p))))) w)"
    by (auto simp: fun_eq_iff validateDPoP_def ox_return_def split: sum.splits)
  then show ?thesis by (simp only:) (rule steady_at, intro steady_intros)
qed

lemma steady_token [steady_intros]: "steady (HandleToken e cfg rq)"
proof -
  have c: "steady (handleAuthorizationCodeGrant e cfg rq params)" for params
    unfolding handleAuthorizationCodeGrant_def code_check_def code_issue_def Let_def by (intro steady_intros) (rule steady_at, intro steady_intros)
  have r: "steady (handleRefreshTokenGrant e cfg rq params)" for params
    unfolding handleRefreshTokenGrant_def Let_def by (intro steady_intros) (rule steady_at, intro steady_intros)
  show ?thesis unfolding HandleToken_def by (intro steady_intros c r)
qed

lemma steady_others [steady_intros]: "steady (HandleRevoke rq)" "steady (HandlePAR rq)" "steady (HandleRegister e rq body)" "steady (validateBearerToken token)"
  unfolding HandleRevoke_def HandlePAR_def HandleRegister_def validateBearerToken_def Let_def
  by (intro steady_intros; (rule steady_at, intro steady_intros)?)+

lemma steady_validate [steady_intros]: "steady (ValidateRequest e m rq)"
proof -
  have "steady (validateDPoPToken e m rq token)" for token
    unfolding steady_def validateDPoPToken_def
    by (auto split: sum.splits intro!: steady_intros steady_later [OF _ later_refl])
  then show ?thesis unfolding ValidateRequest_def by (intro steady_intros)
qed

lemma later_cleanup: "later w (cleanup w)"
proof -
  have j: "later w (snd (JTI_DeleteOlderThan (ow_now w - 3600) v))" if "later w v" "ow_now v = ow_now w" for v
    unfolding JTI_DeleteOlderThan_def
    by (rule later_exec [OF that(1)], rule later_trans [OF that(1)], rule later_tables)
      (auto simp: modify_def table_simps that(2))
  show ?thesis unfolding cleanup_def Let_def
  proof (rule j)
    show "later w (snd (AccessTokens_DeleteExpired (ow_now w) (snd (Codes_DeleteExpired (ow_now w) (snd (ATPRequests_DeleteExpired (ow_now w)
        (snd (AuthRequests_DeleteExpired (ow_now w) w))))))))" by (intro steady_later steady_statements later_refl)
  qed (simp add: AccessTokens_DeleteExpired_def Codes_DeleteExpired_def ATPRequests_DeleteExpired_def AuthRequests_DeleteExpired_def ox_exec_env)
qed

section \<open>The life of the server\<close>

text \<open>Requests, administration, clean-up, passing time and any pattern of failing statements, in any order.\<close>

inductive oauth_step :: "oauth_env \<Rightarrow> oauth_config \<Rightarrow> oauth_world \<Rightarrow> oauth_world \<Rightarrow> bool" for e cfg where
  step_authorize: "oauth_step e cfg w (snd (HandleAuthorize e cfg rq w))"
| step_callback: "oauth_step e cfg w (snd (HandleCallback e cfg rq w))"
| step_token: "oauth_step e cfg w (snd (HandleToken e cfg rq w))"
| step_revoke: "oauth_step e cfg w (snd (HandleRevoke rq w))"
| step_par: "oauth_step e cfg w (snd (HandlePAR rq w))"
| step_register: "oauth_step e cfg w (snd (HandleRegister e rq body w))"
| step_authenticate: "oauth_step e cfg w (snd (ValidateRequest e m rq w))"
| step_update_client: "oauth_step e cfg w (snd (Clients_Update c w))"
| step_delete_client: "oauth_step e cfg w (snd (Clients_Delete i w))"
| step_cleanup: "oauth_step e cfg w (cleanup w)"
| step_time: "ow_now w \<le> t \<Longrightarrow> oauth_step e cfg w (w\<lparr>ow_now := t\<rparr>)"
| step_faults: "oauth_step e cfg w (w\<lparr>ow_faults := fs\<rparr>)"

abbreviation oauth_run :: "oauth_env \<Rightarrow> oauth_config \<Rightarrow> oauth_world \<Rightarrow> oauth_world \<Rightarrow> bool" where
  "oauth_run e cfg \<equiv> (oauth_step e cfg)\<^sup>*\<^sup>*"

lemma step_later: "oauth_step e cfg w w' \<Longrightarrow> later w w'"
proof (induction rule: oauth_step.induct)
  case (step_time w t)
  then show ?case by (auto simp: later_def)
next
  case (step_faults w fs)
  show ?case by (simp add: later_def)
qed (auto intro: steady_later [OF _ later_refl] steady_intros later_cleanup)

lemma run_later: "oauth_run e cfg w w' \<Longrightarrow> later w w'"
  by (induction rule: rtranclp_induct) (auto intro: later_trans step_later)

text \<open>A key is never drawn again: random tokens do not repeat.\<close>

definition never_again :: "oauth_world \<Rightarrow> string \<Rightarrow> bool" where
  "never_again w k = (\<forall>n\<ge>ow_drawn w. ow_random w n \<noteq> Some k)"

locale spendable =
  fixes rows :: "oauth_tables \<Rightarrow> 'r list" and key :: "'r \<Rightarrow> string" and spent :: "'r \<Rightarrow> bool"
  assumes kept: "later w w' \<Longrightarrow> kept_rows key spent (drawn w w') (rows (ow_tables w)) (rows (ow_tables w'))"
begin

definition gone :: "string \<Rightarrow> oauth_world \<Rightarrow> bool" where
  "gone k w = (\<forall>r\<in>set (rows (ow_tables w)). key r = k \<longrightarrow> spent r)"

lemma gone_later:
  assumes "gone k w" "later w w'" "never_again w k"
  shows "gone k w'"
  unfolding gone_def
proof (intro ballI impI)
  fix r assume r: "r \<in> set (rows (ow_tables w'))" "key r = k"
  from kept [OF assms(2)] r consider r0 where "r0 \<in> set (rows (ow_tables w))" "key r0 = k" "spent r0 \<longrightarrow> spent r" | "drawn w w' k"
    by (auto simp: kept_rows_def)
  then show "spent r"
  proof cases
    case 1
    then show ?thesis using assms(1) by (auto simp: gone_def)
  next
    case 2
    then show ?thesis using assms(3) by (auto simp: drawn_def never_again_def)
  qed
qed

lemma gone_found: "gone k w \<Longrightarrow> tbl_find key k (rows (ow_tables w)) = Some r \<Longrightarrow> spent r"
  by (auto simp: gone_def dest: tbl_find_Some)

lemma gone_update: "(\<And>r. spent (f r)) \<Longrightarrow> rows t = tbl_update (\<lambda>r. key r = k) f t0 \<Longrightarrow> (\<And>r. key (f r) = key r) \<Longrightarrow> ow_tables w = t \<Longrightarrow> gone k w"
  by (auto simp: gone_def table_simps)

end

interpretation codes: spendable ot_codes cd_code cd_used
  by unfold_locales (simp add: later_def)

interpretation refreshes: spendable ot_refresh rt_token rt_revoked
  by unfold_locales (simp add: later_def)

interpretation accesses: spendable ot_access tk_token tk_revoked
  by unfold_locales (simp add: later_def)

section \<open>Spending\<close>

lemma tried_cases:
  assumes "tried m f g w = (r, w')"
  obtains (failed) x v where "m w = (Inl x, v)" "f x v = (r, w')" | (passed) a v where "m w = (Inr a, v)" "g a v = (r, w')"
  using assms by (auto simp: tried_def split: prod.splits sum.splits)

lemma error_not_tokens [simp]:
  "writeOAuthError status code description w = (TokenAnswer t, w') \<longleftrightarrow> False" "respond (NotAllowed ms) w = (TokenAnswer t, w') \<longleftrightarrow> False"
  by (simp_all add: writeOAuthError_def respond_def)

lemma exec_Ok: "ox_exec f w = (Inr a, w') \<Longrightarrow> \<exists>t. f (ow_dialect w) (ow_tables w) = Ok (a, t) \<and> w' = w\<lparr>ow_faults := tl (ow_faults w), ow_tables := t\<rparr>"
  by (cases rule: ox_exec_cases [of f w]) auto

lemma query_Ok: "ox_exec (query f) w = (Inr a, v) \<Longrightarrow> a = f (ow_tables w) \<and> v = w\<lparr>ow_faults := tl (ow_faults w)\<rparr>"
  by (drule exec_Ok) (auto simp: query_def)

lemma scan_Ok: "ox_exec (scan_boolean f) w = (Inr a, v) \<Longrightarrow> a = f (ow_tables w) \<and> v = w\<lparr>ow_faults := tl (ow_faults w)\<rparr> \<and> (a \<noteq> None \<longrightarrow> ow_dialect w = SQLite)"
  by (drule exec_Ok) (auto simp: scan_boolean_def dialect.exhaust split: option.splits if_splits intro: dialect.exhaust)

lemma boolean_Ok: "ox_exec (with_boolean f) w = (Inr a, v) \<Longrightarrow> ow_dialect w = SQLite \<and> (\<exists>t. f SQLite (ow_tables w) = Ok (a, t) \<and> v = w\<lparr>ow_faults := tl (ow_faults w), ow_tables := t\<rparr>)"
  by (drule exec_Ok, cases "ow_dialect w") (auto simp: with_boolean_def)

text \<open>What a token answer says of the request.\<close>

lemma code_grant_cases:
  assumes "handleAuthorizationCodeGrant e cfg rq params w = (TokenAnswer t, w')"
  obtains c jkt fs v where "tbl_find cd_code (form_get params ''code'') (ot_codes (ow_tables w)) = Some c" "ow_dialect w = SQLite"
    "tbl_find oc_id (form_get params ''client_id'') (ot_clients (ow_tables w)) \<noteq> None" "code_error e (ow_now w) params c = None"
    "validateDPoP e cfg rq (w\<lparr>ow_faults := fs\<rparr>) = (Inr jkt, v)" "code_issue cfg params c jkt v = (TokenAnswer t, w')"
  using assms unfolding handleAuthorizationCodeGrant_def code_check_def Let_def Clients_Get_def Codes_Get_def
  by (auto split: if_splits option.splits elim!: tried_cases dest!: query_Ok scan_Ok)

lemma refresh_grant_cases:
  assumes "handleRefreshTokenGrant e cfg rq params w = (TokenAnswer t, w')"
  obtains r jkt fs v v' where "tbl_find rt_token (form_get params ''refresh_token'') (ot_refresh (ow_tables w)) = Some r" "ow_dialect w = SQLite"
    "refresh_error (ow_now w) params r = None" "validateDPoP e cfg rq (w\<lparr>ow_faults := fs\<rparr>) = (Inr jkt, v)"
    "RefreshTokens_Revoke (form_get params ''refresh_token'') v = (Inr (), v')"
    "issue_tokens cfg (form_get params ''client_id'') (rt_user r) (rt_session r) (rt_scope r) jkt v' = (TokenAnswer t, w')"
  using assms unfolding handleRefreshTokenGrant_def Let_def Clients_Get_def RefreshTokens_Get_def
  by (auto split: if_splits option.splits elim!: tried_cases dest!: query_Ok scan_Ok)

lemma draw_tables: "generateRandomToken w = (Inr a, v) \<Longrightarrow> v = w\<lparr>ow_drawn := Suc (ow_drawn w)\<rparr> \<and> ow_random w (ow_drawn w) = Some a"
  by (auto simp: generateRandomToken_def Let_def split: option.splits)

lemma issue_tokens_Ok:
  assumes "issue_tokens cfg clientID user session scope jkt w = (TokenAnswer t, w')"
  shows "ow_tables w' = (ow_tables w)\<lparr>ot_access := ot_access (ow_tables w) @ [new_access cfg clientID user session scope jkt (ow_now w) (tr_access t)],
      ot_refresh := ot_refresh (ow_tables w) @ [new_refresh cfg clientID user session scope (ow_now w) (tr_access t) (tr_refresh t)]\<rparr>
    \<and> t = \<lparr>tr_access = tr_access t, tr_type = token_type jkt, tr_expires_in = cf_access_lifetime cfg, tr_refresh = tr_refresh t, tr_scope = scope, tr_sub = user\<rparr>
    \<and> ow_random w' = ow_random w \<and> ow_drawn w' = Suc (Suc (ow_drawn w)) \<and> ow_dialect w' = ow_dialect w \<and> ow_now w' = ow_now w"
  using assms unfolding issue_tokens_def AccessTokens_Insert_def RefreshTokens_Insert_def
  by (auto elim!: tried_cases dest!: draw_tables boolean_Ok simp: add_row_def respond_def split: if_splits)

lemma JTI_Insert_Ok: "JTI_Insert j w = (Inr (), v) \<Longrightarrow> dj_jti j \<notin> dj_jti ` set (ot_jtis (ow_tables w))
    \<and> (\<exists>fs. v = w\<lparr>ow_faults := fs, ow_tables := (ow_tables w)\<lparr>ot_jtis := ot_jtis (ow_tables w) @ [j]\<rparr>\<rparr>)"
  unfolding JTI_Insert_def by (drule exec_Ok) (auto simp: add_row_def split: if_splits)

lemma validateDPoP_Ok:
  assumes "validateDPoP e cfg rq w = (Inr jkt, v)"
  shows "(hq_dpop rq = [] \<and> jkt = None \<and> v = w) \<or>
    (\<exists>p. VerifyDPoPProof e (hq_dpop rq) ''POST'' (cf_base_url cfg @ ''/oauth/token'') DefaultMaxDPoPAge (ow_now w) = Ok p \<and> jkt = Some (dp_jkt p)
      \<and> hq_dpop rq \<noteq> [] \<and> dp_jti p \<notin> dj_jti ` set (ot_jtis (ow_tables w)) \<and> (\<exists>fs. v = w\<lparr>ow_faults := fs, ow_tables := (ow_tables w)\<lparr>ot_jtis := ot_jtis (ow_tables w) @ [\<lparr>dj_jti = dp_jti p, dj_created_at = dp_iat p\<rparr>]\<rparr>\<rparr>))"
  using assms unfolding validateDPoP_def JTI_Exists_def ox_bind_def ox_return_def
  by (auto split: if_splits sum.splits prod.splits dest!: query_Ok JTI_Insert_Ok)

end
