(* ===== verification/OAuth_Guarantees.thy ===== *)
theory OAuth_Guarantees
  imports OAuth_Safety
begin

text \<open>
  What the OAuth server guarantees: grants, proofs and revocations (single use, no replay, finality), exactly which requests are authenticated, what a code
  grant has checked and stored, that signing in works from end to end, and what fails on PostgreSQL.  The sample server at the end serves the witnesses.
\<close>

section \<open>Grants\<close>

lemma code_grant_spends:
  assumes "handleAuthorizationCodeGrant e cfg rq params w = (TokenAnswer t, w')"
  shows "codes.gone (form_get params ''code'') w'"
proof (rule code_grant_cases [OF assms])
  fix c jkt v assume i: "code_issue cfg params c jkt v = (TokenAnswer t, w')"
  let ?k = "form_get params ''code''"
  from i obtain v' where m: "Codes_MarkUsed ?k v = (Inr (), v')"
    and t: "issue_tokens cfg (form_get params ''client_id'') (cd_user c) (cd_session c) (cd_scope c) jkt v' = (TokenAnswer t, w')"
    unfolding code_issue_def by (auto elim!: tried_cases)
  have "ot_codes (ow_tables v') = tbl_update (\<lambda>c. cd_code c = ?k) (\<lambda>c. c\<lparr>cd_used := True\<rparr>) (ot_codes (ow_tables v))"
    using m unfolding Codes_MarkUsed_def by (auto dest!: boolean_Ok simp: modify_def)
  then have "ot_codes (ow_tables w') = tbl_update (\<lambda>c. cd_code c = ?k) (\<lambda>c. c\<lparr>cd_used := True\<rparr>) (ot_codes (ow_tables v))"
    using issue_tokens_Ok [OF t] by simp
  then show ?thesis by (intro codes.gone_update [where f = "\<lambda>c. c\<lparr>cd_used := True\<rparr>"]) auto
qed

lemma gone_code_refused: "codes.gone (form_get params ''code'') w \<Longrightarrow> handleAuthorizationCodeGrant e cfg rq params w \<noteq> (TokenAnswer t, w')"
  by (auto elim!: code_grant_cases dest!: codes.gone_found simp: code_error_def)

lemma revoke_refresh_gone:
  assumes "RefreshTokens_Revoke k v = (Inr (), v')"
  shows "refreshes.gone k v'"
proof -
  have "ot_refresh (ow_tables v') = tbl_update (\<lambda>r. rt_token r = k) (\<lambda>r. r\<lparr>rt_revoked := True\<rparr>) (ot_refresh (ow_tables v))"
    using assms unfolding RefreshTokens_Revoke_def by (auto dest!: boolean_Ok simp: modify_def)
  then show ?thesis by (intro refreshes.gone_update [where f = "\<lambda>r. r\<lparr>rt_revoked := True\<rparr>"]) auto
qed

lemma refresh_grant_spends:
  assumes "handleRefreshTokenGrant e cfg rq params w = (TokenAnswer t, w')" "never_again w (form_get params ''refresh_token'')"
  shows "refreshes.gone (form_get params ''refresh_token'') w'"
proof (rule refresh_grant_cases [OF assms(1)])
  let ?k = "form_get params ''refresh_token''"
  fix r jkt fs v v'
  assume d: "validateDPoP e cfg rq (w\<lparr>ow_faults := fs\<rparr>) = (Inr jkt, v)" and v: "RefreshTokens_Revoke ?k v = (Inr (), v')"
    and i: "issue_tokens cfg (form_get params ''client_id'') (rt_user r) (rt_session r) (rt_scope r) jkt v' = (TokenAnswer t, w')"
  have "later w (w\<lparr>ow_faults := fs\<rparr>)" by (rule later_tables) simp_all
  moreover have "later (w\<lparr>ow_faults := fs\<rparr>) v" using steady_dpop d unfolding steady_def by (metis snd_conv)
  moreover have "later v v'" using steady_statements(8) v unfolding steady_def by (metis snd_conv)
  ultimately have "later w v'" by (blast intro: later_trans)
  then have "never_again v' ?k" using assms(2) by (auto simp: never_again_def later_def)
  moreover have "later v' w'" using steady_issue_tokens i unfolding steady_def by (metis snd_conv)
  ultimately show ?thesis using refreshes.gone_later [OF revoke_refresh_gone [OF v]] by blast
qed

lemma gone_refresh_refused: "refreshes.gone (form_get params ''refresh_token'') w \<Longrightarrow> handleRefreshTokenGrant e cfg rq params w \<noteq> (TokenAnswer t, w')"
  by (auto elim!: refresh_grant_cases dest!: refreshes.gone_found simp: refresh_error_def)

text \<open>The grant a request to the token endpoint presents.\<close>

definition presents :: "http_request \<Rightarrow> string \<Rightarrow> string \<Rightarrow> bool" where
  "presents rq grant k =
     (case hq_form rq of
        None \<Rightarrow> False
      | Some params \<Rightarrow> form_get params ''grant_type'' = grant \<and> form_get params (if grant = ''authorization_code'' then ''code'' else ''refresh_token'') = k)"

lemma never_again_later: "never_again w k \<Longrightarrow> later w w' \<Longrightarrow> never_again w' k"
  by (auto simp: never_again_def later_def)

text \<open>C12: A grant is good once.  When the token endpoint has answered a code or a refresh token with tokens, no later request that presents it gets tokens,
  whatever happens in between: other requests, upstream callbacks, administration, clean-up of expired rows, passing time and any failing statements.
  Random tokens are assumed not to repeat.\<close>

theorem grants_single_use:
  assumes "HandleToken e cfg rq w = (TokenAnswer t, w1)" "presents rq grant k" "grant = ''authorization_code'' \<or> grant = ''refresh_token''"
    "never_again w k" "oauth_run e cfg w1 w2" "presents rq' grant k"
  shows "fst (HandleToken e cfg rq' w2) \<noteq> TokenAnswer t'"
proof
  assume a: "fst (HandleToken e cfg rq' w2) = TokenAnswer t'"
  obtain ps ps' where ps: "hq_form rq = Some ps" "hq_form rq' = Some ps'" using assms(2,6) by (auto simp: presents_def split: option.splits)
  have l: "later w w1" using steady_token assms(1) unfolding steady_def by (metis snd_conv)
  have n: "never_again w1 k" by (rule never_again_later [OF assms(4) l])
  note r = run_later [OF assms(5)]
  from a obtain w3 where h: "HandleToken e cfg rq' w2 = (TokenAnswer t', w3)" by (metis prod.collapse)
  from assms(3) show False
  proof
    assume g: "grant = ''authorization_code''"
    have "handleAuthorizationCodeGrant e cfg rq ps w = (TokenAnswer t, w1)" "handleAuthorizationCodeGrant e cfg rq' ps' w2 = (TokenAnswer t', w3)"
      "form_get ps ''code'' = k" "form_get ps' ''code'' = k"
      using assms(1,2,6) h g ps by (auto simp: HandleToken_def presents_def split: if_splits)
    then show False using codes.gone_later [OF _ r n] code_grant_spends gone_code_refused by metis
  next
    assume g: "grant = ''refresh_token''"
    have "handleRefreshTokenGrant e cfg rq ps w = (TokenAnswer t, w1)" "handleRefreshTokenGrant e cfg rq' ps' w2 = (TokenAnswer t', w3)"
      "form_get ps ''refresh_token'' = k" "form_get ps' ''refresh_token'' = k"
      using assms(1,2,6) h g ps by (auto simp: HandleToken_def presents_def split: if_splits)
    then show False using refreshes.gone_later [OF _ r n] refresh_grant_spends assms(4) gone_refresh_refused by metis
  qed
qed

section \<open>Authentication\<close>

lemma token_checks_Inr:
  "token_checks now found binding = Inr r \<longleftrightarrow>
    (\<exists>a user. found = Some a \<and> \<not> past now (tk_expires_at a) \<and> \<not> tk_revoked a \<and> binding a = None \<and> tk_user a = Some user
      \<and> r = \<lparr>re_user = user, re_token = a, re_scopes = (case tk_scope a of Some s \<Rightarrow> ParseScopes s | None \<Rightarrow> [])\<rparr>)"
  by (auto simp: token_checks_def split: option.splits)

lemma bearer_Ok:
  assumes "validateBearerToken token w = (Inr r, w')"
  shows "tbl_find tk_token token (ot_access (ow_tables w)) = Some (re_token r) \<and> \<not> past (ow_now w) (tk_expires_at (re_token r)) \<and> \<not> tk_revoked (re_token r)
    \<and> tk_user (re_token r) = Some (re_user r) \<and> tk_jkt (re_token r) = None"
  using assms unfolding validateBearerToken_def AccessTokens_Get_def
  by (auto elim!: tried_cases dest!: scan_Ok simp: respond_def token_checks_Inr split: if_splits)

lemma dpop_Ok:
  assumes "validateDPoPToken e m rq token w = (Inr r, w')"
  shows "\<exists>p. VerifyDPoPProof e (hq_dpop rq) (hq_method rq) (request_url m rq) (mw_max_age m) (ow_now w) = Ok p
    \<and> dp_jti p \<notin> dj_jti ` set (ot_jtis (ow_tables w)) \<and> \<lparr>dj_jti = dp_jti p, dj_created_at = dp_iat p\<rparr> \<in> set (ot_jtis (ow_tables w'))
    \<and> tbl_find tk_token token (ot_access (ow_tables w)) = Some (re_token r) \<and> \<not> past (ow_now w) (tk_expires_at (re_token r)) \<and> \<not> tk_revoked (re_token r)
    \<and> tk_user (re_token r) = Some (re_user r) \<and> tk_jkt (re_token r) = Some (dp_jkt p)"
proof -
  have "\<exists>p. VerifyDPoPProof e (hq_dpop rq) (hq_method rq) (request_url m rq) (mw_max_age m) (ow_now w) = Ok p
      \<and> dp_jti p \<notin> dj_jti ` set (ot_jtis (ow_tables w))
      \<and> \<lparr>dj_jti = dp_jti p, dj_created_at = dp_iat p\<rparr> \<in> set (ot_jtis (ow_tables w'))
      \<and> token_checks (ow_now w) (tbl_find tk_token token (ot_access (ow_tables w))) (\<lambda>a. case tk_jkt a of None \<Rightarrow> Some (invalid_token ''Token is not DPoP-bound'')
         | Some jkt \<Rightarrow> if jkt \<noteq> dp_jkt p then Some (invalid_proof ''DPoP key mismatch'') else None) = Inr r"
    using assms unfolding validateDPoPToken_def AccessTokens_Get_def JTI_Exists_def
    by (auto elim!: tried_cases dest!: scan_Ok query_Ok JTI_Insert_Ok simp: respond_def split: if_splits sum.splits)
  then show ?thesis by (auto simp: token_checks_Inr split: option.split_asm if_split_asm)
qed

lemma VerifyDPoPProof_Ok:
  assumes "VerifyDPoPProof e proof m u maxAge now = Ok p"
  shows "\<exists>c. ox_claims e proof = Some c \<and> dc_id c = dp_jti p \<and> dc_iat c = Some (dp_iat p) \<and> dc_htm c = m \<and> dc_htu c = u
    \<and> wrap64 (now - dp_iat p) \<le> maxAge \<and> dp_iat p \<le> now + 60"
  using assms by (auto simp: VerifyDPoPProof_def check_claims_def split: sum.splits option.splits if_splits)

text \<open>A proof that has been taken: its identifier is stored with its time, or it is more than an hour old.\<close>

definition proof_taken :: "oauth_env \<Rightarrow> string \<Rightarrow> oauth_world \<Rightarrow> bool" where
  "proof_taken e proof w =
     (case ox_claims e proof of
        None \<Rightarrow> False
      | Some c \<Rightarrow>
          (case dc_iat c of
             None \<Rightarrow> False
           | Some iat \<Rightarrow> \<lparr>dj_jti = dc_id c, dj_created_at = iat\<rparr> \<in> set (ot_jtis (ow_tables w)) \<or> iat < ow_now w - 3600))"

lemma proof_taken_later: "proof_taken e proof w \<Longrightarrow> later w w' \<Longrightarrow> proof_taken e proof w'"
  by (auto simp: proof_taken_def later_def split: option.splits)

text \<open>The ways a proof is accepted: with a bound token, and with a grant that gets tokens.\<close>

definition proof_accepted :: "oauth_env \<Rightarrow> oauth_config \<Rightarrow> auth_middleware \<Rightarrow> http_request \<Rightarrow> oauth_world \<Rightarrow> oauth_world \<Rightarrow> bool" where
  "proof_accepted e cfg m rq w w' =
     ((has_prefix (hq_authorization rq) ''DPoP '' \<and> (case ValidateRequest e m rq w of (Inl _, _) \<Rightarrow> False | (Inr _, v) \<Rightarrow> v = w'))
      \<or> (hq_dpop rq \<noteq> [] \<and> (case HandleToken e cfg rq w of (TokenAnswer _, v) \<Rightarrow> v = w' | _ \<Rightarrow> False)))"

lemma validate_dpop_scheme:
  assumes "ValidateRequest e m rq w = (Inr r, w')" "has_prefix (hq_authorization rq) ''DPoP ''"
  obtains token where "validateDPoPToken e m rq token w = (Inr r, w')"
proof -
  obtain rest where "hq_authorization rq = ''DPoP '' @ rest" using assms(2) by (auto simp: has_prefix_iff)
  then have "cut_at CHR '' '' (hq_authorization rq) = Some (''DPoP'', rest)" by simp
  then show ?thesis using assms(1) that by (auto simp: ValidateRequest_def respond_def split: if_splits)
qed

lemma token_dpop:
  assumes "HandleToken e cfg rq w = (TokenAnswer t, w')"
  obtains jkt fs v where "validateDPoP e cfg rq (w\<lparr>ow_faults := fs\<rparr>) = (Inr jkt, v)" "later v w'"
proof -
  have s: "code_issue cfg params c jkt v = (TokenAnswer t, w') \<Longrightarrow> later v w'" for params c jkt v
  proof -
    have "steady (code_issue cfg params c jkt)" unfolding code_issue_def by (intro steady_intros)
    then show "code_issue cfg params c jkt v = (TokenAnswer t, w') \<Longrightarrow> later v w'" unfolding steady_def by (metis snd_conv)
  qed
  have i: "issue_tokens cfg c u x y jkt v' = (TokenAnswer t, w') \<Longrightarrow> later v' w'" for c u x y jkt v'
    using steady_issue_tokens unfolding steady_def by (metis snd_conv)
  have r: "RefreshTokens_Revoke k v = (Inr (), v') \<Longrightarrow> later v v'" for k v v' using steady_statements(8) unfolding steady_def by (metis snd_conv)
  from assms obtain ps where "handleAuthorizationCodeGrant e cfg rq ps w = (TokenAnswer t, w') \<or> handleRefreshTokenGrant e cfg rq ps w = (TokenAnswer t, w')"
    by (auto simp: HandleToken_def split: if_splits option.splits)
  then show ?thesis using that by (elim disjE code_grant_cases refresh_grant_cases) (blast intro: s i r later_trans)+
qed

lemma accepted_facts:
  assumes "proof_accepted e cfg m rq w w'" "mw_max_age m \<le> 3600"
  obtains p u where "ox_claims e (hq_dpop rq) = Some p" "dc_iat p = Some u" "wrap64 (ow_now w - u) \<le> 3600" "dc_id p \<notin> dj_jti ` set (ot_jtis (ow_tables w))"
    "proof_taken e (hq_dpop rq) w'"
  using assms(1) unfolding proof_accepted_def
proof (elim disjE conjE)
  assume a: "has_prefix (hq_authorization rq) ''DPoP ''" "case ValidateRequest e m rq w of (Inl _, _) \<Rightarrow> False | (Inr _, v) \<Rightarrow> v = w'"
  then obtain r where "ValidateRequest e m rq w = (Inr r, w')" by (auto split: prod.splits sum.splits)
  then obtain token where "validateDPoPToken e m rq token w = (Inr r, w')" using a(1) by (rule validate_dpop_scheme)
  from dpop_Ok [OF this] obtain p where p: "VerifyDPoPProof e (hq_dpop rq) (hq_method rq) (request_url m rq) (mw_max_age m) (ow_now w) = Ok p"
    "dp_jti p \<notin> dj_jti ` set (ot_jtis (ow_tables w))" "\<lparr>dj_jti = dp_jti p, dj_created_at = dp_iat p\<rparr> \<in> set (ot_jtis (ow_tables w'))" by blast
  from VerifyDPoPProof_Ok [OF p(1)] p(2,3) assms(2) that show ?thesis by (fastforce simp: proof_taken_def)
next
  assume a: "hq_dpop rq \<noteq> []" "case HandleToken e cfg rq w of (TokenAnswer _, v) \<Rightarrow> v = w' | _ \<Rightarrow> False"
  then obtain t where "HandleToken e cfg rq w = (TokenAnswer t, w')" by (auto split: prod.splits http_response.splits)
  then obtain jkt fs v where v: "validateDPoP e cfg rq (w\<lparr>ow_faults := fs\<rparr>) = (Inr jkt, v)" "later v w'" by (rule token_dpop)
  from validateDPoP_Ok [OF v(1)] a(1) obtain p
    where p: "VerifyDPoPProof e (hq_dpop rq) ''POST'' (cf_base_url cfg @ ''/oauth/token'') DefaultMaxDPoPAge (ow_now w) = Ok p"
      "dp_jti p \<notin> dj_jti ` set (ot_jtis (ow_tables w))" "\<lparr>dj_jti = dp_jti p, dj_created_at = dp_iat p\<rparr> \<in> set (ot_jtis (ow_tables v))" by auto
  from VerifyDPoPProof_Ok [OF p(1)] p(3) have "proof_taken e (hq_dpop rq) v" by (auto simp: proof_taken_def)
  with v(2) have "proof_taken e (hq_dpop rq) w'" by (blast intro: proof_taken_later)
  with VerifyDPoPProof_Ok [OF p(1)] p(2) that show ?thesis by (fastforce simp: DefaultMaxDPoPAge_def)
qed


section \<open>Revocation\<close>

definition bears :: "http_request \<Rightarrow> string \<Rightarrow> bool" where
  "bears rq k = (case cut_at CHR '' '' (hq_authorization rq) of Some (scheme, token) \<Rightarrow> token = k | None \<Rightarrow> False)"

lemma gone_access_refused:
  assumes "accesses.gone k w" "bears rq k"
  shows "ValidateRequest e m rq w \<noteq> (Inr r, w')"
proof
  assume "ValidateRequest e m rq w = (Inr r, w')"
  then consider "validateDPoPToken e m rq k w = (Inr r, w')" | "validateBearerToken k w = (Inr r, w')"
    using assms(2) by (auto simp: ValidateRequest_def bears_def respond_def split: if_splits option.splits)
  then have "tbl_find tk_token k (ot_access (ow_tables w)) = Some (re_token r) \<and> \<not> tk_revoked (re_token r)"
    by cases (auto dest: dpop_Ok bearer_Ok)
  then show False using accesses.gone_found [OF assms(1)] by blast
qed

lemma exec_modify_Ok: "ow_dialect w = SQLite \<Longrightarrow> ow_faults w = [] \<Longrightarrow> ox_exec (with_boolean (modify f)) w = (Inr (), w\<lparr>ow_tables := f (ow_tables w)\<rparr>)"
  by (simp add: ox_exec_def with_boolean_def modify_def)

lemma revoke_gone:
  assumes "ow_dialect w = SQLite" "ow_faults w = []" "hq_form rq = Some params" "HandleRevoke rq w = (Empty200, w')"
  shows "accesses.gone (form_get params ''token'') w'" "refreshes.gone (form_get params ''token'') w'"
proof -
  let ?k = "form_get params ''token''"
  have t: "ow_tables w' = (ow_tables w)\<lparr>ot_access := tbl_update (\<lambda>a. tk_token a = ?k) (\<lambda>a. a\<lparr>tk_revoked := True\<rparr>) (ot_access (ow_tables w)),
      ot_refresh := tbl_update (\<lambda>r. rt_token r = ?k) (\<lambda>r. r\<lparr>rt_revoked := True\<rparr>) (ot_refresh (ow_tables w))\<rparr>"
    using assms by (auto simp: HandleRevoke_def ignoring_def respond_def writeOAuthError_def AccessTokens_Revoke_def RefreshTokens_Revoke_def exec_modify_Ok Let_def split: if_splits)
  show "accesses.gone ?k w'" by (intro accesses.gone_update [where f = "\<lambda>a. a\<lparr>tk_revoked := True\<rparr>"]) (auto simp: t)
  show "refreshes.gone ?k w'" by (intro refreshes.gone_update [where f = "\<lambda>r. r\<lparr>rt_revoked := True\<rparr>"]) (auto simp: t)
qed

text \<open>C16: Revocation is final.  When the revocation endpoint has answered a request on SQLite with both statements executed, the token never again
  authenticates a request, with or without a proof, and never again serves as a refresh token, whatever happens in between.\<close>

theorem revoked_stays_revoked:
  assumes "HandleRevoke rq w = (Empty200, w1)" "ow_dialect w = SQLite" "ow_faults w = []" "hq_form rq = Some params"
    "never_again w (form_get params ''token'')" "oauth_run e cfg w1 w2"
  shows "(bears rq' (form_get params ''token'') \<longrightarrow> (\<exists>x. fst (ValidateRequest e m rq' w2) = Inl x))
    \<and> (presents rq' ''refresh_token'' (form_get params ''token'') \<longrightarrow> fst (HandleToken e cfg rq' w2) \<noteq> TokenAnswer t)"
proof -
  let ?k = "form_get params ''token''"
  have "later w w1" using steady_others(1) assms(1) unfolding steady_def by (metis snd_conv)
  then have n: "never_again w1 ?k" by (rule never_again_later [OF assms(5)])
  note r = run_later [OF assms(6)] and g = revoke_gone [OF assms(2,3,4,1)]
  have a: "accesses.gone ?k w2" by (rule accesses.gone_later [OF g(1) r n])
  have f: "refreshes.gone ?k w2" by (rule refreshes.gone_later [OF g(2) r n])
  have "\<exists>x. fst (ValidateRequest e m rq' w2) = Inl x" if "bears rq' ?k"
    using gone_access_refused [OF a that, of e m] by (metis prod.collapse sum.exhaust)
  moreover have "fst (HandleToken e cfg rq' w2) \<noteq> TokenAnswer t" if p: "presents rq' ''refresh_token'' ?k"
  proof
    assume "fst (HandleToken e cfg rq' w2) = TokenAnswer t"
    then obtain w3 where h: "HandleToken e cfg rq' w2 = (TokenAnswer t, w3)" by (metis prod.collapse)
    from p obtain ps where ps: "hq_form rq' = Some ps" "form_get ps ''refresh_token'' = ?k" "form_get ps ''grant_type'' = ''refresh_token''"
      by (auto simp: presents_def split: option.splits)
    then have "handleRefreshTokenGrant e cfg rq' ps w2 = (TokenAnswer t, w3)" using h by (auto simp: HandleToken_def split: if_splits)
    then show False using gone_refresh_refused f ps(2) by metis
  qed
  ultimately show ?thesis by blast
qed

section \<open>Who is authenticated\<close>

text \<open>The contract of authentication: a stored token that is neither expired nor revoked and has a user; unbound with the scheme Bearer, bound to the key of
  a proof for this very request, not seen before, with the scheme DPoP.\<close>

definition good_token :: "oauth_world \<Rightarrow> string \<Rightarrow> auth_result \<Rightarrow> bool" where
  "good_token w token r =
     (tbl_find tk_token token (ot_access (ow_tables w)) = Some (re_token r) \<and> ow_now w \<le> tk_expires_at (re_token r) \<and> \<not> tk_revoked (re_token r)
      \<and> tk_user (re_token r) = Some (re_user r) \<and> re_scopes r = (case tk_scope (re_token r) of Some s \<Rightarrow> ParseScopes s | None \<Rightarrow> []))"

definition good_proof :: "oauth_env \<Rightarrow> auth_middleware \<Rightarrow> http_request \<Rightarrow> oauth_world \<Rightarrow> string \<Rightarrow> bool" where
  "good_proof e m rq w jkt =
     (hq_dpop rq \<noteq> [] \<and> (case VerifyDPoPProof e (hq_dpop rq) (hq_method rq) (request_url m rq) (mw_max_age m) (ow_now w) of
        Inl _ \<Rightarrow> False
      | Inr p \<Rightarrow> dp_jkt p = jkt \<and> dp_jti p \<notin> dj_jti ` set (ot_jtis (ow_tables w))))"

definition authentic :: "oauth_env \<Rightarrow> auth_middleware \<Rightarrow> http_request \<Rightarrow> oauth_world \<Rightarrow> auth_result \<Rightarrow> bool" where
  "authentic e m rq w r =
     (case cut_at CHR '' '' (hq_authorization rq) of
        None \<Rightarrow> False
      | Some (scheme, token) \<Rightarrow>
          good_token w token r
          \<and> (if scheme = ''DPoP'' then (case tk_jkt (re_token r) of None \<Rightarrow> False | Some jkt \<Rightarrow> good_proof e m rq w jkt)
             else scheme = ''Bearer'' \<and> tk_jkt (re_token r) = None))"

lemma exec_clean: "ow_faults w = [] \<Longrightarrow> ox_exec f w = (case f (ow_dialect w) (ow_tables w) of Inl x \<Rightarrow> (Err x, w) | Inr (a, t) \<Rightarrow> (Ok a, w\<lparr>ow_tables := t\<rparr>))"
proof -
  assume a: "ow_faults w = []"
  have "w\<lparr>ow_faults := tl (ow_faults w)\<rparr> = w" using a by simp
  then show ?thesis using a by (simp add: ox_exec_def split: sum.splits)
qed

lemma scan_clean: "ow_faults w = [] \<Longrightarrow> ow_dialect w = SQLite \<Longrightarrow> ox_exec (scan_boolean f) w = (Ok (f (ow_tables w)), w)"
  by (simp add: exec_clean scan_boolean_def split: option.splits)

lemma query_clean: "ow_faults w = [] \<Longrightarrow> ox_exec (query f) w = (Ok (f (ow_tables w)), w)"
  by (simp add: exec_clean query_def)

lemma tried_scan: "ow_faults w = [] \<Longrightarrow> ow_dialect w = SQLite \<Longrightarrow> tried (ox_exec (scan_boolean q)) f g w = g (q (ow_tables w)) w"
  by (simp add: tried_def scan_clean)

lemma tried_query: "ow_faults w = [] \<Longrightarrow> tried (ox_exec (query q)) f g w = g (q (ow_tables w)) w"
  by (simp add: tried_def query_clean)

lemma JTI_Insert_clean:
  "ow_faults w = [] \<Longrightarrow> dj_jti j \<notin> dj_jti ` set (ot_jtis (ow_tables w)) \<Longrightarrow> JTI_Insert j w = (Ok (), w\<lparr>ow_tables := (ow_tables w)\<lparr>ot_jtis := ot_jtis (ow_tables w) @ [j]\<rparr>\<rparr>)"
  by (simp add: JTI_Insert_def exec_clean add_row_def)

lemma token_checks_good:
  "token_checks (ow_now w) (tbl_find tk_token token (ot_access (ow_tables w))) binding = Inr r \<longleftrightarrow> good_token w token r \<and> binding (re_token r) = None"
proof
  assume "token_checks (ow_now w) (tbl_find tk_token token (ot_access (ow_tables w))) binding = Inr r"
  then show "good_token w token r \<and> binding (re_token r) = None" by (auto simp: token_checks_Inr good_token_def past_def)
next
  assume g: "good_token w token r \<and> binding (re_token r) = None"
  have "r = \<lparr>re_user = re_user r, re_token = re_token r, re_scopes = re_scopes r\<rparr>" by simp
  then show "token_checks (ow_now w) (tbl_find tk_token token (ot_access (ow_tables w))) binding = Inr r"
    using g by (auto simp: token_checks_Inr good_token_def past_def)
qed

lemma jti_free: "tbl_find dj_jti k t = None \<longleftrightarrow> k \<notin> dj_jti ` set t"
  by (auto simp: tbl_find_None)

lemma bearer_clean:
  assumes "ow_faults w = []" "ow_dialect w = SQLite"
  shows "fst (validateBearerToken token w) = Inr r \<longleftrightarrow> good_token w token r \<and> tk_jkt (re_token r) = None"
proof -
  have "fst (validateBearerToken token w) = Inr r \<longleftrightarrow> good_token w token r
      \<and> (if tk_jkt (re_token r) \<noteq> None then Some (invalid_token ''DPoP-bound token requires DPoP authorization'') else None) = None"
    unfolding validateBearerToken_def AccessTokens_Get_def by (simp only: tried_scan [OF assms] fst_conv token_checks_good)
  then show ?thesis by simp
qed

lemma dpop_clean:
  assumes "ow_faults w = []" "ow_dialect w = SQLite"
  shows "fst (validateDPoPToken e m rq token w) = Inr r \<longleftrightarrow>
    good_token w token r \<and> (case tk_jkt (re_token r) of None \<Rightarrow> False | Some jkt \<Rightarrow> good_proof e m rq w jkt)"
proof (cases "VerifyDPoPProof e (hq_dpop rq) (hq_method rq) (request_url m rq) (mw_max_age m) (ow_now w)")
  case (Inl x)
  then show ?thesis by (auto simp: validateDPoPToken_def good_proof_def split: option.splits)
next
  case (Inr p)
  consider "hq_dpop rq = []" | (seen) "hq_dpop rq \<noteq> []" "dp_jti p \<in> dj_jti ` set (ot_jtis (ow_tables w))"
    | (new) "hq_dpop rq \<noteq> []" "dp_jti p \<notin> dj_jti ` set (ot_jtis (ow_tables w))" by blast
  then show ?thesis
  proof cases
    case 1
    then show ?thesis by (auto simp: validateDPoPToken_def good_proof_def split: option.splits)
  next
    case seen
    then have s: "tbl_find dj_jti (dp_jti p) (ot_jtis (ow_tables w)) \<noteq> None" by (simp only: jti_free) simp
    have "fst (validateDPoPToken e m rq token w) = Inl ErrDPoPReplay"
      unfolding validateDPoPToken_def JTI_Exists_def Inr sum.case by (simp only: tried_query [OF assms(1)]) (simp add: s seen respond_def)
    then show ?thesis using seen Inr by (auto simp: good_proof_def split: option.splits)
  next
    case new
    let ?j = "\<lparr>dj_jti = dp_jti p, dj_created_at = dp_iat p\<rparr>" and ?t = "(ow_tables w)\<lparr>ot_jtis := ot_jtis (ow_tables w) @ [\<lparr>dj_jti = dp_jti p, dj_created_at = dp_iat p\<rparr>]\<rparr>"
    let ?w = "w\<lparr>ow_tables := ?t\<rparr>"
    let ?b = "\<lambda>a. case tk_jkt a of None \<Rightarrow> Some (invalid_token ''Token is not DPoP-bound'') | Some jkt \<Rightarrow> if jkt \<noteq> dp_jkt p then Some (invalid_proof ''DPoP key mismatch'') else None"
    have n: "tbl_find dj_jti (dp_jti p) (ot_jtis (ow_tables w)) = None" using new(2) by (simp only: jti_free) simp
    have j: "JTI_Insert ?j w = (Ok (), ?w)" using JTI_Insert_clean [OF assms(1), of ?j] new(2) by simp
    have j': "tried (JTI_Insert ?j) f g w = g () ?w" for f g by (simp only: tried_def j prod.case sum.case)
    have c: "ow_faults ?w = []" "ow_dialect ?w = SQLite" using assms by simp_all
    have "fst (validateDPoPToken e m rq token w) = token_checks (ow_now ?w) (tbl_find tk_token token (ot_access (ow_tables ?w))) ?b"
      unfolding validateDPoPToken_def JTI_Exists_def AccessTokens_Get_def Inr sum.case using new(1)
      by (simp only: tried_query [OF assms(1)] n simp_thms if_False if_True j' tried_scan [OF c] fst_conv)
    then have "fst (validateDPoPToken e m rq token w) = Inr r \<longleftrightarrow> good_token ?w token r \<and> ?b (re_token r) = None" by (simp only: token_checks_good)
    then show ?thesis using new Inr by (auto simp: good_token_def good_proof_def split: option.splits)
  qed
qed

text \<open>C15: Authentication does what its contract says: on SQLite, without failing statements, a request is authenticated with a result exactly when it is
  authentic with it.\<close>

theorem ValidateRequest_exact:
  assumes "ow_faults w = []" "ow_dialect w = SQLite"
  shows "fst (ValidateRequest e m rq w) = Inr r \<longleftrightarrow> authentic e m rq w r"
proof (cases "cut_at CHR '' '' (hq_authorization rq)")
  case None
  then show ?thesis by (auto simp: ValidateRequest_def authentic_def respond_def)
next
  case (Some st)
  obtain scheme token where s: "st = (scheme, token)" by (cases st)
  have "hq_authorization rq \<noteq> []" using Some by auto
  then show ?thesis using Some s by (auto simp: ValidateRequest_def authentic_def respond_def dpop_clean [OF assms] bearer_clean [OF assms])
qed

section \<open>PostgreSQL\<close>

text \<open>C17: On PostgreSQL the server issues no token and revokes none: whatever the request, the token endpoint does not answer with tokens, and the revocation
  endpoint leaves the tables as they are, also where it answers 200.\<close>

theorem postgres_never_grants:
  assumes "ow_dialect w = PostgreSQL"
  shows "fst (HandleToken e cfg rq w) \<noteq> TokenAnswer t \<and> ow_tables (snd (HandleRevoke rq w)) = ow_tables w"
proof
  show "fst (HandleToken e cfg rq w) \<noteq> TokenAnswer t"
  proof
    assume "fst (HandleToken e cfg rq w) = TokenAnswer t"
    then obtain w' where "HandleToken e cfg rq w = (TokenAnswer t, w')" by (metis prod.collapse)
    then obtain ps where "handleAuthorizationCodeGrant e cfg rq ps w = (TokenAnswer t, w') \<or> handleRefreshTokenGrant e cfg rq ps w = (TokenAnswer t, w')"
      by (auto simp: HandleToken_def split: if_splits option.splits)
    then show False using assms by (auto elim: code_grant_cases refresh_grant_cases)
  qed
  have b: "ow_tables (snd (ox_exec (with_boolean f) v)) = ow_tables v" if "ow_dialect v = PostgreSQL" for v and f :: "unit oauth_statement"
    using that by (cases rule: ox_exec_cases [of "with_boolean f" v]) (auto simp: with_boolean_def)
  show "ow_tables (snd (HandleRevoke rq w)) = ow_tables w"
    using assms by (simp add: HandleRevoke_def ignoring_def respond_def writeOAuthError_def AccessTokens_Revoke_def RefreshTokens_Revoke_def Let_def b ox_exec_env split: option.split)
qed

section \<open>Signing in\<close>

lemma tried_draw: "ow_random w (ow_drawn w) = Some a \<Longrightarrow> tried generateRandomToken f g w = g a (w\<lparr>ow_drawn := Suc (ow_drawn w)\<rparr>)"
  by (simp add: tried_def generateRandomToken_def Let_def)

lemma tried_insert:
  "ow_faults w = [] \<Longrightarrow> key row \<notin> key ` set (rows (ow_tables w)) \<Longrightarrow> ref (ow_tables w) \<Longrightarrow>
   tried (ox_exec (\<lambda>D t. add_row key (ref t) row (rows t) (put t))) f g w = g () (w\<lparr>ow_tables := put (ow_tables w) (rows (ow_tables w) @ [row])\<rparr>)"
  by (simp add: tried_def exec_clean add_row_def)

lemma tried_boolean_insert:
  "ow_faults w = [] \<Longrightarrow> ow_dialect w = SQLite \<Longrightarrow> key row \<notin> key ` set (rows (ow_tables w)) \<Longrightarrow> ref (ow_tables w) \<Longrightarrow>
   tried (ox_exec (with_boolean (\<lambda>D t. add_row key (ref t) row (rows t) (put t)))) f g w = g () (w\<lparr>ow_tables := put (ow_tables w) (rows (ow_tables w) @ [row])\<rparr>)"
  by (simp add: tried_def exec_clean add_row_def with_boolean_def)

lemma tried_modify: "ow_faults w = [] \<Longrightarrow> ow_dialect w = SQLite \<Longrightarrow> tried (ox_exec (with_boolean (modify u))) f g w = g () (w\<lparr>ow_tables := u (ow_tables w)\<rparr>)"
  by (simp add: tried_def exec_modify_Ok)

lemma ignoring_modify: "ow_faults w = [] \<Longrightarrow> ignoring (ox_exec (modify u)) h w = h (w\<lparr>ow_tables := u (ow_tables w)\<rparr>)"
  by (simp add: ignoring_def exec_clean modify_def)

lemma tbl_find_new: "key r = k \<Longrightarrow> k \<notin> key ` set t \<Longrightarrow> tbl_find key k (t @ [r]) = Some r"
  by (induction t) (auto simp: tbl_find_def)

lemma has_client_found: "tbl_find oc_id c (ot_clients t) = Some x \<Longrightarrow> has_client t c"
  by (auto simp: has_client_def dest!: tbl_find_Some)

text \<open>A request for authorization that has all its parts.\<close>

definition proper_authorization :: "(string \<times> string) list \<Rightarrow> oauth_client \<Rightarrow> bool" where
  "proper_authorization params client =
     (form_get params ''client_id'' \<noteq> [] \<and> form_get params ''redirect_uri'' \<noteq> []
      \<and> isValidRedirectURI (form_get params ''redirect_uri'') (oc_redirect_uris client) (oc_require_exact client)
      \<and> form_get params ''response_type'' = ''code'' \<and> form_get params ''code_challenge'' \<noteq> []
      \<and> (form_get params ''code_challenge_method'' = ''S256'' \<or> form_get params ''code_challenge_method'' = []) \<and> form_get params ''login_hint'' \<noteq> [])"

lemma start_upstream_goes:
  assumes "ow_faults w = []" "ow_random w (ow_drawn w) = Some st" "ow_random w (Suc (ow_drawn w)) = Some key" "ow_random w (Suc (Suc (ow_drawn w))) = Some v"
    "ox_key_json e key = Some kj" "ox_key_jkt e key = Some jkt" "st \<notin> ap_state ` set (ot_atp_requests (ow_tables w))" "(sid, 0) \<notin> session_key ` set (ot_sessions (ow_tables w))"
  shows "start_upstream e cfg uri state did server sid scope w =
    (RedirectTo (snd server)
       [(''client_id'', cf_client_id cfg), (''redirect_uri'', cf_callback cfg), (''response_type'', ''code''), (''code_challenge'', GenerateCodeChallenge e v),
        (''code_challenge_method'', ''S256''), (''state'', st), (''scope'', scope), (''login_hint'', did)],
     w\<lparr>ow_drawn := Suc (Suc (Suc (ow_drawn w))), ow_tables := (ow_tables w)\<lparr>
       ot_atp_requests := ot_atp_requests (ow_tables w) @ [new_atp_request cfg st (fst server) sid v jkt kj (ow_now w)],
       ot_sessions := ot_sessions (ow_tables w) @ [new_atp_session sid did st jkt kj (ow_now w)]\<rparr>\<rparr>)"
  using assms unfolding start_upstream_def Let_def
  by (simp add: tried_draw ATPRequests_Insert_def ATPSessions_Insert_def tried_insert session_key_def new_atp_request_def new_atp_session_def respond_def)

lemma authorize_goes:
  assumes "ow_faults w = []" "hq_method rq = ''GET''" "tbl_find oc_id (form_get (hq_query rq) ''client_id'') (ot_clients (ow_tables w)) = Some client"
    "proper_authorization (hq_query rq) client"
    "(let h = form_get (hq_query rq) ''login_hint'' in if has_prefix h ''did:'' then Ok h else ox_resolve_handle e h) = Ok did" "ox_auth_server e did = Ok server"
    "ow_random w (ow_drawn w) = Some sid" "ow_random w (Suc (ow_drawn w)) = Some st" "ow_random w (Suc (Suc (ow_drawn w))) = Some key"
    "ow_random w (Suc (Suc (Suc (ow_drawn w)))) = Some v" "ox_key_json e key = Some kj" "ox_key_jkt e key = Some jkt"
    "sid \<notin> ar_session ` set (ot_auth_requests (ow_tables w))" "st \<notin> ap_state ` set (ot_atp_requests (ow_tables w))" "(sid, 0) \<notin> session_key ` set (ot_sessions (ow_tables w))"
  shows "\<exists>scope. HandleAuthorize e cfg rq w =
    (RedirectTo (snd server)
       [(''client_id'', cf_client_id cfg), (''redirect_uri'', cf_callback cfg), (''response_type'', ''code''), (''code_challenge'', GenerateCodeChallenge e v),
        (''code_challenge_method'', ''S256''), (''state'', st), (''scope'', scope), (''login_hint'', did)],
     w\<lparr>ow_drawn := Suc (Suc (Suc (Suc (ow_drawn w)))), ow_tables := (ow_tables w)\<lparr>
       ot_auth_requests := ot_auth_requests (ow_tables w) @ [new_auth_request cfg (hq_query rq) sid (ow_now w)],
       ot_atp_requests := ot_atp_requests (ow_tables w) @ [new_atp_request cfg st (fst server) sid v jkt kj (ow_now w)],
       ot_sessions := ot_sessions (ow_tables w) @ [new_atp_session sid did st jkt kj (ow_now w)]\<rparr>\<rparr>)"
proof -
  let ?ps = "hq_query rq"
  let ?w = "w\<lparr>ow_drawn := Suc (ow_drawn w), ow_tables := (ow_tables w)\<lparr>ot_auth_requests := ot_auth_requests (ow_tables w) @ [new_auth_request cfg ?ps sid (ow_now w)]\<rparr>\<rparr>"
  note p = assms(4) [unfolded proper_authorization_def]
  have c: "has_client (ow_tables w) (form_get ?ps ''client_id'')" using assms(3) by (rule has_client_found)
  have "\<exists>scope. HandleAuthorize e cfg rq w = start_upstream e cfg (form_get ?ps ''redirect_uri'') (form_get ?ps ''state'') did server sid scope ?w"
    using assms(1-3,5-7,13) p c unfolding HandleAuthorize_def authorize_client_def
    by (auto simp: Let_def Clients_Get_def tried_query tried_draw AuthRequests_Insert_def tried_insert new_auth_request_def)
  then obtain scope where s: "HandleAuthorize e cfg rq w = start_upstream e cfg (form_get ?ps ''redirect_uri'') (form_get ?ps ''state'') did server sid scope ?w" ..
  have "start_upstream e cfg (form_get ?ps ''redirect_uri'') (form_get ?ps ''state'') did server sid scope ?w =
    (RedirectTo (snd server)
       [(''client_id'', cf_client_id cfg), (''redirect_uri'', cf_callback cfg), (''response_type'', ''code''), (''code_challenge'', GenerateCodeChallenge e v),
        (''code_challenge_method'', ''S256''), (''state'', st), (''scope'', scope), (''login_hint'', did)],
     ?w\<lparr>ow_drawn := Suc (Suc (Suc (ow_drawn ?w))), ow_tables := (ow_tables ?w)\<lparr>
       ot_atp_requests := ot_atp_requests (ow_tables ?w) @ [new_atp_request cfg st (fst server) sid v jkt kj (ow_now ?w)],
       ot_sessions := ot_sessions (ow_tables ?w) @ [new_atp_session sid did st jkt kj (ow_now ?w)]\<rparr>\<rparr>)"
    by (rule start_upstream_goes) (use assms in simp_all)
  then show ?thesis unfolding s by simp
qed

lemma update_session_goes:
  assumes "ow_faults w = []"
  obtains ss where "update_session sid t h w = h (w\<lparr>ow_tables := (ow_tables w)\<lparr>ot_sessions := ss\<rparr>\<rparr>)"
proof (cases "top_row (newest_tokens as_iteration (filter (\<lambda>s. as_session s = sid) (ot_sessions (ow_tables w))))")
  case None
  then have "update_session sid t h w = h (w\<lparr>ow_tables := (ow_tables w)\<lparr>ot_sessions := ot_sessions (ow_tables w)\<rparr>\<rparr>)"
    by (simp add: update_session_def ATPSessions_GetLatest_def tried_query [OF assms])
  then show ?thesis by (rule that)
next
  case (Some s)
  then show ?thesis using that by (simp add: update_session_def ATPSessions_GetLatest_def tried_query [OF assms] ATPSessions_Update_def ignoring_modify [OF assms])
qed

lemma issue_code_goes:
  assumes "ow_faults w = []" "ow_dialect w = SQLite" "ow_random w (ow_drawn w) = Some code" "code \<notin> cd_code ` set (ot_codes (ow_tables w))"
    "ox_url e (ar_redirect_uri r) \<noteq> None"
  shows "issue_code e cfg st sid t r cs w =
    (RedirectTo (ar_redirect_uri r) ((''code'', code) # (if cs \<noteq> [] then [(''state'', cs)] else [])),
     w\<lparr>ow_drawn := Suc (ow_drawn w), ow_tables := (ow_tables w)\<lparr>ot_codes := ot_codes (ow_tables w) @ [new_code cfg code sid t r (ow_now w)],
       ot_atp_requests := tbl_delete (\<lambda>a. ap_state a = st) (ot_atp_requests (ow_tables w)),
       ot_auth_requests := tbl_delete (\<lambda>a. ar_session a = sid) (ot_auth_requests (ow_tables w))\<rparr>\<rparr>)"
  using assms unfolding issue_code_def Let_def
  by (simp add: tried_draw Codes_Insert_def tried_boolean_insert new_code_def ATPRequests_Delete_def AuthRequests_Delete_def ignoring_modify respond_def)

text \<open>The callback keeps the clients and the tokens, and stores the code.\<close>

lemma callback_goes:
  assumes "ow_faults w = []" "ow_dialect w = SQLite" "hq_method rq = ''GET''" "form_get (hq_query rq) ''error'' = []" "form_get (hq_query rq) ''code'' \<noteq> []"
    "tbl_find ap_state (form_get (hq_query rq) ''state'') (ot_atp_requests (ow_tables w)) = Some a" "ow_now w \<le> ap_expires_at a"
    "tbl_find ar_session (ap_nonce a) (ot_auth_requests (ow_tables w)) = Some r" "ox_parse_key e (ap_private_key a) = Some key"
    "ox_exchange e (ap_server a @ ''/oauth/token'') (form_get (hq_query rq) ''code'') (ap_verifier a) (cf_callback cfg) key = Ok t"
    "ow_random w (ow_drawn w) = Some code" "code \<notin> cd_code ` set (ot_codes (ow_tables w))" "ox_url e (ar_redirect_uri r) \<noteq> None"
  obtains w' where "HandleCallback e cfg rq w =
      (RedirectTo (ar_redirect_uri r) ((''code'', code) # (case ar_state r of None \<Rightarrow> [] | Some s \<Rightarrow> if s \<noteq> [] then [(''state'', s)] else [])), w')"
    "tbl_find cd_code code (ot_codes (ow_tables w')) = Some (new_code cfg code (ap_nonce a) t r (ow_now w))"
    "ot_clients (ow_tables w') = ot_clients (ow_tables w)" "ot_access (ow_tables w') = ot_access (ow_tables w)" "ot_refresh (ow_tables w') = ot_refresh (ow_tables w)"
    "ow_faults w' = []" "ow_dialect w' = SQLite" "ow_drawn w' = Suc (ow_drawn w)" "ow_random w' = ow_random w"
proof -
  let ?cs = "case ar_state r of Some s \<Rightarrow> s | None \<Rightarrow> []" and ?st = "form_get (hq_query rq) ''state''"
  have h: "HandleCallback e cfg rq w = update_session (ap_nonce a) t (issue_code e cfg ?st (ap_nonce a) t r ?cs) w"
    using assms(1-10) unfolding HandleCallback_def by (simp add: Let_def ATPRequests_Get_def AuthRequests_Get_def tried_query past_def)
  obtain ss where u: "update_session (ap_nonce a) t (issue_code e cfg ?st (ap_nonce a) t r ?cs) w =
      issue_code e cfg ?st (ap_nonce a) t r ?cs (w\<lparr>ow_tables := (ow_tables w)\<lparr>ot_sessions := ss\<rparr>\<rparr>)" by (rule update_session_goes [OF assms(1)])
  let ?w = "w\<lparr>ow_tables := (ow_tables w)\<lparr>ot_sessions := ss\<rparr>\<rparr>"
  have i: "issue_code e cfg ?st (ap_nonce a) t r ?cs ?w =
    (RedirectTo (ar_redirect_uri r) ((''code'', code) # (if ?cs \<noteq> [] then [(''state'', ?cs)] else [])),
     ?w\<lparr>ow_drawn := Suc (ow_drawn ?w), ow_tables := (ow_tables ?w)\<lparr>ot_codes := ot_codes (ow_tables ?w) @ [new_code cfg code (ap_nonce a) t r (ow_now ?w)],
       ot_atp_requests := tbl_delete (\<lambda>a. ap_state a = ?st) (ot_atp_requests (ow_tables ?w)),
       ot_auth_requests := tbl_delete (\<lambda>x. ar_session x = ap_nonce a) (ot_auth_requests (ow_tables ?w))\<rparr>\<rparr>)"
    by (rule issue_code_goes) (use assms in simp_all)
  have n: "cd_code (new_code cfg code (ap_nonce a) t r (ow_now w)) = code" by (simp add: new_code_def)
  show ?thesis
    by (rule that [of "snd (HandleCallback e cfg rq w)"], unfold h u i) (use assms(1,2) tbl_find_new [OF n assms(12)] in \<open>simp_all split: option.split\<close>)
qed

lemma issue_tokens_goes:
  assumes "ow_faults w = []" "ow_dialect w = SQLite" "has_client (ow_tables w) clientID" "ow_random w (ow_drawn w) = Some access"
    "ow_random w (Suc (ow_drawn w)) = Some refresh" "access \<notin> tk_token ` set (ot_access (ow_tables w))" "refresh \<notin> rt_token ` set (ot_refresh (ow_tables w))"
  shows "issue_tokens cfg clientID user session scope jkt w =
    (TokenAnswer \<lparr>tr_access = access, tr_type = token_type jkt, tr_expires_in = cf_access_lifetime cfg, tr_refresh = refresh, tr_scope = scope, tr_sub = user\<rparr>,
     w\<lparr>ow_drawn := Suc (Suc (ow_drawn w)), ow_tables := (ow_tables w)\<lparr>ot_access := ot_access (ow_tables w) @ [new_access cfg clientID user session scope jkt (ow_now w) access],
       ot_refresh := ot_refresh (ow_tables w) @ [new_refresh cfg clientID user session scope (ow_now w) access refresh]\<rparr>\<rparr>)"
  using assms unfolding issue_tokens_def
  by (simp add: tried_draw AccessTokens_Insert_def RefreshTokens_Insert_def tried_boolean_insert new_access_def new_refresh_def has_client_def respond_def)

lemma code_grant_goes:
  assumes "ow_faults w = []" "ow_dialect w = SQLite" "hq_method rq = ''POST''" "hq_form rq = Some ps" "form_get ps ''grant_type'' = ''authorization_code''" "hq_dpop rq = []"
    "tbl_find oc_id (form_get ps ''client_id'') (ot_clients (ow_tables w)) = Some client" "tbl_find cd_code (form_get ps ''code'') (ot_codes (ow_tables w)) = Some c"
    "form_get ps ''code'' \<noteq> []" "form_get ps ''client_id'' \<noteq> []" "form_get ps ''redirect_uri'' \<noteq> []" "code_error e (ow_now w) ps c = None"
    "ow_random w (ow_drawn w) = Some access" "ow_random w (Suc (ow_drawn w)) = Some refresh"
    "access \<notin> tk_token ` set (ot_access (ow_tables w))" "refresh \<notin> rt_token ` set (ot_refresh (ow_tables w))"
  obtains w' where "HandleToken e cfg rq w = (TokenAnswer \<lparr>tr_access = access, tr_type = ''Bearer'', tr_expires_in = cf_access_lifetime cfg,
      tr_refresh = refresh, tr_scope = cd_scope c, tr_sub = cd_user c\<rparr>, w')"
    "tbl_find tk_token access (ot_access (ow_tables w')) = Some (new_access cfg (form_get ps ''client_id'') (cd_user c) (cd_session c) (cd_scope c) None (ow_now w) access)"
    "ow_faults w' = []" "ow_dialect w' = SQLite"
proof -
  let ?w = "w\<lparr>ow_tables := (ow_tables w)\<lparr>ot_codes := tbl_update (\<lambda>c. cd_code c = form_get ps ''code'') (\<lambda>c. c\<lparr>cd_used := True\<rparr>) (ot_codes (ow_tables w))\<rparr>\<rparr>"
  have d: "tried (validateDPoP e cfg rq) f g w = g None w" for f g using assms(6) by (simp add: tried_def validateDPoP_def)
  have h: "HandleToken e cfg rq w = issue_tokens cfg (form_get ps ''client_id'') (cd_user c) (cd_session c) (cd_scope c) None ?w"
    using assms(1-12) unfolding HandleToken_def handleAuthorizationCodeGrant_def code_check_def code_issue_def
    by (simp add: Let_def Clients_Get_def Codes_Get_def tried_query tried_scan d Codes_MarkUsed_def tried_modify)
  have c: "has_client (ow_tables ?w) (form_get ps ''client_id'')" using assms(7) has_client_found by (auto simp: has_client_def)
  have n: "tk_token (new_access cfg (form_get ps ''client_id'') (cd_user c) (cd_session c) (cd_scope c) None (ow_now w) access) = access" by (simp add: new_access_def)
  have "issue_tokens cfg (form_get ps ''client_id'') (cd_user c) (cd_session c) (cd_scope c) None ?w =
      (TokenAnswer \<lparr>tr_access = access, tr_type = token_type None, tr_expires_in = cf_access_lifetime cfg, tr_refresh = refresh, tr_scope = cd_scope c, tr_sub = cd_user c\<rparr>,
       ?w\<lparr>ow_drawn := Suc (Suc (ow_drawn ?w)), ow_tables := (ow_tables ?w)\<lparr>
         ot_access := ot_access (ow_tables ?w) @ [new_access cfg (form_get ps ''client_id'') (cd_user c) (cd_session c) (cd_scope c) None (ow_now ?w) access],
         ot_refresh := ot_refresh (ow_tables ?w) @ [new_refresh cfg (form_get ps ''client_id'') (cd_user c) (cd_session c) (cd_scope c) (ow_now ?w) access refresh]\<rparr>\<rparr>)"
    by (rule issue_tokens_goes [OF _ _ c]) (use assms in simp_all)
  note i = h [unfolded this]
  show ?thesis by (rule that [of "snd (HandleToken e cfg rq w)"], unfold i) (use assms(1,2) tbl_find_new [OF n assms(15)] in \<open>simp_all add: token_type_def\<close>)
qed

text \<open>The next random tokens, and what they must differ from.\<close>

definition draws :: "oauth_world \<Rightarrow> string list \<Rightarrow> bool" where
  "draws w ts = list_all (\<lambda>i. ow_random w (ow_drawn w + i) = Some (ts ! i)) [0..<length ts]"

definition unused_keys :: "oauth_tables \<Rightarrow> string \<Rightarrow> string \<Rightarrow> string \<Rightarrow> string \<Rightarrow> string \<Rightarrow> bool" where
  "unused_keys t sid st code access refresh =
     (sid \<notin> ar_session ` set (ot_auth_requests t) \<and> (sid, 0) \<notin> session_key ` set (ot_sessions t) \<and> st \<notin> ap_state ` set (ot_atp_requests t)
      \<and> code \<notin> cd_code ` set (ot_codes t) \<and> access \<notin> tk_token ` set (ot_access t) \<and> refresh \<notin> rt_token ` set (ot_refresh t))"

text \<open>A callback and a token request that continue an authorization.\<close>

definition continues :: "http_request \<Rightarrow> string \<Rightarrow> bool" where
  "continues rq st = (hq_method rq = ''GET'' \<and> form_get (hq_query rq) ''error'' = [] \<and> form_get (hq_query rq) ''code'' \<noteq> [] \<and> form_get (hq_query rq) ''state'' = st)"

definition redeems :: "oauth_env \<Rightarrow> http_request \<Rightarrow> (string \<times> string) list \<Rightarrow> string \<Rightarrow> bool" where
  "redeems e rq params code =
     (hq_method rq = ''POST'' \<and> hq_dpop rq = [] \<and> code \<noteq> [] \<and>
      (case hq_form rq of
         None \<Rightarrow> False
       | Some ps \<Rightarrow>
           form_get ps ''grant_type'' = ''authorization_code'' \<and> form_get ps ''code'' = code \<and> form_get ps ''client_id'' = form_get params ''client_id''
           \<and> form_get ps ''redirect_uri'' = form_get params ''redirect_uri'' \<and> form_get ps ''code_verifier'' \<noteq> []
           \<and> GenerateCodeChallenge e (form_get ps ''code_verifier'') = form_get params ''code_challenge''))"

lemma draws_nth: "draws w ts \<Longrightarrow> i < length ts \<Longrightarrow> ow_random w (ow_drawn w + i) = Some (ts ! i)"
  by (simp add: draws_def list_all_iff)

lemma draws_seven:
  assumes "draws w [a, b, c, d, f, g, h]"
  shows "ow_random w (ow_drawn w) = Some a" "ow_random w (Suc (ow_drawn w)) = Some b" "ow_random w (Suc (Suc (ow_drawn w))) = Some c"
    "ow_random w (Suc (Suc (Suc (ow_drawn w)))) = Some d" "ow_random w (Suc (Suc (Suc (Suc (ow_drawn w))))) = Some f"
    "ow_random w (Suc (Suc (Suc (Suc (Suc (ow_drawn w)))))) = Some g" "ow_random w (Suc (Suc (Suc (Suc (Suc (Suc (ow_drawn w))))))) = Some h"
  using assms by (simp_all add: draws_def eval_nat_numeral upt_rec)

lemma redeemed_code:
  assumes "redeems e rq params code" "hq_form rq = Some ps" "now' \<le> now + cf_code_lifetime cfg" "form_get params ''code_challenge'' \<noteq> []"
  shows "code_error e now' ps (new_code cfg code sid tok (new_auth_request cfg params sid now0) now) = None"
  using assms by (simp add: redeems_def code_error_def new_code_def new_auth_request_def Let_def past_def ptrString_def VerifyCodeChallenge_def)

lemma bearer_goes:
  assumes "ow_faults w = []" "ow_dialect w = SQLite" "hq_authorization rq = ''Bearer '' @ access"
    "tbl_find tk_token access (ot_access (ow_tables w)) = Some (new_access cfg clientID user session scope None now access)" "ow_now w \<le> now + cf_access_lifetime cfg"
  shows "\<exists>r. fst (ValidateRequest e m rq w) = Inr r \<and> re_user r = user"
proof -
  let ?tk = "new_access cfg clientID user session scope None now access"
  let ?r = "\<lparr>re_user = user, re_token = ?tk, re_scopes = (case tk_scope ?tk of Some s \<Rightarrow> ParseScopes s | None \<Rightarrow> [])\<rparr>"
  have "fst (validateBearerToken access w) = Inr ?r"
    by (subst bearer_clean) (use assms in \<open>simp_all add: good_token_def new_access_def\<close>)
  moreover have "ValidateRequest e m rq = validateBearerToken access" using assms(3) by (simp add: ValidateRequest_def)
  ultimately show ?thesis by auto
qed

text \<open>C11: Signing in works from end to end.  A proper authorization request of a registered client is redirected upstream with a fresh state; the callback with
  that state, once the upstream server has exchanged its code, redirects to the client's URI with a fresh code and the client's state; the token request that redeems
  the code with the right verifier gets tokens for the upstream subject; and a request that bears the access token is authenticated as that subject.  Time may pass
  between the steps within the lifetimes.\<close>

theorem sign_in:
  assumes "ow_faults w = []" "ow_dialect w = SQLite"
    "hq_method rq1 = ''GET''" "tbl_find oc_id (form_get (hq_query rq1) ''client_id'') (ot_clients (ow_tables w)) = Some client" "proper_authorization (hq_query rq1) client"
    "(let h = form_get (hq_query rq1) ''login_hint'' in if has_prefix h ''did:'' then Ok h else ox_resolve_handle e h) = Ok did"
    "ox_auth_server e did = Ok server" "ox_url e (form_get (hq_query rq1) ''redirect_uri'') \<noteq> None"
    "draws w [sid, st, key, v, code, access, refresh]" "unused_keys (ow_tables w) sid st code access refresh"
    "ox_key_json e key = Some kj" "ox_key_jkt e key = Some jkt" "ox_parse_key e kj = Some key'"
    "continues rq2 st" "ox_exchange e (fst server @ ''/oauth/token'') (form_get (hq_query rq2) ''code'') v (cf_callback cfg) key' = Ok tok"
    "redeems e rq3 (hq_query rq1) code" "hq_authorization rq4 = ''Bearer '' @ access"
    "t1 \<le> ow_now w + cf_code_lifetime cfg" "t2 \<le> t1 + cf_code_lifetime cfg" "t3 \<le> t2 + cf_access_lifetime cfg"
  shows "\<exists>w1 w2 w3 ps t r. HandleAuthorize e cfg rq1 w = (RedirectTo (snd server) ps, w1) \<and> map_of ps ''state'' = Some st
    \<and> HandleCallback e cfg rq2 (w1\<lparr>ow_now := t1\<rparr>) = (RedirectTo (form_get (hq_query rq1) ''redirect_uri'')
        ((''code'', code) # (if form_get (hq_query rq1) ''state'' = [] then [] else [(''state'', form_get (hq_query rq1) ''state'')])), w2)
    \<and> HandleToken e cfg rq3 (w2\<lparr>ow_now := t2\<rparr>) = (TokenAnswer t, w3) \<and> tr_access t = access \<and> tr_refresh t = refresh \<and> tr_sub t = ut_sub tok
    \<and> fst (ValidateRequest e m rq4 (w3\<lparr>ow_now := t3\<rparr>)) = Inr r \<and> re_user r = ut_sub tok"
proof -
  let ?ps = "hq_query rq1" and ?T = "ow_tables w"
  let ?ar = "new_auth_request cfg ?ps sid (ow_now w)" and ?ap = "new_atp_request cfg st (fst server) sid v jkt kj (ow_now w)"
  note u = assms(10) [unfolded unused_keys_def] and d = draws_seven [OF assms(9)] and p = assms(5) [unfolded proper_authorization_def]
  obtain scope w1 where a: "HandleAuthorize e cfg rq1 w = (RedirectTo (snd server)
       [(''client_id'', cf_client_id cfg), (''redirect_uri'', cf_callback cfg), (''response_type'', ''code''), (''code_challenge'', GenerateCodeChallenge e v),
        (''code_challenge_method'', ''S256''), (''state'', st), (''scope'', scope), (''login_hint'', did)], w1)"
     and w1: "w1 = w\<lparr>ow_drawn := Suc (Suc (Suc (Suc (ow_drawn w)))), ow_tables := ?T\<lparr>ot_auth_requests := ot_auth_requests ?T @ [?ar],
       ot_atp_requests := ot_atp_requests ?T @ [?ap], ot_sessions := ot_sessions ?T @ [new_atp_session sid did st jkt kj (ow_now w)]\<rparr>\<rparr>"
    using authorize_goes [OF assms(1,3-7) d(1-4) assms(11,12)] u by blast
  note n = assms(14) [unfolded continues_def]
  have r: "tbl_find ar_session sid (ot_auth_requests ?T @ [?ar]) = Some ?ar" by (rule tbl_find_new) (use u in \<open>simp_all add: new_auth_request_def Let_def\<close>)
  have q: "tbl_find ap_state st (ot_atp_requests ?T @ [?ap]) = Some ?ap" by (rule tbl_find_new) (use u in \<open>simp_all add: new_atp_request_def\<close>)
  have apf: "ap_nonce ?ap = sid" "ap_private_key ?ap = kj" "ap_server ?ap = fst server" "ap_verifier ?ap = v" "ap_expires_at ?ap = ow_now w + cf_code_lifetime cfg"
    by (simp_all add: new_atp_request_def)
  have arf: "ar_redirect_uri ?ar = form_get ?ps ''redirect_uri''" "ar_state ?ar = ptrString (form_get ?ps ''state'')"
    by (simp_all add: new_auth_request_def Let_def)
  obtain w2 where c: "HandleCallback e cfg rq2 (w1\<lparr>ow_now := t1\<rparr>) = (RedirectTo (ar_redirect_uri ?ar)
        ((''code'', code) # (case ar_state ?ar of None \<Rightarrow> [] | Some s \<Rightarrow> if s \<noteq> [] then [(''state'', s)] else [])), w2)"
    and w2: "tbl_find cd_code code (ot_codes (ow_tables w2)) = Some (new_code cfg code (ap_nonce ?ap) tok ?ar (ow_now (w1\<lparr>ow_now := t1\<rparr>)))"
      "ot_clients (ow_tables w2) = ot_clients (ow_tables (w1\<lparr>ow_now := t1\<rparr>))" "ot_access (ow_tables w2) = ot_access (ow_tables (w1\<lparr>ow_now := t1\<rparr>))"
      "ot_refresh (ow_tables w2) = ot_refresh (ow_tables (w1\<lparr>ow_now := t1\<rparr>))"
      "ow_faults w2 = []" "ow_dialect w2 = SQLite" "ow_drawn w2 = Suc (ow_drawn (w1\<lparr>ow_now := t1\<rparr>))" "ow_random w2 = ow_random (w1\<lparr>ow_now := t1\<rparr>)"
    by (rule callback_goes [of "w1\<lparr>ow_now := t1\<rparr>" rq2 ?ap ?ar e key' cfg tok code]) (use assms(1,2,8,13,15,18) n u d w1 r q apf arf in simp_all)
  let ?c = "new_code cfg code sid tok ?ar t1"
  obtain ps3 where f: "hq_form rq3 = Some ps3" using assms(16) by (auto simp: redeems_def split: option.splits)
  note e3 = assms(16) [unfolded redeems_def f option.case]
  have ok: "code_error e t2 ps3 ?c = None" by (rule redeemed_code [OF assms(16) f assms(19)]) (use p in simp)
  obtain w3 where t: "HandleToken e cfg rq3 (w2\<lparr>ow_now := t2\<rparr>) = (TokenAnswer \<lparr>tr_access = access, tr_type = ''Bearer'', tr_expires_in = cf_access_lifetime cfg,
      tr_refresh = refresh, tr_scope = cd_scope ?c, tr_sub = cd_user ?c\<rparr>, w3)"
    and w3: "tbl_find tk_token access (ot_access (ow_tables w3)) =
        Some (new_access cfg (form_get ps3 ''client_id'') (cd_user ?c) (cd_session ?c) (cd_scope ?c) None (ow_now (w2\<lparr>ow_now := t2\<rparr>)) access)"
      "ow_faults w3 = []" "ow_dialect w3 = SQLite"
    by (rule code_grant_goes [of "w2\<lparr>ow_now := t2\<rparr>" rq3 ps3 client ?c e access refresh cfg]) (use e3 f assms(4) p u d w1 w2 apf ok in simp_all)
  have user: "cd_user ?c = ut_sub tok" by (simp add: new_code_def)
  obtain r where v: "fst (ValidateRequest e m rq4 (w3\<lparr>ow_now := t3\<rparr>)) = Inr r" "re_user r = ut_sub tok"
    using bearer_goes [of "w3\<lparr>ow_now := t3\<rparr>" rq4 access cfg "form_get ps3 ''client_id''" "cd_user ?c" "cd_session ?c" "cd_scope ?c" t2 e m] w3 user assms(17,20) by auto
  have c': "HandleCallback e cfg rq2 (w1\<lparr>ow_now := t1\<rparr>) = (RedirectTo (form_get ?ps ''redirect_uri'')
      ((''code'', code) # (if form_get ?ps ''state'' = [] then [] else [(''state'', form_get ?ps ''state'')])), w2)"
    using c by (simp add: arf ptrString_def)
  show ?thesis
    by (intro exI conjI, rule a, simp, rule c', rule t, simp, simp, simp add: user, rule v(1), rule v(2))
qed

text \<open>What a code grant that gets tokens has shown, and what it has done.\<close>

definition granted :: "oauth_env \<Rightarrow> oauth_world \<Rightarrow> (string \<times> string) list \<Rightarrow> auth_code \<Rightarrow> bool" where
  "granted e w params c =
     (tbl_find cd_code (form_get params ''code'') (ot_codes (ow_tables w)) = Some c \<and> \<not> cd_used c \<and> ow_now w \<le> cd_expires_at c
      \<and> cd_client c = form_get params ''client_id'' \<and> cd_redirect_uri c = form_get params ''redirect_uri''
      \<and> (case cd_challenge c of
           None \<Rightarrow> True
         | Some challenge \<Rightarrow> challenge = []
             \<or> VerifyCodeChallenge e (form_get params ''code_verifier'') challenge (case cd_method c of Some m \<Rightarrow> m | None \<Rightarrow> ''S256'')))"

lemma code_error_granted:
  "tbl_find cd_code (form_get params ''code'') (ot_codes (ow_tables w)) = Some c \<Longrightarrow> code_error e (ow_now w) params c = None \<Longrightarrow> granted e w params c"
  by (auto simp: granted_def code_error_def past_def split: if_splits option.splits)

text \<open>C14: Tokens are issued for a code only when the code is stored, unused and in time, was issued to this client for this redirect URI, and the verifier matches its
  challenge; the code is then marked used, and the access and refresh tokens answered are stored for the user, session and scope of the code, the access token bound to
  the key of the proof, where the request has one, and to none otherwise.\<close>

theorem code_grant_sound:
  assumes "HandleToken e cfg rq w = (TokenAnswer t, w')" "hq_form rq = Some params" "form_get params ''grant_type'' = ''authorization_code''"
  shows "\<exists>c jkt. granted e w params c \<and> (jkt = None \<longleftrightarrow> hq_dpop rq = [])
    \<and> (\<forall>k. jkt = Some k \<longrightarrow> (\<exists>p. VerifyDPoPProof e (hq_dpop rq) ''POST'' (cf_base_url cfg @ ''/oauth/token'') DefaultMaxDPoPAge (ow_now w) = Ok p \<and> dp_jkt p = k))
    \<and> ot_codes (ow_tables w') = tbl_update (\<lambda>c. cd_code c = form_get params ''code'') (\<lambda>c. c\<lparr>cd_used := True\<rparr>) (ot_codes (ow_tables w))
    \<and> ot_access (ow_tables w') = ot_access (ow_tables w) @ [new_access cfg (cd_client c) (cd_user c) (cd_session c) (cd_scope c) jkt (ow_now w) (tr_access t)]
    \<and> ot_refresh (ow_tables w') = ot_refresh (ow_tables w) @ [new_refresh cfg (cd_client c) (cd_user c) (cd_session c) (cd_scope c) (ow_now w) (tr_access t) (tr_refresh t)]
    \<and> tr_sub t = cd_user c \<and> tr_scope t = cd_scope c \<and> tr_type t = token_type jkt"
proof -
  have "handleAuthorizationCodeGrant e cfg rq params w = (TokenAnswer t, w')" using assms by (auto simp: HandleToken_def split: if_splits)
  then show ?thesis
  proof (rule code_grant_cases)
    fix c jkt fs v
    assume c: "tbl_find cd_code (form_get params ''code'') (ot_codes (ow_tables w)) = Some c" "code_error e (ow_now w) params c = None"
      and d: "validateDPoP e cfg rq (w\<lparr>ow_faults := fs\<rparr>) = (Inr jkt, v)" and i: "code_issue cfg params c jkt v = (TokenAnswer t, w')"
    let ?k = "form_get params ''code''" and ?mark = "\<lambda>c. c\<lparr>cd_used := True\<rparr>"
    note g = code_error_granted [OF c]
    from i obtain v' where m: "Codes_MarkUsed ?k v = (Inr (), v')"
      and t: "issue_tokens cfg (form_get params ''client_id'') (cd_user c) (cd_session c) (cd_scope c) jkt v' = (TokenAnswer t, w')"
      unfolding code_issue_def by (auto elim!: tried_cases)
    have v': "ow_tables v' = (ow_tables v)\<lparr>ot_codes := tbl_update (\<lambda>c. cd_code c = ?k) ?mark (ot_codes (ow_tables v))\<rparr> \<and> ow_now v' = ow_now v"
      using m unfolding Codes_MarkUsed_def by (auto dest!: boolean_Ok simp: modify_def)
    have v: "ot_codes (ow_tables v) = ot_codes (ow_tables w) \<and> ot_access (ow_tables v) = ot_access (ow_tables w) \<and> ot_refresh (ow_tables v) = ot_refresh (ow_tables w)
        \<and> ow_now v = ow_now w \<and> (jkt = None \<longleftrightarrow> hq_dpop rq = [])
        \<and> (\<forall>k. jkt = Some k \<longrightarrow> (\<exists>p. VerifyDPoPProof e (hq_dpop rq) ''POST'' (cf_base_url cfg @ ''/oauth/token'') DefaultMaxDPoPAge (ow_now w) = Ok p \<and> dp_jkt p = k))"
      using validateDPoP_Ok [OF d] by auto
    have cl: "cd_client c = form_get params ''client_id''" using g by (simp add: granted_def)
    from issue_tokens_Ok [OF t] have "tr_sub t = cd_user c \<and> tr_scope t = cd_scope c \<and> tr_type t = token_type jkt" by (metis token_response.select_convs)
    then show ?thesis using g v v' issue_tokens_Ok [OF t] by (intro exI [of _ c] exI [of _ jkt]) (simp add: cl)
  qed
qed

section \<open>A sample server\<close>

definition sample_jwk :: jwk where
  "sample_jwk = \<lparr>jk_kty = ''EC'', jk_crv = ''P-256'', jk_x = ''AQ'', jk_y = ''AQ''\<rparr>"

definition sample_oauth :: oauth_env where
  "sample_oauth = \<lparr>ox_sha256 = (\<lambda>s. s), ox_header = (\<lambda>_. Some \<lparr>jh_typ = ''dpop+jwt'', jh_alg = ''ES256'', jh_jwk = Some sample_jwk\<rparr>),
     ox_point = (\<lambda>_. True), ox_claims = (\<lambda>_. Some \<lparr>dc_htm = ''GET'', dc_htu = ''http:/x'', dc_id = ''j'', dc_iat = Some 100\<rparr>), ox_verifies = (\<lambda>_ _ _. True), ox_unicode = ascii_unicode,
     ox_url = (\<lambda>_. Some \<lparr>url_scheme = ''https'', url_host = ''h'', url_hostname = ''h'', url_fragment = []\<rparr>), ox_resolve_handle = (\<lambda>_. Err ''none''),
     ox_auth_server = (\<lambda>_. Ok (''s'', ''s/authorize'')),
     ox_exchange = (\<lambda>_ _ _ _ _. Ok \<lparr>ut_sub = ''did:b'', ut_access = ''x'', ut_refresh = ''y'', ut_expires_in = 60, ut_scope = None\<rparr>),
     ox_key_json = Some, ox_key_jkt = Some, ox_parse_key = Some\<rparr>"

definition sample_oauth_cfg :: oauth_config where
  "sample_oauth_cfg = \<lparr>cf_base_url = ''u'', cf_client_id = ''i'', cf_callback = ''u/cb'', cf_access_lifetime = 3600, cf_refresh_lifetime = 9000, cf_code_lifetime = 600\<rparr>"

definition sample_client :: oauth_client where
  "sample_client = (admin_client 0)\<lparr>oc_id := ''c'', oc_redirect_uris := [''r'']\<rparr>"

definition sample_access :: access_token where
  "sample_access = new_access sample_oauth_cfg ''c'' ''did:a'' None None (Some (CalculateJKTFromJWK sample_oauth sample_jwk)) 50 ''t''"

definition sample_oauth_world :: oauth_world where
  "sample_oauth_world = \<lparr>ow_tables = \<lparr>ot_clients = [sample_client], ot_access = [sample_access], ot_refresh = [],
       ot_codes = [\<lparr>cd_code = ''k'', cd_client = ''c'', cd_user = ''did:a'', cd_session = None, cd_iteration = None, cd_redirect_uri = ''r'', cd_scope = None,
         cd_challenge = Some ''dg'', cd_method = None, cd_nonce = None, cd_created_at = 50, cd_expires_at = 650, cd_used = False\<rparr>],
       ot_pars = [], ot_nonces = [], ot_jtis = [], ot_auth_requests = [], ot_sessions = [], ot_atp_requests = []\<rparr>,
     ow_dialect = SQLite, ow_faults = [], ow_now = 120, ow_random = (\<lambda>n. Some (replicate (Suc n) CHR ''n'')), ow_drawn = 0\<rparr>"

definition oauth_request :: http_request where
  "oauth_request = \<lparr>hq_method = ''POST'', hq_authorization = [], hq_dpop = [], hq_path = ''/x'', hq_raw_query = [], hq_query = [], hq_form = None\<rparr>"

definition code_request :: http_request where
  "code_request = oauth_request\<lparr>hq_form := Some [(''grant_type'', ''authorization_code''), (''code'', ''k''), (''client_id'', ''c''), (''redirect_uri'', ''r''),
     (''code_verifier'', ''v'')]\<rparr>"

definition bound_request :: http_request where
  "bound_request = oauth_request\<lparr>hq_method := ''GET'', hq_authorization := ''DPoP t'', hq_dpop := ''AA.AA.AA''\<rparr>"

definition revoke_request :: http_request where
  "revoke_request = oauth_request\<lparr>hq_form := Some [(''token'', ''t'')]\<rparr>"

definition sample_tokens :: token_response where
  "sample_tokens = \<lparr>tr_access = ''n'', tr_type = ''Bearer'', tr_expires_in = 3600, tr_refresh = ''nn'', tr_scope = None, tr_sub = ''did:a''\<rparr>"

lemma sample_never: "hd k \<noteq> CHR ''n'' \<Longrightarrow> never_again sample_oauth_world k"
  by (auto simp: never_again_def sample_oauth_world_def)

lemma code_request_goes: "fst (HandleToken sample_oauth sample_oauth_cfg code_request sample_oauth_world) = TokenAnswer sample_tokens"
  by code_simp

lemma code_request_world:
  "HandleToken sample_oauth sample_oauth_cfg code_request sample_oauth_world =
    (TokenAnswer sample_tokens, snd (HandleToken sample_oauth sample_oauth_cfg code_request sample_oauth_world))"
  by (rule prod_eqI) (simp_all add: code_request_goes)

lemma bound_request_goes: "isl (fst (ValidateRequest sample_oauth (NewAuthMiddleware ''http:/'') bound_request sample_oauth_world)) = False"
  by code_simp

lemma bound_accepted:
  "proof_accepted sample_oauth sample_oauth_cfg (NewAuthMiddleware ''http:/'') bound_request sample_oauth_world
    (snd (ValidateRequest sample_oauth (NewAuthMiddleware ''http:/'') bound_request sample_oauth_world))"
proof -
  obtain r where "fst (ValidateRequest sample_oauth (NewAuthMiddleware ''http:/'') bound_request sample_oauth_world) = Inr r"
    using bound_request_goes by (cases "fst (ValidateRequest sample_oauth (NewAuthMiddleware ''http:/'') bound_request sample_oauth_world)") auto
  then have v: "ValidateRequest sample_oauth (NewAuthMiddleware ''http:/'') bound_request sample_oauth_world =
      (Inr r, snd (ValidateRequest sample_oauth (NewAuthMiddleware ''http:/'') bound_request sample_oauth_world))" by (metis prod.collapse)
  show ?thesis unfolding proof_accepted_def by (rule disjI1, subst v) (simp add: bound_request_def has_prefix_def)
qed

text \<open>Witness: a code is redeemed, then the clean-up runs; the code is refused.\<close>

theorem grants_single_use_witness:
  "fst (HandleToken sample_oauth sample_oauth_cfg code_request
     (cleanup (snd (HandleToken sample_oauth sample_oauth_cfg code_request sample_oauth_world)))) \<noteq> TokenAnswer sample_tokens"
  by (rule grants_single_use [OF code_request_world, where grant = "''authorization_code''" and k = "''k''"])
    (auto simp: presents_def code_request_def form_get_def sample_never intro: step_cleanup)

text \<open>Witness: the access token is revoked and time passes.\<close>

theorem revoked_stays_revoked_witness:
  "\<exists>x. fst (ValidateRequest sample_oauth (NewAuthMiddleware ''http:/'') bound_request ((snd (HandleRevoke revoke_request sample_oauth_world))\<lparr>ow_now := 130\<rparr>)) = Inl x"
proof -
  let ?w = "snd (HandleRevoke revoke_request sample_oauth_world)"
  have h: "HandleRevoke revoke_request sample_oauth_world = (Empty200, ?w)" by (rule prod_eqI) (simp, code_simp, simp)
  have n: "ow_now ?w = 120" by code_simp
  have s: "ow_dialect sample_oauth_world = SQLite" "ow_faults sample_oauth_world = []" by (simp_all add: sample_oauth_world_def)
  have f: "hq_form revoke_request = Some [(''token'', ''t'')]" by (simp add: revoke_request_def)
  have k: "form_get [(''token'', ''t'')] ''token'' = ''t''" by (simp add: form_get_def)
  have b: "bears bound_request ''t''" by code_simp
  have r: "oauth_run sample_oauth sample_oauth_cfg ?w (?w\<lparr>ow_now := 130\<rparr>)" by (rule r_into_rtranclp, rule step_time) (simp add: n)
  show ?thesis using revoked_stays_revoked [OF h s f _ r, of bound_request "NewAuthMiddleware ''http:/''" sample_tokens] b by (simp add: k sample_never)
qed


text \<open>Witness: the bound token authenticates its user.\<close>

theorem ValidateRequest_exact_witness:
  "fst (ValidateRequest sample_oauth (NewAuthMiddleware ''http:/'') bound_request sample_oauth_world)
    = Inr \<lparr>re_user = ''did:a'', re_token = sample_access, re_scopes = []\<rparr>"
  by (subst ValidateRequest_exact) (simp add: sample_oauth_world_def, simp add: sample_oauth_world_def, code_simp)

theorem postgres_never_grants_witness:
  "fst (HandleToken sample_oauth sample_oauth_cfg code_request (sample_oauth_world\<lparr>ow_dialect := PostgreSQL\<rparr>)) \<noteq> TokenAnswer sample_tokens
    \<and> ow_tables (snd (HandleRevoke revoke_request (sample_oauth_world\<lparr>ow_dialect := PostgreSQL\<rparr>))) = ow_tables sample_oauth_world"
  using postgres_never_grants [of "sample_oauth_world\<lparr>ow_dialect := PostgreSQL\<rparr>"] by simp

theorem code_grant_sound_witness:
  "\<exists>c jkt. granted sample_oauth sample_oauth_world [(''grant_type'', ''authorization_code''), (''code'', ''k''), (''client_id'', ''c''), (''redirect_uri'', ''r''),
     (''code_verifier'', ''v'')] c \<and> jkt = (None :: string option)
    \<and> ot_access (ow_tables (snd (HandleToken sample_oauth sample_oauth_cfg code_request sample_oauth_world)))
      = [sample_access, new_access sample_oauth_cfg (cd_client c) (cd_user c) (cd_session c) (cd_scope c) jkt 120 ''n'']"
proof -
  have f: "hq_form code_request = Some [(''grant_type'', ''authorization_code''), (''code'', ''k''), (''client_id'', ''c''), (''redirect_uri'', ''r''), (''code_verifier'', ''v'')]"
    by (simp add: code_request_def)
  have "hq_dpop code_request = []" "ow_now sample_oauth_world = 120" "ot_access (ow_tables sample_oauth_world) = [sample_access]" "tr_access sample_tokens = ''n''"
    by (simp_all add: code_request_def oauth_request_def sample_oauth_world_def sample_tokens_def)
  then show ?thesis using code_grant_sound [OF code_request_world f] by (auto simp: form_get_def)
qed

definition authorize_request :: http_request where
  "authorize_request = oauth_request\<lparr>hq_method := ''GET'', hq_query := [(''client_id'', ''c''), (''redirect_uri'', ''r''), (''response_type'', ''code''),
     (''code_challenge'', ''dg''), (''login_hint'', ''did:b''), (''state'', ''z'')]\<rparr>"

definition callback_request :: http_request where
  "callback_request = oauth_request\<lparr>hq_method := ''GET'', hq_query := [(''code'', ''q''), (''state'', ''nn'')]\<rparr>"

definition redeem_request :: http_request where
  "redeem_request = oauth_request\<lparr>hq_form := Some [(''grant_type'', ''authorization_code''), (''code'', ''nnnnn''), (''client_id'', ''c''), (''redirect_uri'', ''r''),
     (''code_verifier'', ''v'')]\<rparr>"

definition bearer_request :: http_request where
  "bearer_request = oauth_request\<lparr>hq_authorization := ''Bearer nnnnnn''\<rparr>"

text \<open>Witness: a user signs in, with half a minute between the steps.\<close>

theorem sign_in_witness:
  "\<exists>w1 w2 w3 ps t r. HandleAuthorize sample_oauth sample_oauth_cfg authorize_request sample_oauth_world = (RedirectTo ''s/authorize'' ps, w1)
    \<and> map_of ps ''state'' = Some ''nn''
    \<and> HandleCallback sample_oauth sample_oauth_cfg callback_request (w1\<lparr>ow_now := 150\<rparr>) = (RedirectTo ''r'' [(''code'', ''nnnnn''), (''state'', ''z'')], w2)
    \<and> HandleToken sample_oauth sample_oauth_cfg redeem_request (w2\<lparr>ow_now := 180\<rparr>) = (TokenAnswer t, w3)
    \<and> tr_access t = ''nnnnnn'' \<and> tr_refresh t = ''nnnnnnn'' \<and> tr_sub t = ''did:b''
    \<and> fst (ValidateRequest sample_oauth (NewAuthMiddleware ''http:/'') bearer_request (w3\<lparr>ow_now := 210\<rparr>)) = Inr r \<and> re_user r = ''did:b''"
proof -
  let ?tok = "\<lparr>ut_sub = ''did:b'', ut_access = ''x'', ut_refresh = ''y'', ut_expires_in = 60, ut_scope = None\<rparr>"
  have c: "ow_faults sample_oauth_world = []" "ow_dialect sample_oauth_world = SQLite" by (simp_all add: sample_oauth_world_def)
  have a: "hq_method authorize_request = ''GET''"
    "tbl_find oc_id (form_get (hq_query authorize_request) ''client_id'') (ot_clients (ow_tables sample_oauth_world)) = Some sample_client"
    "proper_authorization (hq_query authorize_request) sample_client"
    "(let h = form_get (hq_query authorize_request) ''login_hint'' in if has_prefix h ''did:'' then Ok h else ox_resolve_handle sample_oauth h) = Ok ''did:b''"
    "ox_auth_server sample_oauth ''did:b'' = Ok (''s'', ''s/authorize'')" "ox_url sample_oauth (form_get (hq_query authorize_request) ''redirect_uri'') \<noteq> None"
    by code_simp+
  have d: "draws sample_oauth_world [''n'', ''nn'', ''nnn'', ''nnnn'', ''nnnnn'', ''nnnnnn'', ''nnnnnnn'']"
    "unused_keys (ow_tables sample_oauth_world) ''n'' ''nn'' ''nnnnn'' ''nnnnnn'' ''nnnnnnn''" by code_simp+
  have k: "ox_key_json sample_oauth ''nnn'' = Some ''nnn''" "ox_key_jkt sample_oauth ''nnn'' = Some ''nnn''" "ox_parse_key sample_oauth ''nnn'' = Some ''nnn''"
    by (simp_all add: sample_oauth_def)
  have r: "continues callback_request ''nn''"
    "ox_exchange sample_oauth (fst (''s'', ''s/authorize'') @ ''/oauth/token'') (form_get (hq_query callback_request) ''code'') ''nnnn'' (cf_callback sample_oauth_cfg) ''nnn'' = Ok ?tok"
    "redeems sample_oauth redeem_request (hq_query authorize_request) ''nnnnn''" "hq_authorization bearer_request = ''Bearer '' @ ''nnnnnn''" by code_simp+
  have t: "(150 :: int) \<le> ow_now sample_oauth_world + cf_code_lifetime sample_oauth_cfg" "(180 :: int) \<le> 150 + cf_code_lifetime sample_oauth_cfg"
    "(210 :: int) \<le> 180 + cf_access_lifetime sample_oauth_cfg" by (simp_all add: sample_oauth_world_def sample_oauth_cfg_def)
  show ?thesis using sign_in [OF c a d k r t, of "NewAuthMiddleware ''http:/''"] by (simp add: authorize_request_def form_get_def)
qed

end
