(* ===== verification/Spec2Isabelle.thy ===== *)
theory Spec2Isabelle
  imports Nsid Lexicon_Parser Lexicon_Registry Lexicon_Validator Cursors Graph_Closure Endorsement_Query Endorsement_Closure Db_Store Json_Time Validation_Gate Records_Repo Writer_Interleaving Backfill_Batch
    Keyset_Paging Versions_Repo Actors_Repo Pub_Sub Tap_Handler Tap_Consumer Validation_Refresh Record_Filters External_Labels Label_Lookup Label_Subscriber Sorted_Pages Sorted_Paging Where_Filters Record_Connection Connection_Walk OAuth_Guarantees
begin

text \<open>
  A verification library for Hyperindex, an AT Protocol indexer written in Go.

  \<^bold>\<open>The program.\<close>  Hyperindex receives record and identity events from a Tap WebSocket, judges every record against a saved set of
  Lexicon schemas, stores it with its verdict in PostgreSQL or SQLite, keeps past versions of selected collections, publishes the change to live
  subscribers and acknowledges the event.  Backfill batches write the same tables.  Labels of external labelers are read over their own streams.
  A GraphQL layer reads the tables: filtered and sorted pages with cursors, label lookups, and the closure of the endorsement graph.  An OAuth server
  signs users in through their own server, issues tokens and authenticates requests.

  \<^bold>\<open>Shared ground.\<close>
  \<^item> \<open>Go_Prelude\<close>: results of fallible functions (\<open>err + 'a\<close>), 64-bit counters, UTF-8 decoding, and what the code uses of the packages
    strings, sort and fmt; the theorem collections \<open>go_simps\<close>, \<open>db_simps\<close>, \<open>db_env\<close>, \<open>table_simps\<close>.
  \<^item> \<open>Db_Store\<close>: the tables as lists of rows, statements as functions on the store, transactions that restore it on error, and a
    script of faults that decides which statement fails; locale \<open>keyed_table\<close> is the contract of INSERT ... ON CONFLICT, interpreted
    for every upsert of the repositories.
  \<^item> \<open>Json_Time\<close> (atproto/time.go) and \<open>Nsid\<close> (lexicon/nsid.go, atproto/collections.go): creation times, NSIDs, references,
    GraphQL names.

  \<^bold>\<open>Schemas and verdicts.\<close>
  \<^item> \<open>Lexicon_Parser\<close>, \<open>Lexicon_Registry\<close> (internal/lexicon): the documents, their decoding with error texts, and the three maps of
    the registry, which refine a map from ids to documents.
  \<^item> \<open>Validation_Gate\<close> (validation/status.go): statuses and the locale \<open>record_validator_spec\<close> of a validator, interpreted on the disabled
    validator and, in \<open>Lexicon_Validator\<close> (validation/validator.go), on the validator of a startup set.  There: the graph of
    references between documents, its closure check, fingerprints, record keys, verdicts.
  \<^item> \<open>Validation_Refresh\<close> (validationrefresh/scheduler.go): the startup pass that judges stored records again.

  \<^bold>\<open>Writing.\<close>
  \<^item> \<open>Records_Repo\<close> (repositories/records.go): upserts with validation, repair of same-CID rows, inserts, lookups, deletes, account purge.
  \<^item> \<open>Writer_Interleaving\<close>: the same upsert cut at its statements and interleaved with other writers, as a step relation.
  \<^item> \<open>Backfill_Batch\<close>: batches for backfill, their normalisation, the FNV-64a lock key as a 64-bit word, the shard lock.
  \<^item> \<open>Versions_Repo\<close> (record_versions.go), \<open>Actors_Repo\<close> (actors.go): history and accounts.
  \<^item> \<open>Pub_Sub\<close> (graphql/subscription/pubsub.go): the hub, with hub operations interleaved as a step relation.
  \<^item> \<open>Tap_Handler\<close> (tap/event.go, tap/handler.go) and \<open>Tap_Consumer\<close> (tap/consumer.go): parsing, handling, dispatch, acknowledgement,
    reconnection; locale \<open>event_handler\<close> is what the consumer needs of a handler, interpreted on the index handler.
  \<^item> \<open>External_Labels\<close>, \<open>Label_Lookup\<close> (external_labels.go), \<open>Label_Subscriber\<close> (labeler/subscriber.go): label storage with cursors,
    lookups by subject, and the subscription loop over them.

  \<^bold>\<open>Reading.\<close>
  \<^item> \<open>Record_Filters\<close> (records.go): field, array, badge, contributor, DID and label filters as condition terms with numbered
    placeholders; the lemmas give what the built conditions mean on a row.
  \<^item> \<open>Sorted_Pages\<close>, \<open>Sorted_Paging\<close> (records.go, records_created_at_keyset.go, graphql/schema/builder.go): ORDER BY, keyset
    conditions, segments, pages in both directions, counts.  Locale \<open>row_order\<close> holds what follows from an ORDER BY being a strict order.
  \<^item> \<open>Keyset_Paging\<close>: the shape of the page loops over a unique key.  \<open>Cursors\<close> (builder.go): base64 and JSON of cursor values.
  \<^item> \<open>Graph_Closure\<close> (graphclosure/closure.go), \<open>Endorsement_Query\<close> (records_endorsement.go), \<open>Endorsement_Closure\<close>
    (graphql/schema/endorsement_closure.go): the bounded closure over an adjacency source (locale \<open>adjacency_source\<close>, interpreted on the
    endorsement statement), and its GraphQL arguments, filters and pages.

  \<^item> \<open>Where_Filters\<close> (builder.go, nested_filters.go, collection_filter_extensions.go): the where argument of a query, turned into filters for any
    iteration order of the Go map.  \<open>Record_Connection\<close> (builder.go): the connection resolver with its arguments, pages in both directions, edges,
    cursors, page information and attached labels, authors and profiles.  \<open>Connection_Walk\<close>: a client that follows the cursors.

  \<^bold>\<open>Signing in.\<close>
  \<^item> \<open>OAuth_Store\<close> (repositories/oauth_*.go, oauth/types.go): the ten tables and every statement over them.  \<open>OAuth_Tokens\<close> (oauth/pkce.go, scopes.go,
    token_generator.go, dpop.go, middleware.go): verification of proofs and authentication of requests.  \<open>OAuth_Server\<close> (server/oauth_handlers.go,
    oauth_par.go, oauth_register.go): the endpoints.
  \<^item> \<open>OAuth_Safety\<close>: the life of the server as a step relation over requests, clean-up, administration, time and failing statements; locale
    \<open>spendable\<close> holds what follows for a table whose rows can be spent, interpreted for codes, refresh and access tokens.
    \<open>OAuth_Guarantees\<close>: the properties of the endpoints.

  \<^bold>\<open>What is shown.\<close>  Each property stands after a text that names it.
  Of writing: what a stored row says of the write it came from (C1), atomic deletes and purges, all-or-nothing batches, acknowledgement only after
  the effect is durable, verdicts that fit the content they stand beside under every interleaving, a refresh that settles every verdict,
  no event that can never be handled, redelivery without effect.  Of labels: append-only
  histories, cursors that never move back, exact lookups, subscriptions that resume or stop for good.  Of reading: pages that neither skip nor
  repeat a record, a walk along the cursors that reads exactly the listing and ends, filters that mean what was asked in whatever order they are read, closures with exactly the accounts at the requested distances, cursor round trips.
  Of schemas: well-formed parses, a registry that refines a map, exact reachability and fingerprints, loading that leaves no reference
  open, and the verdict on every branch.  Of signing in: a flow that works from end to end, grants good once, proofs accepted once, final revocations,
  exactly who is authenticated, and that PostgreSQL issues no token.  A request is one step there: two requests whose statements interleave are not covered,
  and the code does admit two redemptions of one code that way.

  \<^bold>\<open>Parameters.\<close>  Code that is not part of the repository is an argument: JSON decoding, SHA-256, RFC 3339 parsing, Unicode tables, Indigo's
  schema catalogue and DID parser, elliptic curves and the JWT library, random tokens, URL parsing, the answers of other servers, the WebSocket dialler and stream readers, the database's reading of JSON and timestamp texts.  What the proofs need
  of them is a hypothesis of the theorem, met by a concrete instance in its witness.

  \<^bold>\<open>Loops and fuel.\<close>  Loops are structural recursion or functions with a measure (the breadth-first search by its unseen accounts, the refresh by the rows
  after its cursor, the page loops by the rows left).  The array parser of \<open>Cursors\<close> has fuel one more than its input, enough because every
  element consumes a character (\<open>elements_fuel\<close>).  Endless loops (the consumer, the label subscription) are run over a
  list of what their connections deliver, of any length.

  \<^bold>\<open>Not modelled.\<close>  Search, timeline, iteration and statistics queries of records.go; GraphQL type construction, websocket subscriptions and
  the admin API, which are calls of graphql-go around the repositories; the OAuth client towards other servers, DID resolution and its cache, the making of
  proofs, discovery documents; HTTP routing, configuration, migrations and the process entry point; the HTTP clients and worker pool of backfill; the Lexicon resolver (DNS and HTTP); timers, pings and logging.  The web client is not Go code.
\<close>

end
